(* ===== verification/Prelude.thy ===== *)
theory Prelude
  imports "HOL-Library.Word" "HOL-Library.Monad_Syntax"
begin

text \<open>
  The vocabulary every component shares. A Rust computation that may panic is a value of
  type \<open>'a option\<close>: \<open>None\<close> is a panic (or a loop that does not return) and \<open>Some x\<close> is a
  normal return of \<open>x\<close>. The model is the one of a build with debug assertions and overflow
  checks: \<open>debug_assert!\<close> and an arithmetic overflow panic. A theorem that an operation
  returns \<open>Some\<close> therefore also says that a release build, where these checks are absent,
  computes the same value. A recoverable \<open>Result\<close> is a sum, \<open>Inl\<close> for \<open>Err\<close> and \<open>Inr\<close>
  for \<open>Ok\<close>. A \<open>usize\<close> or \<open>u64\<close> is a natural number below \<open>2 ^ 64\<close> and an \<open>i32\<close> an integer
  in \<open>-2 ^ 31 ..< 2 ^ 31\<close>; bytes and 16-bit or 32-bit tags are machine words.
\<close>

named_theorems checked_simps \<open>when checked arithmetic and checked accesses return\<close>
named_theorems default_defs \<open>initial values of the structs\<close>

type_synonym u8 = "8 word"
type_synonym u16 = "16 word"
type_synonym u32 = "32 word"

section \<open>Assertions and checked arithmetic\<close>

definition debug_assert :: "bool \<Rightarrow> unit option" where
  "debug_assert b = (if b then Some () else None)"

text \<open>\<open>b || m\<close> and \<open>b && m\<close>, whose right operand is only evaluated when it is needed.\<close>

definition lazy_or :: "bool \<Rightarrow> bool option \<Rightarrow> bool option" where
  "lazy_or b m = (if b then Some True else m)"

definition lazy_and :: "bool \<Rightarrow> bool option \<Rightarrow> bool option" where
  "lazy_and b m = (if b then m else Some False)"

definition in_i32 :: "int \<Rightarrow> bool" where
  "in_i32 x \<longleftrightarrow> - 2147483648 \<le> x \<and> x \<le> 2147483647"

definition i32_MAX :: int where
  "i32_MAX = 2147483647"

definition i32_add :: "int \<Rightarrow> int \<Rightarrow> int option" where
  "i32_add a b = (if in_i32 (a + b) then Some (a + b) else None)"

definition i32_sub :: "int \<Rightarrow> int \<Rightarrow> int option" where
  "i32_sub a b = (if in_i32 (a - b) then Some (a - b) else None)"

definition usize_add :: "nat \<Rightarrow> nat \<Rightarrow> nat option" where
  "usize_add a b = (if a + b < 2 ^ 64 then Some (a + b) else None)"

definition usize_sub :: "nat \<Rightarrow> nat \<Rightarrow> nat option" where
  "usize_sub a b = (if b \<le> a then Some (a - b) else None)"

text \<open>\<open>usize::try_from(x).unwrap()\<close> on an \<open>i32\<close>.\<close>

definition usize_try_from :: "int \<Rightarrow> nat option" where
  "usize_try_from x = (if 0 \<le> x then Some (nat x) else None)"

text \<open>\<open>xs[i]\<close> and \<open>xs[i] = v\<close>, which panic out of range.\<close>

definition index_at :: "'a list \<Rightarrow> nat \<Rightarrow> 'a option" where
  "index_at xs i = (if i < length xs then Some (xs ! i) else None)"

definition store_at :: "'a list \<Rightarrow> nat \<Rightarrow> 'a \<Rightarrow> 'a list option" where
  "store_at xs i v = (if i < length xs then Some (xs[i := v]) else None)"

text \<open>\<open>xs[a..b]\<close>, which panics unless \<open>a <= b <= xs.len()\<close>.\<close>

definition slice_at :: "'a list \<Rightarrow> nat \<Rightarrow> nat \<Rightarrow> 'a list option" where
  "slice_at xs a b = (if a \<le> b \<and> b \<le> length xs then Some (take (b - a) (drop a xs)) else None)"

lemma debug_assert_Some [checked_simps, simp]: "debug_assert b = Some u \<longleftrightarrow> b"
  by (simp add: debug_assert_def)

lemma debug_assert_True [simp]: "debug_assert True = Some ()"
  by (simp add: debug_assert_def)

lemma debug_assert_False [simp]: "debug_assert False = None"
  by (simp add: debug_assert_def)

lemma lazy_or_True [simp]: "lazy_or True m = Some True"
  by (simp add: lazy_or_def)

lemma lazy_or_False [simp]: "lazy_or False m = m"
  by (simp add: lazy_or_def)

lemma lazy_and_True [simp]: "lazy_and True m = m"
  by (simp add: lazy_and_def)

lemma lazy_and_False [simp]: "lazy_and False m = Some False"
  by (simp add: lazy_and_def)

lemma i32_add_ok [simp]: "in_i32 (a + b) \<Longrightarrow> i32_add a b = Some (a + b)"
  by (simp add: i32_add_def)

lemma i32_sub_ok [simp]: "in_i32 (a - b) \<Longrightarrow> i32_sub a b = Some (a - b)"
  by (simp add: i32_sub_def)

lemma i32_add_Some [checked_simps]: "i32_add a b = Some c \<longleftrightarrow> in_i32 (a + b) \<and> c = a + b"
  by (auto simp: i32_add_def)

lemma i32_sub_Some [checked_simps]: "i32_sub a b = Some c \<longleftrightarrow> in_i32 (a - b) \<and> c = a - b"
  by (auto simp: i32_sub_def)

lemma usize_add_ok [simp]: "a + b < 2 ^ 64 \<Longrightarrow> usize_add a b = Some (a + b)"
  by (simp add: usize_add_def)

lemma usize_sub_ok [simp]: "b \<le> a \<Longrightarrow> usize_sub a b = Some (a - b)"
  by (simp add: usize_sub_def)

lemma usize_add_Some [checked_simps]: "usize_add a b = Some c \<longleftrightarrow> a + b < 2 ^ 64 \<and> c = a + b"
  by (auto simp: usize_add_def)

lemma usize_sub_Some [checked_simps]: "usize_sub a b = Some c \<longleftrightarrow> b \<le> a \<and> c = a - b"
  by (auto simp: usize_sub_def)

lemma usize_try_from_ok [simp]: "0 \<le> x \<Longrightarrow> usize_try_from x = Some (nat x)"
  by (simp add: usize_try_from_def)

lemma usize_try_from_neg [simp]: "x < 0 \<Longrightarrow> usize_try_from x = None"
  by (simp add: usize_try_from_def)

lemma usize_try_from_Some [checked_simps]: "usize_try_from x = Some n \<longleftrightarrow> 0 \<le> x \<and> n = nat x"
  by (auto simp: usize_try_from_def)

lemma index_at_ok [simp]: "i < length xs \<Longrightarrow> index_at xs i = Some (xs ! i)"
  by (simp add: index_at_def)

lemma index_at_Some [checked_simps]: "index_at xs i = Some x \<longleftrightarrow> i < length xs \<and> x = xs ! i"
  by (auto simp: index_at_def)

lemma store_at_ok [simp]: "i < length xs \<Longrightarrow> store_at xs i v = Some (xs[i := v])"
  by (simp add: store_at_def)

lemma store_at_Some [checked_simps]: "store_at xs i v = Some ys \<longleftrightarrow> i < length xs \<and> ys = xs[i := v]"
  by (auto simp: store_at_def)

lemma slice_at_ok [simp]:
  "a \<le> b \<Longrightarrow> b \<le> length xs \<Longrightarrow> slice_at xs a b = Some (take (b - a) (drop a xs))"
  by (simp add: slice_at_def)

lemma slice_at_Some [checked_simps]:
  "slice_at xs a b = Some ys \<longleftrightarrow> a \<le> b \<and> b \<le> length xs \<and> ys = take (b - a) (drop a xs)"
  by (auto simp: slice_at_def)

section \<open>Applying a computation to every element\<close>

primrec traverse :: "('a \<Rightarrow> 'b option) \<Rightarrow> 'a list \<Rightarrow> 'b list option" where
  "traverse f [] = Some []"
| "traverse f (x # xs) = do { y \<leftarrow> f x; ys \<leftarrow> traverse f xs; Some (y # ys) }"

lemma traverse_Some:
  "traverse f xs = Some ys \<longleftrightarrow> length ys = length xs \<and> (\<forall>i < length xs. f (xs ! i) = Some (ys ! i))"
proof (induction xs arbitrary: ys)
  case (Cons x xs)
  show ?case
    by (cases ys) (auto simp: bind_eq_Some_conv Cons.IH nth_Cons split: nat.splits)
qed auto

lemma traverse_exists:
  assumes "\<And>i. i < length xs \<Longrightarrow> \<exists>y. f (xs ! i) = Some y \<and> P i y"
  obtains ys where "traverse f xs = Some ys" and "length ys = length xs"
    and "\<And>i. i < length xs \<Longrightarrow> f (xs ! i) = Some (ys ! i) \<and> P i (ys ! i)"
proof -
  let ?y = "\<lambda>i. SOME y. f (xs ! i) = Some y \<and> P i y"
  have y: "f (xs ! i) = Some (?y i) \<and> P i (?y i)" if "i < length xs" for i
    using someI_ex[OF assms[OF that]] .
  have "traverse f xs = Some (map ?y [0 ..< length xs])"
    using y by (simp add: traverse_Some)
  then show ?thesis using y by (intro that[of "map ?y [0 ..< length xs]"]) auto
qed

section \<open>Overwriting a segment of a buffer\<close>

definition write_seg :: "'a list \<Rightarrow> nat \<Rightarrow> 'a list \<Rightarrow> 'a list" where
  "write_seg xs p ys = take p xs @ ys @ drop (p + length ys) xs"

lemma length_write_seg [simp]: "p + length ys \<le> length xs \<Longrightarrow> length (write_seg xs p ys) = length xs"
  by (simp add: write_seg_def)

lemma write_seg_frontier:
  "length seen = p \<Longrightarrow> write_seg (seen @ rest) p ys = seen @ ys @ drop (length ys) rest"
  by (simp add: write_seg_def)

section \<open>Ring positions\<close>

text \<open>Two indices less than a ring's length apart share a slot only when they are equal.\<close>

lemma mod_ring_inj:
  fixes i j n :: nat
  assumes "i mod n = j mod n" and "i \<le> j" and "j < i + n"
  shows "i = j"
proof -
  from assms(1,2) have "n dvd j - i"
    by (metis mod_eq_dvd_iff_nat)
  with assms(3) show ?thesis
    using assms(2) nat_dvd_not_less[of "j - i" n] by (cases "j - i = 0") auto
qed

end
