(* ===== verification/Frames.thy ===== *)
theory Frames
  imports Prelude
begin

unbundle bit_operations_syntax

text \<open>
  The types of \<^verbatim>\<open>backroll/src/lib.rs\<close> and the containers at the top of
  \<^verbatim>\<open>backroll/src/input.rs\<close>: frame numbers, errors, the input of one player for one frame
  (\<open>FrameInput\<close>) and of all players for one frame (\<open>GameInput\<close>). The input type of the game is
  the type variable \<open>'i\<close>; \<open>z\<close> stands for \<open>T::zeroed()\<close>.
\<close>

type_synonym frame = int

definition MAX_PLAYERS :: nat where
  "MAX_PLAYERS = 8"

definition MAX_ROLLBACK_FRAMES :: nat where
  "MAX_ROLLBACK_FRAMES = 120"

definition NULL_FRAME :: frame where
  "NULL_FRAME = - 1"

definition is_null :: "frame \<Rightarrow> bool" where
  "is_null frame \<longleftrightarrow> frame < 0"

type_synonym player_handle = nat

datatype backroll_error =
    MultipleLocalPlayers
  | InRollback
  | NotSynchronized
  | ReachedPredictionBarrier
  | InvalidPlayer player_handle
  | PlayerDisconnected player_handle

record 'i frame_input =
  fi_frame :: frame
  fi_input :: 'i

definition frame_input_default :: "'i \<Rightarrow> 'i frame_input" where
  "frame_input_default z = \<lparr>fi_frame = NULL_FRAME, fi_input = z\<rparr>"

definition frame_input_clear :: "'i \<Rightarrow> 'i frame_input \<Rightarrow> 'i frame_input" where
  "frame_input_clear z fi = fi\<lparr>fi_input := z\<rparr>"

text \<open>\<open>disconnected\<close> is a bit mask; \<open>inputs\<close> is an array of \<open>MAX_PLAYERS\<close> inputs.\<close>

record 'i game_input =
  gi_frame :: frame
  gi_disconnected :: u8
  gi_inputs :: "'i list"

definition game_input_default :: "'i \<Rightarrow> 'i game_input" where
  "game_input_default z =
     \<lparr>gi_frame = NULL_FRAME, gi_disconnected = 0, gi_inputs = replicate MAX_PLAYERS z\<rparr>"

definition game_input_get ::
    "'i game_input \<Rightarrow> player_handle \<Rightarrow> (backroll_error + 'i) option" where
  "game_input_get g player =
     (if player \<ge> MAX_PLAYERS then Some (Inl (InvalidPlayer player))
      else do { x \<leftarrow> index_at (gi_inputs g) player; Some (Inr x) })"

definition game_input_is_disconnected ::
    "'i game_input \<Rightarrow> player_handle \<Rightarrow> backroll_error + bool" where
  "game_input_is_disconnected g player =
     (if player \<ge> MAX_PLAYERS then Inl (InvalidPlayer player)
      else Inr (gi_disconnected g AND push_bit player 1 \<noteq> 0))"

lemma is_null_NULL_FRAME [simp]: "is_null NULL_FRAME"
  by (simp add: is_null_def NULL_FRAME_def)

lemma is_disconnected_bit:
  "player < MAX_PLAYERS \<Longrightarrow>
     game_input_is_disconnected g player = Inr (bit (gi_disconnected g) player)"
  by (simp add: game_input_is_disconnected_def and_exp_eq_0_iff_not_bit push_bit_eq_mult)

section \<open>Inputs of consecutive frames\<close>

fun numbered :: "frame \<Rightarrow> 'i list \<Rightarrow> 'i frame_input list" where
  "numbered s [] = []"
| "numbered s (x # xs) = \<lparr>fi_frame = s, fi_input = x\<rparr> # numbered (s + 1) xs"

lemma length_numbered [simp]: "length (numbered s xs) = length xs"
  by (induction s xs rule: numbered.induct) simp_all

lemma numbered_Nil_iff [simp]: "numbered s xs = [] \<longleftrightarrow> xs = []"
  by (cases xs) simp_all

lemma nth_numbered [simp]:
  "i < length xs \<Longrightarrow> numbered s xs ! i = \<lparr>fi_frame = s + int i, fi_input = xs ! i\<rparr>"
proof (induction s xs arbitrary: i rule: numbered.induct)
  case (2 s x xs)
  then show ?case by (cases i) simp_all
qed simp

lemma numbered_append:
  "numbered s (xs @ ys) = numbered s xs @ numbered (s + int (length xs)) ys"
  by (induction s xs rule: numbered.induct) (simp_all add: ac_simps)

lemma map_input_numbered [simp]: "map fi_input (numbered s xs) = xs"
  by (induction s xs rule: numbered.induct) simp_all

lemma hd_numbered [simp]: "xs \<noteq> [] \<Longrightarrow> fi_frame (hd (numbered s xs)) = s"
  by (cases xs) simp_all

lemma last_numbered [simp]:
  "xs \<noteq> [] \<Longrightarrow> fi_frame (last (numbered s xs)) = s + int (length xs) - 1"
  by (simp add: last_conv_nth of_nat_diff Suc_leI)

lemma set_numbered_frame:
  "x \<in> set (numbered s xs) \<Longrightarrow> s \<le> fi_frame x \<and> fi_frame x < s + int (length xs)"
  by (induction s xs rule: numbered.induct) auto

lemma dropWhile_numbered:
  "dropWhile (\<lambda>i. fi_frame i \<le> c) (numbered s xs)
     = numbered (s + int (nat (c + 1 - s))) (drop (nat (c + 1 - s)) xs)"
proof (induction s xs rule: numbered.induct)
  case (1 s)
  then show ?case by simp
next
  case (2 s x xs)
  show ?case
  proof (cases "s \<le> c")
    case True
    then have "nat (c + 1 - s) = Suc (nat (c + 1 - (s + 1)))" by simp
    with 2 True show ?thesis by simp
  next
    case False
    then show ?thesis by simp
  qed
qed

lemma filter_ge_numbered:
  "filter (\<lambda>i. a \<le> fi_frame i) (numbered s xs)
     = numbered (s + int (nat (a - s))) (drop (nat (a - s)) xs)"
proof (induction s xs rule: numbered.induct)
  case (1 s)
  then show ?case by simp
next
  case (2 s x xs)
  show ?case
  proof (cases "s < a")
    case True
    then have "nat (a - s) = Suc (nat (a - (s + 1)))" by simp
    with 2 True show ?thesis by simp
  next
    case False
    then show ?thesis using 2 by simp
  qed
qed

lemma filter_lt_numbered_Nil:
  "filter (\<lambda>i. fi_frame i < a) (numbered s xs) = [] \<longleftrightarrow> a \<le> s \<or> xs = []"
proof (induction s xs rule: numbered.induct)
  case (1 s)
  then show ?case by simp
next
  case (2 s x xs)
  then show ?case by auto
qed

end
