(* ===== verification/Messages.thy ===== *)
theory Messages
  imports Frames
begin

text \<open>
  The values the components exchange: \<open>ConnectionStatus\<close> (end of
  \<^verbatim>\<open>backroll/src/protocol/mod.rs\<close>), the network messages of
  \<^verbatim>\<open>backroll/src/protocol/message.rs\<close>, the events a peer reports to its session
  (\<^verbatim>\<open>backroll/src/protocol/event.rs\<close>) and the events a session reports to its client
  (\<open>Event\<close> of \<^verbatim>\<open>backroll/src/lib.rs\<close>). Durations and clock readings are in milliseconds.
\<close>

type_synonym millis = nat

record connection_status =
  cs_disconnected :: bool
  cs_last_frame :: frame

definition connection_status_default :: connection_status where
  "connection_status_default = \<lparr>cs_disconnected = False, cs_last_frame = NULL_FRAME\<rparr>"

section \<open>Network messages\<close>

record input_msg =
  in_peer_connect_status :: "connection_status list"
  in_start_frame :: frame
  in_ack_frame :: frame
  in_bits :: "u8 list"

datatype message_data =
    KeepAlive
  | SyncRequest (sync_request_random: u32)
  | SyncReply (sync_reply_random: u32)
  | InputMsg input_msg
  | InputAck (input_ack_frame: frame)
  | QualityReport (report_frame_advantage: frame) (report_ping: millis)
  | QualityReply (reply_pong: millis)

record message =
  msg_magic :: u16
  msg_sequence_number :: u16
  msg_data :: message_data

fun is_sync_message :: "message_data \<Rightarrow> bool" where
  "is_sync_message (SyncRequest _) = True"
| "is_sync_message (SyncReply _) = True"
| "is_sync_message _ = False"

section \<open>Events\<close>

datatype 'i peer_event =
    PeerConnected
  | PeerSynchronizing (total: nat) (count: nat)
  | PeerSynchronized
  | PeerInputs "'i frame_input list"
  | PeerNetworkInterrupted (timeout: millis)
  | PeerNetworkResumed

datatype event =
    Connected player_handle
  | Synchronizing player_handle nat nat
  | Synchronized player_handle
  | Running
  | Disconnected player_handle
  | TimeSync (frames_ahead: u8)
  | ConnectionInterrupted player_handle millis
  | ConnectionResumed player_handle

end
