(* ===== verification/Time_Sync.thy ===== *)
theory Time_Sync
  imports Complex_Main Messages
begin

text \<open>
  \<^verbatim>\<open>backroll/src/time_sync.rs\<close>: clock readings (\<open>UnixMillis\<close>) and \<open>TimeSync\<close>, which averages the
  frame advantages of the last 40 frames and recommends how many frames a session should wait for
  its peer. The averages are single precision floats; \<open>f32_round\<close> is the rounding of an exact
  result to the nearest float, ties to even. No value here is near the largest float.
\<close>

section \<open>Clock readings\<close>

text \<open>A \<open>u64\<close> sum or difference of milliseconds panics when it leaves the range.\<close>

definition millis_add :: "millis \<Rightarrow> millis \<Rightarrow> millis option" where
  "millis_add a b = usize_add a b"

definition millis_sub :: "millis \<Rightarrow> millis \<Rightarrow> millis option" where
  "millis_sub a b = usize_sub a b"

section \<open>Single precision\<close>

text \<open>The spacing of the floats around \<open>x\<close>, for a magnitude below \<open>2 ^ 128\<close>.\<close>

definition f32_spacing :: "rat \<Rightarrow> rat" where
  "f32_spacing x =
     (case List.find (\<lambda>e. \<bar>x\<bar> < 2 ^ e / 2 ^ 126) [1 ..< 255] of
        Some e \<Rightarrow> 2 ^ e / 2 ^ 150
      | None \<Rightarrow> 2 ^ 254 / 2 ^ 150)"

text \<open>Rounding a rational number to the nearest integer, ties to even.\<close>

definition round_half_even :: "rat \<Rightarrow> int" where
  "round_half_even x =
     (let n = \<lfloor>x\<rfloor>; r = x - of_int n in
      if r < 1 / 2 then n else if r > 1 / 2 then n + 1 else if even n then n else n + 1)"

definition f32_round :: "rat \<Rightarrow> rat" where
  "f32_round x = of_int (round_half_even (x / f32_spacing x)) * f32_spacing x"

text \<open>The cast \<open>as i32\<close>: truncation towards zero, saturating at the ends of the range.\<close>

definition f32_as_i32 :: "rat \<Rightarrow> int" where
  "f32_as_i32 x = max (- 2147483648) (min 2147483647 (if x < 0 then \<lceil>x\<rceil> else \<lfloor>x\<rfloor>))"

section \<open>TimeSync\<close>

definition FRAME_WINDOW_SIZE :: nat where
  "FRAME_WINDOW_SIZE = 40"

definition MIN_UNIQUE_FRAMES :: nat where
  "MIN_UNIQUE_FRAMES = 10"

definition MIN_FRAME_ADVANTAGE :: frame where
  "MIN_FRAME_ADVANTAGE = 3"

definition MAX_FRAME_ADVANTAGE :: frame where
  "MAX_FRAME_ADVANTAGE = 9"

record 'i time_sync =
  ts_local :: "frame list"
  ts_remote :: "frame list"
  ts_last_inputs :: "'i frame_input list"
  ts_iteration :: nat

definition time_sync_default :: "'i \<Rightarrow> 'i time_sync" where
  "time_sync_default z =
     \<lparr>ts_local = replicate FRAME_WINDOW_SIZE 0, ts_remote = replicate FRAME_WINDOW_SIZE 0,
      ts_last_inputs = replicate MIN_UNIQUE_FRAMES (frame_input_default z), ts_iteration = 0\<rparr>"

definition time_sync_advance_frame ::
    "'i frame_input \<Rightarrow> frame \<Rightarrow> frame \<Rightarrow> 'i time_sync \<Rightarrow> 'i time_sync option" where
  "time_sync_advance_frame input advantage radvantage ts =
     do { frame \<leftarrow> usize_try_from (fi_frame input);
          last_inputs \<leftarrow> store_at (ts_last_inputs ts) (frame mod MIN_UNIQUE_FRAMES) input;
          local \<leftarrow> store_at (ts_local ts) (frame mod FRAME_WINDOW_SIZE) advantage;
          remote \<leftarrow> store_at (ts_remote ts) (frame mod FRAME_WINDOW_SIZE) radvantage;
          Some (ts\<lparr>ts_last_inputs := last_inputs, ts_local := local, ts_remote := remote\<rparr>) }"

text \<open>\<open>iter().sum::<Frame>()\<close>\<close>

fun i32_sum :: "int \<Rightarrow> int list \<Rightarrow> int option" where
  "i32_sum acc [] = Some acc"
| "i32_sum acc (x # xs) = do { acc \<leftarrow> i32_add acc x; i32_sum acc xs }"

definition average :: "frame list \<Rightarrow> rat option" where
  "average xs = do { sum \<leftarrow> i32_sum 0 xs;
     Some (f32_round (f32_round (of_int sum) / f32_round (of_nat (length xs)))) }"

text \<open>\<open>(((radvantage - advantage) / 2.0) + 0.5) as Frame\<close>\<close>

definition sleep_frames :: "rat \<Rightarrow> rat \<Rightarrow> frame" where
  "sleep_frames advantage radvantage =
     f32_as_i32 (f32_round (f32_round (f32_round (radvantage - advantage) / 2) + 1 / 2))"

fun idle_inputs :: "'i frame_input list \<Rightarrow> bool" where
  "idle_inputs [] = True"
| "idle_inputs (x # xs) = (\<forall>y \<in> set xs. y = x)"

text \<open>The decisions of the method once both averages are known.\<close>

definition wait_frames :: "bool \<Rightarrow> 'i frame_input list \<Rightarrow> rat \<Rightarrow> rat \<Rightarrow> frame" where
  "wait_frames require_idle_input last_inputs advantage radvantage =
     (if advantage \<ge> radvantage then 0
      else if sleep_frames advantage radvantage < MIN_FRAME_ADVANTAGE then 0
      else if require_idle_input \<and> \<not> idle_inputs last_inputs then 0
      else min (sleep_frames advantage radvantage) MAX_FRAME_ADVANTAGE)"

definition recommend_frame_wait_duration ::
    "bool \<Rightarrow> 'i time_sync \<Rightarrow> (frame \<times> 'i time_sync) option" where
  "recommend_frame_wait_duration require_idle_input ts =
     do { advantage \<leftarrow> average (ts_local ts);
          radvantage \<leftarrow> average (ts_remote ts);
          debug_assert (ts_iteration ts + 1 < 2 ^ 32);
          Some (wait_frames require_idle_input (ts_last_inputs ts) advantage radvantage,
                ts\<lparr>ts_iteration := ts_iteration ts + 1\<rparr>) }"

section \<open>Rounding\<close>

lemma f32_spacingE:
  obtains e where "f32_spacing x = 2 ^ e / 2 ^ 150" and "1 \<le> e" and "e \<le> 254"
    and "e \<noteq> 1 \<Longrightarrow> 2 ^ (e - 1) / 2 ^ 126 \<le> \<bar>x\<bar>" and "e \<noteq> 254 \<Longrightarrow> \<bar>x\<bar> < 2 ^ e / 2 ^ 126"
proof (cases "List.find (\<lambda>e. \<bar>x\<bar> < 2 ^ e / 2 ^ 126) [1 ..< 255]")
  case None
  then have "\<forall>e \<in> set [1 ..< 255]. \<not> \<bar>x\<bar> < 2 ^ e / 2 ^ 126" by (simp add: find_None_iff)
  then have "\<not> \<bar>x\<bar> < 2 ^ 253 / 2 ^ 126" by (rule bspec) simp
  with None show ?thesis by (intro that[of 254]) (simp_all add: f32_spacing_def)
next
  case (Some e)
  then have "\<exists>i < 254. \<bar>x\<bar> < 2 ^ Suc i / 2 ^ 126 \<and> e = Suc i \<and> (\<forall>j < i. \<not> \<bar>x\<bar> < 2 ^ Suc j / 2 ^ 126)"
    unfolding find_Some_iff by (auto simp del: power_Suc)
  then obtain i where i: "i < 254" "e = Suc i" "\<bar>x\<bar> < 2 ^ e / 2 ^ 126"
    "\<And>j. j < i \<Longrightarrow> \<not> \<bar>x\<bar> < 2 ^ Suc j / 2 ^ 126"
    by blast
  have "2 ^ (e - 1) / 2 ^ 126 \<le> \<bar>x\<bar>" if "e \<noteq> 1"
    using i(4)[of "i - 1"] that i(2) by (simp add: linorder_not_less)
  with i Some show ?thesis by (intro that[of e]) (simp_all add: f32_spacing_def)
qed

lemma f32_spacing_pos [simp]: "0 < f32_spacing x"
  by (rule f32_spacingE[of x]) (simp only: divide_pos_pos zero_less_power zero_less_numeral)

lemma f32_spacing_minus [simp]: "f32_spacing (- x) = f32_spacing x"
  by (simp add: f32_spacing_def)

lemma round_half_even_of_int [simp]: "round_half_even (of_int n) = n"
  by (simp add: round_half_even_def Let_def)

lemma round_half_even_bounds: "\<lfloor>x\<rfloor> \<le> round_half_even x" "round_half_even x \<le> \<lfloor>x\<rfloor> + 1"
  by (auto simp: round_half_even_def Let_def)

lemma round_half_even_mono: "x \<le> y \<Longrightarrow> round_half_even x \<le> round_half_even y"
proof -
  assume xy: "x \<le> y"
  show ?thesis
  proof (cases "\<lfloor>x\<rfloor> = \<lfloor>y\<rfloor>")
    case True
    then show ?thesis using xy by (auto simp: round_half_even_def Let_def)
  next
    case False
    then have "\<lfloor>x\<rfloor> + 1 \<le> \<lfloor>y\<rfloor>" using floor_mono[OF xy] by linarith
    then show ?thesis using round_half_even_bounds[of x] round_half_even_bounds[of y] by linarith
  qed
qed

lemma round_half_even_minus: "round_half_even (- x) = - round_half_even x"
proof (cases "x = of_int \<lfloor>x\<rfloor>")
  case True
  then show ?thesis using round_half_even_of_int[of "\<lfloor>x\<rfloor>"] round_half_even_of_int[of "- \<lfloor>x\<rfloor>"] by simp
next
  case False
  have "\<lfloor>- x\<rfloor> = - \<lfloor>x\<rfloor> - 1"
    using False by (intro floor_unique) (simp_all add: less_le, linarith+)
  then show ?thesis by (auto simp: round_half_even_def Let_def)
qed

lemma f32_round_minus: "f32_round (- x) = - f32_round x"
  by (simp add: f32_round_def round_half_even_minus)

lemma f32_round_nonneg: "0 \<le> x \<Longrightarrow> 0 \<le> f32_round x"
  using round_half_even_mono[of 0 "x / f32_spacing x"] round_half_even_of_int[of 0]
  by (simp add: f32_round_def less_imp_le)

lemma f32_round_mono_nonneg:
  assumes "0 \<le> x" and "x \<le> y"
  shows "f32_round x \<le> f32_round y"
proof -
  obtain i where i: "f32_spacing x = 2 ^ i / 2 ^ 150" "1 \<le> i" "i \<le> 254"
    "i \<noteq> 1 \<Longrightarrow> 2 ^ (i - 1) / 2 ^ 126 \<le> \<bar>x\<bar>" "i \<noteq> 254 \<Longrightarrow> \<bar>x\<bar> < 2 ^ i / 2 ^ 126"
    using f32_spacingE[of x] by blast
  obtain j where j: "f32_spacing y = 2 ^ j / 2 ^ 150" "1 \<le> j" "j \<le> 254"
    "j \<noteq> 1 \<Longrightarrow> 2 ^ (j - 1) / 2 ^ 126 \<le> \<bar>y\<bar>" "j \<noteq> 254 \<Longrightarrow> \<bar>y\<bar> < 2 ^ j / 2 ^ 126"
    using f32_spacingE[of y] by blast
  have pow: "2 ^ a / 2 ^ 126 \<le> (2 ^ (b - 1) / 2 ^ 126 :: rat)" if "a < b" for a b :: nat
    using that by (intro divide_right_mono power_increasing) simp_all
  consider "i = j" | "i < j" | "j < i" by linarith
  then show ?thesis
  proof cases
    case 1
    then have same: "f32_spacing x = f32_spacing y" using i(1) j(1) by simp
    have "x / f32_spacing y \<le> y / f32_spacing y"
      using assms(2) by (intro divide_right_mono) (simp_all add: less_imp_le)
    then have "round_half_even (x / f32_spacing y) \<le> round_half_even (y / f32_spacing y)"
      by (rule round_half_even_mono)
    then show ?thesis by (simp add: f32_round_def same less_imp_le mult_right_mono)
  next
    case 2
    have "x / f32_spacing x \<le> of_int (2 ^ 24)"
      using i 2 j(3) assms(1) by (simp add: field_simps)
    then have "round_half_even (x / f32_spacing x) \<le> 2 ^ 24"
      using round_half_even_mono[of "x / f32_spacing x" "of_int (2 ^ 24)"] round_half_even_of_int[of "2 ^ 24"] by simp
    then have "f32_round x \<le> of_int (2 ^ 24) * f32_spacing x"
      unfolding f32_round_def by (intro mult_right_mono) (simp_all add: less_imp_le)
    also have "\<dots> = 2 ^ i / 2 ^ 126" using i(1) by simp
    also have "\<dots> \<le> 2 ^ (j - 1) / 2 ^ 126" by (rule pow[OF 2])
    also have "\<dots> = of_int (2 ^ 23) * f32_spacing y"
      using j(1,2) by (simp add: power_diff)
    also have "\<dots> \<le> f32_round y"
    proof -
      have "of_int (2 ^ 23) \<le> y / f32_spacing y"
        using j 2 i(2) assms by (simp add: power_diff field_simps)
      then have "2 ^ 23 \<le> round_half_even (y / f32_spacing y)"
        using round_half_even_mono[of "of_int (2 ^ 23)" "y / f32_spacing y"] round_half_even_of_int[of "2 ^ 23"] by simp
      then have "of_int (2 ^ 23) \<le> (of_int (round_half_even (y / f32_spacing y)) :: rat)"
        by (simp only: of_int_le_iff)
      then show ?thesis
        unfolding f32_round_def by (intro mult_right_mono) (simp_all add: less_imp_le)
    qed
    finally show ?thesis .
  next
    case 3
    then have "2 ^ (i - 1) / 2 ^ 126 \<le> \<bar>x\<bar>" "\<bar>y\<bar> < 2 ^ j / 2 ^ 126"
      using i(3,4) j(2,5) by linarith+
    then have "y < x" using pow[OF 3] assms by linarith
    then show ?thesis using assms(2) by simp
  qed
qed

lemma f32_round_mono: "x \<le> y \<Longrightarrow> f32_round x \<le> f32_round y"
proof -
  assume xy: "x \<le> y"
  consider "0 \<le> x" | "x < 0" "0 \<le> y" | "y < 0" by linarith
  then show ?thesis
  proof cases
    case 1
    then show ?thesis using xy by (rule f32_round_mono_nonneg)
  next
    case 2
    then show ?thesis
      using f32_round_nonneg[of "- x"] f32_round_nonneg[of y] by (simp add: f32_round_minus)
  next
    case 3
    then show ?thesis
      using f32_round_mono_nonneg[of "- y" "- x"] xy by (simp add: f32_round_minus)
  qed
qed

section \<open>Behaviour\<close>

lemma i32_sum_Some: "i32_sum a xs = Some s \<Longrightarrow> s = a + sum_list xs"
  by (induction a xs rule: i32_sum.induct) (auto simp: bind_eq_Some_conv checked_simps)

text \<open>A sum of values bounded by \<open>m\<close> stays in range.\<close>

lemma i32_sum_bounded:
  assumes "\<And>x. x \<in> set xs \<Longrightarrow> \<bar>x\<bar> \<le> m" and "\<bar>a\<bar> + int (length xs) * m \<le> i32_MAX"
  shows "i32_sum a xs = Some (a + sum_list xs)"
  using assms
proof (induction a xs rule: i32_sum.induct)
  case (2 a x xs)
  have x: "\<bar>x\<bar> \<le> m" using 2(2) by simp
  then have m: "0 \<le> m" by linarith
  have len: "\<bar>a\<bar> + (m + int (length xs) * m) \<le> i32_MAX"
    using 2(3) by (simp add: algebra_simps)
  moreover have "0 \<le> int (length xs) * m" using m by simp
  ultimately have "in_i32 (a + x)" using x unfolding in_i32_def i32_MAX_def by linarith
  moreover have "\<bar>a + x\<bar> + int (length xs) * m \<le> i32_MAX" using len x by linarith
  ultimately show ?case using 2 by (simp add: add.assoc)
qed simp

lemma average_bounded:
  assumes "\<And>x. x \<in> set xs \<Longrightarrow> \<bar>x\<bar> \<le> m" and "int (length xs) * m \<le> i32_MAX"
  shows "average xs =
    Some (f32_round (f32_round (of_int (sum_list xs)) / f32_round (of_nat (length xs))))"
  using i32_sum_bounded[of xs m 0] assms by (simp add: average_def)

lemma recommend_Some:
  "recommend_frame_wait_duration idle ts = Some (d, ts') \<longleftrightarrow>
     (\<exists>a r. average (ts_local ts) = Some a \<and> average (ts_remote ts) = Some r \<and>
       ts_iteration ts + 1 < 2 ^ 32 \<and> d = wait_frames idle (ts_last_inputs ts) a r \<and>
       ts' = ts\<lparr>ts_iteration := ts_iteration ts + 1\<rparr>)"
  unfolding recommend_frame_wait_duration_def by (auto simp: bind_eq_Some_conv)

lemma wait_frames_range:
  "wait_frames idle inputs a r = 0 \<or>
     MIN_FRAME_ADVANTAGE \<le> wait_frames idle inputs a r \<and> wait_frames idle inputs a r \<le> MAX_FRAME_ADVANTAGE"
  by (simp add: wait_frames_def MIN_FRAME_ADVANTAGE_def MAX_FRAME_ADVANTAGE_def)

lemma wait_frames_ahead: "wait_frames idle inputs a r \<noteq> 0 \<Longrightarrow> a < r"
  by (simp add: wait_frames_def split: if_splits)

lemma average_sum:
  assumes "average xs = Some a"
  shows "a = f32_round (f32_round (of_int (sum_list xs)) / f32_round (of_nat (length xs)))"
  using assms i32_sum_Some[of 0 xs] by (auto simp: average_def bind_eq_Some_conv)

text \<open>Rounding never reverses the order of two averages.\<close>

lemma average_mono:
  assumes "average xs = Some a" and "average ys = Some b" and "length xs = length ys"
    and "sum_list xs \<le> sum_list ys"
  shows "a \<le> b"
  using assms average_sum[OF assms(1)] average_sum[OF assms(2)]
  by (auto intro!: f32_round_mono divide_right_mono f32_round_nonneg)

lemma recommend_behind:
  assumes "recommend_frame_wait_duration idle ts = Some (d, ts')" and "d \<noteq> 0"
    and "length (ts_local ts) = length (ts_remote ts)"
  shows "sum_list (ts_local ts) < sum_list (ts_remote ts)"
proof (rule ccontr)
  assume "\<not> sum_list (ts_local ts) < sum_list (ts_remote ts)"
  moreover obtain a r where "average (ts_local ts) = Some a" "average (ts_remote ts) = Some r" "a < r"
    using assms(1,2) wait_frames_ahead unfolding recommend_Some by blast
  ultimately show False using average_mono[of "ts_remote ts" r "ts_local ts" a] assms(3) by simp
qed

text \<open>The window always has its 40 places.\<close>

definition time_sync_ok :: "'i time_sync \<Rightarrow> bool" where
  "time_sync_ok ts \<longleftrightarrow> length (ts_local ts) = FRAME_WINDOW_SIZE \<and>
     length (ts_remote ts) = FRAME_WINDOW_SIZE \<and> length (ts_last_inputs ts) = MIN_UNIQUE_FRAMES"

lemma time_sync_ok_default [simp]: "time_sync_ok (time_sync_default z)"
  by (simp add: time_sync_ok_def time_sync_default_def)

lemma time_sync_advance_ok:
  assumes "time_sync_ok ts" and "0 \<le> fi_frame input"
  obtains ts' where "time_sync_advance_frame input a r ts = Some ts'" and "time_sync_ok ts'"
    and "set (ts_local ts') \<subseteq> insert a (set (ts_local ts))"
    and "set (ts_remote ts') \<subseteq> insert r (set (ts_remote ts))"
  using assms
  by (auto simp: time_sync_advance_frame_def time_sync_ok_def FRAME_WINDOW_SIZE_def
      MIN_UNIQUE_FRAMES_def intro!: set_update_subset_insert)

section \<open>Exact averages\<close>

text \<open>Halves of integers of 24 bits are single precision floats.\<close>

lemma round_half_even_int: "round_half_even (of_int k) = k"
  by (simp add: round_half_even_def Let_def)

lemma f32_round_half:
  assumes "\<bar>n\<bar> < 2 ^ 24"
  shows "f32_round (of_int n / 2) = of_int n / 2"
proof -
  let ?x = "of_int n / 2 :: rat"
  obtain e where e: "f32_spacing ?x = 2 ^ e / 2 ^ 150" "1 \<le> e" "e \<noteq> 1 \<Longrightarrow> 2 ^ (e - 1) / 2 ^ 126 \<le> \<bar>?x\<bar>"
    using f32_spacingE[of ?x] by metis
  have "\<bar>of_int n\<bar> < (of_int (2 ^ 24) :: rat)" using assms by (simp only: of_int_abs[symmetric] of_int_less_iff)
  then have x: "\<bar>?x\<bar> < 2 ^ 23" by simp
  have le: "e \<le> 149"
  proof (rule ccontr)
    assume "\<not> e \<le> 149"
    then have "(2 :: rat) ^ 149 \<le> 2 ^ (e - 1)" by (intro power_increasing) simp_all
    then have "(2 :: rat) ^ 149 / 2 ^ 126 \<le> \<bar>?x\<bar>"
      using e(3) \<open>\<not> e \<le> 149\<close> divide_right_mono[of "2 ^ 149" "2 ^ (e - 1)" "2 ^ 126 :: rat"] by simp
    then show False using x by simp
  qed
  have "(2 :: rat) ^ e * 2 ^ (149 - e) = 2 ^ 149" using le by (simp only: power_add[symmetric]) simp
  then have half: "f32_spacing ?x * 2 ^ (149 - e) = 1 / 2" by (simp add: e(1))
  then have "?x = of_int (n * 2 ^ (149 - e)) * f32_spacing ?x" by (simp add: mult.assoc mult.commute)
  moreover have "f32_spacing ?x \<noteq> 0" using half by auto
  ultimately show ?thesis
    unfolding f32_round_def by (metis nonzero_eq_divide_eq round_half_even_int)
qed

lemma f32_round_int: "\<bar>n\<bar> < 2 ^ 23 \<Longrightarrow> f32_round (of_int n) = of_int n"
  using f32_round_half[of "2 * n"] by simp

lemma average_replicate: "average (replicate FRAME_WINDOW_SIZE k) = Some (of_int k)" if "\<bar>k\<bar> \<le> 100000"
proof -
  have "average (replicate FRAME_WINDOW_SIZE k) =
      Some (f32_round (f32_round (of_int (40 * k)) / f32_round (of_int 40)))"
    using average_bounded[of "replicate FRAME_WINDOW_SIZE k" 100000] that
    by (simp add: FRAME_WINDOW_SIZE_def sum_list_replicate i32_MAX_def)
  also have "f32_round (of_int (40 * k)) = of_int (40 * k)" by (rule f32_round_int) (use that in simp)
  also have "f32_round (of_int 40) = of_int 40" by (rule f32_round_int) simp
  also have "(of_int (40 * k) / of_int 40 :: rat) = of_int k" by simp
  also have "f32_round (of_int k) = of_int k" by (rule f32_round_int) (use that in simp)
  finally show ?thesis .
qed

lemma sleep_frames_eight: "sleep_frames 0 8 = 4"
proof -
  have f: "f32_round 8 = 8" "f32_round 4 = 4" "f32_round (9 / 2) = 9 / 2"
    using f32_round_int[of 8] f32_round_int[of 4] f32_round_half[of 9] by simp_all
  have r: "(8 :: rat) - 0 = 8" "(8 :: rat) / 2 = 4" "(4 :: rat) + 1 / 2 = 9 / 2" by simp_all
  have "sleep_frames 0 8 = f32_as_i32 (9 / 2)" by (simp only: sleep_frames_def r f)
  moreover have "\<lfloor>9 / 2 :: rat\<rfloor> = 4" by (simp add: floor_eq_iff)
  ultimately show ?thesis by (simp add: f32_as_i32_def)
qed

lemma recommend_eight:
  "recommend_frame_wait_duration False ((time_sync_default z)\<lparr>ts_remote := replicate FRAME_WINDOW_SIZE 8\<rparr>) =
     Some (4, (time_sync_default z)\<lparr>ts_remote := replicate FRAME_WINDOW_SIZE 8, ts_iteration := 1\<rparr>)"
  using average_replicate[of 0] average_replicate[of 8]
  by (simp add: recommend_frame_wait_duration_def time_sync_default_def wait_frames_def sleep_frames_eight
      MIN_FRAME_ADVANTAGE_def MAX_FRAME_ADVANTAGE_def)

end
