(* ===== verification/Varint.thy ===== *)
theory Varint
  imports Prelude
begin

text \<open>
  The interface to the crate \<^verbatim>\<open>varinteger\<close>, which \<^verbatim>\<open>backroll/src/protocol/bitfield.rs\<close>
  calls and whose source is not part of the repository. Its three functions are a parameter
  of every definition that uses them, a record \<open>varint_crate\<close>; the locale \<open>varint\<close> names the
  documented laws (an encoded value fills a buffer of the announced length and decoding reads
  it back), and \<open>varint_groups\<close> adds that the length only depends on the number of 7-bit
  groups. The locales are interpreted on unsigned LEB128, the format the crate documents.
\<close>

record varint_crate =
  varint_length :: "nat \<Rightarrow> nat"
  varint_encode :: "nat \<Rightarrow> u8 list \<Rightarrow> u8 list"
  varint_decode_with_offset :: "u8 list \<Rightarrow> nat \<Rightarrow> (nat \<times> nat) option"

text \<open>
  \<open>varint_encode n buf\<close> is the buffer after the call; \<open>varint_decode_with_offset buf off\<close> is the
  decoded value with the number of bytes read, or \<open>None\<close> when the call panics.
  \<open>varint_bytes\<close> is the idiom of the source: a zeroed buffer of the right length, filled.
\<close>

definition varint_bytes :: "varint_crate \<Rightarrow> nat \<Rightarrow> u8 list" where
  "varint_bytes V n = varint_encode V n (replicate (varint_length V n) 0)"

locale varint =
  fixes V :: varint_crate
  assumes length_pos: "n < 2 ^ 64 \<Longrightarrow> 0 < varint_length V n"
    and length_max: "n < 2 ^ 64 \<Longrightarrow> varint_length V n \<le> 10"
    and bytes_length: "n < 2 ^ 64 \<Longrightarrow> length (varint_bytes V n) = varint_length V n"
    and decode_bytes: "n < 2 ^ 64 \<Longrightarrow>
      varint_decode_with_offset V (pre @ varint_bytes V n @ post) (length pre) =
        Some (n, varint_length V n)"

locale varint_groups = varint +
  assumes length_low_bits:
    "n div 4 = m div 4 \<Longrightarrow> 0 < n div 4 \<Longrightarrow> n < 2 ^ 64 \<Longrightarrow> m < 2 ^ 64 \<Longrightarrow>
      varint_length V n = varint_length V m"

section \<open>Unsigned LEB128\<close>

fun leb_bytes :: "nat \<Rightarrow> u8 list" where
  "leb_bytes n =
     (if n < 128 then [of_nat n] else of_nat (n mod 128 + 128) # leb_bytes (n div 128))"

declare leb_bytes.simps [simp del]

fun leb_read :: "u8 list \<Rightarrow> (nat \<times> nat) option" where
  "leb_read [] = None"
| "leb_read (b # bs) =
     (if unat b < 128 then Some (unat b, 1)
      else map_option (\<lambda>(v, k). (unat b - 128 + 128 * v, Suc k)) (leb_read bs))"

definition leb128 :: varint_crate where
  "leb128 = \<lparr>varint_length = (\<lambda>n. length (leb_bytes n)),
     varint_encode = (\<lambda>n buf. leb_bytes n @ drop (length (leb_bytes n)) buf),
     varint_decode_with_offset =
       (\<lambda>buf off. map_option (\<lambda>(v, k). (v mod 2 ^ 64, k)) (leb_read (drop off buf)))\<rparr>"

lemma varint_bytes_leb128 [simp]: "varint_bytes leb128 n = leb_bytes n"
  by (simp add: varint_bytes_def leb128_def)

lemma leb_bytes_nonempty: "leb_bytes n \<noteq> []"
  by (subst leb_bytes.simps) simp

lemma leb_read_bytes: "leb_read (leb_bytes n @ post) = Some (n, length (leb_bytes n))"
proof (induction n rule: leb_bytes.induct)
  case (1 n)
  show ?case
  proof (cases "n < 128")
    case True
    then show ?thesis by (simp add: leb_bytes.simps[of n] unsigned_of_nat take_bit_eq_mod)
  next
    case False
    with 1 have "leb_read (leb_bytes (n div 128) @ post) =
        Some (n div 128, length (leb_bytes (n div 128)))" by simp
    moreover have "unat (of_nat (n mod 128 + 128) :: u8) = n mod 128 + 128"
      by (subst unat_of_nat) simp
    ultimately show ?thesis
      using False by (simp add: leb_bytes.simps[of n] del: of_nat_add)
  qed
qed

lemma leb_bytes_length_le: "n < 128 ^ Suc k \<Longrightarrow> length (leb_bytes n) \<le> Suc k"
proof (induction k arbitrary: n)
  case 0
  then show ?case by (simp add: leb_bytes.simps[of n])
next
  case (Suc k)
  then have "n div 128 < 128 ^ Suc k" by (simp add: less_mult_imp_div_less)
  then show ?case using Suc.IH[of "n div 128"] by (simp add: leb_bytes.simps[of n])
qed

lemma leb_bytes_length_low_bits:
  "n div 4 = m div 4 \<Longrightarrow> 0 < n div 4 \<Longrightarrow> length (leb_bytes n) = length (leb_bytes m)"
proof -
  assume a: "n div 4 = m div 4" "0 < n div 4"
  have step: "n < 128 \<longleftrightarrow> m < 128" and rest: "n div 128 = m div 128"
  proof -
    have "n div 128 = n div 4 div 32" and "m div 128 = m div 4 div 32"
      by (simp_all add: div_mult2_eq[symmetric])
    then show "n div 128 = m div 128" using a(1) by simp
    then show "n < 128 \<longleftrightarrow> m < 128" by (metis div_less div_eq_0_iff zero_neq_numeral)
  qed
  show ?thesis
    using step rest by (simp add: leb_bytes.simps[of n] leb_bytes.simps[of m])
qed

lemma leb128_simps [simp]:
  "varint_length leb128 n = length (leb_bytes n)"
  "varint_decode_with_offset leb128 buf off =
     map_option (\<lambda>(v, k). (v mod 2 ^ 64, k)) (leb_read (drop off buf))"
  by (simp_all add: leb128_def)

interpretation leb: varint_groups leb128
proof (unfold_locales, goal_cases)
  case (1 n)
  show ?case by (simp add: leb_bytes_nonempty)
next
  case (2 n)
  then show ?case
    using leb_bytes_length_le[of n 9] by simp
next
  case (3 n)
  show ?case by simp
next
  case (4 n pre post)
  have "drop (length pre) (pre @ leb_bytes n @ post) = leb_bytes n @ post"
    by simp
  with 4 show ?case
    by (simp only: leb128_simps varint_bytes_leb128 leb_read_bytes option.map prod.case mod_less)
next
  case (5 n m)
  from 5(1,2) show ?case unfolding leb128_simps by (rule leb_bytes_length_low_bits)
qed

end
