(* ===== verification/Bitfield.thy ===== *)
theory Bitfield
  imports Varint
begin

text \<open>
  The run-length code of \<^verbatim>\<open>backroll/src/protocol/bitfield.rs\<close>. A run of equal bytes \<open>0\<close> or
  \<open>255\<close> becomes one varint, every other stretch of bytes a varint with its length followed by
  the bytes. The definitions are the two loops of the encoder (the encoder and its length
  computation) and of the decoder, with the crate \<^verbatim>\<open>varinteger\<close> as the parameter \<open>V\<close>. The
  lemmas refine both loops to lists of tokens: the encoder emits the tokens of its input, the
  decoder expands them, so decoding inverts encoding; the announced lengths are exact; and
  after a successful length pass the decoding pass cannot panic.
\<close>

text \<open>\<open>DecodeError\<close> of \<^verbatim>\<open>compression.rs\<close>; the payload of \<open>Cast\<close> belongs to \<^verbatim>\<open>bytemuck\<close>.\<close>

datatype decode_error =
    Cast
  | InvalidRLEBitfield nat nat
  | DecodeTooBig nat

section \<open>Encoder\<close>

text \<open>\<open>x << k\<close> on a \<open>u64\<close>.\<close>

definition u64_shl :: "nat \<Rightarrow> nat \<Rightarrow> nat" where
  "u64_shl x k = (x * 2 ^ k) mod 2 ^ 64"

record rle_encoder =
  re_len :: nat
  re_contiguous :: bool
  re_prev_bits :: u8
  re_noncontiguous_bits :: "u8 list"
  re_enc :: "u8 list"

definition write_contiguous :: "varint_crate \<Rightarrow> u8 list \<Rightarrow> nat \<Rightarrow> u8 \<Rightarrow> u8 list" where
  "write_contiguous V enc len prev_bits =
     (let len = u64_shl len 2;
          len = len + 1;
          len = (if prev_bits = 255 then len + 2 else len)
      in enc @ varint_bytes V len)"

text \<open>The second component is the buffer \<open>noncontiguous_bits\<close>, which \<open>append\<close> drains.\<close>

definition write_noncontiguous ::
    "varint_crate \<Rightarrow> u8 list \<Rightarrow> u8 list \<Rightarrow> u8 list \<times> u8 list" where
  "write_noncontiguous V enc noncontiguous_bits =
     (let len = u64_shl (length noncontiguous_bits) 1
      in (enc @ varint_bytes V len @ noncontiguous_bits, []))"

definition encode_init :: rle_encoder where
  "encode_init = \<lparr>re_len = 0, re_contiguous = False, re_prev_bits = 0,
     re_noncontiguous_bits = [], re_enc = []\<rparr>"

text \<open>One iteration of the loop of \<open>encode_with_offset\<close>, on byte number \<open>i\<close>.\<close>

definition encode_step ::
    "varint_crate \<Rightarrow> nat \<Rightarrow> nat \<Rightarrow> u8 \<Rightarrow> rle_encoder \<Rightarrow> rle_encoder" where
  "encode_step V offset i byte s =
     (if re_contiguous s \<and> byte = re_prev_bits s then s\<lparr>re_len := re_len s + 1\<rparr>
      else
        let s = (if re_contiguous s
                 then s\<lparr>re_enc := write_contiguous V (re_enc s) (re_len s) (re_prev_bits s)\<rparr>
                 else s)
        in if byte = 0 \<or> byte = 255 then
             let s = (if \<not> re_contiguous s \<and> i > offset
                      then (case write_noncontiguous V (re_enc s) (re_noncontiguous_bits s) of
                              (enc, bits) \<Rightarrow> s\<lparr>re_enc := enc, re_noncontiguous_bits := bits\<rparr>)
                      else s)
             in s\<lparr>re_len := 1, re_prev_bits := byte, re_contiguous := True\<rparr>
           else if \<not> re_contiguous s then
             s\<lparr>re_noncontiguous_bits := re_noncontiguous_bits s @ [byte]\<rparr>
           else
             s\<lparr>re_contiguous := False,
               re_noncontiguous_bits := re_noncontiguous_bits s @ [byte]\<rparr>)"

fun encode_loop ::
    "varint_crate \<Rightarrow> nat \<Rightarrow> nat \<Rightarrow> u8 list \<Rightarrow> rle_encoder \<Rightarrow> rle_encoder" where
  "encode_loop V offset i [] s = s"
| "encode_loop V offset i (b # bs) s =
     encode_loop V offset (Suc i) bs (encode_step V offset i b s)"

definition encode_finish :: "varint_crate \<Rightarrow> rle_encoder \<Rightarrow> u8 list" where
  "encode_finish V s =
     (if re_contiguous s
      then write_contiguous V (re_enc s) (re_len s) (re_prev_bits s)
      else fst (write_noncontiguous V (re_enc s) (re_noncontiguous_bits s)))"

definition encode_with_offset ::
    "varint_crate \<Rightarrow> u8 list \<Rightarrow> nat \<Rightarrow> (u8 list \<times> nat) option" where
  "encode_with_offset V buf offset =
     do { data \<leftarrow> slice_at buf offset (length buf);
          let s = encode_loop V offset 0 data encode_init;
          Some (encode_finish V s, length buf - offset) }"

definition encode :: "varint_crate \<Rightarrow> u8 list \<Rightarrow> u8 list option" where
  "encode V buf = do { r \<leftarrow> encode_with_offset V buf 0; Some (fst r) }"

text \<open>The loop of \<open>encode_len_with_offset\<close>, on \<open>(len, partial_len, contiguous, prev_bits)\<close>.\<close>

record rle_length =
  rl_len :: nat
  rl_partial_len :: nat
  rl_contiguous :: bool
  rl_prev_bits :: u8

definition encode_len_step ::
    "varint_crate \<Rightarrow> nat \<Rightarrow> nat \<Rightarrow> u8 \<Rightarrow> rle_length \<Rightarrow> rle_length" where
  "encode_len_step V offset i byte s =
     (if rl_contiguous s \<and> byte = rl_prev_bits s
      then s\<lparr>rl_partial_len := rl_partial_len s + 1\<rparr>
      else
        let s = (if rl_contiguous s
                 then s\<lparr>rl_len := rl_len s + varint_length V (u64_shl (rl_partial_len s) 2)\<rparr>
                 else s)
        in if byte = 0 \<or> byte = 255 then
             let s = (if \<not> rl_contiguous s \<and> i > offset
                      then s\<lparr>rl_len := rl_len s + rl_partial_len s
                               + varint_length V (u64_shl (rl_partial_len s) 1)\<rparr>
                      else s)
             in s\<lparr>rl_partial_len := 1, rl_prev_bits := byte, rl_contiguous := True\<rparr>
           else if \<not> rl_contiguous s then
             s\<lparr>rl_partial_len := rl_partial_len s + 1\<rparr>
           else
             s\<lparr>rl_partial_len := 1, rl_contiguous := False\<rparr>)"

fun encode_len_loop ::
    "varint_crate \<Rightarrow> nat \<Rightarrow> nat \<Rightarrow> u8 list \<Rightarrow> rle_length \<Rightarrow> rle_length" where
  "encode_len_loop V offset i [] s = s"
| "encode_len_loop V offset i (b # bs) s =
     encode_len_loop V offset (Suc i) bs (encode_len_step V offset i b s)"

definition encode_len_with_offset :: "varint_crate \<Rightarrow> u8 list \<Rightarrow> nat \<Rightarrow> nat option" where
  "encode_len_with_offset V buf offset =
     do { data \<leftarrow> slice_at buf offset (length buf);
          let s = encode_len_loop V offset 0 data
            \<lparr>rl_len = 0, rl_partial_len = 0, rl_contiguous = False, rl_prev_bits = 0\<rparr>;
          Some (if rl_contiguous s
                then rl_len s + varint_length V (u64_shl (rl_partial_len s) 2)
                else rl_len s + rl_partial_len s
                  + varint_length V (u64_shl (rl_partial_len s) 1)) }"

section \<open>Decoder\<close>

text \<open>
  The loops advance by what the crate reads and by lengths taken from the buffer, so they are
  partial functions: \<open>None\<close> is a panic (an overflow of the offset or of the length, an index
  out of range, a panic inside the crate) or a loop that does not end.
\<close>

partial_function (option) decode_len_loop ::
    "varint_crate \<Rightarrow> u8 list \<Rightarrow> nat \<Rightarrow> nat \<Rightarrow> (nat \<times> nat) option" where
  "decode_len_loop V buf offset len =
     (if offset < length buf then
        do { r \<leftarrow> varint_decode_with_offset V buf offset;
             offset \<leftarrow> usize_add offset (snd r);
             let next = fst r;
             let repeat = next mod 2;
             let slice = (if repeat > 0 then next div 4 else next div 2);
             len \<leftarrow> usize_add len slice;
             offset \<leftarrow> (if repeat = 0 then usize_add offset slice else Some offset);
             decode_len_loop V buf offset len }
      else Some (offset, len))"

definition decode_len_with_offset ::
    "varint_crate \<Rightarrow> u8 list \<Rightarrow> nat \<Rightarrow> (decode_error + nat) option" where
  "decode_len_with_offset V buf offset =
     do { r \<leftarrow> decode_len_loop V buf offset 0;
          if fst r > length buf
          then Some (Inl (InvalidRLEBitfield (fst r) (length buf)))
          else Some (Inr (snd r)) }"

definition decode_len :: "varint_crate \<Rightarrow> u8 list \<Rightarrow> (decode_error + nat) option" where
  "decode_len V buf = decode_len_with_offset V buf 0"

text \<open>\<open>for i in 0..len { bitfield[ptr + i] = 255; }\<close>\<close>

fun fill_ones :: "nat \<Rightarrow> u8 list \<Rightarrow> nat \<Rightarrow> u8 list option" where
  "fill_ones 0 bitfield p = Some bitfield"
| "fill_ones (Suc n) bitfield p =
     do { bitfield \<leftarrow> store_at bitfield p 255; fill_ones n bitfield (Suc p) }"

text \<open>\<open>bitfield[ptr..(len + ptr)].clone_from_slice(&buf[offset..(len + offset)])\<close>\<close>

definition copy_slice :: "u8 list \<Rightarrow> nat \<Rightarrow> u8 list \<Rightarrow> nat \<Rightarrow> nat \<Rightarrow> u8 list option" where
  "copy_slice bitfield p buf offset len =
     do { e \<leftarrow> usize_add len p;
          slice_at bitfield p e;
          f \<leftarrow> usize_add len offset;
          src \<leftarrow> slice_at buf offset f;
          Some (write_seg bitfield p src) }"

partial_function (option) decode_loop ::
    "varint_crate \<Rightarrow> u8 list \<Rightarrow> u8 list \<Rightarrow> nat \<Rightarrow> nat \<Rightarrow> (u8 list \<times> nat) option" where
  "decode_loop V buf bitfield offset p =
     (if offset < length buf then
        do { r \<leftarrow> varint_decode_with_offset V buf offset;
             offset \<leftarrow> usize_add offset (snd r);
             let next = fst r;
             let repeat = next mod 2;
             let len = (if repeat > 0 then next div 4 else next div 2);
             bitfield \<leftarrow>
               (if repeat > 0 then
                  (if (next div 2) mod 2 > 0 then fill_ones len bitfield p else Some bitfield)
                else copy_slice bitfield p buf offset len);
             offset \<leftarrow> (if repeat > 0 then Some offset else usize_add offset len);
             p \<leftarrow> usize_add p len;
             decode_loop V buf bitfield offset p }
      else Some (bitfield, offset))"

text \<open>\<open>vec![0; n]\<close> panics above \<open>isize::MAX\<close> bytes.\<close>

definition zeroed_vec :: "nat \<Rightarrow> u8 list option" where
  "zeroed_vec n = (if n < 2 ^ 63 then Some (replicate n 0) else None)"

definition decode_with_offset ::
    "varint_crate \<Rightarrow> u8 list \<Rightarrow> nat \<Rightarrow> (decode_error + u8 list \<times> nat) option" where
  "decode_with_offset V buf offset =
     do { n \<leftarrow> decode_len_with_offset V buf offset;
          case n of
            Inl e \<Rightarrow> Some (Inl e)
          | Inr n \<Rightarrow>
              do { bitfield \<leftarrow> zeroed_vec n;
                   r \<leftarrow> decode_loop V buf bitfield offset 0;
                   rest \<leftarrow> usize_sub (length buf) (snd r);
                   Some (Inr (fst r, rest)) } }"

definition decode :: "varint_crate \<Rightarrow> u8 list \<Rightarrow> (decode_error + u8 list) option" where
  "decode V buf =
     do { r \<leftarrow> decode_with_offset V buf 0;
          Some (case r of Inl e \<Rightarrow> Inl e | Inr x \<Rightarrow> Inr (fst x)) }"

section \<open>Tokens\<close>

text \<open>The abstract view of an encoded buffer: a sequence of runs and literal stretches.\<close>

datatype token = Run nat bool | Lit "u8 list"

fun token_value :: "token \<Rightarrow> nat" where
  "token_value (Run n b) = 4 * n + (if b then 3 else 1)"
| "token_value (Lit bs) = 2 * length bs"

fun token_tail :: "token \<Rightarrow> u8 list" where
  "token_tail (Run n b) = []"
| "token_tail (Lit bs) = bs"

fun expand :: "token \<Rightarrow> u8 list" where
  "expand (Run n b) = replicate n (if b then 255 else 0)"
| "expand (Lit bs) = bs"

definition token_bytes :: "varint_crate \<Rightarrow> token \<Rightarrow> u8 list" where
  "token_bytes V t = varint_bytes V (token_value t) @ token_tail t"

definition tokens_bytes :: "varint_crate \<Rightarrow> token list \<Rightarrow> u8 list" where
  "tokens_bytes V ts = concat (map (token_bytes V) ts)"

definition tokens_expand :: "token list \<Rightarrow> u8 list" where
  "tokens_expand ts = concat (map expand ts)"

lemma tokens_bytes_simps [simp]:
  "tokens_bytes V [] = []"
  "tokens_bytes V (t # ts) = token_bytes V t @ tokens_bytes V ts"
  "tokens_bytes V (ts @ us) = tokens_bytes V ts @ tokens_bytes V us"
  by (simp_all add: tokens_bytes_def)

lemma tokens_expand_simps [simp]:
  "tokens_expand [] = []"
  "tokens_expand (t # ts) = expand t @ tokens_expand ts"
  "tokens_expand (ts @ us) = tokens_expand ts @ tokens_expand us"
  by (simp_all add: tokens_expand_def)

definition byte_run :: "u8 \<Rightarrow> bool" where
  "byte_run b \<longleftrightarrow> b = 0 \<or> b = 255"

definition run_token :: "nat \<Rightarrow> u8 \<Rightarrow> token" where
  "run_token n b = Run n (b = 255)"

lemma expand_run_token: "byte_run b \<Longrightarrow> expand (run_token n b) = replicate n b"
  by (auto simp: byte_run_def run_token_def)

lemma write_contiguous_token:
  "n < 2 ^ 59 \<Longrightarrow> write_contiguous V enc n b = enc @ token_bytes V (run_token n b)"
  by (simp add: write_contiguous_def token_bytes_def run_token_def u64_shl_def Let_def mult.commute
      numeral_3_eq_3)

lemma write_noncontiguous_token:
  "length bits < 2 ^ 59 \<Longrightarrow>
     write_noncontiguous V enc bits = (enc @ token_bytes V (Lit bits), [])"
  by (simp add: write_noncontiguous_def token_bytes_def u64_shl_def Let_def mult.commute)

section \<open>The encoder emits the tokens of its input\<close>

text \<open>
  The state of the encoder after the bytes \<open>seen\<close>: the tokens already written and the pending
  run or stretch make up \<open>seen\<close>.
\<close>

definition pending_bytes :: "rle_encoder \<Rightarrow> u8 list" where
  "pending_bytes s =
     (if re_contiguous s then replicate (re_len s) (re_prev_bits s)
      else re_noncontiguous_bits s)"

definition emitted :: "varint_crate \<Rightarrow> u8 list \<Rightarrow> u8 list \<Rightarrow> bool" where
  "emitted V enc xs \<longleftrightarrow>
     (\<exists>ts. enc = tokens_bytes V ts \<and> tokens_expand ts = xs \<and> (\<forall>t \<in> set ts. expand t \<noteq> []))"

lemma emitted_Nil: "emitted V [] []"
  unfolding emitted_def by (rule exI[of _ "[]"]) simp

lemma emitted_snoc:
  "emitted V enc xs \<Longrightarrow> expand t = ys \<Longrightarrow> ys \<noteq> [] \<Longrightarrow>
     emitted V (enc @ token_bytes V t) (xs @ ys)"
  unfolding emitted_def by (elim exE, rule_tac x = "ts @ [t]" in exI) auto

definition encoder_inv :: "varint_crate \<Rightarrow> u8 list \<Rightarrow> rle_encoder \<Rightarrow> bool" where
  "encoder_inv V seen s \<longleftrightarrow>
     (\<exists>xs. emitted V (re_enc s) xs \<and> xs @ pending_bytes s = seen) \<and>
     (re_contiguous s \<longrightarrow>
        0 < re_len s \<and> byte_run (re_prev_bits s) \<and> re_noncontiguous_bits s = []) \<and>
     (\<not> re_contiguous s \<longrightarrow> (re_noncontiguous_bits s = [] \<longleftrightarrow> seen = []))"

lemma encoder_inv_init: "encoder_inv V [] encode_init"
  by (simp add: encoder_inv_def encode_init_def pending_bytes_def emitted_Nil)

lemma encoder_inv_pending: "encoder_inv V seen s \<Longrightarrow> length (pending_bytes s) \<le> length seen"
  by (auto simp: encoder_inv_def)

text \<open>Closing the pending run or stretch turns it into one more token.\<close>

definition pending_token :: "rle_encoder \<Rightarrow> token" where
  "pending_token s =
     (if re_contiguous s then run_token (re_len s) (re_prev_bits s)
      else Lit (re_noncontiguous_bits s))"

lemma expand_pending_token: "encoder_inv V seen s \<Longrightarrow> expand (pending_token s) = pending_bytes s"
  by (auto simp: pending_token_def pending_bytes_def encoder_inv_def expand_run_token)

lemma pending_nonempty: "encoder_inv V seen s \<Longrightarrow> seen \<noteq> [] \<Longrightarrow> pending_bytes s \<noteq> []"
  by (auto simp: encoder_inv_def pending_bytes_def)

lemma encode_finish_token:
  assumes "encoder_inv V seen s" and "length seen < 2 ^ 59"
  shows "encode_finish V s = re_enc s @ token_bytes V (pending_token s)"
proof -
  have "length (pending_bytes s) < 2 ^ 59"
    using encoder_inv_pending[OF assms(1)] assms(2) by simp
  then show ?thesis
    by (auto simp: encode_finish_def pending_token_def pending_bytes_def
        write_contiguous_token write_noncontiguous_token split: if_splits)
qed

lemma encode_step_cases:
  assumes inv: "encoder_inv V seen s" and small: "length seen < 2 ^ 59"
  shows "encode_step V 0 (length seen) b s =
    (if re_contiguous s \<and> b = re_prev_bits s then s\<lparr>re_len := re_len s + 1\<rparr>
     else if byte_run b \<and> (re_contiguous s \<or> seen \<noteq> []) then
       s\<lparr>re_enc := re_enc s @ token_bytes V (pending_token s), re_noncontiguous_bits := [],
         re_len := 1, re_prev_bits := b, re_contiguous := True\<rparr>
     else if byte_run b then s\<lparr>re_len := 1, re_prev_bits := b, re_contiguous := True\<rparr>
     else if re_contiguous s then
       s\<lparr>re_enc := re_enc s @ token_bytes V (pending_token s), re_contiguous := False,
         re_noncontiguous_bits := [b]\<rparr>
     else s\<lparr>re_noncontiguous_bits := re_noncontiguous_bits s @ [b]\<rparr>)"
proof -
  have "length (pending_bytes s) < 2 ^ 59"
    using encoder_inv_pending[OF inv] small by simp
  moreover have "re_contiguous s \<Longrightarrow> re_noncontiguous_bits s = []"
    using inv by (simp add: encoder_inv_def)
  ultimately show ?thesis
    by (auto simp: encode_step_def byte_run_def pending_token_def pending_bytes_def
        write_contiguous_token write_noncontiguous_token Let_def split: if_splits)
qed

lemma emitted_pending:
  assumes inv: "encoder_inv V seen s" and "seen \<noteq> []"
  shows "emitted V (re_enc s @ token_bytes V (pending_token s)) seen"
proof -
  obtain xs where "emitted V (re_enc s) xs" and "xs @ pending_bytes s = seen"
    using inv by (auto simp: encoder_inv_def)
  with emitted_snoc[of V "re_enc s" xs "pending_token s"] show ?thesis
    using expand_pending_token[OF inv] pending_nonempty[OF inv assms(2)] by auto
qed

lemma encoder_inv_step:
  assumes inv: "encoder_inv V seen s" and small: "length seen < 2 ^ 59"
  shows "encoder_inv V (seen @ [b]) (encode_step V 0 (length seen) b s)"
proof -
  obtain xs where xs: "emitted V (re_enc s) xs" "xs @ pending_bytes s = seen"
    using inv by (auto simp: encoder_inv_def)
  have contig: "seen \<noteq> []" "byte_run (re_prev_bits s)" "0 < re_len s"
    "re_noncontiguous_bits s = []" if "re_contiguous s"
    using inv that by (auto simp: encoder_inv_def pending_bytes_def)
  note flushed = emitted_pending[OF inv]
  consider (extend) "re_contiguous s" "b = re_prev_bits s"
    | (close) "re_contiguous s" "b \<noteq> re_prev_bits s"
    | (switch) "\<not> re_contiguous s" "seen \<noteq> []" "byte_run b"
    | (start) "\<not> re_contiguous s" "seen = []" "byte_run b"
    | (stretch) "\<not> re_contiguous s" "\<not> byte_run b"
    by blast
  then show ?thesis
  proof cases
    case extend
    have "xs @ replicate (Suc (re_len s)) b = seen @ [b]"
      using xs(2) extend by (simp add: pending_bytes_def replicate_append_same[symmetric])
    with extend xs(1) contig show ?thesis
      unfolding encode_step_cases[OF inv small] encoder_inv_def
      by (auto simp: pending_bytes_def)
  next
    case close
    with flushed contig show ?thesis
      unfolding encode_step_cases[OF inv small] encoder_inv_def
      by (auto simp: pending_bytes_def)
  next
    case switch
    with flushed show ?thesis
      unfolding encode_step_cases[OF inv small] encoder_inv_def
      by (auto simp: pending_bytes_def)
  next
    case start
    with xs inv show ?thesis
      unfolding encode_step_cases[OF inv small] encoder_inv_def
      by (auto simp: pending_bytes_def)
  next
    case stretch
    with xs show ?thesis
      unfolding encode_step_cases[OF inv small] encoder_inv_def
      by (auto simp: pending_bytes_def)
  qed
qed

lemma encoder_inv_loop:
  "encoder_inv V seen s \<Longrightarrow> length (seen @ xs) < 2 ^ 59 \<Longrightarrow>
     encoder_inv V (seen @ xs) (encode_loop V 0 (length seen) xs s)"
proof (induction xs arbitrary: seen s)
  case Nil
  then show ?case by simp
next
  case (Cons x xs)
  then have "encoder_inv V (seen @ [x]) (encode_step V 0 (length seen) x s)"
    by (intro encoder_inv_step) simp_all
  from Cons.IH[OF this] Cons.prems(2) show ?case by simp
qed

lemma encode_0:
  "encode V xs = Some (encode_finish V (encode_loop V 0 0 xs encode_init))"
  by (simp add: encode_def encode_with_offset_def)

lemma encode_tokens:
  assumes small: "length xs < 2 ^ 59"
  obtains ts where "encode V xs = Some (tokens_bytes V ts)" and "tokens_expand ts = xs"
    and "\<And>t. t \<in> set ts \<Longrightarrow> expand t \<noteq> [] \<or> ts = [Lit []]"
proof -
  let ?s = "encode_loop V 0 0 xs encode_init"
  have inv: "encoder_inv V xs ?s"
    using encoder_inv_loop[OF encoder_inv_init, of xs V] small by simp
  have enc: "encode V xs = Some (re_enc ?s @ token_bytes V (pending_token ?s))"
    using encode_finish_token[OF inv small] by (simp add: encode_0)
  show ?thesis
  proof (cases "xs = []")
    case True
    then show ?thesis
      using that[of "[Lit []]"] enc by (simp add: encode_init_def pending_token_def)
  next
    case False
    with emitted_pending[OF inv] show ?thesis
      using that enc by (auto simp: emitted_def)
  qed
qed

section \<open>The decoder expands tokens\<close>

lemma token_value_Run [simp]:
  "token_value (Run n b) mod 2 = 1"
  "token_value (Run n b) div 4 = n"
  "(token_value (Run n b) div 2) mod 2 = (if b then 1 else 0)"
  by (cases b; simp; presburger)+

lemma token_value_Lit [simp]:
  "token_value (Lit bs) mod 2 = 0"
  "token_value (Lit bs) div 2 = length bs"
  by simp_all

lemma token_value_le: "token_value t \<le> 4 * length (expand t) + 3"
  by (cases t) simp_all

lemma fill_ones_write:
  "p + n \<le> length bf \<Longrightarrow> fill_ones n bf p = Some (write_seg bf p (replicate n 255))"
proof (induction n arbitrary: bf p)
  case 0
  then show ?case by (simp add: write_seg_def)
next
  case (Suc n)
  then have "fill_ones (Suc n) bf p = Some (write_seg (bf[p := 255]) (Suc p) (replicate n 255))"
    by simp
  also have "write_seg (bf[p := 255]) (Suc p) (replicate n 255) =
      write_seg bf p (replicate (Suc n) 255)"
    using Suc.prems by (simp add: write_seg_def take_Suc_conv_app_nth list_update_append)
  finally show ?case .
qed

lemma copy_slice_write:
  assumes "p + n \<le> length bf" and "off + n \<le> length buf"
    and "length bf < 2 ^ 64" and "length buf < 2 ^ 64"
  shows "copy_slice bf p buf off n = Some (write_seg bf p (take n (drop off buf)))"
  using assms by (simp add: copy_slice_def add.commute)

text \<open>What one turn of the decoding loop writes for a token at the current offset.\<close>

lemma write_expand:
  "write_seg (out @ replicate (length (expand t) + m) 0) (length out) (expand t)
     = (out @ expand t) @ replicate m 0"
  by (simp add: write_seg_frontier)

lemma zero_run_noop:
  "out @ replicate (n + m) (0 :: u8) = (out @ replicate n 0) @ replicate m 0"
  by (simp add: replicate_add)

lemma decode_len_loop_step:
  assumes "off < length buf" and "varint_decode_with_offset V buf off = Some (token_value t, k)"
    and "off + k + length (token_tail t) < 2 ^ 64" and "l + length (expand t) < 2 ^ 64"
  shows "decode_len_loop V buf off l =
    decode_len_loop V buf (off + k + length (token_tail t)) (l + length (expand t))"
proof (cases t)
  case (Run n b)
  with assms show ?thesis
    by (simp add: decode_len_loop.simps[of V buf off l] token_value_Run del: token_value.simps)
next
  case (Lit bs)
  with assms show ?thesis
    by (simp add: decode_len_loop.simps[of V buf off l] Let_def del: token_value.simps)
qed

lemma decode_loop_step:
  assumes "off < length buf" and "varint_decode_with_offset V buf off = Some (token_value t, k)"
    and "off + k + length (token_tail t) \<le> length buf"
    and "take (length (token_tail t)) (drop (off + k) buf) = token_tail t"
    and "length buf < 2 ^ 64" and "length out + length (expand t) + m < 2 ^ 64"
  shows "decode_loop V buf (out @ replicate (length (expand t) + m) 0) off (length out) =
    decode_loop V buf ((out @ expand t) @ replicate m 0)
      (off + k + length (token_tail t)) (length out + length (expand t))"
proof (cases t)
  case (Run n b)
  let ?bf = "out @ replicate (length (expand t) + m) 0"
  have "(if b then fill_ones n ?bf (length out) else Some ?bf) =
      Some ((out @ expand t) @ replicate m 0)"
    using Run write_expand[of out t m] by (cases b) (simp_all add: fill_ones_write zero_run_noop)
  with assms Run show ?thesis
    unfolding decode_loop.simps[of V buf ?bf off]
    by (cases b) (simp_all del: token_value.simps)
next
  case (Lit bs)
  let ?bf = "out @ replicate (length (expand t) + m) 0"
  have "copy_slice ?bf (length out) buf (off + k) (length bs) =
      Some ((out @ expand t) @ replicate m 0)"
    using assms Lit write_expand[of out t m] by (subst copy_slice_write) simp_all
  with assms Lit show ?thesis
    unfolding decode_loop.simps[of V buf ?bf off]
    by (simp add: Let_def del: token_value.simps)
qed

context varint
begin

lemma read_token:
  assumes "token_value t < 2 ^ 64"
  shows "varint_decode_with_offset V (pre @ token_bytes V t @ post) (length pre) =
      Some (token_value t, varint_length V (token_value t))"
  using decode_bytes[OF assms, of pre "token_tail t @ post"] by (simp add: token_bytes_def)

lemma token_bytes_length:
  "token_value t < 2 ^ 64 \<Longrightarrow>
     length (token_bytes V t) = varint_length V (token_value t) + length (token_tail t)"
  by (simp add: token_bytes_def bytes_length)

lemma token_bytes_pos: "token_value t < 2 ^ 64 \<Longrightarrow> 0 < length (token_bytes V t)"
  using length_pos[of "token_value t"] by (simp add: token_bytes_length)

lemma decode_len_loop_tokens:
  "(\<And>t. t \<in> set ts \<Longrightarrow> token_value t < 2 ^ 64) \<Longrightarrow>
   length (pre @ tokens_bytes V ts) < 2 ^ 64 \<Longrightarrow> l + length (tokens_expand ts) < 2 ^ 64 \<Longrightarrow>
   decode_len_loop V (pre @ tokens_bytes V ts) (length pre) l =
     Some (length (pre @ tokens_bytes V ts), l + length (tokens_expand ts))"
proof (induction ts arbitrary: pre l)
  case Nil
  then show ?case by (simp add: decode_len_loop.simps)
next
  case (Cons t ts)
  have small: "token_value t < 2 ^ 64" using Cons.prems(1) by simp
  let ?pre = "pre @ token_bytes V t"
  have "decode_len_loop V (pre @ tokens_bytes V (t # ts)) (length pre) l =
      decode_len_loop V (?pre @ tokens_bytes V ts) (length ?pre) (l + length (expand t))"
    using Cons.prems(2,3) length_pos[OF small] read_token[OF small, of pre "tokens_bytes V ts"]
    by (subst decode_len_loop_step[where t = t]) (simp_all add: token_bytes_length[OF small] add.assoc)
  also have "\<dots> = Some (length (?pre @ tokens_bytes V ts),
      l + length (expand t) + length (tokens_expand ts))"
    using Cons.prems by (intro Cons.IH) simp_all
  finally show ?case by simp
qed

lemma decode_loop_tokens:
  "(\<And>t. t \<in> set ts \<Longrightarrow> token_value t < 2 ^ 64) \<Longrightarrow>
   length (pre @ tokens_bytes V ts) < 2 ^ 64 \<Longrightarrow>
   length (out @ tokens_expand ts) < 2 ^ 64 \<Longrightarrow>
   decode_loop V (pre @ tokens_bytes V ts) (out @ replicate (length (tokens_expand ts)) 0)
       (length pre) (length out) =
     Some (out @ tokens_expand ts, length (pre @ tokens_bytes V ts))"
proof (induction ts arbitrary: pre out)
  case Nil
  then show ?case by (simp add: decode_loop.simps)
next
  case (Cons t ts)
  have small: "token_value t < 2 ^ 64" using Cons.prems(1) by simp
  let ?pre = "pre @ token_bytes V t" and ?out = "out @ expand t"
  let ?m = "length (tokens_expand ts)"
  have tail: "take (length (token_tail t)) (drop (length pre + varint_length V (token_value t))
      (pre @ tokens_bytes V (t # ts))) = token_tail t"
    by (simp add: token_bytes_def bytes_length[OF small])
  have "decode_loop V (pre @ tokens_bytes V (t # ts))
        (out @ replicate (length (expand t) + ?m) 0) (length pre) (length out) =
      decode_loop V (pre @ tokens_bytes V (t # ts)) (?out @ replicate ?m 0)
        (length pre + varint_length V (token_value t) + length (token_tail t))
        (length out + length (expand t))"
    using Cons.prems(2,3) length_pos[OF small] read_token[OF small, of pre "tokens_bytes V ts"]
      tail
    by (intro decode_loop_step) (simp_all add: token_bytes_length[OF small])
  then have "decode_loop V (pre @ tokens_bytes V (t # ts))
        (out @ replicate (length (tokens_expand (t # ts))) 0) (length pre) (length out) =
      decode_loop V (?pre @ tokens_bytes V ts) (?out @ replicate ?m 0) (length ?pre) (length ?out)"
    by (simp add: token_bytes_length[OF small] add.assoc)
  also have "\<dots> = Some (?out @ tokens_expand ts, length (?pre @ tokens_bytes V ts))"
    using Cons.prems by (intro Cons.IH) simp_all
  finally show ?case by simp
qed

lemma tokens_bytes_length_le:
  "(\<And>t. t \<in> set ts \<Longrightarrow> token_value t < 2 ^ 64 \<and> expand t \<noteq> []) \<Longrightarrow>
     length (tokens_bytes V ts) \<le> 11 * length (tokens_expand ts)"
proof (induction ts)
  case Nil
  then show ?case by simp
next
  case (Cons t ts)
  then have t: "token_value t < 2 ^ 64" "0 < length (expand t)" by simp_all
  have "length (token_tail t) \<le> length (expand t)" by (cases t) simp_all
  then have "length (token_bytes V t) \<le> 11 * length (expand t)"
    using length_max[OF t(1)] t(2) unfolding token_bytes_length[OF t(1)] by linarith
  with Cons show ?case by simp
qed

lemma encode_decode:
  assumes small: "length xs < 2 ^ 59"
  obtains enc where "encode V xs = Some enc" and "decode V enc = Some (Inr xs)"
    and "decode_len V enc = Some (Inr (length xs))" and "length enc \<le> 11 * length xs + 10"
proof -
  obtain ts where enc: "encode V xs = Some (tokens_bytes V ts)"
    and xs: "tokens_expand ts = xs"
    and ne: "\<And>t. t \<in> set ts \<Longrightarrow> expand t \<noteq> [] \<or> ts = [Lit []]"
    using encode_tokens[OF small, of V] by blast
  have tv: "token_value t < 2 ^ 64" if "t \<in> set ts" for t
  proof -
    have "length (expand t) \<le> length xs"
      using split_list[OF that] xs by auto
    with token_value_le[of t] small show ?thesis by simp
  qed
  have le: "length (tokens_bytes V ts) \<le> 11 * length xs + 10"
  proof (cases "ts = [Lit []]")
    case True
    then show ?thesis using length_max[of 0] by (simp add: token_bytes_def bytes_length)
  next
    case False
    then show ?thesis using tokens_bytes_length_le[of ts] tv ne xs by force
  qed
  have len: "decode_len_loop V (tokens_bytes V ts) 0 0 =
      Some (length (tokens_bytes V ts), length xs)"
    using decode_len_loop_tokens[of ts "[]" 0] tv le small xs by simp
  have dec: "decode_loop V (tokens_bytes V ts) (replicate (length xs) 0) 0 0 =
      Some (xs, length (tokens_bytes V ts))"
    using decode_loop_tokens[of ts "[]" "[]"] tv le small xs by simp
  have dlen: "decode_len V (tokens_bytes V ts) = Some (Inr (length xs))"
    by (simp add: decode_len_def decode_len_with_offset_def len)
  moreover have "decode V (tokens_bytes V ts) = Some (Inr xs)"
    using dlen small dec
    by (simp add: decode_len_def decode_def decode_with_offset_def zeroed_vec_def)
  ultimately show ?thesis using that enc le by blast
qed

end

section \<open>The length computation of the encoder is exact\<close>

text \<open>The two encoder loops run in lock step.\<close>

definition length_sim :: "rle_encoder \<Rightarrow> rle_length \<Rightarrow> bool" where
  "length_sim s l \<longleftrightarrow> rl_len l = length (re_enc s) \<and> rl_contiguous l = re_contiguous s \<and>
     rl_partial_len l = (if re_contiguous s then re_len s else length (re_noncontiguous_bits s)) \<and>
     (re_contiguous s \<longrightarrow> rl_prev_bits l = re_prev_bits s)"

context varint_groups
begin

lemma run_length_shift:
  assumes "0 < n" and "n < 2 ^ 59"
  shows "length (token_bytes V (run_token n b)) = varint_length V (u64_shl n 2)"
proof -
  have "varint_length V (token_value (run_token n b)) = varint_length V (4 * n)"
    using assms by (intro length_low_bits) (simp_all add: run_token_def)
  then show ?thesis
    using assms by (simp add: token_bytes_length run_token_def u64_shl_def mult.commute)
qed

lemma lit_length_shift:
  assumes "length bs < 2 ^ 59"
  shows "length (token_bytes V (Lit bs)) = varint_length V (u64_shl (length bs) 1) + length bs"
  using assms by (simp add: token_bytes_length u64_shl_def mult.commute)

lemma pending_token_length:
  assumes inv: "encoder_inv V seen s" and small: "length seen < 2 ^ 59"
  shows "length (token_bytes V (pending_token s)) =
    (if re_contiguous s then varint_length V (u64_shl (re_len s) 2)
     else length (re_noncontiguous_bits s)
       + varint_length V (u64_shl (length (re_noncontiguous_bits s)) 1))"
proof -
  have "length (pending_bytes s) < 2 ^ 59"
    using encoder_inv_pending[OF inv] small by simp
  moreover have "re_contiguous s \<Longrightarrow> 0 < re_len s"
    using inv by (simp add: encoder_inv_def)
  ultimately show ?thesis
    by (auto simp: pending_token_def pending_bytes_def run_length_shift lit_length_shift)
qed

lemma length_sim_step:
  assumes inv: "encoder_inv V seen s" and small: "length seen < 2 ^ 59" and sim: "length_sim s l"
  shows "length_sim (encode_step V 0 (length seen) b s) (encode_len_step V 0 (length seen) b l)"
  using sim pending_token_length[OF inv small] inv
  unfolding encode_step_cases[OF inv small]
  by (auto simp: length_sim_def encode_len_step_def byte_run_def Let_def encoder_inv_def
      pending_bytes_def)

lemma length_sim_loop:
  "encoder_inv V seen s \<Longrightarrow> length_sim s l \<Longrightarrow> length (seen @ xs) < 2 ^ 59 \<Longrightarrow>
     length_sim (encode_loop V 0 (length seen) xs s) (encode_len_loop V 0 (length seen) xs l)"
proof (induction xs arbitrary: seen s l)
  case Nil
  then show ?case by simp
next
  case (Cons x xs)
  then have "length seen < 2 ^ 59" by simp
  with Cons.prems have "encoder_inv V (seen @ [x]) (encode_step V 0 (length seen) x s)"
    and "length_sim (encode_step V 0 (length seen) x s) (encode_len_step V 0 (length seen) x l)"
    by (auto intro: encoder_inv_step length_sim_step)
  from Cons.IH[OF this] Cons.prems(3) show ?case by simp
qed

lemma encode_len_exact:
  assumes small: "length xs < 2 ^ 59"
  shows "encode_len_with_offset V xs 0 = map_option length (encode V xs)"
proof -
  let ?s = "encode_loop V 0 0 xs encode_init"
  let ?l = "encode_len_loop V 0 0 xs
    \<lparr>rl_len = 0, rl_partial_len = 0, rl_contiguous = False, rl_prev_bits = 0\<rparr>"
  have inv: "encoder_inv V xs ?s"
    using encoder_inv_loop[OF encoder_inv_init, of xs V] small by simp
  have "length_sim ?s ?l"
    using length_sim_loop[OF encoder_inv_init, of _ xs] small
    by (simp add: length_sim_def encode_init_def)
  then show ?thesis
    using pending_token_length[OF inv small] encode_finish_token[OF inv small]
    by (auto simp: encode_len_with_offset_def encode_0 length_sim_def)
qed

end

section \<open>The decoding pass is safe after the length pass\<close>

text \<open>
  Whatever the crate returns and whatever bytes arrived: when the length pass succeeds, the
  decoding pass stays inside both buffers, ends, and fills exactly the announced length.
\<close>

lemma fill_ones_length: "fill_ones n bf p = Some bf' \<Longrightarrow> length bf' = length bf"
  by (induction n arbitrary: bf p) (auto simp: bind_eq_Some_conv store_at_Some)

lemma decode_loop_follows:
  assumes "decode_len_loop V buf off l = Some r"
  shows "off \<le> fst r \<and> l \<le> snd r \<and>
    (\<forall>bf. snd r \<le> length bf \<longrightarrow> fst r \<le> length buf \<longrightarrow>
       length buf < 2 ^ 64 \<longrightarrow> length bf < 2 ^ 64 \<longrightarrow>
       (\<exists>bf'. decode_loop V buf bf off l = Some (bf', fst r) \<and> length bf' = length bf))"
    (is "?P V buf off l r")
proof (rule decode_len_loop.raw_induct[where P = ?P, OF _ assms])
  fix f V buf off l r
  assume IH: "\<And>V buf off l r. f V buf off l = Some r \<Longrightarrow> ?P V buf off l r"
  assume eq: "(if off < length buf
      then do { r \<leftarrow> varint_decode_with_offset V buf off;
                off \<leftarrow> usize_add off (snd r);
                let next = fst r; repeat = next mod 2;
                    slice = if 0 < repeat then next div 4 else next div 2
                in do { l \<leftarrow> usize_add l slice;
                        off \<leftarrow> if repeat = 0 then usize_add off slice else Some off;
                        f V buf off l } }
      else Some (off, l)) = Some r"
  show "?P V buf off l r"
  proof (cases "off < length buf")
    case False
    with eq show ?thesis by (auto simp: decode_loop.simps)
  next
    case True
    then obtain x where read: "varint_decode_with_offset V buf off = Some x"
      using eq by (auto simp: bind_eq_Some_conv)
    define n where "n = (if 0 < fst x mod 2 then fst x div 4 else fst x div 2)"
    define off' where "off' = off + snd x + (if fst x mod 2 = 0 then n else 0)"
    have step: "f V buf off' (l + n) = Some r" "off + snd x < 2 ^ 64" "l + n < 2 ^ 64"
      "off' < 2 ^ 64"
      using eq True read
      by (auto simp: bind_eq_Some_conv usize_add_Some Let_def n_def off'_def split: if_splits)
    note P = IH[OF step(1)]
    show ?thesis
    proof (intro conjI allI impI)
      show "off \<le> fst r" and "l \<le> snd r" using P by (auto simp: off'_def)
      fix bf :: "u8 list"
      assume bnd: "snd r \<le> length bf" "fst r \<le> length buf" "length buf < 2 ^ 64"
        "length bf < 2 ^ 64"
      have fits: "l + n \<le> length bf" "off' \<le> length buf" using P bnd by auto
      have "\<exists>bf1. (if 0 < fst x mod 2
            then if 0 < fst x div 2 mod 2 then fill_ones n bf l else Some bf
            else copy_slice bf l buf (off + snd x) n) = Some bf1 \<and> length bf1 = length bf"
        using fits bnd(3,4)
        by (cases "0 < fst x mod 2"; cases "0 < fst x div 2 mod 2")
          (simp_all add: fill_ones_write copy_slice_write off'_def)
      then obtain bf1 where bf1: "(if 0 < fst x mod 2
            then if 0 < fst x div 2 mod 2 then fill_ones n bf l else Some bf
            else copy_slice bf l buf (off + snd x) n) = Some bf1" "length bf1 = length bf"
        by blast
      have "\<exists>bf'. decode_loop V buf bf1 off' (l + n) = Some (bf', fst r) \<and>
          length bf' = length bf1"
        using P[THEN conjunct2, THEN conjunct2, rule_format, of bf1] bnd bf1(2) by simp
      then show "\<exists>bf'. decode_loop V buf bf off l = Some (bf', fst r) \<and> length bf' = length bf"
        using True read step bf1
        unfolding decode_loop.simps[of V buf bf off l]
        by (cases "0 < fst x mod 2"; cases "0 < fst x div 2 mod 2")
          (simp_all add: n_def off'_def Let_def)
    qed
  qed
qed

lemma decode_after_length:
  assumes "decode_len V buf = Some (Inr n)" and "n < 2 ^ 63" and "length buf < 2 ^ 64"
  obtains out where "decode V buf = Some (Inr out)" and "length out = n"
proof -
  obtain off where len: "decode_len_loop V buf 0 0 = Some (off, n)" "off \<le> length buf"
    using assms(1)
    by (auto simp: decode_len_def decode_len_with_offset_def bind_eq_Some_conv split: if_splits)
  have "\<forall>bf. n \<le> length bf \<longrightarrow> length bf < 2 ^ 64 \<longrightarrow>
      (\<exists>bf'. decode_loop V buf bf 0 0 = Some (bf', off) \<and> length bf' = length bf)"
    using decode_loop_follows[OF len(1)] len(2) assms(3) by simp
  from this[rule_format, of "replicate n 0"]
  have "\<exists>bf'. decode_loop V buf (replicate n 0) 0 0 = Some (bf', off) \<and> length bf' = n"
    using assms(2) by simp
  then obtain out where "decode_loop V buf (replicate n 0) 0 0 = Some (out, off)" "length out = n"
    by blast
  then show ?thesis
    using that assms(1,2) len(2)
    by (simp add: decode_def decode_with_offset_def decode_len_def zeroed_vec_def)
qed

lemma decode_length_error:
  "decode_len V buf = Some (Inl e) \<Longrightarrow> decode V buf = Some (Inl e)"
  by (simp add: decode_def decode_with_offset_def decode_len_def)

section \<open>Concrete packets\<close>

text \<open>
  The test vectors of the source on LEB128, and the longest run a varint can announce.
\<close>

lemmas rle_eval = encode_def encode_with_offset_def encode_init_def encode_step_def
  encode_finish_def write_contiguous_def write_noncontiguous_def u64_shl_def slice_at_def
  decode_def decode_with_offset_def decode_len_def decode_len_with_offset_def zeroed_vec_def
  decode_len_loop.simps decode_loop.simps fill_ones.simps copy_slice_def write_seg_def
  usize_add_def store_at_def leb_bytes.simps leb_read.simps

lemma encode_test_vector:
  "encode leb128 [255, 255, 85, 84, 0, 0, 0, 183] = Some [11, 4, 85, 84, 13, 2, 183]"
  by (simp add: rle_eval)

lemma fill_ones_numeral [simp]:
  "fill_ones (numeral k) bf p = do { bf \<leftarrow> store_at bf p 255; fill_ones (pred_numeral k) bf (Suc p) }"
  by (simp add: numeral_eq_Suc)

lemma decode_test_vector:
  "decode leb128 [11, 4, 85, 84, 13, 2, 183] = Some (Inr [255, 255, 85, 84, 0, 0, 0, 183])"
  by (simp add: rle_eval) (simp add: numeral_eq_Suc)

definition run_packet :: "u8 list" where
  "run_packet = leb_bytes (2 ^ 64 - 1)"

lemma decode_len_run_packet:
  "decode_len leb128 run_packet = Some (Inr (2 ^ 62 - 1))"
  by (simp add: rle_eval run_packet_def)

end
