(* ===== verification/Compression.thy ===== *)
theory Compression
  imports Bitfield
begin

unbundle bit_operations_syntax

text \<open>
  The delta code of \<^verbatim>\<open>backroll/src/protocol/compression.rs\<close>: every value is XORed with its
  predecessor, the first with a base, and the bytes are run-length encoded. The \<^verbatim>\<open>bytemuck\<close>
  crate, which gives the bytes of a value, is the parameter \<open>P\<close>: the locale \<open>pod\<close> names what
  the code relies on, and it is interpreted on the \<open>repr(C)\<close> struct of two \<open>i32\<close> the tests of
  the source use. The locale \<open>lossless\<close> is the contract the input buffers need.
\<close>

section \<open>Plain data\<close>

record 'i pod_crate =
  pod_size :: nat
  bytes_of :: "'i \<Rightarrow> u8 list"
  try_from_bytes :: "u8 list \<Rightarrow> 'i option"
  pod_zeroed :: 'i

locale pod =
  fixes P :: "'i pod_crate"
  assumes size_pos: "0 < pod_size P"
    and bytes_size: "length (bytes_of P x) = pod_size P"
    and bytes_inverse: "try_from_bytes P (bytes_of P x) = Some x"

section \<open>Encoder and decoder\<close>

definition MAX_BUFFER_SIZE :: nat where
  "MAX_BUFFER_SIZE = 65535"

datatype encode_error = EncodeTooBig nat

text \<open>
  The loop of \<open>delta_encode\<close> on \<open>(bits, bytes)\<close>: \<open>bits\<close> holds the bytes of the previous value,
  which the inner loop overwrites while it appends their XOR with the current ones.
\<close>

fun delta_encode_loop ::
    "'i pod_crate \<Rightarrow> u8 list \<Rightarrow> u8 list \<Rightarrow> 'i list \<Rightarrow> (encode_error + u8 list) option" where
  "delta_encode_loop P bits bytes [] = Some (Inr bytes)"
| "delta_encode_loop P bits bytes (datum # data) =
     (let datum_bytes = bytes_of P datum in
      do { debug_assert (length bits = length datum_bytes);
           let bytes = bytes @ map2 (\<lambda>b1 b2. b1 XOR b2) bits datum_bytes;
           let bits = datum_bytes @ drop (length datum_bytes) bits;
           (if length bytes \<ge> MAX_BUFFER_SIZE then Some (Inl (EncodeTooBig (length bytes)))
            else delta_encode_loop P bits bytes data) })"

definition delta_encode :: "'i pod_crate \<Rightarrow> 'i \<Rightarrow> 'i list \<Rightarrow> (encode_error + u8 list) option" where
  "delta_encode P base data = delta_encode_loop P (bytes_of P base) [] data"

definition compress ::
    "varint_crate \<Rightarrow> 'i pod_crate \<Rightarrow> 'i \<Rightarrow> 'i list \<Rightarrow> (encode_error + u8 list) option" where
  "compress V P base data =
     do { r \<leftarrow> delta_encode P base data;
          case r of
            Inl e \<Rightarrow> Some (Inl e)
          | Inr bytes \<Rightarrow> do { enc \<leftarrow> encode V bytes; Some (Inr enc) } }"

text \<open>
  One turn of the loop of \<open>decode\<close>: \<open>bits\<close> is updated in place by
  \<open>*byte ^= delta[idx * stride + local_idx]\<close>, then read as a value.
\<close>

fun delta_decode_loop ::
    "'i pod_crate \<Rightarrow> u8 list \<Rightarrow> nat \<Rightarrow> nat \<Rightarrow> nat \<Rightarrow> u8 list \<Rightarrow> 'i list \<Rightarrow>
       (decode_error + 'i list) option" where
  "delta_decode_loop P delta stride 0 idx bits output = Some (Inr output)"
| "delta_decode_loop P delta stride (Suc n) idx bits output =
     do { chunk \<leftarrow> slice_at delta (idx * stride) (idx * stride + length bits);
          let bits = map2 (\<lambda>b d. b XOR d) bits chunk;
          case try_from_bytes P bits of
            None \<Rightarrow> Some (Inl Cast)
          | Some x \<Rightarrow> delta_decode_loop P delta stride n (Suc idx) bits (output @ [x]) }"

definition decompress ::
    "varint_crate \<Rightarrow> 'i pod_crate \<Rightarrow> 'i \<Rightarrow> u8 list \<Rightarrow> (decode_error + 'i list) option" where
  "decompress V P base data =
     (let bits = bytes_of P base; stride = length bits in
      do { debug_assert (stride > 0);
           delta_len \<leftarrow> decode_len V data;
           case delta_len of
             Inl e \<Rightarrow> Some (Inl e)
           | Inr delta_len \<Rightarrow>
               if delta_len > MAX_BUFFER_SIZE then Some (Inl (DecodeTooBig delta_len))
               else
                 do { delta \<leftarrow> decode V data;
                      case delta of
                        Inl e \<Rightarrow> Some (Inl e)
                      | Inr delta \<Rightarrow>
                          do { debug_assert (length delta mod stride = 0);
                               delta_decode_loop P delta stride (length delta div stride) 0
                                 bits [] } } })"

section \<open>Decoding inverts encoding\<close>

definition xor_bytes :: "u8 list \<Rightarrow> u8 list \<Rightarrow> u8 list" where
  "xor_bytes xs ys = map2 (\<lambda>b d. b XOR d) xs ys"

lemma length_xor_bytes [simp]: "length (xor_bytes xs ys) = min (length xs) (length ys)"
  by (simp add: xor_bytes_def)

lemma xor_bytes_cancel:
  "length xs = length ys \<Longrightarrow> xor_bytes xs (xor_bytes xs ys) = ys"
  by (induction xs ys rule: list_induct2) (simp_all add: xor_bytes_def flip: xor.assoc)

text \<open>The bytes the encoder appends: each value against the one before.\<close>

fun deltas :: "'i pod_crate \<Rightarrow> u8 list \<Rightarrow> 'i list \<Rightarrow> u8 list" where
  "deltas P bits [] = []"
| "deltas P bits (x # xs) = xor_bytes bits (bytes_of P x) @ deltas P (bytes_of P x) xs"

context pod
begin

lemma length_deltas:
  "length bits = pod_size P \<Longrightarrow> length (deltas P bits xs) = length xs * pod_size P"
  by (induction xs arbitrary: bits) (simp_all add: bytes_size)

lemma delta_encode_loop_Inr:
  "length bits = pod_size P \<Longrightarrow> length bytes + length xs * pod_size P < MAX_BUFFER_SIZE \<Longrightarrow>
     delta_encode_loop P bits bytes xs = Some (Inr (bytes @ deltas P bits xs))"
proof (induction xs arbitrary: bits bytes)
  case Nil
  then show ?case by simp
next
  case (Cons x xs)
  then have "delta_encode_loop P (bytes_of P x) (bytes @ xor_bytes bits (bytes_of P x)) xs =
      Some (Inr ((bytes @ xor_bytes bits (bytes_of P x)) @ deltas P (bytes_of P x) xs))"
    by (intro Cons.IH) (simp_all add: bytes_size)
  then show ?case
    using Cons.prems by (simp add: bytes_size xor_bytes_def Let_def)
qed

lemma delta_encode_loop_Inl:
  "length bits = pod_size P \<Longrightarrow> xs \<noteq> [] \<Longrightarrow> length bytes < MAX_BUFFER_SIZE \<Longrightarrow>
   MAX_BUFFER_SIZE \<le> length bytes + length xs * pod_size P \<Longrightarrow>
     \<exists>n. delta_encode_loop P bits bytes xs = Some (Inl (EncodeTooBig n))"
proof (induction xs arbitrary: bits bytes)
  case Nil
  then show ?case by simp
next
  case (Cons x xs)
  let ?bytes = "bytes @ xor_bytes bits (bytes_of P x)"
  show ?case
  proof (cases "MAX_BUFFER_SIZE \<le> length ?bytes")
    case True
    with Cons.prems show ?thesis by (simp add: bytes_size xor_bytes_def Let_def)
  next
    case False
    then have "xs \<noteq> []" using Cons.prems by (auto simp: bytes_size)
    with False Cons.prems have "\<exists>n. delta_encode_loop P (bytes_of P x) ?bytes xs =
        Some (Inl (EncodeTooBig n))"
      by (intro Cons.IH) (simp_all add: bytes_size)
    with False Cons.prems show ?thesis
      by (simp add: bytes_size xor_bytes_def Let_def)
  qed
qed

lemma delta_decode_loop_deltas:
  "length bits = pod_size P \<Longrightarrow> length pre = idx * pod_size P \<Longrightarrow>
     delta_decode_loop P (pre @ deltas P bits xs) (pod_size P) (length xs) idx bits out =
       Some (Inr (out @ xs))"
proof (induction xs arbitrary: pre idx bits out)
  case Nil
  then show ?case by simp
next
  case (Cons x xs)
  let ?d = "xor_bytes bits (bytes_of P x)"
  have d: "length ?d = pod_size P" "xor_bytes bits ?d = bytes_of P x"
    using Cons.prems(1) by (simp_all add: bytes_size xor_bytes_cancel)
  have "delta_decode_loop P ((pre @ ?d) @ deltas P (bytes_of P x) xs) (pod_size P) (length xs)
      (Suc idx) (bytes_of P x) (out @ [x]) = Some (Inr ((out @ [x]) @ xs))"
    using Cons.prems d by (intro Cons.IH) (simp_all add: bytes_size)
  then show ?case
    using Cons.prems d by (simp add: bytes_inverse xor_bytes_def[symmetric])
qed

end

text \<open>
  The contract of a packet codec: what was packed is read back, and packing only fails on a
  sequence that is too long.
\<close>

locale lossless =
  fixes pack :: "'i list \<Rightarrow> (encode_error + u8 list) option"
    and unpack :: "u8 list \<Rightarrow> (decode_error + 'i list) option"
    and fits :: "'i list \<Rightarrow> bool"
  assumes unpack_pack: "fits xs \<Longrightarrow> \<exists>bits. pack xs = Some (Inr bits) \<and> unpack bits = Some (Inr xs)"
    and pack_too_big: "\<not> fits xs \<Longrightarrow> \<exists>n. pack xs = Some (Inl (EncodeTooBig n))"
    and unpack_Nil: "unpack [] = Some (Inr [])"
begin

lemma pack_Inr: "pack xs = Some (Inr bits) \<Longrightarrow> fits xs \<and> unpack bits = Some (Inr xs)"
  using unpack_pack[of xs] pack_too_big[of xs] by fastforce

lemma pack_returns: "pack xs \<noteq> None"
  using unpack_pack[of xs] pack_too_big[of xs] by fastforce

end

definition packet_fits :: "'i pod_crate \<Rightarrow> 'i list \<Rightarrow> bool" where
  "packet_fits P xs \<longleftrightarrow> xs = [] \<or> length xs * pod_size P < MAX_BUFFER_SIZE"

locale packet_codec = varint V + pod P
  for V :: varint_crate and P :: "'i pod_crate" +
  fixes base :: 'i
begin

lemma length_base_bytes: "length (bytes_of P base) = pod_size P"
  by (rule bytes_size)

lemma bytes_nonempty [simp]: "bytes_of P x \<noteq> []"
  using bytes_size[of x] size_pos by force

lemma decompress_compress:
  assumes "packet_fits P xs"
  obtains bits where "compress V P base xs = Some (Inr bits)"
    and "decompress V P base bits = Some (Inr xs)"
    and "length bits \<le> 11 * (length xs * pod_size P) + 10"
proof -
  let ?ds = "deltas P (bytes_of P base) xs"
  have len: "length ?ds = length xs * pod_size P" by (simp add: length_deltas length_base_bytes)
  have small: "length ?ds < MAX_BUFFER_SIZE"
    using assms by (auto simp: packet_fits_def len MAX_BUFFER_SIZE_def)
  have enc: "delta_encode P base xs = Some (Inr ?ds)"
    using delta_encode_loop_Inr[of "bytes_of P base" "[]" xs] small
    by (simp add: delta_encode_def length_base_bytes len)
  have "length ?ds < 2 ^ 59" using small by (simp add: MAX_BUFFER_SIZE_def)
  then obtain bits where bits: "encode V ?ds = Some bits" "decode V bits = Some (Inr ?ds)"
    "decode_len V bits = Some (Inr (length ?ds))" "length bits \<le> 11 * length ?ds + 10"
    by (rule encode_decode)
  have "delta_decode_loop P ?ds (pod_size P) (length ?ds div pod_size P) 0
      (bytes_of P base) [] = Some (Inr xs)"
    using delta_decode_loop_deltas[of "bytes_of P base" "[]" 0 xs "[]"] size_pos
    by (simp add: length_base_bytes len)
  then have "decompress V P base bits = Some (Inr xs)"
    using bits small size_pos by (simp add: decompress_def length_base_bytes len)
  then show ?thesis
    using that bits enc by (simp add: compress_def len)
qed

lemma compress_too_big:
  assumes "\<not> packet_fits P xs"
  shows "\<exists>n. compress V P base xs = Some (Inl (EncodeTooBig n))"
  using delta_encode_loop_Inl[of "bytes_of P base" xs "[]"] assms
  by (auto simp: packet_fits_def compress_def delta_encode_def length_base_bytes
      MAX_BUFFER_SIZE_def)

lemma decompress_Nil: "decompress V P base [] = Some (Inr [])"
  using size_pos
  by (simp add: decompress_def length_base_bytes decode_len_def decode_len_with_offset_def
      decode_def decode_with_offset_def decode_len_loop.simps decode_loop.simps zeroed_vec_def)

end

sublocale packet_codec \<subseteq> lossless "compress V P base" "decompress V P base" "packet_fits P"
proof (unfold_locales, goal_cases)
  case (1 xs)
  then show ?case by (blast elim: decompress_compress)
next
  case (2 xs)
  then show ?case by (rule compress_too_big)
next
  case 3
  show ?case by (rule decompress_Nil)
qed

section \<open>The input type of the tests\<close>

text \<open>\<^verbatim>\<open>#[repr(C)] struct Input { x: i32, y: i32 }\<close>, as its little-endian bytes.\<close>

record test_input =
  ti_x :: u32
  ti_y :: u32

definition u32_bytes :: "u32 \<Rightarrow> u8 list" where
  "u32_bytes w = [ucast w, ucast (drop_bit 8 w), ucast (drop_bit 16 w), ucast (drop_bit 24 w)]"

definition u32_of_bytes :: "u8 \<Rightarrow> u8 \<Rightarrow> u8 \<Rightarrow> u8 \<Rightarrow> u32" where
  "u32_of_bytes a b c d =
     ucast a OR push_bit 8 (ucast b) OR push_bit 16 (ucast c) OR push_bit 24 (ucast d)"

lemma u32_of_bytes_inverse:
  "u32_of_bytes (ucast w) (ucast (drop_bit 8 w)) (ucast (drop_bit 16 w)) (ucast (drop_bit 24 w)) = w"
proof (rule bit_word_eqI)
  fix n :: nat
  assume "n < LENGTH(32)"
  then consider "n < 8" | "8 \<le> n" "n < 16" | "16 \<le> n" "n < 24" | "24 \<le> n" "n < 32"
    by fastforce
  then show "bit (u32_of_bytes (ucast w) (ucast (drop_bit 8 w)) (ucast (drop_bit 16 w))
      (ucast (drop_bit 24 w))) n = bit w n"
    by cases (auto simp: u32_of_bytes_def bit_simps)
qed

fun test_input_of_bytes :: "u8 list \<Rightarrow> test_input option" where
  "test_input_of_bytes [a, b, c, d, e, f, g, h] =
     Some \<lparr>ti_x = u32_of_bytes a b c d, ti_y = u32_of_bytes e f g h\<rparr>"
| "test_input_of_bytes _ = None"

definition test_pod :: "test_input pod_crate" where
  "test_pod = \<lparr>pod_size = 8, bytes_of = (\<lambda>i. u32_bytes (ti_x i) @ u32_bytes (ti_y i)),
     try_from_bytes = test_input_of_bytes, pod_zeroed = \<lparr>ti_x = 0, ti_y = 0\<rparr>\<rparr>"

interpretation test_codec: packet_codec leb128 test_pod "pod_zeroed test_pod"
  by unfold_locales
    (simp_all add: test_pod_def u32_bytes_def u32_of_bytes_inverse)

end
