(* ===== verification/Input_Buffer.thy ===== *)
theory Input_Buffer
  imports Frames Compression
begin

text \<open>
  The encoder and the decoder of the input stream to one peer,
  \<^verbatim>\<open>backroll/src/protocol/input_buffer.rs\<close>. The encoder keeps the inputs the peer has not yet
  acknowledged, the decoder the last frame it has handed on. Both hold their state behind a
  lock that every method takes for its whole body, so each method is one state transition.
\<close>

section \<open>InputEncoder\<close>

record 'i input_encoder =
  ie_pending :: "'i frame_input list"
  ie_last_acked :: frame
  ie_last_encoded :: frame

definition encoder_default :: "'i input_encoder" where
  "encoder_default =
     \<lparr>ie_pending = [], ie_last_acked = NULL_FRAME, ie_last_encoded = NULL_FRAME\<rparr>"

definition encoder_push :: "'i frame_input \<Rightarrow> 'i input_encoder \<Rightarrow> 'i input_encoder" where
  "encoder_push input e = e\<lparr>ie_pending := ie_pending e @ [input]\<rparr>"

definition encoder_last_encoded_frame :: "'i input_encoder \<Rightarrow> frame" where
  "encoder_last_encoded_frame e = ie_last_encoded e"

definition acknowledge_frame :: "frame \<Rightarrow> 'i input_encoder \<Rightarrow> 'i input_encoder" where
  "acknowledge_frame ack_frame e =
     (let older = filter (\<lambda>i. fi_frame i < ack_frame) (ie_pending e) in
      if older = [] then e
      else e\<lparr>ie_last_acked := fi_frame (last older),
             ie_pending := filter (\<lambda>i. fi_frame i \<ge> ack_frame) (ie_pending e)\<rparr>)"

text \<open>
  \<open>encode\<close> over a packer \<open>pack\<close>, and the method itself, which packs with
  \<open>compression::encode\<close> against a zeroed value. A packet that does not fit leaves the
  encoder as it was.
\<close>

definition encode_pending ::
    "('i list \<Rightarrow> (encode_error + u8 list) option) \<Rightarrow> 'i input_encoder \<Rightarrow>
       ((encode_error + frame \<times> u8 list) \<times> 'i input_encoder) option" where
  "encode_pending pack e =
     (if ie_pending e \<noteq> [] then
        do { r \<leftarrow> pack (map fi_input (ie_pending e));
             case r of
               Inl err \<Rightarrow> Some (Inl err, e)
             | Inr bits \<Rightarrow>
                 Some (Inr (fi_frame (hd (ie_pending e)), bits),
                       e\<lparr>ie_last_encoded := fi_frame (last (ie_pending e))\<rparr>) }
      else Some (Inr (ie_last_acked e, []), e))"

definition encoder_encode ::
    "varint_crate \<Rightarrow> 'i pod_crate \<Rightarrow> 'i input_encoder \<Rightarrow>
       ((encode_error + frame \<times> u8 list) \<times> 'i input_encoder) option" where
  "encoder_encode V P = encode_pending (compress V P (pod_zeroed P))"

section \<open>InputDecoder\<close>

record input_decoder =
  id_last_decoded :: frame

definition decoder_default :: input_decoder where
  "decoder_default = \<lparr>id_last_decoded = NULL_FRAME\<rparr>"

definition last_decoded_frame :: "input_decoder \<Rightarrow> frame" where
  "last_decoded_frame d = id_last_decoded d"

text \<open>
  \<open>.enumerate().map(...)\<close>: value number \<open>i\<close> gets frame \<open>start_frame + i\<close>. The cast \<open>i as
  Frame\<close> is exact, since a packet holds at most \<open>MAX_BUFFER_SIZE\<close> values.
\<close>

fun number_frames :: "frame \<Rightarrow> nat \<Rightarrow> 'i list \<Rightarrow> 'i frame_input list option" where
  "number_frames start_frame i [] = Some []"
| "number_frames start_frame i (x # xs) =
     do { f \<leftarrow> i32_add start_frame (int i);
          rest \<leftarrow> number_frames start_frame (Suc i) xs;
          Some (\<lparr>fi_frame = f, fi_input = x\<rparr> # rest) }"

definition decode_frames ::
    "(u8 list \<Rightarrow> (decode_error + 'i list) option) \<Rightarrow> frame \<Rightarrow> u8 list \<Rightarrow> input_decoder \<Rightarrow>
       ((decode_error + 'i frame_input list) \<times> input_decoder) option" where
  "decode_frames unpack start_frame bits d =
     do { current_frame \<leftarrow>
            (if is_null (id_last_decoded d) then i32_sub start_frame 1
             else Some (id_last_decoded d));
          r \<leftarrow> unpack bits;
          case r of
            Inl err \<Rightarrow> Some (Inl err, d)
          | Inr xs \<Rightarrow>
              do { frames \<leftarrow> number_frames start_frame 0 xs;
                   let frame_inputs = dropWhile (\<lambda>i. fi_frame i \<le> current_frame) frames;
                   let d' = (if frame_inputs = [] then d
                             else d\<lparr>id_last_decoded := fi_frame (last frame_inputs)\<rparr>);
                   debug_assert (id_last_decoded d' \<ge> id_last_decoded d);
                   Some (Inr frame_inputs, d') } }"

definition decoder_decode ::
    "varint_crate \<Rightarrow> 'i pod_crate \<Rightarrow> frame \<Rightarrow> u8 list \<Rightarrow> input_decoder \<Rightarrow>
       ((decode_error + 'i frame_input list) \<times> input_decoder) option" where
  "decoder_decode V P = decode_frames (decompress V P (pod_zeroed P))"

section \<open>Behaviour of the operations\<close>

lemma number_frames_numbered:
  "in_i32 start \<Longrightarrow> in_i32 (start + int (i + length xs)) \<Longrightarrow>
     number_frames start i xs = Some (numbered (start + int i) xs)"
proof (induction xs arbitrary: i)
  case Nil
  then show ?case by simp
next
  case (Cons x xs)
  then have "number_frames start (Suc i) xs = Some (numbered (start + int (Suc i)) xs)"
    by (intro Cons.IH) simp_all
  moreover have "in_i32 (start + int i)"
    using Cons.prems by (simp add: in_i32_def)
  ultimately show ?case by (simp add: ac_simps)
qed

text \<open>Acknowledging frame \<open>a\<close> drops a prefix of a consecutive queue.\<close>

lemma acknowledge_numbered:
  "ie_pending e = numbered s xs \<Longrightarrow>
     ie_pending (acknowledge_frame a e) = numbered (s + int (nat (a - s))) (drop (nat (a - s)) xs)"
  using filter_lt_numbered_Nil[of a s xs] filter_ge_numbered[of a s xs]
  by (auto simp: acknowledge_frame_def Let_def)

text \<open>What a packet of consecutive frames \<open>s, s + 1, ...\<close> adds at the decoder.\<close>

lemma decode_frames_numbered:
  assumes up: "unpack bits = Some (Inr xs)"
    and bnd: "in_i32 (s - 1)" "in_i32 (s + int (length xs))"
    and cur: "c = (if is_null (id_last_decoded d) then s - 1 else id_last_decoded d)"
    and d: "- 1 \<le> id_last_decoded d" "s \<le> c + 1" "id_last_decoded d \<le> c"
  shows "decode_frames unpack s bits d =
    Some (Inr (numbered (c + 1) (drop (nat (c + 1 - s)) xs)),
      if nat (c + 1 - s) < length xs then d\<lparr>id_last_decoded := s + int (length xs) - 1\<rparr> else d)"
proof -
  have "in_i32 s" using bnd by (simp add: in_i32_def)
  then have num: "number_frames s 0 xs = Some (numbered s xs)"
    using number_frames_numbered[of s 0 xs] bnd(2) by simp
  let ?k = "nat (c + 1 - s)" and ?fs = "dropWhile (\<lambda>i. fi_frame i \<le> c) (numbered s xs)"
  have fs: "?fs = numbered (c + 1) (drop ?k xs)"
    using d(2) by (simp add: dropWhile_numbered)
  have last: "fi_frame (last ?fs) = s + int (length xs) - 1" if "?k < length xs"
    using that d(2) by (simp add: fs)
  have grow: "id_last_decoded d < s + int (length xs)" if "?k < length xs"
    using that d by (simp add: nat_less_iff)
  have c: "(if is_null (id_last_decoded d) then i32_sub s 1 else Some (id_last_decoded d)) = Some c"
    using bnd(1) by (simp add: cur)
  show ?thesis
    unfolding decode_frames_def c
    using d last grow by (cases "?k < length xs") (simp_all add: up num fs Let_def add.commute del: dropWhile_eq_Nil_conv)
qed

lemma encode_pendingE:
  assumes "encode_pending pack e0 = Some (Inr p, e)"
  obtains (empty) "ie_pending e0 = []" "p = (ie_last_acked e0, [])" "e = e0"
    | (packed) bits where "ie_pending e0 \<noteq> []"
      "pack (map fi_input (ie_pending e0)) = Some (Inr bits)"
      "p = (fi_frame (hd (ie_pending e0)), bits)"
      "e = e0\<lparr>ie_last_encoded := fi_frame (last (ie_pending e0))\<rparr>"
proof (cases "ie_pending e0 = []")
  case True
  with assms show ?thesis by (intro empty) (auto simp: encode_pending_def)
next
  case False
  with assms obtain r where r: "pack (map fi_input (ie_pending e0)) = Some r"
    by (auto simp: encode_pending_def bind_eq_Some_conv)
  with assms False show ?thesis
    by (cases r) (auto simp: encode_pending_def intro: packed)
qed

end
