(* ===== verification/Peer_State.thy ===== *)
theory Peer_State
  imports Time_Sync Input_Buffer
begin

text \<open>
  The state of one connection (\<open>Peer\<close> of \<^verbatim>\<open>backroll/src/protocol/mod.rs\<close>): the state machine
  \<open>PeerState\<close>, the statistics, and the struct with its clones. The channels are those of a library
  outside the repository; its operations are the fields of a \<open>channel_crate\<close>, whose documented
  behaviour (an unbounded queue that can be closed) is stated by \<open>unbounded_channel\<close>. The generator
  of random numbers is the list of the numbers it draws.
\<close>

section \<open>Channels\<close>

datatype try_send_error = TrySendFull | TrySendClosed

datatype try_recv_error = TryRecvEmpty | TryRecvClosed

record ('m, 'c) channel_crate =
  chan_try_send :: "'m \<Rightarrow> 'c \<Rightarrow> (try_send_error + unit) \<times> 'c"
  chan_try_recv :: "'c \<Rightarrow> (try_recv_error + 'm) \<times> 'c"
  chan_close :: "'c \<Rightarrow> 'c"
  chan_len :: "'c \<Rightarrow> nat"

text \<open>The contract: \<open>items\<close> are the messages not yet received, \<open>shut\<close> tells if it was closed.\<close>

locale unbounded_channel =
  fixes C :: "('m, 'c) channel_crate" and items :: "'c \<Rightarrow> 'm list" and shut :: "'c \<Rightarrow> bool"
  assumes try_send_shut: "shut c \<Longrightarrow> chan_try_send C x c = (Inl TrySendClosed, c)"
    and try_send_room: "\<not> shut c \<Longrightarrow>
      \<exists>c'. chan_try_send C x c = (Inr (), c') \<and> items c' = items c @ [x] \<and> \<not> shut c'"
    and try_recv_none: "items c = [] \<Longrightarrow>
      chan_try_recv C c = (Inl (if shut c then TryRecvClosed else TryRecvEmpty), c)"
    and try_recv_item: "items c = x # xs \<Longrightarrow>
      \<exists>c'. chan_try_recv C c = (Inr x, c') \<and> items c' = xs \<and> shut c' = shut c"
    and chan_close: "items (chan_close C c) = items c \<and> shut (chan_close C c)"
    and chan_len: "chan_len C c = length (items c)"
begin

lemma try_send_open:
  assumes "\<not> shut c"
  obtains c' where "chan_try_send C x c = (Inr (), c')" and "items c' = items c @ [x]" and "\<not> shut c'"
  using try_send_room[OF assms] by blast

lemma try_recv_open: "items c = [] \<Longrightarrow> \<not> shut c \<Longrightarrow> chan_try_recv C c = (Inl TryRecvEmpty, c)"
  by (simp add: try_recv_none)

lemma try_recv_Inr:
  assumes "chan_try_recv C c = (Inr x, c')"
  shows "items c = x # items c'" and "shut c' = shut c"
proof -
  have "items c = x # items c' \<and> shut c' = shut c"
  proof (cases "items c")
    case Nil
    then show ?thesis using try_recv_none assms by simp
  next
    case (Cons y ys)
    then show ?thesis using try_recv_item[OF Cons] assms by auto
  qed
  then show "items c = x # items c'" and "shut c' = shut c" by auto
qed

end

text \<open>A channel that keeps the contract.\<close>

record 'm list_channel =
  lc_items :: "'m list"
  lc_closed :: bool

definition list_channel_new :: "'m list_channel" where
  "list_channel_new = \<lparr>lc_items = [], lc_closed = False\<rparr>"

definition list_channels :: "('m, 'm list_channel) channel_crate" where
  "list_channels =
     \<lparr>chan_try_send = (\<lambda>x c. if lc_closed c then (Inl TrySendClosed, c)
        else (Inr (), c\<lparr>lc_items := lc_items c @ [x]\<rparr>)),
      chan_try_recv = (\<lambda>c. case lc_items c of
          [] \<Rightarrow> (Inl (if lc_closed c then TryRecvClosed else TryRecvEmpty), c)
        | x # xs \<Rightarrow> (Inr x, c\<lparr>lc_items := xs\<rparr>)),
      chan_close = (\<lambda>c. c\<lparr>lc_closed := True\<rparr>),
      chan_len = (\<lambda>c. length (lc_items c))\<rparr>"

interpretation list_channel: unbounded_channel list_channels lc_items lc_closed
  by unfold_locales (simp_all add: list_channels_def)

lemma unbounded_list_channels [simp]: "unbounded_channel list_channels lc_items lc_closed"
  by (rule list_channel.unbounded_channel_axioms)

record ('i, 'e, 'o, 'm) crates =
  cr_varint :: varint_crate
  cr_pod :: "'i pod_crate"
  cr_events :: "('i peer_event, 'e) channel_crate"
  cr_out :: "(message_data, 'o) channel_crate"
  cr_in :: "(message, 'm) channel_crate"

section \<open>PeerState\<close>

datatype peer_error = LocalDisconnected | RemoteDisconnected | InvalidMessage

definition UDP_HEADER_SIZE :: nat where
  "UDP_HEADER_SIZE = 28"

definition NUM_SYNC_PACKETS :: nat where
  "NUM_SYNC_PACKETS = 5"

definition TARGET_TPS :: nat where
  "TARGET_TPS = 60"

definition SYNC_RETRY_INTERVAL :: millis where
  "SYNC_RETRY_INTERVAL = 2000"

definition SYNC_FIRST_RETRY_INTERVAL :: millis where
  "SYNC_FIRST_RETRY_INTERVAL = 500"

definition RUNNING_RETRY_INTERVAL :: millis where
  "RUNNING_RETRY_INTERVAL = 200"

definition MAX_SEQ_DISTANCE :: u16 where
  "MAX_SEQ_DISTANCE = push_bit 15 1"

text \<open>\<open>random\<close>: the first non-zero number the generator draws.\<close>

definition random_from :: "u32 list \<Rightarrow> u32 option" where
  "random_from draws = List.find (\<lambda>r. r \<noteq> 0) draws"

datatype peer_state =
    PeerConnecting u32
  | PeerSyncing u32 nat
  | PeerRunning u16
  | PeerInterrupted u16
  | PeerDisconnected

fun state_random :: "peer_state \<Rightarrow> u32 option" where
  "state_random (PeerConnecting random) = Some random"
| "state_random (PeerSyncing random _) = Some random"
| "state_random _ = None"

fun state_is_running :: "peer_state \<Rightarrow> bool" where
  "state_is_running (PeerRunning _) = True"
| "state_is_running (PeerInterrupted _) = True"
| "state_is_running _ = False"

fun create_sync_request :: "peer_state \<Rightarrow> message_data option" where
  "create_sync_request (PeerConnecting random) = Some (SyncRequest random)"
| "create_sync_request (PeerSyncing random _) = Some (SyncRequest random)"
| "create_sync_request _ = None"

fun is_interrupted :: "peer_state \<Rightarrow> bool" where
  "is_interrupted (PeerInterrupted _) = True"
| "is_interrupted _ = False"

fun start_syncing :: "nat \<Rightarrow> peer_state \<Rightarrow> peer_state" where
  "start_syncing round_trips (PeerConnecting random) = PeerSyncing random round_trips"
| "start_syncing round_trips s = s"

fun interrupt :: "peer_state \<Rightarrow> bool \<times> peer_state" where
  "interrupt (PeerRunning remote_magic) = (True, PeerInterrupted remote_magic)"
| "interrupt s = (False, s)"

fun resume :: "peer_state \<Rightarrow> bool \<times> peer_state" where
  "resume (PeerInterrupted remote_magic) = (True, PeerRunning remote_magic)"
| "resume s = (False, s)"

definition peer_state_default :: "u32 list \<Rightarrow> peer_state option" where
  "peer_state_default draws = do { r \<leftarrow> random_from draws; Some (PeerConnecting r) }"

section \<open>PeerStats and Peer\<close>

record peer_stats =
  st_packets_sent :: nat
  st_bytes_sent :: nat
  st_last_send_time :: "millis option"
  st_last_input_packet_recv_time :: millis
  st_round_trip_time :: millis
  st_kbps_sent :: nat
  st_local_frame_advantage :: frame
  st_remote_frame_advantage :: frame

definition peer_stats_default :: peer_stats where
  "peer_stats_default =
     \<lparr>st_packets_sent = 0, st_bytes_sent = 0, st_last_send_time = None,
      st_last_input_packet_recv_time = 0, st_round_trip_time = 0, st_kbps_sent = 0,
      st_local_frame_advantage = 0, st_remote_frame_advantage = 0\<rparr>"

record peer_config =
  pc_disconnect_timeout :: millis
  pc_disconnect_notify_start :: millis

text \<open>
  All fields but \<open>pe_peer_connect_status\<close> are shared between the clones of a peer (they are behind an
  \<open>Arc\<close>, ends of a channel, or never written). \<open>local_connect_status\<close> is shared with the session
  and is an argument of the operations that read it.
\<close>

record ('i, 'e, 'o, 'm) peer =
  pe_queue :: nat
  pe_config :: peer_config
  pe_timesync :: "'i time_sync"
  pe_state :: peer_state
  pe_stats :: peer_stats
  pe_peer_connect_status :: "connection_status list"
  pe_input_encoder :: "'i input_encoder"
  pe_input_decoder :: input_decoder
  pe_message_in :: 'm
  pe_message_out :: 'o
  pe_events :: 'e

text \<open>What clone \<open>own\<close> is after another clone \<open>other\<close> changed the shared fields.\<close>

definition shared_with ::
    "('i, 'e, 'o, 'm) peer \<Rightarrow> ('i, 'e, 'o, 'm) peer \<Rightarrow> ('i, 'e, 'o, 'm) peer" where
  "shared_with other own = other\<lparr>pe_peer_connect_status := pe_peer_connect_status own\<rparr>"

definition peer_new ::
    "('i, 'e, 'o, 'm) crates \<Rightarrow> nat \<Rightarrow> peer_config \<Rightarrow> connection_status list \<Rightarrow> u32 list \<Rightarrow>
       'e \<Rightarrow> 'o \<Rightarrow> 'm \<Rightarrow> ('i, 'e, 'o, 'm) peer option" where
  "peer_new X queue config statuses draws events message_out message_in =
     do { state \<leftarrow> peer_state_default draws;
          Some \<lparr>pe_queue = queue, pe_config = config,
            pe_timesync = time_sync_default (pod_zeroed (cr_pod X)), pe_state = state,
            pe_stats = peer_stats_default, pe_peer_connect_status = statuses,
            pe_input_encoder = encoder_default, pe_input_decoder = decoder_default,
            pe_message_in = message_in, pe_message_out = message_out, pe_events = events\<rparr> }"

definition peer_is_running :: "('i, 'e, 'o, 'm) peer \<Rightarrow> bool" where
  "peer_is_running p \<longleftrightarrow> state_is_running (pe_state p)"

definition peer_disconnect ::
    "('i, 'e, 'o, 'm) crates \<Rightarrow> ('i, 'e, 'o, 'm) peer \<Rightarrow> ('i, 'e, 'o, 'm) peer" where
  "peer_disconnect X p = p\<lparr>pe_state := PeerDisconnected,
     pe_message_in := chan_close (cr_in X) (pe_message_in p),
     pe_message_out := chan_close (cr_out X) (pe_message_out p),
     pe_events := chan_close (cr_events X) (pe_events p)\<rparr>"

text \<open>The result of an operation on a peer: \<open>None\<close> is a panic.\<close>

type_synonym ('a, 'p) peer_result = "((peer_error + 'a) \<times> 'p) option"

text \<open>The operator \<open>?\<close> followed by the rest of the body.\<close>

definition and_then ::
    "('a, 'p) peer_result \<Rightarrow> ('a \<Rightarrow> 'p \<Rightarrow> ('b, 'p) peer_result) \<Rightarrow> ('b, 'p) peer_result" where
  "and_then m f = do { r \<leftarrow> m;
     case fst r of Inl err \<Rightarrow> Some (Inl err, snd r) | Inr x \<Rightarrow> f x (snd r) }"

lemma and_then_simps [simp]:
  "and_then None f = None"
  "and_then (Some (Inl e, p)) f = Some (Inl e, p)"
  "and_then (Some (Inr x, p)) f = f x p"
  by (simp_all add: and_then_def)

lemma and_then_Some:
  "and_then m f = Some (r, q) \<longleftrightarrow>
     (\<exists>e. m = Some (Inl e, q) \<and> r = Inl e) \<or> (\<exists>x p. m = Some (Inr x, p) \<and> f x p = Some (r, q))"
proof (cases m)
  case (Some s)
  then show ?thesis by (cases s; cases "fst s") auto
qed simp

definition push_event :: "('i, 'e, 'o, 'm) crates \<Rightarrow> 'i peer_event \<Rightarrow> ('i, 'e, 'o, 'm) peer \<Rightarrow>
    (unit, ('i, 'e, 'o, 'm) peer) peer_result" where
  "push_event X evt p =
     (let r = chan_try_send (cr_events X) evt (pe_events p); p = p\<lparr>pe_events := snd r\<rparr> in
      case fst r of
        Inr _ \<Rightarrow> Some (Inr (), p)
      | Inl TrySendFull \<Rightarrow> None
      | Inl TrySendClosed \<Rightarrow> Some (Inl LocalDisconnected, p))"

definition send :: "('i, 'e, 'o, 'm) crates \<Rightarrow> message_data \<Rightarrow> ('i, 'e, 'o, 'm) peer \<Rightarrow>
    (unit, ('i, 'e, 'o, 'm) peer) peer_result" where
  "send X msg p =
     (let r = chan_try_send (cr_out X) msg (pe_message_out p); p = p\<lparr>pe_message_out := snd r\<rparr> in
      case fst r of
        Inr _ \<Rightarrow> Some (Inr (), p)
      | Inl TrySendFull \<Rightarrow> None
      | Inl TrySendClosed \<Rightarrow> Some (Inl RemoteDisconnected, p))"

record network_stats =
  ns_ping :: millis
  ns_send_queue_len :: nat
  ns_recv_queue_len :: nat
  ns_kbps_sent :: nat
  ns_local_frames_behind :: frame
  ns_remote_frames_behind :: frame

definition get_network_stats :: "('i, 'e, 'o, 'm) crates \<Rightarrow> ('i, 'e, 'o, 'm) peer \<Rightarrow> network_stats" where
  "get_network_stats X p =
     \<lparr>ns_ping = st_round_trip_time (pe_stats p),
      ns_send_queue_len = chan_len (cr_out X) (pe_message_out p),
      ns_recv_queue_len = chan_len (cr_in X) (pe_message_in p),
      ns_kbps_sent = st_kbps_sent (pe_stats p),
      ns_local_frames_behind = st_local_frame_advantage (pe_stats p),
      ns_remote_frames_behind = st_remote_frame_advantage (pe_stats p)\<rparr>"

definition network_stats_default :: network_stats where
  "network_stats_default =
     \<lparr>ns_ping = 0, ns_send_queue_len = 0, ns_recv_queue_len = 0, ns_kbps_sent = 0,
      ns_local_frames_behind = 0, ns_remote_frames_behind = 0\<rparr>"

end
