(* ===== verification/Protocol.thy ===== *)
theory Protocol
  imports Peer_State
begin

text \<open>
  The handlers of \<open>Peer\<close> (\<^verbatim>\<open>backroll/src/protocol/mod.rs\<close>): what it does with every message and
  timer tick, and one iteration of each of its background tasks. Readings of the clock, what a
  channel delivered and whether the transport took a packet are arguments; so are the connection
  statuses the session shares. \<open>None\<close> is a panic, \<open>Inl\<close> an \<open>Err\<close>.
\<close>

section \<open>Sending inputs\<close>

definition send_pending_output ::
    "('i, 'e, 'o, 'm) crates \<Rightarrow> connection_status list \<Rightarrow> ('i, 'e, 'o, 'm) peer \<Rightarrow>
       (unit, ('i, 'e, 'o, 'm) peer) peer_result" where
  "send_pending_output X statuses p =
     do { r \<leftarrow> encoder_encode (cr_varint X) (cr_pod X) (pe_input_encoder p);
          let p = p\<lparr>pe_input_encoder := snd r\<rparr>;
          case fst r of
            Inl _ \<Rightarrow> None
          | Inr (start_frame, bits) \<Rightarrow>
              send X (InputMsg \<lparr>in_peer_connect_status = statuses, in_start_frame = start_frame,
                in_ack_frame = last_decoded_frame (pe_input_decoder p), in_bits = bits\<rparr>) p }"

definition send_input ::
    "('i, 'e, 'o, 'm) crates \<Rightarrow> connection_status list \<Rightarrow> 'i frame_input \<Rightarrow> ('i, 'e, 'o, 'm) peer \<Rightarrow>
       (unit, ('i, 'e, 'o, 'm) peer) peer_result" where
  "send_input X statuses input p =
     do { p \<leftarrow>
            (if state_is_running (pe_state p) then
               do { ts \<leftarrow> time_sync_advance_frame input
                      (st_local_frame_advantage (pe_stats p)) (st_remote_frame_advantage (pe_stats p))
                      (pe_timesync p);
                    Some (p\<lparr>pe_timesync := ts, pe_input_encoder := encoder_push input (pe_input_encoder p)\<rparr>) }
             else Some p);
          send_pending_output X statuses p }"

section \<open>Messages\<close>

definition on_sync_request ::
    "('i, 'e, 'o, 'm) crates \<Rightarrow> u16 \<Rightarrow> u32 \<Rightarrow> ('i, 'e, 'o, 'm) peer \<Rightarrow>
       (unit, ('i, 'e, 'o, 'm) peer) peer_result" where
  "on_sync_request X magic random p =
     (case pe_state p of
        PeerRunning remote_magic \<Rightarrow>
          if magic \<noteq> remote_magic then Some (Inl InvalidMessage, p) else send X (SyncReply random) p
      | _ \<Rightarrow> send X (SyncReply random) p)"

text \<open>\<open>self.send(state.create_sync_request())\<close>\<close>

definition send_sync_request ::
    "('i, 'e, 'o, 'm) crates \<Rightarrow> ('i, 'e, 'o, 'm) peer \<Rightarrow> (unit, ('i, 'e, 'o, 'm) peer) peer_result" where
  "send_sync_request X p = do { msg \<leftarrow> create_sync_request (pe_state p); send X msg p }"

text \<open>The match on the state in \<open>on_sync_reply\<close>, after the random number was compared.\<close>

definition accept_sync_reply ::
    "('i, 'e, 'o, 'm) crates \<Rightarrow> millis \<Rightarrow> u16 \<Rightarrow> ('i, 'e, 'o, 'm) peer \<Rightarrow>
       (unit, ('i, 'e, 'o, 'm) peer) peer_result" where
  "accept_sync_reply X now magic p =
     (case pe_state p of
        PeerConnecting _ \<Rightarrow>
          and_then (push_event X PeerConnected p) (\<lambda>_ p.
            send_sync_request X (p\<lparr>pe_state := start_syncing NUM_SYNC_PACKETS (pe_state p)\<rparr>))
      | PeerSyncing random roundtrips_remaining \<Rightarrow>
          do { debug_assert (roundtrips_remaining > 0);
               remaining \<leftarrow> usize_sub roundtrips_remaining 1;
               let p = p\<lparr>pe_state := PeerSyncing random remaining\<rparr>;
               (if remaining = 0 then
                  and_then (push_event X PeerSynchronized p) (\<lambda>_ p.
                    Some (Inr (), p\<lparr>pe_stats := (pe_stats p)\<lparr>st_last_input_packet_recv_time := now\<rparr>,
                                   pe_state := PeerRunning magic\<rparr>))
                else
                  do { count \<leftarrow> usize_sub NUM_SYNC_PACKETS remaining;
                       and_then (push_event X (PeerSynchronizing NUM_SYNC_PACKETS count) p)
                         (\<lambda>_ p. send_sync_request X p) }) }
      | PeerRunning remote_magic \<Rightarrow>
          if magic = remote_magic then Some (Inr (), p) else Some (Inl InvalidMessage, p)
      | _ \<Rightarrow> Some (Inl InvalidMessage, p))"

definition on_sync_reply ::
    "('i, 'e, 'o, 'm) crates \<Rightarrow> millis \<Rightarrow> u16 \<Rightarrow> u32 \<Rightarrow> ('i, 'e, 'o, 'm) peer \<Rightarrow>
       (unit, ('i, 'e, 'o, 'm) peer) peer_result" where
  "on_sync_reply X now magic reply p =
     (case state_random (pe_state p) of
        Some random \<Rightarrow>
          if reply \<noteq> random then Some (Inl InvalidMessage, p) else accept_sync_reply X now magic p
      | None \<Rightarrow> accept_sync_reply X now magic p)"

text \<open>The loop over the statuses of an \<open>Input\<close> message; \<open>i\<close> is the index.\<close>

fun merge_statuses ::
    "nat \<Rightarrow> connection_status list \<Rightarrow> connection_status list \<Rightarrow> connection_status list option" where
  "merge_statuses i [] own = Some own"
| "merge_statuses i (remote # later) own =
     (if i < length own then
        do { debug_assert (cs_last_frame remote \<ge> cs_last_frame (own ! i));
             merge_statuses (Suc i) later
               (own[i := \<lparr>cs_disconnected = cs_disconnected (own ! i) \<or> cs_disconnected remote,
                          cs_last_frame = max (cs_last_frame (own ! i)) (cs_last_frame remote)\<rparr>]) }
      else merge_statuses (Suc i) later (own @ [remote]))"

text \<open>\<open>on_input\<close> reports what it decoded, unless it is nothing, and acknowledges it.\<close>

definition report_inputs ::
    "('i, 'e, 'o, 'm) crates \<Rightarrow> millis \<Rightarrow> 'i frame_input list \<Rightarrow> ('i, 'e, 'o, 'm) peer \<Rightarrow>
       (unit, ('i, 'e, 'o, 'm) peer) peer_result" where
  "report_inputs X now inputs p =
     (if inputs \<noteq> [] then
        and_then (push_event X (PeerInputs inputs) p) (\<lambda>_ p.
          send X (InputAck (last_decoded_frame (pe_input_decoder p)))
            (p\<lparr>pe_stats := (pe_stats p)\<lparr>st_last_input_packet_recv_time := now\<rparr>\<rparr>))
      else Some (Inr (), p))"

definition on_input ::
    "('i, 'e, 'o, 'm) crates \<Rightarrow> millis \<Rightarrow> input_msg \<Rightarrow> ('i, 'e, 'o, 'm) peer \<Rightarrow>
       (unit, ('i, 'e, 'o, 'm) peer) peer_result" where
  "on_input X now msg p =
     do { statuses \<leftarrow> merge_statuses 0 (in_peer_connect_status msg) (pe_peer_connect_status p);
          let p = p\<lparr>pe_peer_connect_status := statuses\<rparr>;
          r \<leftarrow> decoder_decode (cr_varint X) (cr_pod X) (in_start_frame msg) (in_bits msg) (pe_input_decoder p);
          let p = p\<lparr>pe_input_decoder := snd r\<rparr>;
          case fst r of
            Inl _ \<Rightarrow> Some (Inl InvalidMessage, p)
          | Inr inputs \<Rightarrow>
              and_then (report_inputs X now inputs p)
                (\<lambda>_ p. Some (Inr (), p\<lparr>pe_input_encoder :=
                   acknowledge_frame (in_ack_frame msg) (pe_input_encoder p)\<rparr>)) }"

definition on_quality_report ::
    "('i, 'e, 'o, 'm) crates \<Rightarrow> frame \<Rightarrow> millis \<Rightarrow> ('i, 'e, 'o, 'm) peer \<Rightarrow>
       (unit, ('i, 'e, 'o, 'm) peer) peer_result" where
  "on_quality_report X frame_advantage ping p =
     send X (QualityReply ping)
       (p\<lparr>pe_stats := (pe_stats p)\<lparr>st_remote_frame_advantage := frame_advantage\<rparr>\<rparr>)"

fun handle_message ::
    "('i, 'e, 'o, 'm) crates \<Rightarrow> millis \<Rightarrow> u16 \<Rightarrow> message_data \<Rightarrow> ('i, 'e, 'o, 'm) peer \<Rightarrow>
       (unit, ('i, 'e, 'o, 'm) peer) peer_result" where
  "handle_message X now magic KeepAlive p = Some (Inr (), p)"
| "handle_message X now magic (SyncRequest random) p = on_sync_request X magic random p"
| "handle_message X now magic (SyncReply random) p = on_sync_reply X now magic random p"
| "handle_message X now magic (InputMsg input) p = on_input X now input p"
| "handle_message X now magic (InputAck ack_frame) p =
     Some (Inr (), p\<lparr>pe_input_encoder := acknowledge_frame ack_frame (pe_input_encoder p)\<rparr>)"
| "handle_message X now magic (QualityReport frame_advantage ping) p =
     on_quality_report X frame_advantage ping p"
| "handle_message X now magic (QualityReply pong) p =
     do { rtt \<leftarrow> millis_sub now pong;
          Some (Inr (), p\<lparr>pe_stats := (pe_stats p)\<lparr>st_round_trip_time := rtt\<rparr>\<rparr>) }"

section \<open>The main task\<close>

text \<open>\<open>poll\<close>: repeat the sync request when the other side has not answered in time.\<close>

definition sync_retry :: "('i, 'e, 'o, 'm) crates \<Rightarrow> millis \<Rightarrow> millis \<Rightarrow> ('i, 'e, 'o, 'm) peer \<Rightarrow>
    (unit, ('i, 'e, 'o, 'm) peer) peer_result" where
  "sync_retry X next_interval now p =
     (case st_last_send_time (pe_stats p) of
        Some last_send_time \<Rightarrow>
          do { due \<leftarrow> millis_add last_send_time next_interval;
               if due < now then send_sync_request X p else Some (Inr (), p) }
      | None \<Rightarrow> send_sync_request X p)"

definition peer_poll :: "('i, 'e, 'o, 'm) crates \<Rightarrow> millis \<Rightarrow> ('i, 'e, 'o, 'm) peer \<Rightarrow>
    (unit, ('i, 'e, 'o, 'm) peer) peer_result" where
  "peer_poll X now p =
     (case pe_state p of
        PeerConnecting _ \<Rightarrow> sync_retry X SYNC_FIRST_RETRY_INTERVAL now p
      | PeerSyncing _ _ \<Rightarrow> sync_retry X SYNC_RETRY_INTERVAL now p
      | _ \<Rightarrow> Some (Inr (), p))"

text \<open>
  The two branches of the \<open>select!\<close> in \<open>run\<close>. The value of \<open>Inr\<close> is the new \<open>last_recv_time\<close> of a
  loop that goes on; \<open>Inl\<close> ends the task. \<open>None\<close> as the received message: the channel was closed.
\<close>

definition run_message ::
    "('i, 'e, 'o, 'm) crates \<Rightarrow> millis \<Rightarrow> millis \<Rightarrow> message option \<Rightarrow> millis \<Rightarrow> ('i, 'e, 'o, 'm) peer \<Rightarrow>
       (millis, ('i, 'e, 'o, 'm) peer) peer_result" where
  "run_message X handled_at received_at received last_recv_time p =
     (case received of
        None \<Rightarrow> Some (Inl RemoteDisconnected, p)
      | Some m \<Rightarrow>
          do { r \<leftarrow> handle_message X handled_at (msg_magic m) (msg_data m) p;
               let p = snd r;
               case fst r of
                 Inr _ \<Rightarrow>
                   (let s = resume (pe_state p); p = p\<lparr>pe_state := snd s\<rparr> in
                    and_then (if fst s then push_event X PeerNetworkResumed p else Some (Inr (), p))
                      (\<lambda>_ p. Some (Inr received_at, p)))
               | Inl InvalidMessage \<Rightarrow> Some (Inr last_recv_time, p)
               | Inl err \<Rightarrow> Some (Inl err, peer_disconnect X p) })"

definition notify_interrupted ::
    "('i, 'e, 'o, 'm) crates \<Rightarrow> millis \<Rightarrow> millis \<Rightarrow> ('i, 'e, 'o, 'm) peer \<Rightarrow>
       (unit, ('i, 'e, 'o, 'm) peer) peer_result" where
  "notify_interrupted X now last_recv_time p =
     do { let timeout = pc_disconnect_timeout (pe_config p);
          let notify_start = pc_disconnect_notify_start (pe_config p);
          quiet \<leftarrow> lazy_and (\<not> is_interrupted (pe_state p))
            (do { t \<leftarrow> millis_add last_recv_time notify_start; Some (t < now) });
          (if quiet then
             do { left \<leftarrow> millis_sub timeout notify_start;
                  push_event X (PeerNetworkInterrupted left) (p\<lparr>pe_state := snd (interrupt (pe_state p))\<rparr>) }
           else Some (Inr (), p)) }"

definition run_timer ::
    "('i, 'e, 'o, 'm) crates \<Rightarrow> millis \<Rightarrow> millis \<Rightarrow> millis \<Rightarrow> ('i, 'e, 'o, 'm) peer \<Rightarrow>
       (millis, ('i, 'e, 'o, 'm) peer) peer_result" where
  "run_timer X now polled_at last_recv_time p =
     and_then (notify_interrupted X now last_recv_time p) (\<lambda>_ p.
       do { t \<leftarrow> millis_add last_recv_time (pc_disconnect_timeout (pe_config p));
            if t < now then Some (Inl RemoteDisconnected, peer_disconnect X p)
            else and_then (peer_poll X polled_at p) (\<lambda>_ p. Some (Inr last_recv_time, p)) })"

section \<open>One iteration of the background tasks\<close>

text \<open>The value of \<open>Inr\<close> tells if the loop goes on after its delay.\<close>

definition heartbeat_step :: "('i, 'e, 'o, 'm) crates \<Rightarrow> ('i, 'e, 'o, 'm) peer \<Rightarrow>
    (bool, ('i, 'e, 'o, 'm) peer) peer_result" where
  "heartbeat_step X p =
     do { r \<leftarrow> send X KeepAlive p;
          Some (Inr (case fst r of Inr _ \<Rightarrow> True | Inl _ \<Rightarrow> False), snd r) }"

definition send_quality_reports_step ::
    "('i, 'e, 'o, 'm) crates \<Rightarrow> millis \<Rightarrow> ('i, 'e, 'o, 'm) peer \<Rightarrow> (bool, ('i, 'e, 'o, 'm) peer) peer_result" where
  "send_quality_reports_step X now p =
     (if peer_is_running p then
        and_then (send X (QualityReport (st_local_frame_advantage (pe_stats p)) now) p)
          (\<lambda>_ p. Some (Inr True, p))
      else Some (Inr False, p))"

definition resend_inputs_step ::
    "('i, 'e, 'o, 'm) crates \<Rightarrow> millis \<Rightarrow> connection_status list \<Rightarrow> ('i, 'e, 'o, 'm) peer \<Rightarrow>
       (bool, ('i, 'e, 'o, 'm) peer) peer_result" where
  "resend_inputs_step X now statuses p =
     (if peer_is_running p then
        do { due \<leftarrow> millis_add (st_last_input_packet_recv_time (pe_stats p)) RUNNING_RETRY_INTERVAL;
             (if due < now then
                and_then (send_pending_output X statuses
                    (p\<lparr>pe_stats := (pe_stats p)\<lparr>st_last_input_packet_recv_time := now\<rparr>\<rparr>))
                  (\<lambda>_ p. Some (Inr True, p))
              else Some (Inr True, p)) }
      else Some (Inr False, p))"

text \<open>
  \<open>serialize_outgoing\<close> for one message. \<open>serialize\<close> is the serializer with its size limit,
  \<open>delivered\<close> whether the transport took the packet. The result: whether the loop goes on, the
  packet handed to the transport and the next sequence number.
\<close>

definition serialize_outgoing_step ::
    "(message \<Rightarrow> 'x + u8 list) \<Rightarrow> bool \<Rightarrow> millis \<Rightarrow> u16 \<Rightarrow> message_data \<Rightarrow> u16 \<Rightarrow> ('i, 'e, 'o, 'm) peer \<Rightarrow>
       ((bool \<times> u8 list option \<times> u16) \<times> ('i, 'e, 'o, 'm) peer) option" where
  "serialize_outgoing_step serialize delivered now magic data next_send_seq p =
     (case serialize \<lparr>msg_magic = magic, msg_sequence_number = next_send_seq, msg_data = data\<rparr> of
        Inl _ \<Rightarrow> Some ((True, None, next_send_seq + 1), p)
      | Inr bytes \<Rightarrow>
          if delivered then
            do { packets \<leftarrow> usize_add (st_packets_sent (pe_stats p)) 1;
                 total \<leftarrow> usize_add (st_bytes_sent (pe_stats p)) (length bytes);
                 Some ((True, Some bytes, next_send_seq + 1), p\<lparr>pe_stats := (pe_stats p)\<lparr>
                   st_packets_sent := packets, st_last_send_time := Some now, st_bytes_sent := total\<rparr>\<rparr>) }
          else Some ((False, Some bytes, next_send_seq + 1), p))"

text \<open>The checks of \<open>deserialize_incoming\<close> on a decoded message.\<close>

definition passes_filter :: "peer_state \<Rightarrow> u16 \<Rightarrow> message \<Rightarrow> bool" where
  "passes_filter state next_recv_seq m \<longleftrightarrow>
     (is_sync_message (msg_data m) \<longrightarrow>
        (case state of PeerRunning remote_magic \<Rightarrow> msg_magic m = remote_magic | _ \<Rightarrow> True) \<and>
        \<not> msg_sequence_number m - next_recv_seq > MAX_SEQ_DISTANCE)"

text \<open>
  \<open>deserialize_incoming\<close> for one packet, decoded by \<open>deserialize\<close>; the value of \<open>Inr\<close> is the next
  sequence number.
\<close>

definition deserialize_incoming_step ::
    "('i, 'e, 'o, 'm) crates \<Rightarrow> (u8 list \<Rightarrow> 'x + message) \<Rightarrow> u8 list \<Rightarrow> u16 \<Rightarrow> ('i, 'e, 'o, 'm) peer \<Rightarrow>
       (u16, ('i, 'e, 'o, 'm) peer) peer_result" where
  "deserialize_incoming_step X deserialize bytes next_recv_seq p =
     (case deserialize bytes of
        Inl _ \<Rightarrow> Some (Inr next_recv_seq, p)
      | Inr m \<Rightarrow>
          if passes_filter (pe_state p) next_recv_seq m then
            (let r = chan_try_send (cr_in X) m (pe_message_in p); p = p\<lparr>pe_message_in := snd r\<rparr> in
             case fst r of
               Inr _ \<Rightarrow> Some (Inr (msg_sequence_number m), p)
             | Inl TrySendFull \<Rightarrow> None
             | Inl TrySendClosed \<Rightarrow> Some (Inl LocalDisconnected, p))
          else Some (Inr next_recv_seq, p))"

text \<open>
  \<open>update_network_stats\<close> after its delay. A float quotient by zero is infinite (zero by zero is not a
  number), and the cast to \<open>u32\<close> turns these into its largest value and \<open>0\<close>. The numbers that are
  only logged are left out.
\<close>

definition kbps_of :: "rat \<Rightarrow> rat \<Rightarrow> nat" where
  "kbps_of total_bytes_sent seconds =
     (if seconds = 0 then (if total_bytes_sent = 0 then 0 else 2 ^ 32 - 1)
      else nat (max 0 (min (2 ^ 32 - 1) \<lfloor>f32_round (f32_round (total_bytes_sent / seconds) / 1024)\<rfloor>)))"

definition update_network_stats_step ::
    "millis \<Rightarrow> millis option \<Rightarrow> ('i, 'e, 'o, 'm) peer \<Rightarrow> (millis option \<times> ('i, 'e, 'o, 'm) peer) option" where
  "update_network_stats_step now start_time p =
     (if \<not> peer_is_running p then Some (None, p)
      else
        do { let start = (case start_time of None \<Rightarrow> now | Some t \<Rightarrow> t);
             debug_assert (UDP_HEADER_SIZE * st_packets_sent (pe_stats p) < 2 ^ 64);
             total \<leftarrow> usize_add (st_bytes_sent (pe_stats p)) (UDP_HEADER_SIZE * st_packets_sent (pe_stats p));
             elapsed \<leftarrow> millis_sub now start;
             let seconds = f32_round (f32_round (of_nat elapsed) / 1000);
             Some (Some start, p\<lparr>pe_stats := (pe_stats p)\<lparr>
               st_kbps_sent := kbps_of (f32_round (of_nat total)) seconds\<rparr>\<rparr>) })"

section \<open>What the session calls\<close>

definition get_peer_connect_status :: "nat \<Rightarrow> ('i, 'e, 'o, 'm) peer \<Rightarrow> connection_status option" where
  "get_peer_connect_status i p = index_at (pe_peer_connect_status p) i"

definition set_local_frame_number ::
    "frame \<Rightarrow> ('i, 'e, 'o, 'm) peer \<Rightarrow> ('i, 'e, 'o, 'm) peer option" where
  "set_local_frame_number local_frame p =
     do { let frames = (st_round_trip_time (pe_stats p) div 1000 div 2) * TARGET_TPS;
          remote_frame \<leftarrow> i32_add (last_decoded_frame (pe_input_decoder p)) (sint (word_of_nat frames :: u32));
          advantage \<leftarrow> i32_sub remote_frame local_frame;
          Some (p\<lparr>pe_stats := (pe_stats p)\<lparr>st_local_frame_advantage := advantage\<rparr>\<rparr>) }"

definition recommend_frame_delay :: "('i, 'e, 'o, 'm) peer \<Rightarrow> (frame \<times> ('i, 'e, 'o, 'm) peer) option" where
  "recommend_frame_delay p =
     do { r \<leftarrow> recommend_frame_wait_duration False (pe_timesync p);
          Some (fst r, p\<lparr>pe_timesync := snd r\<rparr>) }"

end
