(* ===== verification/Input_Queue.thy ===== *)
theory Input_Queue
  imports Frames
begin

text \<open>
  The input queue of one player, \<^verbatim>\<open>InputQueue\<close> of \<^verbatim>\<open>backroll/src/input.rs\<close>: a ring of
  \<open>MAX_ROLLBACK_FRAMES\<close> inputs with a frame delay and a prediction. The operations return \<open>None\<close>
  where the code panics: a failed \<open>debug_assert!\<close>, an index out of range, an overflow, a failed
  conversion. \<open>z\<close> is \<open>T::zeroed()\<close>.

  The lemmas show that the ring represents the list of all inputs accepted so far: frame \<open>k\<close> of
  that list sits in slot \<open>k mod MAX_ROLLBACK_FRAMES\<close> until it is overwritten. Every operation
  refines its counterpart on the list and, inside the stated bounds, does not panic.
\<close>

record 'i input_queue =
  iq_head :: nat
  iq_tail :: nat
  iq_length :: nat
  iq_first_frame :: bool
  iq_last_user_added_frame :: frame
  iq_last_added_frame :: frame
  iq_first_incorrect_frame :: frame
  iq_last_frame_requested :: frame
  iq_frame_delay :: frame
  iq_inputs :: "'i frame_input list"
  iq_prediction :: "'i frame_input"

datatype 'i fetched_input =
    Normal "'i frame_input"
  | Prediction "'i frame_input"

fun fetched_unwrap :: "'i fetched_input \<Rightarrow> 'i frame_input" where
  "fetched_unwrap (Normal input) = input"
| "fetched_unwrap (Prediction input) = input"

definition previous_frame :: "nat \<Rightarrow> nat" where
  "previous_frame offset = (if offset = 0 then MAX_ROLLBACK_FRAMES - 1 else offset - 1)"

definition queue_new :: "'i \<Rightarrow> frame \<Rightarrow> 'i input_queue" where
  "queue_new z frame_delay =
     \<lparr>iq_head = 0, iq_tail = 0, iq_length = 0, iq_first_frame = True,
      iq_last_user_added_frame = NULL_FRAME, iq_last_added_frame = NULL_FRAME,
      iq_first_incorrect_frame = NULL_FRAME, iq_last_frame_requested = NULL_FRAME,
      iq_frame_delay = frame_delay,
      iq_inputs = replicate MAX_ROLLBACK_FRAMES (frame_input_default z),
      iq_prediction = frame_input_default z\<rparr>"

definition queue_set_frame_delay :: "frame \<Rightarrow> 'i input_queue \<Rightarrow> 'i input_queue option" where
  "queue_set_frame_delay frame_delay q =
     do { debug_assert (\<not> is_null frame_delay);
          Some (q\<lparr>iq_frame_delay := frame_delay\<rparr>) }"

definition discard_confirmed_frames :: "frame \<Rightarrow> 'i input_queue \<Rightarrow> 'i input_queue option" where
  "discard_confirmed_frames frame q =
     do { debug_assert (\<not> is_null frame);
          let frame = (if is_null (iq_last_frame_requested q)
                       then min frame (iq_last_frame_requested q) else frame);
          (if frame \<ge> iq_last_added_frame q then
             Some (q\<lparr>iq_tail := iq_head q, iq_length := 0\<rparr>)
           else
             do { t \<leftarrow> index_at (iq_inputs q) (iq_tail q);
                  d \<leftarrow> i32_sub frame (fi_frame t);
                  offset \<leftarrow> i32_add d 1;
                  offset \<leftarrow> usize_try_from offset;
                  s \<leftarrow> usize_add (iq_tail q) offset;
                  l \<leftarrow> usize_sub (iq_length q) offset;
                  Some (q\<lparr>iq_tail := s mod MAX_ROLLBACK_FRAMES, iq_length := l\<rparr>) }) }"

definition queue_reset_prediction :: "frame \<Rightarrow> 'i input_queue \<Rightarrow> 'i input_queue option" where
  "queue_reset_prediction frame q =
     do { debug_assert (is_null (iq_first_incorrect_frame q) \<or> frame \<le> iq_first_incorrect_frame q);
          Some (q\<lparr>iq_prediction := (iq_prediction q)\<lparr>fi_frame := NULL_FRAME\<rparr>,
                  iq_first_incorrect_frame := NULL_FRAME,
                  iq_last_frame_requested := NULL_FRAME\<rparr>) }"

text \<open>
  \<open>get_input\<close>. The block that makes a new prediction is \<open>start_prediction\<close>, the end of the
  method \<open>forward_prediction\<close>.
\<close>

definition forward_prediction ::
    "frame \<Rightarrow> 'i input_queue \<Rightarrow> ('i fetched_input \<times> 'i input_queue)" where
  "forward_prediction frame q = (Prediction ((iq_prediction q)\<lparr>fi_frame := frame\<rparr>), q)"

definition start_prediction :: "'i \<Rightarrow> frame \<Rightarrow> 'i input_queue \<Rightarrow> 'i input_queue option" where
  "start_prediction z frame q =
     do { p \<leftarrow> (if frame = 0 then Some (frame_input_clear z (iq_prediction q))
                else if is_null (iq_last_added_frame q)
                then Some (frame_input_clear z (iq_prediction q))
                else index_at (iq_inputs q) (previous_frame (iq_head q)));
          f \<leftarrow> i32_add (fi_frame p) 1;
          Some (q\<lparr>iq_prediction := p\<lparr>fi_frame := f\<rparr>\<rparr>) }"

definition get_input ::
    "'i \<Rightarrow> frame \<Rightarrow> 'i input_queue \<Rightarrow> ('i fetched_input \<times> 'i input_queue) option" where
  "get_input z frame q =
     do { debug_assert (is_null (iq_first_incorrect_frame q));
          let q = q\<lparr>iq_last_frame_requested := frame\<rparr>;
          t \<leftarrow> index_at (iq_inputs q) (iq_tail q);
          debug_assert (frame \<ge> fi_frame t);
          (if is_null (fi_frame (iq_prediction q)) then
             do { d \<leftarrow> i32_sub frame (fi_frame t);
                  offset \<leftarrow> usize_try_from d;
                  (if offset < iq_length q then
                     do { s \<leftarrow> usize_add offset (iq_tail q);
                          input \<leftarrow> index_at (iq_inputs q) (s mod MAX_ROLLBACK_FRAMES);
                          debug_assert (fi_frame input = frame);
                          Some (Normal input, q) }
                   else
                     do { q \<leftarrow> start_prediction z frame q;
                          Some (forward_prediction frame q) }) }
           else Some (forward_prediction frame q)) }"

text \<open>
  The end of \<open>add_delayed_input\<close>, once the input is stored: compare it with a pending
  prediction, remember the first frame that differs, and leave or advance the prediction. The
  comparison is the derived equality of \<open>FrameInput\<close>, which includes the frame number.
\<close>

definition check_prediction ::
    "frame \<Rightarrow> 'i frame_input \<Rightarrow> 'i input_queue \<Rightarrow> 'i input_queue option" where
  "check_prediction frame input q =
     (if \<not> is_null (fi_frame (iq_prediction q)) then
        do { debug_assert (frame = fi_frame (iq_prediction q));
             let q = (if is_null (iq_first_incorrect_frame q) \<and> iq_prediction q \<noteq> input
                      then q\<lparr>iq_first_incorrect_frame := frame\<rparr> else q);
             (if fi_frame (iq_prediction q) = iq_last_frame_requested q
                 \<and> is_null (iq_first_incorrect_frame q)
              then Some (q\<lparr>iq_prediction := (iq_prediction q)\<lparr>fi_frame := NULL_FRAME\<rparr>\<rparr>)
              else
                do { f \<leftarrow> i32_add (fi_frame (iq_prediction q)) 1;
                     Some (q\<lparr>iq_prediction := (iq_prediction q)\<lparr>fi_frame := f\<rparr>\<rparr>) }) }
      else Some q)"

definition add_delayed_input ::
    "frame \<Rightarrow> 'i frame_input \<Rightarrow> 'i input_queue \<Rightarrow> 'i input_queue option" where
  "add_delayed_input frame input q =
     do { ok \<leftarrow> lazy_or (is_null (iq_last_added_frame q))
            (do { f \<leftarrow> i32_add (iq_last_added_frame q) 1; Some (frame = f) });
          debug_assert ok;
          ok \<leftarrow> lazy_or (frame = 0)
            (do { p \<leftarrow> index_at (iq_inputs q) (previous_frame (iq_head q));
                  f \<leftarrow> i32_sub frame 1;
                  Some (fi_frame p = f) });
          debug_assert ok;
          inputs \<leftarrow> store_at (iq_inputs q) (iq_head q) (input\<lparr>fi_frame := frame\<rparr>);
          let q = q\<lparr>iq_inputs := inputs,
                    iq_head := (iq_head q + 1) mod MAX_ROLLBACK_FRAMES,
                    iq_length := iq_length q + 1,
                    iq_first_frame := False,
                    iq_last_added_frame := frame\<rparr>;
          q \<leftarrow> check_prediction frame input q;
          debug_assert (iq_length q \<le> MAX_ROLLBACK_FRAMES);
          Some q }"

text \<open>The padding loop of \<open>advance_queue_head\<close>.\<close>

function pad_queue :: "frame \<Rightarrow> frame \<Rightarrow> 'i input_queue \<Rightarrow> 'i input_queue option" where
  "pad_queue expected_frame frame q =
     (if expected_frame < frame then
        do { p \<leftarrow> index_at (iq_inputs q) (previous_frame (iq_head q));
             q \<leftarrow> add_delayed_input expected_frame p q;
             e \<leftarrow> i32_add expected_frame 1;
             pad_queue e frame q }
      else Some q)"
  by pat_completeness auto
termination
  by (relation "measure (\<lambda>(e, f, q). nat (f - e))") (auto simp: i32_add_Some)

declare pad_queue.simps [simp del]

definition advance_queue_head :: "frame \<Rightarrow> 'i input_queue \<Rightarrow> (frame \<times> 'i input_queue) option" where
  "advance_queue_head frame q =
     do { expected_frame \<leftarrow>
            (if iq_first_frame q then Some 0
             else do { p \<leftarrow> index_at (iq_inputs q) (previous_frame (iq_head q));
                       i32_add (fi_frame p) 1 });
          frame \<leftarrow> i32_add frame (iq_frame_delay q);
          (if expected_frame > frame then Some (NULL_FRAME, q)
           else
             do { q \<leftarrow> pad_queue expected_frame frame q;
                  ok \<leftarrow> lazy_or (frame = 0)
                    (do { p \<leftarrow> index_at (iq_inputs q) (previous_frame (iq_head q));
                          f \<leftarrow> i32_add (fi_frame p) 1;
                          Some (frame = f) });
                  debug_assert ok;
                  Some (frame, q) }) }"

definition add_input :: "'i frame_input \<Rightarrow> 'i input_queue \<Rightarrow> (frame \<times> 'i input_queue) option" where
  "add_input input q =
     do { ok \<leftarrow> lazy_or (is_null (iq_last_user_added_frame q))
            (do { f \<leftarrow> i32_add (iq_last_user_added_frame q) 1; Some (fi_frame input = f) });
          debug_assert ok;
          let q = q\<lparr>iq_last_user_added_frame := fi_frame input\<rparr>;
          r \<leftarrow> advance_queue_head (fi_frame input) q;
          let new_frame = fst r;
          let q = snd r;
          q \<leftarrow> (if \<not> is_null new_frame then add_delayed_input new_frame input q else Some q);
          Some (new_frame, q) }"

section \<open>The ring represents the list of accepted inputs\<close>

definition last_or :: "'i \<Rightarrow> 'i list \<Rightarrow> 'i" where
  "last_or z h = (if h = [] then z else last h)"

text \<open>\<open>h\<close> holds the input of every frame accepted so far, frame \<open>k\<close> at index \<open>k\<close>.\<close>

definition ring_ok :: "'i \<Rightarrow> 'i list \<Rightarrow> 'i frame_input list \<Rightarrow> bool" where
  "ring_ok z h inputs \<longleftrightarrow> length inputs = MAX_ROLLBACK_FRAMES \<and>
     (\<forall>k < length h. length h \<le> k + MAX_ROLLBACK_FRAMES \<longrightarrow>
        inputs ! (k mod MAX_ROLLBACK_FRAMES) = \<lparr>fi_frame = int k, fi_input = h ! k\<rparr>) \<and>
     (\<forall>j < MAX_ROLLBACK_FRAMES. length h \<le> j \<longrightarrow> inputs ! j = frame_input_default z)"

definition indices_ok :: "'i list \<Rightarrow> 'i input_queue \<Rightarrow> bool" where
  "indices_ok h q \<longleftrightarrow> iq_last_added_frame q = int (length h) - 1 \<and>
     iq_head q = length h mod MAX_ROLLBACK_FRAMES \<and>
     iq_length q \<le> MAX_ROLLBACK_FRAMES \<and> iq_length q \<le> length h \<and>
     iq_tail q = (length h - iq_length q) mod MAX_ROLLBACK_FRAMES \<and>
     (iq_first_frame q \<longleftrightarrow> h = [])"

definition prediction_ok :: "'i list \<Rightarrow> 'i input_queue \<Rightarrow> bool" where
  "prediction_ok h q \<longleftrightarrow>
     (fi_frame (iq_prediction q) = NULL_FRAME \<or> fi_frame (iq_prediction q) = int (length h)) \<and>
     (iq_first_incorrect_frame q = NULL_FRAME \<or>
        0 \<le> iq_first_incorrect_frame q \<and> iq_first_incorrect_frame q < int (length h))"

definition queue_ok :: "'i \<Rightarrow> 'i list \<Rightarrow> 'i input_queue \<Rightarrow> bool" where
  "queue_ok z h q \<longleftrightarrow> ring_ok z h (iq_inputs q) \<and> indices_ok h q \<and> prediction_ok h q"

lemmas queue_ok_defs = queue_ok_def ring_ok_def indices_ok_def prediction_ok_def

lemma rollback_pos [simp]: "0 < MAX_ROLLBACK_FRAMES" "MAX_ROLLBACK_FRAMES \<noteq> 0"
  by (simp_all add: MAX_ROLLBACK_FRAMES_def)

lemma queue_new_fields [simp]:
  "iq_length (queue_new z d) = 0" "iq_frame_delay (queue_new z d) = d"
  "iq_first_incorrect_frame (queue_new z d) = NULL_FRAME"
  "iq_last_frame_requested (queue_new z d) = NULL_FRAME"
  "iq_last_user_added_frame (queue_new z d) = NULL_FRAME"
  by (simp_all add: queue_new_def)

lemma queue_ok_new: "queue_ok z [] (queue_new z delay)"
  by (simp add: queue_ok_defs queue_new_def frame_input_default_def NULL_FRAME_def)

lemma ring_length: "ring_ok z h inputs \<Longrightarrow> length inputs = MAX_ROLLBACK_FRAMES"
  by (simp add: ring_ok_def)

lemma ring_nth:
  "ring_ok z h inputs \<Longrightarrow> k < length h \<Longrightarrow> length h \<le> k + MAX_ROLLBACK_FRAMES \<Longrightarrow>
     inputs ! (k mod MAX_ROLLBACK_FRAMES) = \<lparr>fi_frame = int k, fi_input = h ! k\<rparr>"
  by (simp add: ring_ok_def)

lemma previous_frame_mod:
  "0 < n \<Longrightarrow> previous_frame (n mod MAX_ROLLBACK_FRAMES) = (n - 1) mod MAX_ROLLBACK_FRAMES"
  by (cases n) (auto simp: previous_frame_def mod_Suc)

text \<open>The slot before the head holds the newest input, or the initial one.\<close>

lemma ring_previous:
  assumes "ring_ok z h inputs" and "head = length h mod MAX_ROLLBACK_FRAMES"
  shows "index_at inputs (previous_frame head) =
    Some \<lparr>fi_frame = int (length h) - 1, fi_input = last_or z h\<rparr>"
proof (cases "h = []")
  case True
  with assms show ?thesis
    by (simp add: ring_ok_def previous_frame_def last_or_def frame_input_default_def NULL_FRAME_def)
next
  case False
  then have "inputs ! ((length h - 1) mod MAX_ROLLBACK_FRAMES) =
      \<lparr>fi_frame = int (length h - 1), fi_input = h ! (length h - 1)\<rparr>"
    using assms(1) by (intro ring_nth) (auto simp: MAX_ROLLBACK_FRAMES_def Suc_le_eq)
  with False assms show ?thesis
    by (simp add: previous_frame_mod ring_length last_or_def last_conv_nth of_nat_diff Suc_leI)
qed

text \<open>Storing the next input overwrites the slot of the input \<open>MAX_ROLLBACK_FRAMES\<close> before.\<close>

lemma ring_store:
  assumes ring: "ring_ok z h inputs" and head: "head = length h mod MAX_ROLLBACK_FRAMES"
  shows "ring_ok z (h @ [x]) (inputs[head := \<lparr>fi_frame = int (length h), fi_input = x\<rparr>])"
proof -
  let ?n = "length h" and ?M = MAX_ROLLBACK_FRAMES
  have slot: "k mod ?M = ?n mod ?M \<longleftrightarrow> k = ?n" if "k \<le> ?n" "?n < k + ?M" for k
    using that mod_ring_inj[of k ?M ?n] by auto
  have len: "length inputs = ?M" using ring by (rule ring_length)
  have "inputs[head := \<lparr>fi_frame = int ?n, fi_input = x\<rparr>] ! (k mod ?M) =
      \<lparr>fi_frame = int k, fi_input = (h @ [x]) ! k\<rparr>"
    if "k < length (h @ [x])" "length (h @ [x]) \<le> k + ?M" for k
  proof (cases "k = ?n")
    case True
    with len head show ?thesis by simp
  next
    case False
    with that have k: "k < ?n" "?n \<le> k + ?M" "?n < k + ?M" by simp_all
    with slot[of k] head have "k mod ?M \<noteq> head" by simp
    with ring_nth[OF ring k(1,2)] k(1) show ?thesis by (simp add: nth_append)
  qed
  moreover have "inputs[head := \<lparr>fi_frame = int ?n, fi_input = x\<rparr>] ! j = frame_input_default z"
    if "j < ?M" "length (h @ [x]) \<le> j" for j
    using that ring head by (simp add: ring_ok_def)
  ultimately show ?thesis by (simp add: ring_ok_def len)
qed

section \<open>Adding inputs\<close>

lemma check_prediction_ring:
  assumes "check_prediction frame input q = Some q'"
  shows "iq_inputs q' = iq_inputs q" "iq_head q' = iq_head q" "iq_tail q' = iq_tail q"
    "iq_length q' = iq_length q" "iq_first_frame q' = iq_first_frame q"
    "iq_last_added_frame q' = iq_last_added_frame q"
    "iq_last_user_added_frame q' = iq_last_user_added_frame q"
    "iq_frame_delay q' = iq_frame_delay q"
    "iq_last_frame_requested q' = iq_last_frame_requested q"
  using assms
  by (auto simp: check_prediction_def Let_def bind_eq_Some_conv split: if_split_asm)

text \<open>The effect on the prediction, for the next frame \<open>n\<close>.\<close>

definition predicting :: "'i input_queue \<Rightarrow> bool" where
  "predicting q \<longleftrightarrow> \<not> is_null (fi_frame (iq_prediction q))"

definition mispredicted :: "'i frame_input \<Rightarrow> 'i input_queue \<Rightarrow> bool" where
  "mispredicted input q \<longleftrightarrow> predicting q \<and> iq_prediction q \<noteq> input"

lemma check_prediction_spec:
  assumes pred: "predicting q \<Longrightarrow> fi_frame (iq_prediction q) = frame" and bnd: "in_i32 (frame + 1)"
  obtains q' where "check_prediction frame input q = Some q'"
    and "iq_first_incorrect_frame q' =
      (if is_null (iq_first_incorrect_frame q) \<and> mispredicted input q then frame
       else iq_first_incorrect_frame q)"
    and "iq_prediction q' = (if predicting q then (iq_prediction q)\<lparr>fi_frame :=
        if frame = iq_last_frame_requested q \<and> is_null (iq_first_incorrect_frame q')
        then NULL_FRAME else frame + 1\<rparr> else iq_prediction q)"
proof (cases "predicting q")
  case False
  then show ?thesis
    using that[of q] by (simp add: check_prediction_def predicting_def mispredicted_def)
next
  case True
  let ?q = "if is_null (iq_first_incorrect_frame q) \<and> mispredicted input q
    then q\<lparr>iq_first_incorrect_frame := frame\<rparr> else q"
  let ?f = "if frame = iq_last_frame_requested q \<and> is_null (iq_first_incorrect_frame ?q)
    then NULL_FRAME else frame + 1"
  have f: "fi_frame (iq_prediction q) = frame" using pred[OF True] .
  then have "\<not> is_null frame" using True by (simp add: predicting_def)
  then have "check_prediction frame input q =
      Some (?q\<lparr>iq_prediction := (iq_prediction q)\<lparr>fi_frame := ?f\<rparr>\<rparr>)"
    using True f bnd by (auto simp: check_prediction_def predicting_def mispredicted_def Let_def)
  then show ?thesis
    using True by (intro that) auto
qed

lemma add_delayed_input_spec:
  assumes ok: "queue_ok z h q" and room: "iq_length q < MAX_ROLLBACK_FRAMES"
    and bnd: "in_i32 (int (length h) + 1)"
  obtains q' where "add_delayed_input (int (length h)) input q = Some q'"
    and "queue_ok z (h @ [fi_input input]) q'"
    and "iq_length q' = Suc (iq_length q)"
    and "iq_first_incorrect_frame q' =
      (if is_null (iq_first_incorrect_frame q) \<and> mispredicted input q then int (length h)
       else iq_first_incorrect_frame q)"
    and "iq_prediction q' = (if predicting q then (iq_prediction q)\<lparr>fi_frame :=
        if int (length h) = iq_last_frame_requested q \<and> is_null (iq_first_incorrect_frame q')
        then NULL_FRAME else int (length h) + 1\<rparr> else iq_prediction q)"
    and "iq_last_frame_requested q' = iq_last_frame_requested q"
    and "iq_last_user_added_frame q' = iq_last_user_added_frame q"
    and "iq_frame_delay q' = iq_frame_delay q"
proof -
  let ?n = "length h"
  have parts: "ring_ok z h (iq_inputs q)" "indices_ok h q" "prediction_ok h q"
    using ok by (simp_all add: queue_ok_def)
  have head: "iq_head q = ?n mod MAX_ROLLBACK_FRAMES" "iq_last_added_frame q = int ?n - 1"
    using parts(2) by (simp_all add: indices_ok_def)
  have bnds: "in_i32 (int ?n)" "in_i32 (int ?n - 1)" using bnd by (simp_all add: in_i32_def)
  let ?inputs = "(iq_inputs q)[iq_head q := input\<lparr>fi_frame := int ?n\<rparr>]"
  let ?q = "q\<lparr>iq_inputs := ?inputs, iq_head := (iq_head q + 1) mod MAX_ROLLBACK_FRAMES,
      iq_length := iq_length q + 1, iq_first_frame := False, iq_last_added_frame := int ?n\<rparr>"
  have prev: "index_at (iq_inputs q) (previous_frame (iq_head q)) =
      Some \<lparr>fi_frame = int ?n - 1, fi_input = last_or z h\<rparr>"
    using ring_previous[OF parts(1) head(1)] .
  have store: "store_at (iq_inputs q) (iq_head q) (input\<lparr>fi_frame := int ?n\<rparr>) = Some ?inputs"
    using ring_length[OF parts(1)] head(1) by simp
  define q1 where "q1 = ?q"
  have pre: "add_delayed_input (int ?n) input q =
      do { q \<leftarrow> check_prediction (int ?n) input q1;
           debug_assert (iq_length q \<le> MAX_ROLLBACK_FRAMES); Some q }"
    unfolding add_delayed_input_def q1_def
    by (simp add: prev store head(2) bnds lazy_or_def)
  have same: "predicting q1 = predicting q" "mispredicted input q1 = mispredicted input q"
    "iq_first_incorrect_frame q1 = iq_first_incorrect_frame q"
    "iq_prediction q1 = iq_prediction q"
    "iq_last_frame_requested q1 = iq_last_frame_requested q"
    by (simp_all add: q1_def predicting_def mispredicted_def)
  have pf: "fi_frame (iq_prediction q1) = int ?n" if "predicting q1"
    using that parts(3) by (auto simp: prediction_ok_def predicting_def q1_def)
  obtain q' where q': "check_prediction (int ?n) input q1 = Some q'"
    "iq_first_incorrect_frame q' =
      (if is_null (iq_first_incorrect_frame q) \<and> mispredicted input q then int ?n
       else iq_first_incorrect_frame q)"
    "iq_prediction q' = (if predicting q then (iq_prediction q)\<lparr>fi_frame :=
        if int ?n = iq_last_frame_requested q \<and> is_null (iq_first_incorrect_frame q')
        then NULL_FRAME else int ?n + 1\<rparr> else iq_prediction q)"
    using check_prediction_spec[OF pf bnd, where input = input] unfolding same by blast
  have fields: "iq_inputs q' = ?inputs" "iq_head q' = (iq_head q + 1) mod MAX_ROLLBACK_FRAMES"
    "iq_tail q' = iq_tail q" "iq_length q' = Suc (iq_length q)" "\<not> iq_first_frame q'"
    "iq_last_added_frame q' = int ?n"
    "iq_last_user_added_frame q' = iq_last_user_added_frame q"
    "iq_frame_delay q' = iq_frame_delay q"
    "iq_last_frame_requested q' = iq_last_frame_requested q"
    using check_prediction_ring[OF q'(1)] by (simp_all add: q1_def)
  have inp: "input\<lparr>fi_frame := int ?n\<rparr> = \<lparr>fi_frame = int ?n, fi_input = fi_input input\<rparr>"
    by (cases input) simp
  have ring: "ring_ok z (h @ [fi_input input]) (iq_inputs q')"
    using ring_store[OF parts(1) head(1), of "fi_input input"] by (simp add: fields inp)
  moreover have "indices_ok (h @ [fi_input input]) q'"
    using parts(2) room by (simp add: indices_ok_def fields mod_Suc_eq Suc_diff_le)
  moreover have "prediction_ok (h @ [fi_input input]) q'"
    using parts(3) unfolding prediction_ok_def q'(2,3) predicting_def
    by (auto simp: is_null_def NULL_FRAME_def)
  ultimately have "queue_ok z (h @ [fi_input input]) q'" by (simp add: queue_ok_def)
  then show ?thesis
    using q' fields room by (intro that[of q']) (simp_all add: pre)
qed

section \<open>What the simulation has used\<close>

text \<open>
  \<open>used\<close> is the list of inputs the simulation has been advanced with, frame \<open>f\<close> at index \<open>f\<close>.
  \<open>input_for z h f\<close> is the best answer for frame \<open>f\<close> when \<open>h\<close> has been accepted: the input itself,
  or the newest one as a prediction. A queue tracks \<open>used\<close> when every frame below its first
  incorrect frame was given that answer, and it is watching for the inputs it had to predict.
\<close>

definition input_for :: "'i \<Rightarrow> 'i list \<Rightarrow> nat \<Rightarrow> 'i" where
  "input_for z h f = (if f < length h then h ! f else last_or z h)"

definition agrees :: "'i \<Rightarrow> 'i list \<Rightarrow> 'i list \<Rightarrow> 'i input_queue \<Rightarrow> bool" where
  "agrees z h used q \<longleftrightarrow>
     (\<forall>f < length used. is_null (iq_first_incorrect_frame q) \<or> int f < iq_first_incorrect_frame q \<longrightarrow>
        used ! f = input_for z h f)"

definition watching :: "'i \<Rightarrow> 'i list \<Rightarrow> 'i list \<Rightarrow> 'i input_queue \<Rightarrow> bool" where
  "watching z h used q \<longleftrightarrow>
     (if length h < length used
      then predicting q \<and> fi_input (iq_prediction q) = last_or z h
         \<and> iq_last_frame_requested q = int (length used) - 1
      else \<not> predicting q)"

definition requested :: "'i list \<Rightarrow> 'i input_queue \<Rightarrow> bool" where
  "requested used q \<longleftrightarrow> (used \<noteq> [] \<longrightarrow> iq_last_frame_requested q = int (length used) - 1) \<and>
     (is_null (iq_first_incorrect_frame q) \<or> iq_first_incorrect_frame q < int (length used))"

definition tracks :: "'i \<Rightarrow> 'i list \<Rightarrow> 'i list \<Rightarrow> 'i input_queue \<Rightarrow> bool" where
  "tracks z h used q \<longleftrightarrow> queue_ok z h q \<and> agrees z h used q \<and> requested used q \<and>
     (is_null (iq_first_incorrect_frame q) \<longrightarrow> watching z h used q)"

lemma tracks_queue_ok: "tracks z h used q \<Longrightarrow> queue_ok z h q"
  by (simp add: tracks_def)

lemma tracks_new: "tracks z [] [] (queue_new z delay)"
proof -
  have "\<not> predicting (queue_new z delay)"
    by (simp add: predicting_def queue_new_def frame_input_default_def)
  moreover have "is_null (iq_first_incorrect_frame (queue_new z delay))"
    by (simp add: queue_new_def)
  ultimately show ?thesis by (simp add: tracks_def queue_ok_new agrees_def watching_def requested_def)
qed

lemma input_for_append:
  "f < length h \<Longrightarrow> input_for z (h @ xs) f = input_for z h f"
  by (simp add: input_for_def nth_append)

lemma input_for_same:
  "length h \<le> f \<Longrightarrow> input_for z (h @ [last_or z h]) f = last_or z h"
  by (auto simp: input_for_def nth_append last_or_def)

text \<open>When a predicted input arrives it is compared with the prediction.\<close>

definition differs :: "'i \<Rightarrow> 'i list \<Rightarrow> 'i list \<Rightarrow> 'i frame_input \<Rightarrow> bool" where
  "differs z h used input \<longleftrightarrow> length h < length used \<and>
     input \<noteq> \<lparr>fi_frame = int (length h), fi_input = last_or z h\<rparr>"

lemma frame_input_eq_iff:
  "(a :: 'i frame_input) = b \<longleftrightarrow> fi_frame a = fi_frame b \<and> fi_input a = fi_input b"
  by (cases a; cases b) auto

lemma predicting_frame:
  "queue_ok z h q \<Longrightarrow> predicting q \<Longrightarrow> fi_frame (iq_prediction q) = int (length h)"
  by (auto simp: queue_ok_defs predicting_def)

lemma watching_mispredicted:
  assumes "queue_ok z h q" and "watching z h used q"
  shows "mispredicted input q \<longleftrightarrow> differs z h used input"
  using assms predicting_frame[of z h q]
  by (auto simp: watching_def mispredicted_def differs_def frame_input_eq_iff split: if_splits)

text \<open>What an operation on the inputs leaves alone.\<close>

definition same_settings :: "'i input_queue \<Rightarrow> 'i input_queue \<Rightarrow> bool" where
  "same_settings q q' \<longleftrightarrow>
     iq_last_frame_requested q' = iq_last_frame_requested q \<and>
     iq_last_user_added_frame q' = iq_last_user_added_frame q \<and>
     iq_frame_delay q' = iq_frame_delay q"

lemma same_settings_refl [simp]: "same_settings q q"
  by (simp add: same_settings_def)

lemma same_settings_trans: "same_settings p q \<Longrightarrow> same_settings q r \<Longrightarrow> same_settings p r"
  by (simp add: same_settings_def)

lemma add_delayed_input_tracks:
  assumes tr: "tracks z h used q" and room: "iq_length q < MAX_ROLLBACK_FRAMES"
    and bnd: "in_i32 (int (length h) + 1)"
  obtains q' where "add_delayed_input (int (length h)) input q = Some q'"
    and "tracks z (h @ [fi_input input]) used q'"
    and "iq_length q' = Suc (iq_length q)" and "same_settings q q'"
    and "iq_first_incorrect_frame q' =
      (if is_null (iq_first_incorrect_frame q) \<and> differs z h used input then int (length h)
       else iq_first_incorrect_frame q)"
proof -
  let ?n = "length h"
  note ok = tracks_queue_ok[OF tr]
  obtain q' where q': "add_delayed_input (int ?n) input q = Some q'"
    "queue_ok z (h @ [fi_input input]) q'" "iq_length q' = Suc (iq_length q)"
    and fi: "iq_first_incorrect_frame q' =
      (if is_null (iq_first_incorrect_frame q) \<and> mispredicted input q then int ?n
       else iq_first_incorrect_frame q)"
    and pr: "iq_prediction q' = (if predicting q then (iq_prediction q)\<lparr>fi_frame :=
        if int ?n = iq_last_frame_requested q \<and> is_null (iq_first_incorrect_frame q')
        then NULL_FRAME else int ?n + 1\<rparr> else iq_prediction q)"
    and same: "same_settings q q'"
    by (rule add_delayed_input_spec[OF ok room bnd]) (auto simp: same_settings_def)
  have fi': "iq_first_incorrect_frame q' =
      (if is_null (iq_first_incorrect_frame q) \<and> differs z h used input then int ?n
       else iq_first_incorrect_frame q)"
    using fi tr watching_mispredicted[OF ok] by (auto simp: tracks_def)
  have lfr: "iq_last_frame_requested q' = iq_last_frame_requested q"
    using same by (simp add: same_settings_def)
  have bound: "iq_first_incorrect_frame q < int ?n" if "\<not> is_null (iq_first_incorrect_frame q)"
    using ok that by (auto simp: queue_ok_defs)
  have req: "requested used q'"
    using tr lfr unfolding requested_def tracks_def fi' by (auto simp: differs_def)
  have "tracks z (h @ [fi_input input]) used q'"
  proof (cases "is_null (iq_first_incorrect_frame q')")
    case False
    then have "int f < iq_first_incorrect_frame q' \<Longrightarrow>
        f < ?n \<and> (is_null (iq_first_incorrect_frame q) \<or> int f < iq_first_incorrect_frame q)" for f
      using bound unfolding fi' by (auto split: if_splits)
    then show ?thesis
      using q'(2) tr False req by (auto simp: tracks_def agrees_def input_for_append)
  next
    case True
    then have null: "is_null (iq_first_incorrect_frame q)" and eq: "\<not> differs z h used input"
      unfolding fi' by (auto simp: is_null_def split: if_splits)
    then have w: "watching z h used q" and a: "agrees z h used q" using tr by (auto simp: tracks_def)
    show ?thesis
    proof (cases "?n < length used")
      case False
      then have "watching z (h @ [fi_input input]) used q'"
        using w pr by (auto simp: watching_def predicting_def)
      then show ?thesis
        using q'(2) a null False req by (auto simp: tracks_def agrees_def input_for_append)
    next
      case less: True
      then have inp: "fi_input input = last_or z h" using eq by (auto simp: differs_def)
      have p: "predicting q" "fi_input (iq_prediction q) = last_or z h"
        "iq_last_frame_requested q = int (length used) - 1"
        using w less by (auto simp: watching_def)
      have "watching z (h @ [fi_input input]) used q'"
        using less p True unfolding watching_def predicting_def[of q'] pr lfr
        by (auto simp: inp last_or_def is_null_def NULL_FRAME_def)
      moreover have "agrees z (h @ [fi_input input]) used q'"
        unfolding agrees_def
      proof (intro allI impI)
        fix f assume "f < length used"
        then have "used ! f = input_for z h f" using a null by (auto simp: agrees_def)
        then show "used ! f = input_for z (h @ [fi_input input]) f"
          using input_for_same[of h f z] input_for_append[of f h z]
          by (cases "f < ?n") (simp_all add: inp, simp add: input_for_def)
      qed
      ultimately show ?thesis using q'(2) req by (simp add: tracks_def)
    qed
  qed
  then show ?thesis using q' same fi' by (intro that[of q']) auto
qed

text \<open>
  Padding repeats the newest input. The padding carries the frame number of the input it repeats,
  so it never equals a prediction.
\<close>

lemma pad_queue_tracks:
  assumes "tracks z h used q" and "iq_length q + k \<le> MAX_ROLLBACK_FRAMES"
    and "in_i32 (int (length h) + int k + 1)"
  shows "\<exists>q'. pad_queue (int (length h)) (int (length h) + int k) q = Some q' \<and>
     tracks z (h @ replicate k (last_or z h)) used q' \<and>
     iq_length q' = iq_length q + k \<and> same_settings q q' \<and>
     (k = 0 \<longrightarrow> q' = q) \<and>
     (iq_first_incorrect_frame q' = iq_first_incorrect_frame q \<or>
      int (length h) \<le> iq_first_incorrect_frame q')"
  using assms
proof (induction k arbitrary: h q)
  case 0
  then show ?case by (simp add: pad_queue.simps)
next
  case (Suc k)
  let ?p = "\<lparr>fi_frame = int (length h) - 1, fi_input = last_or z h\<rparr>"
  have "queue_ok z h q" using Suc.prems(1) by (rule tracks_queue_ok)
  then have prev: "index_at (iq_inputs q) (previous_frame (iq_head q)) = Some ?p"
    using ring_previous[of z h "iq_inputs q"] by (simp add: queue_ok_def indices_ok_def)
  have bnd: "in_i32 (int (length h) + 1)" using Suc.prems(3) by (simp add: in_i32_def)
  have room: "iq_length q < MAX_ROLLBACK_FRAMES" using Suc.prems(2) by simp
  obtain q1 where q1: "add_delayed_input (int (length h)) ?p q = Some q1"
    "tracks z (h @ [last_or z h]) used q1" "iq_length q1 = Suc (iq_length q)" "same_settings q q1"
    "iq_first_incorrect_frame q1 = iq_first_incorrect_frame q \<or>
     int (length h) \<le> iq_first_incorrect_frame q1"
    by (rule add_delayed_input_tracks[OF Suc.prems(1) room bnd, of ?p]) auto
  let ?h = "h @ [last_or z h]"
  have last: "last_or z ?h = last_or z h" by (simp add: last_or_def)
  have len: "int (length ?h) = int (length h) + 1" by simp
  have bnd': "in_i32 (int (length ?h) + int k + 1)" using Suc.prems(3) by (simp add: in_i32_def)
  have room': "iq_length q1 + k \<le> MAX_ROLLBACK_FRAMES" using Suc.prems(2) q1(3) by simp
  obtain q' where q': "pad_queue (int (length ?h)) (int (length ?h) + int k) q1 = Some q'"
    "tracks z (?h @ replicate k (last_or z h)) used q'"
    "iq_length q' = iq_length q1 + k" "same_settings q1 q'"
    "iq_first_incorrect_frame q' = iq_first_incorrect_frame q1 \<or>
     int (length ?h) \<le> iq_first_incorrect_frame q'"
    using Suc.IH[OF q1(2) room' bnd'] unfolding last by blast
  have "pad_queue (int (length h)) (int (length h) + int (Suc k)) q = Some q'"
    using q'(1) q1(1) prev bnd by (subst pad_queue.simps) (simp add: add.commute add.left_commute)
  then show ?case
    using q' q1 same_settings_trans[OF q1(4) q'(4)]
    by (auto simp: replicate_append_same append.assoc)
qed

text \<open>
  \<open>add_input\<close> for frame \<open>m\<close> targets frame \<open>m + frame_delay\<close>. It drops the input when that frame
  is already taken, and otherwise pads up to it.
\<close>

definition queue_accept :: "'i \<Rightarrow> 'i list \<Rightarrow> nat \<Rightarrow> 'i \<Rightarrow> 'i list" where
  "queue_accept z h t x =
     (if t < length h then h else h @ replicate (t - length h) (last_or z h) @ [x])"

lemma advance_queue_head_expected:
  assumes "queue_ok z h q"
  shows "(if iq_first_frame q then Some 0
      else do { p \<leftarrow> index_at (iq_inputs q) (previous_frame (iq_head q)); i32_add (fi_frame p) 1 })
    = (if in_i32 (int (length h)) then Some (int (length h)) else None)"
  using assms ring_previous[of z h "iq_inputs q"]
  by (auto simp: queue_ok_def indices_ok_def i32_add_def in_i32_def)

lemma add_input_tracks:
  assumes tr: "tracks z h used q"
    and next_frame: "is_null (iq_last_user_added_frame q) \<or> m = iq_last_user_added_frame q + 1"
    and target: "m + iq_frame_delay q = int t" "in_i32 (int t + 1)" "in_i32 m"
    and small: "in_i32 (int (length h))"
    and room: "iq_length q + (Suc t - length h) \<le> MAX_ROLLBACK_FRAMES"
  obtains q' where "add_input \<lparr>fi_frame = m, fi_input = x\<rparr> q =
      Some (if t < length h then NULL_FRAME else int t, q')"
    and "tracks z (queue_accept z h t x) used q'"
    and "iq_length q' = iq_length q + (Suc t - length h)"
    and "iq_last_user_added_frame q' = m" and "iq_frame_delay q' = iq_frame_delay q"
    and "iq_last_frame_requested q' = iq_last_frame_requested q"
    and "t = length h \<Longrightarrow> iq_first_incorrect_frame q' =
      (if is_null (iq_first_incorrect_frame q) \<and> differs z h used \<lparr>fi_frame = m, fi_input = x\<rparr>
       then int (length h) else iq_first_incorrect_frame q)"
    and "iq_first_incorrect_frame q' = iq_first_incorrect_frame q \<or>
      int (length h) \<le> iq_first_incorrect_frame q'"
proof -
  define q1 where "q1 = q\<lparr>iq_last_user_added_frame := m\<rparr>"
  let ?x = "\<lparr>fi_frame = m, fi_input = x\<rparr>"
  have q1: "iq_inputs q1 = iq_inputs q" "iq_head q1 = iq_head q" "iq_length q1 = iq_length q"
    "iq_last_user_added_frame q1 = m" "iq_frame_delay q1 = iq_frame_delay q"
    "iq_last_frame_requested q1 = iq_last_frame_requested q"
    "iq_first_incorrect_frame q1 = iq_first_incorrect_frame q" "iq_first_frame q1 = iq_first_frame q"
    by (simp_all add: q1_def)
  have tr1: "tracks z h used q1"
    using tr unfolding q1_def tracks_def queue_ok_defs agrees_def watching_def predicting_def requested_def
    by simp
  have guard: "lazy_or (is_null (iq_last_user_added_frame q))
      (do { f \<leftarrow> i32_add (iq_last_user_added_frame q) 1; Some (m = f) }) = Some True"
    using next_frame target(3) by (auto simp: lazy_or_def i32_add_def)
  have t: "in_i32 (int t)" using target(2) by (simp add: in_i32_def)
  have unf: "add_input ?x q = (do { r \<leftarrow> advance_queue_head m q1;
      q \<leftarrow> (if \<not> is_null (fst r) then add_delayed_input (fst r) ?x (snd r) else Some (snd r));
      Some (fst r, q) })"
    unfolding add_input_def by (simp add: guard q1_def Let_def)
  note ahead = advance_queue_head_expected[OF tracks_queue_ok[OF tr1]]
  show ?thesis
  proof (cases "t < length h")
    case True
    then have "advance_queue_head m q1 = Some (NULL_FRAME, q1)"
      using small t target(1) unfolding advance_queue_head_def ahead by (simp add: q1)
    with True tr1 show ?thesis
      by (intro that[of q1]) (simp_all add: unf q1 queue_accept_def)
  next
    case False
    define k where "k = t - length h"
    let ?h = "h @ replicate k (last_or z h)"
    have t_eq: "int t = int (length h) + int k" "int t = int (length ?h)" and len: "length ?h = t"
      using False by (simp_all add: k_def)
    have room1: "iq_length q1 + k \<le> MAX_ROLLBACK_FRAMES" "iq_length q1 + k < MAX_ROLLBACK_FRAMES"
      using room False by (simp_all add: q1 k_def)
    obtain q2 where q2: "pad_queue (int (length h)) (int t) q1 = Some q2"
      "tracks z ?h used q2" "iq_length q2 = iq_length q1 + k" "same_settings q1 q2"
      "k = 0 \<longrightarrow> q2 = q1"
      "iq_first_incorrect_frame q2 = iq_first_incorrect_frame q1 \<or>
       int (length h) \<le> iq_first_incorrect_frame q2"
      using pad_queue_tracks[OF tr1 room1(1)] target(2) unfolding t_eq(1) by blast
    have prev: "index_at (iq_inputs q2) (previous_frame (iq_head q2)) =
        Some \<lparr>fi_frame = int t - 1, fi_input = last_or z ?h\<rparr>"
      using ring_previous[of z ?h "iq_inputs q2"] tracks_queue_ok[OF q2(2)] t_eq(2)
      by (simp add: queue_ok_def indices_ok_def)
    have adv: "advance_queue_head m q1 = Some (int t, q2)"
      using small t target(1) False q2(1) prev unfolding advance_queue_head_def ahead
      by (simp add: q1 lazy_or_def)
    have room2: "iq_length q2 < MAX_ROLLBACK_FRAMES" using room1 q2(3) by simp
    have bnd2: "in_i32 (int (length ?h) + 1)" using target(2) t_eq(2) by simp
    obtain q3 where q3: "add_delayed_input (int t) ?x q2 = Some q3"
      "tracks z (?h @ [x]) used q3" "iq_length q3 = Suc (iq_length q2)" "same_settings q2 q3"
      "iq_first_incorrect_frame q3 =
        (if is_null (iq_first_incorrect_frame q2) \<and> differs z ?h used ?x then int t
         else iq_first_incorrect_frame q2)"
      by (rule add_delayed_input_tracks[OF q2(2) room2 bnd2, of ?x, unfolded t_eq(2)[symmetric]]) simp
    have "add_input ?x q = Some (int t, q3)"
      using q3(1) by (simp add: unf adv is_null_def)
    then show ?thesis
      using q2 q3 False q1 len unfolding same_settings_def
      by (intro that[of q3]) (auto simp: queue_accept_def k_def)
  qed
qed

section \<open>Requesting inputs\<close>

text \<open>\<open>oldest h q\<close> is the first frame the queue still holds.\<close>

definition oldest :: "'i list \<Rightarrow> 'i input_queue \<Rightarrow> nat" where
  "oldest h q = length h - iq_length q"

lemma tail_slot:
  assumes "queue_ok z h q"
  obtains s where "index_at (iq_inputs q) (iq_tail q) = Some s"
    and "- 1 \<le> fi_frame s" and "fi_frame s \<le> int (oldest h q)"
    and "0 < iq_length q \<Longrightarrow> fi_frame s = int (oldest h q)"
proof -
  let ?T = "oldest h q"
  have ring: "ring_ok z h (iq_inputs q)" and ix: "iq_tail q = ?T mod MAX_ROLLBACK_FRAMES"
    "iq_length q \<le> MAX_ROLLBACK_FRAMES" "iq_length q \<le> length h"
    using assms by (simp_all add: queue_ok_def indices_ok_def oldest_def)
  have idx: "index_at (iq_inputs q) (iq_tail q) = Some (iq_inputs q ! iq_tail q)"
    using ring_length[OF ring] ix(1) by simp
  consider (held) "0 < iq_length q" | (full) "iq_length q = 0" "MAX_ROLLBACK_FRAMES \<le> length h"
    | (fresh) "iq_length q = 0" "length h < MAX_ROLLBACK_FRAMES" by linarith
  then show ?thesis
  proof cases
    case held
    then have "iq_inputs q ! iq_tail q = \<lparr>fi_frame = int ?T, fi_input = h ! ?T\<rparr>"
      using ring_nth[OF ring, of ?T] ix by (simp add: oldest_def)
    then show ?thesis using idx by (intro that) auto
  next
    case full
    let ?k = "length h - MAX_ROLLBACK_FRAMES"
    have "iq_tail q = ?k mod MAX_ROLLBACK_FRAMES"
      using full ix(1) by (simp add: oldest_def le_mod_geq)
    moreover have "iq_inputs q ! (?k mod MAX_ROLLBACK_FRAMES) = \<lparr>fi_frame = int ?k, fi_input = h ! ?k\<rparr>"
      using full(2) by (intro ring_nth[OF ring]) (auto simp: MAX_ROLLBACK_FRAMES_def)
    ultimately show ?thesis using idx full by (intro that) (auto simp: oldest_def)
  next
    case fresh
    then have "iq_inputs q ! iq_tail q = frame_input_default z"
      using ring ix(1) by (simp add: ring_ok_def oldest_def)
    then show ?thesis
      using idx fresh by (intro that) (auto simp: frame_input_default_def NULL_FRAME_def)
  qed
qed

text \<open>A queue may be asked for the next frame when it has seen no wrong prediction.\<close>

definition askable :: "'i \<Rightarrow> 'i list \<Rightarrow> 'i list \<Rightarrow> 'i input_queue \<Rightarrow> bool" where
  "askable z h used q \<longleftrightarrow> queue_ok z h q \<and> agrees z h used q \<and>
     is_null (iq_first_incorrect_frame q) \<and>
     (predicting q \<longrightarrow> length h < length used \<and> fi_input (iq_prediction q) = last_or z h)"

lemma tracks_askable:
  "tracks z h used q \<Longrightarrow> is_null (iq_first_incorrect_frame q) \<Longrightarrow> askable z h used q"
  by (auto simp: tracks_def askable_def watching_def split: if_splits)

lemma start_prediction_spec:
  assumes ok: "queue_ok z h q" and np: "\<not> predicting q" and bnd: "in_i32 (int (length h))"
    and f: "f = 0 \<Longrightarrow> h = []"
  shows "start_prediction z (int f) q =
    Some (q\<lparr>iq_prediction := \<lparr>fi_frame = int (length h), fi_input = last_or z h\<rparr>\<rparr>)"
proof (cases "h = []")
  case True
  have "fi_frame (iq_prediction q) = NULL_FRAME"
    using ok np by (auto simp: queue_ok_defs predicting_def is_null_def)
  moreover have "is_null (iq_last_added_frame q)"
    using ok True by (simp add: queue_ok_defs is_null_def)
  ultimately show ?thesis
    using True bnd by (cases "iq_prediction q")
      (simp add: start_prediction_def frame_input_clear_def last_or_def NULL_FRAME_def)
next
  case False
  then have "index_at (iq_inputs q) (previous_frame (iq_head q)) =
      Some \<lparr>fi_frame = int (length h) - 1, fi_input = last_or z h\<rparr>"
    using ok ring_previous[of z h "iq_inputs q"] by (simp add: queue_ok_def indices_ok_def)
  moreover have "\<not> is_null (iq_last_added_frame q)"
    using ok False by (simp add: queue_ok_defs is_null_def Suc_le_eq)
  moreover have "f \<noteq> 0" using f False by auto
  ultimately show ?thesis
    using bnd by (simp add: start_prediction_def)
qed

lemma agrees_snoc:
  "agrees z h used q \<Longrightarrow> is_null (iq_first_incorrect_frame q) \<Longrightarrow>
   iq_first_incorrect_frame q' = iq_first_incorrect_frame q \<Longrightarrow>
     agrees z h (used @ [input_for z h (length used)]) q'"
  by (auto simp: agrees_def nth_append less_Suc_eq)

lemma get_input_tracks:
  assumes ask: "askable z h used q" and old: "oldest h q \<le> length used"
    and bnd: "in_i32 (int (length h))" "in_i32 (int (length used) + 1)"
  obtains r q' where "get_input z (int (length used)) q = Some (r, q')"
    and "fetched_unwrap r = \<lparr>fi_frame = int (length used), fi_input = input_for z h (length used)\<rparr>"
    and "(\<exists>x. r = Normal x) \<longleftrightarrow> length used < length h"
    and "tracks z h (used @ [input_for z h (length used)]) q'"
    and "iq_length q' = iq_length q" and "iq_last_frame_requested q' = int (length used)"
    and "iq_first_incorrect_frame q' = iq_first_incorrect_frame q"
    and "iq_last_user_added_frame q' = iq_last_user_added_frame q"
    and "iq_frame_delay q' = iq_frame_delay q"
proof -
  let ?f = "length used" and ?n = "length h"
  let ?x = "input_for z h ?f"
  have ok: "queue_ok z h q" and ag: "agrees z h used q" and null: "is_null (iq_first_incorrect_frame q)"
    and pr: "predicting q \<Longrightarrow> ?n < ?f \<and> fi_input (iq_prediction q) = last_or z h"
    using ask by (auto simp: askable_def)
  obtain s where s: "index_at (iq_inputs q) (iq_tail q) = Some s" "- 1 \<le> fi_frame s"
    "fi_frame s \<le> int (oldest h q)" "0 < iq_length q \<Longrightarrow> fi_frame s = int (oldest h q)"
    using tail_slot[OF ok] by blast
  define q1 where "q1 = q\<lparr>iq_last_frame_requested := int ?f\<rparr>"
  have q1: "iq_inputs q1 = iq_inputs q" "iq_tail q1 = iq_tail q" "iq_length q1 = iq_length q"
    "iq_prediction q1 = iq_prediction q" "iq_first_incorrect_frame q1 = iq_first_incorrect_frame q"
    "iq_last_frame_requested q1 = int ?f" "predicting q1 = predicting q"
    "iq_last_user_added_frame q1 = iq_last_user_added_frame q"
    "iq_frame_delay q1 = iq_frame_delay q"
    by (simp_all add: q1_def predicting_def)
  have ok1: "queue_ok z h q1" using ok unfolding q1_def queue_ok_defs by simp
  define off where "off = nat (int ?f - fi_frame s)"
  have sub: "i32_sub (int ?f) (fi_frame s) = Some (int ?f - fi_frame s)" "0 \<le> int ?f - fi_frame s"
    using s(2,3) old bnd(2) by (auto simp: i32_sub_def in_i32_def)
  have unf: "get_input z (int ?f) q = (if \<not> predicting q then
        (if off < iq_length q then
           do { p \<leftarrow> usize_add off (iq_tail q);
                input \<leftarrow> index_at (iq_inputs q) (p mod MAX_ROLLBACK_FRAMES);
                debug_assert (fi_frame input = int ?f);
                Some (Normal input, q1) }
         else do { q \<leftarrow> start_prediction z (int ?f) q1; Some (forward_prediction (int ?f) q) })
      else Some (forward_prediction (int ?f) q1))"
    unfolding get_input_def
    using null s(1) sub by (simp add: q1_def[symmetric] q1 off_def[symmetric] predicting_def)
  have off_lt: "off < iq_length q \<longleftrightarrow> ?f < ?n"
    using s(3,4) old ok unfolding off_def oldest_def
    by (cases "iq_length q = 0") (auto simp: queue_ok_defs)
  consider (predicting) "predicting q" | (normal) "\<not> predicting q" "?f < ?n"
    | (start) "\<not> predicting q" "?n \<le> ?f" by linarith
  then show ?thesis
  proof cases
    case predicting
    then have "get_input z (int ?f) q =
        Some (Prediction ((iq_prediction q)\<lparr>fi_frame := int ?f\<rparr>), q1)"
      using q1 by (simp add: unf forward_prediction_def)
    moreover have "tracks z h (used @ [?x]) q1"
      using ok1 agrees_snoc[OF ag null q1(5)] predicting pr q1 unfolding tracks_def watching_def requested_def using null by auto
    ultimately show ?thesis
      using pr[OF predicting] q1 by (intro that[OF _ _ _ _ q1(3)]) (auto simp: input_for_def)
  next
    case normal
    then have len: "0 < iq_length q" and s_eq: "fi_frame s = int (oldest h q)"
      using off_lt s(4) by auto
    have tail: "iq_tail q = oldest h q mod MAX_ROLLBACK_FRAMES" "iq_length q \<le> MAX_ROLLBACK_FRAMES"
      using ok by (simp_all add: queue_ok_defs oldest_def)
    have off: "off = ?f - oldest h q" using old by (simp add: off_def s_eq nat_diff_distrib)
    have pos: "(off + iq_tail q) mod MAX_ROLLBACK_FRAMES = ?f mod MAX_ROLLBACK_FRAMES"
      using old mod_add_right_eq[of "?f - oldest h q" "oldest h q" MAX_ROLLBACK_FRAMES]
      by (simp only: off tail(1) le_add_diff_inverse2)
    have ring: "ring_ok z h (iq_inputs q)" using ok by (simp add: queue_ok_def)
    have "iq_inputs q ! (?f mod MAX_ROLLBACK_FRAMES) = \<lparr>fi_frame = int ?f, fi_input = h ! ?f\<rparr>"
      using ring_nth[OF ring normal(2)] old tail(2) by (simp add: oldest_def)
    moreover have "off + iq_tail q < 2 ^ 64"
    proof -
      have "off < 120" "iq_tail q < 120"
        using normal(2) off_lt tail mod_less_divisor[of 120 "oldest h q"]
        by (auto simp: MAX_ROLLBACK_FRAMES_def)
      then show ?thesis by simp
    qed
    ultimately have "get_input z (int ?f) q = Some (Normal \<lparr>fi_frame = int ?f, fi_input = h ! ?f\<rparr>, q1)"
      using normal off_lt pos ring_length[OF ring] by (simp add: unf)
    moreover have "tracks z h (used @ [?x]) q1"
      using ok1 agrees_snoc[OF ag null q1(5)] normal q1 unfolding tracks_def watching_def requested_def using null by auto
    ultimately show ?thesis
      using normal q1 by (intro that[OF _ _ _ _ q1(3)]) (auto simp: input_for_def)
  next
    case start
    define q2 where "q2 = q1\<lparr>iq_prediction := \<lparr>fi_frame = int ?n, fi_input = last_or z h\<rparr>\<rparr>"
    have "start_prediction z (int ?f) q1 = Some q2"
      unfolding q2_def using start ok1 q1 bnd(1)
      by (intro start_prediction_spec) auto
    then have "get_input z (int ?f) q =
        Some (Prediction \<lparr>fi_frame = int ?f, fi_input = last_or z h\<rparr>, q2)"
      using start off_lt by (simp add: unf forward_prediction_def q2_def)
    moreover have "queue_ok z h q2"
      using ok1 unfolding q2_def queue_ok_defs by simp
    then have "tracks z h (used @ [?x]) q2"
      using agrees_snoc[OF ag null, of q2] start q1 null unfolding tracks_def watching_def requested_def
      by (auto simp: q2_def predicting_def is_null_def)
    moreover have q2: "iq_length q2 = iq_length q" by (simp add: q2_def q1)
    ultimately show ?thesis
      using start q1 by (intro that[OF _ _ _ _ q2]) (auto simp: input_for_def q2_def)
  qed
qed

section \<open>Discarding inputs and resetting the prediction\<close>

lemma tracks_window:
  "tracks z h used q \<Longrightarrow> queue_ok z h (q\<lparr>iq_tail := t, iq_length := l\<rparr>) \<Longrightarrow>
     tracks z h used (q\<lparr>iq_tail := t, iq_length := l\<rparr>)"
  unfolding tracks_def agrees_def watching_def predicting_def requested_def by simp

lemma discard_window:
  assumes ok: "queue_ok z h q" and frame: "0 \<le> frame" "in_i32 frame" "in_i32 (int (length h))"
    and req: "\<not> is_null (iq_last_frame_requested q)"
    and old: "int (oldest h q) \<le> frame + 1"
  obtains t l where "discard_confirmed_frames frame q = Some (q\<lparr>iq_tail := t, iq_length := l\<rparr>)"
    and "queue_ok z h (q\<lparr>iq_tail := t, iq_length := l\<rparr>)"
    and "length h - l = max (oldest h q) (min (length h) (nat (frame + 1)))"
proof (cases "frame \<ge> iq_last_added_frame q")
  case True
  have "int (length h) - 1 \<le> frame" using True ok by (simp add: queue_ok_defs)
  moreover have "queue_ok z h (q\<lparr>iq_tail := iq_head q, iq_length := 0\<rparr>)"
    using ok unfolding queue_ok_defs by simp
  moreover have "discard_confirmed_frames frame q = Some (q\<lparr>iq_tail := iq_head q, iq_length := 0\<rparr>)"
    using True frame req by (simp add: discard_confirmed_frames_def is_null_def)
  ultimately show ?thesis
    using frame by (intro that[of 0 "iq_head q"]) (auto simp: oldest_def)
next
  case False
  let ?T = "oldest h q"
  have last: "iq_last_added_frame q = int (length h) - 1" "iq_length q \<le> length h"
    "iq_tail q = ?T mod MAX_ROLLBACK_FRAMES" "iq_length q \<le> MAX_ROLLBACK_FRAMES"
    using ok by (simp_all add: queue_ok_defs oldest_def)
  with False old have len: "0 < iq_length q" by (cases "iq_length q = 0") (auto simp: oldest_def)
  obtain s where s: "index_at (iq_inputs q) (iq_tail q) = Some s" "fi_frame s = int ?T"
    using tail_slot[OF ok] len by metis
  define off where "off = nat (frame + 1) - ?T"
  have off: "frame - int ?T + 1 = int off" "off \<le> iq_length q"
    using old frame(1) False last by (auto simp: off_def oldest_def)
  have bnd: "in_i32 (frame - int ?T)" "in_i32 (frame - int ?T + 1)"
    using frame False last old by (auto simp: in_i32_def)
  have tail: "iq_tail q < MAX_ROLLBACK_FRAMES" using last(3) by simp
  have "iq_tail q + off < 2 ^ 64"
    using tail off(2) last(4) by (simp add: MAX_ROLLBACK_FRAMES_def)
  then have "discard_confirmed_frames frame q =
      Some (q\<lparr>iq_tail := (iq_tail q + off) mod MAX_ROLLBACK_FRAMES, iq_length := iq_length q - off\<rparr>)"
    using False frame req s bnd off
    by (simp add: discard_confirmed_frames_def is_null_def)
  moreover define l where "l = iq_length q - off"
  moreover have l: "length h - l = ?T + off" "l \<le> MAX_ROLLBACK_FRAMES" "l \<le> length h"
    using off(2) last(2,4) by (simp_all add: oldest_def l_def)
  moreover have "queue_ok z h
      (q\<lparr>iq_tail := (iq_tail q + off) mod MAX_ROLLBACK_FRAMES, iq_length := l\<rparr>)"
    using ok l unfolding queue_ok_defs oldest_def by (simp add: mod_add_left_eq)
  moreover have "?T + off = max ?T (min (length h) (nat (frame + 1)))"
    using False last(1) old frame(1) by (auto simp: off_def)
  ultimately show ?thesis by (intro that[of l]) auto
qed

text \<open>
  With no request since the last reset, the null check makes the limit negative: the queue keeps
  everything, or panics when it has discarded something before.
\<close>

lemma discard_unrequested:
  assumes ok: "queue_ok z h q" and frame: "0 \<le> frame" "in_i32 (int (length h))"
    and req: "iq_last_frame_requested q = NULL_FRAME" and len: "0 < iq_length q"
  shows "discard_confirmed_frames frame q = (if oldest h q = 0 then Some q else None)"
proof -
  obtain s where s: "index_at (iq_inputs q) (iq_tail q) = Some s" "fi_frame s = int (oldest h q)"
    using tail_slot[OF ok] len by metis
  have last: "iq_last_added_frame q = int (length h) - 1" "iq_length q \<le> length h"
    "iq_tail q = oldest h q mod MAX_ROLLBACK_FRAMES" "iq_length q \<le> MAX_ROLLBACK_FRAMES"
    using ok by (simp_all add: queue_ok_defs oldest_def)
  then have "\<not> min frame NULL_FRAME \<ge> iq_last_added_frame q" "min frame NULL_FRAME = - 1"
    using len frame(1) by (auto simp: NULL_FRAME_def)
  moreover have "in_i32 (- 1 - int (oldest h q))" "in_i32 (- int (oldest h q))"
    using frame(2) by (auto simp: in_i32_def oldest_def)
  moreover have "\<not> is_null frame" using frame(1) by (simp add: is_null_def)
  ultimately show ?thesis
    using s req last(3) by (auto simp: discard_confirmed_frames_def Let_def)
qed

lemma reset_prediction_tracks:
  assumes ok: "queue_ok z h q" and ag: "agrees z h used q"
    and first: "is_null (iq_first_incorrect_frame q) \<or> int k \<le> iq_first_incorrect_frame q"
  obtains q' where "queue_reset_prediction (int k) q = Some q'"
    and "askable z h (take k used) q'" and "\<not> predicting q'"
    and "iq_length q' = iq_length q" and "is_null (iq_first_incorrect_frame q')"
    and "is_null (iq_last_frame_requested q')"
    and "iq_last_user_added_frame q' = iq_last_user_added_frame q"
    and "iq_frame_delay q' = iq_frame_delay q"
proof -
  let ?q = "q\<lparr>iq_prediction := (iq_prediction q)\<lparr>fi_frame := NULL_FRAME\<rparr>,
      iq_first_incorrect_frame := NULL_FRAME, iq_last_frame_requested := NULL_FRAME\<rparr>"
  have "queue_ok z h ?q" using ok unfolding queue_ok_defs by simp
  moreover have "agrees z h (take k used) ?q"
    using ag first by (auto simp: agrees_def)
  ultimately have "askable z h (take k used) ?q" by (simp add: askable_def predicting_def)
  moreover have "queue_reset_prediction (int k) q = Some ?q"
    using first by (simp add: queue_reset_prediction_def)
  ultimately show ?thesis by (intro that[of ?q]) (simp_all add: predicting_def)
qed

section \<open>The interface to the simulation\<close>

text \<open>
  What \<^verbatim>\<open>Sync\<close> relies on: a source of inputs that answers requests for consecutive frames, knows
  the first frame it answered wrongly, and can be rewound to it.
\<close>

text \<open>Requesting \<open>n\<close> consecutive frames, as a rollback does for each player.\<close>

primrec refetch ::
    "(frame \<Rightarrow> 'q \<Rightarrow> ('i fetched_input \<times> 'q) option) \<Rightarrow> nat \<Rightarrow> frame \<Rightarrow> 'q \<Rightarrow> ('i list \<times> 'q) option" where
  "refetch get 0 f q = Some ([], q)"
| "refetch get (Suc n) f q =
     do { r \<leftarrow> get f q;
          rs \<leftarrow> refetch get n (f + 1) (snd r);
          Some (fi_input (fetched_unwrap (fst r)) # fst rs, snd rs) }"

locale input_source =
  fixes get :: "frame \<Rightarrow> 'q \<Rightarrow> ('i fetched_input \<times> 'q) option"
    and reset :: "frame \<Rightarrow> 'q \<Rightarrow> 'q option"
    and wrong :: "'q \<Rightarrow> frame"
    and answer :: "'i list \<Rightarrow> nat \<Rightarrow> 'i"
    and good :: "'i list \<Rightarrow> 'i list \<Rightarrow> 'q \<Rightarrow> bool"
    and ready :: "'i list \<Rightarrow> 'i list \<Rightarrow> 'q \<Rightarrow> bool"
    and start :: "'i list \<Rightarrow> 'q \<Rightarrow> nat"
  assumes good_ready: "good h used q \<Longrightarrow> is_null (wrong q) \<Longrightarrow> ready h used q"
    and ready_right: "ready h used q \<Longrightarrow> is_null (wrong q)"
    and good_agrees: "good h used q \<Longrightarrow> f < length used \<Longrightarrow>
      is_null (wrong q) \<or> int f < wrong q \<Longrightarrow> used ! f = answer h f"
    and get_next: "ready h used q \<Longrightarrow> start h q \<le> length used \<Longrightarrow>
      int (length h) < i32_MAX \<Longrightarrow> int (length used) < i32_MAX \<Longrightarrow>
      \<exists>r q'. get (int (length used)) q = Some (r, q') \<and>
        fetched_unwrap r = \<lparr>fi_frame = int (length used), fi_input = answer h (length used)\<rparr> \<and>
        good h (used @ [answer h (length used)]) q' \<and> start h q' = start h q \<and> wrong q' = wrong q"
    and reset_to: "good h used q \<Longrightarrow> k \<le> length used \<Longrightarrow>
      is_null (wrong q) \<or> int k \<le> wrong q \<Longrightarrow>
      \<exists>q'. reset (int k) q = Some q' \<and> ready h (take k used) q' \<and> start h q' = start h q"
begin

lemma refetch_ready:
  assumes "ready h used q" and "start h q \<le> length used" and "int (length h) < i32_MAX"
    and "int (length used + n) \<le> i32_MAX" and "0 < n"
  shows "\<exists>q'. refetch get n (int (length used)) q
      = Some (map (answer h) [length used ..< length used + n], q') \<and>
    good h (used @ map (answer h) [length used ..< length used + n]) q' \<and>
    start h q' = start h q \<and> is_null (wrong q')"
  using assms
proof (induction n arbitrary: used q)
  case (Suc n)
  let ?x = "answer h (length used)"
  have lt: "int (length used) < i32_MAX" using Suc.prems(4) by simp
  obtain r q1 where g: "get (int (length used)) q = Some (r, q1)"
    "fetched_unwrap r = \<lparr>fi_frame = int (length used), fi_input = ?x\<rparr>"
    "good h (used @ [?x]) q1" "start h q1 = start h q" "wrong q1 = wrong q"
    using get_next[OF Suc.prems(1-3) lt] by blast
  have null: "is_null (wrong q1)" using ready_right[OF Suc.prems(1)] g(5) by simp
  show ?case
  proof (cases n)
    case 0
    then show ?thesis using g null by simp
  next
    case Suc': (Suc m)
    have len: "length (used @ [?x]) = Suc (length used)" by simp
    have "\<exists>q'. refetch get n (int (length (used @ [?x]))) q1
        = Some (map (answer h) [length (used @ [?x]) ..< length (used @ [?x]) + n], q') \<and>
      good h ((used @ [?x]) @ map (answer h) [length (used @ [?x]) ..< length (used @ [?x]) + n]) q' \<and>
      start h q' = start h q1 \<and> is_null (wrong q')"
      using Suc.prems g null Suc' by (intro Suc.IH good_ready) auto
    moreover have "[length used ..< length used + Suc n] =
        length used # [Suc (length used) ..< Suc (length used) + n]"
      by (simp add: upt_conv_Cons del: upt_Suc)
    ultimately show ?thesis
      using g unfolding len by (auto simp: add.commute simp del: upt_Suc)
  qed
qed simp

text \<open>After a rollback every frame has been given the best answer.\<close>

lemma rollback_corrects:
  assumes g: "good h used q" and k: "k < length used" "start h q \<le> k"
    and w: "is_null (wrong q) \<or> int k \<le> wrong q"
    and bnd: "int (length h) < i32_MAX" "int (length used) \<le> i32_MAX"
  shows "\<exists>q1 q2. reset (int k) q = Some q1 \<and>
    refetch get (length used - k) (int k) q1 = Some (map (answer h) [k ..< length used], q2) \<and>
    take k used @ map (answer h) [k ..< length used] = map (answer h) [0 ..< length used] \<and>
    good h (map (answer h) [0 ..< length used]) q2 \<and> is_null (wrong q2)"
proof -
  obtain q1 where q1: "reset (int k) q = Some q1" "ready h (take k used) q1" "start h q1 = start h q"
    using reset_to[OF g less_imp_le[OF k(1)] w] by blast
  have prefix: "take k used = map (answer h) [0 ..< k]"
    using good_agrees[OF g] k w by (intro nth_equalityI) force+
  have split: "[0 ..< length used] = [0 ..< k] @ [k ..< length used]"
    using k upt_add_eq_append[of 0 k "length used - k"] by simp
  have "\<exists>q'. refetch get (length used - k) (int (length (take k used))) q1
      = Some (map (answer h) [length (take k used) ..< length (take k used) + (length used - k)], q') \<and>
    good h (take k used @ map (answer h)
      [length (take k used) ..< length (take k used) + (length used - k)]) q' \<and>
    start h q' = start h q1 \<and> is_null (wrong q')"
    using q1 k bnd by (intro refetch_ready) auto
  then show ?thesis
    using q1 k prefix split by (auto simp: min_def)
qed

end

lemma in_i32_nat [simp]:
  "int n < i32_MAX \<Longrightarrow> in_i32 (int n)" "int n < i32_MAX \<Longrightarrow> in_i32 (int n + 1)"
  "int n < i32_MAX \<Longrightarrow> in_i32 (1 + int n)"
  by (simp_all add: in_i32_def i32_MAX_def)

interpretation iq: input_source "get_input z" queue_reset_prediction iq_first_incorrect_frame
  "input_for z" "tracks z" "askable z" oldest for z :: 'i
proof (unfold_locales, goal_cases)
  case (1 h used q)
  then show ?case by (rule tracks_askable)
next
  case (2 h used q)
  then show ?case by (simp add: askable_def)
next
  case (3 h used q f)
  then show ?case by (auto simp: tracks_def agrees_def)
next
  case (4 h used q)
  obtain r q' where "get_input z (int (length used)) q = Some (r, q')"
    "fetched_unwrap r = \<lparr>fi_frame = int (length used), fi_input = input_for z h (length used)\<rparr>"
    "tracks z h (used @ [input_for z h (length used)]) q'" "iq_length q' = iq_length q"
    "iq_first_incorrect_frame q' = iq_first_incorrect_frame q"
    by (rule get_input_tracks[OF 4(1,2)]) (use 4(3,4) in auto)
  then show ?case by (auto simp: oldest_def)
next
  case (5 h used q k)
  obtain q' where "queue_reset_prediction (int k) q = Some q'" "askable z h (take k used) q'"
    "iq_length q' = iq_length q"
    by (rule reset_prediction_tracks[OF _ _ 5(3)]) (use 5(1) in \<open>auto simp: tracks_def\<close>)
  then show ?case by (auto simp: oldest_def)
qed

section \<open>Consequences for one queue\<close>

lemma discard_tracks:
  assumes tr: "tracks z h used q" and frame: "0 \<le> frame" "in_i32 frame" "in_i32 (int (length h))"
    and req: "\<not> is_null (iq_last_frame_requested q)" and old: "int (oldest h q) \<le> frame + 1"
  shows "\<exists>q'. discard_confirmed_frames frame q = Some q' \<and> tracks z h used q' \<and>
    oldest h q' = max (oldest h q) (min (length h) (nat (frame + 1)))"
proof -
  obtain t l where d: "discard_confirmed_frames frame q = Some (q\<lparr>iq_tail := t, iq_length := l\<rparr>)"
    "queue_ok z h (q\<lparr>iq_tail := t, iq_length := l\<rparr>)"
    "length h - l = max (oldest h q) (min (length h) (nat (frame + 1)))"
    by (rule discard_window[OF tracks_queue_ok[OF tr] frame req old])
  then show ?thesis using tracks_window[OF tr d(2)] by (auto simp: oldest_def)
qed

lemma tracks_used:
  "tracks z h used q \<Longrightarrow> is_null (iq_first_incorrect_frame q) \<Longrightarrow> f < length used \<Longrightarrow>
     used ! f = input_for z h f"
  by (simp add: tracks_def agrees_def)

text \<open>An arriving input is compared with the prediction the simulation was given.\<close>

lemma next_input_verdict:
  assumes tr: "tracks z h used q" and null: "is_null (iq_first_incorrect_frame q)"
    and order: "is_null (iq_last_user_added_frame q) \<or> m = iq_last_user_added_frame q + 1"
    and m: "m + iq_frame_delay q = int (length h)" "in_i32 m"
    and bnd: "in_i32 (int (length h) + 1)" and room: "iq_length q < MAX_ROLLBACK_FRAMES"
  obtains q' where "add_input \<lparr>fi_frame = m, fi_input = x\<rparr> q = Some (int (length h), q')"
    and "iq_first_incorrect_frame q' = (if length h < length used \<and> (iq_frame_delay q \<noteq> 0 \<or> used ! length h \<noteq> x)
      then int (length h) else iq_first_incorrect_frame q)"
proof -
  have small: "in_i32 (int (length h))" using bnd by (simp add: in_i32_def)
  have room': "iq_length q + (Suc (length h) - length h) \<le> MAX_ROLLBACK_FRAMES" using room by simp
  have used: "length h < length used \<Longrightarrow> used ! length h = last_or z h"
    using tracks_used[OF tr null] by (simp add: input_for_def)
  obtain q' where q': "add_input \<lparr>fi_frame = m, fi_input = x\<rparr> q = Some (int (length h), q')"
    "iq_first_incorrect_frame q' =
      (if is_null (iq_first_incorrect_frame q) \<and> differs z h used \<lparr>fi_frame = m, fi_input = x\<rparr>
       then int (length h) else iq_first_incorrect_frame q)"
    by (rule add_input_tracks[OF tr order m(1) bnd m(2) small room', of x]) auto
  have "differs z h used \<lparr>fi_frame = m, fi_input = x\<rparr> \<longleftrightarrow>
      length h < length used \<and> (iq_frame_delay q \<noteq> 0 \<or> used ! length h \<noteq> x)"
    using used m(1) by (auto simp: differs_def)
  then show ?thesis using q' null by (intro that) auto
qed

lemma exact_misprediction:
  assumes "tracks z h used q" and "is_null (iq_first_incorrect_frame q)" and "iq_frame_delay q = 0"
    and "is_null (iq_last_user_added_frame q) \<or> int (length h) = iq_last_user_added_frame q + 1"
    and "in_i32 (int (length h) + 1)" and "iq_length q < MAX_ROLLBACK_FRAMES"
  shows "\<exists>q'. add_input \<lparr>fi_frame = int (length h), fi_input = x\<rparr> q = Some (int (length h), q') \<and>
    (is_null (iq_first_incorrect_frame q') \<longleftrightarrow> \<not> (length h < length used \<and> used ! length h \<noteq> x)) \<and>
    (length h < length used \<and> used ! length h \<noteq> x \<longrightarrow> iq_first_incorrect_frame q' = int (length h))"
proof -
  have m: "int (length h) + iq_frame_delay q = int (length h)" "in_i32 (int (length h))"
    using assms(3,5) by (simp_all add: in_i32_def)
  show ?thesis
    by (rule next_input_verdict[OF assms(1,2,4) m assms(5,6), of x])
      (use assms(2,3) in \<open>auto simp: is_null_def\<close>)
qed

lemma delayed_misprediction:
  assumes "tracks z h used q" and "is_null (iq_first_incorrect_frame q)" and "iq_frame_delay q \<noteq> 0"
    and "is_null (iq_last_user_added_frame q) \<or> m = iq_last_user_added_frame q + 1"
    and "m + iq_frame_delay q = int (length h)" and "in_i32 m"
    and "in_i32 (int (length h) + 1)" and "iq_length q < MAX_ROLLBACK_FRAMES"
    and "length h < length used"
  shows "\<exists>q'. add_input \<lparr>fi_frame = m, fi_input = used ! length h\<rparr> q = Some (int (length h), q') \<and>
    iq_first_incorrect_frame q' = int (length h)"
  by (rule next_input_verdict[OF assms(1,2,4-8), of "used ! length h"]) (use assms(3,9) in auto)

end
