(* ===== verification/Saved_State.thy ===== *)
theory Saved_State
  imports Messages
begin

text \<open>
  \<open>SavedFrame\<close>, \<open>SavedCell\<close> and \<open>SavedState\<close> of \<^verbatim>\<open>backroll/src/sync.rs\<close> and the commands of
  \<^verbatim>\<open>backroll/src/command.rs\<close>. A \<open>SavedCell\<close> is a shared pointer: the session and the commands it
  hands out refer to the same frame, and a save by the client is seen by the session. The
  model is an explicit store, a list of saved frames, and a cell is its address. The session resets
  cells when it makes commands, the client fills them when it executes the commands, later.
\<close>

definition MAX_PREDICTION_FRAMES :: nat where
  "MAX_PREDICTION_FRAMES = 8"

record 'g saved_frame =
  sf_frame :: frame
  sf_data :: "'g option"
  sf_checksum :: "nat option"

definition saved_frame_default :: "'g saved_frame" where
  "saved_frame_default = \<lparr>sf_frame = NULL_FRAME, sf_data = None, sf_checksum = None\<rparr>"

type_synonym 'g store = "'g saved_frame list"
type_synonym saved_cell = nat

definition cell_reset :: "saved_cell \<Rightarrow> frame \<Rightarrow> 'g store \<Rightarrow> 'g store option" where
  "cell_reset cell frame store = store_at store cell (saved_frame_default\<lparr>sf_frame := frame\<rparr>)"

definition cell_save :: "saved_cell \<Rightarrow> 'g saved_frame \<Rightarrow> 'g store \<Rightarrow> 'g store option" where
  "cell_save cell new_frame store =
     do { debug_assert (sf_data new_frame \<noteq> None);
          saved_frame \<leftarrow> index_at store cell;
          store_at store cell (saved_frame
            \<lparr>sf_data := sf_data new_frame, sf_checksum := sf_checksum new_frame\<rparr>) }"

definition cell_is_valid :: "saved_cell \<Rightarrow> 'g store \<Rightarrow> bool option" where
  "cell_is_valid cell store =
     do { frame \<leftarrow> index_at store cell;
          Some (sf_data frame \<noteq> None \<and> \<not> is_null (sf_frame frame)) }"

definition cell_load :: "saved_cell \<Rightarrow> 'g store \<Rightarrow> 'g option" where
  "cell_load cell store = do { frame \<leftarrow> index_at store cell; sf_data frame }"

record saved_state =
  ss_head :: nat
  ss_frames :: "saved_cell list"

definition saved_state_default :: saved_state where
  "saved_state_default = \<lparr>ss_head = 0, ss_frames = [0 ..< MAX_PREDICTION_FRAMES + 2]\<rparr>"

definition store_default :: "'g store" where
  "store_default = replicate (MAX_PREDICTION_FRAMES + 2) saved_frame_default"

definition saved_state_push ::
    "frame \<Rightarrow> saved_state \<Rightarrow> 'g store \<Rightarrow> (saved_cell \<times> saved_state \<times> 'g store) option" where
  "saved_state_push frame s store =
     do { saved_frame \<leftarrow> index_at (ss_frames s) (ss_head s);
          store \<leftarrow> cell_reset saved_frame frame store;
          let head = (ss_head s + 1) mod length (ss_frames s);
          debug_assert (head < length (ss_frames s));
          Some (saved_frame, s\<lparr>ss_head := head\<rparr>, store) }"

fun find_from :: "frame \<Rightarrow> 'g store \<Rightarrow> nat \<Rightarrow> saved_cell list \<Rightarrow> nat option" where
  "find_from frame store i [] = None"
| "find_from frame store i (cell # cells) =
     (if sf_frame (store ! cell) = frame then Some i else find_from frame store (i + 1) cells)"

definition find_index :: "frame \<Rightarrow> saved_state \<Rightarrow> 'g store \<Rightarrow> nat option" where
  "find_index frame s store = find_from frame store 0 (ss_frames s)"

definition saved_state_reset_to ::
    "frame \<Rightarrow> saved_state \<Rightarrow> 'g store \<Rightarrow> (saved_cell \<times> saved_state) option" where
  "saved_state_reset_to frame s store =
     do { head \<leftarrow> find_index frame s store;
          cell \<leftarrow> index_at (ss_frames s) head;
          Some (cell, s\<lparr>ss_head := head\<rparr>) }"

section \<open>Commands and their execution by the client\<close>

datatype 'i command =
    Save saved_cell frame
  | Load saved_cell
  | AdvanceFrame "'i game_input"
  | Event event

text \<open>\<open>SaveState::save_state\<close>, which every way of saving calls.\<close>

definition save_state :: "saved_cell \<Rightarrow> frame \<Rightarrow> 'g \<Rightarrow> nat option \<Rightarrow> 'g store \<Rightarrow> 'g store option" where
  "save_state cell frame state checksum store =
     do { store \<leftarrow> cell_save cell
            \<lparr>sf_frame = frame, sf_data = Some state, sf_checksum = checksum\<rparr> store;
          valid \<leftarrow> cell_is_valid cell store;
          debug_assert valid;
          Some store }"

definition save_without_hash :: "saved_cell \<Rightarrow> frame \<Rightarrow> 'g \<Rightarrow> 'g store \<Rightarrow> 'g store option" where
  "save_without_hash cell frame state store = save_state cell frame state None store"

definition save_with_hash ::
    "saved_cell \<Rightarrow> frame \<Rightarrow> 'g \<Rightarrow> nat \<Rightarrow> 'g store \<Rightarrow> 'g store option" where
  "save_with_hash cell frame state checksum store = save_state cell frame state (Some checksum) store"

text \<open>
  The client of the documentation: it executes the commands in order. \<open>step\<close> is the game, \<open>hash\<close>
  the checksum it computes of a state, if any.
\<close>

fun execute :: "('g \<Rightarrow> 'i game_input \<Rightarrow> 'g) \<Rightarrow> ('g \<Rightarrow> nat option) \<Rightarrow> 'i command \<Rightarrow>
    'g \<times> 'g store \<Rightarrow> ('g \<times> 'g store) option" where
  "execute step hash (Save cell frame) (g, store) =
     do { store \<leftarrow> (case hash g of None \<Rightarrow> save_without_hash cell frame g store
            | Some checksum \<Rightarrow> save_with_hash cell frame g checksum store);
          Some (g, store) }"
| "execute step hash (Load cell) (g, store) = do { g \<leftarrow> cell_load cell store; Some (g, store) }"
| "execute step hash (AdvanceFrame inputs) (g, store) = Some (step g inputs, store)"
| "execute step hash (Event e) (g, store) = Some (g, store)"

primrec execute_all :: "('g \<Rightarrow> 'i game_input \<Rightarrow> 'g) \<Rightarrow> ('g \<Rightarrow> nat option) \<Rightarrow> 'i command list \<Rightarrow>
    'g \<times> 'g store \<Rightarrow> ('g \<times> 'g store) option" where
  "execute_all step hash [] s = Some s"
| "execute_all step hash (c # cs) s = do { s \<leftarrow> execute step hash c s; execute_all step hash cs s }"

lemma execute_all_append:
  "execute_all step hash (cs @ ds) s =
     do { s \<leftarrow> execute_all step hash cs s; execute_all step hash ds s }"
proof (induction cs arbitrary: s)
  case (Cons c cs)
  then show ?case by (cases "execute step hash c s") simp_all
qed simp

lemma execute_save:
  assumes "cell < length store" and "\<not> is_null (sf_frame (store ! cell))"
  shows "execute step hash (Save cell frame) (g, store) =
    Some (g, store[cell := (store ! cell)\<lparr>sf_data := Some g, sf_checksum := hash g\<rparr>])"
  using assms by (cases "hash g") (simp_all add: save_without_hash_def save_with_hash_def
      save_state_def cell_save_def cell_is_valid_def)

section \<open>The ring of snapshots\<close>

text \<open>
  The \<open>m\<close>-th push (from 0) goes to cell \<open>m mod 10\<close> and saves frame \<open>m - d\<close>, where \<open>d\<close> becomes 1 with the
  first rollback to frame 0, which saves that frame a second time. \<open>tags_at d lo hi\<close> says that
  the cells of the pushes \<open>lo ..< hi\<close> carry their frame numbers, \<open>states_at\<close> that they hold the states
  \<open>st\<close> of these frames; \<open>unused\<close> that at most \<open>hi\<close> pushes have happened.
\<close>

definition tags_at :: "nat \<Rightarrow> nat \<Rightarrow> nat \<Rightarrow> 'g store \<Rightarrow> bool" where
  "tags_at d lo hi store \<longleftrightarrow> length store = 10 \<and> d \<le> 1 \<and>
     (\<forall>m. lo \<le> m \<and> m < hi \<longrightarrow> sf_frame (store ! (m mod 10)) = int (m - d))"

definition states_at :: "nat \<Rightarrow> nat \<Rightarrow> nat \<Rightarrow> (nat \<Rightarrow> 'g) \<Rightarrow> 'g store \<Rightarrow> bool" where
  "states_at d lo hi st store \<longleftrightarrow> length store = 10 \<and>
     (\<forall>m. lo \<le> m \<and> m < hi \<longrightarrow> sf_data (store ! (m mod 10)) = Some (st (m - d)))"

definition unused :: "nat \<Rightarrow> 'g store \<Rightarrow> bool" where
  "unused hi store \<longleftrightarrow> (\<forall>j < 10. hi \<le> j \<longrightarrow> sf_frame (store ! j) = NULL_FRAME)"

text \<open>The ring after frame \<open>fc\<close> was saved: the last ten pushes.\<close>

definition tags_ok :: "nat \<Rightarrow> nat \<Rightarrow> 'g store \<Rightarrow> bool" where
  "tags_ok d fc store \<longleftrightarrow> tags_at d (fc + d - 9) (Suc (fc + d)) store \<and> unused (Suc (fc + d)) store"

definition ring_of :: "saved_state \<Rightarrow> bool" where
  "ring_of s \<longleftrightarrow> ss_frames s = [0 ..< 10]"

text \<open>Every cell is in the window of the last ten pushes, or unused.\<close>

lemma window_cell:
  fixes j hi :: nat
  assumes "j < 10" and "j \<le> hi"
  obtains m where "hi - 9 \<le> m" and "m \<le> hi" and "m mod 10 = j"
proof -
  define k where "k = (hi - j) div 10"
  define x where "x = (hi - j) mod 10"
  have sum: "hi = j + 10 * k + x"
    using assms(2) div_mult_mod_eq[of "hi - j" 10] by (simp add: k_def x_def)
  have x: "x < 10" by (simp add: x_def)
  have "(hi - x) mod 10 = (j + k * 10) mod 10" using sum by (simp add: algebra_simps)
  also have "\<dots> = j" using assms(1) by simp
  finally show ?thesis using x sum by (intro that[of "hi - x"]) auto
qed

lemma find_from_first:
  "c < n \<Longrightarrow> i \<le> c \<Longrightarrow> sf_frame (store ! c) = frame \<Longrightarrow>
     (\<And>j. i \<le> j \<Longrightarrow> j < c \<Longrightarrow> sf_frame (store ! j) \<noteq> frame) \<Longrightarrow>
     find_from frame store i [i ..< n] = Some c"
proof (induction "c - i" arbitrary: i)
  case 0
  then show ?case by (simp add: upt_conv_Cons)
next
  case (Suc m)
  then have "sf_frame (store ! i) \<noteq> frame" "find_from frame store (Suc i) [Suc i ..< n] = Some c"
    by simp_all
  then show ?case using Suc by (simp add: upt_conv_Cons)
qed

text \<open>The push that a rollback to frame \<open>seek\<close> finds.\<close>

definition seek_push :: "nat \<Rightarrow> nat \<Rightarrow> nat \<Rightarrow> nat" where
  "seek_push d fc seek = (if seek = 0 \<and> fc + d \<le> 9 then 0 else seek + d)"

lemma tags_other:
  assumes tags: "tags_ok d fc store" and j: "j < 10" "j \<noteq> (seek + d) mod 10"
    and seek: "0 < seek \<or> 9 < fc + d"
  shows "sf_frame (store ! j) \<noteq> int seek"
proof (cases "fc + d < j")
  case True
  with tags j show ?thesis by (auto simp: tags_ok_def unused_def NULL_FRAME_def)
next
  case False
  then obtain m where m: "fc + d - 9 \<le> m" "m \<le> fc + d" "m mod 10 = j"
    using window_cell[of j "fc + d"] j by auto
  have tag: "sf_frame (store ! j) = int (m - d)" and d: "d \<le> 1"
    using tags m by (auto simp: tags_ok_def tags_at_def)
  show ?thesis
  proof
    assume "sf_frame (store ! j) = int seek"
    then have "m - d = seek" using tag by simp
    then have "m = seek + d" using seek m(1) d by auto
    then show False using m(3) j(2) by simp
  qed
qed

lemma seek_push_window:
  assumes "seek \<le> fc" and "fc < seek + 10" and "d \<le> 1"
  shows "fc + d - 9 \<le> seek_push d fc seek" and "seek_push d fc seek \<le> fc + d"
    and "seek_push d fc seek - d = seek"
  using assms by (auto simp: seek_push_def)

lemma reset_to_finds:
  assumes ring: "ring_of s" and tags: "tags_ok d fc store" and seek: "seek \<le> fc" "fc < seek + 10"
  shows "saved_state_reset_to (int seek) s store =
      Some (seek_push d fc seek mod 10, s\<lparr>ss_head := seek_push d fc seek mod 10\<rparr>)"
    and "sf_frame (store ! (seek_push d fc seek mod 10)) = int seek"
proof -
  let ?c = "seek_push d fc seek mod 10"
  have d: "d \<le> 1" using tags by (simp add: tags_ok_def tags_at_def)
  show tag: "sf_frame (store ! ?c) = int seek"
    using tags seek_push_window[OF seek d] by (simp add: tags_ok_def tags_at_def)
  have "sf_frame (store ! j) \<noteq> int seek" if "j < ?c" for j
  proof -
    have "seek_push d fc seek \<noteq> 0" using that by (auto intro: ccontr)
    then have "0 < seek \<or> 9 < fc + d" "seek_push d fc seek = seek + d"
      by (auto simp: seek_push_def split: if_splits)
    then show ?thesis using that tags_other[OF tags, of j seek] by auto
  qed
  then have "find_index (int seek) s store = Some ?c"
    unfolding find_index_def using ring tag
    by (simp only: ring_of_def) (rule find_from_first, auto)
  then show "saved_state_reset_to (int seek) s store = Some (?c, s\<lparr>ss_head := ?c\<rparr>)"
    using ring by (simp add: saved_state_reset_to_def ring_of_def)
qed

lemma push_ring:
  assumes "ring_of s" and "ss_head s < 10" and "length store = 10"
  shows "saved_state_push frame s store =
    Some (ss_head s, s\<lparr>ss_head := (ss_head s + 1) mod 10\<rparr>,
      store[ss_head s := saved_frame_default\<lparr>sf_frame := frame\<rparr>])"
  using assms by (simp add: saved_state_push_def ring_of_def cell_reset_def)

lemma mod_next_push: "(m :: nat) < hi \<Longrightarrow> hi < m + 10 \<Longrightarrow> m mod 10 \<noteq> hi mod 10"
  using mod_ring_inj[of m 10 hi] by auto

lemma tags_at_push:
  assumes "tags_at d lo hi store" and "hi < lo + 10" and "f = int (hi - d)"
  shows "tags_at d lo (Suc hi) (store[hi mod 10 := saved_frame_default\<lparr>sf_frame := f\<rparr>])"
proof -
  have ne: "m mod 10 \<noteq> hi mod 10" if "lo \<le> m" "m < hi" for m
    using that assms(2) by (intro mod_next_push) auto
  show ?thesis
    using assms ne ne[symmetric] by (auto simp: tags_at_def less_Suc_eq nth_list_update)
qed

lemma unused_mono: "unused u store \<Longrightarrow> u \<le> u' \<Longrightarrow> unused u' store"
  by (auto simp: unused_def)

lemma unused_push:
  "unused hi store \<Longrightarrow> m < hi \<Longrightarrow> length store = 10 \<Longrightarrow> unused hi (store[m mod 10 := x])"
  using mod_less_eq_dividend[of m 10] by (fastforce simp: unused_def nth_list_update)

section \<open>Replaying commands\<close>

text \<open>
  The commands are executed after all of them are made, so a push between a \<open>Load\<close> and its
  execution may destroy the state to load. \<open>loads\<close> are the cells a command list reads.
\<close>

definition loads :: "'i command list \<Rightarrow> saved_cell set" where
  "loads cs = {c. Load c \<in> set cs}"

lemma loads_simps [simp]:
  "loads [] = {}" "loads (cs @ ds) = loads cs \<union> loads ds" "loads (Save c f # cs) = loads cs"
  "loads (AdvanceFrame inp # cs) = loads cs" "loads (Event e # cs) = loads cs"
  "loads (Load c # cs) = insert c (loads cs)"
  by (auto simp: loads_def)

definition same_but :: "saved_cell \<Rightarrow> frame \<Rightarrow> 'g store \<Rightarrow> 'g store \<Rightarrow> bool" where
  "same_but c f s1 s2 \<longleftrightarrow> length s1 = length s2 \<and> c < length s1 \<and> sf_frame (s2 ! c) = f \<and>
     (\<forall>j. j \<noteq> c \<longrightarrow> s1 ! j = s2 ! j)"

lemma save_state_Some:
  "save_state cell frame g k store = Some store' \<longleftrightarrow>
     cell < length store \<and> \<not> is_null (sf_frame (store ! cell)) \<and>
     store' = store[cell := (store ! cell)\<lparr>sf_data := Some g, sf_checksum := k\<rparr>]"
  by (auto simp: save_state_def cell_save_def cell_is_valid_def bind_eq_Some_conv checked_simps)

lemma execute_Save_Some:
  "execute step hash (Save cell frame) (g, store) = Some r \<longleftrightarrow>
     cell < length store \<and> \<not> is_null (sf_frame (store ! cell)) \<and>
     r = (g, store[cell := (store ! cell)\<lparr>sf_data := Some g, sf_checksum := hash g\<rparr>])"
  by (cases "hash g") (auto simp: bind_eq_Some_conv save_without_hash_def save_with_hash_def
      save_state_Some)

lemma execute_same_but:
  assumes "execute step hash cmd (g, s1) = Some (g', s1')" and "same_but c f s1 s2"
    and "0 \<le> f" and "cmd \<noteq> Load c"
  obtains s2' where "execute step hash cmd (g, s2) = Some (g', s2')" and "same_but c f s1' s2'"
proof (cases cmd)
  case (Save cell frame)
  let ?new = "\<lambda>s. s[cell := (s ! cell)\<lparr>sf_data := Some g, sf_checksum := hash g\<rparr>]"
  have s1: "cell < length s1" "\<not> is_null (sf_frame (s1 ! cell))" "g' = g" "s1' = ?new s1"
    using assms(1) unfolding Save execute_Save_Some by auto
  have "execute step hash cmd (g, s2) = Some (g', ?new s2)"
    using s1 assms(2,3) unfolding Save execute_Save_Some same_but_def is_null_def
    by (cases "cell = c") auto
  moreover have "same_but c f s1' (?new s2)"
    using s1 assms(2) by (auto simp: same_but_def nth_list_update)
  ultimately show ?thesis by (rule that)
next
  case (Load cell)
  then show ?thesis
    using assms by (intro that[of s2]) (auto simp: cell_load_def same_but_def bind_eq_Some_conv index_at_Some)
qed (use assms that in auto)

lemma execute_all_same_but:
  "execute_all step hash cs (g, s1) = Some (g', s1') \<Longrightarrow> same_but c f s1 s2 \<Longrightarrow> 0 \<le> f \<Longrightarrow>
     c \<notin> loads cs \<Longrightarrow>
     \<exists>s2'. execute_all step hash cs (g, s2) = Some (g', s2') \<and> same_but c f s1' s2'"
proof (induction cs arbitrary: g s1 s2)
  case Nil
  then show ?case by auto
next
  case (Cons cmd cs)
  then obtain g1 s3 where e: "execute step hash cmd (g, s1) = Some (g1, s3)"
    "execute_all step hash cs (g1, s3) = Some (g', s1')"
    by (auto simp: bind_eq_Some_conv)
  have "cmd \<noteq> Load c" "c \<notin> loads cs" using Cons.prems(4) by (auto simp: loads_def)
  moreover obtain s4 where "execute step hash cmd (g, s2) = Some (g1, s4)" "same_but c f s3 s4"
    using execute_same_but[OF e(1) Cons.prems(2,3)] calculation(1) by blast
  ultimately show ?case using Cons.IH[OF e(2) _ Cons.prems(3)] by auto
qed

text \<open>
  \<open>replays\<close>: executing the commands made so far turns the client's state \<open>g\<close> into the state after
  the inputs \<open>sim\<close>, and leaves the states of the frames before in the cells of the pushes
  \<open>lo ..< hi\<close>. \<open>g0\<close> is the state before frame 0.
\<close>

definition replays :: "('g \<Rightarrow> 'i game_input \<Rightarrow> 'g) \<Rightarrow> ('g \<Rightarrow> nat option) \<Rightarrow> 'g \<Rightarrow> 'g \<Rightarrow> 'g store \<Rightarrow>
    'i command list \<Rightarrow> nat \<Rightarrow> nat \<Rightarrow> nat \<Rightarrow> 'i game_input list \<Rightarrow> bool" where
  "replays step hash g0 g store cs d lo hi sim \<longleftrightarrow>
     (\<exists>store'. execute_all step hash cs (g, store) = Some (foldl step g0 sim, store') \<and>
        states_at d lo hi (\<lambda>n. foldl step g0 (take n sim)) store')"

lemma states_at_mono:
  "states_at d lo hi st store \<Longrightarrow> lo \<le> lo' \<Longrightarrow> hi' \<le> hi \<Longrightarrow> states_at d lo' hi' st store"
  by (auto simp: states_at_def)

lemma replays_mono:
  "replays step hash g0 g store cs d lo hi sim \<Longrightarrow> lo \<le> lo' \<Longrightarrow> hi' \<le> hi \<Longrightarrow>
     replays step hash g0 g store cs d lo' hi' sim"
  by (auto simp: replays_def intro: states_at_mono)

text \<open>The second save of frame 0 shifts the ring by one push.\<close>

lemma replays_shift:
  "replays step hash g0 g store cs d 0 (Suc 0) sim \<Longrightarrow>
     replays step hash g0 g store cs d' 0 (Suc 0) sim"
  by (auto simp: replays_def states_at_def)

lemma replays_start: "length store = 10 \<Longrightarrow> replays step hash g0 g0 store [] d 0 0 []"
  by (simp add: replays_def states_at_def)

lemma replays_advance:
  assumes "replays step hash g0 g store cs d lo hi sim" and "hi \<le> Suc (length sim + d)"
  shows "replays step hash g0 g store (cs @ [AdvanceFrame inp]) d lo hi (sim @ [inp])"
proof -
  have "foldl step g0 (take (m - d) (sim @ [inp])) = foldl step g0 (take (m - d) sim)" if "m < hi" for m
    using that assms(2) by simp
  then show ?thesis
    using assms(1) by (auto simp: replays_def states_at_def execute_all_append simp del: take_append)
qed

lemma replays_load:
  assumes "replays step hash g0 g store cs d lo hi sim" and m: "lo \<le> m" "m < hi"
  shows "replays step hash g0 g store (cs @ [Load (m mod 10)]) d lo (Suc m) (take (m - d) sim)"
proof -
  have "foldl step g0 (take (k - d) (take (m - d) sim)) = foldl step g0 (take (k - d) sim)"
    if "k < Suc m" for k
    using that by (simp add: min_absorb1 diff_le_mono)
  then show ?thesis
    using assms by (auto simp: replays_def states_at_def execute_all_append cell_load_def)
qed

text \<open>
  A push and its \<open>Save\<close>: the cell must not be one that a command already made will load.
\<close>

lemma replays_save:
  assumes rep: "replays step hash g0 g store cs d lo hi sim"
    and room: "hi < lo + 10" and len: "hi - d = length sim"
    and c: "hi mod 10 \<notin> loads cs" and f: "0 \<le> f" and st: "length store = 10"
  shows "replays step hash g0 g (store[hi mod 10 := saved_frame_default\<lparr>sf_frame := f\<rparr>])
    (cs @ [Save (hi mod 10) f]) d lo (Suc hi) sim"
proof -
  let ?c = "hi mod 10"
  let ?store = "store[?c := saved_frame_default\<lparr>sf_frame := f\<rparr>]"
  obtain s1 where s1: "execute_all step hash cs (g, store) = Some (foldl step g0 sim, s1)"
    "states_at d lo hi (\<lambda>n. foldl step g0 (take n sim)) s1"
    using rep by (auto simp: replays_def)
  have "same_but ?c f store ?store" using st by (simp add: same_but_def saved_frame_default_def)
  from execute_all_same_but[OF s1(1) this f c]
  obtain s2 where s2: "execute_all step hash cs (g, ?store) = Some (foldl step g0 sim, s2)"
    "same_but ?c f s1 s2" by blast
  let ?s3 = "s2[?c := (s2 ! ?c)\<lparr>sf_data := Some (foldl step g0 sim), sf_checksum := hash (foldl step g0 sim)\<rparr>]"
  have c2: "?c < length s2" "sf_frame (s2 ! ?c) = f" using s2(2) by (auto simp: same_but_def)
  have ne: "m mod 10 \<noteq> ?c" if "lo \<le> m" "m < hi" for m
    using that room by (intro mod_next_push) auto
  have "execute_all step hash (cs @ [Save ?c f]) (g, ?store) = Some (foldl step g0 sim, ?s3)"
    using s2(1) c2 f by (simp add: execute_all_append execute_save is_null_def del: execute.simps)
  moreover have "states_at d lo (Suc hi) (\<lambda>n. foldl step g0 (take n sim)) ?s3"
    unfolding states_at_def
  proof (intro conjI allI impI)
    show "length ?s3 = 10" using s1(2) s2(2) by (simp add: states_at_def same_but_def)
    fix m assume m: "lo \<le> m \<and> m < Suc hi"
    show "sf_data (?s3 ! (m mod 10)) = Some (foldl step g0 (take (m - d) sim))"
    proof (cases "m = hi")
      case True
      then show ?thesis using c2 len by simp
    next
      case False
      with m have "m mod 10 \<noteq> ?c" using ne[of m] by auto
      then show ?thesis
        using m False s1(2) s2(2) by (auto simp: states_at_def same_but_def less_Suc_eq)
    qed
  qed
  ultimately show ?thesis by (auto simp: replays_def)
qed

text \<open>Executing commands does not touch the tags.\<close>

definition same_tags :: "'g store \<Rightarrow> 'g store \<Rightarrow> bool" where
  "same_tags s1 s2 \<longleftrightarrow> length s1 = length s2 \<and> (\<forall>j < length s1. sf_frame (s1 ! j) = sf_frame (s2 ! j))"

lemma execute_same_tags:
  "execute step hash cmd (g, s1) = Some (g', s2) \<Longrightarrow> same_tags s1 s2"
proof (cases cmd)
  case (Save cell frame)
  assume e: "execute step hash cmd (g, s1) = Some (g', s2)"
  then show ?thesis
    unfolding Save execute_Save_Some by (auto simp: same_tags_def nth_list_update)
qed (auto simp: same_tags_def bind_eq_Some_conv)

lemma execute_all_same_tags:
  "execute_all step hash cs (g, s1) = Some (g', s2) \<Longrightarrow> same_tags s1 s2"
proof (induction cs arbitrary: g s1)
  case (Cons c cs)
  then obtain g1 s3 where e: "execute step hash c (g, s1) = Some (g1, s3)"
    "execute_all step hash cs (g1, s3) = Some (g', s2)"
    by (auto simp: bind_eq_Some_conv)
  show ?case
    using execute_same_tags[OF e(1)] Cons.IH[OF e(2)] by (simp add: same_tags_def)
qed (simp add: same_tags_def)

lemma same_tags_window:
  "same_tags s1 s2 \<Longrightarrow> tags_at d lo hi s1 \<Longrightarrow> tags_at d lo hi s2"
  "same_tags s1 s2 \<Longrightarrow> length s1 = 10 \<Longrightarrow> unused u s1 \<Longrightarrow> unused u s2"
  by (auto simp: same_tags_def tags_at_def unused_def)

end
