(* ===== verification/Sync.thy ===== *)
theory Sync
  imports Input_Queue Saved_State
begin

text \<open>
  \<open>Sync\<close> of \<^verbatim>\<open>backroll/src/sync.rs\<close>: it owns the input queues and the ring of saved states, makes the
  commands that advance the game, and rolls the game back when an input was predicted wrongly.
  The connection statuses are shared with the session and are an argument. An operation that makes
  commands takes and returns the list made so far, and the store of the saved cells.
\<close>

record 'i sync =
  sy_saved_state :: saved_state
  sy_input_queues :: "'i input_queue list"
  sy_player_count :: nat
  sy_frame_delay :: frame
  sy_rolling_back :: bool
  sy_last_confirmed_frame :: frame
  sy_frame_count :: frame

type_synonym ('i, 'g) sync_run = "'i command list \<times> 'i sync \<times> 'g store"

definition create_queues :: "'i \<Rightarrow> nat \<Rightarrow> frame \<Rightarrow> 'i input_queue list" where
  "create_queues z player_count frame_delay =
     map (\<lambda>_. queue_new z frame_delay) [0 ..< player_count]"

definition sync_new :: "'i \<Rightarrow> nat \<Rightarrow> frame \<Rightarrow> 'i sync" where
  "sync_new z player_count frame_delay =
     \<lparr>sy_saved_state = saved_state_default,
      sy_input_queues = create_queues z player_count frame_delay,
      sy_player_count = player_count, sy_frame_delay = frame_delay,
      sy_rolling_back = False, sy_last_confirmed_frame = NULL_FRAME, sy_frame_count = 0\<rparr>"

definition set_last_confirmed_frame :: "frame \<Rightarrow> 'i sync \<Rightarrow> 'i sync option" where
  "set_last_confirmed_frame frame sy =
     (let sy = sy\<lparr>sy_last_confirmed_frame := frame\<rparr> in
      if frame > 0 then
        do { queues \<leftarrow> traverse (discard_confirmed_frames (frame - 1)) (sy_input_queues sy);
             Some (sy\<lparr>sy_input_queues := queues\<rparr>) }
      else Some sy)"

definition sync_set_frame_delay :: "nat \<Rightarrow> frame \<Rightarrow> 'i sync \<Rightarrow> 'i sync option" where
  "sync_set_frame_delay queue delay sy =
     do { q \<leftarrow> index_at (sy_input_queues sy) queue;
          q \<leftarrow> queue_set_frame_delay delay q;
          Some (sy\<lparr>sy_input_queues := (sy_input_queues sy)[queue := q]\<rparr>) }"

definition is_disconnected :: "connection_status list \<Rightarrow> frame \<Rightarrow> nat \<Rightarrow> bool option" where
  "is_disconnected statuses frame_count player =
     do { status \<leftarrow> index_at statuses player;
          Some (cs_disconnected status \<and> cs_last_frame status < frame_count) }"

text \<open>The loop of \<open>synchronize_inputs\<close>; \<open>1 << idx\<close> on a byte overflows from 8 on.\<close>

fun synchronize_loop :: "'i \<Rightarrow> connection_status list \<Rightarrow> frame \<Rightarrow> nat list \<Rightarrow>
    'i game_input \<Rightarrow> 'i input_queue list \<Rightarrow> ('i game_input \<times> 'i input_queue list) option" where
  "synchronize_loop z statuses frame_count [] output queues = Some (output, queues)"
| "synchronize_loop z statuses frame_count (idx # idxs) output queues =
     do { off \<leftarrow> is_disconnected statuses frame_count idx;
          (if off then
             do { debug_assert (idx < 8);
                  synchronize_loop z statuses frame_count idxs
                    (output\<lparr>gi_disconnected := gi_disconnected output OR push_bit idx 1\<rparr>) queues }
           else
             do { q \<leftarrow> index_at queues idx;
                  r \<leftarrow> get_input z frame_count q;
                  inputs \<leftarrow> store_at (gi_inputs output) idx (fi_input (fetched_unwrap (fst r)));
                  synchronize_loop z statuses frame_count idxs
                    (output\<lparr>gi_inputs := inputs\<rparr>) (queues[idx := snd r]) }) }"

definition synchronize_inputs ::
    "'i \<Rightarrow> connection_status list \<Rightarrow> 'i sync \<Rightarrow> ('i game_input \<times> 'i sync) option" where
  "synchronize_inputs z statuses sy =
     do { r \<leftarrow> synchronize_loop z statuses (sy_frame_count sy) [0 ..< sy_player_count sy]
            ((game_input_default z)\<lparr>gi_frame := sy_frame_count sy\<rparr>) (sy_input_queues sy);
          Some (fst r, sy\<lparr>sy_input_queues := snd r\<rparr>) }"

fun save_current_frame :: "('i, 'g) sync_run \<Rightarrow> ('i, 'g) sync_run option" where
  "save_current_frame (commands, sy, store) =
     do { r \<leftarrow> saved_state_push (sy_frame_count sy) (sy_saved_state sy) store;
          let cell = fst r;
          Some (commands @ [Save cell (sy_frame_count sy)],
                sy\<lparr>sy_saved_state := fst (snd r)\<rparr>, snd (snd r)) }"

fun increment_frame ::
    "'i \<Rightarrow> connection_status list \<Rightarrow> ('i, 'g) sync_run \<Rightarrow> ('i, 'g) sync_run option" where
  "increment_frame z statuses (commands, sy, store) =
     do { r \<leftarrow> (if sy_frame_count sy = 0 then save_current_frame (commands, sy, store)
                else Some (commands, sy, store));
          let commands = fst r;
          let store = snd (snd r);
          s \<leftarrow> synchronize_inputs z statuses (fst (snd r));
          let commands = commands @ [AdvanceFrame (fst s)];
          f \<leftarrow> i32_add (sy_frame_count (snd s)) 1;
          save_current_frame (commands, (snd s)\<lparr>sy_frame_count := f\<rparr>, store) }"

definition sync_add_local_input ::
    "nat \<Rightarrow> 'i \<Rightarrow> 'i sync \<Rightarrow> ((backroll_error + frame) \<times> 'i sync) option" where
  "sync_add_local_input queue input sy =
     do { frames_behind \<leftarrow> i32_sub (sy_frame_count sy) (sy_last_confirmed_frame sy);
          (if sy_frame_count sy \<ge> int MAX_PREDICTION_FRAMES
              \<and> frames_behind \<ge> int MAX_PREDICTION_FRAMES
           then Some (Inl ReachedPredictionBarrier, sy)
           else
             do { q \<leftarrow> index_at (sy_input_queues sy) queue;
                  r \<leftarrow> add_input \<lparr>fi_frame = sy_frame_count sy, fi_input = input\<rparr> q;
                  Some (Inr (sy_frame_count sy),
                        sy\<lparr>sy_input_queues := (sy_input_queues sy)[queue := snd r]\<rparr>) }) }"

definition add_remote_input :: "nat \<Rightarrow> 'i frame_input \<Rightarrow> 'i sync \<Rightarrow> 'i sync option" where
  "add_remote_input queue input sy =
     do { q \<leftarrow> index_at (sy_input_queues sy) queue;
          r \<leftarrow> add_input input q;
          Some (sy\<lparr>sy_input_queues := (sy_input_queues sy)[queue := snd r]\<rparr>) }"

fun load_frame :: "frame \<Rightarrow> ('i, 'g) sync_run \<Rightarrow> ('i, 'g) sync_run option" where
  "load_frame frame (commands, sy, store) =
     (if frame = sy_frame_count sy then Some (commands, sy, store)
      else
        do { r \<leftarrow> saved_state_reset_to frame (sy_saved_state sy) store;
             let cell = fst r;
             f \<leftarrow> index_at store cell;
             let s = snd r;
             head \<leftarrow> usize_add (ss_head s) 1;
             Some (commands @ [Load cell],
                   sy\<lparr>sy_frame_count := sf_frame f,
                      sy_saved_state := s\<lparr>ss_head := head mod length (ss_frames s)\<rparr>\<rparr>, store) })"

definition reset_prediction :: "frame \<Rightarrow> 'i sync \<Rightarrow> 'i sync option" where
  "reset_prediction frame sy =
     do { queues \<leftarrow> traverse (queue_reset_prediction frame) (sy_input_queues sy);
          Some (sy\<lparr>sy_input_queues := queues\<rparr>) }"

text \<open>\<open>for _ in 0..count { self.increment_frame(commands) }\<close>\<close>

primrec increment_frames ::
    "nat \<Rightarrow> 'i \<Rightarrow> connection_status list \<Rightarrow> ('i, 'g) sync_run \<Rightarrow> ('i, 'g) sync_run option" where
  "increment_frames 0 z statuses run = Some run"
| "increment_frames (Suc n) z statuses run =
     do { run \<leftarrow> increment_frame z statuses run; increment_frames n z statuses run }"

fun adjust_simulation ::
    "'i \<Rightarrow> connection_status list \<Rightarrow> frame \<Rightarrow> ('i, 'g) sync_run \<Rightarrow> ('i, 'g) sync_run option" where
  "adjust_simulation z statuses seek_to (commands, sy, store) =
     do { let frame_count = sy_frame_count sy;
          count \<leftarrow> i32_sub (sy_frame_count sy) seek_to;
          r \<leftarrow> load_frame seek_to (commands, sy\<lparr>sy_rolling_back := True\<rparr>, store);
          debug_assert (sy_frame_count (fst (snd r)) = seek_to);
          s \<leftarrow> reset_prediction (sy_frame_count (fst (snd r))) (fst (snd r));
          t \<leftarrow> increment_frames (nat count) z statuses (fst r, s, snd (snd r));
          debug_assert (sy_frame_count (fst (snd t)) = frame_count);
          Some (fst t, (fst (snd t))\<lparr>sy_rolling_back := False\<rparr>, snd (snd t)) }"

definition check_simulation_consistency :: "'i sync \<Rightarrow> frame option" where
  "check_simulation_consistency sy =
     (case filter (\<lambda>frame. \<not> is_null frame) (map iq_first_incorrect_frame (sy_input_queues sy)) of
        [] \<Rightarrow> None
      | f # fs \<Rightarrow> Some (foldl min f fs))"

fun check_simulation ::
    "'i \<Rightarrow> connection_status list \<Rightarrow> ('i, 'g) sync_run \<Rightarrow> ('i, 'g) sync_run option" where
  "check_simulation z statuses (commands, sy, store) =
     (case check_simulation_consistency sy of
        None \<Rightarrow> Some (commands, sy, store)
      | Some seek_to \<Rightarrow> adjust_simulation z statuses seek_to (commands, sy, store))"

declare load_frame.simps [simp del] adjust_simulation.simps [simp del] check_simulation.simps [simp del]

section \<open>The inputs of one frame\<close>

text \<open>
  \<open>off\<close>: player \<open>p\<close> no longer takes part in frame \<open>f\<close>; \<open>asked\<close>: how many of the first \<open>f\<close> frames
  its queue is asked for. \<open>frame_inputs\<close> is what the session should give the game for frame \<open>f\<close>
  when the inputs \<open>h p\<close> of player \<open>p\<close> are known: the known input or the newest one, and the zero
  input and a mark in the mask for a player who is off.
\<close>

definition off :: "connection_status list \<Rightarrow> nat \<Rightarrow> nat \<Rightarrow> bool" where
  "off sts p f \<longleftrightarrow> cs_disconnected (sts ! p) \<and> cs_last_frame (sts ! p) < int f"

definition asked :: "connection_status list \<Rightarrow> nat \<Rightarrow> nat \<Rightarrow> nat" where
  "asked sts p f =
     (if cs_disconnected (sts ! p) then min f (nat (cs_last_frame (sts ! p) + 1)) else f)"

lemma asked_step:
  "off sts p f \<Longrightarrow> asked sts p (Suc f) = asked sts p f"
  "\<not> off sts p f \<Longrightarrow> asked sts p f = f"
  "\<not> off sts p f \<Longrightarrow> asked sts p (Suc f) = Suc f"
  by (auto simp: off_def asked_def)

lemma asked_0 [simp]: "asked sts p 0 = 0"
  by (simp add: asked_def)

lemma asked_le: "seek \<le> f \<Longrightarrow> min (asked sts p f) (asked sts p seek) = asked sts p seek"
  by (auto simp: asked_def)

primrec off_mask :: "(nat \<Rightarrow> bool) \<Rightarrow> nat \<Rightarrow> u8" where
  "off_mask P 0 = 0"
| "off_mask P (Suc n) = (if P n then off_mask P n OR push_bit n 1 else off_mask P n)"

lemma bit_off_mask: "n \<le> 8 \<Longrightarrow> bit (off_mask P n) p \<longleftrightarrow> p < n \<and> P p"
proof (induction n)
  case (Suc n)
  then show ?case
    by (auto simp: bit_or_iff push_bit_eq_mult bit_exp_iff possible_bit_def less_Suc_eq)
qed simp

definition frame_inputs ::
    "'i \<Rightarrow> nat \<Rightarrow> connection_status list \<Rightarrow> (nat \<Rightarrow> 'i list) \<Rightarrow> nat \<Rightarrow> 'i game_input" where
  "frame_inputs z n sts h f =
     \<lparr>gi_frame = int f, gi_disconnected = off_mask (\<lambda>p. off sts p f) n,
      gi_inputs = map (\<lambda>p. if p < n \<and> \<not> off sts p f then input_for z (h p) f else z) [0 ..< MAX_PLAYERS]\<rparr>"

definition partial_inputs ::
    "'i \<Rightarrow> connection_status list \<Rightarrow> nat \<Rightarrow> (nat \<Rightarrow> 'i) \<Rightarrow> nat \<Rightarrow> 'i game_input" where
  "partial_inputs z sts f x k =
     \<lparr>gi_frame = int f, gi_disconnected = off_mask (\<lambda>p. off sts p f) k,
      gi_inputs = map (\<lambda>p. if p < k \<and> \<not> off sts p f then x p else z) [0 ..< MAX_PLAYERS]\<rparr>"

lemma synchronize_loop_spec:
  assumes n: "n \<le> MAX_PLAYERS" "n \<le> length sts" "length qs = n" "length qs' = n"
    and steps: "\<And>p. p < n \<Longrightarrow> off sts p f \<Longrightarrow> qs' ! p = qs ! p"
      "\<And>p. p < n \<Longrightarrow> \<not> off sts p f \<Longrightarrow> \<exists>r. get_input z (int f) (qs ! p) = Some (r, qs' ! p)
        \<and> fi_input (fetched_unwrap r) = x p"
    and k: "k \<le> n"
  shows "synchronize_loop z sts (int f) [k ..< n] (partial_inputs z sts f x k)
      (take k qs' @ drop k qs) = Some (partial_inputs z sts f x n, qs')"
  using k
proof (induction rule: inc_induct)
  case base
  then show ?case using n by simp
next
  case (step k)
  let ?qs = "take k qs' @ drop k qs"
  have upd: "?qs[k := qs' ! k] = take (Suc k) qs' @ drop (Suc k) qs"
    using step(2) n by (simp add: list_update_append take_Suc_conv_app_nth Cons_nth_drop_Suc[symmetric])
  have at: "index_at ?qs k = Some (qs ! k)" using step(2) n by (simp add: nth_append)
  have dis: "is_disconnected sts (int f) k = Some (off sts k f)"
    using step(2) n by (simp add: is_disconnected_def off_def)
  show ?case
  proof (cases "off sts k f")
    case True
    then have "?qs = take (Suc k) qs' @ drop (Suc k) qs"
      using upd steps(1)[OF step(2)] list_update_id[of ?qs k] step(2) n by (simp add: nth_append)
    moreover have "(partial_inputs z sts f x k)\<lparr>gi_disconnected :=
        gi_disconnected (partial_inputs z sts f x k) OR push_bit k 1\<rparr> = partial_inputs z sts f x (Suc k)"
      using True by (auto simp: partial_inputs_def less_Suc_eq)
    ultimately show ?thesis
      using step n True dis by (simp add: upt_conv_Cons MAX_PLAYERS_def)
  next
    case False
    obtain r where r: "get_input z (int f) (qs ! k) = Some (r, qs' ! k)"
      "fi_input (fetched_unwrap r) = x k"
      using steps(2)[OF step(2) False] by blast
    have "(partial_inputs z sts f x k)\<lparr>gi_inputs :=
        (gi_inputs (partial_inputs z sts f x k))[k := x k]\<rparr> = partial_inputs z sts f x (Suc k)"
      using False step(2) n(1)
      by (auto simp: partial_inputs_def intro!: nth_equalityI simp: nth_list_update less_Suc_eq)
    moreover have "store_at (gi_inputs (partial_inputs z sts f x k)) k (x k) =
        Some ((gi_inputs (partial_inputs z sts f x k))[k := x k])"
      using step(2) n(1) by (simp add: partial_inputs_def)
    ultimately show ?thesis
      using step False dis at r upd by (simp add: upt_conv_Cons)
  qed
qed

text \<open>The state of one player's queue from which frame \<open>f\<close> can be simulated.\<close>

definition player_ready ::
    "'i \<Rightarrow> connection_status list \<Rightarrow> nat \<Rightarrow> nat \<Rightarrow> 'i list \<Rightarrow> 'i list \<Rightarrow> 'i input_queue \<Rightarrow> bool" where
  "player_ready z sts p f h used q \<longleftrightarrow> askable z h used q \<and> length used = asked sts p f \<and>
     (\<not> off sts p f \<longrightarrow> oldest h q \<le> f) \<and> int (length h) < i32_MAX"

definition next_used :: "'i \<Rightarrow> connection_status list \<Rightarrow> nat \<Rightarrow> nat \<Rightarrow> 'i list \<Rightarrow> 'i list \<Rightarrow> 'i list" where
  "next_used z sts p f h used = (if off sts p f then used else used @ [input_for z h f])"

text \<open>What simulating frames leaves alone in a queue.\<close>

definition same_inputs :: "'i input_queue \<Rightarrow> 'i input_queue \<Rightarrow> bool" where
  "same_inputs q q' \<longleftrightarrow> iq_length q' = iq_length q \<and>
     iq_last_user_added_frame q' = iq_last_user_added_frame q \<and> iq_frame_delay q' = iq_frame_delay q"

lemma same_inputs_refl [simp]: "same_inputs q q"
  by (simp add: same_inputs_def)

lemma same_inputs_trans: "same_inputs p q \<Longrightarrow> same_inputs q r \<Longrightarrow> same_inputs p r"
  by (simp add: same_inputs_def)

lemma player_step:
  assumes rd: "player_ready z sts p f h used q" and f: "int f < i32_MAX"
  shows "\<exists>q'. (if off sts p f then q' = q else
      \<exists>r. get_input z (int f) q = Some (r, q') \<and> fi_input (fetched_unwrap r) = input_for z h f) \<and>
    player_ready z sts p (Suc f) h (next_used z sts p f h used) q' \<and> same_inputs q q' \<and>
    (\<not> off sts p f \<longrightarrow> tracks z h (next_used z sts p f h used) q')"
proof (cases "off sts p f")
  case True
  then have "off sts p (Suc f)" by (simp add: off_def)
  with True rd show ?thesis by (simp add: player_ready_def next_used_def asked_step)
next
  case False
  have ask: "askable z h used q" and len: "length used = f" and old: "oldest h q \<le> length used"
    and h: "int (length h) < i32_MAX"
    using rd False by (auto simp: player_ready_def asked_step)
  obtain r q' where g: "get_input z (int (length used)) q = Some (r, q')"
    "fetched_unwrap r = \<lparr>fi_frame = int (length used), fi_input = input_for z h (length used)\<rparr>"
    "tracks z h (used @ [input_for z h (length used)]) q'"
    "iq_length q' = iq_length q" "iq_first_incorrect_frame q' = iq_first_incorrect_frame q"
    "iq_last_user_added_frame q' = iq_last_user_added_frame q" "iq_frame_delay q' = iq_frame_delay q"
    by (rule get_input_tracks[OF ask old]) (use h f len in auto)
  have "askable z h (used @ [input_for z h f]) q'"
    using tracks_askable[OF g(3)] g(5) ask len by (simp add: askable_def)
  then show ?thesis
    using g h False old len
    by (auto simp: player_ready_def next_used_def asked_step oldest_def same_inputs_def)
qed

lemma synchronize_inputs_spec:
  assumes n: "sy_player_count sy = n" "n \<le> MAX_PLAYERS" "n \<le> length sts"
      "length (sy_input_queues sy) = n"
    and f: "sy_frame_count sy = int f" "int f < i32_MAX"
    and rd: "\<And>p. p < n \<Longrightarrow> player_ready z sts p f (h p) (used p) (sy_input_queues sy ! p)"
  obtains qs' where "synchronize_inputs z sts sy =
      Some (frame_inputs z n sts h f, sy\<lparr>sy_input_queues := qs'\<rparr>)" and "length qs' = n"
    and "\<And>p. p < n \<Longrightarrow> player_ready z sts p (Suc f) (h p) (next_used z sts p f (h p) (used p)) (qs' ! p)
      \<and> same_inputs (sy_input_queues sy ! p) (qs' ! p)
      \<and> (\<not> off sts p f \<longrightarrow> tracks z (h p) (next_used z sts p f (h p) (used p)) (qs' ! p))"
proof -
  let ?qs = "sy_input_queues sy"
  define P where "P p q' \<longleftrightarrow> (if off sts p f then q' = ?qs ! p else
      \<exists>r. get_input z (int f) (?qs ! p) = Some (r, q') \<and>
        fi_input (fetched_unwrap r) = input_for z (h p) f) \<and>
    player_ready z sts p (Suc f) (h p) (next_used z sts p f (h p) (used p)) q' \<and>
    same_inputs (?qs ! p) q' \<and> (\<not> off sts p f \<longrightarrow> tracks z (h p) (next_used z sts p f (h p) (used p)) q')"
    for p q'
  have "\<exists>q'. P p q'" if "p < n" for p
    unfolding P_def by (rule player_step[OF rd[OF that] f(2)])
  then have "\<forall>p. \<exists>q'. p < n \<longrightarrow> P p q'" by blast
  from choice[OF this] obtain g where "\<forall>p. p < n \<longrightarrow> P p (g p)" ..
  then have q': "\<And>p. p < n \<Longrightarrow> P p (g p)" by blast
  let ?qs' = "map g [0 ..< n]"
  have nth: "?qs' ! p = g p" if "p < n" for p using that by simp
  have "synchronize_loop z sts (int f) [0 ..< n]
      (partial_inputs z sts f (\<lambda>p. input_for z (h p) f) 0) (take 0 ?qs' @ drop 0 ?qs)
    = Some (partial_inputs z sts f (\<lambda>p. input_for z (h p) f) n, ?qs')"
  proof (rule synchronize_loop_spec[OF n(2,3,4)])
    show "length ?qs' = n" by simp
    show "?qs' ! p = ?qs ! p" if "p < n" "off sts p f" for p
      using q'[OF that(1)] that(2) nth[OF that(1)] by (simp add: P_def)
    show "\<exists>r. get_input z (int f) (?qs ! p) = Some (r, ?qs' ! p) \<and>
        fi_input (fetched_unwrap r) = input_for z (h p) f" if "p < n" "\<not> off sts p f" for p
      using q'[OF that(1)] that(2) nth[OF that(1)] by (simp add: P_def)
  qed simp
  moreover have "(game_input_default z)\<lparr>gi_frame := int f\<rparr> =
      partial_inputs z sts f (\<lambda>p. input_for z (h p) f) 0"
    by (simp add: game_input_default_def partial_inputs_def MAX_PLAYERS_def map_replicate_const)
  moreover have "partial_inputs z sts f (\<lambda>p. input_for z (h p) f) n = frame_inputs z n sts h f"
    by (simp add: partial_inputs_def frame_inputs_def)
  ultimately have "synchronize_inputs z sts sy =
      Some (frame_inputs z n sts h f, sy\<lparr>sy_input_queues := ?qs'\<rparr>)"
    using n f by (simp add: synchronize_inputs_def)
  moreover have "player_ready z sts p (Suc f) (h p) (next_used z sts p f (h p) (used p)) (?qs' ! p)
      \<and> same_inputs (?qs ! p) (?qs' ! p)
      \<and> (\<not> off sts p f \<longrightarrow> tracks z (h p) (next_used z sts p f (h p) (used p)) (?qs' ! p))"
    if "p < n" for p
    using q'[OF that] nth[OF that] unfolding P_def by simp
  ultimately show ?thesis by (intro that[of ?qs']) simp_all
qed

section \<open>The simulation\<close>

text \<open>
  The game: the zeroed input, one step, the checksum the client computes, and the state before
  frame 0. With the inputs \<open>h p\<close> of every player known, \<open>good_sim\<close> is the list of inputs the game
  should have been advanced with, and \<open>good_used\<close> the part of one player.
\<close>

record ('i, 'g) game =
  gm_zero :: 'i
  gm_step :: "'g \<Rightarrow> 'i game_input \<Rightarrow> 'g"
  gm_hash :: "'g \<Rightarrow> nat option"
  gm_start :: 'g

definition good_used :: "'i \<Rightarrow> connection_status list \<Rightarrow> (nat \<Rightarrow> 'i list) \<Rightarrow> nat \<Rightarrow> nat \<Rightarrow> 'i list" where
  "good_used z sts h f p = map (input_for z (h p)) [0 ..< asked sts p f]"

definition good_sim ::
    "'i \<Rightarrow> nat \<Rightarrow> connection_status list \<Rightarrow> (nat \<Rightarrow> 'i list) \<Rightarrow> nat \<Rightarrow> 'i game_input list" where
  "good_sim z n sts h f = map (frame_inputs z n sts h) [0 ..< f]"

lemma next_used_good:
  "next_used z sts p f (h p) (good_used z sts h f p) = good_used z sts h (Suc f) p"
  by (cases "off sts p f") (simp_all add: next_used_def good_used_def asked_step)

lemma good_sim_simps [simp]:
  "good_sim z n sts h 0 = []"
  "good_sim z n sts h (Suc f) = good_sim z n sts h f @ [frame_inputs z n sts h f]"
  "length (good_sim z n sts h f) = f"
  by (simp_all add: good_sim_def)

lemma take_good_sim: "k \<le> f \<Longrightarrow> take k (good_sim z n sts h f) = good_sim z n sts h k"
  by (simp add: good_sim_def take_map)

text \<open>The queues can simulate frame \<open>f\<close> and were asked rightly for the frames before.\<close>

definition sync_ready ::
    "'i \<Rightarrow> connection_status list \<Rightarrow> (nat \<Rightarrow> 'i list) \<Rightarrow> nat \<Rightarrow> 'i sync \<Rightarrow> bool" where
  "sync_ready z sts h f sy \<longleftrightarrow> sy_player_count sy \<le> MAX_PLAYERS \<and>
     sy_player_count sy \<le> length sts \<and> length (sy_input_queues sy) = sy_player_count sy \<and>
     sy_frame_count sy = int f \<and>
     (\<forall>p < sy_player_count sy.
        player_ready z sts p f (h p) (good_used z sts h f p) (sy_input_queues sy ! p))"

text \<open>
  The saved states: the next push is \<open>hi\<close>, the cells of the pushes \<open>lo ..< hi\<close> are tagged, the cells
  from \<open>u\<close> on are unused, and the commands made so far replay the simulation of \<open>sim\<close>.
\<close>

definition run_ok :: "('i, 'g) game \<Rightarrow> 'g \<Rightarrow> nat \<Rightarrow> nat \<Rightarrow> nat \<Rightarrow> nat \<Rightarrow> 'i game_input list \<Rightarrow>
    'i command list \<Rightarrow> saved_state \<Rightarrow> 'g store \<Rightarrow> bool" where
  "run_ok G g d lo hi u sim commands ss store \<longleftrightarrow>
     ring_of ss \<and> ss_head ss = hi mod 10 \<and> tags_at d lo hi store \<and> unused u store \<and>
     replays (gm_step G) (gm_hash G) (gm_start G) g store commands d lo hi sim"

text \<open>What making commands leaves alone.\<close>

definition same_sync :: "'i sync \<Rightarrow> 'i sync \<Rightarrow> bool" where
  "same_sync sy sy' \<longleftrightarrow> sy_player_count sy' = sy_player_count sy \<and>
     sy_frame_delay sy' = sy_frame_delay sy \<and> sy_rolling_back sy' = sy_rolling_back sy \<and>
     sy_last_confirmed_frame sy' = sy_last_confirmed_frame sy \<and>
     (\<forall>p < sy_player_count sy. same_inputs (sy_input_queues sy ! p) (sy_input_queues sy' ! p))"

lemma same_sync_trans: "same_sync a b \<Longrightarrow> same_sync b c \<Longrightarrow> same_sync a c"
  by (auto simp: same_sync_def intro: same_inputs_trans)

lemma save_current_frame_ok:
  assumes run: "run_ok G g d lo hi u sim commands (sy_saved_state sy) store"
    and f: "sy_frame_count sy = int (length sim)" "hi - d = length sim"
    and room: "hi < lo + 10" "hi < u" and ld: "hi mod 10 \<notin> loads commands"
  obtains ss' store' where "save_current_frame (commands, sy, store) =
      Some (commands @ [Save (hi mod 10) (int (length sim))], sy\<lparr>sy_saved_state := ss'\<rparr>, store')"
    and "run_ok G g d lo (Suc hi) u sim (commands @ [Save (hi mod 10) (int (length sim))]) ss' store'"
proof -
  let ?f = "int (length sim)"
  let ?store = "store[hi mod 10 := saved_frame_default\<lparr>sf_frame := ?f\<rparr>]"
  let ?ss = "(sy_saved_state sy)\<lparr>ss_head := (hi mod 10 + 1) mod 10\<rparr>"
  have r: "ring_of (sy_saved_state sy)" "ss_head (sy_saved_state sy) = hi mod 10"
    "tags_at d lo hi store" "unused u store"
    "replays (gm_step G) (gm_hash G) (gm_start G) g store commands d lo hi sim"
    using run by (simp_all add: run_ok_def)
  have len: "length store = 10" using r(3) by (simp add: tags_at_def)
  have "save_current_frame (commands, sy, store) =
      Some (commands @ [Save (hi mod 10) ?f], sy\<lparr>sy_saved_state := ?ss\<rparr>, ?store)"
    using push_ring[OF r(1) _ len, of ?f] r(2) f(1) by simp
  moreover have "replays (gm_step G) (gm_hash G) (gm_start G) g ?store
      (commands @ [Save (hi mod 10) ?f]) d lo (Suc hi) sim"
    using replays_save[OF r(5) room(1) f(2) ld _ len] by simp
  then have "run_ok G g d lo (Suc hi) u sim (commands @ [Save (hi mod 10) ?f]) ?ss ?store"
    using r tags_at_push[OF r(3) room(1), of ?f] unused_push[OF r(4) room(2) len] f(2)
    by (simp add: run_ok_def ring_of_def mod_Suc_eq)
  ultimately show ?thesis by (rule that)
qed

lemma synchronize_inputs_ok:
  assumes rd: "sync_ready z sts h f sy" and f: "int f + 1 < i32_MAX"
  obtains sy' where "synchronize_inputs z sts sy =
      Some (frame_inputs z (sy_player_count sy) sts h f, sy')"
    and "sync_ready z sts h (Suc f) (sy'\<lparr>sy_frame_count := int (Suc f)\<rparr>)"
    and "same_sync sy sy'" and "sy_saved_state sy' = sy_saved_state sy"
    and "sy_frame_count sy' = int f"
    and "\<And>p. p < sy_player_count sy \<Longrightarrow> \<not> off sts p f \<Longrightarrow>
      tracks z (h p) (good_used z sts h (Suc f) p) (sy_input_queues sy' ! p)"
proof -
  have n: "sy_player_count sy \<le> MAX_PLAYERS" "sy_player_count sy \<le> length sts"
    "length (sy_input_queues sy) = sy_player_count sy" "sy_frame_count sy = int f"
    and q: "p < sy_player_count sy \<Longrightarrow>
      player_ready z sts p f (h p) (good_used z sts h f p) (sy_input_queues sy ! p)" for p
    using rd by (simp_all add: sync_ready_def)
  have f': "int f < i32_MAX" using f by simp
  obtain qs' where "synchronize_inputs z sts sy =
      Some (frame_inputs z (sy_player_count sy) sts h f, sy\<lparr>sy_input_queues := qs'\<rparr>)"
    "length qs' = sy_player_count sy"
    "\<And>p. p < sy_player_count sy \<Longrightarrow>
      player_ready z sts p (Suc f) (h p) (good_used z sts h (Suc f) p) (qs' ! p)
      \<and> same_inputs (sy_input_queues sy ! p) (qs' ! p)
      \<and> (\<not> off sts p f \<longrightarrow> tracks z (h p) (good_used z sts h (Suc f) p) (qs' ! p))"
    by (rule synchronize_inputs_spec[OF refl n(1,2,3,4) f' q, unfolded next_used_good]) (assumption, blast)
  then show ?thesis
    using n by (intro that[of "sy\<lparr>sy_input_queues := qs'\<rparr>"]) (auto simp: sync_ready_def same_sync_def)
qed

lemma increment_frame_ok:
  assumes rd: "sync_ready z sts h f sy" and f: "int f + 1 < i32_MAX" and z: "gm_zero G = z"
    and run: "run_ok G g d lo hi u (good_sim z (sy_player_count sy) sts h f) commands
      (sy_saved_state sy) store"
    and hi: "hi = (if f = 0 then d else Suc (f + d))" and d: "d \<le> 1"
    and room: "f + d < lo + 9" "Suc (f + d) < u"
    and ld: "\<And>m. hi \<le> m \<Longrightarrow> m \<le> Suc (f + d) \<Longrightarrow> m mod 10 \<notin> loads commands"
  obtains commands' sy' store' where
      "increment_frame z sts (commands, sy, store) = Some (commands @ commands', sy', store')"
    and "sync_ready z sts h (Suc f) sy'" and "same_sync sy sy'"
    and "run_ok G g d lo (Suc (Suc (f + d))) u (good_sim z (sy_player_count sy) sts h (Suc f))
      (commands @ commands') (sy_saved_state sy') store'"
    and "loads commands' = {}"
    and "\<And>p. p < sy_player_count sy \<Longrightarrow> \<not> off sts p f \<Longrightarrow>
      tracks z (h p) (good_used z sts h (Suc f) p) (sy_input_queues sy' ! p)"
proof -
  let ?n = "sy_player_count sy"
  let ?sim = "good_sim z ?n sts h"
  let ?P = "\<lambda>cs sy1 store1. run_ok G g d lo (Suc (f + d)) u (?sim f) (commands @ cs)
      (sy_saved_state sy1) store1 \<and> sync_ready z sts h f sy1 \<and> same_sync sy sy1 \<and> loads cs = {}"
  have fc: "sy_frame_count sy = int f" using rd by (simp add: sync_ready_def)
  have "\<exists>cs sy1 store1. (if sy_frame_count sy = 0 then save_current_frame (commands, sy, store)
      else Some (commands, sy, store)) = Some (commands @ cs, sy1, store1) \<and> ?P cs sy1 store1"
  proof (cases "f = 0")
    case True
    have "hi mod 10 \<notin> loads commands" using ld[of hi] hi True by simp
    moreover have "sy_frame_count sy = int (length (?sim f))" "hi - d = length (?sim f)"
      using fc hi True by simp_all
    moreover have "hi < lo + 10" "hi < u" using room hi True by simp_all
    ultimately obtain ss' store' where s: "save_current_frame (commands, sy, store) =
        Some (commands @ [Save (hi mod 10) (int (length (?sim f)))], sy\<lparr>sy_saved_state := ss'\<rparr>, store')"
      "run_ok G g d lo (Suc hi) u (?sim f) (commands @ [Save (hi mod 10) (int (length (?sim f)))]) ss' store'"
      using save_current_frame_ok[OF run] by metis
    moreover have "sync_ready z sts h f (sy\<lparr>sy_saved_state := ss'\<rparr>)"
      using rd by (simp add: sync_ready_def)
    moreover have "same_sync sy (sy\<lparr>sy_saved_state := ss'\<rparr>)" by (simp add: same_sync_def)
    moreover have "Suc hi = Suc (f + d)" using hi True by simp
    ultimately show ?thesis using fc True by fastforce
  next
    case False
    then show ?thesis using run hi rd fc by (auto simp: same_sync_def intro!: exI[of _ "[]"])
  qed
  then obtain cs sy1 store1 where first: "(if sy_frame_count sy = 0
      then save_current_frame (commands, sy, store) else Some (commands, sy, store)) =
        Some (commands @ cs, sy1, store1)" "?P cs sy1 store1" by blast
  then have n1: "sy_player_count sy1 = ?n" by (simp add: same_sync_def)
  have rd1: "sync_ready z sts h f sy1" using first by blast
  obtain sy2 where sy2: "synchronize_inputs z sts sy1 = Some (frame_inputs z ?n sts h f, sy2)"
    "sync_ready z sts h (Suc f) (sy2\<lparr>sy_frame_count := int (Suc f)\<rparr>)" "same_sync sy1 sy2"
    "sy_saved_state sy2 = sy_saved_state sy1" "sy_frame_count sy2 = int f"
    "\<And>p. p < ?n \<Longrightarrow> \<not> off sts p f \<Longrightarrow>
      tracks z (h p) (good_used z sts h (Suc f) p) (sy_input_queues sy2 ! p)"
    by (rule synchronize_inputs_ok[OF rd1 f, unfolded n1]) blast
  let ?sy = "sy2\<lparr>sy_frame_count := int (Suc f)\<rparr>"
  let ?cs = "cs @ [AdvanceFrame (frame_inputs z ?n sts h f)]"
  have "run_ok G g d lo (Suc (f + d)) u (?sim (Suc f)) (commands @ ?cs) (sy_saved_state ?sy) store1"
    using first(2) replays_advance[of "gm_step G" "gm_hash G" "gm_start G" g store1 "commands @ cs" d lo
        "Suc (f + d)" "?sim f" "frame_inputs z ?n sts h f"] sy2(4)
    by (simp add: run_ok_def)
  moreover have "Suc (f + d) mod 10 \<notin> loads (commands @ ?cs)"
    using ld[of "Suc (f + d)"] hi d first(2) by (auto split: if_splits)
  ultimately obtain ss' store' where s: "save_current_frame (commands @ ?cs, ?sy, store1) =
      Some (commands @ ?cs @ [Save (Suc (f + d) mod 10) (int (Suc f))], ?sy\<lparr>sy_saved_state := ss'\<rparr>, store')"
    "run_ok G g d lo (Suc (Suc (f + d))) u (?sim (Suc f))
      (commands @ ?cs @ [Save (Suc (f + d) mod 10) (int (Suc f))]) ss' store'"
    using save_current_frame_ok[of G g d lo "Suc (f + d)" u "?sim (Suc f)" "commands @ ?cs" ?sy store1]
      room by (auto simp: of_nat_add)
  have "in_i32 (int f + 1)" using f by (simp add: in_i32_def i32_MAX_def)
  then have "increment_frame z sts (commands, sy, store) =
      Some (commands @ ?cs @ [Save (Suc (f + d) mod 10) (int (Suc f))], ?sy\<lparr>sy_saved_state := ss'\<rparr>, store')"
    using first(1) sy2(1,5) s(1) by (simp add: add.commute)
  moreover have "sync_ready z sts h (Suc f) (?sy\<lparr>sy_saved_state := ss'\<rparr>)"
    using sy2(2) by (simp add: sync_ready_def)
  moreover have "same_sync sy (?sy\<lparr>sy_saved_state := ss'\<rparr>)"
    using first(2) sy2(3) by (auto simp: same_sync_def intro: same_inputs_trans)
  ultimately show ?thesis
    using s(2) sy2(6) first(2)
    by (intro that[of "?cs @ [Save (Suc (f + d) mod 10) (int (Suc f))]"]) auto
qed

lemma increment_frames_ok:
  assumes "sync_ready z sts h f sy" and "int (f + n) < i32_MAX" and "gm_zero G = z"
    and "run_ok G g d lo hi u (good_sim z (sy_player_count sy) sts h f) commands
      (sy_saved_state sy) store"
    and "hi = (if f = 0 then d else Suc (f + d))" and "d \<le> 1"
    and "f + n + d \<le> lo + 9" and "f + n + d < u"
    and "\<And>m. hi \<le> m \<Longrightarrow> m \<le> f + n + d \<Longrightarrow> m mod 10 \<notin> loads commands"
  shows "\<exists>commands' sy' store'.
      increment_frames n z sts (commands, sy, store) = Some (commands @ commands', sy', store') \<and>
      sync_ready z sts h (f + n) sy' \<and> same_sync sy sy' \<and>
      run_ok G g d lo (if n = 0 then hi else Suc (f + n + d)) u
        (good_sim z (sy_player_count sy) sts h (f + n)) (commands @ commands') (sy_saved_state sy') store' \<and>
      loads commands' = {} \<and>
      (0 < n \<longrightarrow> (\<forall>p < sy_player_count sy. \<not> off sts p (f + n - 1) \<longrightarrow>
        tracks z (h p) (good_used z sts h (f + n) p) (sy_input_queues sy' ! p)))"
  using assms
proof (induction n arbitrary: f sy commands store hi)
  case 0
  then show ?case by (auto simp: same_sync_def intro!: exI[of _ "[]"])
next
  case (Suc n)
  let ?N = "sy_player_count sy"
  have f1: "int f + 1 < i32_MAX" using Suc.prems(2) by simp
  obtain cs sy1 store1 where one:
    "increment_frame z sts (commands, sy, store) = Some (commands @ cs, sy1, store1)"
    "sync_ready z sts h (Suc f) sy1" "same_sync sy sy1"
    "run_ok G g d lo (Suc (Suc (f + d))) u (good_sim z ?N sts h (Suc f)) (commands @ cs)
      (sy_saved_state sy1) store1" "loads cs = {}"
    "\<And>p. p < ?N \<Longrightarrow> \<not> off sts p f \<Longrightarrow>
      tracks z (h p) (good_used z sts h (Suc f) p) (sy_input_queues sy1 ! p)"
    using increment_frame_ok[OF Suc.prems(1) f1 Suc.prems(3,4,5,6)] Suc.prems(7-9) by auto
  have n1: "sy_player_count sy1 = ?N" using one(3) by (simp add: same_sync_def)
  have "\<exists>commands' sy' store'.
      increment_frames n z sts (commands @ cs, sy1, store1) = Some ((commands @ cs) @ commands', sy', store') \<and>
      sync_ready z sts h (Suc f + n) sy' \<and> same_sync sy1 sy' \<and>
      run_ok G g d lo (if n = 0 then Suc (Suc (f + d)) else Suc (Suc f + n + d)) u
        (good_sim z (sy_player_count sy1) sts h (Suc f + n)) ((commands @ cs) @ commands')
        (sy_saved_state sy') store' \<and>
      loads commands' = {} \<and>
      (0 < n \<longrightarrow> (\<forall>p < sy_player_count sy1. \<not> off sts p (Suc f + n - 1) \<longrightarrow>
        tracks z (h p) (good_used z sts h (Suc f + n) p) (sy_input_queues sy' ! p)))"
  proof (rule Suc.IH[OF one(2)])
    show "run_ok G g d lo (Suc (Suc (f + d))) u (good_sim z (sy_player_count sy1) sts h (Suc f))
        (commands @ cs) (sy_saved_state sy1) store1"
      using one(4) n1 by simp
    show "m mod 10 \<notin> loads (commands @ cs)"
      if "Suc (Suc (f + d)) \<le> m" "m \<le> Suc f + n + d" for m
    proof -
      have "hi \<le> m" using that(1) Suc.prems(5) by (auto split: if_splits)
      then show ?thesis using Suc.prems(9)[of m] that one(5) by simp
    qed
  qed (use Suc.prems in auto)
  then obtain cs' sy' store' where rest:
    "increment_frames n z sts (commands @ cs, sy1, store1) = Some ((commands @ cs) @ cs', sy', store')"
    "sync_ready z sts h (Suc f + n) sy'" "same_sync sy1 sy'"
    "run_ok G g d lo (if n = 0 then Suc (Suc (f + d)) else Suc (Suc f + n + d)) u
      (good_sim z (sy_player_count sy1) sts h (Suc f + n)) ((commands @ cs) @ cs')
      (sy_saved_state sy') store'" "loads cs' = {}"
    "0 < n \<longrightarrow> (\<forall>p < sy_player_count sy1. \<not> off sts p (Suc f + n - 1) \<longrightarrow>
      tracks z (h p) (good_used z sts h (Suc f + n) p) (sy_input_queues sy' ! p))"
    by blast
  have last: "\<forall>p < ?N. \<not> off sts p (f + Suc n - 1) \<longrightarrow>
      tracks z (h p) (good_used z sts h (f + Suc n) p) (sy_input_queues sy' ! p)"
  proof (cases "n = 0")
    case True
    then show ?thesis using one(6) rest(1) by auto
  next
    case False
    then show ?thesis using rest(6) n1 by auto
  qed
  show ?case
    using one(1,5) rest(1-5) last same_sync_trans[OF one(3) rest(3)] n1
    by (intro exI[of _ "cs @ cs'"] exI[of _ sy'] exI[of _ store']) (auto split: if_splits)
qed

section \<open>Rollback\<close>

text \<open>
  The hypothesis of a rollback to frame \<open>seek\<close>: nothing was given wrongly to the game before that
  frame, and every player's queue still holds its inputs from there.
\<close>

definition rewindable :: "'i \<Rightarrow> connection_status list \<Rightarrow> (nat \<Rightarrow> 'i list) \<Rightarrow> (nat \<Rightarrow> 'i list) \<Rightarrow>
    nat \<Rightarrow> 'i sync \<Rightarrow> bool" where
  "rewindable z sts h used seek sy \<longleftrightarrow> sy_player_count sy \<le> MAX_PLAYERS \<and>
     sy_player_count sy \<le> length sts \<and> length (sy_input_queues sy) = sy_player_count sy \<and>
     (\<forall>p < sy_player_count sy. let q = sy_input_queues sy ! p in
        queue_ok z (h p) q \<and> agrees z (h p) (used p) q \<and>
        (is_null (iq_first_incorrect_frame q) \<or> int seek \<le> iq_first_incorrect_frame q) \<and>
        min seek (length (used p)) = asked sts p seek \<and>
        (\<not> off sts p seek \<longrightarrow> oldest (h p) q \<le> seek) \<and> int (length (h p)) < i32_MAX)"

lemma reset_prediction_ready:
  assumes rw: "rewindable z sts h used seek sy" and f: "sy_frame_count sy = int seek"
  obtains sy' where "reset_prediction (int seek) sy = Some sy'" and "sync_ready z sts h seek sy'"
    and "same_sync sy sy'" and "sy_saved_state sy' = sy_saved_state sy"
proof -
  let ?qs = "sy_input_queues sy"
  define P where "P p q' \<longleftrightarrow> same_inputs (?qs ! p) q' \<and>
      player_ready z sts p seek (h p) (good_used z sts h seek p) q'" for p q'
  have ex: "\<exists>q'. queue_reset_prediction (int seek) (?qs ! p) = Some q' \<and> P p q'"
    if "p < length ?qs" for p
  proof -
    let ?q = "?qs ! p"
    have q: "queue_ok z (h p) ?q" "agrees z (h p) (used p) ?q"
      "is_null (iq_first_incorrect_frame ?q) \<or> int seek \<le> iq_first_incorrect_frame ?q"
      "min seek (length (used p)) = asked sts p seek" "\<not> off sts p seek \<longrightarrow> oldest (h p) ?q \<le> seek"
      "int (length (h p)) < i32_MAX"
      using rw that by (auto simp: rewindable_def Let_def)
    have "take seek (used p) = good_used z sts h seek p"
      using q(2,3,4) by (intro nth_equalityI) (auto simp: good_used_def agrees_def min.commute)
    then show ?thesis
      using reset_prediction_tracks[OF q(1,2,3)] q(4,5,6)
      by (fastforce simp: P_def player_ready_def good_used_def oldest_def same_inputs_def)
  qed
  obtain qs' where qs': "traverse (queue_reset_prediction (int seek)) ?qs = Some qs'"
    "length qs' = length ?qs"
    "\<And>p. p < length ?qs \<Longrightarrow>
      queue_reset_prediction (int seek) (?qs ! p) = Some (qs' ! p) \<and> P p (qs' ! p)"
    using traverse_exists[where P = P, OF ex] by blast
  then show ?thesis
    using rw f by (intro that[of "sy\<lparr>sy_input_queues := qs'\<rparr>"])
      (auto simp: P_def reset_prediction_def sync_ready_def same_sync_def rewindable_def)
qed

lemma load_frame_ok:
  assumes run: "run_ok G g d (fc + d - 9) (Suc (fc + d)) (Suc (fc + d)) sim commands
      (sy_saved_state sy) store"
    and fc: "sy_frame_count sy = int fc" and seek: "seek < fc" "fc \<le> seek + 9"
    and m: "m = seek_push d fc seek" and sim: "take seek sim = good"
  obtains ss where "load_frame (int seek) (commands, sy, store) =
      Some (commands @ [Load (m mod 10)], sy\<lparr>sy_frame_count := int seek, sy_saved_state := ss\<rparr>, store)"
    and "run_ok G g d (fc + d - 9) (Suc m) (Suc (fc + d)) good (commands @ [Load (m mod 10)]) ss store"
proof -
  have r: "ring_of (sy_saved_state sy)" "tags_ok d fc store"
    "replays (gm_step G) (gm_hash G) (gm_start G) g store commands d (fc + d - 9) (Suc (fc + d)) sim"
    and d: "d \<le> 1"
    using run by (auto simp: run_ok_def tags_ok_def tags_at_def)
  have win: "seek \<le> fc" "fc < seek + 10" using seek by simp_all
  note m_win = seek_push_window[OF win d, folded m]
  note found = reset_to_finds[OF r(1,2) win, folded m]
  let ?ss = "(sy_saved_state sy)\<lparr>ss_head := Suc m mod 10\<rparr>"
  have len: "length store = 10" using r(2) by (simp add: tags_ok_def tags_at_def)
  have "usize_add (m mod 10) 1 = Some (m mod 10 + 1)"
    using mod_less_divisor[of 10 m] by (intro usize_add_ok) simp
  then have "load_frame (int seek) (commands, sy, store) =
      Some (commands @ [Load (m mod 10)], sy\<lparr>sy_frame_count := int seek, sy_saved_state := ?ss\<rparr>, store)"
    using found fc seek r(1) len by (simp add: load_frame.simps ring_of_def mod_Suc_eq)
  moreover have "replays (gm_step G) (gm_hash G) (gm_start G) g store (commands @ [Load (m mod 10)])
      d (fc + d - 9) (Suc m) good"
    using replays_load[OF r(3) m_win(1)] m_win(2,3) sim by simp
  then have "run_ok G g d (fc + d - 9) (Suc m) (Suc (fc + d)) good (commands @ [Load (m mod 10)]) ?ss store"
    using run m_win(2) by (auto simp: run_ok_def ring_of_def tags_at_def)
  ultimately show ?thesis by (rule that)
qed

lemma next_pushes: "c < m \<Longrightarrow> m < c + 10 \<Longrightarrow> (m :: nat) mod 10 \<noteq> c mod 10"
  using mod_next_push[of c m] by auto

text \<open>
  After a rollback the commands make the game replay every frame with the inputs that are known
  now, and the saved states are again those of the last frames.
\<close>

lemma adjust_simulation_ok:
  assumes rw: "rewindable z sts h used seek sy" and z: "gm_zero G = z"
    and run: "run_ok G g d (fc + d - 9) (Suc (fc + d)) (Suc (fc + d)) sim commands
      (sy_saved_state sy) store"
    and fc: "sy_frame_count sy = int fc" "int fc < i32_MAX"
    and seek: "seek < fc" "fc \<le> seek + 9" "seek = 0 \<Longrightarrow> fc \<le> 8"
    and sim: "take seek sim = good_sim z (sy_player_count sy) sts h seek"
    and ld: "loads commands = {}"
  obtains commands' sy' store' d' where
      "adjust_simulation z sts (int seek) (commands, sy, store) = Some (commands @ commands', sy', store')"
    and "sync_ready z sts h fc sy'" and "same_sync (sy\<lparr>sy_rolling_back := False\<rparr>) sy'"
    and "run_ok G g d' (fc + d' - 9) (Suc (fc + d')) (Suc (fc + d'))
      (good_sim z (sy_player_count sy) sts h fc) (commands @ commands') (sy_saved_state sy') store'"
    and "\<And>p. p < sy_player_count sy \<Longrightarrow> \<not> off sts p (fc - 1) \<Longrightarrow>
      tracks z (h p) (good_used z sts h fc p) (sy_input_queues sy' ! p)"
proof -
  define m where "m = seek_push d fc seek"
  define n where "n = fc - seek"
  define d' where "d' = (if seek = 0 then 1 else d)"
  have d: "d \<le> 1" "d' \<le> 1" using run by (auto simp: run_ok_def tags_at_def d'_def)
  let ?N = "sy_player_count sy"
  let ?sy = "sy\<lparr>sy_rolling_back := True\<rparr>"
  have run1: "run_ok G g d (fc + d - 9) (Suc (fc + d)) (Suc (fc + d)) sim commands (sy_saved_state ?sy) store"
    and fc1: "sy_frame_count ?sy = int fc"
    using run fc by simp_all
  obtain ss where ld1: "load_frame (int seek) (commands, ?sy, store) =
      Some (commands @ [Load (m mod 10)], ?sy\<lparr>sy_frame_count := int seek, sy_saved_state := ss\<rparr>, store)"
    and run2: "run_ok G g d (fc + d - 9) (Suc m) (Suc (fc + d)) (good_sim z ?N sts h seek)
      (commands @ [Load (m mod 10)]) ss store"
    by (rule load_frame_ok[OF run1 fc1 seek(1,2) m_def sim])
  let ?sy1 = "?sy\<lparr>sy_frame_count := int seek, sy_saved_state := ss\<rparr>"
  have "rewindable z sts h used seek ?sy1" using rw by (simp add: rewindable_def)
  then obtain sy2 where sy2: "reset_prediction (int seek) ?sy1 = Some sy2"
    "sync_ready z sts h seek sy2" "same_sync ?sy1 sy2" "sy_saved_state sy2 = ss"
    using reset_prediction_ready[of z sts h used seek ?sy1] by auto
  have n2: "sy_player_count sy2 = ?N" using sy2(3) by (simp add: same_sync_def)
  let ?hi = "if seek = 0 then d' else Suc (seek + d')"
  have run3: "run_ok G g d' (fc + d' - 9) ?hi (Suc (fc + d')) (good_sim z ?N sts h seek)
      (commands @ [Load (m mod 10)]) ss store"
  proof (cases "seek = 0")
    case True
    then have m0: "m = 0" using seek(3) d by (simp add: m_def seek_push_def)
    have lo: "fc + d - 9 = 0" "fc + 1 - 9 = 0" using seek(3)[OF True] d by simp_all
    have "tags_at 1 0 (Suc 0) store" using run2 unfolding m0 lo by (simp add: run_ok_def tags_at_def)
    moreover have "unused (Suc (fc + 1)) store"
      using run2 d(1) by (auto simp: run_ok_def intro: unused_mono)
    moreover have "replays (gm_step G) (gm_hash G) (gm_start G) g store (commands @ [Load (m mod 10)])
        1 0 (Suc 0) (good_sim z ?N sts h seek)"
      using run2 unfolding m0 lo run_ok_def by (blast intro: replays_shift)
    ultimately show ?thesis
      using True run2 m0 lo by (simp add: run_ok_def d'_def)
  next
    case False
    then show ?thesis using run2 by (simp add: d'_def m_def seek_push_def)
  qed
  have "\<exists>commands' sy' store'.
      increment_frames n z sts (commands @ [Load (m mod 10)], sy2, store) =
        Some ((commands @ [Load (m mod 10)]) @ commands', sy', store') \<and>
      sync_ready z sts h (seek + n) sy' \<and> same_sync sy2 sy' \<and>
      run_ok G g d' (fc + d' - 9) (if n = 0 then ?hi else Suc (seek + n + d')) (Suc (fc + d'))
        (good_sim z (sy_player_count sy2) sts h (seek + n)) ((commands @ [Load (m mod 10)]) @ commands')
        (sy_saved_state sy') store' \<and>
      loads commands' = {} \<and>
      (0 < n \<longrightarrow> (\<forall>p < sy_player_count sy2. \<not> off sts p (seek + n - 1) \<longrightarrow>
        tracks z (h p) (good_used z sts h (seek + n) p) (sy_input_queues sy' ! p)))"
  proof (rule increment_frames_ok[OF sy2(2) _ z])
    show "run_ok G g d' (fc + d' - 9) ?hi (Suc (fc + d')) (good_sim z (sy_player_count sy2) sts h seek)
        (commands @ [Load (m mod 10)]) (sy_saved_state sy2) store"
      using run3 n2 sy2(4) by simp
    show "k mod 10 \<notin> loads (commands @ [Load (m mod 10)])" if "?hi \<le> k" "k \<le> seek + n + d'" for k
    proof -
      have "m < k" "k < m + 10"
        using that seek d by (auto simp: m_def n_def d'_def seek_push_def split: if_splits)
      then show ?thesis using ld next_pushes by simp
    qed
  qed (use seek fc d in \<open>auto simp: n_def\<close>)
  moreover have n: "0 < n" "seek + n = fc" using seek by (auto simp: n_def)
  ultimately obtain cs sy3 store3 where inc:
    "increment_frames n z sts (commands @ [Load (m mod 10)], sy2, store) =
       Some ((commands @ [Load (m mod 10)]) @ cs, sy3, store3)"
    "sync_ready z sts h fc sy3" "same_sync sy2 sy3"
    "run_ok G g d' (fc + d' - 9) (Suc (fc + d')) (Suc (fc + d')) (good_sim z ?N sts h fc)
      ((commands @ [Load (m mod 10)]) @ cs) (sy_saved_state sy3) store3"
    "\<forall>p < ?N. \<not> off sts p (fc - 1) \<longrightarrow> tracks z (h p) (good_used z sts h fc p) (sy_input_queues sy3 ! p)"
    using n2 by auto
  have "in_i32 (int fc - int seek)" using seek(1) fc(2) by (auto simp: in_i32_def i32_MAX_def)
  then have "adjust_simulation z sts (int seek) (commands, sy, store) =
      Some (commands @ Load (m mod 10) # cs, sy3\<lparr>sy_rolling_back := False\<rparr>, store3)"
    using ld1 sy2(1) inc(1,2) fc(1) seek(1) by (simp add: adjust_simulation.simps n_def sync_ready_def nat_diff_distrib)
  moreover have "sync_ready z sts h fc (sy3\<lparr>sy_rolling_back := False\<rparr>)"
    using inc(2) by (simp add: sync_ready_def)
  moreover have "same_sync (sy\<lparr>sy_rolling_back := False\<rparr>) (sy3\<lparr>sy_rolling_back := False\<rparr>)"
    using same_sync_trans[OF sy2(3) inc(3)] by (simp add: same_sync_def)
  ultimately show ?thesis
    using inc(4,5)
    by (intro that[of "Load (m mod 10) # cs" "sy3\<lparr>sy_rolling_back := False\<rparr>" store3 d']) auto
qed

text \<open>Executing the commands made so far yields the game state after \<open>sim\<close>.\<close>

lemma run_ok_execute:
  assumes "run_ok G g d lo hi u sim commands ss store"
  obtains store' where "execute_all (gm_step G) (gm_hash G) commands (g, store) =
      Some (foldl (gm_step G) (gm_start G) sim, store')"
    and "run_ok G (foldl (gm_step G) (gm_start G) sim) d lo hi u sim [] ss store'"
proof -
  obtain store' where e: "execute_all (gm_step G) (gm_hash G) commands (g, store) =
      Some (foldl (gm_step G) (gm_start G) sim, store')"
    "states_at d lo hi (\<lambda>n. foldl (gm_step G) (gm_start G) (take n sim)) store'"
    using assms by (auto simp: run_ok_def replays_def)
  then have "run_ok G (foldl (gm_step G) (gm_start G) sim) d lo hi u sim [] ss store'"
    using assms same_tags_window[OF execute_all_same_tags[OF e(1)]]
    by (auto simp: run_ok_def replays_def tags_at_def)
  then show ?thesis using e(1) by (intro that)
qed

lemma run_ok_mono:
  assumes "run_ok G g d lo hi u sim commands ss store" and "lo \<le> lo'" and "u \<le> u'"
  shows "run_ok G g d lo' hi u' sim commands ss store"
  using assms replays_mono[of "gm_step G" "gm_hash G" "gm_start G" g store commands d lo hi sim lo' hi]
  by (auto simp: run_ok_def tags_at_def intro: unused_mono)

text \<open>The first incorrect frame over all queues.\<close>

lemma foldl_min: "foldl min (a :: int) xs = Min (set (a # xs))"
proof (induction xs arbitrary: a)
  case (Cons x xs)
  then show ?case by (cases "xs = []") (simp_all add: min.assoc)
qed simp

lemma check_simulation_consistency_None:
  "check_simulation_consistency sy = None \<longleftrightarrow>
     (\<forall>p < length (sy_input_queues sy). is_null (iq_first_incorrect_frame (sy_input_queues sy ! p)))"
proof -
  have "check_simulation_consistency sy = None \<longleftrightarrow>
      filter (\<lambda>f. \<not> is_null f) (map iq_first_incorrect_frame (sy_input_queues sy)) = []"
    by (simp add: check_simulation_consistency_def split: list.split)
  then show ?thesis by (simp add: filter_empty_conv all_set_conv_all_nth)
qed

lemma check_simulation_consistency_Some:
  assumes "check_simulation_consistency sy = Some k"
  shows "\<not> is_null k"
    and "\<exists>p < length (sy_input_queues sy). iq_first_incorrect_frame (sy_input_queues sy ! p) = k"
    and "\<And>p. p < length (sy_input_queues sy) \<Longrightarrow>
      is_null (iq_first_incorrect_frame (sy_input_queues sy ! p)) \<or>
      k \<le> iq_first_incorrect_frame (sy_input_queues sy ! p)"
proof -
  define fs where "fs = filter (\<lambda>f. \<not> is_null f) (map iq_first_incorrect_frame (sy_input_queues sy))"
  have k: "fs \<noteq> []" "k = Min (set fs)"
    using assms unfolding check_simulation_consistency_def fs_def[symmetric]
    by (cases fs; simp add: foldl_min)+
  then have mem: "k \<in> set fs" and le: "\<And>x. x \<in> set fs \<Longrightarrow> k \<le> x"
    using Min_in[of "set fs"] by auto
  show "\<not> is_null k" using mem by (simp add: fs_def)
  show "\<exists>p < length (sy_input_queues sy). iq_first_incorrect_frame (sy_input_queues sy ! p) = k"
    using mem by (auto simp: fs_def in_set_conv_nth)
  show "is_null (iq_first_incorrect_frame (sy_input_queues sy ! p)) \<or>
      k \<le> iq_first_incorrect_frame (sy_input_queues sy ! p)" if "p < length (sy_input_queues sy)" for p
    using le[of "iq_first_incorrect_frame (sy_input_queues sy ! p)"] that by (auto simp: fs_def)
qed

text \<open>A rollback may not skip a misprediction: \<open>reset_prediction\<close> asserts that it does not.\<close>

lemma traverse_None: "x \<in> set xs \<Longrightarrow> f x = None \<Longrightarrow> traverse f xs = None"
  by (induction xs) (auto split: Option.bind_split)

lemma load_frame_queues:
  "load_frame f (commands, sy, store) = Some (commands', sy', store') \<Longrightarrow>
     sy_input_queues sy' = sy_input_queues sy"
  by (auto simp: load_frame.simps Let_def bind_eq_Some_conv split: if_split_asm)

lemma adjust_past_error:
  assumes q: "q \<in> set (sy_input_queues sy)" and wrong: "\<not> is_null (iq_first_incorrect_frame q)"
    and late: "iq_first_incorrect_frame q < seek"
  shows "adjust_simulation z sts seek (commands, sy, store) = None"
proof (rule ccontr)
  assume "adjust_simulation z sts seek (commands, sy, store) \<noteq> None"
  then obtain commands1 sy1 store1 s where
    "load_frame seek (commands, sy\<lparr>sy_rolling_back := True\<rparr>, store) = Some (commands1, sy1, store1)"
    "sy_frame_count sy1 = seek" "reset_prediction (sy_frame_count sy1) sy1 = Some s"
    by (auto simp: adjust_simulation.simps Let_def bind_eq_Some_conv)
  moreover from this have "sy_input_queues sy1 = sy_input_queues sy"
    using load_frame_queues by fastforce
  moreover have "queue_reset_prediction seek q = None"
    using wrong late by (simp add: queue_reset_prediction_def)
  then have "traverse (queue_reset_prediction seek) (sy_input_queues sy) = None"
    by (rule traverse_None[OF q])
  ultimately show False by (simp add: reset_prediction_def)
qed

lemma adjust_replays:
  assumes rw: "rewindable z sts h used seek sy" and z: "gm_zero G = z"
    and run: "run_ok G g d (fc + d - 9) (Suc (fc + d)) (Suc (fc + d)) sim [] (sy_saved_state sy) store"
    and fc: "sy_frame_count sy = int fc" "int fc < i32_MAX"
    and seek: "seek < fc" "fc \<le> seek + 9" "seek = 0 \<Longrightarrow> fc \<le> 8"
    and sim: "take seek sim = good_sim z (sy_player_count sy) sts h seek"
  shows "\<exists>commands sy' store' store'' d'.
    adjust_simulation z sts (int seek) ([], sy, store) = Some (commands, sy', store') \<and>
    execute_all (gm_step G) (gm_hash G) commands (g, store') =
      Some (foldl (gm_step G) (gm_start G) (good_sim z (sy_player_count sy) sts h fc), store'') \<and>
    states_at d' (fc + d' - 9) (Suc (fc + d'))
      (\<lambda>n. foldl (gm_step G) (gm_start G) (good_sim z (sy_player_count sy) sts h n)) store'' \<and>
    sy_frame_count sy' = int fc \<and> \<not> sy_rolling_back sy'"
proof -
  obtain cs sy' store' d' where adj:
    "adjust_simulation z sts (int seek) ([], sy, store) = Some ([] @ cs, sy', store')"
    "sync_ready z sts h fc sy'" "same_sync (sy\<lparr>sy_rolling_back := False\<rparr>) sy'"
    "run_ok G g d' (fc + d' - 9) (Suc (fc + d')) (Suc (fc + d'))
      (good_sim z (sy_player_count sy) sts h fc) ([] @ cs) (sy_saved_state sy') store'"
    by (rule adjust_simulation_ok[OF rw z run fc seek sim]) auto
  then obtain store'' where ex: "execute_all (gm_step G) (gm_hash G) cs (g, store') =
      Some (foldl (gm_step G) (gm_start G) (good_sim z (sy_player_count sy) sts h fc), store'')"
    "states_at d' (fc + d' - 9) (Suc (fc + d')) (\<lambda>n. foldl (gm_step G) (gm_start G)
      (take n (good_sim z (sy_player_count sy) sts h fc))) store''"
    by (auto simp: run_ok_def replays_def)
  moreover have "take (m - d') (good_sim z (sy_player_count sy) sts h fc) =
      good_sim z (sy_player_count sy) sts h (m - d')" if "m < Suc (fc + d')" for m
    using that by (intro take_good_sim) auto
  ultimately have "states_at d' (fc + d' - 9) (Suc (fc + d'))
      (\<lambda>n. foldl (gm_step G) (gm_start G) (good_sim z (sy_player_count sy) sts h n)) store''"
    by (simp add: states_at_def)
  moreover have "sy_frame_count sy' = int fc" "\<not> sy_rolling_back sy'"
    using adj(2,3) by (simp_all add: sync_ready_def same_sync_def)
  ultimately show ?thesis using adj(1) ex by auto
qed

end
