(* ===== verification/P2P_Session.thy ===== *)
theory P2P_Session
  imports Protocol Sync
begin

text \<open>
  The session of \<^verbatim>\<open>backroll/src/backend/p2p.rs\<close>: its builder, the events it takes from its peers, the
  confirmed frame it computes from the connection statuses, disconnects, and the methods the client
  calls. An operation that makes commands takes and returns a \<open>run\<close>: the commands made so far, the
  session, and the store of saved cells. The connection statuses, which the session shares with
  \<open>Sync\<close> and with its peers, are a field of the session. The channels and the draws of the random
  generator from which a peer is made are arguments. \<open>None\<close> is a panic or a loop that does not end.
\<close>

section \<open>Players\<close>

definition RECOMMENDATION_INTERVAL :: frame where
  "RECOMMENDATION_INTERVAL = 240"

definition DEFAULT_FRAME_DELAY :: frame where
  "DEFAULT_FRAME_DELAY = 3"

definition DEFAULT_DISCONNECT_TIMEOUT :: millis where
  "DEFAULT_DISCONNECT_TIMEOUT = 5000"

definition DEFAULT_DISCONNECT_NOTIFY_START :: millis where
  "DEFAULT_DISCONNECT_NOTIFY_START = 750"

text \<open>\<open>Player\<close> of \<^verbatim>\<open>lib.rs\<close>; the transport of a remote player is not modelled.\<close>

datatype player = Player_Local | Player_Remote

fun player_is_local :: "player \<Rightarrow> bool" where
  "player_is_local Player_Local = True"
| "player_is_local Player_Remote = False"

text \<open>\<open>PlayerType\<close>: the receiver \<open>rx\<close> of a remote player is the other end of the peer's \<open>events\<close>.\<close>

datatype 'p player_type = Local | Remote 'p

fun player_peer :: "'p player_type \<Rightarrow> 'p option" where
  "player_peer Local = None"
| "player_peer (Remote peer) = Some peer"

definition is_local :: "'p player_type \<Rightarrow> bool" where
  "is_local player \<longleftrightarrow> player_peer player = None"

fun is_remote_player :: "'p player_type \<Rightarrow> bool" where
  "is_remote_player Local = False"
| "is_remote_player (Remote _) = True"

definition player_is_synchronized :: "('i, 'e, 'o, 'm) peer player_type \<Rightarrow> bool" where
  "player_is_synchronized player = (case player_peer player of Some peer \<Rightarrow> peer_is_running peer | None \<Rightarrow> True)"

text \<open>\<open>let _ = peer.send_input(input)\<close>: an error is ignored, a panic is not.\<close>

fun player_send_input ::
    "('i, 'e, 'o, 'm) crates \<Rightarrow> connection_status list \<Rightarrow> 'i frame_input \<Rightarrow>
       ('i, 'e, 'o, 'm) peer player_type \<Rightarrow> ('i, 'e, 'o, 'm) peer player_type option" where
  "player_send_input X statuses input Local = Some Local"
| "player_send_input X statuses input (Remote peer) =
     do { r \<leftarrow> send_input X statuses input peer; Some (Remote (snd r)) }"

fun player_disconnect ::
    "('i, 'e, 'o, 'm) crates \<Rightarrow> ('i, 'e, 'o, 'm) peer player_type \<Rightarrow> ('i, 'e, 'o, 'm) peer player_type" where
  "player_disconnect X Local = Local"
| "player_disconnect X (Remote peer) = Remote (peer_disconnect X peer)"

definition player_get_network_stats ::
    "('i, 'e, 'o, 'm) crates \<Rightarrow> ('i, 'e, 'o, 'm) peer player_type \<Rightarrow> network_stats option" where
  "player_get_network_stats X player = map_option (get_network_stats X) (player_peer player)"

section \<open>The session and its builder\<close>

record session_builder =
  sb_players :: "player list"
  sb_frame_delay :: frame
  sb_disconnect_timeout :: millis
  sb_disconnect_notify_start :: millis

definition builder_new :: session_builder where
  "builder_new = \<lparr>sb_players = [], sb_frame_delay = DEFAULT_FRAME_DELAY,
     sb_disconnect_timeout = DEFAULT_DISCONNECT_TIMEOUT,
     sb_disconnect_notify_start = DEFAULT_DISCONNECT_NOTIFY_START\<rparr>"

definition with_frame_delay :: "frame \<Rightarrow> session_builder \<Rightarrow> session_builder" where
  "with_frame_delay frame_delay b = b\<lparr>sb_frame_delay := frame_delay\<rparr>"

definition with_disconnect_timeout :: "millis \<Rightarrow> session_builder \<Rightarrow> session_builder" where
  "with_disconnect_timeout t b = b\<lparr>sb_disconnect_timeout := t\<rparr>"

definition with_disconnect_notify_start :: "millis \<Rightarrow> session_builder \<Rightarrow> session_builder" where
  "with_disconnect_notify_start t b = b\<lparr>sb_disconnect_timeout := t\<rparr>"

definition add_player :: "player \<Rightarrow> session_builder \<Rightarrow> player_handle \<times> session_builder" where
  "add_player player b = (length (sb_players b), b\<lparr>sb_players := sb_players b @ [player]\<rparr>)"

record ('i, 'e, 'o, 'm) session =
  se_sync :: "'i sync"
  se_players :: "('i, 'e, 'o, 'm) peer player_type list"
  se_synchronizing :: bool
  se_next_recommended_sleep :: frame
  se_local_connect_status :: "connection_status list"

type_synonym ('i, 'g, 'e, 'o, 'm) session_run =
  "'i command list \<times> ('i, 'e, 'o, 'm) session \<times> 'g store"

text \<open>\<open>PlayerType::new\<close>; \<open>draws\<close> and \<open>ends\<close> are the random numbers and the channels of the peer.\<close>

definition player_type_new ::
    "('i, 'e, 'o, 'm) crates \<Rightarrow> session_builder \<Rightarrow> connection_status list \<Rightarrow> (nat \<Rightarrow> u32 list) \<Rightarrow>
       (nat \<Rightarrow> 'e \<times> 'o \<times> 'm) \<Rightarrow> nat \<times> player \<Rightarrow> ('i, 'e, 'o, 'm) peer player_type option" where
  "player_type_new X b statuses draws ends player =
     (let queue = fst player in
      case snd player of
        Player_Local \<Rightarrow> Some Local
      | Player_Remote \<Rightarrow>
          do { peer \<leftarrow> peer_new X queue
                 \<lparr>pc_disconnect_timeout = sb_disconnect_timeout b,
                  pc_disconnect_notify_start = sb_disconnect_notify_start b\<rparr>
                 statuses (draws queue)
                 (fst (ends queue)) (fst (snd (ends queue))) (snd (snd (ends queue)));
               Some (Remote peer) })"

definition session_new ::
    "('i, 'e, 'o, 'm) crates \<Rightarrow> session_builder \<Rightarrow> (nat \<Rightarrow> u32 list) \<Rightarrow> (nat \<Rightarrow> 'e \<times> 'o \<times> 'm) \<Rightarrow>
       (backroll_error + ('i, 'e, 'o, 'm) session) option" where
  "session_new X b draws ends =
     (let local_player_count = length (filter player_is_local (sb_players b));
          remote_player_count = length (sb_players b) - local_player_count in
      if local_player_count > 1 \<and> remote_player_count > 1 then Some (Inl MultipleLocalPlayers)
      else
        do { let player_count = length (sb_players b);
             let connect_status = replicate player_count connection_status_default;
             players \<leftarrow> traverse (player_type_new X b connect_status draws ends)
               (enumerate 0 (sb_players b));
             Some (Inr \<lparr>se_sync = sync_new (pod_zeroed (cr_pod X)) player_count (sb_frame_delay b),
               se_players = players,
               se_synchronizing = (\<exists>player \<in> set players. \<not> is_local player),
               se_next_recommended_sleep = 0, se_local_connect_status = connect_status\<rparr>) })"

definition builder_start :: "('i, 'e, 'o, 'm) crates \<Rightarrow> session_builder \<Rightarrow> (nat \<Rightarrow> u32 list) \<Rightarrow> (nat \<Rightarrow> 'e \<times> 'o \<times> 'm) \<Rightarrow>
    (backroll_error + ('i, 'e, 'o, 'm) session) option" where
  "builder_start X b draws ends = session_new X b draws ends"

section \<open>Handles, synchronization and disconnects\<close>

definition remote_peers :: "('i, 'e, 'o, 'm) session \<Rightarrow> ('i, 'e, 'o, 'm) peer list" where
  "remote_peers s = List.map_filter player_peer (filter is_remote_player (se_players s))"

definition player_handle_to_queue :: "player_handle \<Rightarrow> ('i, 'e, 'o, 'm) session \<Rightarrow> backroll_error + nat" where
  "player_handle_to_queue player s =
     (if player \<ge> sy_player_count (se_sync s) then Inl (InvalidPlayer player) else Inr player)"

text \<open>The loop of \<open>is_synchronized\<close>.\<close>

fun synchronized_from ::
    "connection_status list \<Rightarrow> nat \<Rightarrow> ('i, 'e, 'o, 'm) peer player_type list \<Rightarrow> bool option" where
  "synchronized_from statuses i [] = Some True"
| "synchronized_from statuses i (player # players) =
     do { waiting \<leftarrow> lazy_and (\<not> is_local player \<and> \<not> player_is_synchronized player)
            (do { status \<leftarrow> index_at statuses i; Some (\<not> cs_disconnected status) });
          if waiting then Some False else synchronized_from statuses (i + 1) players }"

definition session_is_synchronized :: "('i, 'e, 'o, 'm) session \<Rightarrow> bool option" where
  "session_is_synchronized s = synchronized_from (se_local_connect_status s) 0 (se_players s)"

fun push_command :: "'i command \<Rightarrow> ('i, 'g, 'e, 'o, 'm) session_run \<Rightarrow> ('i, 'g, 'e, 'o, 'm) session_run" where
  "push_command c (commands, s, store) = (commands @ [c], s, store)"

fun check_initial_sync ::
    "('i, 'g, 'e, 'o, 'm) session_run \<Rightarrow> ('i, 'g, 'e, 'o, 'm) session_run option" where
  "check_initial_sync (commands, s, store) =
     do { ready \<leftarrow> lazy_and (se_synchronizing s) (session_is_synchronized s);
          Some (if ready then (commands @ [Event Running], s\<lparr>se_synchronizing := False\<rparr>, store)
                else (commands, s, store)) }"

text \<open>An operation of the session's \<open>Sync\<close>.\<close>

fun with_sync ::
    "(('i, 'g) sync_run \<Rightarrow> ('i, 'g) sync_run option) \<Rightarrow>
       ('i, 'g, 'e, 'o, 'm) session_run \<Rightarrow> ('i, 'g, 'e, 'o, 'm) session_run option" where
  "with_sync f (commands, s, store) =
     do { r \<leftarrow> f (commands, se_sync s, store);
          Some (fst r, s\<lparr>se_sync := fst (snd r)\<rparr>, snd (snd r)) }"

fun disconnect_player_queue ::
    "('i, 'e, 'o, 'm) crates \<Rightarrow> nat \<Rightarrow> frame \<Rightarrow>
       ('i, 'g, 'e, 'o, 'm) session_run \<Rightarrow> ('i, 'g, 'e, 'o, 'm) session_run option" where
  "disconnect_player_queue X queue syncto (commands, s, store) =
     do { let frame_count = sy_frame_count (se_sync s);
          player \<leftarrow> index_at (se_players s) queue;
          statuses \<leftarrow> store_at (se_local_connect_status s) queue
            \<lparr>cs_disconnected = True, cs_last_frame = syncto\<rparr>;
          let s = s\<lparr>se_players := (se_players s)[queue := player_disconnect X player],
                    se_local_connect_status := statuses\<rparr>;
          run \<leftarrow> (if syncto < frame_count
                  then with_sync (adjust_simulation (pod_zeroed (cr_pod X)) statuses syncto) (commands, s, store)
                  else Some (commands, s, store));
          check_initial_sync (push_command (Event (Disconnected queue)) run) }"

text \<open>\<open>for i in 0..self.players.len() { if !self.players[i].is_local() { ... } }\<close>\<close>

fun disconnect_remotes ::
    "('i, 'e, 'o, 'm) crates \<Rightarrow> frame \<Rightarrow> nat list \<Rightarrow>
       ('i, 'g, 'e, 'o, 'm) session_run \<Rightarrow> ('i, 'g, 'e, 'o, 'm) session_run option" where
  "disconnect_remotes X current_frame [] run = Some run"
| "disconnect_remotes X current_frame (i # is) (commands, s, store) =
     do { player \<leftarrow> index_at (se_players s) i;
          run \<leftarrow> (if \<not> is_local player
                  then disconnect_player_queue X i current_frame (commands, s, store)
                  else Some (commands, s, store));
          disconnect_remotes X current_frame is run }"

text \<open>\<open>P2PSessionRef::disconnect_player\<close>\<close>

fun disconnect_player ::
    "('i, 'e, 'o, 'm) crates \<Rightarrow> player_handle \<Rightarrow> ('i, 'g, 'e, 'o, 'm) session_run \<Rightarrow>
       ((backroll_error + unit) \<times> ('i, 'g, 'e, 'o, 'm) session_run) option" where
  "disconnect_player X handle (commands, s, store) =
     (case player_handle_to_queue handle s of
        Inl err \<Rightarrow> Some (Inl err, (commands, s, store))
      | Inr queue \<Rightarrow>
          do { status \<leftarrow> index_at (se_local_connect_status s) queue;
               (if cs_disconnected status then Some (Inl (PlayerDisconnected handle), (commands, s, store))
                else
                  do { player \<leftarrow> index_at (se_players s) queue;
                       run \<leftarrow> (if is_local player
                               then disconnect_remotes X (sy_frame_count (se_sync s))
                                 [0 ..< length (se_players s)] (commands, s, store)
                               else disconnect_player_queue X queue (cs_last_frame status) (commands, s, store));
                       Some (Inr (), run) }) })"

section \<open>Events of the peers\<close>

text \<open>The loop over the inputs of one event, with the write lock on the player's status.\<close>

fun accept_inputs ::
    "nat \<Rightarrow> 'i frame_input list \<Rightarrow> connection_status \<Rightarrow> 'i sync \<Rightarrow> (connection_status \<times> 'i sync) option" where
  "accept_inputs queue [] status sy = Some (status, sy)"
| "accept_inputs queue (input # inputs) status sy =
     do { let current_remote_frame = cs_last_frame status;
          let new_remote_frame = fi_frame input;
          in_order \<leftarrow> lazy_or (is_null current_remote_frame)
            (do { f \<leftarrow> i32_add current_remote_frame 1; Some (new_remote_frame = f) });
          debug_assert in_order;
          sy \<leftarrow> add_remote_input queue input sy;
          accept_inputs queue inputs (status\<lparr>cs_last_frame := new_remote_frame\<rparr>) sy }"

fun handle_event ::
    "nat \<Rightarrow> 'i peer_event \<Rightarrow> ('i, 'g, 'e, 'o, 'm) session_run \<Rightarrow> ('i, 'g, 'e, 'o, 'm) session_run option" where
  "handle_event queue PeerConnected run = Some (push_command (Event (Connected queue)) run)"
| "handle_event queue (PeerSynchronizing tot cnt) run =
     Some (push_command (Event (Synchronizing queue cnt tot)) run)"
| "handle_event queue (PeerInputs inputs) (commands, s, store) =
     do { status \<leftarrow> index_at (se_local_connect_status s) queue;
          (if cs_disconnected status then Some (commands, s, store)
           else
             do { r \<leftarrow> accept_inputs queue inputs status (se_sync s);
                  Some (commands, s\<lparr>se_sync := snd r, se_local_connect_status :=
                    (se_local_connect_status s)[queue := fst r]\<rparr>, store) }) }"
| "handle_event queue PeerSynchronized run =
     check_initial_sync (push_command (Event (Synchronized queue)) run)"
| "handle_event queue (PeerNetworkInterrupted t) run =
     Some (push_command (Event (ConnectionInterrupted queue t)) run)"
| "handle_event queue PeerNetworkResumed run = Some (push_command (Event (Synchronized queue)) run)"

text \<open>\<open>rx.try_recv()\<close>\<close>

definition receive_event ::
    "('i, 'e, 'o, 'm) crates \<Rightarrow> nat \<Rightarrow> ('i, 'e, 'o, 'm) session \<Rightarrow>
       ((try_recv_error + 'i peer_event) \<times> ('i, 'e, 'o, 'm) session) option" where
  "receive_event X queue s =
     do { player \<leftarrow> index_at (se_players s) queue;
          peer \<leftarrow> player_peer player;
          let r = chan_try_recv (cr_events X) (pe_events peer);
          Some (fst r, s\<lparr>se_players := (se_players s)[queue := Remote (peer\<lparr>pe_events := snd r\<rparr>)]\<rparr>) }"

partial_function (option) flush_peer_events ::
    "('i, 'e, 'o, 'm) crates \<Rightarrow> nat \<Rightarrow>
       ('i, 'g, 'e, 'o, 'm) session_run \<Rightarrow> ('i, 'g, 'e, 'o, 'm) session_run option" where
  "flush_peer_events X queue run =
     do { r \<leftarrow> receive_event X queue (fst (snd run));
          let run = (fst run, snd r, snd (snd run));
          case fst r of
            Inr evt \<Rightarrow> do { run \<leftarrow> handle_event queue evt run; flush_peer_events X queue run }
          | Inl TryRecvEmpty \<Rightarrow> Some run
          | Inl TryRecvClosed \<Rightarrow>
              do { d \<leftarrow> disconnect_player X queue run;
                   case fst d of Inl _ \<Rightarrow> None | Inr _ \<Rightarrow> Some (snd d) } }"

text \<open>\<open>flush_events\<close> for the players at the given places.\<close>

fun flush_from ::
    "('i, 'e, 'o, 'm) crates \<Rightarrow> nat \<Rightarrow> ('i, 'e, 'o, 'm) peer player_type list \<Rightarrow>
       ('i, 'g, 'e, 'o, 'm) session_run \<Rightarrow> ('i, 'g, 'e, 'o, 'm) session_run option" where
  "flush_from X queue [] run = Some run"
| "flush_from X queue (player # players) run =
     do { run \<leftarrow> (if is_remote_player player then flush_peer_events X queue run else Some run);
          flush_from X (queue + 1) players run }"

definition flush_events ::
    "('i, 'e, 'o, 'm) crates \<Rightarrow> ('i, 'g, 'e, 'o, 'm) session_run \<Rightarrow> ('i, 'g, 'e, 'o, 'm) session_run option" where
  "flush_events X run = flush_from X 0 (se_players (fst (snd run))) run"

section \<open>The confirmed frame\<close>

text \<open>What the peer says about the player it stands for, unless it is not running.\<close>

definition queue_connected :: "nat \<Rightarrow> ('i, 'e, 'o, 'm) peer player_type \<Rightarrow> bool option" where
  "queue_connected i player =
     (case player_peer player of
        None \<Rightarrow> Some True
      | Some peer \<Rightarrow>
          if peer_is_running peer then
            do { status \<leftarrow> get_peer_connect_status i peer; Some (\<not> cs_disconnected status) }
          else Some True)"

text \<open>The loop of \<open>poll_2_players\<close>.\<close>

fun poll_2_loop ::
    "('i, 'e, 'o, 'm) crates \<Rightarrow> nat list \<Rightarrow> frame \<Rightarrow> ('i, 'g, 'e, 'o, 'm) session_run \<Rightarrow>
       (frame \<times> ('i, 'g, 'e, 'o, 'm) session_run) option" where
  "poll_2_loop X [] min_frame run = Some (min_frame, run)"
| "poll_2_loop X (i # is) min_frame (commands, s, store) =
     do { player \<leftarrow> index_at (se_players s) i;
          linked \<leftarrow> queue_connected i player;
          local_status \<leftarrow> index_at (se_local_connect_status s) i;
          let min_frame = (if \<not> cs_disconnected local_status then min (cs_last_frame local_status) min_frame
                           else min_frame);
          run \<leftarrow> (if \<not> linked \<and> \<not> cs_disconnected local_status
                  then disconnect_player_queue X i min_frame (commands, s, store)
                  else Some (commands, s, store));
          poll_2_loop X is min_frame run }"

definition poll_2_players ::
    "('i, 'e, 'o, 'm) crates \<Rightarrow> ('i, 'g, 'e, 'o, 'm) session_run \<Rightarrow>
       (frame \<times> ('i, 'g, 'e, 'o, 'm) session_run) option" where
  "poll_2_players X run = poll_2_loop X [0 ..< length (se_players (fst (snd run)))] i32_MAX run"

text \<open>The inner loop of \<open>poll_n_players\<close>: what the running peers say about the player of \<open>queue\<close>.\<close>

fun peers_view ::
    "nat \<Rightarrow> ('i, 'e, 'o, 'm) peer player_type list \<Rightarrow> bool \<Rightarrow> frame \<Rightarrow> (bool \<times> frame) option" where
  "peers_view queue [] linked min_confirmed = Some (linked, min_confirmed)"
| "peers_view queue (player # players) linked min_confirmed =
     (case player_peer player of
        None \<Rightarrow> peers_view queue players linked min_confirmed
      | Some peer \<Rightarrow>
          if peer_is_running peer then
            do { status \<leftarrow> get_peer_connect_status queue peer;
                 peers_view queue players (linked \<and> \<not> cs_disconnected status)
                   (min (cs_last_frame status) min_confirmed) }
          else peers_view queue players linked min_confirmed)"

fun poll_n_loop ::
    "('i, 'e, 'o, 'm) crates \<Rightarrow> nat list \<Rightarrow> frame \<Rightarrow> ('i, 'g, 'e, 'o, 'm) session_run \<Rightarrow>
       (frame \<times> ('i, 'g, 'e, 'o, 'm) session_run) option" where
  "poll_n_loop X [] min_frame run = Some (min_frame, run)"
| "poll_n_loop X (queue # queues) min_frame (commands, s, store) =
     do { view \<leftarrow> peers_view queue (se_players s) True i32_MAX;
          local_status \<leftarrow> index_at (se_local_connect_status s) queue;
          let queue_min_confirmed = (if \<not> cs_disconnected local_status
                                     then min (cs_last_frame local_status) (snd view) else snd view);
          (if fst view then
             poll_n_loop X queues (min queue_min_confirmed min_frame) (commands, s, store)
           else
             do { run \<leftarrow> (if \<not> cs_disconnected local_status
                               \<or> cs_last_frame local_status > queue_min_confirmed
                          then disconnect_player_queue X queue queue_min_confirmed (commands, s, store)
                          else Some (commands, s, store));
                  poll_n_loop X queues min_frame run }) }"

definition poll_n_players ::
    "('i, 'e, 'o, 'm) crates \<Rightarrow> ('i, 'g, 'e, 'o, 'm) session_run \<Rightarrow>
       (frame \<times> ('i, 'g, 'e, 'o, 'm) session_run) option" where
  "poll_n_players X run = poll_n_loop X [0 ..< length (se_players (fst (snd run)))] i32_MAX run"

section \<open>Polling\<close>

fun player_set_local_frame_number ::
    "frame \<Rightarrow> ('i, 'e, 'o, 'm) peer player_type \<Rightarrow> ('i, 'e, 'o, 'm) peer player_type option" where
  "player_set_local_frame_number f Local = Some Local"
| "player_set_local_frame_number f (Remote peer) =
     do { peer \<leftarrow> set_local_frame_number f peer; Some (Remote peer) }"

text \<open>\<open>self.players().map(|player| player.recommend_frame_delay())\<close>\<close>

fun recommend_all ::
    "('i, 'e, 'o, 'm) peer player_type list \<Rightarrow> (frame list \<times> ('i, 'e, 'o, 'm) peer player_type list) option" where
  "recommend_all [] = Some ([], [])"
| "recommend_all (Local # players) =
     do { r \<leftarrow> recommend_all players; Some (fst r, Local # snd r) }"
| "recommend_all (Remote peer # players) =
     do { d \<leftarrow> recommend_frame_delay peer;
          r \<leftarrow> recommend_all players;
          Some (fst d # fst r, Remote (snd d) # snd r) }"

text \<open>The end of \<open>do_poll\<close>; the cast \<open>interval as u8\<close> keeps the low byte.\<close>

fun notify_time_sync ::
    "frame \<Rightarrow> ('i, 'g, 'e, 'o, 'm) session_run \<Rightarrow> ('i, 'g, 'e, 'o, 'm) session_run option" where
  "notify_time_sync current_frame (commands, s, store) =
     (if current_frame > se_next_recommended_sleep s then
        do { r \<leftarrow> recommend_all (se_players s);
             let s = s\<lparr>se_players := snd r\<rparr>;
             (case fst r of
                [] \<Rightarrow> Some (commands, s, store)
              | d # ds \<Rightarrow>
                  do { sleep \<leftarrow> i32_add current_frame RECOMMENDATION_INTERVAL;
                       Some (commands @ [Event (TimeSync (word_of_int (foldl max d ds)))],
                             s\<lparr>se_next_recommended_sleep := sleep\<rparr>, store) }) }
      else Some (commands, s, store))"

definition confirmed_frame ::
    "('i, 'e, 'o, 'm) crates \<Rightarrow> frame \<Rightarrow> ('i, 'g, 'e, 'o, 'm) session_run \<Rightarrow>
       (frame \<times> ('i, 'g, 'e, 'o, 'm) session_run) option" where
  "confirmed_frame X current_frame run =
     (let players = se_players (fst (snd run)) in
      if length (filter (\<lambda>player. \<not> is_local player) players) = 0 then Some (current_frame, run)
      else if length (remote_peers (fst (snd run))) \<le> 2 then poll_2_players X run
      else poll_n_players X run)"

fun confirm_run ::
    "frame \<Rightarrow> ('i, 'g, 'e, 'o, 'm) session_run \<Rightarrow> ('i, 'g, 'e, 'o, 'm) session_run option" where
  "confirm_run min_frame (commands, s, store) =
     (if min_frame \<ge> 0 then
        do { debug_assert (min_frame \<noteq> i32_MAX);
             sy \<leftarrow> set_last_confirmed_frame min_frame (se_sync s);
             Some (commands, s\<lparr>se_sync := sy\<rparr>, store) }
      else Some (commands, s, store))"

text \<open>\<open>do_poll\<close> after the events were taken, when every player is synchronized.\<close>

definition poll_running ::
    "('i, 'e, 'o, 'm) crates \<Rightarrow> ('i, 'g, 'e, 'o, 'm) session_run \<Rightarrow> ('i, 'g, 'e, 'o, 'm) session_run option" where
  "poll_running X run =
     do { run \<leftarrow> with_sync (check_simulation (pod_zeroed (cr_pod X))
            (se_local_connect_status (fst (snd run)))) run;
          let current_frame = sy_frame_count (se_sync (fst (snd run)));
          players \<leftarrow> traverse (player_set_local_frame_number current_frame) (se_players (fst (snd run)));
          c \<leftarrow> confirmed_frame X current_frame
            (fst run, (fst (snd run))\<lparr>se_players := players\<rparr>, snd (snd run));
          run \<leftarrow> confirm_run (fst c) (snd c);
          notify_time_sync current_frame run }"

definition do_poll ::
    "('i, 'e, 'o, 'm) crates \<Rightarrow> ('i, 'g, 'e, 'o, 'm) session_run \<Rightarrow> ('i, 'g, 'e, 'o, 'm) session_run option" where
  "do_poll X run =
     (if sy_rolling_back (se_sync (fst (snd run))) then Some run
      else
        do { run \<leftarrow> flush_events X run;
             if se_synchronizing (fst (snd run)) then Some run else poll_running X run })"

section \<open>The methods of the session\<close>

definition session_player_count :: "('i, 'e, 'o, 'm) session \<Rightarrow> nat" where
  "session_player_count s = sy_player_count (se_sync s)"

definition in_rollback :: "('i, 'e, 'o, 'm) session \<Rightarrow> bool" where
  "in_rollback s = sy_rolling_back (se_sync s)"

definition current_frame :: "('i, 'e, 'o, 'm) session \<Rightarrow> frame" where
  "current_frame s = sy_frame_count (se_sync s)"

definition local_players :: "('i, 'e, 'o, 'm) session \<Rightarrow> player_handle list" where
  "local_players s = map fst (filter (\<lambda>(i, player). is_local player) (enumerate 0 (se_players s)))"

definition remote_players :: "('i, 'e, 'o, 'm) session \<Rightarrow> player_handle list" where
  "remote_players s = map fst (filter (\<lambda>(i, player). is_remote_player player) (enumerate 0 (se_players s)))"

definition add_local_input ::
    "('i, 'e, 'o, 'm) crates \<Rightarrow> player_handle \<Rightarrow> 'i \<Rightarrow> ('i, 'e, 'o, 'm) session \<Rightarrow>
       ((backroll_error + unit) \<times> ('i, 'e, 'o, 'm) session) option" where
  "add_local_input X player input s =
     (if sy_rolling_back (se_sync s) then Some (Inl InRollback, s)
      else if se_synchronizing s then Some (Inl NotSynchronized, s)
      else
        (case player_handle_to_queue player s of
           Inl err \<Rightarrow> Some (Inl err, s)
         | Inr queue \<Rightarrow>
             do { player \<leftarrow> index_at (se_players s) queue;
                  debug_assert (is_local player);
                  r \<leftarrow> sync_add_local_input queue input (se_sync s);
                  let s = s\<lparr>se_sync := snd r\<rparr>;
                  (case fst r of
                     Inl err \<Rightarrow> Some (Inl err, s)
                   | Inr frame \<Rightarrow>
                       if \<not> is_null frame then
                         do { status \<leftarrow> index_at (se_local_connect_status s) queue;
                              let statuses = (se_local_connect_status s)[queue := status\<lparr>cs_last_frame := frame\<rparr>];
                              players \<leftarrow> traverse
                                (player_send_input X statuses \<lparr>fi_frame = frame, fi_input = input\<rparr>) (se_players s);
                              Some (Inr (), s\<lparr>se_local_connect_status := statuses, se_players := players\<rparr>) }
                       else Some (Inr (), s)) }))"

text \<open>The result of the methods that make commands, from the store the client shares.\<close>

definition session_advance_frame ::
    "('i, 'e, 'o, 'm) crates \<Rightarrow> ('i, 'e, 'o, 'm) session \<times> 'g store \<Rightarrow> ('i, 'g, 'e, 'o, 'm) session_run option" where
  "session_advance_frame X st =
     (let run = ([], st) in
      do { run \<leftarrow> (if \<not> se_synchronizing (fst st)
                   then with_sync (increment_frame (pod_zeroed (cr_pod X)) (se_local_connect_status (fst st))) run
                   else Some run);
           do_poll X run })"

definition session_poll ::
    "('i, 'e, 'o, 'm) crates \<Rightarrow> ('i, 'e, 'o, 'm) session \<times> 'g store \<Rightarrow> ('i, 'g, 'e, 'o, 'm) session_run option" where
  "session_poll X st = do_poll X ([], st)"

text \<open>\<open>P2PSession::disconnect_player\<close>\<close>

definition session_disconnect_player ::
    "('i, 'e, 'o, 'm) crates \<Rightarrow> player_handle \<Rightarrow> ('i, 'e, 'o, 'm) session \<times> 'g store \<Rightarrow>
       (backroll_error + ('i, 'g, 'e, 'o, 'm) session_run) option" where
  "session_disconnect_player X player st =
     (let s = fst st; run = ([], st) in
      case player_handle_to_queue player s of
        Inl err \<Rightarrow> Some (Inl err)
      | Inr queue \<Rightarrow>
          do { status \<leftarrow> index_at (se_local_connect_status s) queue;
               (if cs_disconnected status then Some (Inl (PlayerDisconnected player))
                else
                  do { player \<leftarrow> index_at (se_players s) queue;
                       run \<leftarrow> (if is_local player
                               then disconnect_remotes X (sy_frame_count (se_sync s))
                                 [0 ..< length (se_players s)] run
                               else disconnect_player_queue X queue (cs_last_frame status) run);
                       Some (Inr run) }) })"

definition session_get_network_stats ::
    "('i, 'e, 'o, 'm) crates \<Rightarrow> player_handle \<Rightarrow> ('i, 'e, 'o, 'm) session \<Rightarrow>
       (backroll_error + network_stats) option" where
  "session_get_network_stats X player s =
     (case player_handle_to_queue player s of
        Inl err \<Rightarrow> Some (Inl err)
      | Inr queue \<Rightarrow>
          do { player \<leftarrow> index_at (se_players s) queue;
               Some (Inr (case player_get_network_stats X player of
                            Some stats \<Rightarrow> stats | None \<Rightarrow> network_stats_default)) })"

definition session_set_frame_delay ::
    "player_handle \<Rightarrow> frame \<Rightarrow> ('i, 'e, 'o, 'm) session \<Rightarrow>
       ((backroll_error + unit) \<times> ('i, 'e, 'o, 'm) session) option" where
  "session_set_frame_delay player delay s =
     (case player_handle_to_queue player s of
        Inl err \<Rightarrow> Some (Inl err, s)
      | Inr queue \<Rightarrow>
          do { sy \<leftarrow> sync_set_frame_delay queue delay (se_sync s);
               Some (Inr (), s\<lparr>se_sync := sy\<rparr>) })"

declare disconnect_player_queue.simps [simp del] check_initial_sync.simps [simp del]
  notify_time_sync.simps [simp del] disconnect_player.simps [simp del]

end
