(* ===== verification/Handshake.thy ===== *)
theory Handshake
  imports Protocol
begin

text \<open>
  A connection as a state machine: the session's clone of a \<open>Peer\<close>, the clone of its main task, and
  the events the session has taken from the channel. A step is one iteration of a task, one message
  or timer tick of the main task, or one call of the session; the clones share everything but their
  connection statuses. The invariant ties the state machine to the events that were reported.
\<close>

section \<open>What the channels hold\<close>

record ('i, 'e, 'o, 'm) views =
  vw_events :: "'e \<Rightarrow> 'i peer_event list"
  vw_events_shut :: "'e \<Rightarrow> bool"
  vw_out :: "'o \<Rightarrow> message_data list"
  vw_out_shut :: "'o \<Rightarrow> bool"
  vw_in :: "'m \<Rightarrow> message list"
  vw_in_shut :: "'m \<Rightarrow> bool"

definition channels_ok :: "('i, 'e, 'o, 'm) crates \<Rightarrow> ('i, 'e, 'o, 'm) views \<Rightarrow> bool" where
  "channels_ok X W \<longleftrightarrow> unbounded_channel (cr_events X) (vw_events W) (vw_events_shut W) \<and>
     unbounded_channel (cr_out X) (vw_out W) (vw_out_shut W) \<and>
     unbounded_channel (cr_in X) (vw_in W) (vw_in_shut W)"

lemma push_event_open:
  assumes "channels_ok X W" and "\<not> vw_events_shut W (pe_events p)"
  obtains c where "push_event X e p = Some (Inr (), p\<lparr>pe_events := c\<rparr>)"
    and "vw_events W c = vw_events W (pe_events p) @ [e]" and "\<not> vw_events_shut W c"
  using assms unfolding channels_ok_def
  by (auto simp: push_event_def elim: unbounded_channel.try_send_open[where c = "pe_events p" and x = e])

lemma push_event_shut:
  "channels_ok X W \<Longrightarrow> vw_events_shut W (pe_events p) \<Longrightarrow>
     push_event X e p = Some (Inl LocalDisconnected, p)"
  using unbounded_channel.try_send_shut[of "cr_events X" "vw_events W" "vw_events_shut W" "pe_events p" e]
  by (simp add: channels_ok_def push_event_def)

lemma send_open:
  assumes "channels_ok X W" and "\<not> vw_out_shut W (pe_message_out p)"
  obtains c where "send X m p = Some (Inr (), p\<lparr>pe_message_out := c\<rparr>)"
    and "vw_out W c = vw_out W (pe_message_out p) @ [m]" and "\<not> vw_out_shut W c"
  using assms unfolding channels_ok_def
  by (auto simp: send_def elim: unbounded_channel.try_send_open[where c = "pe_message_out p" and x = m])

lemma send_shut:
  "channels_ok X W \<Longrightarrow> vw_out_shut W (pe_message_out p) \<Longrightarrow>
     send X m p = Some (Inl RemoteDisconnected, p)"
  using unbounded_channel.try_send_shut[of "cr_out X" "vw_out W" "vw_out_shut W" "pe_message_out p" m]
  by (simp add: channels_ok_def send_def)

section \<open>The invariant of a connection\<close>

fun is_handshake_event :: "'i peer_event \<Rightarrow> bool" where
  "is_handshake_event PeerConnected = True"
| "is_handshake_event (PeerSynchronizing _ _) = True"
| "is_handshake_event PeerSynchronized = True"
| "is_handshake_event _ = False"

text \<open>The events of a handshake after \<open>k\<close> of its round trips, and of a finished one.\<close>

definition handshake :: "nat \<Rightarrow> 'i peer_event list" where
  "handshake k = PeerConnected # map (\<lambda>i. PeerSynchronizing NUM_SYNC_PACKETS (Suc i)) [0 ..< k]"

definition full_handshake :: "'i peer_event list" where
  "full_handshake = handshake (NUM_SYNC_PACKETS - 1) @ [PeerSynchronized]"

lemma handshake_Suc: "handshake (Suc k) = handshake k @ [PeerSynchronizing NUM_SYNC_PACKETS (Suc k)]"
  by (simp add: handshake_def)

lemma filter_handshake [simp]: "filter is_handshake_event (handshake k) = handshake k"
  by (simp add: handshake_def filter_map comp_def)

fun progress :: "peer_state \<Rightarrow> 'i peer_event list \<Rightarrow> bool" where
  "progress (PeerConnecting _) es \<longleftrightarrow> es = []"
| "progress (PeerSyncing _ k) es \<longleftrightarrow> 1 \<le> k \<and> k \<le> NUM_SYNC_PACKETS \<and> es = handshake (NUM_SYNC_PACKETS - k)"
| "progress (PeerRunning _) es \<longleftrightarrow> es = full_handshake"
| "progress (PeerInterrupted _) es \<longleftrightarrow> es = full_handshake"
| "progress PeerDisconnected es \<longleftrightarrow> (\<exists>later. es @ later = full_handshake)"

lemma handshake_prefix: "k < NUM_SYNC_PACKETS \<Longrightarrow> \<exists>later. handshake k @ later = full_handshake"
proof -
  assume k: "k < NUM_SYNC_PACKETS"
  then have "[0 ..< NUM_SYNC_PACKETS - 1] = [0 ..< k] @ [k ..< NUM_SYNC_PACKETS - 1]"
    using upt_add_eq_append[of 0 k "NUM_SYNC_PACKETS - 1 - k"] by simp
  then show ?thesis by (auto simp: full_handshake_def handshake_def)
qed

lemma progress_prefix: "progress s es \<Longrightarrow> \<exists>later. es @ later = full_handshake"
  by (cases s) (auto simp: NUM_SYNC_PACKETS_def intro!: handshake_prefix)

definition conn_inv ::
    "('i, 'e, 'o, 'm) views \<Rightarrow> 'i peer_event list \<Rightarrow> ('i, 'e, 'o, 'm) peer \<Rightarrow> bool" where
  "conn_inv W received p \<longleftrightarrow>
     (vw_events_shut W (pe_events p) \<longleftrightarrow> pe_state p = PeerDisconnected) \<and>
     (vw_out_shut W (pe_message_out p) \<longleftrightarrow> pe_state p = PeerDisconnected) \<and>
     progress (pe_state p) (filter is_handshake_event (received @ vw_events W (pe_events p)))"

text \<open>What most operations do: the state machine and the events stay, at most messages are queued.\<close>

definition quiet_change ::
    "('i, 'e, 'o, 'm) views \<Rightarrow> ('i, 'e, 'o, 'm) peer \<Rightarrow> ('i, 'e, 'o, 'm) peer \<Rightarrow> bool" where
  "quiet_change W p p' \<longleftrightarrow> pe_state p' = pe_state p \<and> pe_events p' = pe_events p \<and>
     vw_out_shut W (pe_message_out p') = vw_out_shut W (pe_message_out p)"

lemma quiet_change_inv: "quiet_change W p p' \<Longrightarrow> conn_inv W received p \<Longrightarrow> conn_inv W received p'"
  by (simp add: quiet_change_def conn_inv_def)

lemma quiet_change_trans: "quiet_change W p q \<Longrightarrow> quiet_change W q r \<Longrightarrow> quiet_change W p r"
  by (simp add: quiet_change_def)

lemma send_quiet:
  assumes "channels_ok X W"
  obtains r p' where "send X m p = Some (r, p')" and "quiet_change W p p'"
proof (cases "vw_out_shut W (pe_message_out p)")
  case True
  then show ?thesis using send_shut[OF assms True] by (intro that) (auto simp: quiet_change_def)
next
  case False
  obtain c where "send X m p = Some (Inr (), p\<lparr>pe_message_out := c\<rparr>)" "\<not> vw_out_shut W c"
    using send_open[OF assms False, of m] by blast
  moreover from this False have "quiet_change W p (p\<lparr>pe_message_out := c\<rparr>)"
    by (simp add: quiet_change_def)
  ultimately show ?thesis by (intro that)
qed

lemma send_quietD:
  "channels_ok X W \<Longrightarrow> send X m p = Some (r, p') \<Longrightarrow> quiet_change W p p'"
  by (rule send_quiet[of X W m p]) auto

text \<open>An event that is not part of the handshake keeps the invariant.\<close>

lemma push_event_inv:
  assumes ok: "channels_ok X W" and inv: "conn_inv W received p"
    and e: "\<not> is_handshake_event e"
  obtains r p' where "push_event X e p = Some (r, p')" and "conn_inv W received p'"
    and "pe_state p' = pe_state p" and "pe_message_out p' = pe_message_out p"
proof (cases "vw_events_shut W (pe_events p)")
  case True
  then show ?thesis using push_event_shut[OF ok True] inv by (intro that) auto
next
  case False
  obtain c where c: "push_event X e p = Some (Inr (), p\<lparr>pe_events := c\<rparr>)"
    "vw_events W c = vw_events W (pe_events p) @ [e]" "\<not> vw_events_shut W c"
    using push_event_open[OF ok False, of e] by blast
  with inv e False show ?thesis by (intro that[OF c(1)]) (auto simp: conn_inv_def)
qed

lemma conn_inv_disconnect:
  assumes "channels_ok X W" and "conn_inv W received p"
  shows "conn_inv W received (peer_disconnect X p)"
proof -
  have "\<exists>later. filter is_handshake_event (received @ vw_events W (pe_events p)) @ later = full_handshake"
    using assms(2) progress_prefix unfolding conn_inv_def by blast
  then show ?thesis
  using assms unbounded_channel.chan_close[of "cr_events X" "vw_events W" "vw_events_shut W" "pe_events p"]
    unbounded_channel.chan_close[of "cr_out X" "vw_out W" "vw_out_shut W" "pe_message_out p"]
    by (simp add: conn_inv_def peer_disconnect_def channels_ok_def)
qed

section \<open>Handlers keep the invariant\<close>

lemma send_pending_outputE:
  assumes "send_pending_output X sts p = Some (r, p')"
  obtains m e where "send X m (p\<lparr>pe_input_encoder := e\<rparr>) = Some (r, p')"
proof -
  obtain res e where e: "encoder_encode (cr_varint X) (cr_pod X) (pe_input_encoder p) = Some (res, e)"
    using assms by (auto simp: send_pending_output_def bind_eq_Some_conv)
  then show ?thesis
    using assms by (cases res) (auto simp: send_pending_output_def intro: that)
qed

lemma send_pending_output_quiet:
  assumes "channels_ok X W" and "send_pending_output X sts p = Some (r, p')"
  shows "quiet_change W p p'"
proof -
  obtain m e where "send X m (p\<lparr>pe_input_encoder := e\<rparr>) = Some (r, p')"
    using send_pending_outputE[OF assms(2)] .
  from send_quietD[OF assms(1) this] show ?thesis by (simp add: quiet_change_def)
qed

lemma send_input_quiet:
  assumes "channels_ok X W" and "send_input X sts input p = Some (r, p')"
  shows "quiet_change W p p'"
proof -
  obtain ts e where "send_pending_output X sts (p\<lparr>pe_timesync := ts, pe_input_encoder := e\<rparr>) = Some (r, p')
      \<or> send_pending_output X sts p = Some (r, p')"
    using assms(2) unfolding send_input_def
    by (cases "state_is_running (pe_state p)") (auto simp: bind_eq_Some_conv)
  then show ?thesis
    using send_pending_output_quiet[OF assms(1)] by (fastforce simp: quiet_change_def)
qed

lemma on_sync_request_quiet:
  "channels_ok X W \<Longrightarrow> on_sync_request X magic random p = Some (r, p') \<Longrightarrow> quiet_change W p p'"
  by (auto simp: on_sync_request_def quiet_change_def split: peer_state.splits if_splits dest!: send_quietD)

lemma on_quality_report_quiet:
  "channels_ok X W \<Longrightarrow> on_quality_report X adv ping p = Some (r, p') \<Longrightarrow> quiet_change W p p'"
  by (auto simp: on_quality_report_def quiet_change_def dest!: send_quietD)

text \<open>What a matching sync reply does in each state of an open connection.\<close>

lemma reply_connecting:
  assumes ok: "channels_ok X W" and inv: "conn_inv W received p" and s: "pe_state p = PeerConnecting r"
  obtains p' where "on_sync_reply X now magic r p = Some (Inr (), p')"
    and "pe_state p' = PeerSyncing r NUM_SYNC_PACKETS" and "conn_inv W received p'"
    and "vw_events W (pe_events p') = vw_events W (pe_events p) @ [PeerConnected]"
    and "vw_out W (pe_message_out p') = vw_out W (pe_message_out p) @ [SyncRequest r]"
proof -
  have shut: "\<not> vw_events_shut W (pe_events p)" "\<not> vw_out_shut W (pe_message_out p)"
    using inv s by (simp_all add: conn_inv_def)
  obtain c where c: "push_event X PeerConnected p = Some (Inr (), p\<lparr>pe_events := c\<rparr>)"
    "vw_events W c = vw_events W (pe_events p) @ [PeerConnected]" "\<not> vw_events_shut W c"
    using push_event_open[OF ok shut(1)] by blast
  let ?p = "p\<lparr>pe_events := c, pe_state := PeerSyncing r NUM_SYNC_PACKETS\<rparr>"
  obtain d where d: "send X (SyncRequest r) ?p = Some (Inr (), ?p\<lparr>pe_message_out := d\<rparr>)"
    "vw_out W d = vw_out W (pe_message_out p) @ [SyncRequest r]" "\<not> vw_out_shut W d"
    using send_open[OF ok, of ?p] shut(2) by auto
  show ?thesis
  proof (rule that[of "?p\<lparr>pe_message_out := d\<rparr>"])
    show "on_sync_reply X now magic r p = Some (Inr (), ?p\<lparr>pe_message_out := d\<rparr>)"
      using c d s by (simp add: on_sync_reply_def accept_sync_reply_def send_sync_request_def)
    show "conn_inv W received (?p\<lparr>pe_message_out := d\<rparr>)"
      using inv s c d by (simp add: conn_inv_def NUM_SYNC_PACKETS_def handshake_def)
  qed (use c d in simp_all)
qed

lemma reply_syncing:
  fixes p :: "('i, 'e, 'o, 'm) peer"
  assumes ok: "channels_ok X W" and inv: "conn_inv W received p"
    and s: "pe_state p = PeerSyncing r (Suc (Suc k))"
  obtains p' where "on_sync_reply X now magic r p = Some (Inr (), p')"
    and "pe_state p' = PeerSyncing r (Suc k)" and "conn_inv W received p'"
    and "vw_events W (pe_events p') = vw_events W (pe_events p) @
      [PeerSynchronizing NUM_SYNC_PACKETS (NUM_SYNC_PACKETS - Suc k)]"
    and "vw_out W (pe_message_out p') = vw_out W (pe_message_out p) @ [SyncRequest r]"
proof -
  have shut: "\<not> vw_events_shut W (pe_events p)" "\<not> vw_out_shut W (pe_message_out p)"
    and k: "Suc (Suc k) \<le> NUM_SYNC_PACKETS"
    using inv s by (simp_all add: conn_inv_def)
  let ?q = "p\<lparr>pe_state := PeerSyncing r (Suc k)\<rparr>" and ?e = "PeerSynchronizing NUM_SYNC_PACKETS (NUM_SYNC_PACKETS - Suc k)"
  obtain c where c: "push_event X ?e ?q = Some (Inr (), ?q\<lparr>pe_events := c\<rparr>)"
    "vw_events W c = vw_events W (pe_events p) @ [?e]" "\<not> vw_events_shut W c"
    using push_event_open[OF ok, of ?q ?e] shut(1) by auto
  let ?p = "?q\<lparr>pe_events := c\<rparr>"
  obtain d where d: "send X (SyncRequest r) ?p = Some (Inr (), ?p\<lparr>pe_message_out := d\<rparr>)"
    "vw_out W d = vw_out W (pe_message_out p) @ [SyncRequest r]" "\<not> vw_out_shut W d"
    using send_open[OF ok, of ?p] shut(2) by auto
  have step: "(handshake (NUM_SYNC_PACKETS - Suc k) :: 'i peer_event list) = handshake (NUM_SYNC_PACKETS - Suc (Suc k)) @ [?e]"
    using handshake_Suc[of "NUM_SYNC_PACKETS - Suc (Suc k)"] k by (simp add: Suc_diff_Suc)
  show ?thesis
  proof (rule that[of "?p\<lparr>pe_message_out := d\<rparr>"])
    show "on_sync_reply X now magic r p = Some (Inr (), ?p\<lparr>pe_message_out := d\<rparr>)"
      using c d s k by (simp add: on_sync_reply_def accept_sync_reply_def send_sync_request_def)
    show "conn_inv W received (?p\<lparr>pe_message_out := d\<rparr>)"
      using inv s c d k step by (simp add: conn_inv_def append_assoc[symmetric] del: append_assoc)
  qed (use c d in simp_all)
qed

lemma reply_last:
  assumes ok: "channels_ok X W" and inv: "conn_inv W received p" and s: "pe_state p = PeerSyncing r 1"
  obtains p' where "on_sync_reply X now magic r p = Some (Inr (), p')"
    and "pe_state p' = PeerRunning magic" and "conn_inv W received p'"
    and "vw_events W (pe_events p') = vw_events W (pe_events p) @ [PeerSynchronized]"
    and "pe_message_out p' = pe_message_out p"
proof -
  have shut: "\<not> vw_events_shut W (pe_events p)" "\<not> vw_out_shut W (pe_message_out p)"
    using inv s by (simp_all add: conn_inv_def)
  let ?q = "p\<lparr>pe_state := PeerSyncing r 0\<rparr>"
  obtain c where c: "push_event X PeerSynchronized ?q = Some (Inr (), ?q\<lparr>pe_events := c\<rparr>)"
    "vw_events W c = vw_events W (pe_events p) @ [PeerSynchronized]" "\<not> vw_events_shut W c"
    using push_event_open[OF ok, of ?q PeerSynchronized] shut(1) by auto
  let ?p = "?q\<lparr>pe_events := c, pe_stats := (pe_stats ?q)\<lparr>st_last_input_packet_recv_time := now\<rparr>,
    pe_state := PeerRunning magic\<rparr>"
  show ?thesis
  proof (rule that[of ?p])
    show "on_sync_reply X now magic r p = Some (Inr (), ?p)"
      using c s by (simp add: on_sync_reply_def accept_sync_reply_def)
    show "conn_inv W received ?p"
      using inv s c shut by (simp add: conn_inv_def full_handshake_def)
  qed (use c in simp_all)
qed

text \<open>No sync reply panics, and the invariant is kept whatever its contents.\<close>

lemma on_sync_reply_inv:
  assumes ok: "channels_ok X W" and inv: "conn_inv W received p"
  obtains r p' where "on_sync_reply X now magic reply p = Some (r, p')" and "conn_inv W received p'"
proof (cases "state_random (pe_state p) = Some reply")
  case True
  then consider "pe_state p = PeerConnecting reply" | k where "pe_state p = PeerSyncing reply k"
    by (cases "pe_state p") auto
  then show ?thesis
  proof cases
    case 1
    then show ?thesis using reply_connecting[OF ok inv] that by metis
  next
    case (2 k)
    then have "1 \<le> k" using inv by (simp add: conn_inv_def)
    then consider "k = 1" | j where "k = Suc (Suc j)"
      by (cases k rule: nat.exhaust) (auto, metis Suc_pred nat_less_le zero_less_Suc not0_implies_Suc)
    then show ?thesis
      using 2 reply_last[OF ok inv] reply_syncing[OF ok inv] that by cases metis+
  qed
next
  case False
  then have "\<exists>r. on_sync_reply X now magic reply p = Some (r, p)"
    by (cases "pe_state p") (auto simp: on_sync_reply_def accept_sync_reply_def)
  then show ?thesis using inv that by blast
qed

lemma report_inputs_inv:
  assumes ok: "channels_ok X W" and inv: "conn_inv W received p"
    and h: "report_inputs X now inputs p = Some (r, p')"
  shows "conn_inv W received p'"
proof (cases "inputs = []")
  case True
  then show ?thesis using h inv by (simp add: report_inputs_def)
next
  case False
  obtain re q where q: "push_event X (PeerInputs inputs) p = Some (re, q)" "conn_inv W received q"
    by (rule push_event_inv[OF ok inv, of "PeerInputs inputs"]) simp_all
  let ?q = "q\<lparr>pe_stats := (pe_stats q)\<lparr>st_last_input_packet_recv_time := now\<rparr>\<rparr>"
  have "conn_inv W received ?q" using q(2) by (simp add: conn_inv_def)
  then have "conn_inv W received t" if "send X m ?q = Some (rs, t)" for m rs t
    using send_quietD[OF ok that] quiet_change_inv by blast
  then show ?thesis
    using h q False by (auto simp: report_inputs_def and_then_Some)
qed

lemma on_input_inv:
  assumes ok: "channels_ok X W" and inv: "conn_inv W received p" and h: "on_input X now msg p = Some (r, p')"
  shows "conn_inv W received p'"
proof -
  obtain sts res d where d: "merge_statuses 0 (in_peer_connect_status msg) (pe_peer_connect_status p) = Some sts"
    "decoder_decode (cr_varint X) (cr_pod X) (in_start_frame msg) (in_bits msg) (pe_input_decoder p) = Some (res, d)"
    using h by (auto simp: on_input_def bind_eq_Some_conv Let_def)
  let ?p = "p\<lparr>pe_peer_connect_status := sts, pe_input_decoder := d\<rparr>"
  have inv': "conn_inv W received ?p" using inv by (simp add: conn_inv_def)
  show ?thesis
  proof (cases res)
    case (Inl e)
    then show ?thesis using h d inv' by (simp add: on_input_def)
  next
    case (Inr inputs)
    then have "and_then (report_inputs X now inputs ?p) (\<lambda>_ p. Some (Inr (), p\<lparr>pe_input_encoder :=
        acknowledge_frame (in_ack_frame msg) (pe_input_encoder p)\<rparr>)) = Some (r, p')"
      using h d by (simp add: on_input_def)
    then obtain re q where q: "report_inputs X now inputs ?p = Some (re, q)"
      "pe_state p' = pe_state q" "pe_events p' = pe_events q" "pe_message_out p' = pe_message_out q"
      unfolding and_then_Some by auto
    have "conn_inv W received q" by (rule report_inputs_inv[OF ok inv' q(1)])
    then show ?thesis using q by (simp add: conn_inv_def)
  qed
qed

lemma handle_message_inv:
  assumes ok: "channels_ok X W" and inv: "conn_inv W received p"
    and h: "handle_message X now magic data p = Some (r, p')"
  shows "conn_inv W received p'"
proof (cases data)
  case KeepAlive
  then show ?thesis using h inv by simp
next
  case (SyncRequest random)
  then show ?thesis using h inv on_sync_request_quiet[OF ok] quiet_change_inv by fastforce
next
  case (SyncReply random)
  then show ?thesis using h on_sync_reply_inv[OF ok inv, of now magic random] by auto
next
  case (InputMsg msg)
  then show ?thesis using h on_input_inv[OF ok inv] by simp
next
  case (InputAck f)
  then show ?thesis using h inv by (auto simp: conn_inv_def)
next
  case (QualityReport adv ping)
  then show ?thesis using h inv on_quality_report_quiet[OF ok] quiet_change_inv by fastforce
next
  case (QualityReply pong)
  then show ?thesis using h inv by (auto simp: conn_inv_def bind_eq_Some_conv)
qed

lemma conn_inv_resume: "conn_inv W received p \<Longrightarrow> conn_inv W received (p\<lparr>pe_state := snd (resume (pe_state p))\<rparr>)"
  by (cases "pe_state p") (auto simp: conn_inv_def)

lemma conn_inv_interrupt:
  "conn_inv W received p \<Longrightarrow> conn_inv W received (p\<lparr>pe_state := snd (interrupt (pe_state p))\<rparr>)"
  by (cases "pe_state p") (auto simp: conn_inv_def)

lemma run_message_inv:
  assumes ok: "channels_ok X W" and inv: "conn_inv W received p"
    and h: "run_message X t1 t2 m recv p = Some (r, p')"
  shows "conn_inv W received p'"
proof (cases m)
  case None
  then show ?thesis using h inv by (simp add: run_message_def)
next
  case (Some msg)
  then obtain res q where q: "handle_message X t1 (msg_magic msg) (msg_data msg) p = Some (res, q)"
    using h by (auto simp: run_message_def bind_eq_Some_conv)
  have invq: "conn_inv W received q" by (rule handle_message_inv[OF ok inv q])
  show ?thesis
  proof (cases res)
    case (Inl e)
    then show ?thesis
      using h Some q invq conn_inv_disconnect[OF ok invq]
      by (cases e) (auto simp: run_message_def)
  next
    case (Inr u)
    let ?q = "q\<lparr>pe_state := snd (resume (pe_state q))\<rparr>"
    obtain re t where "push_event X PeerNetworkResumed ?q = Some (re, t)" "conn_inv W received t"
      by (rule push_event_inv[OF ok conn_inv_resume[OF invq], of PeerNetworkResumed]) simp_all
    then show ?thesis
      using h Some q Inr conn_inv_resume[OF invq]
      by (cases re) (auto simp: run_message_def Let_def split: if_splits)
  qed
qed

lemma send_sync_request_quiet:
  "channels_ok X W \<Longrightarrow> send_sync_request X p = Some (r, p') \<Longrightarrow> quiet_change W p p'"
  by (auto simp: send_sync_request_def bind_eq_Some_conv dest: send_quietD)

lemma peer_poll_quiet:
  "channels_ok X W \<Longrightarrow> peer_poll X now p = Some (r, p') \<Longrightarrow> quiet_change W p p'"
  by (auto simp: peer_poll_def sync_retry_def bind_eq_Some_conv split: peer_state.split_asm option.split_asm
      if_split_asm dest: send_sync_request_quiet) (simp_all add: quiet_change_def)

text \<open>The last part of the timer branch.\<close>

lemma timer_end_inv:
  assumes ok: "channels_ok X W" and inv: "conn_inv W received p"
    and h: "(if b then Some (Inl RemoteDisconnected, peer_disconnect X p)
      else and_then (peer_poll X now p) (\<lambda>_ p. Some (Inr recv, p))) = Some (r, p')"
  shows "conn_inv W received p'"
proof (cases b)
  case True
  then show ?thesis using h conn_inv_disconnect[OF ok inv] by simp
next
  case False
  then obtain res where "peer_poll X now p = Some (res, p')"
    using h by (auto simp: and_then_Some)
  then show ?thesis using peer_poll_quiet[OF ok] inv quiet_change_inv by blast
qed

lemma notify_interrupted_inv:
  assumes ok: "channels_ok X W" and inv: "conn_inv W received p"
    and h: "notify_interrupted X now recv p = Some (r, p')"
  shows "conn_inv W received p'"
proof -
  let ?q = "p\<lparr>pe_state := snd (interrupt (pe_state p))\<rparr>"
  have "conn_inv W received t" if "push_event X (PeerNetworkInterrupted left) ?q = Some (re, t)" for left re t
    by (rule push_event_inv[OF ok conn_inv_interrupt[OF inv], of "PeerNetworkInterrupted left"]) (use that in simp_all)
  then show ?thesis
    using h inv by (auto simp: notify_interrupted_def bind_eq_Some_conv Let_def split: if_split_asm)
qed

lemma run_timer_inv:
  assumes ok: "channels_ok X W" and inv: "conn_inv W received p"
    and h: "run_timer X now polled recv p = Some (r, p')"
  shows "conn_inv W received p'"
proof -
  obtain res q where q: "notify_interrupted X now recv p = Some (res, q)"
    using h by (auto simp: run_timer_def and_then_def bind_eq_Some_conv)
  have inv': "conn_inv W received q" by (rule notify_interrupted_inv[OF ok inv q])
  then show ?thesis
    using h q timer_end_inv[OF ok inv'] by (cases res) (auto simp: run_timer_def bind_eq_Some_conv)
qed

section \<open>The connection as a state machine\<close>

text \<open>
  What any clone of the peer may do: an iteration of a background task or a call of the session. The
  conditions that end a task's loop are left out, so a task may also run longer than it would. The
  routine ones neither take a new input nor touch the network.
\<close>

inductive peer_routine ::
    "('i, 'e, 'o, 'm) crates \<Rightarrow> ('i, 'e, 'o, 'm) peer \<Rightarrow> ('i, 'e, 'o, 'm) peer \<Rightarrow> bool" for X where
  heartbeat: "heartbeat_step X p = Some (r, p') \<Longrightarrow> peer_routine X p p'"
| quality_report: "send_quality_reports_step X now p = Some (r, p') \<Longrightarrow> peer_routine X p p'"
| resend: "resend_inputs_step X now statuses p = Some (r, p') \<Longrightarrow> peer_routine X p p'"
| network_stats: "update_network_stats_step now start_time p = Some (start_time', p') \<Longrightarrow> peer_routine X p p'"
| frame_number: "set_local_frame_number f p = Some p' \<Longrightarrow> peer_routine X p p'"
| frame_delay: "recommend_frame_delay p = Some (d, p') \<Longrightarrow> peer_routine X p p'"
| disconnect: "peer_routine X p (peer_disconnect X p)"

inductive peer_action ::
    "('i, 'e, 'o, 'm) crates \<Rightarrow> ('i, 'e, 'o, 'm) peer \<Rightarrow> ('i, 'e, 'o, 'm) peer \<Rightarrow> bool" for X where
  routine: "peer_routine X p p' \<Longrightarrow> peer_action X p p'"
| outgoing: "chan_try_recv (cr_out X) (pe_message_out p) = (Inr data, c) \<Longrightarrow>
    serialize_outgoing_step (serialize :: message \<Rightarrow> unit + u8 list) delivered now magic data seq (p\<lparr>pe_message_out := c\<rparr>) = Some (r, p') \<Longrightarrow>
    peer_action X p p'"
| incoming: "deserialize_incoming_step X (deserialize :: u8 list \<Rightarrow> unit + message) bytes seq p = Some (r, p') \<Longrightarrow>
    peer_action X p p'"
| input: "send_input X statuses i p = Some (r, p') \<Longrightarrow> peer_action X p p'"

record ('i, 'e, 'o, 'm) conn =
  cn_session :: "('i, 'e, 'o, 'm) peer"
  cn_task :: "('i, 'e, 'o, 'm) peer"
  cn_received :: "'i peer_event list"

definition conn_new :: "('i, 'e, 'o, 'm) peer \<Rightarrow> ('i, 'e, 'o, 'm) conn" where
  "conn_new p = \<lparr>cn_session = p, cn_task = p, cn_received = []\<rparr>"

definition session_moved :: "('i, 'e, 'o, 'm) peer \<Rightarrow> ('i, 'e, 'o, 'm) conn \<Rightarrow> ('i, 'e, 'o, 'm) conn" where
  "session_moved p c = c\<lparr>cn_session := p, cn_task := shared_with p (cn_task c)\<rparr>"

definition task_moved :: "('i, 'e, 'o, 'm) peer \<Rightarrow> ('i, 'e, 'o, 'm) conn \<Rightarrow> ('i, 'e, 'o, 'm) conn" where
  "task_moved p c = c\<lparr>cn_session := shared_with p (cn_session c), cn_task := p\<rparr>"

text \<open>A message or a timer tick of the main task, or the session taking an event.\<close>

inductive conn_task ::
    "('i, 'e, 'o, 'm) crates \<Rightarrow> ('i, 'e, 'o, 'm) conn \<Rightarrow> ('i, 'e, 'o, 'm) conn \<Rightarrow> bool" for X where
  message: "chan_try_recv (cr_in X) (pe_message_in (cn_task c)) = (Inr m, d) \<Longrightarrow>
    run_message X t1 t2 (Some m) recv ((cn_task c)\<lparr>pe_message_in := d\<rparr>) = Some (r, p) \<Longrightarrow>
    conn_task X c (task_moved p c)"
| timer: "run_timer X t1 t2 recv (cn_task c) = Some (r, p) \<Longrightarrow> conn_task X c (task_moved p c)"
| receive: "chan_try_recv (cr_events X) (pe_events (cn_session c)) = (Inr e, d) \<Longrightarrow>
    conn_task X c ((session_moved ((cn_session c)\<lparr>pe_events := d\<rparr>) c)\<lparr>cn_received := cn_received c @ [e]\<rparr>)"

inductive conn_step ::
    "('i, 'e, 'o, 'm) crates \<Rightarrow> ('i, 'e, 'o, 'm) conn \<Rightarrow> ('i, 'e, 'o, 'm) conn \<Rightarrow> bool" for X where
  action: "peer_action X (cn_session c) p \<Longrightarrow> conn_step X c (session_moved p c)"
| task: "conn_task X c c' \<Longrightarrow> conn_step X c c'"

inductive conn_reachable ::
    "('i, 'e, 'o, 'm) crates \<Rightarrow> ('i, 'e, 'o, 'm) peer \<Rightarrow> ('i, 'e, 'o, 'm) conn \<Rightarrow> bool" for X p where
  start: "conn_reachable X p (conn_new p)"
| step: "conn_reachable X p c \<Longrightarrow> conn_step X c c' \<Longrightarrow> conn_reachable X p c'"

inductive_cases conn_stepE: "conn_step X c c'"

section \<open>Every step keeps the invariant\<close>

lemma peer_routine_inv:
  assumes ok: "channels_ok X W" and act: "peer_routine X p p'" and inv: "conn_inv W received p"
  shows "conn_inv W received p'"
  using act
proof cases
  case (heartbeat r)
  then have "quiet_change W p p'"
    using send_quietD[OF ok] by (auto simp: heartbeat_step_def bind_eq_Some_conv)
  then show ?thesis using inv quiet_change_inv by blast
next
  case (quality_report now r)
  then have "p' = p \<or> (\<exists>m r. send X m p = Some (r, p'))"
    by (auto simp: send_quality_reports_step_def and_then_Some split: if_split_asm)
  then show ?thesis using inv quiet_change_inv send_quietD[OF ok] by blast
next
  case (resend now statuses r)
  let ?p = "p\<lparr>pe_stats := (pe_stats p)\<lparr>st_last_input_packet_recv_time := now\<rparr>\<rparr>"
  have "p' = p \<or> (\<exists>r. send_pending_output X statuses ?p = Some (r, p'))"
    using resend by (auto simp: resend_inputs_step_def and_then_Some bind_eq_Some_conv split: if_split_asm)
  moreover have "conn_inv W received ?p" using inv by (simp add: conn_inv_def)
  ultimately show ?thesis using inv quiet_change_inv send_pending_output_quiet[OF ok] by blast
next
  case (network_stats now start_time start_time')
  then have "pe_state p' = pe_state p \<and> pe_events p' = pe_events p \<and> pe_message_out p' = pe_message_out p"
    by (auto simp: update_network_stats_step_def Let_def bind_eq_Some_conv split: if_split_asm)
  then show ?thesis using inv by (simp add: conn_inv_def)
next
  case (frame_number f)
  then show ?thesis
    using inv by (auto simp: set_local_frame_number_def Let_def bind_eq_Some_conv conn_inv_def)
next
  case (frame_delay d)
  then show ?thesis
    using inv by (auto simp: recommend_frame_delay_def bind_eq_Some_conv conn_inv_def)
next
  case disconnect
  then show ?thesis using conn_inv_disconnect[OF ok inv] by simp
qed

lemma peer_action_inv:
  assumes ok: "channels_ok X W" and act: "peer_action X p p'" and inv: "conn_inv W received p"
  shows "conn_inv W received p'"
  using act
proof cases
  case routine
  then show ?thesis using peer_routine_inv[OF ok _ inv] by blast
next
  case (outgoing data c serialize delivered now magic seq r)
  have "unbounded_channel (cr_out X) (vw_out W) (vw_out_shut W)" using ok by (simp add: channels_ok_def)
  from unbounded_channel.try_recv_Inr(2)[OF this outgoing(1)]
  have "conn_inv W received (p\<lparr>pe_message_out := c\<rparr>)" using inv by (simp add: conn_inv_def)
  then show ?thesis
    using outgoing(2) by (auto simp: serialize_outgoing_step_def conn_inv_def bind_eq_Some_conv
        split: sum.split_asm if_split_asm)
next
  case (incoming deserialize bytes seq r)
  then have "pe_state p' = pe_state p \<and> pe_events p' = pe_events p \<and> pe_message_out p' = pe_message_out p"
    by (auto simp: deserialize_incoming_step_def Let_def split: sum.split_asm if_split_asm try_send_error.split_asm)
  then show ?thesis using inv by (simp add: conn_inv_def)
next
  case (input statuses i r)
  then show ?thesis using inv quiet_change_inv send_input_quiet[OF ok] by blast
qed

text \<open>The two clones agree on all they share, and the session's statuses are those it was made with.\<close>

definition clones_inv ::
    "('i, 'e, 'o, 'm) views \<Rightarrow> connection_status list \<Rightarrow> ('i, 'e, 'o, 'm) conn \<Rightarrow> bool" where
  "clones_inv W statuses c \<longleftrightarrow> conn_inv W (cn_received c) (cn_session c) \<and>
     cn_task c = shared_with (cn_session c) (cn_task c) \<and>
     pe_peer_connect_status (cn_session c) = statuses"

lemma conn_inv_clone [simp]: "conn_inv W received (shared_with p q) = conn_inv W received p"
  by (simp add: conn_inv_def shared_with_def)

lemma shared_with_again [simp]:
  "shared_with p (shared_with q r) = shared_with p r" "shared_with (shared_with p q) p = p"
  "pe_peer_connect_status (shared_with p q) = pe_peer_connect_status q"
  by (simp_all add: shared_with_def)

lemma push_event_keeps_status:
  "push_event X e p = Some (r, p') \<Longrightarrow> pe_peer_connect_status p' = pe_peer_connect_status p"
  by (auto simp: push_event_def Let_def split: sum.split_asm try_send_error.split_asm)

lemma send_keeps_status:
  "send X m p = Some (r, p') \<Longrightarrow> pe_peer_connect_status p' = pe_peer_connect_status p"
  by (auto simp: send_def Let_def split: sum.split_asm try_send_error.split_asm)

lemma send_pending_keeps_status:
  "send_pending_output X sts p = Some (r, p') \<Longrightarrow> pe_peer_connect_status p' = pe_peer_connect_status p"
  by (erule send_pending_outputE) (auto dest: send_keeps_status)

lemma peer_routine_keeps_status:
  assumes "peer_routine X p p'"
  shows "pe_peer_connect_status p' = pe_peer_connect_status p"
  using assms
proof cases
  case (quality_report now r)
  then show ?thesis
    by (auto simp: send_quality_reports_step_def and_then_Some split: if_split_asm dest: send_keeps_status)
next
  case (resend now statuses r)
  then show ?thesis
    by (auto simp: resend_inputs_step_def and_then_Some bind_eq_Some_conv split: if_split_asm
        dest: send_pending_keeps_status)
next
  case (network_stats now start_time start_time')
  then show ?thesis
    by (auto simp: update_network_stats_step_def Let_def bind_eq_Some_conv split: if_split_asm)
qed (auto simp: heartbeat_step_def set_local_frame_number_def recommend_frame_delay_def
    peer_disconnect_def Let_def bind_eq_Some_conv dest: send_keeps_status)

lemma peer_action_keeps_status:
  assumes "peer_action X p p'"
  shows "pe_peer_connect_status p' = pe_peer_connect_status p"
  using assms
proof cases
  case routine
  then show ?thesis by (rule peer_routine_keeps_status)
next
  case (outgoing data c serialize delivered now magic seq r)
  then show ?thesis
    by (auto simp: serialize_outgoing_step_def bind_eq_Some_conv split: sum.split_asm if_split_asm)
next
  case (incoming deserialize bytes seq r)
  then show ?thesis
    by (auto simp: deserialize_incoming_step_def Let_def split: sum.split_asm if_split_asm try_send_error.split_asm)
next
  case (input statuses i r)
  then show ?thesis
    by (cases "state_is_running (pe_state p)")
      (auto simp: send_input_def bind_eq_Some_conv dest!: send_pending_keeps_status)
qed

lemma clones_task:
  assumes "clones_inv W statuses c"
  shows "conn_inv W (cn_received c) (cn_task c)"
proof -
  have "cn_task c = shared_with (cn_session c) (cn_task c)" "conn_inv W (cn_received c) (cn_session c)"
    using assms by (simp_all add: clones_inv_def)
  then show ?thesis by (metis conn_inv_clone)
qed

lemma conn_task_inv:
  assumes ok: "channels_ok X W" and inv: "clones_inv W statuses c" and stp: "conn_task X c c'"
  shows "clones_inv W statuses c'"
proof -
  have own: "conn_inv W (cn_received c) (cn_session c)" "pe_peer_connect_status (cn_session c) = statuses"
    using inv by (simp_all add: clones_inv_def)
  have task: "conn_inv W (cn_received c) (cn_task c)" by (rule clones_task[OF inv])
  have moved: "clones_inv W statuses (task_moved p c)" if "conn_inv W (cn_received c) p" for p
    using that own by (simp add: clones_inv_def task_moved_def)
  show ?thesis
    using stp
  proof cases
    case (message m d t1 t2 recv r p)
    have "conn_inv W (cn_received c) ((cn_task c)\<lparr>pe_message_in := d\<rparr>)"
      using task by (simp add: conn_inv_def)
    from run_message_inv[OF ok this message(3)] show ?thesis
      using message(1) by (simp add: moved)
  next
    case (timer t1 t2 recv r p)
    from run_timer_inv[OF ok task timer(2)] show ?thesis
      using timer(1) by (simp add: moved)
  next
    case (receive e d)
    have ch: "unbounded_channel (cr_events X) (vw_events W) (vw_events_shut W)"
      using ok by (simp add: channels_ok_def)
    have "conn_inv W (cn_received c @ [e]) ((cn_session c)\<lparr>pe_events := d\<rparr>)"
      using own(1) unbounded_channel.try_recv_Inr[OF ch receive(2)] by (simp add: conn_inv_def)
    then show ?thesis
      using receive(1) own(2) by (simp add: clones_inv_def session_moved_def)
  qed
qed

lemma conn_step_inv:
  assumes ok: "channels_ok X W" and inv: "clones_inv W statuses c" and stp: "conn_step X c c'"
  shows "clones_inv W statuses c'"
  using stp
proof cases
  case (action p)
  have own: "conn_inv W (cn_received c) (cn_session c)" "pe_peer_connect_status (cn_session c) = statuses"
    using inv by (simp_all add: clones_inv_def)
  then show ?thesis
    using peer_action_inv[OF ok action(2) own(1)] peer_action_keeps_status[OF action(2)] action(1)
    by (simp add: clones_inv_def session_moved_def)
next
  case task
  then show ?thesis by (rule conn_task_inv[OF ok inv])
qed

text \<open>A fresh peer: connecting, with open and empty channels.\<close>

definition fresh_peer :: "('i, 'e, 'o, 'm) views \<Rightarrow> ('i, 'e, 'o, 'm) peer \<Rightarrow> bool" where
  "fresh_peer W p \<longleftrightarrow> (\<exists>r. pe_state p = PeerConnecting r) \<and>
     vw_events W (pe_events p) = [] \<and> \<not> vw_events_shut W (pe_events p) \<and>
     vw_out W (pe_message_out p) = [] \<and> \<not> vw_out_shut W (pe_message_out p)"

lemma fresh_peer_inv: "fresh_peer W p \<Longrightarrow> conn_inv W [] p"
  by (auto simp: fresh_peer_def conn_inv_def)

lemma conn_reachable_inv:
  assumes "channels_ok X W" and "fresh_peer W p" and "conn_reachable X p c"
  shows "clones_inv W (pe_peer_connect_status p) c"
  using assms(3)
proof induction
  case start
  then show ?case
    using fresh_peer_inv[OF assms(2)] by (simp add: clones_inv_def conn_new_def shared_with_def)
next
  case (step c c')
  then show ?case using conn_step_inv[OF assms(1)] by blast
qed

text \<open>The whole log of events of a connection.\<close>

definition event_log :: "('i, 'e, 'o, 'm) views \<Rightarrow> ('i, 'e, 'o, 'm) conn \<Rightarrow> 'i peer_event list" where
  "event_log W c = cn_received c @ vw_events W (pe_events (cn_session c))"

lemma conn_progress:
  assumes "channels_ok X W" and "fresh_peer W p" and "conn_reachable X p c"
  shows "progress (pe_state (cn_session c)) (filter is_handshake_event (event_log W c))"
  using conn_reachable_inv[OF assms] by (simp add: clones_inv_def conn_inv_def event_log_def)

section \<open>Two peers complete the handshake\<close>

text \<open>
  One round trip over a network that loses nothing: the next message in the outgoing queue of \<open>a\<close>
  reaches \<open>b\<close>, and the next one of \<open>b\<close> reaches \<open>a\<close>. The magic numbers are the tags of the two senders.
\<close>

definition take_message :: "('i, 'e, 'o, 'm) crates \<Rightarrow> ('i, 'e, 'o, 'm) peer \<Rightarrow>
    (message_data \<times> ('i, 'e, 'o, 'm) peer) option" where
  "take_message X p =
     (case chan_try_recv (cr_out X) (pe_message_out p) of
        (Inl _, _) \<Rightarrow> None | (Inr m, c) \<Rightarrow> Some (m, p\<lparr>pe_message_out := c\<rparr>))"

definition round_trip ::
    "('i, 'e, 'o, 'm) crates \<Rightarrow> millis \<Rightarrow> u16 \<Rightarrow> u16 \<Rightarrow> ('i, 'e, 'o, 'm) peer \<times> ('i, 'e, 'o, 'm) peer \<Rightarrow>
       (('i, 'e, 'o, 'm) peer \<times> ('i, 'e, 'o, 'm) peer) option" where
  "round_trip X now magic_a magic_b ab =
     do { request \<leftarrow> take_message X (fst ab);
          b \<leftarrow> handle_message X now magic_a (fst request) (snd ab);
          reply \<leftarrow> take_message X (snd b);
          a \<leftarrow> handle_message X now magic_b (fst reply) (snd request);
          Some (snd a, snd reply) }"

primrec round_trips ::
    "('i, 'e, 'o, 'm) crates \<Rightarrow> millis \<Rightarrow> u16 \<Rightarrow> u16 \<Rightarrow> nat \<Rightarrow> ('i, 'e, 'o, 'm) peer \<times> ('i, 'e, 'o, 'm) peer \<Rightarrow>
       (('i, 'e, 'o, 'm) peer \<times> ('i, 'e, 'o, 'm) peer) option" where
  "round_trips X now magic_a magic_b 0 ab = Some ab"
| "round_trips X now magic_a magic_b (Suc n) ab =
     do { ab \<leftarrow> round_trip X now magic_a magic_b ab; round_trips X now magic_a magic_b n ab }"

text \<open>A peer with an empty outgoing queue that answers the requests of the one with the given tag.\<close>

definition answers ::
    "('i, 'e, 'o, 'm) views \<Rightarrow> u16 \<Rightarrow> ('i, 'e, 'o, 'm) peer \<Rightarrow> bool" where
  "answers W magic p \<longleftrightarrow> pe_state p \<noteq> PeerDisconnected \<and> (\<forall>m. pe_state p = PeerRunning m \<longrightarrow> m = magic) \<and>
     vw_out W (pe_message_out p) = []"

lemma take_message_next:
  assumes ok: "channels_ok X W" and inv: "conn_inv W received p" and m: "vw_out W (pe_message_out p) = m # ms"
  obtains c where "take_message X p = Some (m, p\<lparr>pe_message_out := c\<rparr>)" and "vw_out W c = ms"
    and "conn_inv W received (p\<lparr>pe_message_out := c\<rparr>)"
proof -
  have "unbounded_channel (cr_out X) (vw_out W) (vw_out_shut W)" using ok by (simp add: channels_ok_def)
  from unbounded_channel.try_recv_item[OF this m] obtain c where
    "chan_try_recv (cr_out X) (pe_message_out p) = (Inr m, c)" "vw_out W c = ms"
    "vw_out_shut W c = vw_out_shut W (pe_message_out p)" by blast
  then show ?thesis using inv by (intro that[of c]) (simp_all add: take_message_def conn_inv_def)
qed

lemma sync_request_answered:
  assumes ok: "channels_ok X W" and inv: "conn_inv W received b" and b: "answers W magic b"
  obtains c where "on_sync_request X magic r b = Some (Inr (), b\<lparr>pe_message_out := c\<rparr>)"
    and "vw_out W c = [SyncReply r]" and "conn_inv W received (b\<lparr>pe_message_out := c\<rparr>)"
proof -
  have "\<not> vw_out_shut W (pe_message_out b)" using inv b by (simp add: conn_inv_def answers_def)
  from send_open[OF ok this, of "SyncReply r"] obtain c where c:
    "send X (SyncReply r) b = Some (Inr (), b\<lparr>pe_message_out := c\<rparr>)"
    "vw_out W c = vw_out W (pe_message_out b) @ [SyncReply r]" "\<not> vw_out_shut W c" by blast
  show ?thesis
    by (rule that[of c]) (use c b inv in \<open>auto simp: on_sync_request_def answers_def conn_inv_def split: peer_state.split\<close>)
qed

text \<open>The peer whose request travels, with nothing else in its queue.\<close>

definition asking :: "('i, 'e, 'o, 'm) views \<Rightarrow> u32 \<Rightarrow> ('i, 'e, 'o, 'm) peer \<Rightarrow> bool" where
  "asking W r p \<longleftrightarrow> vw_out W (pe_message_out p) = [SyncRequest r]"

lemma round_trips_step:
  assumes ok: "channels_ok X W" and a: "conn_inv W ra a" "asking W r a" and b: "conn_inv W rb b" "answers W magic_a b"
  obtains c b' where "vw_out W c = []" and "conn_inv W ra (a\<lparr>pe_message_out := c\<rparr>)"
    and "conn_inv W rb b'" and "answers W magic_a b'"
    and "round_trip X now magic_a magic_b (a, b) =
      do { a \<leftarrow> on_sync_reply X now magic_b r (a\<lparr>pe_message_out := c\<rparr>); Some (snd a, b') }"
proof -
  from take_message_next[OF ok a(1) a(2)[unfolded asking_def]] obtain c where c:
    "take_message X a = Some (SyncRequest r, a\<lparr>pe_message_out := c\<rparr>)" "vw_out W c = []"
    "conn_inv W ra (a\<lparr>pe_message_out := c\<rparr>)" by blast
  from sync_request_answered[OF ok b, of r] obtain d where d:
    "on_sync_request X magic_a r b = Some (Inr (), b\<lparr>pe_message_out := d\<rparr>)" "vw_out W d = [SyncReply r]"
    "conn_inv W rb (b\<lparr>pe_message_out := d\<rparr>)" by blast
  from take_message_next[OF ok d(3)] d(2) obtain e where e:
    "take_message X (b\<lparr>pe_message_out := d\<rparr>) = Some (SyncReply r, b\<lparr>pe_message_out := e\<rparr>)" "vw_out W e = []"
    "conn_inv W rb (b\<lparr>pe_message_out := e\<rparr>)" by auto
  show ?thesis
    by (rule that[OF c(2,3) e(3)]) (use b(2) c(1) d(1) e(1,2) in \<open>simp_all add: round_trip_def answers_def\<close>)
qed

lemma round_trips_syncing:
  assumes ok: "channels_ok X W"
  shows "conn_inv W ra a \<Longrightarrow> asking W r a \<Longrightarrow> conn_inv W rb b \<Longrightarrow> answers W magic_a b \<Longrightarrow>
    pe_state a = PeerSyncing r (Suc n) \<Longrightarrow>
    \<exists>a' b'. round_trips X now magic_a magic_b (Suc n) (a, b) = Some (a', b') \<and>
      pe_state a' = PeerRunning magic_b \<and> conn_inv W ra a' \<and> conn_inv W rb b' \<and> answers W magic_a b'"
proof (induction n arbitrary: a b)
  case 0
  obtain c b' where b': "conn_inv W ra (a\<lparr>pe_message_out := c\<rparr>)" "conn_inv W rb b'" "answers W magic_a b'"
    "round_trip X now magic_a magic_b (a, b) =
      do { a \<leftarrow> on_sync_reply X now magic_b r (a\<lparr>pe_message_out := c\<rparr>); Some (snd a, b') }"
    by (rule round_trips_step[OF ok 0(1-4)])
  obtain a' where "on_sync_reply X now magic_b r (a\<lparr>pe_message_out := c\<rparr>) = Some (Inr (), a')"
    "pe_state a' = PeerRunning magic_b" "conn_inv W ra a'"
    by (rule reply_last[OF ok b'(1)]) (use 0(5) in simp_all)
  then show ?case using b' by simp
next
  case (Suc n)
  obtain c b' where b': "vw_out W c = []" "conn_inv W ra (a\<lparr>pe_message_out := c\<rparr>)" "conn_inv W rb b'" "answers W magic_a b'"
    "round_trip X now magic_a magic_b (a, b) =
      do { a \<leftarrow> on_sync_reply X now magic_b r (a\<lparr>pe_message_out := c\<rparr>); Some (snd a, b') }"
    by (rule round_trips_step[OF ok Suc.prems(1-4)])
  have s: "pe_state (a\<lparr>pe_message_out := c\<rparr>) = PeerSyncing r (Suc (Suc n))" using Suc.prems(5) by simp
  obtain a' where a': "on_sync_reply X now magic_b r (a\<lparr>pe_message_out := c\<rparr>) = Some (Inr (), a')"
    "pe_state a' = PeerSyncing r (Suc n)" "conn_inv W ra a'" "asking W r a'"
    by (rule reply_syncing[OF ok b'(2) s]) (use b'(1) in \<open>simp_all add: asking_def\<close>)
  from Suc.IH[OF a'(3,4) b'(3,4) a'(2)] a'(1) b'(5) show ?case by simp
qed

lemma handshake_completes_lemma:
  assumes ok: "channels_ok X W" and a: "conn_inv W ra a" "pe_state a = PeerConnecting r" "vw_out W (pe_message_out a) = []"
    and b: "conn_inv W rb b" "answers W magic_a b"
  shows "\<exists>a0 a' b'. send_sync_request X a = Some (Inr (), a0) \<and>
      round_trips X now magic_a magic_b (Suc NUM_SYNC_PACKETS) (a0, b) = Some (a', b') \<and>
      pe_state a' = PeerRunning magic_b \<and> conn_inv W ra a' \<and> conn_inv W rb b' \<and> answers W magic_a b'"
proof -
  have five: "NUM_SYNC_PACKETS = Suc 4" by (simp add: NUM_SYNC_PACKETS_def)
  have "\<not> vw_out_shut W (pe_message_out a)" using a by (simp add: conn_inv_def)
  from send_open[OF ok this, of "SyncRequest r"] obtain o0 where o0:
    "send_sync_request X a = Some (Inr (), a\<lparr>pe_message_out := o0\<rparr>)" "vw_out W o0 = [SyncRequest r]" "\<not> vw_out_shut W o0"
    using a(2,3) by (auto simp: send_sync_request_def)
  let ?a = "a\<lparr>pe_message_out := o0\<rparr>"
  have a0: "conn_inv W ra ?a" "asking W r ?a" using a o0 by (simp_all add: conn_inv_def asking_def)
  obtain c b' where b': "vw_out W c = []" "conn_inv W ra (?a\<lparr>pe_message_out := c\<rparr>)" "conn_inv W rb b'" "answers W magic_a b'"
    "round_trip X now magic_a magic_b (?a, b) =
      do { a \<leftarrow> on_sync_reply X now magic_b r (?a\<lparr>pe_message_out := c\<rparr>); Some (snd a, b') }"
    by (rule round_trips_step[OF ok a0 b])
  have s: "pe_state (?a\<lparr>pe_message_out := c\<rparr>) = PeerConnecting r" using a(2) by simp
  obtain a' where a': "on_sync_reply X now magic_b r (?a\<lparr>pe_message_out := c\<rparr>) = Some (Inr (), a')"
    "pe_state a' = PeerSyncing r (Suc 4)" "conn_inv W ra a'" "asking W r a'"
    by (rule reply_connecting[OF ok b'(2) s]) (use b'(1) five in \<open>simp_all add: asking_def\<close>)
  from round_trips_syncing[OF ok a'(3,4) b'(3,4) a'(2), of now magic_b]
  have "\<exists>a'' b''. round_trips X now magic_a magic_b NUM_SYNC_PACKETS (a', b') = Some (a'', b'') \<and>
      pe_state a'' = PeerRunning magic_b \<and> conn_inv W ra a'' \<and> conn_inv W rb b'' \<and> answers W magic_a b''"
    unfolding five .
  then show ?thesis using o0(1) a'(1) b'(5) by simp
qed

section \<open>Interruptions\<close>

text \<open>
  In every tick of a silent connection that is not running yet another \<open>NetworkInterrupted\<close> is
  reported, since only a running peer remembers that it is interrupted.
\<close>

lemma notify_not_running:
  assumes ok: "channels_ok X W" and inv: "conn_inv W received p"
    and s: "pe_state p = PeerConnecting r \<or> pe_state p = PeerSyncing r k"
    and t: "recv + pc_disconnect_notify_start (pe_config p) < now" "now < 2 ^ 64"
      "pc_disconnect_notify_start (pe_config p) \<le> pc_disconnect_timeout (pe_config p)"
  obtains c where "notify_interrupted X now recv p = Some (Inr (), p\<lparr>pe_events := c\<rparr>)"
    and "vw_events W c = vw_events W (pe_events p) @
      [PeerNetworkInterrupted (pc_disconnect_timeout (pe_config p) - pc_disconnect_notify_start (pe_config p))]"
proof -
  let ?e = "PeerNetworkInterrupted (pc_disconnect_timeout (pe_config p) - pc_disconnect_notify_start (pe_config p))"
  have "\<not> vw_events_shut W (pe_events p)" using inv s by (auto simp: conn_inv_def)
  from push_event_open[OF ok this, of ?e] obtain c where c:
    "push_event X ?e p = Some (Inr (), p\<lparr>pe_events := c\<rparr>)"
    "vw_events W c = vw_events W (pe_events p) @ [?e]" by blast
  have same: "snd (interrupt (pe_state p)) = pe_state p" "\<not> is_interrupted (pe_state p)" using s by auto
  have "notify_interrupted X now recv p = push_event X ?e (p\<lparr>pe_state := pe_state p\<rparr>)"
    using t same by (simp add: notify_interrupted_def millis_add_def millis_sub_def)
  then show ?thesis using c by (intro that[of c]) simp_all
qed

end
