(* ===== verification/Rollback.thy ===== *)
theory Rollback
  imports Sync
begin

text \<open>
  A session of \<open>Sync\<close> with its client, as a state machine over the operations the P2P session
  calls: an input of the local or of a remote player arrives, the frame is advanced, the simulation
  is checked, a frame is confirmed; after the operations that make commands the client executes
  them. No player is disconnected here. The lemmas show that no operation panics inside its guard,
  that the game state is always the one computed with the inputs known at the last check, and that
  two peers who know the same inputs have the same game state.
\<close>

record ('i, 'g) world =
  wo_sync :: "'i sync"
  wo_store :: "'g store"
  wo_state :: 'g
  wo_inputs :: "nat \<Rightarrow> 'i list"

text \<open>\<open>wo_inputs\<close> is the history of the inputs each player's queue has accepted.\<close>

definition statuses_of :: "nat \<Rightarrow> connection_status list" where
  "statuses_of n = replicate n connection_status_default"

definition world_new :: "('i, 'g) game \<Rightarrow> nat \<Rightarrow> frame \<Rightarrow> ('i, 'g) world" where
  "world_new G n delay =
     \<lparr>wo_sync = sync_new (gm_zero G) n delay, wo_store = store_default, wo_state = gm_start G,
      wo_inputs = (\<lambda>_. [])\<rparr>"

definition confirmed :: "'i sync \<Rightarrow> nat" where
  "confirmed sy = nat (sy_last_confirmed_frame sy)"

text \<open>The input of player \<open>p\<close> for frame \<open>m\<close> is in order and its target frame \<open>t\<close> fits the ring.\<close>

definition input_fits :: "('i, 'g) world \<Rightarrow> nat \<Rightarrow> frame \<Rightarrow> nat \<Rightarrow> bool" where
  "input_fits w p m t \<longleftrightarrow> p < sy_player_count (wo_sync w) \<and>
     (let q = sy_input_queues (wo_sync w) ! p in
        0 \<le> m \<and> m + iq_frame_delay q = int t \<and> int t + 1 < i32_MAX \<and> in_i32 m \<and>
        (is_null (iq_last_user_added_frame q) \<or> m = iq_last_user_added_frame q + 1) \<and>
        iq_length q + (Suc t - length (wo_inputs w p)) \<le> MAX_ROLLBACK_FRAMES)"

definition accept_input :: "('i, 'g) game \<Rightarrow> nat \<Rightarrow> nat \<Rightarrow> 'i \<Rightarrow> (nat \<Rightarrow> 'i list) \<Rightarrow> nat \<Rightarrow> 'i list" where
  "accept_input G p t x h = h(p := queue_accept (gm_zero G) (h p) t x)"

text \<open>The barrier of \<open>sync_add_local_input\<close>.\<close>

definition barred :: "'i sync \<Rightarrow> bool" where
  "barred sy \<longleftrightarrow> sy_frame_count sy \<ge> int MAX_PREDICTION_FRAMES \<and>
     sy_frame_count sy - sy_last_confirmed_frame sy \<ge> int MAX_PREDICTION_FRAMES"

inductive world_step :: "('i, 'g) game \<Rightarrow> ('i, 'g) world \<Rightarrow> ('i, 'g) world \<Rightarrow> bool" for G where
  local_input: "input_fits w p (sy_frame_count (wo_sync w)) t \<Longrightarrow>
    sync_add_local_input p x (wo_sync w) = Some (Inr f, sy) \<Longrightarrow>
    world_step G w (w\<lparr>wo_sync := sy, wo_inputs := accept_input G p t x (wo_inputs w)\<rparr>)"
| remote_input: "input_fits w p m t \<Longrightarrow>
    add_remote_input p \<lparr>fi_frame = m, fi_input = x\<rparr> (wo_sync w) = Some sy \<Longrightarrow>
    world_step G w (w\<lparr>wo_sync := sy, wo_inputs := accept_input G p t x (wo_inputs w)\<rparr>)"
| advance: "\<not> barred (wo_sync w) \<Longrightarrow> sy_frame_count (wo_sync w) + 1 < i32_MAX \<Longrightarrow>
    check_simulation_consistency (wo_sync w) = None \<Longrightarrow>
    increment_frame (gm_zero G) (statuses_of (sy_player_count (wo_sync w))) ([], wo_sync w, wo_store w)
      = Some (commands, sy, store) \<Longrightarrow>
    execute_all (gm_step G) (gm_hash G) commands (wo_state w, store) = Some (g, store') \<Longrightarrow>
    world_step G w (w\<lparr>wo_sync := sy, wo_store := store', wo_state := g\<rparr>)"
| check: "check_simulation (gm_zero G) (statuses_of (sy_player_count (wo_sync w)))
      ([], wo_sync w, wo_store w) = Some (commands, sy, store) \<Longrightarrow>
    execute_all (gm_step G) (gm_hash G) commands (wo_state w, store) = Some (g, store') \<Longrightarrow>
    world_step G w (w\<lparr>wo_sync := sy, wo_store := store', wo_state := g\<rparr>)"
| confirm: "check_simulation_consistency (wo_sync w) = None \<Longrightarrow> 0 < sy_frame_count (wo_sync w) \<Longrightarrow>
    sy_last_confirmed_frame (wo_sync w) \<le> c \<Longrightarrow> 0 \<le> c \<Longrightarrow> c \<le> sy_frame_count (wo_sync w) \<Longrightarrow>
    (\<And>p. p < sy_player_count (wo_sync w) \<Longrightarrow> c \<le> int (length (wo_inputs w p))) \<Longrightarrow>
    set_last_confirmed_frame c (wo_sync w) = Some sy \<Longrightarrow>
    world_step G w (w\<lparr>wo_sync := sy\<rparr>)"

inductive world_reachable :: "('i, 'g) game \<Rightarrow> nat \<Rightarrow> frame \<Rightarrow> ('i, 'g) world \<Rightarrow> bool"
  for G n delay where
  start: "world_reachable G n delay (world_new G n delay)"
| step: "world_reachable G n delay w \<Longrightarrow> world_step G w w' \<Longrightarrow> world_reachable G n delay w'"

inductive_cases world_stepE: "world_step G w w'"

section \<open>The invariant\<close>

definition frame_used :: "'i \<Rightarrow> nat \<Rightarrow> (nat \<Rightarrow> 'i list) \<Rightarrow> nat \<Rightarrow> 'i game_input" where
  "frame_used z n used f =
     \<lparr>gi_frame = int f, gi_disconnected = 0,
      gi_inputs = map (\<lambda>p. if p < n then used p ! f else z) [0 ..< MAX_PLAYERS]\<rparr>"

lemma status_of [simp]: "p < n \<Longrightarrow> statuses_of n ! p = connection_status_default"
  by (simp add: statuses_of_def)

lemma length_statuses_of [simp]: "length (statuses_of n) = n"
  by (simp add: statuses_of_def)

lemma not_off [simp]: "p < n \<Longrightarrow> \<not> off (statuses_of n) p f"
  by (simp add: off_def connection_status_default_def)

lemma asked_all [simp]: "p < n \<Longrightarrow> asked (statuses_of n) p f = f"
  by (simp add: asked_def connection_status_default_def)

lemma off_mask_none: "(\<And>p. p < n \<Longrightarrow> \<not> P p) \<Longrightarrow> off_mask P n = 0"
  by (induction n) auto

lemma frame_inputs_used:
  assumes "\<And>p. p < n \<Longrightarrow> used p ! f = input_for z (h p) f"
  shows "frame_inputs z n (statuses_of n) h f = frame_used z n used f"
  using assms by (auto simp: frame_inputs_def frame_used_def off_mask_none)

definition queue_inv ::
    "'i \<Rightarrow> nat \<Rightarrow> nat \<Rightarrow> 'i list \<Rightarrow> 'i list \<Rightarrow> 'i input_queue \<Rightarrow> bool" where
  "queue_inv z b fc h used q \<longleftrightarrow> tracks z h used q \<and> length used = fc \<and> oldest h q \<le> b \<and>
     (is_null (iq_first_incorrect_frame q) \<or> int b \<le> iq_first_incorrect_frame q) \<and>
     b \<le> length h \<and> int (length h) < i32_MAX \<and> 0 \<le> iq_frame_delay q"

definition saved_ok :: "('i, 'g) game \<Rightarrow> 'g \<Rightarrow> nat \<Rightarrow> nat \<Rightarrow> 'i game_input list \<Rightarrow>
    'i command list \<Rightarrow> saved_state \<Rightarrow> 'g store \<Rightarrow> bool" where
  "saved_ok G g d fc sim commands ss store \<longleftrightarrow>
     (if fc = 0 then d = 0 \<and> run_ok G g 0 0 0 0 sim commands ss store
      else run_ok G g d (fc + d - 9) (Suc (fc + d)) (Suc (fc + d)) sim commands ss store)"

text \<open>\<open>cs\<close> are the commands that were made and are not executed yet.\<close>

definition world_rep :: "('i, 'g) game \<Rightarrow> (nat \<Rightarrow> 'i list) \<Rightarrow> nat \<Rightarrow> nat \<Rightarrow> 'i command list \<Rightarrow>
    ('i, 'g) world \<Rightarrow> bool" where
  "world_rep G used d fc cs w \<longleftrightarrow> (let sy = wo_sync w; n = sy_player_count sy in
     n \<le> MAX_PLAYERS \<and> length (sy_input_queues sy) = n \<and> sy_frame_count sy = int fc \<and>
     int fc < i32_MAX \<and> fc \<le> confirmed sy + 8 \<and> confirmed sy \<le> fc \<and> - 1 \<le> sy_last_confirmed_frame sy \<and>
     (\<forall>p < n. queue_inv (gm_zero G) (confirmed sy) fc (wo_inputs w p) (used p) (sy_input_queues sy ! p)) \<and>
     saved_ok G (wo_state w) d fc (map (frame_used (gm_zero G) n used) [0 ..< fc]) cs
       (sy_saved_state sy) (wo_store w))"

definition pending :: "('i, 'g) game \<Rightarrow> 'i command list \<Rightarrow> ('i, 'g) world \<Rightarrow> bool" where
  "pending G cs w \<longleftrightarrow> (\<exists>used d fc. world_rep G used d fc cs w)"

abbreviation world_inv :: "('i, 'g) game \<Rightarrow> ('i, 'g) world \<Rightarrow> bool" where
  "world_inv G w \<equiv> pending G [] w"

lemma world_inv_new: "n \<le> MAX_PLAYERS \<Longrightarrow> 0 \<le> delay \<Longrightarrow> world_inv G (world_new G n delay)"
  unfolding pending_def world_rep_def
proof (intro exI[of _ "\<lambda>_. []"] exI[of _ 0], goal_cases)
  case 1
  have "queue_inv (gm_zero G) 0 0 [] [] (queue_new (gm_zero G) delay)" if "0 \<le> delay"
    using tracks_new[of "gm_zero G" delay] that
    by (simp add: queue_inv_def oldest_def queue_new_def i32_MAX_def)
  moreover have "run_ok G (gm_start G) 0 0 0 0 [] [] saved_state_default store_default"
    by (simp add: run_ok_def ring_of_def saved_state_default_def store_default_def
        MAX_PREDICTION_FRAMES_def tags_at_def unused_def saved_frame_default_def replays_start)
  ultimately show ?case
    using 1 by (simp add: world_new_def sync_new_def create_queues_def confirmed_def NULL_FRAME_def
        i32_MAX_def Let_def saved_ok_def)
qed

section \<open>Inputs\<close>

lemma length_queue_accept: "length (queue_accept z h t x) = max (length h) (Suc t)"
  by (auto simp: queue_accept_def)

lemma add_input_inv:
  assumes inv: "queue_inv z b fc h used q"
    and m: "m + iq_frame_delay q = int t" "int t + 1 < i32_MAX" "in_i32 m"
      "is_null (iq_last_user_added_frame q) \<or> m = iq_last_user_added_frame q + 1"
      "iq_length q + (Suc t - length h) \<le> MAX_ROLLBACK_FRAMES"
  obtains r q' where "add_input \<lparr>fi_frame = m, fi_input = x\<rparr> q = Some (r, q')"
    and "queue_inv z b fc (queue_accept z h t x) used q'"
proof -
  have tr: "tracks z h used q" and bounds: "in_i32 (int t + 1)" "in_i32 (int (length h))"
    using inv m(2) by (auto simp: queue_inv_def in_i32_def i32_MAX_def)
  obtain q' where q': "add_input \<lparr>fi_frame = m, fi_input = x\<rparr> q =
      Some (if t < length h then NULL_FRAME else int t, q')"
    "tracks z (queue_accept z h t x) used q'"
    "iq_length q' = iq_length q + (Suc t - length h)" "iq_frame_delay q' = iq_frame_delay q"
    "iq_first_incorrect_frame q' = iq_first_incorrect_frame q \<or>
      int (length h) \<le> iq_first_incorrect_frame q'"
    by (rule add_input_tracks[OF tr m(4,1) bounds(1) m(3) bounds(2) m(5)])
  have "iq_length q \<le> length h" using tr by (simp add: tracks_def queue_ok_defs)
  then have "oldest (queue_accept z h t x) q' = oldest h q"
    using q'(3) by (auto simp: oldest_def length_queue_accept)
  then have "queue_inv z b fc (queue_accept z h t x) used q'"
    using inv q' m(2) by (auto simp: queue_inv_def length_queue_accept)
  with q'(1) show ?thesis by (rule that)
qed

lemma world_rep_input:
  assumes rep: "world_rep G used d fc cs w" and p: "p < sy_player_count (wo_sync w)"
    and inv: "queue_inv (gm_zero G) (confirmed (wo_sync w)) fc (queue_accept (gm_zero G) (wo_inputs w p) t x)
      (used p) q'"
  shows "world_rep G used d fc cs (w\<lparr>wo_sync := (wo_sync w)\<lparr>sy_input_queues :=
      (sy_input_queues (wo_sync w))[p := q']\<rparr>, wo_inputs := accept_input G p t x (wo_inputs w)\<rparr>)"
  using assms unfolding world_rep_def Let_def confirmed_def accept_input_def
  by (auto simp: nth_list_update)

lemma input_step:
  assumes inv: "pending G cs w" and fits: "input_fits w p m t"
  obtains r q' where "index_at (sy_input_queues (wo_sync w)) p = Some (sy_input_queues (wo_sync w) ! p)"
    and "add_input \<lparr>fi_frame = m, fi_input = x\<rparr> (sy_input_queues (wo_sync w) ! p) = Some (r, q')"
    and "pending G cs (w\<lparr>wo_sync := (wo_sync w)\<lparr>sy_input_queues :=
      (sy_input_queues (wo_sync w))[p := q']\<rparr>, wo_inputs := accept_input G p t x (wo_inputs w)\<rparr>)"
proof -
  obtain used d fc where rep: "world_rep G used d fc cs w" using inv by (auto simp: pending_def)
  let ?q = "sy_input_queues (wo_sync w) ! p"
  have p: "p < sy_player_count (wo_sync w)" using fits by (simp add: input_fits_def)
  have "queue_inv (gm_zero G) (confirmed (wo_sync w)) fc (wo_inputs w p) (used p) ?q"
    using rep p by (simp add: world_rep_def Let_def)
  then obtain r q' where q': "add_input \<lparr>fi_frame = m, fi_input = x\<rparr> ?q = Some (r, q')"
    "queue_inv (gm_zero G) (confirmed (wo_sync w)) fc (queue_accept (gm_zero G) (wo_inputs w p) t x)
      (used p) q'"
    by (rule add_input_inv) (use fits in \<open>auto simp: input_fits_def Let_def\<close>)
  have "pending G cs (w\<lparr>wo_sync := (wo_sync w)\<lparr>sy_input_queues :=
      (sy_input_queues (wo_sync w))[p := q']\<rparr>, wo_inputs := accept_input G p t x (wo_inputs w)\<rparr>)"
    unfolding pending_def using world_rep_input[OF rep p q'(2)] by blast
  moreover have "index_at (sy_input_queues (wo_sync w)) p = Some ?q"
    using rep p by (simp add: world_rep_def Let_def)
  ultimately show ?thesis using q'(1) by (intro that)
qed

lemma remote_input_ok:
  assumes "pending G cs w" and "input_fits w p m t"
  obtains sy where "add_remote_input p \<lparr>fi_frame = m, fi_input = x\<rparr> (wo_sync w) = Some sy"
    and "pending G cs (w\<lparr>wo_sync := sy, wo_inputs := accept_input G p t x (wo_inputs w)\<rparr>)"
  by (rule input_step[OF assms, of x]) (auto simp: add_remote_input_def intro: that)

lemma local_input_ok:
  assumes "pending G cs w" and "input_fits w p (sy_frame_count (wo_sync w)) t"
    and "\<not> barred (wo_sync w)"
  obtains sy where "sync_add_local_input p x (wo_sync w) = Some (Inr (sy_frame_count (wo_sync w)), sy)"
    and "pending G cs (w\<lparr>wo_sync := sy, wo_inputs := accept_input G p t x (wo_inputs w)\<rparr>)"
proof -
  have "in_i32 (sy_frame_count (wo_sync w) - sy_last_confirmed_frame (wo_sync w))"
    using assms(1) by (auto simp: pending_def world_rep_def Let_def in_i32_def i32_MAX_def confirmed_def)
  moreover obtain r q' where "index_at (sy_input_queues (wo_sync w)) p = Some (sy_input_queues (wo_sync w) ! p)"
    "add_input \<lparr>fi_frame = sy_frame_count (wo_sync w), fi_input = x\<rparr>
      (sy_input_queues (wo_sync w) ! p) = Some (r, q')"
    "pending G cs (w\<lparr>wo_sync := (wo_sync w)\<lparr>sy_input_queues :=
      (sy_input_queues (wo_sync w))[p := q']\<rparr>, wo_inputs := accept_input G p t x (wo_inputs w)\<rparr>)"
    by (rule input_step[OF assms(1,2), of x])
  ultimately show ?thesis
    using assms(3) by (intro that) (auto simp: sync_add_local_input_def barred_def)
qed

text \<open>At the barrier the local input is refused and nothing changes.\<close>

lemma local_input_barred:
  assumes "pending G cs w" and "barred (wo_sync w)"
  shows "sync_add_local_input p x (wo_sync w) = Some (Inl ReachedPredictionBarrier, wo_sync w)"
proof -
  have "in_i32 (sy_frame_count (wo_sync w) - sy_last_confirmed_frame (wo_sync w))"
    using assms(1) by (auto simp: pending_def world_rep_def Let_def in_i32_def i32_MAX_def confirmed_def)
  then show ?thesis using assms(2) by (simp add: sync_add_local_input_def barred_def)
qed

section \<open>Commands\<close>

lemma right_used:
  assumes "queue_inv z b fc h used q" and "is_null (iq_first_incorrect_frame q)"
  shows "used = map (input_for z h) [0 ..< fc]"
  using assms by (intro nth_equalityI) (auto simp: queue_inv_def tracks_def agrees_def)

text \<open>Between a check and the next input the simulation is the right one.\<close>

lemma checked_sim:
  assumes rep: "world_rep G used d fc cs w" and none: "check_simulation_consistency (wo_sync w) = None"
    and n: "n = sy_player_count (wo_sync w)"
  shows "map (frame_used (gm_zero G) n used) [0 ..< fc] =
      good_sim (gm_zero G) n (statuses_of n) (wo_inputs w) fc"
    and "sync_ready (gm_zero G) (statuses_of n) (wo_inputs w) fc (wo_sync w)"
proof -
  let ?z = "gm_zero G"
  have q: "queue_inv ?z (confirmed (wo_sync w)) fc (wo_inputs w p) (used p) (sy_input_queues (wo_sync w) ! p)"
    "is_null (iq_first_incorrect_frame (sy_input_queues (wo_sync w) ! p))" if "p < n" for p
    using rep none that n by (auto simp: world_rep_def Let_def check_simulation_consistency_None)
  have u: "used p = map (input_for ?z (wo_inputs w p)) [0 ..< fc]" if "p < n" for p
    using right_used[OF q[OF that]] .
  show "map (frame_used ?z n used) [0 ..< fc] = good_sim ?z n (statuses_of n) (wo_inputs w) fc"
    using u by (auto simp: good_sim_def intro!: frame_inputs_used[symmetric])
  have "player_ready ?z (statuses_of n) p fc (wo_inputs w p)
      (good_used ?z (statuses_of n) (wo_inputs w) fc p) (sy_input_queues (wo_sync w) ! p)"
    if "p < n" for p
    using q[OF that] u[OF that] that rep tracks_askable[of ?z "wo_inputs w p" "used p"]
    by (auto simp: player_ready_def good_used_def queue_inv_def world_rep_def Let_def)
  then show "sync_ready ?z (statuses_of n) (wo_inputs w) fc (wo_sync w)"
    using rep n by (simp add: sync_ready_def world_rep_def Let_def)
qed

text \<open>After commands were made and executed.\<close>

lemma world_rep_good:
  assumes n: "n = sy_player_count sy'" "n \<le> MAX_PLAYERS" and fc: "int fc < i32_MAX" "0 < fc"
    and b: "fc \<le> confirmed sy' + 8" "confirmed sy' \<le> fc" "- 1 \<le> sy_last_confirmed_frame sy'"
    and ready: "sync_ready (gm_zero G) (statuses_of n) h fc sy'"
    and tr: "\<And>p. p < n \<Longrightarrow> tracks (gm_zero G) (h p) (good_used (gm_zero G) (statuses_of n) h fc p)
      (sy_input_queues sy' ! p)"
    and keep: "\<And>p. p < n \<Longrightarrow> oldest (h p) (sy_input_queues sy' ! p) \<le> confirmed sy' \<and> confirmed sy' \<le> length (h p)
      \<and> 0 \<le> iq_frame_delay (sy_input_queues sy' ! p)"
    and run: "run_ok G g d (fc + d - 9) (Suc (fc + d)) (Suc (fc + d))
      (good_sim (gm_zero G) n (statuses_of n) h fc) cs (sy_saved_state sy') store"
  shows "world_rep G (good_used (gm_zero G) (statuses_of n) h fc) d fc cs
    \<lparr>wo_sync = sy', wo_store = store, wo_state = g, wo_inputs = h\<rparr>"
proof -
  let ?z = "gm_zero G"
  let ?used = "good_used ?z (statuses_of n) h fc"
  have rd: "player_ready ?z (statuses_of n) p fc (h p) (?used p) (sy_input_queues sy' ! p)" if "p < n" for p
    using ready that n by (simp add: sync_ready_def)
  have "queue_inv ?z (confirmed sy') fc (h p) (?used p) (sy_input_queues sy' ! p)" if "p < n" for p
    using rd[OF that] tr[OF that] keep[OF that] that
    by (auto simp: queue_inv_def player_ready_def askable_def)
  moreover have "map (frame_used ?z n ?used) [0 ..< fc] = good_sim ?z n (statuses_of n) h fc"
    by (auto simp: good_sim_def good_used_def intro!: frame_inputs_used[symmetric])
  ultimately show ?thesis
    using n fc b run ready by (simp add: world_rep_def Let_def saved_ok_def sync_ready_def)
qed

text \<open>What \<open>same_sync\<close> keeps of the invariant.\<close>

lemma same_sync_keeps:
  assumes rep: "world_rep G used d fc cs w" and same: "same_sync ((wo_sync w)\<lparr>sy_rolling_back := rb\<rparr>) sy'"
  shows "sy_player_count sy' = sy_player_count (wo_sync w)" and "confirmed sy' = confirmed (wo_sync w)"
    and "sy_last_confirmed_frame sy' = sy_last_confirmed_frame (wo_sync w)"
    and "p < sy_player_count (wo_sync w) \<Longrightarrow>
      oldest (wo_inputs w p) (sy_input_queues sy' ! p) \<le> confirmed sy' \<and>
      confirmed sy' \<le> length (wo_inputs w p) \<and> 0 \<le> iq_frame_delay (sy_input_queues sy' ! p)"
  using assms by (auto simp: same_sync_def confirmed_def world_rep_def Let_def queue_inv_def oldest_def
      same_inputs_def)

text \<open>The client executes the commands made so far.\<close>

lemma execute_pending:
  assumes "pending G cs w"
  obtains g store' where "execute_all (gm_step G) (gm_hash G) cs (wo_state w, wo_store w) = Some (g, store')"
    and "world_inv G (w\<lparr>wo_store := store', wo_state := g\<rparr>)"
proof -
  obtain used d fc where rep: "world_rep G used d fc cs w" using assms by (auto simp: pending_def)
  let ?sim = "map (frame_used (gm_zero G) (sy_player_count (wo_sync w)) used) [0 ..< fc]"
  have saved: "saved_ok G (wo_state w) d fc ?sim cs (sy_saved_state (wo_sync w)) (wo_store w)"
    using rep by (simp add: world_rep_def Let_def)
  have "\<exists>g store'. execute_all (gm_step G) (gm_hash G) cs (wo_state w, wo_store w) = Some (g, store') \<and>
      saved_ok G g d fc ?sim [] (sy_saved_state (wo_sync w)) store'"
  proof (cases "fc = 0")
    case True
    then have run: "run_ok G (wo_state w) 0 0 0 0 ?sim cs (sy_saved_state (wo_sync w)) (wo_store w)" and "d = 0"
      using saved by (simp_all add: saved_ok_def)
    then show ?thesis by (rule_tac run_ok_execute[OF run]) (auto simp: saved_ok_def True)
  next
    case False
    then have run: "run_ok G (wo_state w) d (fc + d - 9) (Suc (fc + d)) (Suc (fc + d)) ?sim cs
        (sy_saved_state (wo_sync w)) (wo_store w)"
      using saved by (simp add: saved_ok_def)
    show ?thesis by (rule run_ok_execute[OF run]) (auto simp: saved_ok_def False)
  qed
  then obtain g store' where g: "execute_all (gm_step G) (gm_hash G) cs (wo_state w, wo_store w) = Some (g, store')"
    "saved_ok G g d fc ?sim [] (sy_saved_state (wo_sync w)) store'" by blast
  have "world_rep G used d fc [] (w\<lparr>wo_store := store', wo_state := g\<rparr>)"
    using rep g(2) by (simp add: world_rep_def Let_def)
  then show ?thesis using g(1) by (intro that) (auto simp: pending_def)
qed

lemma advance_made:
  assumes inv: "world_inv G w" and bar: "\<not> barred (wo_sync w)"
    and f: "sy_frame_count (wo_sync w) + 1 < i32_MAX"
    and none: "check_simulation_consistency (wo_sync w) = None"
  obtains cs sy store where
    "increment_frame (gm_zero G) (statuses_of (sy_player_count (wo_sync w))) ([], wo_sync w, wo_store w)
      = Some (cs, sy, store)"
    and "pending G cs (w\<lparr>wo_sync := sy, wo_store := store\<rparr>)" and "loads cs = {}"
    and "sy_frame_count sy = sy_frame_count (wo_sync w) + 1" and "sy_player_count sy = sy_player_count (wo_sync w)"
    and "sy_last_confirmed_frame sy = sy_last_confirmed_frame (wo_sync w)"
    and "sy_rolling_back sy = sy_rolling_back (wo_sync w)"
    and "\<And>p. p < sy_player_count (wo_sync w) \<Longrightarrow>
      same_inputs (sy_input_queues (wo_sync w) ! p) (sy_input_queues sy ! p)"
proof -
  obtain used d fc where rep: "world_rep G used d fc [] w" using inv by (auto simp: pending_def)
  let ?z = "gm_zero G" and ?n = "sy_player_count (wo_sync w)" and ?h = "wo_inputs w"
  let ?S = "statuses_of ?n"
  define lo where "lo = Suc fc + d - 9"
  note sim = checked_sim[OF rep none refl]
  have fc: "sy_frame_count (wo_sync w) = int fc" "int fc + 1 < i32_MAX"
    using rep f by (auto simp: world_rep_def Let_def)
  have saved: "saved_ok G (wo_state w) d fc (good_sim ?z ?n ?S ?h fc) [] (sy_saved_state (wo_sync w)) (wo_store w)"
    using rep unfolding sim(1)[symmetric] by (simp add: world_rep_def Let_def)
  have d: "d \<le> 1" using saved by (auto simp: saved_ok_def run_ok_def tags_at_def split: if_splits)
  have run: "run_ok G (wo_state w) d lo (if fc = 0 then d else Suc (fc + d)) (Suc (Suc (fc + d)))
      (good_sim ?z ?n ?S ?h fc) [] (sy_saved_state (wo_sync w)) (wo_store w)"
    using saved by (cases "fc = 0") (auto simp: saved_ok_def lo_def intro: run_ok_mono)
  have room: "fc + d < lo + 9" by (simp add: lo_def)
  obtain cs sy store where inc:
    "increment_frame ?z ?S ([], wo_sync w, wo_store w) = Some ([] @ cs, sy, store)"
    "sync_ready ?z ?S ?h (Suc fc) sy" "same_sync (wo_sync w) sy"
    "run_ok G (wo_state w) d lo (Suc (Suc (fc + d))) (Suc (Suc (fc + d)))
      (good_sim ?z ?n ?S ?h (Suc fc)) ([] @ cs) (sy_saved_state sy) store" "loads cs = {}"
    "\<And>p. p < ?n \<Longrightarrow> \<not> off ?S p fc \<Longrightarrow> tracks ?z (?h p) (good_used ?z ?S ?h (Suc fc) p) (sy_input_queues sy ! p)"
    by (rule increment_frame_ok[OF sim(2) fc(2) refl run refl d room lessI]) auto
  have same: "same_sync ((wo_sync w)\<lparr>sy_rolling_back := sy_rolling_back (wo_sync w)\<rparr>) sy"
    using inc(3) by simp
  note keep = same_sync_keeps[OF rep same]
  have "world_rep G (good_used ?z ?S ?h (Suc fc)) d (Suc fc) cs
    \<lparr>wo_sync = sy, wo_store = store, wo_state = wo_state w, wo_inputs = ?h\<rparr>"
  proof (rule world_rep_good)
    show "Suc fc \<le> confirmed sy + 8" "confirmed sy \<le> Suc fc" "- 1 \<le> sy_last_confirmed_frame sy"
      using rep bar keep fc
      by (auto simp: world_rep_def Let_def barred_def confirmed_def MAX_PREDICTION_FRAMES_def)
    show "?n \<le> MAX_PLAYERS" using rep by (simp add: world_rep_def Let_def)
  qed (use fc inc keep in \<open>simp_all add: lo_def\<close>)
  then have pend: "pending G cs (w\<lparr>wo_sync := sy, wo_store := store\<rparr>)"
    by (cases w) (auto simp: pending_def)
  have "sy_frame_count sy = sy_frame_count (wo_sync w) + 1"
    using inc(2) fc(1) by (simp add: sync_ready_def)
  then show ?thesis
    by (rule_tac that[of cs sy store])
      (use inc(1,3,5) pend in \<open>simp_all add: same_sync_def del: increment_frame.simps\<close>)
qed

lemma advance_ok:
  assumes "world_inv G w" and "\<not> barred (wo_sync w)" and "sy_frame_count (wo_sync w) + 1 < i32_MAX"
    and "check_simulation_consistency (wo_sync w) = None"
  obtains commands sy store g store' where
    "increment_frame (gm_zero G) (statuses_of (sy_player_count (wo_sync w))) ([], wo_sync w, wo_store w)
      = Some (commands, sy, store)"
    and "execute_all (gm_step G) (gm_hash G) commands (wo_state w, store) = Some (g, store')"
    and "world_inv G (w\<lparr>wo_sync := sy, wo_store := store', wo_state := g\<rparr>)"
proof -
  obtain cs sy store where made:
    "increment_frame (gm_zero G) (statuses_of (sy_player_count (wo_sync w))) ([], wo_sync w, wo_store w)
      = Some (cs, sy, store)" "pending G cs (w\<lparr>wo_sync := sy, wo_store := store\<rparr>)"
    by (rule advance_made[OF assms])
  show ?thesis
    by (rule execute_pending[OF made(2)]) (use made(1) in \<open>auto intro: that simp del: increment_frame.simps\<close>)
qed

text \<open>The first incorrect frame is inside the window that can be rolled back.\<close>

lemma incorrect_in_window:
  assumes rep: "world_rep G used d fc cs w"
    and some: "check_simulation_consistency (wo_sync w) = Some k"
  obtains seek where "k = int seek" and "seek < fc" and "confirmed (wo_sync w) \<le> seek"
    and "rewindable (gm_zero G) (statuses_of (sy_player_count (wo_sync w))) (wo_inputs w) used seek (wo_sync w)"
    and "take seek (map (frame_used (gm_zero G) (sy_player_count (wo_sync w)) used) [0 ..< fc]) =
      good_sim (gm_zero G) (sy_player_count (wo_sync w)) (statuses_of (sy_player_count (wo_sync w)))
        (wo_inputs w) seek"
proof -
  let ?z = "gm_zero G" and ?n = "sy_player_count (wo_sync w)" and ?qs = "sy_input_queues (wo_sync w)"
  note k = check_simulation_consistency_Some[OF some]
  have n: "?n \<le> MAX_PLAYERS" "length ?qs = ?n" using rep by (simp_all add: world_rep_def Let_def)
  have q: "queue_inv ?z (confirmed (wo_sync w)) fc (wo_inputs w p) (used p) (?qs ! p)" if "p < ?n" for p
    using rep that by (simp add: world_rep_def Let_def)
  define seek where "seek = nat k"
  have seek: "k = int seek" using k(1) by (simp add: seek_def is_null_def)
  obtain p where p: "p < ?n" "iq_first_incorrect_frame (?qs ! p) = int seek" using k(2) n seek by auto
  have b: "confirmed (wo_sync w) \<le> seek" "seek < fc"
    using q[OF p(1)] p(2) by (auto simp: queue_inv_def tracks_def requested_def is_null_def)
  have wrong: "is_null (iq_first_incorrect_frame (?qs ! p)) \<or> int seek \<le> iq_first_incorrect_frame (?qs ! p)"
    if "p < ?n" for p
    using k(3)[of p] that n seek by simp
  have "rewindable ?z (statuses_of ?n) (wo_inputs w) used seek (wo_sync w)"
    using n q wrong b by (fastforce simp: rewindable_def Let_def queue_inv_def tracks_def)
  moreover have "used p ! f = input_for ?z (wo_inputs w p) f" if "p < ?n" "f < seek" for p f
    using q[OF that(1)] wrong[OF that(1)] that(2) b by (auto simp: queue_inv_def tracks_def agrees_def)
  then have "take seek (map (frame_used ?z ?n used) [0 ..< fc]) =
      good_sim ?z ?n (statuses_of ?n) (wo_inputs w) seek"
    using b by (auto simp: good_sim_def take_map intro!: frame_inputs_used[symmetric])
  ultimately show ?thesis using seek b by (intro that)
qed

lemma check_made:
  assumes inv: "pending G cs w" and ld: "loads cs = {}"
  obtains cs' sy store where
    "check_simulation (gm_zero G) (statuses_of (sy_player_count (wo_sync w))) (cs, wo_sync w, wo_store w)
      = Some (cs @ cs', sy, store)"
    and "pending G (cs @ cs') (w\<lparr>wo_sync := sy, wo_store := store\<rparr>)"
    and "check_simulation_consistency sy = None"
    and "sy_frame_count sy = sy_frame_count (wo_sync w)" and "sy_player_count sy = sy_player_count (wo_sync w)"
    and "sy_last_confirmed_frame sy = sy_last_confirmed_frame (wo_sync w)"
    and "sy_rolling_back sy \<Longrightarrow> sy_rolling_back (wo_sync w)"
    and "\<And>p. p < sy_player_count (wo_sync w) \<Longrightarrow>
      same_inputs (sy_input_queues (wo_sync w) ! p) (sy_input_queues sy ! p)"
proof (cases "check_simulation_consistency (wo_sync w)")
  case None
  then show ?thesis
    using inv by (intro that[of "[]" "wo_sync w" "wo_store w"]) (simp_all add: check_simulation.simps)
next
  case (Some k)
  obtain used d fc where rep: "world_rep G used d fc cs w" using inv by (auto simp: pending_def)
  let ?z = "gm_zero G" and ?n = "sy_player_count (wo_sync w)" and ?h = "wo_inputs w"
  let ?S = "statuses_of ?n"
  obtain seek where seek: "k = int seek" "seek < fc" "confirmed (wo_sync w) \<le> seek"
    "rewindable ?z ?S ?h used seek (wo_sync w)"
    "take seek (map (frame_used ?z ?n used) [0 ..< fc]) = good_sim ?z ?n ?S ?h seek"
    by (rule incorrect_in_window[OF rep Some])
  have fc: "sy_frame_count (wo_sync w) = int fc" "int fc < i32_MAX" "fc \<le> confirmed (wo_sync w) + 8"
    using rep by (simp_all add: world_rep_def Let_def)
  have run: "run_ok G (wo_state w) d (fc + d - 9) (Suc (fc + d)) (Suc (fc + d))
      (map (frame_used ?z ?n used) [0 ..< fc]) cs (sy_saved_state (wo_sync w)) (wo_store w)"
    using rep seek(2) by (simp add: world_rep_def Let_def saved_ok_def)
  have win: "fc \<le> seek + 9" "seek = 0 \<Longrightarrow> fc \<le> 8" using fc(3) seek(3) by auto
  obtain cs' sy store d' where adj:
    "adjust_simulation ?z ?S (int seek) (cs, wo_sync w, wo_store w) = Some (cs @ cs', sy, store)"
    "sync_ready ?z ?S ?h fc sy" "same_sync ((wo_sync w)\<lparr>sy_rolling_back := False\<rparr>) sy"
    "run_ok G (wo_state w) d' (fc + d' - 9) (Suc (fc + d')) (Suc (fc + d')) (good_sim ?z ?n ?S ?h fc)
      (cs @ cs') (sy_saved_state sy) store"
    "\<And>p. p < ?n \<Longrightarrow> \<not> off ?S p (fc - 1) \<Longrightarrow> tracks ?z (?h p) (good_used ?z ?S ?h fc p) (sy_input_queues sy ! p)"
    by (rule adjust_simulation_ok[OF seek(4) refl run fc(1,2) seek(2) win seek(5) ld]) auto
  note keep = same_sync_keeps[OF rep adj(3)]
  have "world_rep G (good_used ?z ?S ?h fc) d' fc (cs @ cs')
    \<lparr>wo_sync = sy, wo_store = store, wo_state = wo_state w, wo_inputs = ?h\<rparr>"
  proof (rule world_rep_good)
    show "fc \<le> confirmed sy + 8" "confirmed sy \<le> fc" "- 1 \<le> sy_last_confirmed_frame sy" "?n \<le> MAX_PLAYERS"
      using rep keep by (auto simp: world_rep_def Let_def)
  qed (use fc seek(2) adj keep in simp_all)
  then have "pending G (cs @ cs') (w\<lparr>wo_sync := sy, wo_store := store\<rparr>)"
    by (cases w) (auto simp: pending_def)
  moreover have "check_simulation_consistency sy = None"
    using adj(2) by (auto simp: check_simulation_consistency_None sync_ready_def player_ready_def askable_def)
  moreover have "sy_frame_count sy = sy_frame_count (wo_sync w)"
    using adj(2) fc(1) by (simp add: sync_ready_def)
  ultimately show ?thesis
    by (rule_tac that[of cs' sy store])
      (use adj(1,3) Some seek(1) in \<open>simp_all add: check_simulation.simps same_sync_def\<close>)
qed

lemma check_ok:
  assumes inv: "world_inv G w"
  obtains commands sy store g store' where
    "check_simulation (gm_zero G) (statuses_of (sy_player_count (wo_sync w))) ([], wo_sync w, wo_store w)
      = Some (commands, sy, store)"
    and "execute_all (gm_step G) (gm_hash G) commands (wo_state w, store) = Some (g, store')"
    and "world_inv G (w\<lparr>wo_sync := sy, wo_store := store', wo_state := g\<rparr>)"
    and "check_simulation_consistency sy = None"
    and "sy_frame_count sy = sy_frame_count (wo_sync w)" and "sy_player_count sy = sy_player_count (wo_sync w)"
proof -
  obtain cs sy store where made:
    "check_simulation (gm_zero G) (statuses_of (sy_player_count (wo_sync w))) ([], wo_sync w, wo_store w)
      = Some ([] @ cs, sy, store)" "pending G ([] @ cs) (w\<lparr>wo_sync := sy, wo_store := store\<rparr>)"
    "check_simulation_consistency sy = None" "sy_frame_count sy = sy_frame_count (wo_sync w)"
    "sy_player_count sy = sy_player_count (wo_sync w)"
    by (rule check_made[OF inv]) simp_all
  show ?thesis
    by (rule execute_pending[OF made(2)]) (use made in \<open>auto intro: that\<close>)
qed

lemma confirm_queue:
  assumes inv: "queue_inv z b fc h used q" and null: "is_null (iq_first_incorrect_frame q)"
    and c: "0 < c" "b \<le> c" "c \<le> length h" "int c < i32_MAX" and fc: "0 < fc"
  shows "\<exists>q'. discard_confirmed_frames (int c - 1) q = Some q' \<and> queue_inv z c fc h used q' \<and>
    iq_first_incorrect_frame q' = iq_first_incorrect_frame q"
proof -
  have tr: "tracks z h used q" and len: "length used = fc" using inv by (simp_all add: queue_inv_def)
  have ok: "queue_ok z h q" and old: "int (oldest h q) \<le> int c - 1 + 1"
    and lfr: "\<not> is_null (iq_last_frame_requested q)"
    using inv fc c(2) len by (auto simp: queue_inv_def tracks_def requested_def is_null_def)
  have bnd: "0 \<le> int c - 1" "in_i32 (int c - 1)" "in_i32 (int (length h))"
    using c inv by (auto simp: in_i32_def i32_MAX_def queue_inv_def)
  obtain t l where d: "discard_confirmed_frames (int c - 1) q = Some (q\<lparr>iq_tail := t, iq_length := l\<rparr>)"
    "queue_ok z h (q\<lparr>iq_tail := t, iq_length := l\<rparr>)"
    "length h - l = max (oldest h q) (min (length h) (nat (int c - 1 + 1)))"
    by (rule discard_window[OF ok bnd lfr old])
  have "oldest h (q\<lparr>iq_tail := t, iq_length := l\<rparr>) \<le> c"
    using d(3) old by (simp add: oldest_def)
  then have "queue_inv z c fc h used (q\<lparr>iq_tail := t, iq_length := l\<rparr>)"
    using inv tracks_window[OF tr d(2)] c null by (simp add: queue_inv_def)
  then show ?thesis using d(1) by auto
qed

lemma confirm_ok:
  assumes inv: "pending G cs w" and none: "check_simulation_consistency (wo_sync w) = None"
    and c: "0 < sy_frame_count (wo_sync w) \<or> c = 0" "sy_last_confirmed_frame (wo_sync w) \<le> c" "0 \<le> c"
      "c \<le> sy_frame_count (wo_sync w)"
      "\<And>p. p < sy_player_count (wo_sync w) \<Longrightarrow> c \<le> int (length (wo_inputs w p))"
  obtains sy where "set_last_confirmed_frame c (wo_sync w) = Some sy"
    and "pending G cs (w\<lparr>wo_sync := sy\<rparr>)"
proof -
  obtain used d fc where rep: "world_rep G used d fc cs w" using inv by (auto simp: pending_def)
  let ?sy = "wo_sync w" and ?z = "gm_zero G"
  let ?qs = "sy_input_queues ?sy"
  obtain m where m: "c = int m" using c(3) nonneg_int_cases by blast
  have fc: "0 < fc \<or> m = 0" "m \<le> fc" "confirmed ?sy \<le> m" "int fc < i32_MAX" "fc \<le> confirmed ?sy + 8"
    using rep c m by (auto simp: world_rep_def Let_def confirmed_def)
  have q: "queue_inv ?z (confirmed ?sy) fc (wo_inputs w p) (used p) (?qs ! p)"
    "is_null (iq_first_incorrect_frame (?qs ! p))" if "p < length ?qs" for p
    using rep none that by (auto simp: world_rep_def Let_def check_simulation_consistency_None)
  have n: "length ?qs = sy_player_count ?sy" using rep by (simp add: world_rep_def Let_def)
  show ?thesis
  proof (cases "m = 0")
    case True
    then have "world_rep G used d fc cs (w\<lparr>wo_sync := ?sy\<lparr>sy_last_confirmed_frame := c\<rparr>\<rparr>)"
      using rep m fc by (auto simp: world_rep_def Let_def confirmed_def)
    then show ?thesis
      using True m by (intro that[of "?sy\<lparr>sy_last_confirmed_frame := c\<rparr>"])
        (auto simp: set_last_confirmed_frame_def pending_def)
  next
    case False
    have ex: "\<exists>q'. discard_confirmed_frames (int m - 1) (?qs ! p) = Some q' \<and>
        queue_inv ?z m fc (wo_inputs w p) (used p) q'" if "p < length ?qs" for p
      using confirm_queue[OF q[OF that], of m] False fc c(5)[of p] that n m by force
    obtain qs' where qs': "traverse (discard_confirmed_frames (int m - 1)) ?qs = Some qs'"
      "length qs' = length ?qs"
      "\<And>p. p < length ?qs \<Longrightarrow> discard_confirmed_frames (int m - 1) (?qs ! p) = Some (qs' ! p) \<and>
        queue_inv ?z m fc (wo_inputs w p) (used p) (qs' ! p)"
      using traverse_exists[where P = "\<lambda>p. queue_inv ?z m fc (wo_inputs w p) (used p)", OF ex] by blast
    let ?sy' = "?sy\<lparr>sy_last_confirmed_frame := c, sy_input_queues := qs'\<rparr>"
    have "world_rep G used d fc cs (w\<lparr>wo_sync := ?sy'\<rparr>)"
      using rep m fc qs' n by (auto simp: world_rep_def Let_def confirmed_def)
    then show ?thesis
      using qs'(1) m False by (intro that[of ?sy']) (auto simp: set_last_confirmed_frame_def pending_def)
  qed
qed

section \<open>Reachable sessions\<close>

lemma input_player_count:
  "sync_add_local_input p x sy = Some (r, sy') \<Longrightarrow> sy_player_count sy' = sy_player_count sy"
  "add_remote_input p inp sy = Some sy' \<Longrightarrow> sy_player_count sy' = sy_player_count sy"
  "set_last_confirmed_frame c sy = Some sy' \<Longrightarrow> sy_player_count sy' = sy_player_count sy"
  by (auto simp: sync_add_local_input_def add_remote_input_def set_last_confirmed_frame_def Let_def
      bind_eq_Some_conv split: if_split_asm)

lemma increment_player_count:
  "increment_frame z sts (cs, sy, store) = Some (cs', sy', store') \<Longrightarrow>
     sy_player_count sy' = sy_player_count sy"
  by (auto simp: synchronize_inputs_def bind_eq_Some_conv split: if_split_asm)

lemma world_step_inv:
  assumes inv: "world_inv G w" and step: "world_step G w w'"
  shows "world_inv G w' \<and> sy_player_count (wo_sync w') = sy_player_count (wo_sync w)"
  using step
proof cases
  case (local_input p t x f sy)
  then have bar: "\<not> barred (wo_sync w)" using local_input_barred[OF inv, of p x] by auto
  obtain sy2 where "sync_add_local_input p x (wo_sync w) = Some (Inr (sy_frame_count (wo_sync w)), sy2)"
    "world_inv G (w\<lparr>wo_sync := sy2, wo_inputs := accept_input G p t x (wo_inputs w)\<rparr>)"
    by (rule local_input_ok[OF inv local_input(2) bar, of x])
  with local_input input_player_count(1) show ?thesis by simp
next
  case (remote_input p m t x sy)
  obtain sy2 where "add_remote_input p \<lparr>fi_frame = m, fi_input = x\<rparr> (wo_sync w) = Some sy2"
    "world_inv G (w\<lparr>wo_sync := sy2, wo_inputs := accept_input G p t x (wo_inputs w)\<rparr>)"
    by (rule remote_input_ok[OF inv remote_input(2), of x])
  with remote_input input_player_count(2) show ?thesis by simp
next
  case (advance commands sy store g store')
  obtain commands2 sy2 store2 g2 store2' where
    "increment_frame (gm_zero G) (statuses_of (sy_player_count (wo_sync w))) ([], wo_sync w, wo_store w)
      = Some (commands2, sy2, store2)"
    "execute_all (gm_step G) (gm_hash G) commands2 (wo_state w, store2) = Some (g2, store2')"
    "world_inv G (w\<lparr>wo_sync := sy2, wo_store := store2', wo_state := g2\<rparr>)"
    by (rule advance_ok[OF inv advance(2-4)])
  with advance increment_player_count show ?thesis by (simp del: increment_frame.simps)
next
  case (check commands sy store g store')
  obtain commands2 sy2 store2 g2 store2' where
    "check_simulation (gm_zero G) (statuses_of (sy_player_count (wo_sync w))) ([], wo_sync w, wo_store w)
      = Some (commands2, sy2, store2)"
    "execute_all (gm_step G) (gm_hash G) commands2 (wo_state w, store2) = Some (g2, store2')"
    "world_inv G (w\<lparr>wo_sync := sy2, wo_store := store2', wo_state := g2\<rparr>)"
    "sy_player_count sy2 = sy_player_count (wo_sync w)"
    by (rule check_ok[OF inv])
  with check show ?thesis by simp
next
  case (confirm c sy)
  obtain sy2 where "set_last_confirmed_frame c (wo_sync w) = Some sy2"
    "world_inv G (w\<lparr>wo_sync := sy2\<rparr>)"
    by (rule confirm_ok[OF inv confirm(2) disjI1[OF confirm(3)] confirm(4-6)]) (use confirm(7) in auto)
  with confirm input_player_count(3) show ?thesis by simp
qed

lemma reachable_inv:
  assumes "world_reachable G n delay w" and "n \<le> MAX_PLAYERS" and "0 \<le> delay"
  shows "world_inv G w \<and> sy_player_count (wo_sync w) = n"
  using assms
proof (induction rule: world_reachable.induct)
  case start
  then show ?case by (simp add: world_inv_new) (simp add: world_new_def sync_new_def)
next
  case (step w w')
  then show ?case using world_step_inv by metis
qed

text \<open>The client's state is the one the known and predicted inputs yield.\<close>

lemma checked_state:
  assumes inv: "world_inv G w" and none: "check_simulation_consistency (wo_sync w) = None"
  shows "wo_state w = foldl (gm_step G) (gm_start G)
    (good_sim (gm_zero G) (sy_player_count (wo_sync w)) (statuses_of (sy_player_count (wo_sync w)))
      (wo_inputs w) (nat (sy_frame_count (wo_sync w))))"
proof -
  obtain used d fc where rep: "world_rep G used d fc [] w" using inv by (auto simp: pending_def)
  have "sy_frame_count (wo_sync w) = int fc" using rep by (simp add: world_rep_def Let_def)
  then show ?thesis
    using rep checked_sim(1)[OF rep none refl]
    by (auto simp: world_rep_def Let_def saved_ok_def run_ok_def replays_def split: if_splits)
qed

lemma good_sim_cong:
  assumes "\<And>p. p < n \<Longrightarrow> f \<le> length (h p) \<and> f \<le> length (h' p) \<and> take f (h p) = take f (h' p)"
  shows "good_sim z n sts h f = good_sim z n sts h' f"
proof -
  have "h p ! i = h' p ! i" if "p < n" "i < f" for p i
    using assms[OF that(1)] that(2) nth_take[of i f "h p"] nth_take[of i f "h' p"] by simp
  moreover have "i < length (h p) \<and> i < length (h' p)" if "p < n" "i < f" for p i
    using assms[OF that(1)] that(2) by simp
  ultimately show ?thesis
    by (auto simp: good_sim_def frame_inputs_def input_for_def)
qed

text \<open>Two peers who know the same inputs of the frames simulated so far have the same game state.\<close>

lemma peers_agree:
  assumes "world_reachable G n delay w" and "world_reachable G n delay' w'"
    and n: "n \<le> MAX_PLAYERS" and "0 \<le> delay" and "0 \<le> delay'"
    and "check_simulation_consistency (wo_sync w) = None"
    and "check_simulation_consistency (wo_sync w') = None"
    and f: "sy_frame_count (wo_sync w) = int f" "sy_frame_count (wo_sync w') = int f"
    and known: "\<And>p. p < n \<Longrightarrow> f \<le> length (wo_inputs w p) \<and> f \<le> length (wo_inputs w' p) \<and>
      take f (wo_inputs w p) = take f (wo_inputs w' p)"
  shows "wo_state w = wo_state w'"
  using checked_state[of G w] checked_state[of G w'] reachable_inv[of G n delay w]
    reachable_inv[of G n delay' w'] good_sim_cong[OF known] assms by simp

lemma reachable_bounds:
  assumes "world_reachable G n delay w" and "n \<le> MAX_PLAYERS" and "0 \<le> delay"
  shows "sy_frame_count (wo_sync w) \<le> max 0 (sy_last_confirmed_frame (wo_sync w)) + int MAX_PREDICTION_FRAMES
    \<and> sy_last_confirmed_frame (wo_sync w) \<le> sy_frame_count (wo_sync w)
    \<and> (case check_simulation_consistency (wo_sync w) of None \<Rightarrow> True
       | Some k \<Rightarrow> max 0 (sy_last_confirmed_frame (wo_sync w)) \<le> k \<and> k < sy_frame_count (wo_sync w))"
proof -
  obtain used d fc where rep: "world_rep G used d fc [] w"
    using reachable_inv[OF assms] by (auto simp: pending_def)
  have "max 0 (sy_last_confirmed_frame (wo_sync w)) \<le> k \<and> k < sy_frame_count (wo_sync w)"
    if "check_simulation_consistency (wo_sync w) = Some k" for k
    by (rule incorrect_in_window[OF rep that]) (use rep in \<open>auto simp: world_rep_def Let_def confirmed_def\<close>)
  then show ?thesis
    using rep by (auto simp: world_rep_def Let_def confirmed_def MAX_PREDICTION_FRAMES_def split: option.splits)
qed

lemma reachable_local_input:
  assumes r: "world_reachable G n delay w" and n: "n \<le> MAX_PLAYERS" "0 \<le> delay"
    and fits: "input_fits w p (sy_frame_count (wo_sync w)) t"
  shows "if barred (wo_sync w)
    then sync_add_local_input p x (wo_sync w) = Some (Inl ReachedPredictionBarrier, wo_sync w)
    else \<exists>sy. sync_add_local_input p x (wo_sync w) = Some (Inr (sy_frame_count (wo_sync w)), sy) \<and>
      world_reachable G n delay (w\<lparr>wo_sync := sy, wo_inputs := accept_input G p t x (wo_inputs w)\<rparr>)"
proof (cases "barred (wo_sync w)")
  case True
  then show ?thesis using local_input_barred[of G "[]" w p x] reachable_inv[OF r n] by simp
next
  case False
  have "world_inv G w" using reachable_inv[OF r n] by simp
  then obtain sy where sy: "sync_add_local_input p x (wo_sync w) = Some (Inr (sy_frame_count (wo_sync w)), sy)"
    by (rule local_input_ok[OF _ fits False])
  then show ?thesis
    using False world_reachable.step[OF r world_step.local_input[OF fits sy]] by auto
qed

section \<open>Executable sessions\<close>

text \<open>A script of operations, executed with the guards of \<open>world_step\<close>; \<open>None\<close> when one fails.\<close>

datatype 'i op =
    Local_Input nat nat 'i
  | Remote_Input nat frame nat 'i
  | Advance
  | Check
  | Confirm frame

definition execute_run :: "('i, 'g) game \<Rightarrow> ('i, 'g) world \<Rightarrow> ('i, 'g) sync_run \<Rightarrow> ('i, 'g) world option" where
  "execute_run G w run =
     do { r \<leftarrow> execute_all (gm_step G) (gm_hash G) (fst run) (wo_state w, snd (snd run));
          Some (w\<lparr>wo_sync := fst (snd run), wo_store := snd r, wo_state := fst r\<rparr>) }"

fun run_op :: "('i, 'g) game \<Rightarrow> 'i op \<Rightarrow> ('i, 'g) world \<Rightarrow> ('i, 'g) world option" where
  "run_op G (Local_Input p t x) w =
     do { debug_assert (input_fits w p (sy_frame_count (wo_sync w)) t);
          r \<leftarrow> sync_add_local_input p x (wo_sync w);
          (case fst r of Inl e \<Rightarrow> None
           | Inr f \<Rightarrow> Some (w\<lparr>wo_sync := snd r, wo_inputs := accept_input G p t x (wo_inputs w)\<rparr>)) }"
| "run_op G (Remote_Input p m t x) w =
     do { debug_assert (input_fits w p m t);
          sy \<leftarrow> add_remote_input p \<lparr>fi_frame = m, fi_input = x\<rparr> (wo_sync w);
          Some (w\<lparr>wo_sync := sy, wo_inputs := accept_input G p t x (wo_inputs w)\<rparr>) }"
| "run_op G Advance w =
     do { debug_assert (\<not> barred (wo_sync w) \<and> sy_frame_count (wo_sync w) + 1 < i32_MAX
            \<and> check_simulation_consistency (wo_sync w) = None);
          run \<leftarrow> increment_frame (gm_zero G) (statuses_of (sy_player_count (wo_sync w)))
            ([], wo_sync w, wo_store w);
          execute_run G w run }"
| "run_op G Check w =
     do { run \<leftarrow> check_simulation (gm_zero G) (statuses_of (sy_player_count (wo_sync w)))
            ([], wo_sync w, wo_store w);
          execute_run G w run }"
| "run_op G (Confirm c) w =
     do { debug_assert (check_simulation_consistency (wo_sync w) = None \<and> 0 < sy_frame_count (wo_sync w)
            \<and> sy_last_confirmed_frame (wo_sync w) \<le> c \<and> 0 \<le> c \<and> c \<le> sy_frame_count (wo_sync w)
            \<and> list_all (\<lambda>p. c \<le> int (length (wo_inputs w p))) [0 ..< sy_player_count (wo_sync w)]);
          sy \<leftarrow> set_last_confirmed_frame c (wo_sync w);
          Some (w\<lparr>wo_sync := sy\<rparr>) }"

primrec run_ops :: "('i, 'g) game \<Rightarrow> 'i op list \<Rightarrow> ('i, 'g) world \<Rightarrow> ('i, 'g) world option" where
  "run_ops G [] w = Some w"
| "run_ops G (op # ops) w = do { w \<leftarrow> run_op G op w; run_ops G ops w }"

lemma run_op_step: "run_op G op w = Some w' \<Longrightarrow> world_step G w w'"
proof (cases op)
  case (Local_Input p t x)
  assume run: "run_op G op w = Some w'"
  obtain r sy where r: "sync_add_local_input p x (wo_sync w) = Some (r, sy)"
    using run by (cases "sync_add_local_input p x (wo_sync w)") (auto simp: Local_Input bind_eq_Some_conv)
  then obtain f where "r = Inr f"
    using run by (cases r) (auto simp: Local_Input bind_eq_Some_conv)
  then show ?thesis
    using run r by (auto simp: Local_Input bind_eq_Some_conv intro: world_step.local_input)
next
  case (Remote_Input p m t x)
  assume "run_op G op w = Some w'"
  then show ?thesis
    by (auto simp: Remote_Input bind_eq_Some_conv intro: world_step.remote_input)
next
  case Advance
  assume "run_op G op w = Some w'"
  then show ?thesis
    by (auto simp: Advance execute_run_def bind_eq_Some_conv simp del: increment_frame.simps
        intro: world_step.advance)
next
  case Check
  assume "run_op G op w = Some w'"
  then show ?thesis
    by (auto simp: Check execute_run_def bind_eq_Some_conv intro: world_step.check)
next
  case (Confirm c)
  assume "run_op G op w = Some w'"
  then show ?thesis
    by (auto simp: Confirm bind_eq_Some_conv list_all_iff intro!: world_step.confirm)
qed

lemma run_ops_steps:
  "run_ops G ops w = Some w' \<Longrightarrow> world_reachable G n delay w \<Longrightarrow> world_reachable G n delay w'"
proof (induction ops arbitrary: w)
  case (Cons op ops)
  then obtain w1 where w1: "run_op G op w = Some w1" "run_ops G ops w1 = Some w'"
    by (auto simp: bind_eq_Some_conv)
  show ?case
    using Cons.IH[OF w1(2)] world_reachable.step[OF Cons.prems(2) run_op_step[OF w1(1)]] by blast
qed simp

lemma run_ops_reachable:
  "run_ops G ops (world_new G n delay) = Some w \<Longrightarrow> world_reachable G n delay w"
  using run_ops_steps world_reachable.start by blast

text \<open>A game whose state lists the inputs of every frame.\<close>

definition log_game :: "(int, int list list) game" where
  "log_game = \<lparr>gm_zero = 0, gm_step = (\<lambda>g inp. g @ [take 2 (gi_inputs inp)]), gm_hash = (\<lambda>_. None),
     gm_start = []\<rparr>"

definition run_log :: "int op list \<Rightarrow> (int, int list list) world option" where
  "run_log ops = run_ops log_game ops (world_new log_game 2 0)"

end
