(* ===== verification/Session_Safety.thy ===== *)
theory Session_Safety
  imports P2P_Session Handshake Rollback
begin

text \<open>
  The composition of the session, its peers, \<open>Sync\<close> and the client: as long as no player is
  disconnected, the methods of the session implement the steps of the rollback state machine, so
  none of them panics and the client's state is the one the inputs yield.
\<close>

section \<open>Connected players\<close>

definition all_connected :: "nat \<Rightarrow> connection_status list \<Rightarrow> bool" where
  "all_connected n sts \<longleftrightarrow> length sts = n \<and> (\<forall>i < n. \<not> cs_disconnected (sts ! i))"

lemma bind_cong_Some:
  "m = m' \<Longrightarrow> (\<And>x. m' = Some x \<Longrightarrow> f x = g x) \<Longrightarrow> Option.bind m f = Option.bind m' g"
  by (cases m') auto

text \<open>The frames of the connected players do not matter to \<open>Sync\<close>.\<close>

lemma synchronize_loop_connected:
  assumes "all_connected n sts"
  shows "(\<forall>i \<in> set idxs. i < n) \<Longrightarrow>
    synchronize_loop z sts f idxs inp qs = synchronize_loop z (statuses_of n) f idxs inp qs"
proof (induction idxs arbitrary: inp qs)
  case (Cons i idxs)
  have "is_disconnected sts f i = Some False" "is_disconnected (statuses_of n) f i = Some False"
    using assms Cons.prems by (simp_all add: all_connected_def is_disconnected_def connection_status_default_def)
  then show ?case
    using Cons by (auto intro!: bind_cong_Some)
qed simp

lemma synchronize_inputs_connected:
  "all_connected (sy_player_count sy) sts \<Longrightarrow>
     synchronize_inputs z sts sy = synchronize_inputs z (statuses_of (sy_player_count sy)) sy"
  by (simp add: synchronize_inputs_def synchronize_loop_connected)

lemma save_player_count:
  "save_current_frame (cs, sy, store) = Some (cs', sy', store') \<Longrightarrow> sy_player_count sy' = sy_player_count sy"
  by (auto simp: bind_eq_Some_conv)

lemma increment_frame_connected:
  assumes "all_connected (sy_player_count sy) sts"
  shows "increment_frame z sts (cs, sy, store) = increment_frame z (statuses_of (sy_player_count sy)) (cs, sy, store)"
proof -
  have same: "synchronize_inputs z sts (fst (snd run)) = synchronize_inputs z (statuses_of (sy_player_count sy)) (fst (snd run))"
    if "(if sy_frame_count sy = 0 then save_current_frame (cs, sy, store) else Some (cs, sy, store)) = Some run" for run
  proof -
    obtain cs' sy' store' where run: "run = (cs', sy', store')" by (cases run)
    then have "sy_player_count sy' = sy_player_count sy"
      using that save_player_count[of cs sy store cs' sy' store'] by (auto split: if_split_asm)
    then show ?thesis using synchronize_inputs_connected[of sy' sts z] assms by (simp add: run)
  qed
  show ?thesis
    unfolding increment_frame.simps Let_def by (rule bind_cong_Some[OF refl]) (simp only: same)
qed

lemma increment_frames_connected:
  "all_connected (sy_player_count (fst (snd run))) sts \<Longrightarrow>
     increment_frames n z sts run = increment_frames n z (statuses_of (sy_player_count (fst (snd run)))) run"
proof (induction n arbitrary: run)
  case (Suc n)
  obtain cs sy store where run: "run = (cs, sy, store)" by (cases run)
  have inc: "increment_frame z sts run = increment_frame z (statuses_of (sy_player_count sy)) run"
    using increment_frame_connected[of sy sts z cs store] Suc.prems by (simp add: run del: increment_frame.simps)
  have "increment_frames n z sts run' = increment_frames n z (statuses_of (sy_player_count sy)) run'"
    if "increment_frame z (statuses_of (sy_player_count sy)) run = Some run'" for run'
  proof -
    obtain cs' sy' store' where run': "run' = (cs', sy', store')" by (cases run')
    have "sy_player_count sy' = sy_player_count sy"
      by (rule increment_player_count) (use that run run' in simp)
    then show ?thesis using Suc.IH[of run'] Suc.prems by (simp add: run run')
  qed
  then show ?case
    unfolding increment_frames.simps inc
    by (cases "increment_frame z (statuses_of (sy_player_count sy)) run") (simp_all add: run del: increment_frame.simps)
qed simp

lemma load_player_count:
  "load_frame f (cs, sy, store) = Some (cs', sy', store') \<Longrightarrow> sy_player_count sy' = sy_player_count sy"
  by (auto simp: load_frame.simps bind_eq_Some_conv Let_def split: if_split_asm)

lemma reset_player_count: "reset_prediction f sy = Some sy' \<Longrightarrow> sy_player_count sy' = sy_player_count sy"
  by (auto simp: reset_prediction_def bind_eq_Some_conv)

lemma adjust_simulation_connected:
  assumes "all_connected (sy_player_count sy) sts"
  shows "adjust_simulation z sts seek (cs, sy, store) =
    adjust_simulation z (statuses_of (sy_player_count sy)) seek (cs, sy, store)"
proof -
  have "increment_frames n z sts (cs', sy'', store') = increment_frames n z (statuses_of (sy_player_count sy)) (cs', sy'', store')"
    if "load_frame seek (cs, sy\<lparr>sy_rolling_back := True\<rparr>, store) = Some (cs', sy', store')"
      "reset_prediction f sy' = Some sy''" for cs' sy' store' f sy'' n
    using load_player_count[OF that(1)] reset_player_count[OF that(2)]
      increment_frames_connected[of "(cs', sy'', store')" sts n z] assms by simp
  then show ?thesis
    unfolding adjust_simulation.simps Let_def by (auto intro!: bind_cong_Some)
qed

lemma check_simulation_connected:
  "all_connected (sy_player_count sy) sts \<Longrightarrow>
     check_simulation z sts (cs, sy, store) = check_simulation z (statuses_of (sy_player_count sy)) (cs, sy, store)"
  by (simp add: check_simulation.simps adjust_simulation_connected split: option.split)

section \<open>Commands that only report events\<close>

definition only_events :: "'i command list \<Rightarrow> bool" where
  "only_events cs \<longleftrightarrow> (\<forall>c \<in> set cs. \<exists>e. c = Event e)"

lemma only_events_simps [simp]:
  "only_events []" "only_events (Event e # cs) = only_events cs"
  "only_events (cs @ ds) \<longleftrightarrow> only_events cs \<and> only_events ds"
  by (auto simp: only_events_def)

lemma only_events_loads [simp]: "only_events cs \<Longrightarrow> loads cs = {}"
  by (auto simp: only_events_def loads_def)

lemma execute_events: "only_events cs \<Longrightarrow> execute_all step hash cs s = Some s"
proof (induction cs)
  case (Cons c cs)
  then show ?case by (cases s) (auto simp: only_events_def)
qed simp

lemma run_ok_events:
  "run_ok G g d lo hi u sim cs ss store \<Longrightarrow> only_events es \<Longrightarrow> run_ok G g d lo hi u sim (cs @ es) ss store"
  by (auto simp: run_ok_def replays_def execute_all_append execute_events)

lemma saved_ok_events:
  "saved_ok G g d fc sim cs ss store \<Longrightarrow> only_events es \<Longrightarrow> saved_ok G g d fc sim (cs @ es) ss store"
  by (simp add: saved_ok_def run_ok_events split: if_split_asm)

lemma pending_events:
  assumes "pending G cs w" and "only_events es"
  shows "pending G (cs @ es) w"
proof -
  obtain used d fc where rep: "world_rep G used d fc cs w" using assms(1) by (auto simp: pending_def)
  then have "world_rep G used d fc (cs @ es) w"
    using assms(2) by (auto simp: world_rep_def Let_def intro: saved_ok_events)
  then show ?thesis by (auto simp: pending_def)
qed

section \<open>A session and its world\<close>

definition player_rep ::
    "('i, 'e, 'o, 'm) views \<Rightarrow> ('i, 'g) world \<Rightarrow> ('i, 'e, 'o, 'm) session \<Rightarrow> nat \<Rightarrow> bool" where
  "player_rep W w s i \<longleftrightarrow>
     (let received = cs_last_frame (se_local_connect_status s ! i) in
        - 1 \<le> received \<and> received = iq_last_user_added_frame (sy_input_queues (se_sync s) ! i) \<and>
        received + 1 \<le> int (length (wo_inputs w i)) \<and> sy_last_confirmed_frame (se_sync s) \<le> received \<and>
        (se_players s ! i = Local \<longrightarrow> received \<le> sy_frame_count (se_sync s)) \<and>
        (\<forall>p. se_players s ! i = Remote p \<longrightarrow> \<not> vw_events_shut W (pe_events p) \<and>
           pe_peer_connect_status p = statuses_of (sy_player_count (se_sync s))))"

text \<open>
  \<open>cs\<close> are the commands made since the client last executed any. The players are those of the
  world; all of them are connected.
\<close>

definition session_rep ::
    "('i, 'e, 'o, 'm) crates \<Rightarrow> ('i, 'e, 'o, 'm) views \<Rightarrow> ('i, 'g) game \<Rightarrow> 'i command list \<Rightarrow>
       ('i, 'g) world \<Rightarrow> ('i, 'e, 'o, 'm) session \<Rightarrow> bool" where
  "session_rep X W G cs w s \<longleftrightarrow>
     wo_sync w = se_sync s \<and> pending G cs w \<and> gm_zero G = pod_zeroed (cr_pod X) \<and>
     \<not> sy_rolling_back (se_sync s) \<and> (se_synchronizing s \<longrightarrow> sy_frame_count (se_sync s) = 0) \<and>
     length (se_players s) = sy_player_count (se_sync s) \<and>
     all_connected (sy_player_count (se_sync s)) (se_local_connect_status s) \<and>
     (\<forall>i < sy_player_count (se_sync s). player_rep W w s i)"

fun same_player :: "('i, 'e, 'o, 'm) peer player_type \<Rightarrow> ('i, 'e, 'o, 'm) peer player_type \<Rightarrow> bool" where
  "same_player Local Local = True"
| "same_player (Remote p) (Remote q) = (q = p\<lparr>pe_events := pe_events q\<rparr>)"
| "same_player _ _ = False"

lemma same_player_refl [simp]: "same_player a a"
  by (cases a) simp_all

lemma same_player_trans: "same_player a b \<Longrightarrow> same_player b c \<Longrightarrow> same_player a c"
  by (cases a; cases b; cases c) (simp_all, metis peer.surjective peer.update_convs(11))

lemma same_player_update [simp]: "same_player (Remote p) (Remote (p\<lparr>pe_events := c\<rparr>))"
  by simp

lemma same_player_remote: "same_player a b \<Longrightarrow> is_remote_player b = is_remote_player a"
  by (cases a; cases b) simp_all

declare same_player.simps(2) [simp del]

text \<open>Nothing but the channel of player \<open>i\<close>, its inputs and its status changes.\<close>

definition only_player ::
    "nat \<Rightarrow> ('i, 'g) world \<times> ('i, 'e, 'o, 'm) session \<Rightarrow> ('i, 'g) world \<times> ('i, 'e, 'o, 'm) session \<Rightarrow> bool" where
  "only_player i before after \<longleftrightarrow>
     (\<exists>qs. se_sync (snd after) = (se_sync (snd before))\<lparr>sy_input_queues := qs\<rparr> \<and>
        length qs = length (sy_input_queues (se_sync (snd before))) \<and>
        (\<forall>j. j \<noteq> i \<longrightarrow> qs ! j = sy_input_queues (se_sync (snd before)) ! j)) \<and>
     wo_store (fst after) = wo_store (fst before) \<and> wo_state (fst after) = wo_state (fst before) \<and>
     (se_synchronizing (snd after) \<longrightarrow> se_synchronizing (snd before)) \<and>
     se_next_recommended_sleep (snd after) = se_next_recommended_sleep (snd before) \<and>
     length (se_players (snd after)) = length (se_players (snd before)) \<and>
     (\<forall>j. j \<noteq> i \<longrightarrow> wo_inputs (fst after) j = wo_inputs (fst before) j \<and>
        se_players (snd after) ! j = se_players (snd before) ! j \<and>
        se_local_connect_status (snd after) ! j = se_local_connect_status (snd before) ! j) \<and>
     same_player (se_players (snd before) ! i) (se_players (snd after) ! i)"

lemma only_player_refl [simp]: "only_player i ws ws"
  unfolding only_player_def by (auto intro!: exI[of _ "sy_input_queues (se_sync (snd ws))"])

lemma only_player_trans: "only_player i a b \<Longrightarrow> only_player i b c \<Longrightarrow> only_player i a c"
  unfolding only_player_def by (elim conjE exE) (intro conjI exI; auto intro: same_player_trans)

lemma synchronized_from_total:
  "i + length players \<le> length sts \<Longrightarrow> \<exists>b. synchronized_from sts i players = Some b"
  by (induction players arbitrary: i) (auto simp: lazy_and_def)

text \<open>The check at the end of a handshake at most reports that the session is running.\<close>

lemma check_initial_sync_rep:
  assumes rep: "session_rep X W G cs w s"
  obtains es s' where "check_initial_sync (cs, s, st) = Some (cs @ es, s', st)" and "only_events es"
    and "session_rep X W G (cs @ es) w s'" and "only_player i (w, s) (w, s')"
    and "se_players s' = se_players s" and "se_local_connect_status s' = se_local_connect_status s"
    and "se_sync s' = se_sync s"
proof -
  have "length (se_players s) \<le> length (se_local_connect_status s)"
    using rep by (simp add: session_rep_def all_connected_def)
  then obtain b where b: "session_is_synchronized s = Some b"
    using synchronized_from_total[of 0 "se_players s"] by (auto simp: session_is_synchronized_def)
  show ?thesis
  proof (cases "se_synchronizing s \<and> b")
    case True
    then have "check_initial_sync (cs, s, st) = Some (cs @ [Event Running], s\<lparr>se_synchronizing := False\<rparr>, st)"
      using b by (simp add: check_initial_sync.simps)
    moreover have "session_rep X W G (cs @ [Event Running]) w (s\<lparr>se_synchronizing := False\<rparr>)"
      using rep pending_events[of G cs w "[Event Running]"] by (simp add: session_rep_def player_rep_def)
    moreover have "only_player i (w, s) (w, s\<lparr>se_synchronizing := False\<rparr>)"
      by (auto simp: only_player_def intro!: exI[of _ "sy_input_queues (se_sync s)"])
    ultimately show ?thesis
      by (intro that[of "[Event Running]" "s\<lparr>se_synchronizing := False\<rparr>"]) simp_all
  next
    case False
    then have "check_initial_sync (cs, s, st) = Some (cs, s, st)"
      using b by (auto simp: check_initial_sync.simps lazy_and_def)
    then show ?thesis using rep by (intro that[of "[]" s]) simp_all
  qed
qed

lemma session_rep_event:
  "session_rep X W G cs w s \<Longrightarrow> session_rep X W G (cs @ [Event e]) w s"
  by (simp add: session_rep_def pending_events)

section \<open>Inputs that arrive\<close>

text \<open>The history after the inputs \<open>xs\<close> of the frames \<open>m, m + 1, ...\<close> were accepted with a delay.\<close>

primrec accept_all :: "'i \<Rightarrow> frame \<Rightarrow> frame \<Rightarrow> 'i list \<Rightarrow> 'i list \<Rightarrow> 'i list" where
  "accept_all z delay m [] h = h"
| "accept_all z delay m (x # xs) h = accept_all z delay (m + 1) xs (queue_accept z h (nat (m + delay)) x)"

text \<open>\<open>k\<close> more inputs fit the queue \<open>q\<close> with history \<open>h\<close>.\<close>

definition room_for :: "'i input_queue \<Rightarrow> 'i list \<Rightarrow> nat \<Rightarrow> bool" where
  "room_for q h k \<longleftrightarrow> (let last_frame = iq_last_user_added_frame q + int k in
     last_frame < i32_MAX \<and> last_frame + iq_frame_delay q + 1 < i32_MAX \<and>
     iq_length q + (nat (last_frame + iq_frame_delay q + 1) - length h) \<le> MAX_ROLLBACK_FRAMES)"

text \<open>Player \<open>i\<close> has the queue \<open>q\<close> and the history \<open>h\<close>.\<close>

definition put_player :: "nat \<Rightarrow> 'i input_queue \<Rightarrow> 'i list \<Rightarrow> ('i, 'g) world \<Rightarrow> ('i, 'g) world" where
  "put_player i q h w = w\<lparr>wo_sync := (wo_sync w)\<lparr>sy_input_queues := (sy_input_queues (wo_sync w))[i := q]\<rparr>,
     wo_inputs := (wo_inputs w)(i := h)\<rparr>"

lemma put_player_simps [simp]:
  "wo_sync (put_player i q h w) = (wo_sync w)\<lparr>sy_input_queues := (sy_input_queues (wo_sync w))[i := q]\<rparr>"
  "wo_inputs (put_player i q h w) = (wo_inputs w)(i := h)"
  "wo_store (put_player i q h w) = wo_store w" "wo_state (put_player i q h w) = wo_state w"
  "put_player i q h (put_player i q' h' w) = put_player i q h w"
  by (simp_all add: put_player_def)

lemma put_player_same: "put_player i (sy_input_queues (wo_sync w) ! i) (wo_inputs w i) w = w"
  by (simp add: put_player_def)

lemma input_fields:
  assumes inv: "queue_inv z b fc h used q" and m: "m + iq_frame_delay q = int t" "int t + 1 < i32_MAX" "in_i32 m"
      "is_null (iq_last_user_added_frame q) \<or> m = iq_last_user_added_frame q + 1"
      "iq_length q + (Suc t - length h) \<le> MAX_ROLLBACK_FRAMES"
    and add: "add_input \<lparr>fi_frame = m, fi_input = x\<rparr> q = Some (r, q')"
  shows "iq_last_user_added_frame q' = m" and "iq_frame_delay q' = iq_frame_delay q"
    and "iq_length q' = iq_length q + (Suc t - length h)"
proof -
  have tr: "tracks z h used q" and bounds: "in_i32 (int t + 1)" "in_i32 (int (length h))"
    using inv m(2) by (auto simp: queue_inv_def in_i32_def i32_MAX_def)
  obtain q'' where q'': "add_input \<lparr>fi_frame = m, fi_input = x\<rparr> q =
      Some (if t < length h then NULL_FRAME else int t, q'')"
    "iq_length q'' = iq_length q + (Suc t - length h)" "iq_last_user_added_frame q'' = m"
    "iq_frame_delay q'' = iq_frame_delay q"
    by (rule add_input_tracks[OF tr m(4,1) bounds(1) m(3) bounds(2) m(5)])
  with add show "iq_last_user_added_frame q' = m" "iq_frame_delay q' = iq_frame_delay q"
    "iq_length q' = iq_length q + (Suc t - length h)" by simp_all
qed

text \<open>One input of player \<open>i\<close> for its next frame.\<close>

lemma next_input_step:
  assumes inv: "pending G cs w" and i: "i < sy_player_count (wo_sync w)"
    and q: "q = sy_input_queues (wo_sync w) ! i" and h: "h = wo_inputs w i"
    and room: "room_for q h (Suc k)" and l: "- 1 \<le> iq_last_user_added_frame q"
    and h': "h' = queue_accept (gm_zero G) h (nat (iq_last_user_added_frame q + 1 + iq_frame_delay q)) x"
  obtains r q' where "index_at (sy_input_queues (wo_sync w)) i = Some q"
    and "add_input \<lparr>fi_frame = iq_last_user_added_frame q + 1, fi_input = x\<rparr> q = Some (r, q')"
    and "pending G cs (put_player i q' h' w)"
    and "iq_last_user_added_frame q' = iq_last_user_added_frame q + 1"
    and "iq_frame_delay q' = iq_frame_delay q" and "room_for q' h' k"
    and "iq_last_user_added_frame q + 2 \<le> int (length h')"
    and "i < length (sy_input_queues (wo_sync w))"
proof -
  obtain used dd fc where rep: "world_rep G used dd fc cs w" using inv by (auto simp: pending_def)
  let ?l = "iq_last_user_added_frame q" and ?d = "iq_frame_delay q"
  let ?t = "nat (?l + 1 + ?d)"
  have qi: "queue_inv (gm_zero G) (confirmed (wo_sync w)) fc h (used i) q"
    and len: "i < length (sy_input_queues (wo_sync w))"
    using rep i by (simp_all add: world_rep_def Let_def q h)
  have d0: "0 \<le> ?d" using qi by (simp add: queue_inv_def)
  have t: "?l + 1 + ?d = int ?t" using d0 l by simp
  define N where "N = nat (?l + int (Suc k) + ?d + 1)"
  have N: "Suc ?t \<le> N" using l d0 by (simp add: N_def)
  have space: "?l + int (Suc k) < i32_MAX" "?l + int (Suc k) + ?d + 1 < i32_MAX"
    "iq_length q + (N - length h) \<le> MAX_ROLLBACK_FRAMES"
    using room by (simp_all add: room_for_def Let_def N_def)
  have "iq_length q + (Suc ?t - length h) \<le> MAX_ROLLBACK_FRAMES" using space(3) N by simp
  then have m: "?l + 1 + ?d = int ?t" "int ?t + 1 < i32_MAX" "in_i32 (?l + 1)"
    "is_null ?l \<or> ?l + 1 = ?l + 1" "iq_length q + (Suc ?t - length h) \<le> MAX_ROLLBACK_FRAMES"
    using t space l by (auto simp: in_i32_def i32_MAX_def)
  then have fits: "input_fits w i (?l + 1) ?t"
    using i l by (simp add: input_fits_def Let_def q h)
  obtain r q' where q': "index_at (sy_input_queues (wo_sync w)) i = Some q"
    "add_input \<lparr>fi_frame = ?l + 1, fi_input = x\<rparr> q = Some (r, q')"
    "pending G cs (w\<lparr>wo_sync := (wo_sync w)\<lparr>sy_input_queues := (sy_input_queues (wo_sync w))[i := q']\<rparr>,
      wo_inputs := accept_input G i ?t x (wo_inputs w)\<rparr>)"
    by (rule input_step[OF inv fits, of x]) (simp add: q)
  note f = input_fields[OF qi m q'(2)]
  have len': "length h' = max (length h) (Suc ?t)" by (simp add: h' length_queue_accept)
  have "(Suc ?t - length h) + (N - length h') = N - length h" using N len' by auto
  then have "room_for q' h' k"
    using f space by (simp add: room_for_def Let_def N_def algebra_simps)
  moreover have "?l + 2 \<le> int (length h')" using len' t d0 by simp
  moreover have "pending G cs (put_player i q' h' w)"
    using q'(3) by (simp add: put_player_def accept_input_def h h')
  ultimately show ?thesis using q' f len by (intro that) auto
qed

text \<open>The inputs of an event, in order from the next frame of the player.\<close>

lemma accept_inputs_ok:
  assumes "pending G cs w" and "i < sy_player_count (wo_sync w)"
    and "q = sy_input_queues (wo_sync w) ! i" and "h = wo_inputs w i"
    and "room_for q h (length xs + k)" and "cs_last_frame status = iq_last_user_added_frame q"
    and "- 1 \<le> iq_last_user_added_frame q" and "iq_last_user_added_frame q + 1 \<le> int (length h)"
    and "h' = accept_all (gm_zero G) (iq_frame_delay q) (iq_last_user_added_frame q + 1) xs h"
  shows "\<exists>q'. accept_inputs i (numbered (cs_last_frame status + 1) xs) status (wo_sync w) =
       Some (status\<lparr>cs_last_frame := cs_last_frame status + int (length xs)\<rparr>, wo_sync (put_player i q' h' w)) \<and>
     pending G cs (put_player i q' h' w) \<and>
     iq_last_user_added_frame q' = cs_last_frame status + int (length xs) \<and>
     iq_frame_delay q' = iq_frame_delay q \<and> room_for q' h' k \<and>
     cs_last_frame status + int (length xs) + 1 \<le> int (length h')"
  using assms
proof (induction xs arbitrary: w status q h)
  case Nil
  then show ?case by (intro exI[of _ q]) (simp add: put_player_same)
next
  case (Cons x xs)
  let ?l = "iq_last_user_added_frame q"
  have room: "room_for q h (Suc (length xs + k))" using Cons.prems(5) by simp
  define h1 where "h1 = queue_accept (gm_zero G) h (nat (?l + 1 + iq_frame_delay q)) x"
  obtain r q1 where q1: "index_at (sy_input_queues (wo_sync w)) i = Some q"
    "add_input \<lparr>fi_frame = ?l + 1, fi_input = x\<rparr> q = Some (r, q1)"
    "pending G cs (put_player i q1 h1 w)" "iq_last_user_added_frame q1 = ?l + 1"
    "iq_frame_delay q1 = iq_frame_delay q" "room_for q1 h1 (length xs + k)" "?l + 2 \<le> int (length h1)"
    "i < length (sy_input_queues (wo_sync w))"
    by (rule next_input_step[OF Cons.prems(1-4) room Cons.prems(7) h1_def])
  let ?status = "status\<lparr>cs_last_frame := ?l + 1\<rparr>"
  have "in_i32 (?l + 1)" if "0 \<le> ?l"
    using room that by (auto simp: room_for_def Let_def in_i32_def i32_MAX_def)
  then have ok: "lazy_or (is_null ?l) (do { f \<leftarrow> i32_add ?l 1; Some (?l + 1 = f) }) = Some True"
    by (simp add: lazy_or_def is_null_def)
  have step: "accept_inputs i (numbered (?l + 1) (x # xs)) status (wo_sync w) =
      accept_inputs i (numbered (?l + 1 + 1) xs) ?status (wo_sync (put_player i q1 h1 w))"
    using ok q1(1,2) Cons.prems(6) by (simp add: add_remote_input_def Let_def)
  have h': "h' = accept_all (gm_zero G) (iq_frame_delay q1) (iq_last_user_added_frame q1 + 1) xs h1"
    using Cons.prems(9) q1(4,5) by (simp add: h1_def)
  have len: "iq_last_user_added_frame q1 + 1 \<le> int (length h1)" using q1(4,7) by simp
  have "\<exists>q'. accept_inputs i (numbered (cs_last_frame ?status + 1) xs) ?status (wo_sync (put_player i q1 h1 w)) =
       Some (?status\<lparr>cs_last_frame := cs_last_frame ?status + int (length xs)\<rparr>,
         wo_sync (put_player i q' h' (put_player i q1 h1 w))) \<and>
     pending G cs (put_player i q' h' (put_player i q1 h1 w)) \<and>
     iq_last_user_added_frame q' = cs_last_frame ?status + int (length xs) \<and>
     iq_frame_delay q' = iq_frame_delay q1 \<and> room_for q' h' k \<and>
     cs_last_frame ?status + int (length xs) + 1 \<le> int (length h')"
    by (rule Cons.IH[OF q1(3) _ _ _ q1(6) _ _ len h']) (use Cons.prems q1 in simp_all)
  then show ?case
    by (elim exE, rule_tac x = q' in exI)
      (use step Cons.prems(6) q1(5) in \<open>simp add: algebra_simps del: accept_inputs.simps numbered.simps\<close>)
qed

section \<open>Events that arrive\<close>

fun event_inputs :: "'i peer_event list \<Rightarrow> 'i frame_input list" where
  "event_inputs [] = []"
| "event_inputs (PeerInputs inputs # es) = inputs @ event_inputs es"
| "event_inputs (_ # es) = event_inputs es"

lemma numbered_split:
  "numbered m xs = ys @ zs \<Longrightarrow> \<exists>as bs. xs = as @ bs \<and> ys = numbered m as \<and> zs = numbered (m + int (length as)) bs"
proof (induction ys arbitrary: m xs)
  case Nil
  then show ?case by (intro exI[of _ "[]"] exI[of _ xs]) simp
next
  case (Cons y ys)
  then obtain x xs' where xs: "xs = x # xs'" by (cases xs) auto
  with Cons obtain as bs where "xs' = as @ bs" "ys = numbered (m + 1) as" "zs = numbered (m + 1 + int (length as)) bs"
    by (metis append_Cons list.inject numbered.simps(2))
  then show ?case using Cons.prems xs by (intro exI[of _ "x # as"] exI[of _ bs]) (simp add: ac_simps)
qed

lemma accept_all_append:
  "accept_all z d m (xs @ ys) h = accept_all z d (m + int (length xs)) ys (accept_all z d m xs h)"
  by (induction xs arbitrary: m h) (simp_all add: ac_simps)

text \<open>What may still come from player \<open>i\<close> and the history it leads to.\<close>

definition leads_to ::
    "('i, 'g) game \<Rightarrow> nat \<Rightarrow> ('i, 'g) world \<Rightarrow> 'i peer_event list \<Rightarrow> 'i list \<Rightarrow> bool" where
  "leads_to G i w es h' \<longleftrightarrow>
     (let q = sy_input_queues (wo_sync w) ! i; h = wo_inputs w i; m = iq_last_user_added_frame q + 1 in
      \<exists>xs. event_inputs es = numbered m xs \<and> room_for q h (length xs) \<and>
        h' = accept_all (gm_zero G) (iq_frame_delay q) m xs h)"

lemma leads_to_Nil: "leads_to G i w [] h' \<Longrightarrow> wo_inputs w i = h'"
  by (auto simp: leads_to_def Let_def eq_commute[of "[]"])

lemma inputs_event_ok:
  assumes rep: "session_rep X W G cs w s" and i: "i < sy_player_count (se_sync s)"
    and remote: "is_remote_player (se_players s ! i)" and to: "leads_to G i w (PeerInputs inputs # es) h'"
  obtains s' w' where "handle_event i (PeerInputs inputs) (cs, s, st) = Some (cs, s', st)"
    and "session_rep X W G cs w' s'" and "only_player i (w, s) (w', s')" and "leads_to G i w' es h'"
    and "se_players s' = se_players s"
proof -
  let ?q = "sy_input_queues (se_sync s) ! i" and ?h = "wo_inputs w i"
  let ?status = "se_local_connect_status s ! i" and ?l = "iq_last_user_added_frame (sy_input_queues (se_sync s) ! i)"
  have sync: "wo_sync w = se_sync s" and pend: "pending G cs w" and lens: "length (se_local_connect_status s) = sy_player_count (se_sync s)"
    and conn: "\<not> cs_disconnected ?status" and pl: "player_rep W w s i"
    and others: "\<And>j. j < sy_player_count (se_sync s) \<Longrightarrow> player_rep W w s j"
    using rep i by (auto simp: session_rep_def all_connected_def)
  have st: "cs_last_frame ?status = ?l" "- 1 \<le> ?l" "?l + 1 \<le> int (length ?h)"
    using pl by (auto simp: player_rep_def Let_def)
  obtain xs where xs: "inputs @ event_inputs es = numbered (?l + 1) xs" "room_for ?q ?h (length xs)"
    "h' = accept_all (gm_zero G) (iq_frame_delay ?q) (?l + 1) xs ?h"
    using to sync by (auto simp: leads_to_def Let_def)
  obtain as bs where split: "xs = as @ bs" "inputs = numbered (?l + 1) as"
    "event_inputs es = numbered (?l + 1 + int (length as)) bs"
    using numbered_split[OF xs(1)[symmetric]] by blast
  define h1 where "h1 = accept_all (gm_zero G) (iq_frame_delay ?q) (?l + 1) as ?h"
  have iw: "i < sy_player_count (wo_sync w)" and room: "room_for ?q ?h (length as + length bs)"
    using i sync xs(2) split(1) by simp_all
  have qw: "?q = sy_input_queues (wo_sync w) ! i" using sync by simp
  obtain q' where q': "accept_inputs i (numbered (cs_last_frame ?status + 1) as) ?status (wo_sync w) =
       Some (?status\<lparr>cs_last_frame := cs_last_frame ?status + int (length as)\<rparr>, wo_sync (put_player i q' h1 w))"
     "pending G cs (put_player i q' h1 w)"
     "iq_last_user_added_frame q' = cs_last_frame ?status + int (length as)"
     "iq_frame_delay q' = iq_frame_delay ?q" "room_for q' h1 (length bs)"
     "cs_last_frame ?status + int (length as) + 1 \<le> int (length h1)"
    using accept_inputs_ok[OF pend iw qw refl room st(1,2,3) h1_def] by blast
  let ?w = "put_player i q' h1 w"
  let ?s = "s\<lparr>se_sync := wo_sync ?w, se_local_connect_status := (se_local_connect_status s)
    [i := ?status\<lparr>cs_last_frame := ?l + int (length as)\<rparr>]\<rparr>"
  have lenq: "length (sy_input_queues (se_sync s)) = sy_player_count (se_sync s)"
    using pend sync by (auto simp: pending_def world_rep_def Let_def)
  have "player_rep W ?w ?s j" if "j < sy_player_count (se_sync s)" for j
  proof (cases "j = i")
    case True
    then show ?thesis
      using pl remote q' st i lens lenq sync by (auto simp: player_rep_def Let_def)
  next
    case False
    then show ?thesis using others[OF that] sync by (auto simp: player_rep_def Let_def)
  qed
  then have "session_rep X W G cs ?w ?s"
    using rep q'(2) lens sync i by (auto simp: session_rep_def all_connected_def nth_list_update)
  moreover have "only_player i (w, s) (?w, ?s)"
    using sync by (auto simp: only_player_def intro!: exI[of _ "(sy_input_queues (se_sync s))[i := q']"])
  moreover have "leads_to G i ?w es h'"
    using q' split xs(3) st i lenq sync
    by (auto simp: leads_to_def Let_def accept_all_append h1_def ac_simps intro!: exI[of _ bs])
  moreover have "handle_event i (PeerInputs inputs) (cs, s, st) = Some (cs, ?s, st)"
    using q'(1) conn i lens sync split(2) st by simp
  ultimately show ?thesis by (intro that[of ?s ?w]) simp_all
qed

lemma handle_event_ok:
  assumes rep: "session_rep X W G cs w s" and i: "i < sy_player_count (se_sync s)"
    and remote: "is_remote_player (se_players s ! i)" and to: "leads_to G i w (e # es) h'"
  obtains ces s' w' where "handle_event i e (cs, s, st) = Some (cs @ ces, s', st)" and "only_events ces"
    and "session_rep X W G (cs @ ces) w' s'" and "only_player i (w, s) (w', s')" and "leads_to G i w' es h'"
    and "se_players s' = se_players s"
proof (cases "\<exists>inputs. e = PeerInputs inputs")
  case True
  then show ?thesis
    using inputs_event_ok[OF rep i remote, of _ es h' st] to by (metis append_Nil2 only_events_simps(1) that)
next
  case False
  then have to': "leads_to G i w es h'" using to by (cases e) (auto simp: leads_to_def)
  consider (sync) "e = PeerSynchronized" | (other) ev where "handle_event i e (cs, s, st) = Some (cs @ [Event ev], s, st)"
    using False by (cases e) auto
  then show ?thesis
  proof cases
    case sync
    obtain es' s' where "check_initial_sync (cs @ [Event (Synchronized i)], s, st) =
        Some ((cs @ [Event (Synchronized i)]) @ es', s', st)" "only_events es'"
      "session_rep X W G ((cs @ [Event (Synchronized i)]) @ es') w s'" "only_player i (w, s) (w, s')"
      "se_players s' = se_players s"
      by (rule check_initial_sync_rep[OF session_rep_event[OF rep]])
    then show ?thesis using sync to' by (intro that[of "Event (Synchronized i) # es'" s' w]) simp_all
  next
    case other
    then show ?thesis using to' session_rep_event[OF rep] by (intro that[of "[Event ev]" s w]) simp_all
  qed
qed

section \<open>Taking the events of all players\<close>

text \<open>Taking one event only changes the channel.\<close>

lemma received_rep:
  assumes rep: "session_rep X W G cs w s" and i: "i < sy_player_count (se_sync s)"
    and p: "se_players s ! i = Remote p" and c: "\<not> vw_events_shut W c"
  shows "session_rep X W G cs w (s\<lparr>se_players := (se_players s)[i := Remote (p\<lparr>pe_events := c\<rparr>)]\<rparr>)"
    and "only_player i (w, s) (w, s\<lparr>se_players := (se_players s)[i := Remote (p\<lparr>pe_events := c\<rparr>)]\<rparr>)"
proof -
  have "player_rep W w (s\<lparr>se_players := (se_players s)[i := Remote (p\<lparr>pe_events := c\<rparr>)]\<rparr>) j"
    if "j < sy_player_count (se_sync s)" for j
  proof -
    have "player_rep W w s j" "length (se_players s) = sy_player_count (se_sync s)"
      using rep that by (simp_all add: session_rep_def)
    then show ?thesis using i p c by (cases "j = i") (auto simp: player_rep_def Let_def)
  qed
  then show "session_rep X W G cs w (s\<lparr>se_players := (se_players s)[i := Remote (p\<lparr>pe_events := c\<rparr>)]\<rparr>)"
    using rep by (simp add: session_rep_def)
  show "only_player i (w, s) (w, s\<lparr>se_players := (se_players s)[i := Remote (p\<lparr>pe_events := c\<rparr>)]\<rparr>)"
    using rep i p by (auto simp: only_player_def session_rep_def intro!: exI[of _ "sy_input_queues (se_sync s)"])
qed

lemma flush_peer_step:
  assumes "i < length (se_players s)" and "se_players s ! i = Remote p"
    and "chan_try_recv (cr_events X) (pe_events p) = (Inr e, c)"
  shows "flush_peer_events X i (cs, s, st) =
    do { run \<leftarrow> handle_event i e (cs, s\<lparr>se_players := (se_players s)[i := Remote (p\<lparr>pe_events := c\<rparr>)]\<rparr>, st);
         flush_peer_events X i run }"
  using assms by (subst flush_peer_events.simps) (simp add: receive_event_def)

lemma flush_peer_done:
  assumes "i < length (se_players s)" and "se_players s ! i = Remote p"
    and "chan_try_recv (cr_events X) (pe_events p) = (Inl TryRecvEmpty, c)"
  shows "flush_peer_events X i (cs, s, st) =
    Some (cs, s\<lparr>se_players := (se_players s)[i := Remote (p\<lparr>pe_events := c\<rparr>)]\<rparr>, st)"
  using assms by (subst flush_peer_events.simps) (simp add: receive_event_def)

lemma flush_peer_ok:
  assumes ok: "channels_ok X W"
  shows "session_rep X W G cs w s \<Longrightarrow> i < sy_player_count (se_sync s) \<Longrightarrow> se_players s ! i = Remote p \<Longrightarrow>
    leads_to G i w (vw_events W (pe_events p)) h' \<Longrightarrow>
    \<exists>ces s' w'. flush_peer_events X i (cs, s, st) = Some (cs @ ces, s', st) \<and> only_events ces \<and>
      session_rep X W G (cs @ ces) w' s' \<and> only_player i (w, s) (w', s') \<and> wo_inputs w' i = h' \<and>
      (\<exists>p'. se_players s' ! i = Remote p' \<and> vw_events W (pe_events p') = [])"
proof (induction "vw_events W (pe_events p)" arbitrary: cs w s p)
  case Nil
  have ch: "unbounded_channel (cr_events X) (vw_events W) (vw_events_shut W)"
    using ok by (simp add: channels_ok_def)
  have shut: "\<not> vw_events_shut W (pe_events p)"
    using Nil.prems by (auto simp: session_rep_def player_rep_def Let_def)
  have at: "i < length (se_players s)" "se_players s ! i = Remote p"
    using Nil.prems by (simp_all add: session_rep_def)
  have "flush_peer_events X i (cs, s, st) =
      Some (cs, s\<lparr>se_players := (se_players s)[i := Remote (p\<lparr>pe_events := pe_events p\<rparr>)]\<rparr>, st)"
    by (rule flush_peer_done[OF at unbounded_channel.try_recv_open[OF ch Nil.hyps[symmetric] shut]])
  then show ?case
    using received_rep[OF Nil.prems(1-3) shut] leads_to_Nil Nil.prems(4) Nil.hyps at(1)
    by (intro exI[of _ "[]"] exI[of _ "s\<lparr>se_players := (se_players s)[i := Remote (p\<lparr>pe_events := pe_events p\<rparr>)]\<rparr>"]
        exI[of _ w]) simp
next
  case (Cons e es)
  have ch: "unbounded_channel (cr_events X) (vw_events W) (vw_events_shut W)"
    using ok by (simp add: channels_ok_def)
  have shut: "\<not> vw_events_shut W (pe_events p)"
    using Cons.prems by (auto simp: session_rep_def player_rep_def Let_def)
  obtain c where c: "chan_try_recv (cr_events X) (pe_events p) = (Inr e, c)" "vw_events W c = es"
    "\<not> vw_events_shut W c"
    using unbounded_channel.try_recv_item[OF ch Cons.hyps(2)[symmetric]] shut by auto
  let ?p = "p\<lparr>pe_events := c\<rparr>"
  let ?s = "s\<lparr>se_players := (se_players s)[i := Remote ?p]\<rparr>"
  have len: "i < length (se_players s)" using Cons.prems by (simp add: session_rep_def)
  note rep1 = received_rep[OF Cons.prems(1-3) c(3)]
  have i1: "i < sy_player_count (se_sync ?s)" "is_remote_player (se_players ?s ! i)"
    using Cons.prems(2) len by simp_all
  have to: "leads_to G i w (e # es) h'" using Cons.prems(4) Cons.hyps(2) by simp
  obtain ces s1 w1 where h: "handle_event i e (cs, ?s, st) = Some (cs @ ces, s1, st)" "only_events ces"
    "session_rep X W G (cs @ ces) w1 s1" "only_player i (w, ?s) (w1, s1)" "leads_to G i w1 es h'"
    "se_players s1 = se_players ?s"
    by (rule handle_event_ok[OF rep1(1) i1 to])
  have "i < sy_player_count (se_sync s1)" "se_players s1 ! i = Remote ?p"
    using h(3,6) len by (auto simp: session_rep_def)
  from Cons.hyps(1)[OF _ h(3) this] c(2) h(5) obtain ces' s' w' where f:
    "flush_peer_events X i (cs @ ces, s1, st) = Some ((cs @ ces) @ ces', s', st)" "only_events ces'"
    "session_rep X W G ((cs @ ces) @ ces') w' s'" "only_player i (w1, s1) (w', s')" "wo_inputs w' i = h'"
    "\<exists>p'. se_players s' ! i = Remote p' \<and> vw_events W (pe_events p') = []"
    by auto
  have "flush_peer_events X i (cs, s, st) = flush_peer_events X i (cs @ ces, s1, st)"
    by (simp add: flush_peer_step[OF len Cons.prems(3) c(1)] h(1))
  then show ?case
    using f h(2) only_player_trans[OF rep1(2) only_player_trans[OF h(4) f(4)]]
    by (intro exI[of _ "ces @ ces'"] exI[of _ s'] exI[of _ w']) simp
qed

text \<open>What the channels of all players lead to.\<close>

definition arriving ::
    "('i, 'e, 'o, 'm) views \<Rightarrow> ('i, 'g) game \<Rightarrow> ('i, 'g) world \<Rightarrow> ('i, 'e, 'o, 'm) session \<Rightarrow>
       (nat \<Rightarrow> 'i list) \<Rightarrow> nat \<Rightarrow> bool" where
  "arriving W G w s h i \<longleftrightarrow>
     (case se_players s ! i of
        Local \<Rightarrow> h i = wo_inputs w i
      | Remote p \<Rightarrow> leads_to G i w (vw_events W (pe_events p)) (h i))"

lemma arriving_other:
  assumes "only_player i (w, s) (w', s')" and "wo_sync w = se_sync s" and "wo_sync w' = se_sync s'" and "j \<noteq> i"
  shows "arriving W G w' s' h j = arriving W G w s h j"
proof -
  have "sy_input_queues (wo_sync w') ! j = sy_input_queues (wo_sync w) ! j"
    "wo_inputs w' j = wo_inputs w j" "se_players s' ! j = se_players s ! j"
    using assms by (auto simp: only_player_def)
  then show ?thesis by (simp add: arriving_def leads_to_def split: player_type.split)
qed

text \<open>\<open>flush_from\<close> when the players before \<open>k\<close> are done.\<close>

lemma flush_from_ok:
  assumes ok: "channels_ok X W"
  shows "session_rep X W G cs w s \<Longrightarrow> k + length players = sy_player_count (se_sync s) \<Longrightarrow>
    (\<And>j. j < length players \<Longrightarrow> is_remote_player (players ! j) = is_remote_player (se_players s ! (k + j))) \<Longrightarrow>
    (\<And>j. j < k \<Longrightarrow> wo_inputs w j = h j) \<Longrightarrow>
    (\<And>j. k \<le> j \<Longrightarrow> j < sy_player_count (se_sync s) \<Longrightarrow> arriving W G w s h j) \<Longrightarrow>
    \<exists>ces s' w'. flush_from X k players (cs, s, st) = Some (cs @ ces, s', st) \<and> only_events ces \<and>
      session_rep X W G (cs @ ces) w' s' \<and>
      wo_store w' = wo_store w \<and> wo_state w' = wo_state w \<and>
      (\<forall>j < sy_player_count (se_sync s). wo_inputs w' j = h j \<and> same_player (se_players s ! j) (se_players s' ! j)) \<and>
      (\<exists>qs. se_sync s' = (se_sync s)\<lparr>sy_input_queues := qs\<rparr>) \<and>
      (se_synchronizing s' \<longrightarrow> se_synchronizing s) \<and>
      se_next_recommended_sleep s' = se_next_recommended_sleep s"
proof (induction players arbitrary: cs w s k)
  case Nil
  then show ?case
    by (intro exI[of _ "[]"] exI[of _ s] exI[of _ w]) (auto intro!: exI[of _ "sy_input_queues (se_sync s)"])
next
  case (Cons player players)
  have k: "k < sy_player_count (se_sync s)" using Cons.prems(2) by simp
  have same: "is_remote_player player = is_remote_player (se_players s ! k)"
    using Cons.prems(3)[of 0] by simp
  have arr: "arriving W G w s h k" using Cons.prems(5) k by simp
  have "\<exists>ces s1 w1. (if is_remote_player player then flush_peer_events X k (cs, s, st) else Some (cs, s, st)) =
      Some (cs @ ces, s1, st) \<and> only_events ces \<and> session_rep X W G (cs @ ces) w1 s1 \<and>
      only_player k (w, s) (w1, s1) \<and> wo_inputs w1 k = h k"
  proof (cases "se_players s ! k")
    case Local
    then show ?thesis
      using same arr Cons.prems(1) by (intro exI[of _ "[]"] exI[of _ s] exI[of _ w]) (simp add: arriving_def)
  next
    case (Remote p)
    then have "leads_to G k w (vw_events W (pe_events p)) (h k)" using arr by (simp add: arriving_def)
    then show ?thesis using flush_peer_ok[OF ok Cons.prems(1) k Remote] same Remote by simp blast
  qed
  then obtain ces s1 w1 where one: "(if is_remote_player player then flush_peer_events X k (cs, s, st) else Some (cs, s, st)) =
      Some (cs @ ces, s1, st)" "only_events ces" "session_rep X W G (cs @ ces) w1 s1"
      "only_player k (w, s) (w1, s1)" "wo_inputs w1 k = h k"
    by blast
  have sync: "wo_sync w = se_sync s" "wo_sync w1 = se_sync s1"
    using Cons.prems(1) one(3) by (simp_all add: session_rep_def)
  have n: "sy_player_count (se_sync s1) = sy_player_count (se_sync s)"
    using one(4) by (auto simp: only_player_def)
  have "\<exists>ces' s' w'. flush_from X (k + 1) players (cs @ ces, s1, st) = Some ((cs @ ces) @ ces', s', st) \<and> only_events ces' \<and>
      session_rep X W G ((cs @ ces) @ ces') w' s' \<and>
      wo_store w' = wo_store w1 \<and> wo_state w' = wo_state w1 \<and>
      (\<forall>j < sy_player_count (se_sync s1). wo_inputs w' j = h j \<and> same_player (se_players s1 ! j) (se_players s' ! j)) \<and>
      (\<exists>qs. se_sync s' = (se_sync s1)\<lparr>sy_input_queues := qs\<rparr>) \<and>
      (se_synchronizing s' \<longrightarrow> se_synchronizing s1) \<and>
      se_next_recommended_sleep s' = se_next_recommended_sleep s1"
  proof (rule Cons.IH[OF one(3)])
    show "k + 1 + length players = sy_player_count (se_sync s1)" using Cons.prems(2) n by simp
    show "is_remote_player (players ! j) = is_remote_player (se_players s1 ! (k + 1 + j))" if "j < length players" for j
      using Cons.prems(3)[of "Suc j"] that one(4) by (simp add: only_player_def)
    show "wo_inputs w1 j = h j" if "j < k + 1" for j
      using that one(4,5) Cons.prems(4)[of j] by (cases "j = k") (auto simp: only_player_def)
    show "arriving W G w1 s1 h j" if "k + 1 \<le> j" "j < sy_player_count (se_sync s1)" for j
      using arriving_other[OF one(4) sync, of j] Cons.prems(5)[of j] that n by simp
  qed
  then obtain ces' s' w' where rest: "flush_from X (k + 1) players (cs @ ces, s1, st) = Some ((cs @ ces) @ ces', s', st)"
      "only_events ces'" "session_rep X W G ((cs @ ces) @ ces') w' s'"
      "wo_store w' = wo_store w1" "wo_state w' = wo_state w1"
      "\<forall>j < sy_player_count (se_sync s1). wo_inputs w' j = h j \<and> same_player (se_players s1 ! j) (se_players s' ! j)"
      "\<exists>qs. se_sync s' = (se_sync s1)\<lparr>sy_input_queues := qs\<rparr>" "se_synchronizing s' \<longrightarrow> se_synchronizing s1"
      "se_next_recommended_sleep s' = se_next_recommended_sleep s1"
    by blast
  have "same_player (se_players s ! j) (se_players s1 ! j)" for j
    using one(4) by (cases "j = k") (auto simp: only_player_def)
  then have players: "same_player (se_players s ! j) (se_players s' ! j)" if "j < sy_player_count (se_sync s)" for j
    using rest(6) n that same_player_trans by metis
  show ?case
    using one rest n players
    by (intro exI[of _ "ces @ ces'"] exI[of _ s'] exI[of _ w']) (auto simp: only_player_def)
qed

section \<open>Polling while everybody is connected\<close>

text \<open>
  The bookkeeping of a remote peer stays in the range of \<^verbatim>\<open>i32\<close> and \<^verbatim>\<open>u32\<close>: the frame the other side is
  estimated to be at, from the last decoded one and the round trip time, how far it is ahead of the
  frame \<open>f\<close>, the running sums of the frame advantages, and the number of recommendations.
\<close>

definition sums_fit :: "frame list \<Rightarrow> bool" where
  "sums_fit xs \<longleftrightarrow> (\<forall>k \<le> length xs. in_i32 (sum_list (take k xs)))"

definition remote_frame_estimate :: "('i, 'e, 'o, 'm) peer \<Rightarrow> frame" where
  "remote_frame_estimate p = last_decoded_frame (pe_input_decoder p) +
     sint (word_of_nat (st_round_trip_time (pe_stats p) div 1000 div 2 * TARGET_TPS) :: u32)"

definition peer_calm :: "frame \<Rightarrow> ('i, 'e, 'o, 'm) peer \<Rightarrow> bool" where
  "peer_calm f p \<longleftrightarrow> in_i32 (remote_frame_estimate p) \<and> in_i32 (remote_frame_estimate p - f) \<and>
     sums_fit (ts_local (pe_timesync p)) \<and> sums_fit (ts_remote (pe_timesync p)) \<and>
     ts_iteration (pe_timesync p) + 1 < 2 ^ 32"

definition players_calm :: "frame \<Rightarrow> ('i, 'e, 'o, 'm) session \<Rightarrow> bool" where
  "players_calm f s \<longleftrightarrow> (\<forall>i < length (se_players s). \<forall>p. se_players s ! i = Remote p \<longrightarrow> peer_calm f p)"

lemma i32_sum_fits: "in_i32 acc \<Longrightarrow> i32_sum acc xs \<noteq> None \<longleftrightarrow> (\<forall>k \<le> length xs. in_i32 (acc + sum_list (take k xs)))"
proof (induction xs arbitrary: acc)
  case (Cons x xs)
  have split: "(\<forall>k \<le> length (x # xs). in_i32 (acc + sum_list (take k (x # xs)))) \<longleftrightarrow>
      in_i32 acc \<and> (\<forall>k \<le> length xs. in_i32 (acc + x + sum_list (take k xs)))"
    by (simp add: less_Suc_eq_le[symmetric] All_less_Suc2 add.assoc)
  show ?case
  proof (cases "in_i32 (acc + x)")
    case True
    then show ?thesis using Cons.IH[OF True] Cons.prems unfolding split by (simp add: i32_add_def)
  next
    case False
    then show ?thesis unfolding split by (auto simp: i32_add_def intro!: exI[of _ 0])
  qed
qed simp

lemma average_fits: "average xs \<noteq> None \<longleftrightarrow> sums_fit xs"
  using i32_sum_fits[of 0 xs] by (auto simp: average_def sums_fit_def in_i32_def i32_MAX_def)

text \<open>That is when the two methods that every poll of a running session calls do not overflow.\<close>

lemma peer_calm_iff:
  "peer_calm f p \<longleftrightarrow> set_local_frame_number f p \<noteq> None \<and> recommend_frame_delay p \<noteq> None"
proof -
  have "set_local_frame_number f p \<noteq> None \<longleftrightarrow> in_i32 (remote_frame_estimate p) \<and> in_i32 (remote_frame_estimate p - f)"
    by (auto simp: set_local_frame_number_def remote_frame_estimate_def i32_add_def i32_sub_def Let_def)
  moreover have "recommend_frame_delay p \<noteq> None \<longleftrightarrow> sums_fit (ts_local (pe_timesync p)) \<and>
      sums_fit (ts_remote (pe_timesync p)) \<and> ts_iteration (pe_timesync p) + 1 < 2 ^ 32"
    unfolding average_fits[symmetric]
    by (cases "average (ts_local (pe_timesync p))"; cases "average (ts_remote (pe_timesync p))")
      (simp_all add: recommend_frame_delay_def recommend_frame_wait_duration_def debug_assert_def)
  ultimately show ?thesis by (auto simp: peer_calm_def)
qed

lemma peer_calm_events [simp]: "peer_calm f (p\<lparr>pe_events := c\<rparr>) = peer_calm f p"
  by (simp add: peer_calm_def remote_frame_estimate_def)

text \<open>A sufficient condition: advantages of less than ten days of frames, a round trip below ten days.\<close>

lemma peer_calm_bounded:
  assumes ok: "time_sync_ok (pe_timesync p)" and it: "ts_iteration (pe_timesync p) + 1 < 2 ^ 32"
    and adv: "\<And>x. x \<in> set (ts_local (pe_timesync p)) \<Longrightarrow> \<bar>x\<bar> \<le> 50000000"
      "\<And>x. x \<in> set (ts_remote (pe_timesync p)) \<Longrightarrow> \<bar>x\<bar> \<le> 50000000"
    and rtt: "st_round_trip_time (pe_stats p) \<le> 900000000"
    and frames: "\<bar>last_decoded_frame (pe_input_decoder p)\<bar> \<le> 1000000000" "\<bar>f\<bar> \<le> 1000000000"
  shows "peer_calm f p"
proof -
  let ?k = "st_round_trip_time (pe_stats p) div 1000 div 2 * TARGET_TPS"
  have "st_round_trip_time (pe_stats p) div 1000 \<le> 900000"
    using rtt div_le_mono[of _ 900000000 1000] by simp
  then have k: "?k \<le> 27000000"
    using div_le_mono[of _ 900000 2] by (simp add: TARGET_TPS_def)
  have small: "sint (word_of_nat k :: u32) = int k" if "k \<le> 27000000" for k
    using that by (simp add: signed_of_nat signed_take_bit_int_eq_self)
  have "int ?k \<le> int 27000000" using k by (simp only: of_nat_le_iff)
  then have le: "int ?k \<le> 27000000" "0 \<le> int ?k" by simp_all
  have "sint (word_of_nat ?k :: u32) = int ?k" by (rule small[OF k])
  moreover have "in_i32 (last_decoded_frame (pe_input_decoder p) + int ?k)"
    "in_i32 (last_decoded_frame (pe_input_decoder p) + int ?k - f)"
    using le frames unfolding in_i32_def i32_MAX_def by linarith+
  ultimately have "set_local_frame_number f p \<noteq> None"
    by (simp add: set_local_frame_number_def Let_def del: of_nat_mult)
  moreover have "recommend_frame_wait_duration False (pe_timesync p) \<noteq> None"
    using average_bounded[of "ts_local (pe_timesync p)" 50000000] average_bounded[of "ts_remote (pe_timesync p)" 50000000]
      ok it adv by (simp add: recommend_frame_wait_duration_def time_sync_ok_def FRAME_WINDOW_SIZE_def i32_MAX_def)
  ultimately show ?thesis by (auto simp: peer_calm_iff recommend_frame_delay_def)
qed

lemma players_calm_same:
  assumes "players_calm f s" and "length (se_players s') = length (se_players s)"
    and "\<And>i. i < length (se_players s) \<Longrightarrow> same_player (se_players s ! i) (se_players s' ! i)"
  shows "players_calm f s'"
  unfolding players_calm_def
proof (intro allI impI)
  fix i p assume i: "i < length (se_players s')" "se_players s' ! i = Remote p"
  then obtain q where "se_players s ! i = Remote q" "p = q\<lparr>pe_events := pe_events p\<rparr>"
    using assms(2) assms(3)[of i] by (cases "se_players s ! i") (auto simp: same_player.simps(2))
  then show "peer_calm f p"
    using assms(1,2) i by (metis players_calm_def peer_calm_events)
qed

text \<open>Operations that only touch the bookkeeping of the peers.\<close>

definition same_role :: "('i, 'e, 'o, 'm) peer player_type \<Rightarrow> ('i, 'e, 'o, 'm) peer player_type \<Rightarrow> bool" where
  "same_role a b \<longleftrightarrow> (a = Local \<and> b = Local) \<or>
     (\<exists>p q. a = Remote p \<and> b = Remote q \<and> pe_peer_connect_status q = pe_peer_connect_status p \<and>
        pe_events q = pe_events p)"

lemma same_role_rep:
  assumes rep: "session_rep X W G cs w s" and len: "length players = length (se_players s)"
    and same: "\<And>i. i < length (se_players s) \<Longrightarrow> same_role (se_players s ! i) (players ! i)"
  shows "session_rep X W G cs w (s\<lparr>se_players := players\<rparr>)"
proof -
  have "player_rep W w (s\<lparr>se_players := players\<rparr>) i" if "i < sy_player_count (se_sync s)" for i
  proof -
    have "player_rep W w s i" "length (se_players s) = sy_player_count (se_sync s)"
      using rep that by (simp_all add: session_rep_def)
    then show ?thesis using same[of i] that by (auto simp: player_rep_def Let_def same_role_def)
  qed
  then show ?thesis using rep len by (simp add: session_rep_def)
qed

lemma set_frame_numbers:
  assumes "players_calm f s"
  obtains players where "traverse (player_set_local_frame_number f) (se_players s) = Some players"
    and "length players = length (se_players s)"
    and "\<And>i. i < length (se_players s) \<Longrightarrow> same_role (se_players s ! i) (players ! i)"
    and "players_calm f (s\<lparr>se_players := players\<rparr>)"
proof -
  have "\<exists>y. player_set_local_frame_number f (se_players s ! i) = Some y \<and>
      (same_role (se_players s ! i) y \<and> (\<forall>p. y = Remote p \<longrightarrow> peer_calm f p))"
    if "i < length (se_players s)" for i
  proof (cases "se_players s ! i")
    case Local
    then show ?thesis by (simp add: same_role_def)
  next
    case (Remote p)
    then have calm: "peer_calm f p" using assms that by (simp add: players_calm_def)
    then obtain q where q: "set_local_frame_number f p = Some q" by (auto simp: peer_calm_iff)
    then have "pe_peer_connect_status q = pe_peer_connect_status p" "pe_events q = pe_events p" "peer_calm f q"
      using calm by (auto simp: set_local_frame_number_def peer_calm_def remote_frame_estimate_def Let_def
          bind_eq_Some_conv)
    then show ?thesis using Remote q by (simp add: same_role_def)
  qed
  then obtain ys where ys: "traverse (player_set_local_frame_number f) (se_players s) = Some ys"
    "length ys = length (se_players s)"
    "\<And>i. i < length (se_players s) \<Longrightarrow> player_set_local_frame_number f (se_players s ! i) = Some (ys ! i) \<and>
      (same_role (se_players s ! i) (ys ! i) \<and> (\<forall>p. ys ! i = Remote p \<longrightarrow> peer_calm f p))"
    by (rule traverse_exists[where P = "\<lambda>i y. same_role (se_players s ! i) y \<and> (\<forall>p. y = Remote p \<longrightarrow> peer_calm f p)"]) blast+
  then show ?thesis by (intro that[of ys]) (auto simp: players_calm_def)
qed

lemma recommend_all_total:
  assumes "\<And>i p. i < length players \<Longrightarrow> players ! i = Remote p \<Longrightarrow> recommend_frame_delay p \<noteq> None"
  obtains ds players' where "recommend_all players = Some (ds, players')"
    and "length players' = length players"
    and "\<And>i. i < length players \<Longrightarrow> same_role (players ! i) (players' ! i)"
  using assms
proof (induction players arbitrary: thesis)
  case Nil
  then show ?case by simp
next
  case (Cons player players)
  obtain ds players' where r: "recommend_all players = Some (ds, players')" "length players' = length players"
    "\<And>i. i < length players \<Longrightarrow> same_role (players ! i) (players' ! i)"
    using Cons.IH Cons.prems(2)[of "Suc _"] by (metis Suc_less_eq length_Cons nth_Cons_Suc)
  show ?case
  proof (cases player)
    case Local
    then show ?thesis
      using r by (intro Cons.prems(1)[of ds "Local # players'"]) (auto simp: same_role_def nth_Cons split: nat.split)
  next
    case (Remote p)
    then obtain d q where q: "recommend_frame_delay p = Some (d, q)" using Cons.prems(2)[of 0] by auto
    then have "same_role (Remote p) (Remote q)"
      by (auto simp: recommend_frame_delay_def bind_eq_Some_conv same_role_def)
    then show ?thesis
      using r q Remote by (intro Cons.prems(1)[of "d # ds" "Remote q # players'"]) (auto simp: nth_Cons split: nat.split)
  qed
qed

section \<open>The confirmed frame while everybody is connected\<close>

lemma queue_connected_rep:
  assumes "session_rep X W G cs w s" and "i < sy_player_count (se_sync s)"
  shows "queue_connected i (se_players s ! i) = Some True"
  using assms by (cases "se_players s ! i")
    (auto simp: session_rep_def player_rep_def Let_def queue_connected_def get_peer_connect_status_def
      connection_status_default_def)

lemma local_status_rep:
  assumes "session_rep X W G cs w s" and "i < sy_player_count (se_sync s)"
  shows "index_at (se_local_connect_status s) i = Some (se_local_connect_status s ! i)"
    and "\<not> cs_disconnected (se_local_connect_status s ! i)"
  using assms by (auto simp: session_rep_def all_connected_def)

lemma received_below:
  assumes rep: "session_rep X W G cs w s" and i: "i < sy_player_count (se_sync s)"
  shows "cs_last_frame (se_local_connect_status s ! i) < i32_MAX"
proof -
  obtain used dd fc where wr: "world_rep G used dd fc cs w" and sy: "wo_sync w = se_sync s"
    using rep by (auto simp: session_rep_def pending_def)
  have "queue_inv (gm_zero G) (confirmed (wo_sync w)) fc (wo_inputs w i) (used i) (sy_input_queues (wo_sync w) ! i)"
    using wr i sy by (simp add: world_rep_def Let_def)
  then have "int (length (wo_inputs w i)) < i32_MAX" by (simp add: queue_inv_def)
  moreover have "player_rep W w s i" using rep i by (simp add: session_rep_def)
  ultimately show ?thesis by (simp add: player_rep_def Let_def)
qed

text \<open>The smallest frame up to which the inputs of the given players are known.\<close>

definition least_received :: "('i, 'e, 'o, 'm) session \<Rightarrow> nat list \<Rightarrow> frame \<Rightarrow> frame" where
  "least_received s is m = foldl (\<lambda>m i. min (cs_last_frame (se_local_connect_status s ! i)) m) m is"

lemma least_received_le:
  "least_received s is m \<le> m" "i \<in> set is \<Longrightarrow> least_received s is m \<le> cs_last_frame (se_local_connect_status s ! i)"
proof -
  have le: "least_received s js k \<le> k" for js k
  proof (induction js arbitrary: k)
    case (Cons j js)
    have "least_received s (j # js) k = least_received s js (min (cs_last_frame (se_local_connect_status s ! j)) k)"
      by (simp add: least_received_def)
    also have "\<dots> \<le> min (cs_last_frame (se_local_connect_status s ! j)) k" by (rule Cons.IH)
    also have "\<dots> \<le> k" by simp
    finally show ?case .
  qed (simp add: least_received_def)
  show "least_received s is m \<le> m" by (rule le)
  show "i \<in> set is \<Longrightarrow> least_received s is m \<le> cs_last_frame (se_local_connect_status s ! i)"
  proof (induction "is" arbitrary: m)
    case (Cons j js)
    have "least_received s (j # js) m = least_received s js (min (cs_last_frame (se_local_connect_status s ! j)) m)"
      by (simp add: least_received_def)
    then show ?case
      using Cons le[of js "min (cs_last_frame (se_local_connect_status s ! j)) m"] by auto
  qed simp
qed

lemma least_received_ge:
  "b \<le> m \<Longrightarrow> (\<And>i. i \<in> set is \<Longrightarrow> b \<le> cs_last_frame (se_local_connect_status s ! i)) \<Longrightarrow> b \<le> least_received s is m"
  by (induction "is" arbitrary: m) (auto simp: least_received_def)

lemma poll_2_loop_rep:
  assumes rep: "session_rep X W G made w s"
  shows "(\<forall>i \<in> set is. i < sy_player_count (se_sync s)) \<Longrightarrow>
    poll_2_loop X is m (cs, s, st) = Some (least_received s is m, (cs, s, st))"
proof (induction "is" arbitrary: m)
  case Nil
  then show ?case by (simp add: least_received_def)
next
  case (Cons i "is")
  then have i: "i < sy_player_count (se_sync s)" by simp
  have "index_at (se_players s) i = Some (se_players s ! i)"
    using rep i by (simp add: session_rep_def)
  then show ?case
    using Cons queue_connected_rep[OF rep i] local_status_rep[OF rep i] by (simp add: least_received_def)
qed

lemma peers_view_rep:
  assumes "\<And>p. Remote p \<in> set players \<Longrightarrow> pe_peer_connect_status p = statuses_of n" and "q < n"
  shows "\<exists>m'. peers_view q players True m = Some (True, m') \<and> m' \<le> m \<and> (m' = m \<or> m' \<le> NULL_FRAME) \<and>
    ((\<exists>p. Remote p \<in> set players \<and> peer_is_running p) \<longrightarrow> m' \<le> NULL_FRAME)"
  using assms(1)
proof (induction players arbitrary: m)
  case (Cons player players)
  have ih: "\<exists>m'. peers_view q players True m = Some (True, m') \<and> m' \<le> m \<and> (m' = m \<or> m' \<le> NULL_FRAME) \<and>
    ((\<exists>p. Remote p \<in> set players \<and> peer_is_running p) \<longrightarrow> m' \<le> NULL_FRAME)" for m
    using Cons by simp
  show ?case
  proof (cases player)
    case Local
    then show ?thesis using ih by simp
  next
    case (Remote p)
    then have "get_peer_connect_status q p = Some connection_status_default"
      using Cons.prems[of p] assms(2) by (simp add: get_peer_connect_status_def)
    then show ?thesis
      using ih[of m] ih[of "min NULL_FRAME m"] Remote by (fastforce simp: connection_status_default_def)
  qed
qed simp

lemma poll_n_loop_rep:
  assumes rep: "session_rep X W G made w s"
  shows "(\<forall>i \<in> set is. i < sy_player_count (se_sync s)) \<Longrightarrow>
    \<exists>c. poll_n_loop X is m (cs, s, st) = Some (c, (cs, s, st)) \<and> c \<le> least_received s is m \<and>
      (c = least_received s is m \<or> c < 0) \<and>
      (is \<noteq> [] \<and> (\<exists>p. Remote p \<in> set (se_players s) \<and> peer_is_running p) \<longrightarrow> c < 0)"
proof (induction "is" arbitrary: m)
  case Nil
  then show ?case by (simp add: least_received_def)
next
  case (Cons i "is")
  then have i: "i < sy_player_count (se_sync s)" by simp
  have "pe_peer_connect_status p = statuses_of (sy_player_count (se_sync s))"
    if "Remote p \<in> set (se_players s)" for p
    using rep that by (auto simp: session_rep_def player_rep_def Let_def in_set_conv_nth)
  from peers_view_rep[where m = i32_MAX, OF this i] obtain v where v:
    "peers_view i (se_players s) True i32_MAX = Some (True, v)" "v \<le> i32_MAX" "v = i32_MAX \<or> v \<le> NULL_FRAME"
    "(\<exists>p. Remote p \<in> set (se_players s) \<and> peer_is_running p) \<longrightarrow> v \<le> NULL_FRAME"
    by blast
  let ?l = "cs_last_frame (se_local_connect_status s ! i)"
  have mono: "least_received s is a \<le> least_received s is b" if "a \<le> b" for a b
    using that
  proof (induction "is" arbitrary: a b)
    case (Cons j js)
    have "min k a \<le> min k b" for k :: int using Cons.prems by (simp add: min.coboundedI2)
    then show ?case using Cons.IH by (simp add: least_received_def)
  qed (simp add: least_received_def)
  have low: "least_received s is a \<le> a" for a by (rule least_received_le(1))
  have "\<forall>i \<in> set is. i < sy_player_count (se_sync s)" using Cons.prems by simp
  from Cons.IH[OF this, of "min (min ?l v) m"] obtain c where c:
    "poll_n_loop X is (min (min ?l v) m) (cs, s, st) = Some (c, (cs, s, st))"
    "c \<le> least_received s is (min (min ?l v) m)" "c = least_received s is (min (min ?l v) m) \<or> c < 0"
    by blast
  have step: "poll_n_loop X (i # is) m (cs, s, st) = poll_n_loop X is (min (min ?l v) m) (cs, s, st)"
    using v(1) local_status_rep[OF rep i] by (simp add: Let_def)
  have eq: "least_received s (i # is) m = least_received s is (min ?l m)"
    by (simp add: least_received_def)
  have le: "c \<le> least_received s (i # is) m"
    unfolding eq by (rule order_trans[OF c(2) mono]) (rule min.mono; simp)
  have "c \<le> v" using c(2) low[of "min (min ?l v) m"] by simp
  then have neg: "(\<exists>p. Remote p \<in> set (se_players s) \<and> peer_is_running p) \<longrightarrow> c < 0"
    using v(4) by (auto simp: NULL_FRAME_def)
  show ?case
  proof (cases "c < 0")
    case True
    then show ?thesis using c(1) step le by simp
  next
    case False
    then have "0 \<le> least_received s is (min (min ?l v) m)" using c(2) by simp
    then have "0 \<le> v" using low[of "min (min ?l v) m"] by simp
    then have "v = i32_MAX" using v(3) by (auto simp: NULL_FRAME_def)
    moreover have "?l < i32_MAX" by (rule received_below[OF rep i])
    ultimately have "min (min ?l v) m = min ?l m" by simp
    then have "poll_n_loop X (i # is) m (cs, s, st) = Some (c, (cs, s, st))" "c = least_received s (i # is) m"
      using c False step eq by simp_all
    then show ?thesis using neg by blast
  qed
qed

end
