(* ===== verification/Input_Delivery.thy ===== *)
theory Input_Delivery
  imports Input_Buffer
begin

text \<open>
  The input stream from one peer to another over an unreliable network: the encoder of
  \<^verbatim>\<open>Peer::send_input\<close> and \<^verbatim>\<open>send_pending_output\<close> on one side, the decoder of
  \<^verbatim>\<open>Peer::on_input\<close> on the other, and the acknowledgements that travel back. Packets and
  acknowledgements may be lost, duplicated and reordered: the network is the set of everything
  ever sent, and any element may arrive at any time. The ghost fields record the inputs pushed
  so far and the inputs handed to the session. The packet codec is any \<open>lossless\<close> one.
\<close>

record 'i link =
  lk_history :: "'i list"
  lk_encoder :: "'i input_encoder"
  lk_decoder :: input_decoder
  lk_packets :: "(frame \<times> u8 list) set"
  lk_acks :: "frame set"
  lk_delivered :: "'i frame_input list"

definition link_init :: "'i link" where
  "link_init = \<lparr>lk_history = [], lk_encoder = encoder_default, lk_decoder = decoder_default,
     lk_packets = {}, lk_acks = {}, lk_delivered = []\<rparr>"

text \<open>
  The steps. A push numbers its input with the next frame, as \<open>add_local_input\<close> does while the
  session advances; frame numbers stay in the range of \<open>i32\<close>.
\<close>

inductive link_step ::
    "('i list \<Rightarrow> (encode_error + u8 list) option) \<Rightarrow>
     (u8 list \<Rightarrow> (decode_error + 'i list) option) \<Rightarrow> 'i link \<Rightarrow> 'i link \<Rightarrow> bool"
  for pack unpack where
  push: "in_i32 (int (length (lk_history s)) + 1) \<Longrightarrow>
    link_step pack unpack s
      (s\<lparr>lk_history := lk_history s @ [x],
         lk_encoder := encoder_push
           \<lparr>fi_frame = int (length (lk_history s)), fi_input = x\<rparr> (lk_encoder s)\<rparr>)"
| transmit: "encode_pending pack (lk_encoder s) = Some (Inr packet, e) \<Longrightarrow>
    link_step pack unpack s
      (s\<lparr>lk_encoder := e, lk_packets := insert packet (lk_packets s)\<rparr>)"
| receive: "(start, bits) \<in> lk_packets s \<Longrightarrow>
    decode_frames unpack start bits (lk_decoder s) = Some (Inr inputs, d) \<Longrightarrow>
    link_step pack unpack s
      (s\<lparr>lk_decoder := d, lk_delivered := lk_delivered s @ inputs\<rparr>)"
| send_ack: "link_step pack unpack s
      (s\<lparr>lk_acks := insert (last_decoded_frame (lk_decoder s)) (lk_acks s)\<rparr>)"
| receive_ack: "a \<in> lk_acks s \<Longrightarrow>
    link_step pack unpack s (s\<lparr>lk_encoder := acknowledge_frame a (lk_encoder s)\<rparr>)"

inductive link_reachable ::
    "('i list \<Rightarrow> (encode_error + u8 list) option) \<Rightarrow>
     (u8 list \<Rightarrow> (decode_error + 'i list) option) \<Rightarrow> 'i link \<Rightarrow> bool"
  for pack unpack where
  init: "link_reachable pack unpack link_init"
| step: "link_reachable pack unpack s \<Longrightarrow> link_step pack unpack s t \<Longrightarrow>
    link_reachable pack unpack t"

section \<open>Invariant\<close>

text \<open>
  The next frame the decoder waits for is \<open>n\<close>. The encoder holds a suffix of the history that
  starts no later; every packet is a segment of the history that starts no later, or empty.
\<close>

definition next_frame :: "'i link \<Rightarrow> nat" where
  "next_frame s = nat (id_last_decoded (lk_decoder s) + 1)"

definition decoder_ok :: "'i link \<Rightarrow> bool" where
  "decoder_ok s \<longleftrightarrow> id_last_decoded (lk_decoder s) = int (next_frame s) - 1 \<and>
     next_frame s \<le> length (lk_history s) \<and> in_i32 (int (length (lk_history s))) \<and>
     lk_delivered s = numbered 0 (take (next_frame s) (lk_history s))"

definition encoder_ok :: "'i link \<Rightarrow> bool" where
  "encoder_ok s \<longleftrightarrow> (\<exists>a \<le> next_frame s. a \<le> length (lk_history s) \<and>
     ie_pending (lk_encoder s) = numbered (int a) (drop a (lk_history s))) \<and>
     - 1 \<le> ie_last_acked (lk_encoder s) \<and>
     ie_last_acked (lk_encoder s) \<le> id_last_decoded (lk_decoder s)"

definition packet_ok ::
    "(u8 list \<Rightarrow> (decode_error + 'i list) option) \<Rightarrow> 'i link \<Rightarrow> frame \<times> u8 list \<Rightarrow> bool" where
  "packet_ok unpack s p \<longleftrightarrow>
     (\<exists>a m. fst p = int a \<and> a \<le> next_frame s \<and> a + m \<le> length (lk_history s) \<and>
        unpack (snd p) = Some (Inr (take m (drop a (lk_history s))))) \<or>
     - 1 \<le> fst p \<and> fst p \<le> id_last_decoded (lk_decoder s) \<and> unpack (snd p) = Some (Inr [])"

definition link_ok ::
    "(u8 list \<Rightarrow> (decode_error + 'i list) option) \<Rightarrow> 'i link \<Rightarrow> bool" where
  "link_ok unpack s \<longleftrightarrow> decoder_ok s \<and> encoder_ok s \<and>
     (\<forall>p \<in> lk_packets s. packet_ok unpack s p) \<and>
     (\<forall>a \<in> lk_acks s. a \<le> id_last_decoded (lk_decoder s))"

lemmas link_ok_defs = link_ok_def decoder_ok_def encoder_ok_def packet_ok_def next_frame_def

lemma link_ok_init: "link_ok unpack link_init"
  by (auto simp: link_ok_defs link_init_def decoder_default_def encoder_default_def
      NULL_FRAME_def in_i32_def)

lemma next_frame_simps [simp]:
  "next_frame (s\<lparr>lk_history := h\<rparr>) = next_frame s"
  "next_frame (s\<lparr>lk_encoder := e\<rparr>) = next_frame s"
  "next_frame (s\<lparr>lk_packets := p\<rparr>) = next_frame s"
  "next_frame (s\<lparr>lk_acks := a\<rparr>) = next_frame s"
  "next_frame (s\<lparr>lk_delivered := i\<rparr>) = next_frame s"
  "next_frame (s\<lparr>lk_decoder := d\<rparr>) = nat (id_last_decoded d + 1)"
  by (simp_all add: next_frame_def)

lemma packet_ok_simps [simp]:
  "packet_ok unpack (s\<lparr>lk_encoder := e\<rparr>) p = packet_ok unpack s p"
  "packet_ok unpack (s\<lparr>lk_encoder := e, lk_packets := q\<rparr>) p = packet_ok unpack s p"
  "packet_ok unpack (s\<lparr>lk_acks := a\<rparr>) p = packet_ok unpack s p"
  by (simp_all add: packet_ok_def)

lemma packet_okI_segment:
  "p = (int a, bits) \<Longrightarrow> a \<le> next_frame s \<Longrightarrow> a + m \<le> length (lk_history s) \<Longrightarrow>
     unpack bits = Some (Inr (take m (drop a (lk_history s)))) \<Longrightarrow> packet_ok unpack s p"
  unfolding packet_ok_def by auto

lemma packet_okI_empty:
  "p = (f, bits) \<Longrightarrow> - 1 \<le> f \<Longrightarrow> f \<le> id_last_decoded (lk_decoder s) \<Longrightarrow>
     unpack bits = Some (Inr []) \<Longrightarrow> packet_ok unpack s p"
  unfolding packet_ok_def by auto

lemma packet_okE:
  assumes "packet_ok unpack s p"
  obtains (segment) a m bits where "p = (int a, bits)" "a \<le> next_frame s"
      "a + m \<le> length (lk_history s)" "unpack bits = Some (Inr (take m (drop a (lk_history s))))"
    | (empty) f bits where "p = (f, bits)" "- 1 \<le> f" "f \<le> id_last_decoded (lk_decoder s)"
      "unpack bits = Some (Inr [])"
  using assms unfolding packet_ok_def by (cases p) auto

lemma packet_ok_history:
  "packet_ok unpack s p \<Longrightarrow> packet_ok unpack (s\<lparr>lk_history := lk_history s @ [x], lk_encoder := e\<rparr>) p"
proof (elim packet_okE)
  fix a m bits
  assume "p = (int a, bits)" "a \<le> next_frame s" "a + m \<le> length (lk_history s)"
    "unpack bits = Some (Inr (take m (drop a (lk_history s))))"
  then show "packet_ok unpack (s\<lparr>lk_history := lk_history s @ [x], lk_encoder := e\<rparr>) p"
    by (intro packet_okI_segment[of p a bits _ m]) simp_all
qed (auto intro: packet_okI_empty)

lemma push_ok:
  assumes "link_ok unpack s" and "in_i32 (int (length (lk_history s)) + 1)"
  shows "link_ok unpack
      (s\<lparr>lk_history := lk_history s @ [x],
         lk_encoder := encoder_push
           \<lparr>fi_frame = int (length (lk_history s)), fi_input = x\<rparr> (lk_encoder s)\<rparr>)"
proof -
  obtain a where a: "a \<le> next_frame s" "a \<le> length (lk_history s)"
    "ie_pending (lk_encoder s) = numbered (int a) (drop a (lk_history s))"
    using assms(1) by (auto simp: link_ok_def encoder_ok_def)
  then have "ie_pending (lk_encoder s) @ [\<lparr>fi_frame = int (length (lk_history s)), fi_input = x\<rparr>]
      = numbered (int a) (drop a (lk_history s @ [x]))"
    by (simp add: numbered_append of_nat_diff)
  then show ?thesis
    using assms a packet_ok_history[of unpack s]
    by (auto simp: link_ok_def decoder_ok_def encoder_ok_def encoder_push_def add.commute
        intro!: exI[of _ a])
qed

context lossless
begin

lemma transmit_ok:
  assumes ok: "link_ok unpack s" and enc: "encode_pending pack (lk_encoder s) = Some (Inr p, e)"
  shows "link_ok unpack (s\<lparr>lk_encoder := e, lk_packets := insert p (lk_packets s)\<rparr>)"
proof -
  obtain a where a: "a \<le> next_frame s" "a \<le> length (lk_history s)"
    "ie_pending (lk_encoder s) = numbered (int a) (drop a (lk_history s))"
    using ok by (auto simp: link_ok_def encoder_ok_def)
  let ?xs = "drop a (lk_history s)"
  have same: "ie_pending e = ie_pending (lk_encoder s)" "ie_last_acked e = ie_last_acked (lk_encoder s)"
    using enc by (auto elim: encode_pendingE)
  have "packet_ok unpack s p"
  proof (cases "?xs = []")
    case True
    with enc a(3) have "p = (ie_last_acked (lk_encoder s), [])"
      by (auto simp: encode_pending_def)
    with ok show ?thesis
      by (simp add: packet_ok_def link_ok_def encoder_ok_def unpack_Nil)
  next
    case False
    then have "ie_pending (lk_encoder s) \<noteq> []" using a(3) by simp
    with enc obtain bits where "pack ?xs = Some (Inr bits)" and p: "p = (int a, bits)"
      using False by (auto simp: a(3) elim!: encode_pendingE)
    then have "unpack bits = Some (Inr ?xs)" using pack_Inr by blast
    then show ?thesis
      unfolding packet_ok_def using a(1,2) p
      by (intro disjI1 exI[of _ a] exI[of _ "length ?xs"]) simp
  qed
  then show ?thesis
    using ok same by (auto simp: link_ok_def decoder_ok_def encoder_ok_def)
qed

end

text \<open>The decoder accepts every packet of the network and appends the frames it lacks.\<close>

lemma receive_packet:
  assumes ok: "link_ok unpack s" and p: "(start, bits) \<in> lk_packets s"
  obtains m where "next_frame s \<le> m" and "m \<le> length (lk_history s)"
    and "decode_frames unpack start bits (lk_decoder s) =
      Some (Inr (numbered (int (next_frame s)) (take (m - next_frame s)
               (drop (next_frame s) (lk_history s)))),
            (lk_decoder s)\<lparr>id_last_decoded := int m - 1\<rparr>)"
proof -
  let ?d = "lk_decoder s" and ?n = "next_frame s" and ?h = "lk_history s"
  have d: "id_last_decoded ?d = int ?n - 1" "?n \<le> length ?h" "in_i32 (int (length ?h))"
    using ok by (simp_all add: link_ok_def decoder_ok_def)
  let ?c = "if is_null (id_last_decoded ?d) then start - 1 else id_last_decoded ?d"
  have null: "is_null (id_last_decoded ?d) \<longleftrightarrow> ?n = 0"
    using d(1) by (auto simp: is_null_def)
  have dsame: "?d\<lparr>id_last_decoded := int ?n - 1\<rparr> = ?d" using d(1) by simp
  from ok p have "packet_ok unpack s (start, bits)" by (auto simp: link_ok_def)
  then consider (seg) a m where "start = int a" "a \<le> ?n" "a + m \<le> length ?h"
      "unpack bits = Some (Inr (take m (drop a ?h)))"
    | (empty) "- 1 \<le> start" "start \<le> id_last_decoded ?d" "unpack bits = Some (Inr [])"
    by (auto simp: packet_ok_def)
  then show ?thesis
  proof cases
    case seg
    let ?xs = "take m (drop a ?h)"
    have c: "?c = int ?n - 1" using seg(1,2) null d(1) by auto
    have len: "length ?xs = m" using seg(3) by simp
    have "decode_frames unpack start bits ?d =
        Some (Inr (numbered (?c + 1) (drop (nat (?c + 1 - start)) ?xs)),
          if nat (?c + 1 - start) < length ?xs
          then ?d\<lparr>id_last_decoded := start + int (length ?xs) - 1\<rparr> else ?d)"
      using seg d len c by (intro decode_frames_numbered) (auto simp: in_i32_def)
    also have "nat (?c + 1 - start) = ?n - a" using c seg(1,2) by (simp add: of_nat_diff)
    also have "drop (?n - a) ?xs = take (a + m - ?n) (drop ?n ?h)"
      using seg(2) by (simp add: drop_take add.commute)
    finally have dec: "decode_frames unpack start bits ?d =
        Some (Inr (numbered (int ?n) (take (a + m - ?n) (drop ?n ?h))),
          if ?n - a < m then ?d\<lparr>id_last_decoded := int a + int m - 1\<rparr> else ?d)"
      using c len seg(1) by simp
    show ?thesis
    proof (cases "?n - a < m")
      case True
      with dec seg(2,3) show ?thesis by (intro that[of "a + m"]) simp_all
    next
      case False
      with dec seg(2) d(2) dsame show ?thesis by (intro that[of ?n]) simp_all
    qed
  next
    case empty
    then have "in_i32 (start - 1)" using d by (simp add: in_i32_def)
    then have "decode_frames unpack start bits ?d = Some (Inr [], ?d)"
      using empty(3) by (simp add: decode_frames_def)
    with d(2) dsame show ?thesis by (intro that[of ?n]) simp_all
  qed
qed

lemma numbered_take_extend:
  "n \<le> m \<Longrightarrow> m \<le> length h \<Longrightarrow>
     numbered 0 (take n h) @ numbered (int n) (take (m - n) (drop n h)) = numbered 0 (take m h)"
proof -
  assume nm: "n \<le> m" "m \<le> length h"
  then have "take m h = take n h @ take (m - n) (drop n h)"
    by (metis le_add_diff_inverse take_add)
  with nm show ?thesis by (simp add: numbered_append)
qed

lemma packet_ok_decoder:
  "packet_ok unpack s p \<Longrightarrow> next_frame s \<le> next_frame t \<Longrightarrow> lk_history t = lk_history s \<Longrightarrow>
     id_last_decoded (lk_decoder s) \<le> id_last_decoded (lk_decoder t) \<Longrightarrow> packet_ok unpack t p"
proof (elim packet_okE)
  fix a m bits
  assume "next_frame s \<le> next_frame t" "lk_history t = lk_history s" "p = (int a, bits)"
    "a \<le> next_frame s" "a + m \<le> length (lk_history s)"
    "unpack bits = Some (Inr (take m (drop a (lk_history s))))"
  then show "packet_ok unpack t p"
    by (intro packet_okI_segment[of p a bits _ m]) simp_all
qed (auto intro: packet_okI_empty)

lemma receive_ok:
  assumes ok: "link_ok unpack s" and p: "(start, bits) \<in> lk_packets s"
    and dec: "decode_frames unpack start bits (lk_decoder s) = Some (Inr inputs, d)"
  shows "link_ok unpack (s\<lparr>lk_decoder := d, lk_delivered := lk_delivered s @ inputs\<rparr>)"
proof -
  let ?n = "next_frame s" and ?h = "lk_history s"
  obtain m where m: "?n \<le> m" "m \<le> length ?h"
    "inputs = numbered (int ?n) (take (m - ?n) (drop ?n ?h))"
    "d = (lk_decoder s)\<lparr>id_last_decoded := int m - 1\<rparr>"
    by (rule receive_packet[OF ok p]) (use dec in simp)
  let ?t = "s\<lparr>lk_decoder := d, lk_delivered := lk_delivered s @ inputs\<rparr>"
  have n: "id_last_decoded (lk_decoder s) = int ?n - 1" "lk_delivered s = numbered 0 (take ?n ?h)"
    using ok by (simp_all add: link_ok_def decoder_ok_def)
  have nf: "next_frame ?t = m" by (simp add: next_frame_def m(4))
  have "decoder_ok ?t"
    using ok m(4) n(2) numbered_take_extend[OF m(1,2)]
    by (simp add: decoder_ok_def link_ok_def nf m(2,3))
  moreover have "encoder_ok ?t"
  proof -
    obtain a where "a \<le> ?n" "a \<le> length ?h"
      "ie_pending (lk_encoder s) = numbered (int a) (drop a ?h)"
      using ok by (auto simp: link_ok_def encoder_ok_def)
    moreover have "- 1 \<le> ie_last_acked (lk_encoder s)"
      "ie_last_acked (lk_encoder s) \<le> id_last_decoded (lk_decoder s)"
      using ok by (simp_all add: link_ok_def encoder_ok_def)
    ultimately show ?thesis
      using m(1,4) n(1) unfolding encoder_ok_def nf by (intro conjI exI[of _ a]) simp_all
  qed
  moreover have "packet_ok unpack ?t q" if "q \<in> lk_packets s" for q
  proof (rule packet_ok_decoder)
    show "packet_ok unpack s q" using ok that by (simp add: link_ok_def)
    show "next_frame s \<le> next_frame ?t" using m(1) nf by simp
    show "id_last_decoded (lk_decoder s) \<le> id_last_decoded (lk_decoder ?t)"
      using m(1,4) n(1) by simp
  qed simp
  moreover have "a \<le> id_last_decoded d" if "a \<in> lk_acks s" for a
  proof -
    have "a \<le> id_last_decoded (lk_decoder s)" using ok that by (simp add: link_ok_def)
    then show ?thesis using m(1,4) n(1) by simp
  qed
  ultimately show ?thesis by (simp add: link_ok_def)
qed

lemma receive_ack_ok:
  assumes ok: "link_ok unpack s" and ack: "a \<in> lk_acks s"
  shows "link_ok unpack (s\<lparr>lk_encoder := acknowledge_frame a (lk_encoder s)\<rparr>)"
proof -
  let ?e = "lk_encoder s" and ?h = "lk_history s"
  obtain b where b: "b \<le> next_frame s" "b \<le> length ?h"
    "ie_pending ?e = numbered (int b) (drop b ?h)"
    using ok by (auto simp: link_ok_def encoder_ok_def)
  have a: "a \<le> id_last_decoded (lk_decoder s)" using ok ack by (simp add: link_ok_def)
  have d: "id_last_decoded (lk_decoder s) = int (next_frame s) - 1"
    "next_frame s \<le> length ?h"
    using ok by (simp_all add: link_ok_def decoder_ok_def)
  let ?k = "nat (a - int b)"
  have pend: "ie_pending (acknowledge_frame a ?e) = numbered (int (b + ?k)) (drop (b + ?k) ?h)"
    using acknowledge_numbered[OF b(3), of a] by (simp add: add.commute)
  have k: "b + ?k \<le> next_frame s" using a b(1) d(1) by simp
  have "- 1 \<le> ie_last_acked (acknowledge_frame a ?e)"
    "ie_last_acked (acknowledge_frame a ?e) \<le> id_last_decoded (lk_decoder s)"
  proof -
    let ?old = "filter (\<lambda>i. fi_frame i < a) (ie_pending ?e)"
    have "- 1 \<le> fi_frame (last ?old) \<and> fi_frame (last ?old) < a" if "?old \<noteq> []"
    proof -
      have "last ?old \<in> set ?old" using that by (rule last_in_set)
      then have "last ?old \<in> set (numbered (int b) (drop b ?h))" "fi_frame (last ?old) < a"
        by (simp_all add: b(3))
      then show ?thesis using set_numbered_frame by fastforce
    qed
    then show "- 1 \<le> ie_last_acked (acknowledge_frame a ?e)"
      "ie_last_acked (acknowledge_frame a ?e) \<le> id_last_decoded (lk_decoder s)"
      using ok a by (auto simp: acknowledge_frame_def link_ok_def encoder_ok_def Let_def)
  qed
  with ok pend k d show ?thesis
    by (auto simp: link_ok_def decoder_ok_def encoder_ok_def intro!: exI[of _ "b + ?k"])
qed

context lossless
begin

lemma link_step_ok: "link_step pack unpack s t \<Longrightarrow> link_ok unpack s \<Longrightarrow> link_ok unpack t"
proof (induction rule: link_step.induct)
  case (push s x)
  then show ?case by (intro push_ok)
next
  case (transmit s packet e)
  then show ?case by (intro transmit_ok)
next
  case (receive start bits s inputs d)
  then show ?case by (intro receive_ok)
next
  case (send_ack s)
  then show ?case
    by (auto simp: link_ok_def decoder_ok_def encoder_ok_def last_decoded_frame_def)
next
  case (receive_ack a s)
  then show ?case by (intro receive_ack_ok)
qed

lemma reachable_ok: "link_reachable pack unpack s \<Longrightarrow> link_ok unpack s"
  by (induction rule: link_reachable.induct) (auto intro: link_ok_init link_step_ok)

text \<open>Safety: what the session receives is a prefix of what was pushed, frame by frame.\<close>

lemma delivered_prefix:
  "link_reachable pack unpack s \<Longrightarrow>
     next_frame s \<le> length (lk_history s) \<and>
     lk_delivered s = numbered 0 (take (next_frame s) (lk_history s))"
  using reachable_ok[of s] by (simp add: link_ok_def decoder_ok_def)

text \<open>No packet of the network is ever rejected or makes the decoder panic.\<close>

lemma receive_enabled:
  assumes "link_reachable pack unpack s" and "p \<in> lk_packets s"
  shows "\<exists>inputs d. decode_frames unpack (fst p) (snd p) (lk_decoder s) = Some (Inr inputs, d)"
proof -
  have "(fst p, snd p) \<in> lk_packets s" using assms(2) by simp
  from receive_packet[OF reachable_ok[OF assms(1)] this] show ?thesis by metis
qed

text \<open>
  Progress: whatever happened before, one transmitted packet that arrives brings the peer up to
  date, provided the pending inputs fit into a packet.
\<close>

lemma one_packet_suffices:
  assumes r: "link_reachable pack unpack s"
    and fit: "fits (map fi_input (ie_pending (lk_encoder s)))"
  obtains packet e d inputs where
    "encode_pending pack (lk_encoder s) = Some (Inr packet, e)"
    "decode_frames unpack (fst packet) (snd packet) (lk_decoder s) = Some (Inr inputs, d)"
    "lk_delivered s @ inputs = numbered 0 (lk_history s)"
proof -
  have ok: "link_ok unpack s" using r by (rule reachable_ok)
  let ?n = "next_frame s" and ?h = "lk_history s" and ?d = "lk_decoder s"
  have dl: "lk_delivered s = numbered 0 (take ?n ?h)" "?n \<le> length ?h"
    "id_last_decoded ?d = int ?n - 1" "in_i32 (int (length ?h))"
    using ok by (simp_all add: link_ok_def decoder_ok_def)
  obtain a where a: "a \<le> ?n" "a \<le> length ?h"
    "ie_pending (lk_encoder s) = numbered (int a) (drop a ?h)"
    using ok by (auto simp: link_ok_def encoder_ok_def)
  show ?thesis
  proof (cases "drop a ?h = []")
    case True
    then have n: "?n = length ?h" using a dl(2) by simp
    have "- 1 \<le> ie_last_acked (lk_encoder s)" "ie_last_acked (lk_encoder s) \<le> id_last_decoded ?d"
      using ok by (simp_all add: link_ok_def encoder_ok_def)
    then have "decode_frames unpack (ie_last_acked (lk_encoder s)) [] ?d = Some (Inr [], ?d)"
      using unpack_Nil dl by (simp add: decode_frames_def in_i32_def)
    then show ?thesis
      using that[of "(ie_last_acked (lk_encoder s), [])" "lk_encoder s" "[]" ?d] True a(3) dl n
      by (simp add: encode_pending_def)
  next
    case False
    have "fits (drop a ?h)" using fit a(3) by simp
    then obtain bits where bits: "pack (drop a ?h) = Some (Inr bits)"
      "unpack bits = Some (Inr (drop a ?h))"
      using unpack_pack by blast
    let ?c = "if is_null (id_last_decoded ?d) then int a - 1 else id_last_decoded ?d"
    have c: "?c = int ?n - 1" using a(1) dl(3) by (auto simp: is_null_def)
    have "decode_frames unpack (int a) bits ?d =
        Some (Inr (numbered (?c + 1) (drop (nat (?c + 1 - int a)) (drop a ?h))),
          if nat (?c + 1 - int a) < length (drop a ?h)
          then ?d\<lparr>id_last_decoded := int a + int (length (drop a ?h)) - 1\<rparr> else ?d)"
      using a dl c bits(2) by (intro decode_frames_numbered) (auto simp: in_i32_def)
    moreover have "nat (?c + 1 - int a) + a = ?n" using c a(1) by simp
    ultimately obtain d where "decode_frames unpack (int a) bits ?d =
        Some (Inr (numbered (int ?n) (drop ?n ?h)), d)"
      using c by auto
    moreover have "numbered 0 (take ?n ?h) @ numbered (int ?n) (drop ?n ?h) = numbered 0 ?h"
      using numbered_take_extend[of ?n "length ?h" ?h] dl(2) by simp
    ultimately show ?thesis
      using that[of "(int a, bits)"] False a(3) bits(1) dl(1) by (simp add: encode_pending_def)
  qed
qed

end

end
