(* ===== verification/Peer_Delivery.thy ===== *)
theory Peer_Delivery
  imports Session_Safety Input_Delivery
begin

text \<open>
  Two peers and the network between them, with everything they do: every handler, every iteration of
  their background tasks, the timers, the calls of their sessions. Every packet ever handed to a transport
  may arrive at the other end at any time, any number of times. Seen through its \<open>port\<close>, which keeps the
  encoder, the decoder and the messages on their way, each end takes the steps of two input streams
  (\<open>link_step\<close>), one in each direction, so the inputs that a peer reports to its session are those the
  other session sent, in order.
\<close>

section \<open>Two ends of a connection\<close>

text \<open>The ghost fields: every packet handed to the transport, and the inputs the session sent while running.\<close>

record ('i, 'e, 'o, 'm) endpoint =
  ep_conn :: "('i, 'e, 'o, 'm) conn"
  ep_wire :: "u8 list set"
  ep_pushed :: "'i list"

definition endpoint_new :: "('i, 'e, 'o, 'm) peer \<Rightarrow> ('i, 'e, 'o, 'm) endpoint" where
  "endpoint_new p = \<lparr>ep_conn = conn_new p, ep_wire = {}, ep_pushed = []\<rparr>"

abbreviation ep_peer :: "('i, 'e, 'o, 'm) endpoint \<Rightarrow> ('i, 'e, 'o, 'm) peer" where
  "ep_peer e \<equiv> cn_session (ep_conn e)"

text \<open>
  A step of one end; \<open>wire\<close> is what may arrive there. A running session numbers its inputs with the
  next frame, as \<open>add_local_input\<close> does while the session advances.
\<close>

inductive endpoint_step ::
    "('i, 'e, 'o, 'm) crates \<Rightarrow> (message \<Rightarrow> unit + u8 list) \<Rightarrow> (u8 list \<Rightarrow> unit + message) \<Rightarrow> u8 list set \<Rightarrow>
       ('i, 'e, 'o, 'm) endpoint \<Rightarrow> ('i, 'e, 'o, 'm) endpoint \<Rightarrow> bool" for X serialize deserialize wire where
  input: "state_is_running (pe_state (ep_peer e)) \<Longrightarrow> fi_frame i = int (length (ep_pushed e)) \<Longrightarrow>
    in_i32 (fi_frame i + 1) \<Longrightarrow> send_input X statuses i (ep_peer e) = Some (r, p) \<Longrightarrow>
    endpoint_step X serialize deserialize wire e
      (e\<lparr>ep_conn := session_moved p (ep_conn e), ep_pushed := ep_pushed e @ [fi_input i]\<rparr>)"
| late_input: "\<not> state_is_running (pe_state (ep_peer e)) \<Longrightarrow> send_input X statuses i (ep_peer e) = Some (r, p) \<Longrightarrow>
    endpoint_step X serialize deserialize wire e (e\<lparr>ep_conn := session_moved p (ep_conn e)\<rparr>)"
| outgoing: "chan_try_recv (cr_out X) (pe_message_out (ep_peer e)) = (Inr data, c) \<Longrightarrow>
    serialize_outgoing_step serialize delivered now magic data seq ((ep_peer e)\<lparr>pe_message_out := c\<rparr>) =
      Some ((again, packet, seq'), p) \<Longrightarrow>
    endpoint_step X serialize deserialize wire e
      (e\<lparr>ep_conn := session_moved p (ep_conn e), ep_wire := set_option packet \<union> ep_wire e\<rparr>)"
| incoming: "bytes \<in> wire \<Longrightarrow> deserialize_incoming_step X deserialize bytes seq (ep_peer e) = Some (r, p) \<Longrightarrow>
    endpoint_step X serialize deserialize wire e (e\<lparr>ep_conn := session_moved p (ep_conn e)\<rparr>)"
| routine: "peer_routine X (ep_peer e) p \<Longrightarrow>
    endpoint_step X serialize deserialize wire e (e\<lparr>ep_conn := session_moved p (ep_conn e)\<rparr>)"
| task: "conn_task X (ep_conn e) c \<Longrightarrow> endpoint_step X serialize deserialize wire e (e\<lparr>ep_conn := c\<rparr>)"

inductive peers_reachable ::
    "('i, 'e, 'o, 'm) crates \<Rightarrow> (message \<Rightarrow> unit + u8 list) \<Rightarrow> (u8 list \<Rightarrow> unit + message) \<Rightarrow>
       ('i, 'e, 'o, 'm) peer \<Rightarrow> ('i, 'e, 'o, 'm) peer \<Rightarrow> ('i, 'e, 'o, 'm) endpoint \<Rightarrow> ('i, 'e, 'o, 'm) endpoint \<Rightarrow> bool"
    for X serialize deserialize p q where
  start: "peers_reachable X serialize deserialize p q (endpoint_new p) (endpoint_new q)"
| first: "peers_reachable X serialize deserialize p q a b \<Longrightarrow>
    endpoint_step X serialize deserialize (ep_wire b) a a' \<Longrightarrow> peers_reachable X serialize deserialize p q a' b"
| second: "peers_reachable X serialize deserialize p q a b \<Longrightarrow>
    endpoint_step X serialize deserialize (ep_wire a) b b' \<Longrightarrow> peers_reachable X serialize deserialize p q a b'"

text \<open>A peer before its first input and message, whatever its state: as \<open>peer_new\<close> makes it, or connected.\<close>

definition unused_peer :: "('i, 'e, 'o, 'm) views \<Rightarrow> ('i, 'e, 'o, 'm) peer \<Rightarrow> bool" where
  "unused_peer W p \<longleftrightarrow> pe_input_encoder p = encoder_default \<and> pe_input_decoder p = decoder_default \<and>
     event_inputs (vw_events W (pe_events p)) = [] \<and> vw_out W (pe_message_out p) = [] \<and> vw_in W (pe_message_in p) = []"

section \<open>Ports\<close>

text \<open>What a message says about the input streams: a packet of the sender, and what the sender has received.\<close>

fun carried_packets :: "message_data \<Rightarrow> (frame \<times> u8 list) set" where
  "carried_packets (InputMsg msg) = {(in_start_frame msg, in_bits msg)}"
| "carried_packets _ = {}"

fun carried_acks :: "message_data \<Rightarrow> frame set" where
  "carried_acks (InputMsg msg) = {in_ack_frame msg}"
| "carried_acks (InputAck f) = {f}"
| "carried_acks _ = {}"

definition plain :: "message_data \<Rightarrow> bool" where
  "plain m \<longleftrightarrow> carried_packets m = {} \<and> carried_acks m = {}"

record 'i port =
  po_pushed :: "'i list"
  po_encoder :: "'i input_encoder"
  po_decoder :: input_decoder
  po_reported :: "'i frame_input list"
  po_shut :: bool
  po_shakes :: nat
  po_out :: "message_data set"
  po_wire :: "message_data set"
  po_in :: "message_data set"

definition peer_port ::
    "('i, 'e, 'o, 'm) views \<Rightarrow> 'i list \<Rightarrow> message_data set \<Rightarrow> 'i peer_event list \<Rightarrow> ('i, 'e, 'o, 'm) peer \<Rightarrow> 'i port" where
  "peer_port W pushed wire received p =
     \<lparr>po_pushed = pushed, po_encoder = pe_input_encoder p, po_decoder = pe_input_decoder p,
      po_reported = event_inputs (received @ vw_events W (pe_events p)), po_shut = vw_events_shut W (pe_events p),
      po_shakes = length (filter is_handshake_event (received @ vw_events W (pe_events p))),
      po_out = set (vw_out W (pe_message_out p)), po_wire = wire, po_in = msg_data ` set (vw_in W (pe_message_in p))\<rparr>"

definition wire_messages :: "(u8 list \<Rightarrow> unit + message) \<Rightarrow> u8 list set \<Rightarrow> message_data set" where
  "wire_messages deserialize wire = {msg_data m | m. \<exists>bytes \<in> wire. deserialize bytes = Inr m}"

definition port :: "('i, 'e, 'o, 'm) views \<Rightarrow> (u8 list \<Rightarrow> unit + message) \<Rightarrow> ('i, 'e, 'o, 'm) endpoint \<Rightarrow> 'i port" where
  "port W deserialize e =
     peer_port W (ep_pushed e) (wire_messages deserialize (ep_wire e)) (cn_received (ep_conn e)) (ep_peer e)"

text \<open>
  The steps of a port. \<open>N\<close> are the messages that may arrive, \<open>K\<close> the packets and \<open>A\<close> the acknowledgements
  of the messages that have arrived. When the session is gone, what was decoded is not reported.
\<close>

inductive port_step ::
    "('i list \<Rightarrow> (encode_error + u8 list) option) \<Rightarrow> (u8 list \<Rightarrow> (decode_error + 'i list) option) \<Rightarrow>
       message_data set \<Rightarrow> (frame \<times> u8 list) set \<Rightarrow> frame set \<Rightarrow> 'i port \<Rightarrow> 'i port \<Rightarrow> bool" for pack unpack N K A where
  idle: "po_shut p \<longrightarrow> shut \<Longrightarrow> po_shakes p \<le> shakes \<Longrightarrow> out' \<subseteq> po_out p \<union> Collect plain \<Longrightarrow> in' \<subseteq> po_in p \<Longrightarrow>
    port_step pack unpack N K A p (p\<lparr>po_shut := shut, po_shakes := shakes, po_out := out', po_in := in'\<rparr>)"
| push: "in_i32 (int (length (po_pushed p)) + 1) \<Longrightarrow>
    port_step pack unpack N K A p (p\<lparr>po_pushed := po_pushed p @ [x],
      po_encoder := encoder_push \<lparr>fi_frame = int (length (po_pushed p)), fi_input = x\<rparr> (po_encoder p)\<rparr>)"
| transmit: "encode_pending pack (po_encoder p) = Some (Inr (in_start_frame msg, in_bits msg), e) \<Longrightarrow>
    in_ack_frame msg = last_decoded_frame (po_decoder p) \<Longrightarrow> out' \<subseteq> insert (InputMsg msg) (po_out p) \<Longrightarrow>
    port_step pack unpack N K A p (p\<lparr>po_encoder := e, po_out := out'\<rparr>)"
| acknowledged: "f \<in> A \<Longrightarrow> port_step pack unpack N K A p (p\<lparr>po_encoder := acknowledge_frame f (po_encoder p)\<rparr>)"
| received: "(start, bits) \<in> K \<Longrightarrow> decode_frames unpack start bits (po_decoder p) = Some (Inr inputs, d) \<Longrightarrow>
    port_step pack unpack N K A p (p\<lparr>po_decoder := d,
      po_reported := (if po_shut p then po_reported p else po_reported p @ inputs)\<rparr>)"
| send_ack: "out' \<subseteq> insert (InputAck (last_decoded_frame (po_decoder p))) (po_out p) \<Longrightarrow>
    port_step pack unpack N K A p (p\<lparr>po_out := out'\<rparr>)"
| ship: "w \<subseteq> po_out p \<Longrightarrow> port_step pack unpack N K A p (p\<lparr>po_wire := w \<union> po_wire p\<rparr>)"
| arrive: "n \<subseteq> N \<Longrightarrow> in' \<subseteq> n \<union> po_in p \<Longrightarrow> port_step pack unpack N K A p (p\<lparr>po_in := in'\<rparr>)"

abbreviation port_steps ::
    "('i list \<Rightarrow> (encode_error + u8 list) option) \<Rightarrow> (u8 list \<Rightarrow> (decode_error + 'i list) option) \<Rightarrow>
       message_data set \<Rightarrow> (frame \<times> u8 list) set \<Rightarrow> frame set \<Rightarrow> 'i port \<Rightarrow> 'i port \<Rightarrow> bool" where
  "port_steps pack unpack N K A \<equiv> (port_step pack unpack N K A)\<^sup>*\<^sup>*"

section \<open>The simulation\<close>

text \<open>
  The port \<open>a\<close> and the port \<open>b\<close> stand for the stream \<open>s\<close> of the inputs of \<open>a\<close>: what was decoded at \<open>b\<close> was
  reported there, unless its session is gone.
\<close>

definition reports :: "'i link \<Rightarrow> 'i port \<Rightarrow> bool" where
  "reports s b \<longleftrightarrow> (\<exists>lost. lk_delivered s = po_reported b @ lost \<and> (lost = [] \<or> po_shut b))"

definition carried :: "'i link \<Rightarrow> 'i link \<Rightarrow> message_data \<Rightarrow> bool" where
  "carried s t m \<longleftrightarrow> carried_packets m \<subseteq> lk_packets s \<and> carried_acks m \<subseteq> lk_acks t"

definition traffic :: "'i port \<Rightarrow> 'i port \<Rightarrow> message_data set" where
  "traffic a b = po_out a \<union> po_wire a \<union> po_in b"

definition one_way :: "'i port \<Rightarrow> 'i port \<Rightarrow> 'i link \<Rightarrow> 'i link \<Rightarrow> bool" where
  "one_way a b s t \<longleftrightarrow> lk_history s = po_pushed a \<and> lk_encoder s = po_encoder a \<and> lk_decoder s = po_decoder b \<and>
     reports s b \<and> (\<forall>m \<in> traffic a b. carried s t m)"

definition both_ways :: "'i port \<Rightarrow> 'i port \<Rightarrow> 'i link \<Rightarrow> 'i link \<Rightarrow> bool" where
  "both_ways a b s t \<longleftrightarrow> one_way a b s t \<and> one_way b a t s"

lemma both_ways_sym: "both_ways a b s t \<longleftrightarrow> both_ways b a t s"
  by (auto simp: both_ways_def)

lemmas both_ways_defs = both_ways_def one_way_def traffic_def carried_def reports_def

lemma plain_carried [simp]: "plain m \<Longrightarrow> carried s t m"
  by (simp add: plain_def carried_def)

text \<open>Every step of a port is matched by steps of the two streams, which only learn.\<close>

definition later :: "'i link \<Rightarrow> 'i link \<Rightarrow> bool" where
  "later s s' \<longleftrightarrow> lk_packets s \<subseteq> lk_packets s' \<and> lk_acks s \<subseteq> lk_acks s'"

lemma carried_later: "carried s t m \<Longrightarrow> later s s' \<Longrightarrow> later t t' \<Longrightarrow> carried s' t' m"
  by (auto simp: carried_def later_def)

lemma later_refl [simp]: "later s s"
  and later_trans: "later s t \<Longrightarrow> later t u \<Longrightarrow> later s u"
  by (auto simp: later_def)

text \<open>What a change at one end, and in the two streams, has to keep.\<close>

lemma both_ways_changed:
  assumes sim: "both_ways a b s t" and later: "later s s'" "later t t'"
    and s': "lk_history s' = po_pushed a'" "lk_encoder s' = po_encoder a'" "lk_decoder s' = lk_decoder s"
      "lk_delivered s' = lk_delivered s"
    and t': "lk_history t' = lk_history t" "lk_encoder t' = lk_encoder t" "lk_decoder t' = po_decoder a'" "reports t' a'"
    and out: "po_out a' \<subseteq> po_out a \<union> {m. carried s' t' m}" and wire: "po_wire a' \<subseteq> po_wire a \<union> po_out a"
    and "in": "po_in a' \<subseteq> po_in a \<union> {m. carried t' s' m}"
  shows "both_ways a' b s' t'"
proof -
  have known: "carried s' t' m" if "m \<in> traffic a b" for m
    using sim that carried_later[OF _ later] by (auto simp: both_ways_def one_way_def)
  have known': "carried t' s' m" if "m \<in> traffic b a" for m
    using sim that carried_later[OF _ later(2,1)] by (auto simp: both_ways_def one_way_def)
  have "carried s' t' m" if "m \<in> traffic a' b" for m
    using that known out wire by (auto simp: traffic_def)
  moreover have "carried t' s' m" if "m \<in> traffic b a'" for m
    using that known' "in" by (auto simp: traffic_def)
  ultimately show ?thesis using sim s' t' by (simp add: both_ways_def one_way_def reports_def)
qed

lemma both_waysD:
  assumes "both_ways a b s t"
  shows "lk_history s = po_pushed a" "lk_encoder s = po_encoder a" "lk_decoder t = po_decoder a" "reports t a"
  using assms by (simp_all add: both_ways_def one_way_def)

lemma reports_kept: "reports t a \<Longrightarrow> lk_delivered t' = lk_delivered t \<Longrightarrow> po_reported a' = po_reported a \<Longrightarrow>
    po_shut a \<longrightarrow> po_shut a' \<Longrightarrow> reports t' a'"
  by (auto simp: reports_def)

lemma reports_more: "reports t a \<Longrightarrow> lk_delivered t' = lk_delivered t @ inputs \<Longrightarrow> po_shut a' = po_shut a \<Longrightarrow>
    po_reported a' = (if po_shut a then po_reported a else po_reported a @ inputs) \<Longrightarrow> reports t' a'"
  by (auto simp: reports_def)

lemma port_step_simulated:
  assumes stp: "port_step pack unpack N K A a a'" and sim: "both_ways a b s t"
    and reach: "link_reachable pack unpack s" "link_reachable pack unpack t"
    and known: "K \<subseteq> lk_packets t" "A \<subseteq> lk_acks s" "\<forall>m \<in> N. carried t s m"
  shows "\<exists>s' t'. both_ways a' b s' t' \<and> link_reachable pack unpack s' \<and> link_reachable pack unpack t' \<and>
    later s s' \<and> later t t'"
  using stp
proof cases
  case (idle shut shakes out' in')
  have "both_ways a' b s t"
    by (rule both_ways_changed[OF sim later_refl later_refl])
      (use both_waysD[OF sim] idle plain_carried in \<open>auto intro: reports_kept\<close>)
  then show ?thesis using reach later_refl by blast
next
  case (push x)
  let ?s = "s\<lparr>lk_history := lk_history s @ [x],
    lk_encoder := encoder_push \<lparr>fi_frame = int (length (lk_history s)), fi_input = x\<rparr> (lk_encoder s)\<rparr>"
  have lat: "later s ?s" by (simp add: later_def)
  have "link_step pack unpack s ?s" by (rule link_step.push) (use push(2) both_waysD(1)[OF sim] in simp)
  then have "link_reachable pack unpack ?s" using reach(1) link_reachable.step by blast
  moreover have "both_ways a' b ?s t"
    by (rule both_ways_changed[OF sim lat later_refl]) (use both_waysD[OF sim] push(1) in \<open>auto intro: reports_kept\<close>)
  ultimately show ?thesis using lat reach(2) later_refl by blast
next
  case (transmit msg e out')
  let ?s = "s\<lparr>lk_encoder := e, lk_packets := insert (in_start_frame msg, in_bits msg) (lk_packets s)\<rparr>"
  let ?t = "t\<lparr>lk_acks := insert (last_decoded_frame (lk_decoder t)) (lk_acks t)\<rparr>"
  have lat: "later s ?s" "later t ?t" by (auto simp: later_def)
  have "link_step pack unpack s ?s" by (rule link_step.transmit) (use transmit(2) both_waysD[OF sim] in simp)
  then have "link_reachable pack unpack ?s" using reach(1) link_reachable.step by blast
  moreover have "link_reachable pack unpack ?t" using link_reachable.step[OF reach(2) link_step.send_ack] .
  moreover have "carried ?s ?t (InputMsg msg)" using transmit(3) both_waysD(3)[OF sim] by (simp add: carried_def)
  then have "both_ways a' b ?s ?t"
    by (intro both_ways_changed[OF sim lat]) (use both_waysD[OF sim] transmit(1,4) in \<open>auto intro: reports_kept\<close>)
  ultimately show ?thesis using lat by blast
next
  case (acknowledged f)
  let ?s = "s\<lparr>lk_encoder := acknowledge_frame f (lk_encoder s)\<rparr>"
  have lat: "later s ?s" by (simp add: later_def)
  have "link_step pack unpack s ?s" by (rule link_step.receive_ack) (use acknowledged(2) known(2) in auto)
  then have "link_reachable pack unpack ?s" using reach(1) link_reachable.step by blast
  moreover have "both_ways a' b ?s t"
    by (rule both_ways_changed[OF sim lat later_refl]) (use both_waysD[OF sim] acknowledged(1) in \<open>auto intro: reports_kept\<close>)
  ultimately show ?thesis using lat reach(2) later_refl by blast
next
  case (received start bits inputs d)
  let ?t = "t\<lparr>lk_decoder := d, lk_delivered := lk_delivered t @ inputs\<rparr>"
  have lat: "later t ?t" by (simp add: later_def)
  have "link_step pack unpack t ?t"
    by (rule link_step.receive) (use received(2,3) known(1) both_waysD(3)[OF sim] in auto)
  then have "link_reachable pack unpack ?t" using reach(2) link_reachable.step by blast
  moreover have "both_ways a' b s ?t"
    by (rule both_ways_changed[OF sim later_refl lat])
      (use both_waysD[OF sim] received(1) in \<open>auto intro: reports_more[where inputs = inputs]\<close>)
  ultimately show ?thesis using lat reach(1) later_refl by blast
next
  case (send_ack out')
  let ?t = "t\<lparr>lk_acks := insert (last_decoded_frame (lk_decoder t)) (lk_acks t)\<rparr>"
  have lat: "later t ?t" by (auto simp: later_def)
  have "carried s ?t (InputAck (last_decoded_frame (po_decoder a)))"
    using both_waysD(3)[OF sim] by (simp add: carried_def)
  then have "both_ways a' b s ?t"
    by (intro both_ways_changed[OF sim later_refl lat]) (use both_waysD[OF sim] send_ack in \<open>auto intro: reports_kept\<close>)
  moreover have "link_reachable pack unpack ?t" using link_reachable.step[OF reach(2) link_step.send_ack] .
  ultimately show ?thesis using lat reach(1) later_refl by blast
next
  case (ship w)
  have "both_ways a' b s t"
    by (rule both_ways_changed[OF sim later_refl later_refl]) (use both_waysD[OF sim] ship in \<open>auto intro: reports_kept\<close>)
  then show ?thesis using reach later_refl by blast
next
  case (arrive n in')
  have "both_ways a' b s t"
    by (rule both_ways_changed[OF sim later_refl later_refl])
      (use both_waysD[OF sim] arrive known(3) in \<open>auto intro: reports_kept\<close>)
  then show ?thesis using reach later_refl by blast
qed

lemma port_steps_simulated:
  assumes "port_steps pack unpack N K A a a'" and "both_ways a b s t"
    and "link_reachable pack unpack s" and "link_reachable pack unpack t"
    and "K \<subseteq> lk_packets t" and "A \<subseteq> lk_acks s" and "\<forall>m \<in> N. carried t s m"
  shows "\<exists>s' t'. both_ways a' b s' t' \<and> link_reachable pack unpack s' \<and> link_reachable pack unpack t' \<and>
    later s s' \<and> later t t'"
  using assms(1)
proof (induction rule: rtranclp_induct)
  case base
  then show ?case using assms(2-4) later_refl by blast
next
  case (step a1 a2)
  then obtain s1 t1 where one: "both_ways a1 b s1 t1" "link_reachable pack unpack s1" "link_reachable pack unpack t1"
    "later s s1" "later t t1" by blast
  have "K \<subseteq> lk_packets t1" "A \<subseteq> lk_acks s1" "\<forall>m \<in> N. carried t1 s1 m"
    using assms(5,6) one(4,5) by (auto simp: later_def) (use assms(7) carried_later[OF _ one(5,4)] in blast)
  from port_step_simulated[OF step.hyps(2) one(1-3) this] show ?case using one(4,5) later_trans by metis
qed

section \<open>What a peer does to its port\<close>

abbreviation pack_inputs :: "('i, 'e, 'o, 'm) crates \<Rightarrow> 'i list \<Rightarrow> (encode_error + u8 list) option" where
  "pack_inputs X \<equiv> compress (cr_varint X) (cr_pod X) (pod_zeroed (cr_pod X))"

abbreviation unpack_inputs :: "('i, 'e, 'o, 'm) crates \<Rightarrow> u8 list \<Rightarrow> (decode_error + 'i list) option" where
  "unpack_inputs X \<equiv> decompress (cr_varint X) (cr_pod X) (pod_zeroed (cr_pod X))"

definition moves ::
    "('i, 'e, 'o, 'm) crates \<Rightarrow> ('i, 'e, 'o, 'm) views \<Rightarrow> message_data set \<Rightarrow> (frame \<times> u8 list) set \<Rightarrow> frame set \<Rightarrow>
       'i list \<Rightarrow> message_data set \<Rightarrow> 'i peer_event list \<Rightarrow> ('i, 'e, 'o, 'm) peer \<Rightarrow> ('i, 'e, 'o, 'm) peer \<Rightarrow> bool" where
  "moves X W N K A h w rs p p' \<longleftrightarrow>
     port_steps (pack_inputs X) (unpack_inputs X) N K A (peer_port W h w rs p) (peer_port W h w rs p')"

lemma moves_refl [simp]: "moves X W N K A h w rs p p"
  by (simp add: moves_def)

lemma moves_trans: "moves X W N K A h w rs p q \<Longrightarrow> moves X W N K A h w rs q r \<Longrightarrow> moves X W N K A h w rs p r"
  unfolding moves_def by (rule rtranclp_trans)

lemma moves_step:
  "port_step (pack_inputs X) (unpack_inputs X) N K A (peer_port W h w rs p) (peer_port W h w rs p') \<Longrightarrow>
     moves X W N K A h w rs p p'"
  by (simp add: moves_def)

text \<open>Most fields of a peer do not show.\<close>

lemma moves_same:
  "peer_port W h w rs p' = peer_port W h w rs p \<Longrightarrow> moves X W N K A h w rs p p'"
  by (simp add: moves_def)

lemma peer_port_fields [simp]:
  "peer_port W h w rs (p\<lparr>pe_state := s\<rparr>) = peer_port W h w rs p"
  "peer_port W h w rs (p\<lparr>pe_stats := st\<rparr>) = peer_port W h w rs p"
  "peer_port W h w rs (p\<lparr>pe_timesync := ts\<rparr>) = peer_port W h w rs p"
  "peer_port W h w rs (p\<lparr>pe_peer_connect_status := cs\<rparr>) = peer_port W h w rs p"
  "peer_port W h w rs (p\<lparr>pe_input_encoder := e\<rparr>) = (peer_port W h w rs p)\<lparr>po_encoder := e\<rparr>"
  "peer_port W h w rs (p\<lparr>pe_input_decoder := d\<rparr>) = (peer_port W h w rs p)\<lparr>po_decoder := d\<rparr>"
  by (simp_all add: peer_port_def)

lemma event_inputs_append [simp]: "event_inputs (es @ fs) = event_inputs es @ event_inputs fs"
  by (induction es rule: event_inputs.induct) simp_all

lemma send_port:
  assumes "channels_ok X W" and "send X m p = Some (r, p')"
  obtains out' where "out' \<subseteq> insert m (po_out (peer_port W h w rs p))"
    and "peer_port W h w rs p' = (peer_port W h w rs p)\<lparr>po_out := out'\<rparr>"
proof (cases "vw_out_shut W (pe_message_out p)")
  case True
  then show ?thesis
    using send_shut[OF assms(1) True, of m] assms(2)
    by (intro that[of "po_out (peer_port W h w rs p)"]) (auto simp: peer_port_def)
next
  case False
  obtain c where "send X m p = Some (Inr (), p\<lparr>pe_message_out := c\<rparr>)" "vw_out W c = vw_out W (pe_message_out p) @ [m]"
    using send_open[OF assms(1) False, of m] by blast
  then show ?thesis
    using assms(2) by (intro that[of "insert m (po_out (peer_port W h w rs p))"]) (auto simp: peer_port_def)
qed

lemma push_event_port:
  assumes "channels_ok X W" and "push_event X e p = Some (r, p')"
  shows "peer_port W h w rs p' = (peer_port W h w rs p)\<lparr>po_reported :=
    (if po_shut (peer_port W h w rs p) then po_reported (peer_port W h w rs p)
     else po_reported (peer_port W h w rs p) @ event_inputs [e]),
    po_shakes := (if po_shut (peer_port W h w rs p) \<or> \<not> is_handshake_event e then po_shakes (peer_port W h w rs p)
     else Suc (po_shakes (peer_port W h w rs p)))\<rparr>"
proof (cases "vw_events_shut W (pe_events p)")
  case True
  then show ?thesis using push_event_shut[OF assms(1) True, of e] assms(2) by (simp add: peer_port_def)
next
  case False
  obtain c where "push_event X e p = Some (Inr (), p\<lparr>pe_events := c\<rparr>)" "vw_events W c = vw_events W (pe_events p) @ [e]"
    "\<not> vw_events_shut W c"
    using push_event_open[OF assms(1) False, of e] by blast
  then show ?thesis using assms(2) False by (auto simp: peer_port_def)
qed

text \<open>Messages and events that carry no inputs.\<close>

lemma moves_idle:
  "po_shut a \<longrightarrow> shut \<Longrightarrow> po_shakes a \<le> shakes \<Longrightarrow> out' \<subseteq> po_out a \<union> Collect plain \<Longrightarrow> in' \<subseteq> po_in a \<Longrightarrow> a = peer_port W h w rs p \<Longrightarrow>
    peer_port W h w rs p' = a\<lparr>po_shut := shut, po_shakes := shakes, po_out := out', po_in := in'\<rparr> \<Longrightarrow> moves X W N K A h w rs p p'"
  by (intro moves_step) (simp add: port_step.idle)

lemma send_plain_moves:
  assumes "channels_ok X W" and "send X m p = Some (r, p')" and "plain m"
  shows "moves X W N K A h w rs p p'"
proof -
  obtain out' where "out' \<subseteq> insert m (po_out (peer_port W h w rs p))"
    "peer_port W h w rs p' = (peer_port W h w rs p)\<lparr>po_out := out'\<rparr>"
    by (rule send_port[OF assms(1,2)])
  then show ?thesis
    using assms(3) by (intro moves_idle[OF _ le_refl _ _ refl, where shut = "po_shut (peer_port W h w rs p)"
        and out' = out' and in' = "po_in (peer_port W h w rs p)"]) auto
qed

lemma push_plain_moves:
  assumes "channels_ok X W" and "push_event X e p = Some (r, p')" and "event_inputs [e] = []"
  shows "moves X W N K A h w rs p p'"
proof -
  let ?a = "peer_port W h w rs p"
  let ?k = "if po_shut ?a \<or> \<not> is_handshake_event e then po_shakes ?a else Suc (po_shakes ?a)"
  have "peer_port W h w rs p' = ?a\<lparr>po_shut := po_shut ?a, po_shakes := ?k, po_out := po_out ?a, po_in := po_in ?a\<rparr>"
    unfolding push_event_port[OF assms(1,2)] assms(3) by (cases ?a) simp
  then show ?thesis by (rule moves_idle[OF _ _ _ _ refl, rotated -1]) simp_all
qed

lemma disconnect_moves:
  assumes ok: "channels_ok X W"
  shows "moves X W N K A h w rs p (peer_disconnect X p)"
  using ok unbounded_channel.chan_close[of "cr_events X" "vw_events W" "vw_events_shut W" "pe_events p"]
    unbounded_channel.chan_close[of "cr_out X" "vw_out W" "vw_out_shut W" "pe_message_out p"]
    unbounded_channel.chan_close[of "cr_in X" "vw_in W" "vw_in_shut W" "pe_message_in p"]
  by (intro moves_idle[OF _ le_refl _ _ refl, where shut = True and out' = "po_out (peer_port W h w rs p)"
        and in' = "po_in (peer_port W h w rs p)"])
    (simp_all add: peer_port_def peer_disconnect_def channels_ok_def)

section \<open>Handlers\<close>

lemma send_pending_output_moves:
  assumes ok: "channels_ok X W" and r: "send_pending_output X sts p = Some (r, p')"
  shows "moves X W N K A h w rs p p'"
proof -
  obtain res e where e: "encoder_encode (cr_varint X) (cr_pod X) (pe_input_encoder p) = Some (res, e)"
    using r by (auto simp: send_pending_output_def bind_eq_Some_conv)
  then obtain start bits where res: "res = Inr (start, bits)"
    using r by (cases res) (auto simp: send_pending_output_def)
  let ?msg = "\<lparr>in_peer_connect_status = sts, in_start_frame = start,
    in_ack_frame = last_decoded_frame (pe_input_decoder p), in_bits = bits\<rparr>"
  have "send X (InputMsg ?msg) (p\<lparr>pe_input_encoder := e\<rparr>) = Some (r, p')"
    using r e res by (simp add: send_pending_output_def)
  then obtain out' where out': "out' \<subseteq> insert (InputMsg ?msg) (po_out (peer_port W h w rs (p\<lparr>pe_input_encoder := e\<rparr>)))"
    "peer_port W h w rs p' = (peer_port W h w rs (p\<lparr>pe_input_encoder := e\<rparr>))\<lparr>po_out := out'\<rparr>"
    by (rule send_port[OF ok])
  have "port_step (pack_inputs X) (unpack_inputs X) N K A (peer_port W h w rs p)
      ((peer_port W h w rs p)\<lparr>po_encoder := e, po_out := out'\<rparr>)"
    by (rule port_step.transmit[of _ _ ?msg]) (use e res out' in \<open>simp_all add: encoder_encode_def peer_port_def\<close>)
  then show ?thesis by (intro moves_step) (simp add: out'(2))
qed

lemma on_sync_request_moves:
  "channels_ok X W \<Longrightarrow> on_sync_request X magic random p = Some (r, p') \<Longrightarrow> moves X W N K A h w rs p p'"
  by (auto simp: on_sync_request_def plain_def split: peer_state.split_asm if_split_asm intro: send_plain_moves)

lemma send_sync_request_moves:
  "channels_ok X W \<Longrightarrow> send_sync_request X p = Some (r, p') \<Longrightarrow> moves X W N K A h w rs p p'"
  by (cases "pe_state p")
    (auto simp: send_sync_request_def bind_eq_Some_conv plain_def intro: send_plain_moves)

lemma moves_state [simp]:
  "moves X W N K A h w rs (p\<lparr>pe_state := s\<rparr>) p' = moves X W N K A h w rs p p'"
  "moves X W N K A h w rs p (p'\<lparr>pe_state := s\<rparr>) = moves X W N K A h w rs p p'"
  "moves X W N K A h w rs (p\<lparr>pe_stats := st\<rparr>) p' = moves X W N K A h w rs p p'"
  "moves X W N K A h w rs p (p'\<lparr>pe_stats := st\<rparr>) = moves X W N K A h w rs p p'"
  by (simp_all add: moves_def)

lemma push_then_send_moves:
  assumes ok: "channels_ok X W" and e: "event_inputs [e] = []"
    and r: "and_then (push_event X e p) (\<lambda>_ q. send_sync_request X (f q)) = Some (r, p')"
    and f: "\<And>q q'. moves X W N K A h w rs (f q) q' = moves X W N K A h w rs q q'"
  shows "moves X W N K A h w rs p p'"
  using r unfolding and_then_Some
proof (elim disjE exE conjE)
  fix err assume "push_event X e p = Some (Inl err, p')"
  then show ?thesis by (rule push_plain_moves[OF ok _ e])
next
  fix x q assume q: "push_event X e p = Some (Inr x, q)" "send_sync_request X (f q) = Some (r, p')"
  have "moves X W N K A h w rs q p'" using send_sync_request_moves[OF ok q(2), of N K A h w rs] f[of q p'] by simp
  then show ?thesis using push_plain_moves[OF ok q(1) e] moves_trans by blast
qed

lemma accept_sync_reply_moves:
  assumes ok: "channels_ok X W" and r: "accept_sync_reply X now magic p = Some (r, p')"
  shows "moves X W N K A h w rs p p'"
proof (cases "pe_state p")
  case (PeerConnecting random)
  then show ?thesis
    using r push_then_send_moves[OF ok, of PeerConnected p "\<lambda>p. p\<lparr>pe_state := start_syncing NUM_SYNC_PACKETS (pe_state p)\<rparr>" r p']
    by (simp add: accept_sync_reply_def)
next
  case (PeerSyncing random k)
  let ?p = "p\<lparr>pe_state := PeerSyncing random (k - 1)\<rparr>"
  show ?thesis
  proof (cases "k - 1 = 0")
    case True
    then show ?thesis
      using r PeerSyncing push_plain_moves[OF ok, of PeerSynchronized ?p]
      by (auto simp: accept_sync_reply_def and_then_Some usize_sub_def Let_def bind_eq_Some_conv split: if_split_asm)
  next
    case False
    then have "and_then (push_event X (PeerSynchronizing NUM_SYNC_PACKETS (NUM_SYNC_PACKETS - (k - 1))) ?p)
        (\<lambda>_ p. send_sync_request X p) = Some (r, p')"
      using r PeerSyncing by (auto simp: accept_sync_reply_def usize_sub_def Let_def bind_eq_Some_conv split: if_split_asm)
    from push_then_send_moves[OF ok, where f = "\<lambda>q. q", OF _ this] show ?thesis by simp
  qed
qed (use r in \<open>auto simp: accept_sync_reply_def split: if_split_asm\<close>)

lemma on_sync_reply_moves:
  "channels_ok X W \<Longrightarrow> on_sync_reply X now magic reply p = Some (r, p') \<Longrightarrow> moves X W N K A h w rs p p'"
  by (auto simp: on_sync_reply_def split: option.split_asm if_split_asm intro: accept_sync_reply_moves)

text \<open>An input message: what it carries has arrived.\<close>

lemma report_inputs_moves:
  assumes ok: "channels_ok X W" and K: "(start, bits) \<in> K"
    and dec: "decode_frames (unpack_inputs X) start bits (pe_input_decoder p) = Some (Inr inputs, d)"
    and r: "report_inputs X now inputs (p\<lparr>pe_input_decoder := d\<rparr>) = Some (r, p')"
  shows "moves X W N K A h w rs p p'"
proof -
  let ?a = "peer_port W h w rs p"
  let ?b = "?a\<lparr>po_decoder := d, po_reported := (if po_shut ?a then po_reported ?a else po_reported ?a @ inputs)\<rparr>"
  have step: "port_step (pack_inputs X) (unpack_inputs X) N K A ?a ?b"
    by (rule port_step.received[OF K]) (use dec in \<open>simp add: peer_port_def\<close>)
  show ?thesis
  proof (cases "inputs = []")
    case True
    then have "p' = p\<lparr>pe_input_decoder := d\<rparr>" using r by (simp add: report_inputs_def)
    then have "peer_port W h w rs p' = ?b" using True by (cases ?a) simp
    then show ?thesis using step by (intro moves_step) simp
  next
    case False
    obtain re q where q: "push_event X (PeerInputs inputs) (p\<lparr>pe_input_decoder := d\<rparr>) = Some (re, q)"
      using r False by (auto simp: report_inputs_def and_then_Some)
    have "peer_port W h w rs q = ?b" using push_event_port[OF ok q, of h w rs] by simp
    then have one: "moves X W N K A h w rs p q" using step by (intro moves_step) simp
    show ?thesis
    proof (cases re)
      case (Inl err)
      then show ?thesis using r q False one by (simp add: report_inputs_def)
    next
      case (Inr u)
      let ?q = "q\<lparr>pe_stats := (pe_stats q)\<lparr>st_last_input_packet_recv_time := now\<rparr>\<rparr>"
      have "send X (InputAck (last_decoded_frame (pe_input_decoder q))) ?q = Some (r, p')"
        using r q False Inr by (simp add: report_inputs_def)
      then obtain out' where out': "out' \<subseteq> insert (InputAck (last_decoded_frame (pe_input_decoder q))) (po_out (peer_port W h w rs ?q))"
        "peer_port W h w rs p' = (peer_port W h w rs ?q)\<lparr>po_out := out'\<rparr>"
        by (rule send_port[OF ok])
      have "port_step (pack_inputs X) (unpack_inputs X) N K A (peer_port W h w rs q) ((peer_port W h w rs q)\<lparr>po_out := out'\<rparr>)"
        by (rule port_step.send_ack) (use out'(1) in \<open>simp add: peer_port_def\<close>)
      then have "moves X W N K A h w rs q p'" by (intro moves_step) (simp add: out'(2))
      then show ?thesis by (rule moves_trans[OF one])
    qed
  qed
qed

lemma acknowledge_moves:
  "f \<in> A \<Longrightarrow> moves X W N K A h w rs p (p\<lparr>pe_input_encoder := acknowledge_frame f (pe_input_encoder p)\<rparr>)"
  using port_step.acknowledged[of f A "pack_inputs X" "unpack_inputs X" N K "peer_port W h w rs p"]
  by (intro moves_step) (simp add: peer_port_def)

lemma decode_error_keeps:
  assumes "decode_frames unpack start bits d = Some (Inl err, d')"
  shows "d' = d"
proof -
  obtain res where "unpack bits = Some res" using assms by (auto simp: decode_frames_def bind_eq_Some_conv)
  with assms show ?thesis by (cases res) (auto simp: decode_frames_def bind_eq_Some_conv Let_def)
qed

lemma on_input_moves:
  assumes ok: "channels_ok X W" and K: "(in_start_frame msg, in_bits msg) \<in> K" and A: "in_ack_frame msg \<in> A"
    and r: "on_input X now msg p = Some (r, p')"
  shows "moves X W N K A h w rs p p'"
proof -
  obtain sts res d where d: "merge_statuses 0 (in_peer_connect_status msg) (pe_peer_connect_status p) = Some sts"
    "decode_frames (unpack_inputs X) (in_start_frame msg) (in_bits msg) (pe_input_decoder p) = Some (res, d)"
    using r by (auto simp: on_input_def decoder_decode_def bind_eq_Some_conv Let_def)
  let ?p = "p\<lparr>pe_peer_connect_status := sts\<rparr>"
  have sts: "moves X W N K A h w rs p ?p" by (rule moves_same) simp
  show ?thesis
  proof (cases res)
    case (Inl err)
    have "d = pe_input_decoder p" using decode_error_keeps d(2) Inl by blast
    then have "p' = ?p" using r d Inl by (simp add: on_input_def decoder_decode_def)
    then show ?thesis using sts by simp
  next
    case (Inr inputs)
    have "and_then (report_inputs X now inputs (?p\<lparr>pe_input_decoder := d\<rparr>)) (\<lambda>_ p. Some (Inr (), p\<lparr>pe_input_encoder :=
        acknowledge_frame (in_ack_frame msg) (pe_input_encoder p)\<rparr>)) = Some (r, p')"
      using r d Inr by (simp add: on_input_def decoder_decode_def)
    then obtain re q where q: "report_inputs X now inputs (?p\<lparr>pe_input_decoder := d\<rparr>) = Some (re, q)"
      "p' = q \<or> p' = q\<lparr>pe_input_encoder := acknowledge_frame (in_ack_frame msg) (pe_input_encoder q)\<rparr>"
      unfolding and_then_Some by auto
    have "moves X W N K A h w rs ?p q"
      by (rule report_inputs_moves[OF ok K _ q(1)]) (use d(2) Inr in simp)
    then show ?thesis using q(2) sts acknowledge_moves[OF A] moves_trans by metis
  qed
qed

lemma handle_message_moves:
  assumes ok: "channels_ok X W" and K: "carried_packets data \<subseteq> K" and A: "carried_acks data \<subseteq> A"
    and r: "handle_message X now magic data p = Some (r, p')"
  shows "moves X W N K A h w rs p p'"
proof (cases data)
  case (SyncRequest random)
  then show ?thesis using r on_sync_request_moves[OF ok] by simp
next
  case (SyncReply random)
  then show ?thesis using r on_sync_reply_moves[OF ok] by simp
next
  case (InputMsg msg)
  then show ?thesis using r K A on_input_moves[OF ok] by simp
next
  case (InputAck f)
  then show ?thesis using r A acknowledge_moves[of f A] by auto
next
  case (QualityReport adv ping)
  then show ?thesis
    using r send_plain_moves[OF ok, of "QualityReply ping" "p\<lparr>pe_stats := (pe_stats p)\<lparr>st_remote_frame_advantage := adv\<rparr>\<rparr>"]
    by (simp add: on_quality_report_def plain_def)
qed (use r in \<open>auto simp: bind_eq_Some_conv\<close>)

section \<open>The main task and the background tasks\<close>

lemma run_message_moves:
  assumes ok: "channels_ok X W" and K: "carried_packets (msg_data m) \<subseteq> K" and A: "carried_acks (msg_data m) \<subseteq> A"
    and r: "run_message X t1 t2 (Some m) recv p = Some (r, p')"
  shows "moves X W N K A h w rs p p'"
proof -
  obtain res q where q: "handle_message X t1 (msg_magic m) (msg_data m) p = Some (res, q)"
    using r by (auto simp: run_message_def bind_eq_Some_conv)
  have one: "moves X W N K A h w rs p q" by (rule handle_message_moves[OF ok K A q])
  have "moves X W N K A h w rs q p'"
  proof (cases res)
    case (Inl err)
    then show ?thesis using r q disconnect_moves[OF ok] by (cases err) (auto simp: run_message_def)
  next
    case (Inr u)
    let ?q = "q\<lparr>pe_state := snd (resume (pe_state q))\<rparr>"
    have "moves X W N K A h w rs q t" if "push_event X PeerNetworkResumed ?q = Some (re, t)" for re t
      using push_plain_moves[OF ok that] by simp
    then show ?thesis
      using r q Inr by (auto simp: run_message_def Let_def and_then_Some split: if_split_asm)
  qed
  then show ?thesis by (rule moves_trans[OF one])
qed

lemma notify_interrupted_moves:
  assumes ok: "channels_ok X W" and r: "notify_interrupted X now recv p = Some (r, p')"
  shows "moves X W N K A h w rs p p'"
proof -
  have "moves X W N K A h w rs p t"
    if "push_event X (PeerNetworkInterrupted left) (p\<lparr>pe_state := snd (interrupt (pe_state p))\<rparr>) = Some (re, t)" for left re t
    using push_plain_moves[OF ok that] by simp
  then show ?thesis using r by (auto simp: notify_interrupted_def bind_eq_Some_conv Let_def split: if_split_asm)
qed

lemma peer_poll_moves:
  "channels_ok X W \<Longrightarrow> peer_poll X now p = Some (r, p') \<Longrightarrow> moves X W N K A h w rs p p'"
  by (auto simp: peer_poll_def sync_retry_def bind_eq_Some_conv split: peer_state.split_asm option.split_asm
      if_split_asm intro: send_sync_request_moves)

lemma run_timer_moves:
  assumes ok: "channels_ok X W" and r: "run_timer X now polled recv p = Some (r, p')"
  shows "moves X W N K A h w rs p p'"
proof -
  obtain res q where q: "notify_interrupted X now recv p = Some (res, q)"
    using r by (auto simp: run_timer_def and_then_def bind_eq_Some_conv)
  have "moves X W N K A h w rs q p'"
    using r q disconnect_moves[OF ok] peer_poll_moves[OF ok]
    by (cases res) (auto simp: run_timer_def bind_eq_Some_conv and_then_Some split: if_split_asm)
  then show ?thesis by (rule moves_trans[OF notify_interrupted_moves[OF ok q]])
qed

lemma peer_routine_moves:
  assumes ok: "channels_ok X W" and act: "peer_routine X p p'"
  shows "moves X W N K A h w rs p p'"
  using act
proof cases
  case (heartbeat r)
  then show ?thesis
    using send_plain_moves[OF ok, of KeepAlive p] by (auto simp: heartbeat_step_def bind_eq_Some_conv plain_def)
next
  case (quality_report now r)
  then show ?thesis
    by (auto simp: send_quality_reports_step_def and_then_Some plain_def split: if_split_asm intro: send_plain_moves[OF ok])
next
  case (resend now statuses r)
  let ?p = "p\<lparr>pe_stats := (pe_stats p)\<lparr>st_last_input_packet_recv_time := now\<rparr>\<rparr>"
  have "p' = p \<or> (\<exists>r. send_pending_output X statuses ?p = Some (r, p'))"
    using resend by (auto simp: resend_inputs_step_def and_then_Some bind_eq_Some_conv split: if_split_asm)
  then show ?thesis using send_pending_output_moves[OF ok, of statuses ?p] by auto
next
  case (network_stats now start_time start_time')
  then show ?thesis by (auto simp: update_network_stats_step_def Let_def bind_eq_Some_conv split: if_split_asm)
next
  case (frame_number f)
  then show ?thesis by (auto simp: set_local_frame_number_def Let_def bind_eq_Some_conv)
next
  case (frame_delay d)
  then show ?thesis by (auto simp: recommend_frame_delay_def bind_eq_Some_conv intro: moves_same)
next
  case disconnect
  then show ?thesis using disconnect_moves[OF ok] by simp
qed

section \<open>Ends of a connection\<close>

text \<open>The two clones agree on what they share.\<close>

definition clones_agree :: "('i, 'e, 'o, 'm) endpoint \<Rightarrow> bool" where
  "clones_agree e \<longleftrightarrow> cn_task (ep_conn e) = shared_with (ep_peer e) (cn_task (ep_conn e))"

lemma peer_port_clone [simp]: "peer_port W h w rs (shared_with p q) = peer_port W h w rs p"
  by (simp add: shared_with_def)

lemma port_session_moved:
  "port W des (e\<lparr>ep_conn := session_moved p (ep_conn e)\<rparr>) =
     peer_port W (ep_pushed e) (wire_messages des (ep_wire e)) (cn_received (ep_conn e)) p"
  by (simp add: port_def session_moved_def)

lemma port_task_moved:
  "port W des (e\<lparr>ep_conn := task_moved p (ep_conn e)\<rparr>) =
     peer_port W (ep_pushed e) (wire_messages des (ep_wire e)) (cn_received (ep_conn e)) p"
  by (simp add: port_def task_moved_def)

lemma port_task:
  assumes "clones_agree e"
  shows "port W des e = peer_port W (ep_pushed e) (wire_messages des (ep_wire e)) (cn_received (ep_conn e)) (cn_task (ep_conn e))"
proof -
  have "peer_port W h w rs (cn_task (ep_conn e)) = peer_port W h w rs (ep_peer e)" for h w rs
    using assms peer_port_clone unfolding clones_agree_def by metis
  then show ?thesis by (simp add: port_def)
qed

lemma clones_agree_step:
  assumes "endpoint_step X ser des wire e e'" and "clones_agree e"
  shows "clones_agree e'"
  using assms(1)
proof cases
  case (task c)
  from task(2) show ?thesis unfolding task(1) by cases (simp_all add: clones_agree_def task_moved_def session_moved_def)
qed (simp_all add: clones_agree_def session_moved_def)

text \<open>What the messages in a set say.\<close>

definition all_packets :: "message_data set \<Rightarrow> (frame \<times> u8 list) set" where
  "all_packets ms = (\<Union>m \<in> ms. carried_packets m)"

definition all_acks :: "message_data set \<Rightarrow> frame set" where
  "all_acks ms = (\<Union>m \<in> ms. carried_acks m)"

abbreviation port_run ::
    "('i, 'e, 'o, 'm) crates \<Rightarrow> ('i, 'e, 'o, 'm) views \<Rightarrow> (u8 list \<Rightarrow> unit + message) \<Rightarrow> message_data set \<Rightarrow>
       ('i, 'e, 'o, 'm) endpoint \<Rightarrow> 'i port \<Rightarrow> bool" where
  "port_run X W des N e \<equiv> port_steps (pack_inputs X) (unpack_inputs X) N (all_packets (po_in (port W des e)))
     (all_acks (po_in (port W des e))) (port W des e)"

lemma send_input_run:
  assumes ok: "channels_ok X W" and run: "state_is_running (pe_state p)"
    and i: "fi_frame i = int (length h)" "in_i32 (fi_frame i + 1)" and r: "send_input X sts i p = Some (r, p')"
  shows "port_steps (pack_inputs X) (unpack_inputs X) N K A (peer_port W h w rs p) (peer_port W (h @ [fi_input i]) w rs p')"
proof -
  obtain ts where q: "send_pending_output X sts (p\<lparr>pe_timesync := ts, pe_input_encoder := encoder_push i (pe_input_encoder p)\<rparr>) =
      Some (r, p')"
    using r run by (auto simp: send_input_def bind_eq_Some_conv)
  let ?q = "p\<lparr>pe_timesync := ts, pe_input_encoder := encoder_push i (pe_input_encoder p)\<rparr>"
  have i': "i = \<lparr>fi_frame = int (length h), fi_input = fi_input i\<rparr>" using i(1) by simp
  have "port_step (pack_inputs X) (unpack_inputs X) N K A (peer_port W h w rs p) ((peer_port W h w rs p)
      \<lparr>po_pushed := po_pushed (peer_port W h w rs p) @ [fi_input i], po_encoder :=
        encoder_push \<lparr>fi_frame = int (length (po_pushed (peer_port W h w rs p))), fi_input = fi_input i\<rparr>
          (po_encoder (peer_port W h w rs p))\<rparr>)"
    by (rule port_step.push) (use i in \<open>simp add: peer_port_def\<close>)
  also have "(peer_port W h w rs p)
      \<lparr>po_pushed := po_pushed (peer_port W h w rs p) @ [fi_input i], po_encoder :=
        encoder_push \<lparr>fi_frame = int (length (po_pushed (peer_port W h w rs p))), fi_input = fi_input i\<rparr>
          (po_encoder (peer_port W h w rs p))\<rparr> = peer_port W (h @ [fi_input i]) w rs ?q"
    using i' by (simp add: peer_port_def)
  finally have "port_step (pack_inputs X) (unpack_inputs X) N K A (peer_port W h w rs p) (peer_port W (h @ [fi_input i]) w rs ?q)" .
  with send_pending_output_moves[OF ok q, of N K A "h @ [fi_input i]" w rs] show ?thesis
    unfolding moves_def by (rule converse_rtranclp_into_rtranclp[rotated])
qed

text \<open>The other steps of an end.\<close>

lemma late_input_moves:
  assumes ok: "channels_ok X W" and "\<not> state_is_running (pe_state p)" and "send_input X sts i p = Some (r, p')"
  shows "moves X W N K A h w rs p p'"
  using assms send_pending_output_moves[OF ok, of sts p r p'] by (simp add: send_input_def)

lemma out_taken:
  assumes ok: "channels_ok X W" and c: "chan_try_recv (cr_out X) (pe_message_out p) = (Inr data, c)"
  shows "data \<in> po_out (peer_port W h w rs p)" and "moves X W N K A h w rs p (p\<lparr>pe_message_out := c\<rparr>)"
proof -
  have "unbounded_channel (cr_out X) (vw_out W) (vw_out_shut W)" using ok by (simp add: channels_ok_def)
  from unbounded_channel.try_recv_Inr(1)[OF this c] have o: "vw_out W (pe_message_out p) = data # vw_out W c" .
  then show "data \<in> po_out (peer_port W h w rs p)" by (simp add: peer_port_def)
  show "moves X W N K A h w rs p (p\<lparr>pe_message_out := c\<rparr>)"
    by (rule moves_idle[OF _ le_refl _ _ refl, where shut = "po_shut (peer_port W h w rs p)"
        and out' = "set (vw_out W c)" and in' = "po_in (peer_port W h w rs p)"]) (use o in \<open>auto simp: peer_port_def\<close>)
qed

lemma in_taken:
  assumes ok: "channels_ok X W" and c: "chan_try_recv (cr_in X) (pe_message_in p) = (Inr m, c)"
  shows "msg_data m \<in> po_in (peer_port W h w rs p)" and "moves X W N K A h w rs p (p\<lparr>pe_message_in := c\<rparr>)"
proof -
  have "unbounded_channel (cr_in X) (vw_in W) (vw_in_shut W)" using ok by (simp add: channels_ok_def)
  from unbounded_channel.try_recv_Inr(1)[OF this c] have i: "vw_in W (pe_message_in p) = m # vw_in W c" .
  then show "msg_data m \<in> po_in (peer_port W h w rs p)" by (simp add: peer_port_def)
  show "moves X W N K A h w rs p (p\<lparr>pe_message_in := c\<rparr>)"
    by (rule moves_idle[OF _ le_refl _ _ refl, where shut = "po_shut (peer_port W h w rs p)"
        and out' = "po_out (peer_port W h w rs p)" and in' = "msg_data ` set (vw_in W c)"]) (use i in \<open>auto simp: peer_port_def\<close>)
qed

lemma serialize_port:
  assumes "serialize_outgoing_step ser delivered now magic data seq p = Some ((again, packet, seq'), p')"
  shows "peer_port W h w rs p' = peer_port W h w rs p"
    and "packet = Some bytes \<Longrightarrow> ser \<lparr>msg_magic = magic, msg_sequence_number = seq, msg_data = data\<rparr> = Inr bytes"
  using assms by (auto simp: serialize_outgoing_step_def bind_eq_Some_conv split: sum.split_asm if_split_asm)

lemma arrive_moves:
  assumes ok: "channels_ok X W" and m: "\<And>m. des bytes = Inr m \<Longrightarrow> msg_data m \<in> N"
    and r: "deserialize_incoming_step X des bytes seq p = Some (r, p')"
  shows "moves X W N K A h w rs p p'"
proof (cases "des bytes")
  case (Inl err)
  then show ?thesis using r by (simp add: deserialize_incoming_step_def)
next
  case (Inr m)
  show ?thesis
  proof (cases "passes_filter (pe_state p) seq m")
    case True
    have ch: "unbounded_channel (cr_in X) (vw_in W) (vw_in_shut W)" using ok by (simp add: channels_ok_def)
    show ?thesis
    proof (cases "vw_in_shut W (pe_message_in p)")
      case shut: True
      then show ?thesis
        using r Inr True unbounded_channel.try_send_shut[OF ch shut] by (simp add: deserialize_incoming_step_def)
    next
      case False
      then obtain c where c: "chan_try_send (cr_in X) m (pe_message_in p) = (Inr (), c)"
        "vw_in W c = vw_in W (pe_message_in p) @ [m]"
        by (rule unbounded_channel.try_send_open[OF ch])
      then have p': "peer_port W h w rs p' = (peer_port W h w rs p)\<lparr>po_in := insert (msg_data m) (po_in (peer_port W h w rs p))\<rparr>"
        using r Inr True by (auto simp: deserialize_incoming_step_def peer_port_def)
      show ?thesis
        unfolding moves_def p' by (rule r_into_rtranclp, rule port_step.arrive[where n = "{msg_data m}"]) (use m Inr in auto)
    qed
  next
    case False
    then show ?thesis using r Inr by (simp add: deserialize_incoming_step_def)
  qed
qed

text \<open>Every step of an end is a run of its port, with what its queue of messages carries.\<close>

lemma wire_messages_insert:
  assumes "des bytes = Inr m"
  shows "wire_messages des (insert bytes w) = insert (msg_data m) (wire_messages des w)"
  using assms by (auto simp: wire_messages_def)

lemma outgoing_run:
  assumes ok: "channels_ok X W" and law: "\<And>m bytes. ser m = Inr bytes \<Longrightarrow> des bytes = Inr m"
    and c: "chan_try_recv (cr_out X) (pe_message_out p) = (Inr data, c)"
    and r: "serialize_outgoing_step ser delivered now magic data seq (p\<lparr>pe_message_out := c\<rparr>) = Some ((again, packet, seq'), p')"
  shows "port_steps (pack_inputs X) (unpack_inputs X) N K A (peer_port W h (wire_messages des w) rs p)
    (peer_port W h (wire_messages des (set_option packet \<union> w)) rs p')"
proof -
  let ?port = "\<lambda>w. peer_port W h (wire_messages des w) rs"
  have taken: "moves X W N K A h (wire_messages des w') rs p p'" for w'
    using out_taken(2)[OF ok c, of N K A h "wire_messages des w'" rs]
      serialize_port(1)[OF r, of W h "wire_messages des w'" rs] by (simp add: moves_def)
  show ?thesis
  proof (cases packet)
    case None
    then show ?thesis using taken[of w] by (simp add: moves_def)
  next
    case (Some bytes)
    have "des bytes = Inr \<lparr>msg_magic = magic, msg_sequence_number = seq, msg_data = data\<rparr>"
      by (rule law[OF serialize_port(2)[OF r Some]])
    then have "wire_messages des (insert bytes w) = insert data (wire_messages des w)"
      by (simp add: wire_messages_insert)
    then have "?port (insert bytes w) p = (?port w p)\<lparr>po_wire := {data} \<union> po_wire (?port w p)\<rparr>"
      by (simp add: peer_port_def)
    moreover have "port_step (pack_inputs X) (unpack_inputs X) N K A (?port w p)
        ((?port w p)\<lparr>po_wire := {data} \<union> po_wire (?port w p)\<rparr>)"
      by (rule port_step.ship) (use out_taken(1)[OF ok c] in simp)
    ultimately have "port_step (pack_inputs X) (unpack_inputs X) N K A (?port w p) (?port (insert bytes w) p)" by simp
    then show ?thesis using taken[of "insert bytes w"] Some by (simp add: moves_def converse_rtranclp_into_rtranclp)
  qed
qed

lemma task_run:
  assumes ok: "channels_ok X W" and agree: "clones_agree e" and t: "conn_task X (ep_conn e) c"
  shows "port_run X W des N e (port W des (e\<lparr>ep_conn := c\<rparr>))"
proof -
  let ?K = "all_packets (po_in (port W des e))" and ?A = "all_acks (po_in (port W des e))"
  let ?moves = "moves X W N ?K ?A (ep_pushed e) (wire_messages des (ep_wire e)) (cn_received (ep_conn e))"
  have run: "port_run X W des N e (port W des (e\<lparr>ep_conn := task_moved p (ep_conn e)\<rparr>))"
    if "?moves (cn_task (ep_conn e)) p" for p
    using that unfolding moves_def port_task_moved port_task[OF agree, symmetric] .
  from t show ?thesis
  proof cases
    case (message m d t1 t2 recv r p)
    have "msg_data m \<in> po_in (port W des e)" unfolding port_task[OF agree] by (rule in_taken(1)[OF ok message(2)])
    then have "carried_packets (msg_data m) \<subseteq> ?K" "carried_acks (msg_data m) \<subseteq> ?A"
      by (auto simp: all_packets_def all_acks_def)
    from run_message_moves[OF ok this message(3)] show ?thesis
      unfolding message(1) by (intro run moves_trans[OF in_taken(2)[OF ok message(2)]])
  next
    case (timer t1 t2 recv r p)
    then show ?thesis using run run_timer_moves[OF ok] by blast
  next
    case (receive ev d)
    have ch: "unbounded_channel (cr_events X) (vw_events W) (vw_events_shut W)" using ok by (simp add: channels_ok_def)
    have "port W des (e\<lparr>ep_conn := c\<rparr>) = port W des e"
      using unbounded_channel.try_recv_Inr[OF ch receive(2)]
      by (simp add: receive(1) port_def session_moved_def peer_port_def)
    then show ?thesis by simp
  qed
qed

lemma endpoint_step_run:
  assumes ok: "channels_ok X W" and law: "\<And>m bytes. ser m = Inr bytes \<Longrightarrow> des bytes = Inr m"
    and agree: "clones_agree e" and stp: "endpoint_step X ser des wire e e'"
  shows "port_run X W des (wire_messages des wire) e (port W des e')"
  using stp
proof cases
  case (input i statuses r p)
  show ?thesis
    unfolding input(1) using send_input_run[OF ok input(2-5)] by (simp add: port_def session_moved_def)
next
  case (late_input statuses i r p)
  show ?thesis
    unfolding late_input(1) port_session_moved using late_input_moves[OF ok late_input(2,3)] by (simp add: port_def moves_def)
next
  case (outgoing data c delivered now magic seq again packet seq' p)
  show ?thesis
    unfolding outgoing(1) using outgoing_run[OF ok law outgoing(2,3)] by (simp add: port_def session_moved_def)
next
  case (incoming bytes seq r p)
  have "msg_data m \<in> wire_messages des wire" if "des bytes = Inr m" for m
    using that incoming(2) by (auto simp: wire_messages_def)
  from arrive_moves[OF ok this incoming(3)] show ?thesis
    unfolding incoming(1) port_session_moved by (simp add: port_def moves_def)
next
  case (routine p)
  show ?thesis
    unfolding routine(1) port_session_moved using peer_routine_moves[OF ok routine(2)] by (simp add: port_def moves_def)
next
  case (task c)
  then show ?thesis using task_run[OF ok agree] by simp
qed

section \<open>Both ends\<close>

lemma ports_simulated:
  assumes ok: "channels_ok X W" and law: "\<And>m bytes. ser m = Inr bytes \<Longrightarrow> des bytes = Inr m"
    and new: "unused_peer W p" "unused_peer W q" and reach: "peers_reachable X ser des p q a b"
  shows "clones_agree a \<and> clones_agree b \<and> (\<exists>s t. both_ways (port W des a) (port W des b) s t \<and>
    link_reachable (pack_inputs X) (unpack_inputs X) s \<and> link_reachable (pack_inputs X) (unpack_inputs X) t)"
  using reach
proof induction
  case start
  have "both_ways (port W des (endpoint_new p)) (port W des (endpoint_new q)) link_init link_init"
    using new by (auto simp: both_ways_defs port_def peer_port_def endpoint_new_def conn_new_def unused_peer_def
        link_init_def wire_messages_def)
  then show ?case using link_reachable.init
    by (auto simp: clones_agree_def endpoint_new_def conn_new_def shared_with_def)
next
  case (first a b a')
  then obtain s t where sim: "clones_agree a" "clones_agree b" "both_ways (port W des a) (port W des b) s t"
    "link_reachable (pack_inputs X) (unpack_inputs X) s" "link_reachable (pack_inputs X) (unpack_inputs X) t" by blast
  have "wire_messages des (ep_wire b) = po_wire (port W des b)" by (simp add: port_def peer_port_def)
  then have "\<forall>m \<in> po_in (port W des a) \<union> wire_messages des (ep_wire b). carried t s m"
    using sim(3) by (auto simp: both_ways_def one_way_def traffic_def)
  then have known: "all_packets (po_in (port W des a)) \<subseteq> lk_packets t" "all_acks (po_in (port W des a)) \<subseteq> lk_acks s"
    "\<forall>m \<in> wire_messages des (ep_wire b). carried t s m"
    by (auto simp: carried_def all_packets_def all_acks_def)
  from port_steps_simulated[OF endpoint_step_run[OF ok law sim(1) first.hyps(2)] sim(3-5) known]
  show ?case using sim(2) clones_agree_step[OF first.hyps(2) sim(1)] by blast
next
  case (second a b b')
  then obtain s t where sim: "clones_agree a" "clones_agree b" "both_ways (port W des b) (port W des a) t s"
    "link_reachable (pack_inputs X) (unpack_inputs X) s" "link_reachable (pack_inputs X) (unpack_inputs X) t"
    using both_ways_sym by blast
  have "wire_messages des (ep_wire a) = po_wire (port W des a)" by (simp add: port_def peer_port_def)
  then have "\<forall>m \<in> po_in (port W des b) \<union> wire_messages des (ep_wire a). carried s t m"
    using sim(3) by (auto simp: both_ways_def one_way_def traffic_def)
  then have known: "all_packets (po_in (port W des b)) \<subseteq> lk_packets s" "all_acks (po_in (port W des b)) \<subseteq> lk_acks t"
    "\<forall>m \<in> wire_messages des (ep_wire a). carried s t m"
    by (auto simp: carried_def all_packets_def all_acks_def)
  from port_steps_simulated[OF endpoint_step_run[OF ok law sim(2) second.hyps(2)] sim(3,5,4) known]
  show ?case using sim(1) clones_agree_step[OF second.hyps(2) sim(2)] both_ways_sym by blast
qed

text \<open>
  What the session at \<open>b\<close> has taken from its channel, and what waits there, are the inputs that the session
  at \<open>a\<close> sent, numbered by their frames; and every input message that waits at \<open>b\<close> can be decoded.
\<close>

definition delivers ::
    "('i, 'e, 'o, 'm) views \<Rightarrow> ('i, 'e, 'o, 'm) endpoint \<Rightarrow> ('i, 'e, 'o, 'm) endpoint \<Rightarrow> bool" where
  "delivers W a b \<longleftrightarrow> (\<exists>taken waiting later. ep_pushed a = taken @ waiting @ later \<and>
     event_inputs (cn_received (ep_conn b)) = numbered 0 taken \<and>
     event_inputs (vw_events W (pe_events (ep_peer b))) = numbered (int (length taken)) waiting)"

definition understands ::
    "('i, 'e, 'o, 'm) crates \<Rightarrow> ('i, 'e, 'o, 'm) views \<Rightarrow> ('i, 'e, 'o, 'm) endpoint \<Rightarrow> bool" where
  "understands X W b \<longleftrightarrow> (\<forall>m \<in> set (vw_in W (pe_message_in (ep_peer b))). \<forall>msg. msg_data m = InputMsg msg \<longrightarrow>
     (\<exists>inputs d. decoder_decode (cr_varint X) (cr_pod X) (in_start_frame msg) (in_bits msg)
        (pe_input_decoder (ep_peer b)) = Some (Inr inputs, d)))"

lemma one_way_delivers:
  assumes codec: "lossless (pack_inputs X) (unpack_inputs X) fits"
    and way: "one_way (port W des a) (port W des b) s t" and s: "link_reachable (pack_inputs X) (unpack_inputs X) s"
  shows "delivers W a b"
proof -
  let ?new = "vw_events W (pe_events (ep_peer b))"
  obtain n where "lk_delivered s = numbered 0 (take n (lk_history s))" using lossless.delivered_prefix[OF codec s] by blast
  moreover have "lk_history s = ep_pushed a" using way by (simp add: one_way_def port_def peer_port_def)
  ultimately have sent: "lk_delivered s = numbered 0 (take n (ep_pushed a))" by simp
  obtain lost where "lk_delivered s = (event_inputs (cn_received (ep_conn b)) @ event_inputs ?new) @ lost"
    using way by (auto simp: one_way_def reports_def port_def peer_port_def)
  with sent have "numbered 0 (take n (ep_pushed a)) = event_inputs (cn_received (ep_conn b)) @ event_inputs ?new @ lost" by simp
  from numbered_split[OF this] obtain taken rest where one: "take n (ep_pushed a) = taken @ rest"
    "event_inputs (cn_received (ep_conn b)) = numbered 0 taken" "event_inputs ?new @ lost = numbered (int (length taken)) rest"
    by auto
  obtain waiting beyond where two: "rest = waiting @ beyond" "event_inputs ?new = numbered (int (length taken)) waiting"
    using numbered_split[OF one(3)[symmetric]] by blast
  have "ep_pushed a = taken @ waiting @ beyond @ drop n (ep_pushed a)"
    using append_take_drop_id[of n "ep_pushed a"] unfolding one(1) two(1) by simp
  then show ?thesis using one(2) two(2) unfolding delivers_def by blast
qed

lemma one_way_understands:
  assumes codec: "lossless (pack_inputs X) (unpack_inputs X) fits"
    and way: "one_way (port W des a) (port W des b) s t" and s: "link_reachable (pack_inputs X) (unpack_inputs X) s"
  shows "understands X W b"
  unfolding understands_def
proof (intro ballI allI impI)
  fix m msg assume m: "m \<in> set (vw_in W (pe_message_in (ep_peer b)))" "msg_data m = InputMsg msg"
  then have "InputMsg msg \<in> po_in (port W des b)" by (force simp: port_def peer_port_def)
  then have "carried s t (InputMsg msg)" using way by (simp add: one_way_def traffic_def)
  then have "(in_start_frame msg, in_bits msg) \<in> lk_packets s" by (simp add: carried_def)
  from lossless.receive_enabled[OF codec s this] way
  show "\<exists>inputs d. decoder_decode (cr_varint X) (cr_pod X) (in_start_frame msg) (in_bits msg)
      (pe_input_decoder (ep_peer b)) = Some (Inr inputs, d)"
    by (simp add: decoder_decode_def one_way_def port_def peer_port_def)
qed

context packet_codec
begin

lemma codec_lossless: "lossless (compress V P base) (decompress V P base) (packet_fits P)"
  by unfold_locales

end

lemma peers_agree_on_inputs:
  assumes "packet_codec (cr_varint X) (cr_pod X)" and "channels_ok X W"
    and "\<And>m bytes. ser m = Inr bytes \<Longrightarrow> des bytes = Inr m"
    and "unused_peer W p" and "unused_peer W q" and "peers_reachable X ser des p q a b"
  shows "delivers W a b \<and> understands X W b \<and> delivers W b a \<and> understands X W a"
proof -
  have codec: "lossless (pack_inputs X) (unpack_inputs X) (packet_fits (cr_pod X))"
    by (rule packet_codec.codec_lossless[OF assms(1)])
  obtain s t where "one_way (port W des a) (port W des b) s t" "one_way (port W des b) (port W des a) t s"
    "link_reachable (pack_inputs X) (unpack_inputs X) s" "link_reachable (pack_inputs X) (unpack_inputs X) t"
    using ports_simulated[OF assms(2-6)] by (auto simp: both_ways_def)
  then show ?thesis using one_way_delivers[OF codec] one_way_understands[OF codec] by blast
qed

end
