(* ===== verification/Session_Run.thy ===== *)
theory Session_Run
  imports Session_Safety
begin

text \<open>
  Polling and advancing a session while everybody is connected: both end without a panic, the
  commands they make can be executed, and the client's state is then the one that the inputs received
  so far yield. Sessions with local and remote players only; the time between two calls may bring any
  change to the peers that their background tasks can make.
\<close>

section \<open>Confirming frames\<close>

lemma discard_keeps:
  "discard_confirmed_frames f q = Some q' \<Longrightarrow>
     iq_last_user_added_frame q' = iq_last_user_added_frame q \<and> iq_frame_delay q' = iq_frame_delay q \<and>
     iq_first_incorrect_frame q' = iq_first_incorrect_frame q"
  by (auto simp: discard_confirmed_frames_def Let_def bind_eq_Some_conv split: if_split_asm)

lemma set_last_confirmed_keeps:
  assumes "set_last_confirmed_frame c sy = Some sy'"
  obtains qs where "sy' = sy\<lparr>sy_last_confirmed_frame := c, sy_input_queues := qs\<rparr>"
    and "length qs = length (sy_input_queues sy)"
    and "\<And>p. p < length qs \<Longrightarrow>
      iq_last_user_added_frame (qs ! p) = iq_last_user_added_frame (sy_input_queues sy ! p) \<and>
      iq_frame_delay (qs ! p) = iq_frame_delay (sy_input_queues sy ! p) \<and>
      iq_first_incorrect_frame (qs ! p) = iq_first_incorrect_frame (sy_input_queues sy ! p)"
proof (cases "c > 0")
  case True
  then obtain qs where "traverse (discard_confirmed_frames (c - 1)) (sy_input_queues sy) = Some qs"
    "sy' = sy\<lparr>sy_last_confirmed_frame := c, sy_input_queues := qs\<rparr>"
    using assms by (auto simp: set_last_confirmed_frame_def Let_def bind_eq_Some_conv)
  then show ?thesis using discard_keeps by (intro that[of qs]) (auto simp: traverse_Some)
next
  case False
  then show ?thesis
    using assms by (intro that[of "sy_input_queues sy"]) (auto simp: set_last_confirmed_frame_def Let_def)
qed

text \<open>Which players are local, and sessions with players at both ends.\<close>

definition roles :: "('i, 'e, 'o, 'm) session \<Rightarrow> bool list" where
  "roles s = map is_local (se_players s)"

definition mixed :: "('i, 'e, 'o, 'm) session \<Rightarrow> bool" where
  "mixed s \<longleftrightarrow> True \<in> set (roles s) \<and> False \<in> set (roles s)"

lemma is_local_simps [simp]: "is_local Local" "\<not> is_local (Remote p)"
  by (simp_all add: is_local_def)

lemma is_local_iff: "is_local a \<longleftrightarrow> a = Local"
  by (cases a) simp_all

lemma roles_sync [simp]: "roles (s\<lparr>se_sync := sy\<rparr>) = roles s"
  by (simp add: roles_def)

lemma mixed_local:
  assumes "mixed s"
  obtains l where "l < length (se_players s)" and "se_players s ! l = Local"
  using assms by (auto simp: mixed_def roles_def is_local_iff in_set_conv_nth)

lemma same_role_local: "same_role a b \<Longrightarrow> is_local b = is_local a"
  by (auto simp: same_role_def)

lemma same_player_local: "same_player a b \<Longrightarrow> is_local b = is_local a"
  by (cases a; cases b) simp_all

lemma same_roles:
  assumes "length (se_players s') = length (se_players s)"
    and "\<And>i. i < length (se_players s) \<Longrightarrow> is_local (se_players s' ! i) = is_local (se_players s ! i)"
  shows "roles s' = roles s"
  unfolding roles_def using assms by (intro nth_equalityI) simp_all

lemma confirmed_frame_ok:
  assumes rep: "session_rep X W G cs w s" and mix: "mixed s"
  obtains c where "confirmed_frame X f (cs, s, st) = Some (c, (cs, s, st))"
    and "\<forall>i < sy_player_count (se_sync s). c \<le> cs_last_frame (se_local_connect_status s ! i)"
    and "c < 0 \<or> sy_last_confirmed_frame (se_sync s) \<le> c"
proof -
  let ?n = "sy_player_count (se_sync s)"
  let ?least = "least_received s [0 ..< ?n] i32_MAX"
  have n: "length (se_players s) = ?n" using rep by (simp add: session_rep_def)
  have idx: "\<forall>i \<in> set [0 ..< ?n]. i < ?n" by simp
  have two: "poll_2_players X (cs, s, st) = Some (?least, (cs, s, st))"
    unfolding poll_2_players_def fst_conv snd_conv n by (rule poll_2_loop_rep[OF rep]) simp
  obtain c where c: "poll_n_players X (cs, s, st) = Some (c, (cs, s, st))" "c \<le> ?least" "c = ?least \<or> c < 0"
    unfolding poll_n_players_def fst_conv snd_conv n using poll_n_loop_rep[OF rep idx] by blast
  have "\<exists>player \<in> set (se_players s). \<not> is_local player"
    using mix by (auto simp: mixed_def roles_def)
  then have some: "filter (\<lambda>player. \<not> is_local player) (se_players s) \<noteq> []"
    by (auto simp: filter_empty_conv)
  have low: "?least \<le> cs_last_frame (se_local_connect_status s ! i)" if "i < ?n" for i
    using that by (intro least_received_le) simp
  have "sy_last_confirmed_frame (se_sync s) \<le> cs_last_frame (se_local_connect_status s ! i)" if "i < ?n" for i
  proof -
    have "player_rep W w s i" using rep that by (simp add: session_rep_def)
    then show ?thesis by (simp add: player_rep_def Let_def)
  qed
  moreover obtain j where "j < ?n"
    using mixed_local[OF mix] n by metis
  ultimately have high: "sy_last_confirmed_frame (se_sync s) \<le> ?least"
    using received_below[OF rep] by (intro least_received_ge) (fastforce dest: order.trans)+
  show ?thesis
  proof (cases "length (remote_peers s) \<le> 2")
    case True
    then show ?thesis
      using two some low high by (intro that[of ?least]) (simp_all add: confirmed_frame_def)
  next
    case False
    have "c \<le> cs_last_frame (se_local_connect_status s ! i)" if "i < ?n" for i
      using c(2) low[OF that] by simp
    then show ?thesis
      using False c some high by (intro that[of c]) (auto simp: confirmed_frame_def)
  qed
qed

text \<open>What the two ways of computing the confirmed frame give.\<close>

lemma least_received_Min:
  assumes rep: "session_rep X W G cs w s" and n: "0 < sy_player_count (se_sync s)"
  shows "least_received s [0 ..< sy_player_count (se_sync s)] i32_MAX = Min (cs_last_frame ` set (se_local_connect_status s))"
proof (rule Min_eqI[symmetric], goal_cases)
  let ?n = "sy_player_count (se_sync s)" and ?l = "\<lambda>i. cs_last_frame (se_local_connect_status s ! i)"
  have len: "length (se_local_connect_status s) = ?n"
    using rep by (simp add: session_rep_def all_connected_def)
  {
    case 1
    then show ?case by simp
  next
    case (2 y)
    then obtain i where "i < ?n" "y = ?l i" using len by (auto simp: in_set_conv_nth)
    then show ?case using least_received_le(2)[of i "[0 ..< ?n]" s i32_MAX] by simp
  next
    case 3
    have below: "?l i < i32_MAX" if "i < ?n" for i using received_below[OF rep that] .
    have attained: "\<exists>i \<in> set is. least_received s is i32_MAX = ?l i" if ne: "is \<noteq> []" and idx: "\<forall>i \<in> set is. i < ?n" for "is"
    proof -
      have ex: "least_received s js m = m \<or> (\<exists>i \<in> set js. least_received s js m = ?l i)" for js m
      proof (induction js arbitrary: m)
        case (Cons j js)
        then show ?case
          by (auto simp: least_received_def min_def)
      qed (simp add: least_received_def)
      obtain j js where "is": "is = j # js" using ne by (cases "is") auto
      then have "least_received s is i32_MAX \<le> ?l j" by (intro least_received_le(2)) simp
      then show ?thesis using ex[of "is" i32_MAX] below[of j] idx "is" by auto
    qed
    obtain i where "i < ?n" "least_received s [0 ..< ?n] i32_MAX = ?l i"
      using attained[of "[0 ..< ?n]"] n by auto
    then show ?case using len by simp
  }
qed

lemma confirm_run_ok:
  assumes rep: "session_rep X W G cs w s" and mix: "mixed s"
    and none: "check_simulation_consistency (se_sync s) = None"
    and all: "\<forall>i < sy_player_count (se_sync s). c \<le> cs_last_frame (se_local_connect_status s ! i)"
    and low: "c < 0 \<or> sy_last_confirmed_frame (se_sync s) \<le> c"
  obtains s' sy where "confirm_run c (cs, s, st) = Some (cs, s', st)" and "s' = s\<lparr>se_sync := sy\<rparr>"
    and "session_rep X W G cs (w\<lparr>wo_sync := sy\<rparr>) s'"
    and "check_simulation_consistency sy = None"
    and "sy_frame_count sy = sy_frame_count (se_sync s)" and "sy_player_count sy = sy_player_count (se_sync s)"
proof (cases "c < 0")
  case True
  have sync: "wo_sync w = se_sync s" using rep by (simp add: session_rep_def)
  have "w\<lparr>wo_sync := se_sync s\<rparr> = w" unfolding sync[symmetric] by simp
  then show ?thesis using True rep none by (intro that[of "s" "se_sync s"]) simp_all
next
  case False
  note c = all[rule_format] low
  have sync: "wo_sync w = se_sync s" and pend: "pending G cs w"
    and players: "\<And>i. i < sy_player_count (se_sync s) \<Longrightarrow> player_rep W w s i"
    and n: "length (se_players s) = sy_player_count (se_sync s)"
    using rep by (simp_all add: session_rep_def)
  obtain l where l: "l < sy_player_count (se_sync s)" "se_players s ! l = Local"
    using mixed_local[OF mix] n by metis
  have fc: "c \<le> sy_frame_count (wo_sync w)"
    unfolding sync using c(1)[OF l(1)] players[OF l(1)] l(2) by (simp add: player_rep_def Let_def)
  have len: "c \<le> int (length (wo_inputs w p))" if "p < sy_player_count (wo_sync w)" for p
    using that[unfolded sync] c(1)[OF that[unfolded sync]] players[OF that[unfolded sync]] by (simp add: player_rep_def Let_def)
  obtain sy where sy: "set_last_confirmed_frame c (wo_sync w) = Some sy" "pending G cs (w\<lparr>wo_sync := sy\<rparr>)"
    by (rule confirm_ok[OF pend _ _ _ _ fc len]) (use none c(2) False fc sync in auto)
  obtain qs where qs: "sy = (se_sync s)\<lparr>sy_last_confirmed_frame := c, sy_input_queues := qs\<rparr>"
    "length qs = length (sy_input_queues (se_sync s))"
    "\<And>p. p < length qs \<Longrightarrow>
      iq_last_user_added_frame (qs ! p) = iq_last_user_added_frame (sy_input_queues (se_sync s) ! p) \<and>
      iq_frame_delay (qs ! p) = iq_frame_delay (sy_input_queues (se_sync s) ! p) \<and>
      iq_first_incorrect_frame (qs ! p) = iq_first_incorrect_frame (sy_input_queues (se_sync s) ! p)"
    using set_last_confirmed_keeps sy(1) sync by metis
  have lenq: "length (sy_input_queues (se_sync s)) = sy_player_count (se_sync s)"
    using pend sync by (auto simp: pending_def world_rep_def Let_def)
  have "player_rep W (w\<lparr>wo_sync := sy\<rparr>) (s\<lparr>se_sync := sy\<rparr>) i" if "i < sy_player_count (se_sync s)" for i
    using players[OF that] qs(3)[of i] c(1)[OF that] that qs(1,2) lenq by (auto simp: player_rep_def Let_def)
  then have "session_rep X W G cs (w\<lparr>wo_sync := sy\<rparr>) (s\<lparr>se_sync := sy\<rparr>)"
    using rep sy(2) qs(1) by (simp add: session_rep_def)
  moreover have "check_simulation_consistency sy = None"
    using none qs by (simp add: check_simulation_consistency_None)
  moreover have "c \<noteq> i32_MAX"
    using c(1)[OF l(1)] received_below[OF rep l(1)] by simp
  then have "confirm_run c (cs, s, st) = Some (cs, s\<lparr>se_sync := sy\<rparr>, st)"
    using False sy(1) sync by simp
  ultimately show ?thesis using qs(1) by (intro that[of "s\<lparr>se_sync := sy\<rparr>" sy]) simp_all
qed

section \<open>Checking and simulating\<close>

lemma simulated_rep:
  assumes rep: "session_rep X W G cs w s"
    and pend: "pending G cs' (w\<lparr>wo_sync := sy, wo_store := store\<rparr>)"
    and same: "sy_player_count sy = sy_player_count (se_sync s)"
      "sy_last_confirmed_frame sy = sy_last_confirmed_frame (se_sync s)"
      "\<not> sy_rolling_back sy"
      "\<And>p. p < sy_player_count (se_sync s) \<Longrightarrow> same_inputs (sy_input_queues (se_sync s) ! p) (sy_input_queues sy ! p)"
    and f: "sy_frame_count (se_sync s) \<le> sy_frame_count sy" "se_synchronizing s \<longrightarrow> sy_frame_count sy = 0"
  shows "session_rep X W G cs' (w\<lparr>wo_sync := sy, wo_store := store\<rparr>) (s\<lparr>se_sync := sy\<rparr>)"
proof -
  have "player_rep W (w\<lparr>wo_sync := sy, wo_store := store\<rparr>) (s\<lparr>se_sync := sy\<rparr>) i" if i: "i < sy_player_count (se_sync s)" for i
  proof -
    have "player_rep W w s i" using rep i by (simp add: session_rep_def)
    then show ?thesis using same(1,2) same(4)[OF i] f(1) by (auto simp: player_rep_def Let_def same_inputs_def)
  qed
  then show ?thesis using rep pend same f(2) by (simp add: session_rep_def)
qed

lemma check_session_ok:
  assumes rep: "session_rep X W G cs w s" and ld: "loads cs = {}"
  obtains cs' sy store where
    "with_sync (check_simulation (pod_zeroed (cr_pod X)) (se_local_connect_status s)) (cs, s, wo_store w)
      = Some (cs @ cs', s\<lparr>se_sync := sy\<rparr>, store)"
    and "session_rep X W G (cs @ cs') (w\<lparr>wo_sync := sy, wo_store := store\<rparr>) (s\<lparr>se_sync := sy\<rparr>)"
    and "check_simulation_consistency sy = None"
    and "sy_frame_count sy = sy_frame_count (se_sync s)" and "sy_player_count sy = sy_player_count (se_sync s)"
proof -
  have sync: "wo_sync w = se_sync s" and pend: "pending G cs w" and z: "gm_zero G = pod_zeroed (cr_pod X)"
    and conn: "all_connected (sy_player_count (se_sync s)) (se_local_connect_status s)"
    and roll: "\<not> sy_rolling_back (se_sync s)" and zero: "se_synchronizing s \<longrightarrow> sy_frame_count (se_sync s) = 0"
    using rep by (simp_all add: session_rep_def)
  obtain cs' sy store where made:
    "check_simulation (gm_zero G) (statuses_of (sy_player_count (wo_sync w))) (cs, wo_sync w, wo_store w)
      = Some (cs @ cs', sy, store)"
    "pending G (cs @ cs') (w\<lparr>wo_sync := sy, wo_store := store\<rparr>)" "check_simulation_consistency sy = None"
    "sy_frame_count sy = sy_frame_count (wo_sync w)" "sy_player_count sy = sy_player_count (wo_sync w)"
    "sy_last_confirmed_frame sy = sy_last_confirmed_frame (wo_sync w)"
    "sy_rolling_back sy \<Longrightarrow> sy_rolling_back (wo_sync w)"
    "\<And>p. p < sy_player_count (wo_sync w) \<Longrightarrow> same_inputs (sy_input_queues (wo_sync w) ! p) (sy_input_queues sy ! p)"
    by (rule check_made[OF pend ld]) blast
  have "session_rep X W G (cs @ cs') (w\<lparr>wo_sync := sy, wo_store := store\<rparr>) (s\<lparr>se_sync := sy\<rparr>)"
    by (rule simulated_rep[OF rep made(2)]) (use made(4-8) sync roll zero in auto)
  moreover have "check_simulation (pod_zeroed (cr_pod X)) (se_local_connect_status s) (cs, se_sync s, wo_store w) =
      Some (cs @ cs', sy, store)"
    using made(1) sync z by (simp add: check_simulation_connected[OF conn])
  ultimately show ?thesis
    using made(3-5) sync by (intro that[of cs' sy store]) simp_all
qed

lemma notify_time_sync_ok:
  assumes rep: "session_rep X W G cs w s" and calm: "players_calm f s"
    and f: "0 \<le> f" "f + RECOMMENDATION_INTERVAL < i32_MAX"
  obtains es s' where "notify_time_sync f (cs, s, st) = Some (cs @ es, s', st)"
    and "session_rep X W G (cs @ es) w s'" and "se_sync s' = se_sync s" and "roles s' = roles s"
proof (cases "f > se_next_recommended_sleep s")
  case False
  then show ?thesis using rep by (intro that[of "[]" s]) (simp_all add: notify_time_sync.simps)
next
  case True
  have "recommend_frame_delay p \<noteq> None" if "i < length (se_players s)" "se_players s ! i = Remote p" for i p
    using calm that by (auto simp: players_calm_def peer_calm_iff)
  then obtain ds players where r: "recommend_all (se_players s) = Some (ds, players)"
    "length players = length (se_players s)"
    "\<And>i. i < length (se_players s) \<Longrightarrow> same_role (se_players s ! i) (players ! i)"
    by (rule recommend_all_total) blast+
  note rep' = same_role_rep[OF rep r(2,3)]
  have "is_local (players ! i) = is_local (se_players s ! i)" if "i < length (se_players s)" for i
    using same_role_local[OF r(3)[OF that]] .
  then have roles: "map is_local players = roles s"
    using r(2) by (simp add: roles_def list_eq_iff_nth_eq)
  show ?thesis
  proof (cases ds)
    case Nil
    then show ?thesis
      using True r(1) rep' roles
      by (intro that[of "[]" "s\<lparr>se_players := players\<rparr>"]) (simp_all add: notify_time_sync.simps roles_def)
  next
    case (Cons d ds')
    let ?e = "TimeSync (word_of_int (foldl max d ds'))"
    let ?s = "s\<lparr>se_players := players, se_next_recommended_sleep := f + RECOMMENDATION_INTERVAL\<rparr>"
    have "in_i32 (f + RECOMMENDATION_INTERVAL)"
      using f by (simp add: in_i32_def i32_MAX_def RECOMMENDATION_INTERVAL_def)
    then have "notify_time_sync f (cs, s, st) = Some (cs @ [Event ?e], ?s, st)"
      using True r(1) Cons by (simp add: notify_time_sync.simps)
    moreover have "session_rep X W G (cs @ [Event ?e]) w ?s"
      using session_rep_event[OF rep', of ?e] by (simp add: session_rep_def player_rep_def)
    moreover have "roles ?s = roles s" using roles by (simp add: roles_def)
    ultimately show ?thesis by (intro that[of "[Event ?e]" ?s]) simp_all
  qed
qed

section \<open>Polling\<close>

lemma poll_running_ok:
  assumes rep: "session_rep X W G cs w s" and ld: "loads cs = {}" and mix: "mixed s"
    and calm: "players_calm (sy_frame_count (se_sync s)) s"
    and f: "sy_frame_count (se_sync s) + RECOMMENDATION_INTERVAL < i32_MAX"
  obtains ces s' w' where "poll_running X (cs, s, wo_store w) = Some (cs @ ces, s', wo_store w')"
    and "session_rep X W G (cs @ ces) w' s'" and "check_simulation_consistency (se_sync s') = None"
    and "wo_inputs w' = wo_inputs w" and "wo_state w' = wo_state w"
    and "sy_frame_count (se_sync s') = sy_frame_count (se_sync s)"
    and "sy_player_count (se_sync s') = sy_player_count (se_sync s)" and "roles s' = roles s"
proof -
  let ?f = "sy_frame_count (se_sync s)"
  obtain cs1 sy1 store where c1:
    "with_sync (check_simulation (pod_zeroed (cr_pod X)) (se_local_connect_status s)) (cs, s, wo_store w)
      = Some (cs @ cs1, s\<lparr>se_sync := sy1\<rparr>, store)"
    "session_rep X W G (cs @ cs1) (w\<lparr>wo_sync := sy1, wo_store := store\<rparr>) (s\<lparr>se_sync := sy1\<rparr>)"
    "check_simulation_consistency sy1 = None" "sy_frame_count sy1 = ?f"
    "sy_player_count sy1 = sy_player_count (se_sync s)"
    by (rule check_session_ok[OF rep ld])
  let ?s1 = "s\<lparr>se_sync := sy1\<rparr>" and ?w1 = "w\<lparr>wo_sync := sy1, wo_store := store\<rparr>"
  have "players_calm ?f ?s1" using calm by (simp add: players_calm_def)
  then obtain players where p: "traverse (player_set_local_frame_number ?f) (se_players ?s1) = Some players"
    "length players = length (se_players ?s1)"
    "\<And>i. i < length (se_players ?s1) \<Longrightarrow> same_role (se_players ?s1 ! i) (players ! i)"
    "players_calm ?f (?s1\<lparr>se_players := players\<rparr>)"
    by (rule set_frame_numbers) blast
  let ?s2 = "?s1\<lparr>se_players := players\<rparr>"
  note rep2 = same_role_rep[OF c1(2) p(2,3)]
  have roles2: "roles ?s2 = roles s"
    by (rule same_roles) (use p(2,3) same_role_local in auto)
  then have mix2: "mixed ?s2" using mix by (simp add: mixed_def)
  obtain c where c: "confirmed_frame X ?f (cs @ cs1, ?s2, store) = Some (c, (cs @ cs1, ?s2, store))"
    "\<forall>i < sy_player_count (se_sync ?s2). c \<le> cs_last_frame (se_local_connect_status ?s2 ! i)"
    "c < 0 \<or> sy_last_confirmed_frame (se_sync ?s2) \<le> c"
    by (rule confirmed_frame_ok[OF rep2 mix2])
  have none2: "check_simulation_consistency (se_sync ?s2) = None" using c1(3) by simp
  obtain s3 sy3 where s3: "confirm_run c (cs @ cs1, ?s2, store) = Some (cs @ cs1, s3, store)"
    "s3 = ?s2\<lparr>se_sync := sy3\<rparr>"
    "session_rep X W G (cs @ cs1) (?w1\<lparr>wo_sync := sy3\<rparr>) s3" "check_simulation_consistency sy3 = None"
    "sy_frame_count sy3 = sy_frame_count (se_sync ?s2)" "sy_player_count sy3 = sy_player_count (se_sync ?s2)"
    by (rule confirm_run_ok[OF rep2 mix2 none2 c(2,3)])
  have calm3: "players_calm ?f s3" using p(4) s3(2) by (simp add: players_calm_def)
  have "0 \<le> ?f"
    using rep by (auto simp: session_rep_def pending_def world_rep_def Let_def)
  then obtain es s4 where s4: "notify_time_sync ?f (cs @ cs1, s3, store) = Some ((cs @ cs1) @ es, s4, store)"
    "session_rep X W G ((cs @ cs1) @ es) (?w1\<lparr>wo_sync := sy3\<rparr>) s4" "se_sync s4 = se_sync s3" "roles s4 = roles s3"
    using notify_time_sync_ok[OF s3(3) calm3 _ f] by blast
  have roles4: "roles s4 = roles s"
    using s4(4) s3(2) roles2 by (simp add: roles_def)
  have "poll_running X (cs, s, wo_store w) = Some (cs @ cs1 @ es, s4, store)"
    unfolding poll_running_def using c1(1,4) p(1) c(1) s3(1) s4(1) by (simp del: with_sync.simps confirm_run.simps)
  then show ?thesis
    using s4(2,3) s3(2,4-6) c1(4,5) roles4
    by (intro that[of "cs1 @ es" s4 "?w1\<lparr>wo_sync := sy3\<rparr>"]) simp_all
qed

text \<open>No frame was simulated while the handshake lasts, so there is no wrong prediction.\<close>

lemma synchronizing_consistent:
  assumes "session_rep X W G cs w s" and "sy_frame_count (se_sync s) = 0"
  shows "check_simulation_consistency (se_sync s) = None"
proof (rule ccontr)
  assume "check_simulation_consistency (se_sync s) \<noteq> None"
  then obtain k where k: "check_simulation_consistency (wo_sync w) = Some k"
    using assms(1) by (auto simp: session_rep_def)
  obtain used d fc where rep: "world_rep G used d fc cs w"
    using assms(1) by (auto simp: session_rep_def pending_def)
  then have "fc = 0" using assms by (simp add: session_rep_def world_rep_def Let_def)
  then show False by (rule_tac incorrect_in_window[OF rep k]) simp
qed

lemma do_poll_ok:
  assumes ok: "channels_ok X W" and rep: "session_rep X W G cs w s" and ld: "loads cs = {}" and mix: "mixed s"
    and calm: "players_calm (sy_frame_count (se_sync s)) s"
    and f: "sy_frame_count (se_sync s) + RECOMMENDATION_INTERVAL < i32_MAX"
    and arr: "\<forall>i < sy_player_count (se_sync s). arriving W G w s h i"
  obtains ces s' w' where "do_poll X (cs, s, wo_store w) = Some (cs @ ces, s', wo_store w')"
    and "session_rep X W G (cs @ ces) w' s'" and "check_simulation_consistency (se_sync s') = None"
    and "\<forall>i < sy_player_count (se_sync s). wo_inputs w' i = h i" and "wo_state w' = wo_state w"
    and "sy_frame_count (se_sync s') = sy_frame_count (se_sync s)"
    and "sy_player_count (se_sync s') = sy_player_count (se_sync s)" and "roles s' = roles s"
proof -
  have roll: "\<not> sy_rolling_back (se_sync s)" and n: "length (se_players s) = sy_player_count (se_sync s)"
    using rep by (simp_all add: session_rep_def)
  have "\<exists>ces s' w'. flush_from X 0 (se_players s) (cs, s, wo_store w) = Some (cs @ ces, s', wo_store w) \<and> only_events ces \<and>
      session_rep X W G (cs @ ces) w' s' \<and>
      wo_store w' = wo_store w \<and> wo_state w' = wo_state w \<and>
      (\<forall>j < sy_player_count (se_sync s). wo_inputs w' j = h j \<and> same_player (se_players s ! j) (se_players s' ! j)) \<and>
      (\<exists>qs. se_sync s' = (se_sync s)\<lparr>sy_input_queues := qs\<rparr>) \<and>
      (se_synchronizing s' \<longrightarrow> se_synchronizing s) \<and>
      se_next_recommended_sleep s' = se_next_recommended_sleep s"
    by (rule flush_from_ok[OF ok rep]) (use n arr in auto)
  then obtain ces s1 w1 where fl: "flush_from X 0 (se_players s) (cs, s, wo_store w) = Some (cs @ ces, s1, wo_store w)"
      "only_events ces" "session_rep X W G (cs @ ces) w1 s1"
      "wo_store w1 = wo_store w" "wo_state w1 = wo_state w"
      "\<forall>j < sy_player_count (se_sync s). wo_inputs w1 j = h j \<and> same_player (se_players s ! j) (se_players s1 ! j)"
      "\<exists>qs. se_sync s1 = (se_sync s)\<lparr>sy_input_queues := qs\<rparr>"
    by blast
  have same: "sy_frame_count (se_sync s1) = sy_frame_count (se_sync s)"
    "sy_player_count (se_sync s1) = sy_player_count (se_sync s)"
    using fl(7) by auto
  have n1: "length (se_players s1) = length (se_players s)"
    using fl(3) same n by (simp add: session_rep_def)
  have sp: "same_player (se_players s ! i) (se_players s1 ! i)" if "i < length (se_players s)" for i
    using fl(6) that n by simp
  have flush: "flush_events X (cs, s, wo_store w) = Some (cs @ ces, s1, wo_store w1)"
    using fl(1,4) by (simp add: flush_events_def)
  have roles1: "roles s1 = roles s"
    by (rule same_roles[OF n1]) (use sp same_player_local in blast)
  show ?thesis
  proof (cases "se_synchronizing s1")
    case True
    then have "sy_frame_count (se_sync s1) = 0" using fl(3) by (simp add: session_rep_def)
    then show ?thesis
      using True roll flush fl(3,5,6) same roles1 synchronizing_consistent[OF fl(3)]
      by (intro that[of ces s1 w1]) (simp_all add: do_poll_def)
  next
    case False
    have calm1: "players_calm (sy_frame_count (se_sync s1)) s1"
      unfolding same by (rule players_calm_same[OF calm n1 sp])
    have mix1: "mixed s1" using mix roles1 by (simp add: mixed_def)
    have ld1: "loads (cs @ ces) = {}" using ld only_events_loads[OF fl(2)] by (simp add: loads_def)
    have f1: "sy_frame_count (se_sync s1) + RECOMMENDATION_INTERVAL < i32_MAX" using f same by simp
    obtain ces2 s2 w2 where p: "poll_running X (cs @ ces, s1, wo_store w1) = Some ((cs @ ces) @ ces2, s2, wo_store w2)"
      "session_rep X W G ((cs @ ces) @ ces2) w2 s2" "check_simulation_consistency (se_sync s2) = None"
      "wo_inputs w2 = wo_inputs w1" "wo_state w2 = wo_state w1"
      "sy_frame_count (se_sync s2) = sy_frame_count (se_sync s1)"
      "sy_player_count (se_sync s2) = sy_player_count (se_sync s1)" "roles s2 = roles s1"
      by (rule poll_running_ok[OF fl(3) ld1 mix1 calm1 f1])
    then show ?thesis
      using False roll flush fl(5,6) same roles1 by (intro that[of "ces @ ces2" s2 w2]) (simp_all add: do_poll_def)
  qed
qed

section \<open>The calls of the client\<close>

text \<open>The client executes the commands a call made.\<close>

lemma executed_rep:
  assumes "session_rep X W G cs w s"
  obtains g store' where "execute_all (gm_step G) (gm_hash G) cs (wo_state w, wo_store w) = Some (g, store')"
    and "session_rep X W G [] (w\<lparr>wo_store := store', wo_state := g\<rparr>) s"
proof -
  have pend: "pending G cs w" using assms by (simp add: session_rep_def)
  obtain g store' where g: "execute_all (gm_step G) (gm_hash G) cs (wo_state w, wo_store w) = Some (g, store')"
    "world_inv G (w\<lparr>wo_store := store', wo_state := g\<rparr>)"
    by (rule execute_pending[OF pend])
  then have "session_rep X W G [] (w\<lparr>wo_store := store', wo_state := g\<rparr>) s"
    using assms by (auto simp: session_rep_def player_rep_def Let_def)
  then show ?thesis using g(1) that by blast
qed

text \<open>The state that the inputs \<open>h\<close> of the players yield.\<close>

definition replayed :: "('i, 'g) game \<Rightarrow> nat \<Rightarrow> (nat \<Rightarrow> 'i list) \<Rightarrow> nat \<Rightarrow> 'g" where
  "replayed G n h f = foldl (gm_step G) (gm_start G) (good_sim (gm_zero G) n (statuses_of n) h f)"

lemma executed_replayed:
  assumes rep: "session_rep X W G [] w s" and none: "check_simulation_consistency (se_sync s) = None"
  shows "wo_state w = replayed G (sy_player_count (se_sync s)) (wo_inputs w) (nat (sy_frame_count (se_sync s)))"
  using checked_state[of G w] assms by (simp add: replayed_def session_rep_def)

section \<open>New sessions\<close>

lemma pending_other_inputs:
  assumes "pending G cs w" and "\<And>p. p < sy_player_count (wo_sync w) \<Longrightarrow> h p = wo_inputs w p"
  shows "pending G cs (w\<lparr>wo_inputs := h\<rparr>)"
  using assms by (fastforce simp: pending_def world_rep_def Let_def)

lemma rep_other_inputs:
  assumes rep: "session_rep X W G cs w s" and h: "\<And>p. p < sy_player_count (se_sync s) \<Longrightarrow> h p = wo_inputs w p"
  shows "session_rep X W G cs (w\<lparr>wo_inputs := h\<rparr>) s"
  using rep pending_other_inputs[of G cs w h] h by (auto simp: session_rep_def player_rep_def Let_def)

lemma new_peer_fields:
  assumes "peer_new X q cfg sts draws e out inp = Some p"
  shows "pe_peer_connect_status p = sts" and "pe_events p = e"
  using assms by (auto simp: peer_new_def bind_eq_Some_conv)

lemma session_new_roles:
  assumes new: "session_new X b draws ends = Some (Inr s)"
  shows "roles s = map player_is_local (sb_players b)"
proof -
  let ?st = "replicate (length (sb_players b)) connection_status_default"
  have p: "traverse (player_type_new X b ?st draws ends) (enumerate 0 (sb_players b)) = Some (se_players s)"
    using new by (auto simp: session_new_def Let_def bind_eq_Some_conv split: if_split_asm)
  have "is_local (se_players s ! i) = player_is_local (sb_players b ! i)" if "i < length (sb_players b)" for i
  proof -
    have "player_type_new X b ?st draws ends (i, sb_players b ! i) = Some (se_players s ! i)"
      using p that by (simp add: traverse_Some nth_enumerate_eq)
    then show ?thesis
      by (cases "sb_players b ! i") (auto simp: player_type_new_def Let_def bind_eq_Some_conv is_local_iff)
  qed
  then show ?thesis using p by (auto simp: roles_def list_eq_iff_nth_eq traverse_Some)
qed

lemma session_new_rep:
  assumes new: "session_new X b draws ends = Some (Inr s)"
    and n: "length (sb_players b) \<le> MAX_PLAYERS" "0 \<le> sb_frame_delay b"
    and z: "gm_zero G = pod_zeroed (cr_pod X)" and opn: "\<And>i. \<not> vw_events_shut W (fst (ends i))"
  shows "session_rep X W G [] (world_new G (length (sb_players b)) (sb_frame_delay b)) s"
proof -
  let ?n = "length (sb_players b)" and ?st = "replicate (length (sb_players b)) connection_status_default"
  obtain players where p: "traverse (player_type_new X b ?st draws ends) (enumerate 0 (sb_players b)) = Some players"
    "s = \<lparr>se_sync = sync_new (pod_zeroed (cr_pod X)) ?n (sb_frame_delay b), se_players = players,
       se_synchronizing = (\<exists>player \<in> set players. \<not> is_local player),
       se_next_recommended_sleep = 0, se_local_connect_status = ?st\<rparr>"
    using new by (auto simp: session_new_def Let_def bind_eq_Some_conv split: if_split_asm)
  have len: "length players = ?n" and mk: "\<forall>i < ?n.
      player_type_new X b ?st draws ends (enumerate 0 (sb_players b) ! i) = Some (players ! i)"
    using p(1) by (simp_all add: traverse_Some)
  have remote: "pe_peer_connect_status q = statuses_of ?n \<and> \<not> vw_events_shut W (pe_events q)"
    if "i < ?n" "players ! i = Remote q" for i q
  proof -
    have "player_type_new X b ?st draws ends (i, sb_players b ! i) = Some (Remote q)"
      using mk[rule_format, of i] that by (simp add: nth_enumerate_eq)
    then obtain cfg r out inp where "peer_new X i cfg ?st r (fst (ends i)) out inp = Some q"
      by (cases "sb_players b ! i") (auto simp: player_type_new_def Let_def bind_eq_Some_conv)
    then show ?thesis using new_peer_fields opn by (metis statuses_of_def)
  qed
  have "world_inv G (world_new G ?n (sb_frame_delay b))" by (rule world_inv_new[OF n])
  then show ?thesis
    using p(2) len remote z
    by (auto simp: session_rep_def world_new_def sync_new_def player_rep_def Let_def all_connected_def
        connection_status_default_def NULL_FRAME_def create_queues_def queue_new_def)
qed

section \<open>Advancing\<close>

lemma simulate_ok:
  assumes rep: "session_rep X W G [] w s" and none: "check_simulation_consistency (se_sync s) = None"
    and running: "\<not> se_synchronizing s" and bar: "\<not> barred (se_sync s)"
    and f: "sy_frame_count (se_sync s) + 1 < i32_MAX"
  obtains cs sy store where
    "with_sync (increment_frame (pod_zeroed (cr_pod X)) (se_local_connect_status s)) ([], s, wo_store w)
      = Some (cs, s\<lparr>se_sync := sy\<rparr>, store)"
    and "session_rep X W G cs (w\<lparr>wo_sync := sy, wo_store := store\<rparr>) (s\<lparr>se_sync := sy\<rparr>)"
    and "loads cs = {}" and "sy_frame_count sy = sy_frame_count (se_sync s) + 1"
    and "sy_player_count sy = sy_player_count (se_sync s)"
    and "\<forall>p < sy_player_count (se_sync s). same_inputs (sy_input_queues (se_sync s) ! p) (sy_input_queues sy ! p)"
proof -
  have sync: "wo_sync w = se_sync s" and inv: "world_inv G w" and z: "gm_zero G = pod_zeroed (cr_pod X)"
    and conn: "all_connected (sy_player_count (se_sync s)) (se_local_connect_status s)"
    and roll: "\<not> sy_rolling_back (se_sync s)"
    using rep by (simp_all add: session_rep_def)
  obtain cs sy store where made:
    "increment_frame (gm_zero G) (statuses_of (sy_player_count (wo_sync w))) ([], wo_sync w, wo_store w)
      = Some (cs, sy, store)"
    "pending G cs (w\<lparr>wo_sync := sy, wo_store := store\<rparr>)" "loads cs = {}"
    "sy_frame_count sy = sy_frame_count (wo_sync w) + 1" "sy_player_count sy = sy_player_count (wo_sync w)"
    "sy_last_confirmed_frame sy = sy_last_confirmed_frame (wo_sync w)"
    "sy_rolling_back sy = sy_rolling_back (wo_sync w)"
    "\<And>p. p < sy_player_count (wo_sync w) \<Longrightarrow> same_inputs (sy_input_queues (wo_sync w) ! p) (sy_input_queues sy ! p)"
    by (rule advance_made[OF inv]) (use none bar f sync in auto)
  have "session_rep X W G cs (w\<lparr>wo_sync := sy, wo_store := store\<rparr>) (s\<lparr>se_sync := sy\<rparr>)"
    by (rule simulated_rep[OF rep made(2)]) (use made(4-8) sync roll running in auto)
  moreover have "increment_frame (pod_zeroed (cr_pod X)) (se_local_connect_status s) ([], se_sync s, wo_store w) =
      Some (cs, sy, store)"
    using made(1) sync z by (simp add: increment_frame_connected[OF conn] del: increment_frame.simps)
  ultimately show ?thesis
    using made(3-5,8) sync by (intro that[of cs sy store]) (simp_all del: increment_frame.simps)
qed

text \<open>Simulating a frame does not change what the inputs in the channels lead to.\<close>

lemma arriving_simulated:
  assumes "same_inputs (sy_input_queues (se_sync s) ! i) (sy_input_queues sy ! i)" and "wo_sync w = se_sync s"
  shows "arriving W G (w\<lparr>wo_sync := sy, wo_store := store\<rparr>) (s\<lparr>se_sync := sy\<rparr>) h i = arriving W G w s h i"
  using assms by (auto simp: arriving_def leads_to_def Let_def room_for_def same_inputs_def split: player_type.split)

lemma session_advance_ok:
  assumes ok: "channels_ok X W" and rep: "session_rep X W G [] w s"
    and none: "check_simulation_consistency (se_sync s) = None" and mix: "mixed s"
    and running: "\<not> se_synchronizing s" and bar: "\<not> barred (se_sync s)"
    and calm: "players_calm (sy_frame_count (se_sync s) + 1) s"
    and f: "sy_frame_count (se_sync s) + 1 + RECOMMENDATION_INTERVAL < i32_MAX"
    and arr: "\<forall>i < sy_player_count (se_sync s). arriving W G w s h i"
  obtains cs s' w' where "session_advance_frame X (s, wo_store w) = Some (cs, s', wo_store w')"
    and "session_rep X W G cs w' s'" and "check_simulation_consistency (se_sync s') = None"
    and "\<forall>i < sy_player_count (se_sync s). wo_inputs w' i = h i" and "wo_state w' = wo_state w"
    and "sy_frame_count (se_sync s') = sy_frame_count (se_sync s) + 1"
    and "sy_player_count (se_sync s') = sy_player_count (se_sync s)" and "roles s' = roles s"
proof -
  have sync: "wo_sync w = se_sync s" using rep by (simp add: session_rep_def)
  have f1: "sy_frame_count (se_sync s) + 1 < i32_MAX" using f by (simp add: RECOMMENDATION_INTERVAL_def)
  obtain cs sy store where made:
    "with_sync (increment_frame (pod_zeroed (cr_pod X)) (se_local_connect_status s)) ([], s, wo_store w)
      = Some (cs, s\<lparr>se_sync := sy\<rparr>, store)"
    "session_rep X W G cs (w\<lparr>wo_sync := sy, wo_store := store\<rparr>) (s\<lparr>se_sync := sy\<rparr>)"
    "loads cs = {}" "sy_frame_count sy = sy_frame_count (se_sync s) + 1"
    "sy_player_count sy = sy_player_count (se_sync s)"
    "\<forall>p < sy_player_count (se_sync s). same_inputs (sy_input_queues (se_sync s) ! p) (sy_input_queues sy ! p)"
    by (rule simulate_ok[OF rep none running bar f1])
  let ?s = "s\<lparr>se_sync := sy\<rparr>" and ?w = "w\<lparr>wo_sync := sy, wo_store := store\<rparr>"
  have mix1: "mixed ?s" using mix by (simp add: mixed_def)
  have calm1: "players_calm (sy_frame_count (se_sync ?s)) ?s"
    using calm made(4) by (simp add: players_calm_def)
  have f2: "sy_frame_count (se_sync ?s) + RECOMMENDATION_INTERVAL < i32_MAX" using f made(4) by simp
  have arr1: "\<forall>i < sy_player_count (se_sync ?s). arriving W G ?w ?s h i"
    using arr made(5,6) arriving_simulated sync by fastforce
  obtain ces s' w' where p: "do_poll X (cs, ?s, wo_store ?w) = Some (cs @ ces, s', wo_store w')"
    "session_rep X W G (cs @ ces) w' s'" "check_simulation_consistency (se_sync s') = None"
    "\<forall>i < sy_player_count (se_sync ?s). wo_inputs w' i = h i" "wo_state w' = wo_state ?w"
    "sy_frame_count (se_sync s') = sy_frame_count (se_sync ?s)"
    "sy_player_count (se_sync s') = sy_player_count (se_sync ?s)" "roles s' = roles ?s"
    by (rule do_poll_ok[OF ok made(2,3) mix1 calm1 f2 arr1])
  have "session_advance_frame X (s, wo_store w) = do_poll X (cs, ?s, wo_store ?w)"
    using made(1) running by (simp add: session_advance_frame_def del: with_sync.simps)
  then show ?thesis
    using p made(4,5) by (intro that[of "cs @ ces" s' w']) simp_all
qed

section \<open>Inputs of the local player\<close>

text \<open>The local player gave an input for every earlier frame, and this one fits.\<close>

definition local_input_due :: "('i, 'g) world \<Rightarrow> nat \<Rightarrow> nat \<Rightarrow> bool" where
  "local_input_due w i t \<longleftrightarrow> input_fits w i (sy_frame_count (wo_sync w)) t \<and>
     sy_frame_count (wo_sync w) \<le> int (length (wo_inputs w i))"

lemma local_queue_ok:
  assumes pend: "pending G cs w" and none: "check_simulation_consistency (wo_sync w) = None"
    and due: "local_input_due w i t" and bar: "\<not> barred (wo_sync w)"
  obtains q' where "sync_add_local_input i x (wo_sync w) = Some (Inr (sy_frame_count (wo_sync w)),
      (wo_sync w)\<lparr>sy_input_queues := (sy_input_queues (wo_sync w))[i := q']\<rparr>)"
    and "pending G cs (w\<lparr>wo_sync := (wo_sync w)\<lparr>sy_input_queues := (sy_input_queues (wo_sync w))[i := q']\<rparr>,
      wo_inputs := accept_input G i t x (wo_inputs w)\<rparr>)"
    and "iq_last_user_added_frame q' = sy_frame_count (wo_sync w)" and "is_null (iq_first_incorrect_frame q')"
proof -
  let ?sy = "wo_sync w" and ?h = "wo_inputs w i"
  let ?q = "sy_input_queues ?sy ! i" and ?m = "sy_frame_count (wo_sync w)"
  have fits: "input_fits w i ?m t" and known: "?m \<le> int (length ?h)"
    using due by (simp_all add: local_input_due_def)
  have i: "i < sy_player_count ?sy" using fits by (simp add: input_fits_def)
  obtain used dd fc where rep: "world_rep G used dd fc cs w" using pend by (auto simp: pending_def)
  have lenq: "i < length (sy_input_queues ?sy)" and qi: "queue_inv (gm_zero G) (confirmed ?sy) fc ?h (used i) ?q"
    and fc: "?m = int fc" and gap: "in_i32 (?m - sy_last_confirmed_frame ?sy)"
    using rep i by (auto simp: world_rep_def Let_def in_i32_def i32_MAX_def confirmed_def)
  have m: "?m + iq_frame_delay ?q = int t" "int t + 1 < i32_MAX" "in_i32 ?m"
    "is_null (iq_last_user_added_frame ?q) \<or> ?m = iq_last_user_added_frame ?q + 1"
    "iq_length ?q + (Suc t - length ?h) \<le> MAX_ROLLBACK_FRAMES"
    using fits by (simp_all add: input_fits_def Let_def)
  have tr: "tracks (gm_zero G) ?h (used i) ?q" "length (used i) = fc" and bounds: "in_i32 (int t + 1)" "in_i32 (int (length ?h))"
    using qi m(2) by (auto simp: queue_inv_def in_i32_def i32_MAX_def)
  obtain q' where q': "add_input \<lparr>fi_frame = ?m, fi_input = x\<rparr> ?q =
      Some (if t < length ?h then NULL_FRAME else int t, q')"
    "tracks (gm_zero G) (queue_accept (gm_zero G) ?h t x) (used i) q'" "iq_last_user_added_frame q' = ?m"
    "iq_first_incorrect_frame q' = iq_first_incorrect_frame ?q \<or> int (length ?h) \<le> iq_first_incorrect_frame q'"
    by (rule add_input_tracks[OF tr(1) m(4,1) bounds(1) m(3) bounds(2) m(5)])
  have "is_null (iq_first_incorrect_frame ?q)"
    using none lenq by (simp add: check_simulation_consistency_None)
  moreover have "is_null (iq_first_incorrect_frame q') \<or> iq_first_incorrect_frame q' < int fc"
    using q'(2) tr(2) by (simp add: tracks_def requested_def)
  ultimately have "is_null (iq_first_incorrect_frame q')"
    using q'(4) known fc by auto
  moreover obtain sy where "sync_add_local_input i x ?sy = Some (Inr ?m, sy)"
    "pending G cs (w\<lparr>wo_sync := sy, wo_inputs := accept_input G i t x (wo_inputs w)\<rparr>)"
    by (rule local_input_ok[OF pend fits bar])
  moreover have "sync_add_local_input i x ?sy = Some (Inr ?m, ?sy\<lparr>sy_input_queues := (sy_input_queues ?sy)[i := q']\<rparr>)"
    using q'(1) lenq bar gap by (auto simp: sync_add_local_input_def barred_def)
  ultimately show ?thesis using q'(3) by (intro that[of q']) auto
qed

lemma player_send_input_role:
  assumes ok: "channels_ok X W" and sent: "player_send_input X sts inp a = Some b"
  shows "same_role a b"
proof (cases a)
  case Local
  then show ?thesis using sent by (simp add: same_role_def)
next
  case (Remote p)
  then obtain r q where q: "send_input X sts inp p = Some (r, q)" "b = Remote q"
    using sent by (auto simp: bind_eq_Some_conv)
  have "pe_peer_connect_status q = pe_peer_connect_status p"
    by (rule peer_action_keeps_status[OF peer_action.input[OF q(1)]])
  then show ?thesis
    using send_input_quiet[OF ok q(1)] q(2) Remote by (simp add: same_role_def quiet_change_def)
qed

lemma add_local_input_ok:
  assumes ok: "channels_ok X W" and rep: "session_rep X W G [] w s"
    and none: "check_simulation_consistency (se_sync s) = None" and running: "\<not> se_synchronizing s"
    and loc: "se_players s ! i = Local" and due: "local_input_due w i t" and bar: "\<not> barred (se_sync s)"
    and res: "add_local_input X i x s = Some (r, s')"
  shows "r = Inr ()"
    and "session_rep X W G [] (w\<lparr>wo_sync := se_sync s', wo_inputs := accept_input G i t x (wo_inputs w)\<rparr>) s'"
    and "check_simulation_consistency (se_sync s') = None" and "roles s' = roles s"
    and "cs_last_frame (se_local_connect_status s' ! i) = sy_frame_count (se_sync s)"
proof -
  let ?m = "sy_frame_count (se_sync s)" and ?n = "sy_player_count (se_sync s)"
  have sync: "wo_sync w = se_sync s" and pend: "pending G [] w" and roll: "\<not> sy_rolling_back (se_sync s)"
    and len: "length (se_players s) = ?n" and conn: "all_connected ?n (se_local_connect_status s)"
    and players: "\<And>j. j < ?n \<Longrightarrow> player_rep W w s j"
    using rep by (simp_all add: session_rep_def)
  have i: "i < ?n" using due sync by (simp add: local_input_due_def input_fits_def)
  have none': "check_simulation_consistency (wo_sync w) = None" and bar': "\<not> barred (wo_sync w)"
    using none bar sync by simp_all
  obtain q' where q: "sync_add_local_input i x (wo_sync w) = Some (Inr (sy_frame_count (wo_sync w)),
      (wo_sync w)\<lparr>sy_input_queues := (sy_input_queues (wo_sync w))[i := q']\<rparr>)"
    "pending G [] (w\<lparr>wo_sync := (wo_sync w)\<lparr>sy_input_queues := (sy_input_queues (wo_sync w))[i := q']\<rparr>,
      wo_inputs := accept_input G i t x (wo_inputs w)\<rparr>)"
    "iq_last_user_added_frame q' = sy_frame_count (wo_sync w)" "is_null (iq_first_incorrect_frame q')"
    by (rule local_queue_ok[OF pend none' due bar'])
  let ?sy = "(se_sync s)\<lparr>sy_input_queues := (sy_input_queues (se_sync s))[i := q']\<rparr>"
  let ?w = "w\<lparr>wo_sync := ?sy, wo_inputs := accept_input G i t x (wo_inputs w)\<rparr>"
  let ?sts = "(se_local_connect_status s)[i := (se_local_connect_status s ! i)\<lparr>cs_last_frame := ?m\<rparr>]"
  have lenq: "length (sy_input_queues (se_sync s)) = ?n" and m0: "0 \<le> ?m" and conf: "sy_last_confirmed_frame (se_sync s) \<le> ?m"
    using pend sync by (auto simp: pending_def world_rep_def Let_def confirmed_def)
  obtain ps where ps: "traverse (player_send_input X ?sts \<lparr>fi_frame = ?m, fi_input = x\<rparr>) (se_players s) = Some ps"
    "r = Inr ()" "s' = s\<lparr>se_sync := ?sy, se_local_connect_status := ?sts, se_players := ps\<rparr>"
    using res q(1) roll running loc i len conn m0 sync
    by (auto simp: add_local_input_def player_handle_to_queue_def all_connected_def is_null_def bind_eq_Some_conv Let_def)
  have role: "same_role (se_players s ! j) (ps ! j)" if "j < ?n" for j
    using ps(1) that len player_send_input_role[OF ok] by (auto simp: traverse_Some)
  have lps: "length ps = ?n" using ps(1) len by (simp add: traverse_Some)
  let ?s = "s\<lparr>se_sync := ?sy, se_local_connect_status := ?sts\<rparr>"
  have "player_rep W ?w ?s j" if "j < ?n" for j
  proof (cases "j = i")
    case True
    have "?m \<le> int t" "int t + 1 < i32_MAX"
      using due sync pend i by (auto simp: local_input_due_def input_fits_def Let_def pending_def world_rep_def queue_inv_def)
    then have "?m + 1 \<le> int (length (queue_accept (gm_zero G) (wo_inputs w i) t x))"
      by (simp add: length_queue_accept)
    then show ?thesis
      using True players[OF i] loc q(3) i lenq conn m0 conf sync
      by (auto simp: player_rep_def Let_def accept_input_def all_connected_def)
  next
    case False
    then show ?thesis using players[OF that] by (auto simp: player_rep_def Let_def accept_input_def)
  qed
  moreover have "\<not> cs_disconnected (?sts ! j)" if "j < ?n" for j
    using conn that by (cases "j = i") (auto simp: all_connected_def)
  then have "all_connected ?n ?sts" using conn by (simp add: all_connected_def)
  ultimately have "session_rep X W G [] ?w ?s"
    using rep q(2) sync running by (simp add: session_rep_def)
  then have "session_rep X W G [] ?w (?s\<lparr>se_players := ps\<rparr>)"
    by (rule same_role_rep) (use lps len role in auto)
  then show "session_rep X W G [] (w\<lparr>wo_sync := se_sync s', wo_inputs := accept_input G i t x (wo_inputs w)\<rparr>) s'"
    using ps(3) by simp
  show "r = Inr ()" by (rule ps(2))
  show "cs_last_frame (se_local_connect_status s' ! i) = ?m"
    using ps(3) i conn by (simp add: all_connected_def)
  show "check_simulation_consistency (se_sync s') = None"
  proof -
    have "is_null (iq_first_incorrect_frame ((sy_input_queues (se_sync s))[i := q'] ! p))" if "p < ?n" for p
      using none q(4) lenq that by (cases "p = i") (simp_all add: check_simulation_consistency_None)
    then show ?thesis using ps(3) lenq by (simp add: check_simulation_consistency_None)
  qed
  have "is_local (ps ! j) = is_local (se_players s ! j)" if "j < ?n" for j
    using same_role_local[OF role[OF that]] .
  then show "roles s' = roles s" using lps len ps(3) by (auto simp: roles_def list_eq_iff_nth_eq)
qed

section \<open>Runs of a session\<close>

text \<open>
  The client and its session. Between two calls the background tasks may change the peers, but not
  the session's copy of what they know about the others and, as nobody disconnects, not close the
  channel; see \<open>conn_reachable_inv\<close>. A call happens when its guard holds, and its commands are
  executed at once.
\<close>

definition task_change ::
    "('i, 'e, 'o, 'm) views \<Rightarrow> ('i, 'e, 'o, 'm) peer player_type \<Rightarrow> ('i, 'e, 'o, 'm) peer player_type \<Rightarrow> bool" where
  "task_change W a b \<longleftrightarrow> (a = Local \<and> b = Local) \<or>
     (\<exists>p q. a = Remote p \<and> b = Remote q \<and> pe_peer_connect_status q = pe_peer_connect_status p \<and>
        \<not> vw_events_shut W (pe_events q))"

definition may_poll ::
    "('i, 'e, 'o, 'm) views \<Rightarrow> ('i, 'g) game \<Rightarrow> frame \<Rightarrow> (nat \<Rightarrow> 'i list) \<Rightarrow>
       ('i, 'g) world \<times> ('i, 'e, 'o, 'm) session \<Rightarrow> bool" where
  "may_poll W G f h ws \<longleftrightarrow> players_calm f (snd ws) \<and> f + RECOMMENDATION_INTERVAL < i32_MAX \<and>
     (\<forall>i < sy_player_count (se_sync (snd ws)). arriving W G (fst ws) (snd ws) h i)"

definition may_advance :: "('i, 'e, 'o, 'm) session \<Rightarrow> bool" where
  "may_advance s \<longleftrightarrow> \<not> se_synchronizing s \<and> \<not> barred (se_sync s)"

text \<open>What the client has after a call that left the store \<open>store\<close> and the game state \<open>g\<close>.\<close>

definition after_call ::
    "('i, 'g) world \<Rightarrow> (nat \<Rightarrow> 'i list) \<Rightarrow> 'g \<Rightarrow> 'g store \<Rightarrow> ('i, 'e, 'o, 'm) session \<Rightarrow> ('i, 'g) world" where
  "after_call w h g store s = w\<lparr>wo_sync := se_sync s, wo_store := store, wo_state := g, wo_inputs := h\<rparr>"

inductive session_step ::
    "('i, 'e, 'o, 'm) crates \<Rightarrow> ('i, 'e, 'o, 'm) views \<Rightarrow> ('i, 'g) game \<Rightarrow>
       ('i, 'g) world \<times> ('i, 'e, 'o, 'm) session \<Rightarrow> ('i, 'g) world \<times> ('i, 'e, 'o, 'm) session \<Rightarrow> bool" for X W G where
  tasks: "length players = length (se_players s) \<Longrightarrow>
    \<forall>i < length players. task_change W (se_players s ! i) (players ! i) \<Longrightarrow>
    session_step X W G (w, s) (w, s\<lparr>se_players := players\<rparr>)"
| local_input: "\<not> se_synchronizing s \<Longrightarrow> \<not> barred (se_sync s) \<Longrightarrow> se_players s ! i = Local \<Longrightarrow> local_input_due w i t \<Longrightarrow>
    add_local_input X i x s = Some (r, s') \<Longrightarrow>
    session_step X W G (w, s) (w\<lparr>wo_sync := se_sync s', wo_inputs := accept_input G i t x (wo_inputs w)\<rparr>, s')"
| poll: "may_poll W G (sy_frame_count (se_sync s)) h (w, s) \<Longrightarrow>
    session_poll X (s, wo_store w) = Some (cs, s', store) \<Longrightarrow>
    execute_all (gm_step G) (gm_hash G) cs (wo_state w, store) = Some (g, store') \<Longrightarrow>
    session_step X W G (w, s) (after_call w h g store' s', s')"
| advance: "may_advance s \<Longrightarrow> may_poll W G (sy_frame_count (se_sync s) + 1) h (w, s) \<Longrightarrow>
    session_advance_frame X (s, wo_store w) = Some (cs, s', store) \<Longrightarrow>
    execute_all (gm_step G) (gm_hash G) cs (wo_state w, store) = Some (g, store') \<Longrightarrow>
    session_step X W G (w, s) (after_call w h g store' s', s')"

inductive session_reachable ::
    "('i, 'e, 'o, 'm) crates \<Rightarrow> ('i, 'e, 'o, 'm) views \<Rightarrow> ('i, 'g) game \<Rightarrow> session_builder \<Rightarrow>
       ('i, 'g) world \<times> ('i, 'e, 'o, 'm) session \<Rightarrow> bool" for X W G b where
  start: "builder_start X b draws ends = Some (Inr s) \<Longrightarrow> \<forall>i. \<not> vw_events_shut W (fst (ends i)) \<Longrightarrow>
    session_reachable X W G b (world_new G (length (sb_players b)) (sb_frame_delay b), s)"
| step: "session_reachable X W G b ws \<Longrightarrow> session_step X W G ws ws' \<Longrightarrow> session_reachable X W G b ws'"

inductive_cases session_stepE: "session_step X W G ws ws'"

definition session_ok ::
    "('i, 'e, 'o, 'm) crates \<Rightarrow> ('i, 'e, 'o, 'm) views \<Rightarrow> ('i, 'g) game \<Rightarrow>
       ('i, 'g) world \<times> ('i, 'e, 'o, 'm) session \<Rightarrow> bool" where
  "session_ok X W G ws \<longleftrightarrow> session_rep X W G [] (fst ws) (snd ws) \<and>
     check_simulation_consistency (se_sync (snd ws)) = None \<and> mixed (snd ws)"

text \<open>A call that was proved to end well, with the execution of its commands.\<close>

lemma finish_call:
  assumes rep: "session_rep X W G cs w' s'" and none: "check_simulation_consistency (se_sync s') = None"
    and h: "\<forall>i < sy_player_count (se_sync s). wo_inputs w' i = h i"
    and n: "sy_player_count (se_sync s') = sy_player_count (se_sync s)" and roles: "roles s' = roles s" and mix: "mixed s"
  obtains g store' where "execute_all (gm_step G) (gm_hash G) cs (wo_state w', wo_store w') = Some (g, store')"
    and "session_ok X W G (after_call w h g store' s', s')"
    and "g = replayed G (sy_player_count (se_sync s')) h (nat (sy_frame_count (se_sync s')))"
proof -
  obtain g store' where g: "execute_all (gm_step G) (gm_hash G) cs (wo_state w', wo_store w') = Some (g, store')"
    "session_rep X W G [] (w'\<lparr>wo_store := store', wo_state := g\<rparr>) s'"
    by (rule executed_rep[OF rep])
  have eq: "w'\<lparr>wo_store := store', wo_state := g, wo_inputs := h\<rparr> = after_call w h g store' s'"
    using g(2) by (simp add: after_call_def session_rep_def)
  have "session_rep X W G [] (w'\<lparr>wo_store := store', wo_state := g, wo_inputs := h\<rparr>) s'"
    using rep_other_inputs[OF g(2), of h] h n by simp
  then have r: "session_rep X W G [] (after_call w h g store' s') s'" by (simp only: eq)
  have "mixed s'" using mix roles by (simp add: mixed_def)
  then have "session_ok X W G (after_call w h g store' s', s')"
    using r none by (simp add: session_ok_def)
  moreover have "g = replayed G (sy_player_count (se_sync s')) h (nat (sy_frame_count (se_sync s')))"
    using executed_replayed[OF r none] by (simp add: after_call_def)
  ultimately show ?thesis using g(1) that by blast
qed

lemma poll_returns:
  assumes ok: "channels_ok X W" and inv: "session_ok X W G (w, s)"
    and may: "may_poll W G (sy_frame_count (se_sync s)) h (w, s)"
  obtains cs s' store g store' where "session_poll X (s, wo_store w) = Some (cs, s', store)"
    and "execute_all (gm_step G) (gm_hash G) cs (wo_state w, store) = Some (g, store')"
    and "session_ok X W G (after_call w h g store' s', s')"
    and "g = replayed G (sy_player_count (se_sync s)) h (nat (sy_frame_count (se_sync s)))"
    and "sy_frame_count (se_sync s') = sy_frame_count (se_sync s)" and "roles s' = roles s"
proof -
  have rep: "session_rep X W G [] w s" and mix: "mixed s"
    and calm: "players_calm (sy_frame_count (se_sync s)) s"
    and f: "sy_frame_count (se_sync s) + RECOMMENDATION_INTERVAL < i32_MAX"
    and arr: "\<forall>i < sy_player_count (se_sync s). arriving W G w s h i"
    using inv may by (simp_all add: session_ok_def may_poll_def)
  obtain ces s' w' where p: "do_poll X ([], s, wo_store w) = Some ([] @ ces, s', wo_store w')"
    "session_rep X W G ([] @ ces) w' s'" "check_simulation_consistency (se_sync s') = None"
    "\<forall>i < sy_player_count (se_sync s). wo_inputs w' i = h i" "wo_state w' = wo_state w"
    "sy_frame_count (se_sync s') = sy_frame_count (se_sync s)"
    "sy_player_count (se_sync s') = sy_player_count (se_sync s)" "roles s' = roles s"
    by (rule do_poll_ok[OF ok rep loads_simps(1) mix calm f arr])
  obtain g store' where g: "execute_all (gm_step G) (gm_hash G) ([] @ ces) (wo_state w', wo_store w') = Some (g, store')"
    "session_ok X W G (after_call w h g store' s', s')"
    "g = replayed G (sy_player_count (se_sync s')) h (nat (sy_frame_count (se_sync s')))"
    by (rule finish_call[OF p(2,3,4,7,8) mix])
  then show ?thesis using p by (intro that[of ces s' "wo_store w'" g store']) (simp_all add: session_poll_def)
qed

lemma advance_returns:
  assumes ok: "channels_ok X W" and inv: "session_ok X W G (w, s)" and adv: "may_advance s"
    and may: "may_poll W G (sy_frame_count (se_sync s) + 1) h (w, s)"
  obtains cs s' store g store' where "session_advance_frame X (s, wo_store w) = Some (cs, s', store)"
    and "execute_all (gm_step G) (gm_hash G) cs (wo_state w, store) = Some (g, store')"
    and "session_ok X W G (after_call w h g store' s', s')"
    and "g = replayed G (sy_player_count (se_sync s)) h (nat (sy_frame_count (se_sync s) + 1))"
    and "sy_frame_count (se_sync s') = sy_frame_count (se_sync s) + 1" and "roles s' = roles s"
proof -
  have rep: "session_rep X W G [] w s" and mix: "mixed s" and none: "check_simulation_consistency (se_sync s) = None"
    and calm: "players_calm (sy_frame_count (se_sync s) + 1) s"
    and f: "sy_frame_count (se_sync s) + 1 + RECOMMENDATION_INTERVAL < i32_MAX"
    and arr: "\<forall>i < sy_player_count (se_sync s). arriving W G w s h i"
    and running: "\<not> se_synchronizing s" and bar: "\<not> barred (se_sync s)"
    using inv may adv by (simp_all add: session_ok_def may_poll_def may_advance_def)
  obtain cs s' w' where p: "session_advance_frame X (s, wo_store w) = Some (cs, s', wo_store w')"
    "session_rep X W G cs w' s'" "check_simulation_consistency (se_sync s') = None"
    "\<forall>i < sy_player_count (se_sync s). wo_inputs w' i = h i" "wo_state w' = wo_state w"
    "sy_frame_count (se_sync s') = sy_frame_count (se_sync s) + 1"
    "sy_player_count (se_sync s') = sy_player_count (se_sync s)" "roles s' = roles s"
    by (rule session_advance_ok[OF ok rep none mix running bar calm f arr])
  obtain g store' where g: "execute_all (gm_step G) (gm_hash G) cs (wo_state w', wo_store w') = Some (g, store')"
    "session_ok X W G (after_call w h g store' s', s')"
    "g = replayed G (sy_player_count (se_sync s')) h (nat (sy_frame_count (se_sync s')))"
    by (rule finish_call[OF p(2,3,4,7,8) mix])
  then show ?thesis using p by (intro that[of cs s' "wo_store w'" g store']) simp_all
qed

lemma tasks_ok:
  assumes rep: "session_rep X W G cs w s" and len: "length players = length (se_players s)"
    and ch: "\<forall>i < length players. task_change W (se_players s ! i) (players ! i)"
  shows "session_rep X W G cs w (s\<lparr>se_players := players\<rparr>)" and "roles (s\<lparr>se_players := players\<rparr>) = roles s"
proof -
  have "player_rep W w (s\<lparr>se_players := players\<rparr>) i" if "i < sy_player_count (se_sync s)" for i
  proof -
    have "player_rep W w s i" "length (se_players s) = sy_player_count (se_sync s)"
      using rep that by (simp_all add: session_rep_def)
    moreover from this have "task_change W (se_players s ! i) (players ! i)" using ch len that by simp
    ultimately show ?thesis by (auto simp: player_rep_def Let_def task_change_def)
  qed
  then show "session_rep X W G cs w (s\<lparr>se_players := players\<rparr>)"
    using rep len by (simp add: session_rep_def)
  have "is_local (players ! i) = is_local (se_players s ! i)" if "i < length players" for i
    using ch that by (auto simp: task_change_def)
  then show "roles (s\<lparr>se_players := players\<rparr>) = roles s"
    using len by (simp add: roles_def list_eq_iff_nth_eq)
qed

lemma session_step_ok:
  assumes ok: "channels_ok X W" and inv: "session_ok X W G ws" and stp: "session_step X W G ws ws'"
  shows "session_ok X W G ws' \<and> roles (snd ws') = roles (snd ws)"
  using stp
proof cases
  case (tasks players s w)
  then show ?thesis using inv tasks_ok[of X W G "[]" w s players] by (simp add: session_ok_def mixed_def)
next
  case (local_input s i w t x r s')
  have rep: "session_rep X W G [] w s" and none: "check_simulation_consistency (se_sync s) = None" and mix: "mixed s"
    using inv local_input(1) by (simp_all add: session_ok_def)
  note r = add_local_input_ok[OF ok rep none local_input(3,5,6,4,7)]
  then show ?thesis using mix local_input(1,2) by (simp add: session_ok_def mixed_def)
next
  case (poll s h w cs s' store g store')
  have "session_ok X W G (w, s)" using inv poll(1) by simp
  then obtain ces t stored st stored' where
    p: "session_poll X (s, wo_store w) = Some (ces, t, stored)"
      "execute_all (gm_step G) (gm_hash G) ces (wo_state w, stored) = Some (st, stored')"
      "session_ok X W G (after_call w h st stored' t, t)" "roles t = roles s"
    by (rule poll_returns[OF ok _ poll(3)])
  then have "t = s'" "st = g" "stored' = store'" using poll(4,5) by simp_all
  then show ?thesis using p(3,4) poll(1,2) by simp
next
  case (advance s h w cs s' store g store')
  have "session_ok X W G (w, s)" using inv advance(1) by simp
  then obtain ces t stored st stored' where
    p: "session_advance_frame X (s, wo_store w) = Some (ces, t, stored)"
      "execute_all (gm_step G) (gm_hash G) ces (wo_state w, stored) = Some (st, stored')"
      "session_ok X W G (after_call w h st stored' t, t)" "roles t = roles s"
    by (rule advance_returns[OF ok _ advance(3,4)])
  then have "t = s'" "st = g" "stored' = store'" using advance(5,6) by simp_all
  then show ?thesis using p(3,4) advance(1,2) by simp
qed

text \<open>A session with local and remote players and a frame delay that is not negative.\<close>

definition playable :: "session_builder \<Rightarrow> bool" where
  "playable b \<longleftrightarrow> length (sb_players b) \<le> MAX_PLAYERS \<and> 0 \<le> sb_frame_delay b \<and>
     Player_Local \<in> set (sb_players b) \<and> Player_Remote \<in> set (sb_players b)"

lemma session_reachable_inv:
  assumes ok: "channels_ok X W" and z: "gm_zero G = pod_zeroed (cr_pod X)" and b: "playable b"
    and r: "session_reachable X W G b ws"
  shows "session_ok X W G ws \<and> roles (snd ws) = map player_is_local (sb_players b)"
  using r
proof (induction rule: session_reachable.induct)
  case (start draws ends s)
  have new: "session_new X b draws ends = Some (Inr s)" using start(1) by (simp add: builder_start_def)
  note roles = session_new_roles[OF new]
  have rep: "session_rep X W G [] (world_new G (length (sb_players b)) (sb_frame_delay b)) s"
    by (rule session_new_rep[OF new _ _ z]) (use start(2) b in \<open>auto simp: playable_def\<close>)
  have "sy_frame_count (se_sync s) = 0"
    using new by (auto simp: session_new_def Let_def bind_eq_Some_conv sync_new_def split: if_split_asm)
  then have "check_simulation_consistency (se_sync s) = None" by (rule synchronizing_consistent[OF rep])
  moreover have "mixed s"
    using b imageI[of Player_Local "set (sb_players b)" player_is_local]
      imageI[of Player_Remote "set (sb_players b)" player_is_local]
    by (simp add: mixed_def roles playable_def)
  ultimately show ?case using rep roles by (simp add: session_ok_def)
next
  case (step ws ws')
  show ?case using session_step_ok[OF ok _ step.hyps(2)] step.IH by simp
qed

lemma session_reachable_ok:
  assumes "channels_ok X W" and "gm_zero G = pod_zeroed (cr_pod X)" and "playable b"
    and "session_reachable X W G b (w, s)"
  shows "session_rep X W G [] w s" and "check_simulation_consistency (se_sync s) = None" and "mixed s"
    and "roles s = map player_is_local (sb_players b)" and "sy_player_count (se_sync s) = length (sb_players b)"
proof -
  have r: "session_ok X W G (w, s)" "roles s = map player_is_local (sb_players b)"
    using session_reachable_inv[OF assms] by simp_all
  show "session_rep X W G [] w s" "check_simulation_consistency (se_sync s) = None" "mixed s"
    using r(1) by (simp_all add: session_ok_def)
  show "roles s = map player_is_local (sb_players b)" by (rule r(2))
  have "length (roles s) = sy_player_count (se_sync s)"
    using r(1) by (simp add: session_ok_def session_rep_def roles_def)
  then show "sy_player_count (se_sync s) = length (sb_players b)" using r(2) by simp
qed

section \<open>Sending an input never panics\<close>

text \<open>The inputs not yet acknowledged and the new one fit into a packet.\<close>

definition can_send :: "('i, 'e, 'o, 'm) crates \<Rightarrow> 'i \<Rightarrow> ('i, 'e, 'o, 'm) session \<Rightarrow> bool" where
  "can_send X x s \<longleftrightarrow> (\<forall>p. Remote p \<in> set (se_players s) \<longrightarrow> time_sync_ok (pe_timesync p) \<and>
     packet_fits (cr_pod X) (map fi_input (ie_pending (pe_input_encoder p)) @ [x]))"

lemma packet_fits_prefix: "packet_fits P (xs @ ys) \<Longrightarrow> packet_fits P xs"
  by (auto simp: packet_fits_def add_mult_distrib)

lemma send_pending_returns:
  assumes codec: "packet_codec (cr_varint X) (cr_pod X)" and ok: "channels_ok X W"
    and fits: "packet_fits (cr_pod X) (map fi_input (ie_pending (pe_input_encoder p)))"
  shows "\<exists>r. send_pending_output X sts p = Some r"
proof -
  obtain bits where bits: "compress (cr_varint X) (cr_pod X) (pod_zeroed (cr_pod X))
      (map fi_input (ie_pending (pe_input_encoder p))) = Some (Inr bits)"
    by (rule packet_codec.decompress_compress[OF codec fits])
  then have "\<exists>f bits e. encoder_encode (cr_varint X) (cr_pod X) (pe_input_encoder p) = Some (Inr (f, bits), e)"
    by (cases "ie_pending (pe_input_encoder p)") (simp_all add: encoder_encode_def encode_pending_def)
  moreover have "\<exists>r. send X m q = Some r" for m q
    by (rule send_quiet[OF ok, of m q]) blast
  ultimately show ?thesis by (elim exE) (simp add: send_pending_output_def Let_def)
qed

lemma send_input_returns:
  assumes codec: "packet_codec (cr_varint X) (cr_pod X)" and ok: "channels_ok X W"
    and fits: "packet_fits (cr_pod X) (map fi_input (ie_pending (pe_input_encoder p)) @ [fi_input input])"
    and ts: "time_sync_ok (pe_timesync p)" and f: "0 \<le> fi_frame input"
  shows "\<exists>r. send_input X sts input p = Some r"
proof -
  obtain ts' where "time_sync_advance_frame input (st_local_frame_advantage (pe_stats p))
      (st_remote_frame_advantage (pe_stats p)) (pe_timesync p) = Some ts'"
    by (rule time_sync_advance_ok[OF ts f])
  moreover have "\<exists>r. send_pending_output X sts (p\<lparr>pe_timesync := ts', pe_input_encoder := encoder_push input (pe_input_encoder p)\<rparr>) = Some r"
    "\<exists>r. send_pending_output X sts p = Some r"
    using fits packet_fits_prefix[OF fits]
    by (auto simp: encoder_push_def intro!: send_pending_returns[OF codec ok] simp del: split_paired_Ex)
  ultimately show ?thesis by (simp add: send_input_def)
qed

lemma add_local_input_returns:
  assumes codec: "packet_codec (cr_varint X) (cr_pod X)" and ok: "channels_ok X W"
    and rep: "session_rep X W G [] w s"
    and none: "check_simulation_consistency (se_sync s) = None" and running: "\<not> se_synchronizing s"
    and loc: "se_players s ! i = Local" and due: "local_input_due w i t" and bar: "\<not> barred (se_sync s)"
    and snd: "can_send X x s"
  shows "\<exists>r. add_local_input X i x s = Some r"
proof -
  have sync: "wo_sync w = se_sync s" and pend: "pending G [] w" and roll: "\<not> sy_rolling_back (se_sync s)"
    and len: "length (se_players s) = sy_player_count (se_sync s)"
    and conn: "all_connected (sy_player_count (se_sync s)) (se_local_connect_status s)"
    using rep by (simp_all add: session_rep_def)
  have i: "i < sy_player_count (se_sync s)" and m0: "0 \<le> sy_frame_count (se_sync s)"
    using due sync by (auto simp: local_input_due_def input_fits_def Let_def)
  have none': "check_simulation_consistency (wo_sync w) = None" and bar': "\<not> barred (wo_sync w)"
    using none bar sync by simp_all
  obtain q' where q: "sync_add_local_input i x (wo_sync w) = Some (Inr (sy_frame_count (wo_sync w)),
      (wo_sync w)\<lparr>sy_input_queues := (sy_input_queues (wo_sync w))[i := q']\<rparr>)"
    by (rule local_queue_ok[OF pend none' due bar'])
  let ?sts = "(se_local_connect_status s)[i := (se_local_connect_status s ! i)\<lparr>cs_last_frame := sy_frame_count (se_sync s)\<rparr>]"
  have "\<exists>y. player_send_input X ?sts \<lparr>fi_frame = sy_frame_count (se_sync s), fi_input = x\<rparr> (se_players s ! j) = Some y \<and> True"
    if "j < length (se_players s)" for j
  proof (cases "se_players s ! j")
    case (Remote p)
    then have "Remote p \<in> set (se_players s)" using that nth_mem by force
    then have "packet_fits (cr_pod X) (map fi_input (ie_pending (pe_input_encoder p)) @ [x])" "time_sync_ok (pe_timesync p)"
      using snd by (auto simp: can_send_def)
    then have "\<exists>r. send_input X ?sts \<lparr>fi_frame = sy_frame_count (se_sync s), fi_input = x\<rparr> p = Some r"
      by (intro send_input_returns[OF codec ok]) (use m0 in simp_all)
    then show ?thesis using Remote by auto
  qed simp
  then obtain ps where "traverse (player_send_input X ?sts \<lparr>fi_frame = sy_frame_count (se_sync s), fi_input = x\<rparr>)
      (se_players s) = Some ps"
    by (rule traverse_exists)
  then show ?thesis
    using q roll running loc i len conn m0 sync
    by (simp add: add_local_input_def player_handle_to_queue_def all_connected_def is_null_def Let_def)
qed

section \<open>What an input leaves at the peers\<close>

text \<open>
  The input waits for its acknowledgement at a running peer, and a packet with all unacknowledged
  inputs is the next message of its outgoing channel; the other side unpacks exactly these inputs.
\<close>

definition input_sent ::
    "('i, 'e, 'o, 'm) crates \<Rightarrow> ('i, 'e, 'o, 'm) views \<Rightarrow> connection_status list \<Rightarrow> 'i frame_input \<Rightarrow>
       ('i, 'e, 'o, 'm) peer \<Rightarrow> ('i, 'e, 'o, 'm) peer \<Rightarrow> bool" where
  "input_sent X W statuses input p q \<longleftrightarrow>
     (let inputs = ie_pending (pe_input_encoder p) @ [input] in
      ie_pending (pe_input_encoder q) = inputs \<and>
      (\<not> vw_out_shut W (pe_message_out p) \<longrightarrow>
        (\<exists>bits. vw_out W (pe_message_out q) = vw_out W (pe_message_out p) @
            [InputMsg \<lparr>in_peer_connect_status = statuses, in_start_frame = fi_frame (hd inputs),
               in_ack_frame = last_decoded_frame (pe_input_decoder p), in_bits = bits\<rparr>] \<and>
          decompress (cr_varint X) (cr_pod X) (pod_zeroed (cr_pod X)) bits = Some (Inr (map fi_input inputs)))))"

lemma send_input_sent:
  assumes codec: "packet_codec (cr_varint X) (cr_pod X)" and ok: "channels_ok X W"
    and fits: "packet_fits (cr_pod X) (map fi_input (ie_pending (pe_input_encoder p)) @ [fi_input input])"
    and run: "peer_is_running p" and sent: "send_input X sts input p = Some (r, q)"
  shows "input_sent X W sts input p q"
proof -
  let ?inputs = "ie_pending (pe_input_encoder p) @ [input]"
  obtain bits where bits: "compress (cr_varint X) (cr_pod X) (pod_zeroed (cr_pod X)) (map fi_input ?inputs) = Some (Inr bits)"
    "decompress (cr_varint X) (cr_pod X) (pod_zeroed (cr_pod X)) bits = Some (Inr (map fi_input ?inputs))"
    by (rule packet_codec.decompress_compress[OF codec, where xs = "map fi_input ?inputs"]) (use fits in simp_all)
  let ?msg = "InputMsg \<lparr>in_peer_connect_status = sts, in_start_frame = fi_frame (hd ?inputs),
    in_ack_frame = last_decoded_frame (pe_input_decoder p), in_bits = bits\<rparr>"
  obtain p' where p': "send X ?msg p' = Some (r, q)" "ie_pending (pe_input_encoder p') = ?inputs"
    "pe_message_out p' = pe_message_out p"
    using sent run bits(1)
    by (auto simp: send_input_def peer_is_running_def send_pending_output_def encoder_encode_def encode_pending_def
        encoder_push_def Let_def bind_eq_Some_conv)
  show ?thesis
  proof (cases "vw_out_shut W (pe_message_out p')")
    case True
    then show ?thesis using p' send_shut[OF ok True, of ?msg] by (simp add: input_sent_def)
  next
    case False
    obtain c where "send X ?msg p' = Some (Inr (), p'\<lparr>pe_message_out := c\<rparr>)"
      "vw_out W c = vw_out W (pe_message_out p') @ [?msg]"
      by (rule send_open[OF ok False])
    then show ?thesis using p' bits(2) by (auto simp: input_sent_def)
  qed
qed

lemma add_local_input_sent:
  assumes codec: "packet_codec (cr_varint X) (cr_pod X)" and ok: "channels_ok X W"
    and rep: "session_rep X W G [] w s"
    and none: "check_simulation_consistency (se_sync s) = None" and running: "\<not> se_synchronizing s"
    and loc: "se_players s ! i = Local" and due: "local_input_due w i t" and bar: "\<not> barred (se_sync s)"
    and fits: "can_send X x s" and res: "add_local_input X i x s = Some (r, s')"
    and j: "j < length (se_players s)" and p: "se_players s ! j = Remote p" "peer_is_running p"
  obtains q where "se_players s' ! j = Remote q"
    and "input_sent X W (se_local_connect_status s') \<lparr>fi_frame = sy_frame_count (se_sync s), fi_input = x\<rparr> p q"
proof -
  have sync: "wo_sync w = se_sync s" and pend: "pending G [] w" and roll: "\<not> sy_rolling_back (se_sync s)"
    and len: "length (se_players s) = sy_player_count (se_sync s)"
    and conn: "all_connected (sy_player_count (se_sync s)) (se_local_connect_status s)"
    using rep by (simp_all add: session_rep_def)
  have i: "i < sy_player_count (se_sync s)" and m0: "0 \<le> sy_frame_count (se_sync s)"
    using due sync by (auto simp: local_input_due_def input_fits_def Let_def)
  have none': "check_simulation_consistency (wo_sync w) = None" and bar': "\<not> barred (wo_sync w)"
    using none bar sync by simp_all
  obtain q' where q: "sync_add_local_input i x (wo_sync w) = Some (Inr (sy_frame_count (wo_sync w)),
      (wo_sync w)\<lparr>sy_input_queues := (sy_input_queues (wo_sync w))[i := q']\<rparr>)"
    by (rule local_queue_ok[OF pend none' due bar'])
  let ?input = "\<lparr>fi_frame = sy_frame_count (se_sync s), fi_input = x\<rparr>"
  have all: "traverse (player_send_input X (se_local_connect_status s') ?input) (se_players s) = Some (se_players s')"
    using res q roll running loc i len conn m0 sync
    by (auto simp: add_local_input_def player_handle_to_queue_def all_connected_def is_null_def bind_eq_Some_conv Let_def)
  then obtain r' q where sent: "send_input X (se_local_connect_status s') ?input p = Some (r', q)" "se_players s' ! j = Remote q"
    using j p(1) by (auto simp: traverse_Some bind_eq_Some_conv dest!: spec[of _ j])
  have "Remote p \<in> set (se_players s)" using j p(1) nth_mem by force
  then have "packet_fits (cr_pod X) (map fi_input (ie_pending (pe_input_encoder p)) @ [fi_input ?input])"
    using fits by (auto simp: can_send_def)
  from send_input_sent[OF codec ok this p(2) sent(1)] sent(2) show ?thesis by (rule that[rotated])
qed

end
