(* ===== verification/Two_Sessions.thy ===== *)
theory Two_Sessions
  imports Peer_Delivery Session_Run
begin

text \<open>
  Two complete sessions of one game for two players: clients, sessions, \<^verbatim>\<open>Sync\<close>, the peers with all their
  tasks, and the network between them. A call of a session is, for its peer, a sequence of the steps of
  \<open>Peer_Delivery\<close>; between the calls the tasks run. So the inputs that arrive at one session are those the
  client of the other one gave, and both clients play the same game.
\<close>

section \<open>Frame delays never change\<close>

definition delays :: "'i sync \<Rightarrow> frame list" where
  "delays sy = map iq_frame_delay (sy_input_queues sy)"

lemma check_prediction_delay: "check_prediction f input q = Some q' \<Longrightarrow> iq_frame_delay q' = iq_frame_delay q"
  by (auto simp: check_prediction_def Let_def bind_eq_Some_conv split: if_split_asm)

lemma add_delayed_input_delay: "add_delayed_input f input q = Some q' \<Longrightarrow> iq_frame_delay q' = iq_frame_delay q"
  by (auto simp: add_delayed_input_def Let_def bind_eq_Some_conv dest!: check_prediction_delay)

lemma pad_queue_delay: "pad_queue e f q = Some q' \<Longrightarrow> iq_frame_delay q' = iq_frame_delay q"
proof (induction e f q rule: pad_queue.induct)
  case (1 e f q)
  note unfold = 1(2)[unfolded pad_queue.simps[of e f q]]
  show ?case using 1(1) unfold by (auto simp: bind_eq_Some_conv split: if_split_asm dest: add_delayed_input_delay)
qed

lemma advance_queue_head_delay:
  "advance_queue_head f q = Some (f', q') \<Longrightarrow> iq_frame_delay q' = iq_frame_delay q"
  by (auto simp: advance_queue_head_def Let_def bind_eq_Some_conv split: if_split_asm dest: pad_queue_delay)

lemma add_input_delay: "add_input input q = Some (f, q') \<Longrightarrow> iq_frame_delay q' = iq_frame_delay q"
  by (auto simp: add_input_def Let_def bind_eq_Some_conv split: if_split_asm
      dest!: advance_queue_head_delay add_delayed_input_delay)

lemma delays_update: "iq_frame_delay q' = iq_frame_delay (qs ! i) \<Longrightarrow> map iq_frame_delay (qs[i := q']) = map iq_frame_delay qs"
  by (cases "i < length qs") (simp_all add: map_update list_update_same_conv list_update_beyond)

lemma add_remote_input_delays: "add_remote_input i input sy = Some sy' \<Longrightarrow> delays sy' = delays sy"
  by (auto simp: add_remote_input_def delays_def bind_eq_Some_conv index_at_def split: if_split_asm
      intro!: delays_update dest!: add_input_delay)

lemma sync_add_local_input_delays: "sync_add_local_input i x sy = Some (r, sy') \<Longrightarrow> delays sy' = delays sy"
  by (auto simp: sync_add_local_input_def delays_def bind_eq_Some_conv index_at_def split: if_split_asm
      intro!: delays_update dest!: add_input_delay)

section \<open>Taking the events of a peer\<close>

text \<open>The events taken from a channel one after the other.\<close>

inductive drains :: "('i, 'e, 'o, 'm) crates \<Rightarrow> 'e \<Rightarrow> 'i peer_event list \<Rightarrow> 'e \<Rightarrow> bool" for X where
  none: "drains X c [] c"
| more: "chan_try_recv (cr_events X) c = (Inr e, d) \<Longrightarrow> drains X d es c' \<Longrightarrow> drains X c (e # es) c'"

definition newest :: "frame \<Rightarrow> 'i frame_input list \<Rightarrow> frame" where
  "newest f inputs = (if inputs = [] then f else fi_frame (last inputs))"

lemma newest_simps [simp]: "newest f [] = f" "newest (newest f as) bs = newest f (as @ bs)"
  by (auto simp: newest_def)

lemma accept_inputs_result:
  "accept_inputs i inputs status sy = Some (status', sy') \<Longrightarrow>
     status' = status\<lparr>cs_last_frame := newest (cs_last_frame status) inputs\<rparr> \<and> delays sy' = delays sy"
proof (induction inputs arbitrary: status sy)
  case (Cons input inputs)
  then obtain sy1 where one: "add_remote_input i input sy = Some sy1"
    "accept_inputs i inputs (status\<lparr>cs_last_frame := fi_frame input\<rparr>) sy1 = Some (status', sy')"
    by (auto simp: Let_def bind_eq_Some_conv)
  then show ?case using Cons.IH[OF one(2)] add_remote_input_delays[OF one(1)] by (simp add: newest_def)
qed simp

text \<open>The status of the player \<open>i\<close> after these inputs.\<close>

definition heard :: "nat \<Rightarrow> 'i frame_input list \<Rightarrow> connection_status list \<Rightarrow> connection_status list" where
  "heard i inputs sts = sts[i := (sts ! i)\<lparr>cs_last_frame := newest (cs_last_frame (sts ! i)) inputs\<rparr>]"

lemma heard_Nil [simp]: "heard i [] sts = sts"
  by (simp add: heard_def)

lemma heard_append: "i < length sts \<Longrightarrow> heard i bs (heard i as sts) = heard i (as @ bs) sts"
  by (simp add: heard_def)

lemma heard_simps [simp]:
  "length (heard i inputs sts) = length sts"
  "j \<noteq> i \<Longrightarrow> heard i inputs sts ! j = sts ! j"
  by (simp_all add: heard_def)

lemma heard_disconnected [simp]: "cs_disconnected (heard i inputs sts ! i) = cs_disconnected (sts ! i)"
  by (cases "i < length sts") (simp_all add: heard_def list_update_beyond)

lemma synchronized_running:
  "synchronized_from sts i players = Some True \<Longrightarrow> j < length players \<Longrightarrow> players ! j = Remote p \<Longrightarrow>
     i + length players \<le> length sts \<Longrightarrow> \<not> cs_disconnected (sts ! (i + j)) \<Longrightarrow> peer_is_running p"
proof (induction players arbitrary: i j)
  case (Cons player players)
  then show ?case
    by (cases j) (auto simp: lazy_and_def bind_eq_Some_conv index_at_def player_is_synchronized_def is_local_def
        split: if_split_asm)
qed simp

lemma check_initial_sync_result:
  assumes "check_initial_sync (cs, s, st) = Some (cs', s', st')"
  shows "se_players s' = se_players s" and "se_local_connect_status s' = se_local_connect_status s"
    and "se_sync s' = se_sync s" and "\<not> se_synchronizing s' \<Longrightarrow> \<not> se_synchronizing s \<or> session_is_synchronized s = Some True"
  using assms by (auto simp: check_initial_sync.simps lazy_and_def bind_eq_Some_conv split: if_split_asm)

lemma handle_event_result:
  assumes h: "handle_event i e (cs, s, st) = Some (cs', s', st')"
    and connected: "\<not> cs_disconnected (se_local_connect_status s ! i)"
  shows "se_players s' = se_players s \<and>
    se_local_connect_status s' = heard i (event_inputs [e]) (se_local_connect_status s) \<and>
    delays (se_sync s') = delays (se_sync s) \<and>
    (se_synchronizing s' \<or> \<not> se_synchronizing s \<or> session_is_synchronized s = Some True)"
proof (cases e)
  case (PeerInputs inputs)
  then obtain status sy where "accept_inputs i inputs (se_local_connect_status s ! i) (se_sync s) = Some (status, sy)"
    "s' = s\<lparr>se_sync := sy, se_local_connect_status := (se_local_connect_status s)[i := status]\<rparr>"
    using h connected by (auto simp: bind_eq_Some_conv index_at_def split: if_split_asm)
  then show ?thesis using accept_inputs_result PeerInputs by (fastforce simp: heard_def)
next
  case PeerSynchronized
  then show ?thesis using h check_initial_sync_result[of _ s st cs' s' st'] by auto
qed (use h in auto)

lemma peer_is_running_events [simp]: "peer_is_running (p\<lparr>pe_events := c\<rparr>) = peer_is_running p"
  by (simp add: peer_is_running_def)

lemma flush_peer_result:
  assumes ok: "channels_ok X W"
  shows "flush_peer_events X i (cs, s, st) = Some (cs', s', st') \<Longrightarrow> i < length (se_players s) \<Longrightarrow>
    length (se_local_connect_status s) = length (se_players s) \<Longrightarrow> se_players s ! i = Remote p \<Longrightarrow>
    \<not> vw_events_shut W (pe_events p) \<Longrightarrow> \<not> cs_disconnected (se_local_connect_status s ! i) \<Longrightarrow>
    \<exists>c. drains X (pe_events p) (vw_events W (pe_events p)) c \<and> vw_events W c = [] \<and> \<not> vw_events_shut W c \<and>
      se_players s' = (se_players s)[i := Remote (p\<lparr>pe_events := c\<rparr>)] \<and>
      se_local_connect_status s' = heard i (event_inputs (vw_events W (pe_events p))) (se_local_connect_status s) \<and>
      delays (se_sync s') = delays (se_sync s) \<and> (se_synchronizing s' \<or> \<not> se_synchronizing s \<or> peer_is_running p)"
proof (induction "vw_events W (pe_events p)" arbitrary: cs s p)
  case Nil
  have ch: "unbounded_channel (cr_events X) (vw_events W) (vw_events_shut W)" using ok by (simp add: channels_ok_def)
  have "flush_peer_events X i (cs, s, st) =
      Some (cs, s\<lparr>se_players := (se_players s)[i := Remote (p\<lparr>pe_events := pe_events p\<rparr>)]\<rparr>, st)"
    by (rule flush_peer_done[OF Nil.prems(2,4) unbounded_channel.try_recv_open[OF ch Nil.hyps[symmetric] Nil.prems(5)]])
  then show ?case using Nil.prems Nil.hyps by (intro exI[of _ "pe_events p"]) (auto intro: drains.none)
next
  case (Cons e es)
  have ch: "unbounded_channel (cr_events X) (vw_events W) (vw_events_shut W)" using ok by (simp add: channels_ok_def)
  obtain d where d: "chan_try_recv (cr_events X) (pe_events p) = (Inr e, d)" "vw_events W d = es" "\<not> vw_events_shut W d"
    using unbounded_channel.try_recv_item[OF ch Cons.hyps(2)[symmetric]] Cons.prems(5) by auto
  let ?p = "p\<lparr>pe_events := d\<rparr>"
  let ?s = "s\<lparr>se_players := (se_players s)[i := Remote ?p]\<rparr>"
  obtain cs1 s1 st1 where one: "handle_event i e (cs, ?s, st) = Some (cs1, s1, st1)"
    "flush_peer_events X i (cs1, s1, st1) = Some (cs', s', st')"
    using Cons.prems(1) flush_peer_step[OF Cons.prems(2,4) d(1), of cs st] by (auto simp: bind_eq_Some_conv)
  have "\<not> cs_disconnected (se_local_connect_status ?s ! i)" using Cons.prems(6) by simp
  note h = handle_event_result[OF one(1) this]
  have st1: "st1 = st"
    using one(1) by (cases e) (auto simp: check_initial_sync.simps bind_eq_Some_conv split: if_split_asm)
  have "\<exists>c. drains X (pe_events ?p) (vw_events W (pe_events ?p)) c \<and> vw_events W c = [] \<and> \<not> vw_events_shut W c \<and>
      se_players s' = (se_players s1)[i := Remote (?p\<lparr>pe_events := c\<rparr>)] \<and>
      se_local_connect_status s' = heard i (event_inputs (vw_events W (pe_events ?p))) (se_local_connect_status s1) \<and>
      delays (se_sync s') = delays (se_sync s1) \<and> (se_synchronizing s' \<or> \<not> se_synchronizing s1 \<or> peer_is_running ?p)"
    by (rule Cons.hyps(1)[OF _ one(2)[unfolded st1]]) (use h Cons.prems d in auto)
  then obtain c where c: "drains X d es c" "vw_events W c = []" "\<not> vw_events_shut W c"
    "se_players s' = (se_players s)[i := Remote (p\<lparr>pe_events := c\<rparr>)]"
    "se_local_connect_status s' = heard i (event_inputs es) (se_local_connect_status s1)"
    "delays (se_sync s') = delays (se_sync s1)" "se_synchronizing s' \<or> \<not> se_synchronizing s1 \<or> peer_is_running p"
    using h d(2) by auto
  have "peer_is_running p" if "session_is_synchronized ?s = Some True"
    using synchronized_running[of "se_local_connect_status ?s" 0 "se_players ?s" i ?p] that Cons.prems(2,3,6)
    by (simp add: session_is_synchronized_def)
  then have run: "se_synchronizing s' \<or> \<not> se_synchronizing s \<or> peer_is_running p" using c(7) h by auto
  have "event_inputs (e # es) = event_inputs [e] @ event_inputs es" by (cases e) simp_all
  then have heard: "se_local_connect_status s' = heard i (event_inputs (e # es)) (se_local_connect_status s)"
    using c(5) h Cons.prems(2,3) by (simp add: heard_append)
  have same: "delays (se_sync s') = delays (se_sync s)" using c(6) h by simp
  show ?case
    unfolding Cons.hyps(2)[symmetric] using c(2-4) drains.more[OF d(1) c(1)] heard same run by blast
qed

section \<open>The rest of a poll\<close>

text \<open>What the session does to its peers apart from taking their events.\<close>

definition routine_player ::
    "('i, 'e, 'o, 'm) crates \<Rightarrow> ('i, 'e, 'o, 'm) peer player_type \<Rightarrow> ('i, 'e, 'o, 'm) peer player_type \<Rightarrow> bool" where
  "routine_player X a b \<longleftrightarrow> (\<exists>p q. a = Remote p \<and> b = Remote q \<and> peer_routine X p q \<and> pe_state q = pe_state p)"

lemma routine_player_Remote:
  "(routine_player X)\<^sup>*\<^sup>* (Remote p) b \<Longrightarrow> \<exists>q. b = Remote q \<and> (peer_routine X)\<^sup>*\<^sup>* p q \<and> pe_state q = pe_state p"
proof (induction rule: rtranclp_induct)
  case (step b c)
  then show ?case by (auto simp: routine_player_def intro: rtranclp.rtrancl_into_rtrancl)
qed simp

lemma set_frame_routine:
  "player_set_local_frame_number f a = Some b \<Longrightarrow> (routine_player X)\<^sup>*\<^sup>* a b"
proof (cases a)
  case (Remote p)
  assume "player_set_local_frame_number f a = Some b"
  then obtain q where q: "set_local_frame_number f p = Some q" "b = Remote q" using Remote by (auto simp: bind_eq_Some_conv)
  have "pe_state q = pe_state p" using q(1) by (auto simp: set_local_frame_number_def Let_def bind_eq_Some_conv)
  then have "routine_player X a b" using q Remote peer_routine.frame_number by (auto simp: routine_player_def)
  then show ?thesis by blast
qed simp

lemma recommend_routine:
  "recommend_all players = Some (ds, players') \<Longrightarrow>
     length players' = length players \<and> (\<forall>i < length players. (routine_player X)\<^sup>*\<^sup>* (players ! i) (players' ! i))"
proof (induction players arbitrary: ds players')
  case (Cons player players)
  show ?case
  proof (cases player)
    case Local
    then show ?thesis using Cons by (auto simp: bind_eq_Some_conv nth_Cons split: nat.split)
  next
    case (Remote p)
    then obtain d q ds' ps where q: "recommend_frame_delay p = Some (d, q)" "recommend_all players = Some (ds', ps)"
      "players' = Remote q # ps"
      using Cons.prems by (auto simp: bind_eq_Some_conv)
    have "pe_state q = pe_state p" using q(1) by (auto simp: recommend_frame_delay_def bind_eq_Some_conv)
    then have "routine_player X (Remote p) (Remote q)" using q(1) peer_routine.frame_delay by (auto simp: routine_player_def)
    then show ?thesis using Cons.IH[OF q(2)] q(3) Remote by (auto simp: nth_Cons split: nat.split)
  qed
qed simp

lemma rep_queues: "session_rep X W G cs w s \<Longrightarrow> length (sy_input_queues (se_sync s)) = sy_player_count (se_sync s)"
  by (auto simp: session_rep_def pending_def world_rep_def Let_def)

lemma same_inputs_delays:
  "length (sy_input_queues sy') = length (sy_input_queues sy) \<Longrightarrow>
     (\<And>i. i < length (sy_input_queues sy) \<Longrightarrow> same_inputs (sy_input_queues sy ! i) (sy_input_queues sy' ! i)) \<Longrightarrow>
     delays sy' = delays sy"
  by (auto simp: delays_def same_inputs_def intro!: nth_equalityI)

lemma check_session_delays:
  assumes rep: "session_rep X W G cs w s" and ld: "loads cs = {}"
    and rep': "session_rep X W G cs' w' (s\<lparr>se_sync := sy\<rparr>)"
    and n: "sy_player_count sy = sy_player_count (se_sync s)"
    and res: "with_sync (check_simulation (pod_zeroed (cr_pod X)) (se_local_connect_status s)) (cs, s, wo_store w)
      = Some (cs', s\<lparr>se_sync := sy\<rparr>, store)"
  shows "delays sy = delays (se_sync s)"
proof -
  have sync: "wo_sync w = se_sync s" and pend: "pending G cs w" and z: "gm_zero G = pod_zeroed (cr_pod X)"
    and conn: "all_connected (sy_player_count (se_sync s)) (se_local_connect_status s)"
    using rep by (simp_all add: session_rep_def)
  obtain cs1 sy1 store1 where made:
    "check_simulation (gm_zero G) (statuses_of (sy_player_count (wo_sync w))) (cs, wo_sync w, wo_store w)
      = Some (cs @ cs1, sy1, store1)"
    "\<And>p. p < sy_player_count (wo_sync w) \<Longrightarrow> same_inputs (sy_input_queues (wo_sync w) ! p) (sy_input_queues sy1 ! p)"
    by (rule check_made[OF pend ld]) blast
  have "s\<lparr>se_sync := sy1\<rparr> = s\<lparr>se_sync := sy\<rparr>"
    using made(1) res sync z by (simp add: check_simulation_connected[OF conn])
  then have "sy1 = sy" by (metis session.select_convs(1) session.surjective session.update_convs(1))
  then show ?thesis
    using made(2) sync rep_queues[OF rep] rep_queues[OF rep'] n by (intro same_inputs_delays) simp_all
qed

definition routine_call :: "('i, 'e, 'o, 'm) crates \<Rightarrow> ('i, 'e, 'o, 'm) session \<Rightarrow> ('i, 'e, 'o, 'm) session \<Rightarrow> bool" where
  "routine_call X s s' \<longleftrightarrow> se_local_connect_status s' = se_local_connect_status s \<and>
     se_synchronizing s' = se_synchronizing s \<and> delays (se_sync s') = delays (se_sync s) \<and>
     length (se_players s') = length (se_players s) \<and>
     (\<forall>i < length (se_players s). (routine_player X)\<^sup>*\<^sup>* (se_players s ! i) (se_players s' ! i))"

lemma routine_call_refl: "routine_call X s s"
  by (simp add: routine_call_def)

lemma routine_call_trans: "routine_call X a b \<Longrightarrow> routine_call X b c \<Longrightarrow> routine_call X a c"
  by (auto simp: routine_call_def intro: rtranclp_trans)

lemma confirm_run_result:
  assumes "confirm_run c (cs, s, st) = Some (cs', s', st')"
  shows "routine_call X s s'"
proof (cases "c \<ge> 0")
  case True
  then obtain sy where sy: "set_last_confirmed_frame c (se_sync s) = Some sy" "s' = s\<lparr>se_sync := sy\<rparr>"
    using assms by (auto simp: bind_eq_Some_conv)
  have "delays sy = delays (se_sync s)"
    using sy(1) by (rule set_last_confirmed_keeps) (auto simp: delays_def intro!: nth_equalityI)
  then show ?thesis using sy(2) by (simp add: routine_call_def)
next
  case False
  then show ?thesis using assms routine_call_refl by simp
qed

lemma notify_result:
  assumes "notify_time_sync f (cs, s, st) = Some (cs', s', st')"
  shows "routine_call X s s'"
proof (cases "f > se_next_recommended_sleep s")
  case True
  then obtain ds players where r: "recommend_all (se_players s) = Some (ds, players)"
    using assms by (auto simp: notify_time_sync.simps bind_eq_Some_conv)
  have "se_players s' = players \<and> se_sync s' = se_sync s \<and> se_synchronizing s' = se_synchronizing s \<and>
      se_local_connect_status s' = se_local_connect_status s"
    using assms r True by (cases ds) (auto simp: notify_time_sync.simps bind_eq_Some_conv)
  then show ?thesis using recommend_routine[OF r, of X] by (simp add: routine_call_def)
next
  case False
  then show ?thesis using assms routine_call_refl by (simp add: notify_time_sync.simps)
qed

lemma poll_running_result:
  assumes rep: "session_rep X W G cs w s" and ld: "loads cs = {}" and mix: "mixed s"
    and calm: "players_calm (sy_frame_count (se_sync s)) s"
    and res: "poll_running X (cs, s, wo_store w) = Some (cs', s', st')"
  shows "routine_call X s s'"
proof -
  let ?f = "sy_frame_count (se_sync s)"
  obtain cs1 sy1 store where c1:
    "with_sync (check_simulation (pod_zeroed (cr_pod X)) (se_local_connect_status s)) (cs, s, wo_store w)
      = Some (cs @ cs1, s\<lparr>se_sync := sy1\<rparr>, store)"
    "session_rep X W G (cs @ cs1) (w\<lparr>wo_sync := sy1, wo_store := store\<rparr>) (s\<lparr>se_sync := sy1\<rparr>)"
    "sy_frame_count sy1 = ?f" "sy_player_count sy1 = sy_player_count (se_sync s)"
    by (rule check_session_ok[OF rep ld])
  let ?s1 = "s\<lparr>se_sync := sy1\<rparr>"
  have one: "routine_call X s ?s1"
    using check_session_delays[OF rep ld c1(2,4,1)] by (simp add: routine_call_def)
  have "players_calm ?f ?s1" using calm by (simp add: players_calm_def)
  then obtain players where p: "traverse (player_set_local_frame_number ?f) (se_players ?s1) = Some players"
    "length players = length (se_players ?s1)"
    "\<And>i. i < length (se_players ?s1) \<Longrightarrow> same_role (se_players ?s1 ! i) (players ! i)"
    by (rule set_frame_numbers) blast
  let ?s2 = "?s1\<lparr>se_players := players\<rparr>"
  have two: "routine_call X ?s1 ?s2"
    using p(1) by (auto simp: routine_call_def traverse_Some intro: set_frame_routine)
  note rep2 = same_role_rep[OF c1(2) p(2,3)]
  have "roles ?s2 = roles s" by (rule same_roles) (use p(2,3) same_role_local in auto)
  then have mix2: "mixed ?s2" using mix by (simp add: mixed_def)
  obtain c where c: "confirmed_frame X ?f (cs @ cs1, ?s2, store) = Some (c, (cs @ cs1, ?s2, store))"
    by (rule confirmed_frame_ok[OF rep2 mix2])
  have "poll_running X (cs, s, wo_store w) =
      Option.bind (confirm_run c (cs @ cs1, ?s2, store)) (notify_time_sync ?f)"
    unfolding poll_running_def using c1(1,3) p(1) c by (simp del: with_sync.simps confirm_run.simps)
  then have "Option.bind (confirm_run c (cs @ cs1, ?s2, store)) (notify_time_sync ?f) = Some (cs', s', st')"
    using res by (simp only:)
  then obtain run where run: "confirm_run c (cs @ cs1, ?s2, store) = Some run" "notify_time_sync ?f run = Some (cs', s', st')"
    by (blast dest: iffD1[OF bind_eq_Some_conv])
  obtain cs3 s3 st3 where s3: "run = (cs3, s3, st3)" by (cases run)
  have "routine_call X ?s2 s'"
    using confirm_run_result[OF run(1)[unfolded s3]] notify_result[OF run(2)[unfolded s3]] by (rule routine_call_trans)
  then show ?thesis using one two routine_call_trans by blast
qed

lemma do_poll_routine:
  assumes ok: "channels_ok X W" and rep: "session_rep X W G cs w s" and ld: "loads cs = {}" and mix: "mixed s"
    and calm: "players_calm (sy_frame_count (se_sync s)) s"
    and arr: "\<forall>i < sy_player_count (se_sync s). arriving W G w s h i"
    and res: "do_poll X (cs, s, wo_store w) = Some (cs', s', st')"
    and flushed: "flush_events X (cs, s, wo_store w) = Some (cs1, s1, st1)"
  shows "routine_call X s1 s'"
proof -
  have roll: "\<not> sy_rolling_back (se_sync s)" and n: "length (se_players s) = sy_player_count (se_sync s)"
    using rep by (simp_all add: session_rep_def)
  have "\<exists>ces s' w'. flush_from X 0 (se_players s) (cs, s, wo_store w) = Some (cs @ ces, s', wo_store w) \<and> only_events ces \<and>
      session_rep X W G (cs @ ces) w' s' \<and>
      wo_store w' = wo_store w \<and> wo_state w' = wo_state w \<and>
      (\<forall>j < sy_player_count (se_sync s). wo_inputs w' j = h j \<and> same_player (se_players s ! j) (se_players s' ! j)) \<and>
      (\<exists>qs. se_sync s' = (se_sync s)\<lparr>sy_input_queues := qs\<rparr>) \<and>
      (se_synchronizing s' \<longrightarrow> se_synchronizing s) \<and>
      se_next_recommended_sleep s' = se_next_recommended_sleep s"
    by (rule flush_from_ok[OF ok rep]) (use n arr in auto)
  then obtain ces s2 w1 where fl: "flush_from X 0 (se_players s) (cs, s, wo_store w) = Some (cs @ ces, s2, wo_store w)"
      "only_events ces" "session_rep X W G (cs @ ces) w1 s2" "wo_store w1 = wo_store w"
      "\<forall>j < sy_player_count (se_sync s). same_player (se_players s ! j) (se_players s2 ! j)"
      "\<exists>qs. se_sync s2 = (se_sync s)\<lparr>sy_input_queues := qs\<rparr>"
    by blast
  have eq: "cs1 = cs @ ces" "s1 = s2" "st1 = wo_store w1" using flushed fl(1,4) by (simp_all add: flush_events_def)
  have rep1: "session_rep X W G cs1 w1 s2" using fl(3) eq(1) by simp
  have same: "sy_frame_count (se_sync s2) = sy_frame_count (se_sync s)" "sy_player_count (se_sync s2) = sy_player_count (se_sync s)"
    using fl(6) by auto
  have after: "do_poll X (cs, s, wo_store w) =
      (if se_synchronizing s2 then Some (cs1, s2, wo_store w1) else poll_running X (cs1, s2, wo_store w1))"
    using roll flushed eq by (simp add: do_poll_def)
  have "routine_call X s2 s'"
  proof (cases "se_synchronizing s2")
    case True
    then show ?thesis using after res routine_call_refl by simp
  next
    case False
    have n1: "length (se_players s2) = length (se_players s)" using rep1 same n by (simp add: session_rep_def)
    have sp: "same_player (se_players s ! i) (se_players s2 ! i)" if "i < length (se_players s)" for i
      using fl(5) that n by simp
    have calm1: "players_calm (sy_frame_count (se_sync s2)) s2"
      unfolding same by (rule players_calm_same[OF calm n1 sp])
    have "roles s2 = roles s" by (rule same_roles[OF n1]) (use sp same_player_local in blast)
    then have mix1: "mixed s2" using mix by (simp add: mixed_def)
    have ld1: "loads cs1 = {}" using ld only_events_loads[OF fl(2)] eq(1) by (simp add: loads_def)
    have "poll_running X (cs1, s2, wo_store w1) = Some (cs', s', st')" using after res False by simp
    then show ?thesis by (rule poll_running_result[OF rep1 ld1 mix1 calm1])
  qed
  then show ?thesis using eq(2) by simp
qed

section \<open>Sessions of two players\<close>

text \<open>Player \<open>l\<close> is local, player \<open>r\<close> is the remote one with the peer \<open>p\<close>.\<close>

definition seated ::
    "nat \<Rightarrow> nat \<Rightarrow> ('i, 'e, 'o, 'm) peer \<Rightarrow> ('i, 'e, 'o, 'm) session \<Rightarrow> bool" where
  "seated l r p s \<longleftrightarrow> (l = 0 \<and> r = 1 \<and> se_players s = [Local, Remote p] \<or>
     l = 1 \<and> r = 0 \<and> se_players s = [Remote p, Local])"

lemma seatedD:
  assumes "seated l r p s"
  shows "length (se_players s) = 2" "l < 2" "r < 2" "l \<noteq> r" "se_players s ! l = Local" "se_players s ! r = Remote p"
  using assms by (auto simp: seated_def)

lemma seated_update: "seated l r p s \<Longrightarrow> se_players s' = (se_players s)[r := Remote q] \<Longrightarrow> seated l r q s'"
  by (auto simp: seated_def)

lemma seated_flush: "seated l r p s \<Longrightarrow> flush_from X 0 (se_players s) run = flush_peer_events X r run"
  by (cases "flush_peer_events X r run") (auto simp: seated_def)

lemma seated_routine:
  assumes "seated l r p s" and "routine_call X s s'"
  obtains q where "seated l r q s'" and "(peer_routine X)\<^sup>*\<^sup>* p q" and "pe_state q = pe_state p"
proof -
  have "(routine_player X)\<^sup>*\<^sup>* Local b \<Longrightarrow> b = Local" for b
    by (induction rule: rtranclp_induct) (auto simp: routine_player_def)
  then have l: "se_players s' ! l = Local" and len: "length (se_players s') = 2"
    and r: "(routine_player X)\<^sup>*\<^sup>* (Remote p) (se_players s' ! r)"
    using assms seatedD[OF assms(1)] by (auto simp: routine_call_def)
  obtain q where q: "se_players s' ! r = Remote q" "(peer_routine X)\<^sup>*\<^sup>* p q" "pe_state q = pe_state p"
    using routine_player_Remote[OF r] by blast
  have "se_players s' = [se_players s' ! 0, se_players s' ! 1]"
    using len by (cases "se_players s'"; cases "tl (se_players s')") auto
  then have "seated l r q s'" using l q(1) assms(1) by (auto simp: seated_def)
  then show ?thesis using q that by blast
qed

text \<open>What a poll does for the peer and for what the session knows of the players.\<close>

definition polled ::
    "('i, 'e, 'o, 'm) crates \<Rightarrow> ('i, 'e, 'o, 'm) views \<Rightarrow> nat \<Rightarrow> ('i, 'e, 'o, 'm) peer \<Rightarrow> ('i, 'e, 'o, 'm) session \<Rightarrow>
       ('i, 'e, 'o, 'm) peer \<Rightarrow> ('i, 'e, 'o, 'm) session \<Rightarrow> bool" where
  "polled X W r p s q s' \<longleftrightarrow>
     (\<exists>c. drains X (pe_events p) (vw_events W (pe_events p)) c \<and> vw_events W c = [] \<and>
        (peer_routine X)\<^sup>*\<^sup>* (p\<lparr>pe_events := c\<rparr>) q) \<and>
     pe_state q = pe_state p \<and> delays (se_sync s') = delays (se_sync s) \<and>
     se_local_connect_status s' = heard r (event_inputs (vw_events W (pe_events p))) (se_local_connect_status s) \<and>
     (se_synchronizing s' \<or> \<not> se_synchronizing s \<or> peer_is_running p)"

lemma do_poll_result:
  assumes ok: "channels_ok X W" and rep: "session_rep X W G cs w s" and ld: "loads cs = {}" and mix: "mixed s"
    and calm: "players_calm (sy_frame_count (se_sync s)) s"
    and arr: "\<forall>i < sy_player_count (se_sync s). arriving W G w s h i" and seat: "seated l r p s"
    and res: "do_poll X (cs, s, wo_store w) = Some (cs', s', st')"
  shows "\<exists>q. seated l r q s' \<and> polled X W r p s q s'"
proof -
  note seat' = seatedD[OF seat]
  have roll: "\<not> sy_rolling_back (se_sync s)" and n: "sy_player_count (se_sync s) = 2"
    and conn: "all_connected 2 (se_local_connect_status s)" and pr: "player_rep W w s r"
    using rep seat' by (auto simp: session_rep_def)
  have "\<exists>ces s' w'. flush_from X 0 (se_players s) (cs, s, wo_store w) = Some (cs @ ces, s', wo_store w) \<and> only_events ces \<and>
      session_rep X W G (cs @ ces) w' s' \<and>
      wo_store w' = wo_store w \<and> wo_state w' = wo_state w \<and>
      (\<forall>j < sy_player_count (se_sync s). wo_inputs w' j = h j \<and> same_player (se_players s ! j) (se_players s' ! j)) \<and>
      (\<exists>qs. se_sync s' = (se_sync s)\<lparr>sy_input_queues := qs\<rparr>) \<and>
      (se_synchronizing s' \<longrightarrow> se_synchronizing s) \<and>
      se_next_recommended_sleep s' = se_next_recommended_sleep s"
    by (rule flush_from_ok[OF ok rep]) (use n seat' arr in auto)
  then obtain ces s1 w1 where fl: "flush_from X 0 (se_players s) (cs, s, wo_store w) = Some (cs @ ces, s1, wo_store w)"
      "only_events ces" "session_rep X W G (cs @ ces) w1 s1" "wo_store w1 = wo_store w"
      "\<forall>j < sy_player_count (se_sync s). wo_inputs w1 j = h j \<and> same_player (se_players s ! j) (se_players s1 ! j)"
      "\<exists>qs. se_sync s1 = (se_sync s)\<lparr>sy_input_queues := qs\<rparr>"
    by blast
  have "\<exists>c. drains X (pe_events p) (vw_events W (pe_events p)) c \<and> vw_events W c = [] \<and> \<not> vw_events_shut W c \<and>
      se_players s1 = (se_players s)[r := Remote (p\<lparr>pe_events := c\<rparr>)] \<and>
      se_local_connect_status s1 = heard r (event_inputs (vw_events W (pe_events p))) (se_local_connect_status s) \<and>
      delays (se_sync s1) = delays (se_sync s) \<and> (se_synchronizing s1 \<or> \<not> se_synchronizing s \<or> peer_is_running p)"
    by (rule flush_peer_result[OF ok fl(1)[unfolded seated_flush[OF seat]]])
      (use seat' conn pr in \<open>auto simp: all_connected_def player_rep_def Let_def\<close>)
  then obtain c where c: "drains X (pe_events p) (vw_events W (pe_events p)) c" "vw_events W c = []"
      "se_players s1 = (se_players s)[r := Remote (p\<lparr>pe_events := c\<rparr>)]"
      "se_local_connect_status s1 = heard r (event_inputs (vw_events W (pe_events p))) (se_local_connect_status s)"
      "delays (se_sync s1) = delays (se_sync s)" "se_synchronizing s1 \<or> \<not> se_synchronizing s \<or> peer_is_running p"
    by blast
  have seat1: "seated l r (p\<lparr>pe_events := c\<rparr>) s1" by (rule seated_update[OF seat c(3)])
  have "flush_events X (cs, s, wo_store w) = Some (cs @ ces, s1, wo_store w1)"
    using fl(1,4) by (simp add: flush_events_def)
  then have "routine_call X s1 s'" by (rule do_poll_routine[OF ok rep ld mix calm arr res])
  moreover from this obtain q where "seated l r q s'" "(peer_routine X)\<^sup>*\<^sup>* (p\<lparr>pe_events := c\<rparr>) q" "pe_state q = pe_state p"
    by (rule seated_routine[OF seat1]) simp
  ultimately show ?thesis using c by (auto simp: polled_def routine_call_def)
qed

section \<open>A call as steps of the peer\<close>

text \<open>The end of a connection after its session took \<open>events\<close>, sent \<open>inputs\<close> and left the peer \<open>p\<close>.\<close>

definition called ::
    "('i, 'e, 'o, 'm) peer \<Rightarrow> 'i peer_event list \<Rightarrow> 'i list \<Rightarrow> ('i, 'e, 'o, 'm) endpoint \<Rightarrow> ('i, 'e, 'o, 'm) endpoint" where
  "called p events inputs e = e\<lparr>ep_conn := (ep_conn e)\<lparr>cn_session := p, cn_task := shared_with p (cn_task (ep_conn e)),
     cn_received := cn_received (ep_conn e) @ events\<rparr>, ep_pushed := ep_pushed e @ inputs\<rparr>"

lemma called_simps [simp]:
  "ep_peer (called p events inputs e) = p" "ep_wire (called p events inputs e) = ep_wire e"
  "ep_pushed (called p events inputs e) = ep_pushed e @ inputs"
  "cn_received (ep_conn (called p events inputs e)) = cn_received (ep_conn e) @ events"
  "called q es xs (called p ds ws e) = called q (ds @ es) (ws @ xs) e"
  "clones_agree (called p events inputs e)"
  by (simp_all add: called_def clones_agree_def)

lemma called_same: "clones_agree e \<Longrightarrow> called (ep_peer e) [] [] e = e"
  by (cases e; cases "ep_conn e") (simp add: called_def clones_agree_def)

lemma called_moved: "e\<lparr>ep_conn := session_moved p (ep_conn e)\<rparr> = called p [] [] e"
  by (simp add: called_def session_moved_def)

abbreviation endpoint_steps ::
    "('i, 'e, 'o, 'm) crates \<Rightarrow> (message \<Rightarrow> unit + u8 list) \<Rightarrow> (u8 list \<Rightarrow> unit + message) \<Rightarrow> u8 list set \<Rightarrow>
       ('i, 'e, 'o, 'm) endpoint \<Rightarrow> ('i, 'e, 'o, 'm) endpoint \<Rightarrow> bool" where
  "endpoint_steps X ser des wire \<equiv> (endpoint_step X ser des wire)\<^sup>*\<^sup>*"

lemma drained_steps:
  "drains X d es c \<Longrightarrow> pe_events (ep_peer e) = d \<Longrightarrow> clones_agree e \<Longrightarrow>
     endpoint_steps X ser des wire e (called ((ep_peer e)\<lparr>pe_events := c\<rparr>) es [] e)"
proof (induction arbitrary: e rule: drains.induct)
  case (none c)
  then have "(ep_peer e)\<lparr>pe_events := c\<rparr> = ep_peer e" by simp
  then show ?case using called_same[OF none(2)] by simp
next
  case (more c ev d es c')
  let ?e = "called ((ep_peer e)\<lparr>pe_events := d\<rparr>) [ev] [] e"
  have "endpoint_step X ser des wire e (e\<lparr>ep_conn := (session_moved ((ep_peer e)\<lparr>pe_events := d\<rparr>) (ep_conn e))
      \<lparr>cn_received := cn_received (ep_conn e) @ [ev]\<rparr>\<rparr>)"
    by (rule endpoint_step.task, rule conn_task.receive) (use more in simp)
  then have "endpoint_step X ser des wire e ?e" by (simp add: called_def session_moved_def)
  moreover have "endpoint_steps X ser des wire ?e (called ((ep_peer ?e)\<lparr>pe_events := c'\<rparr>) es [] ?e)"
    by (rule more.IH) simp_all
  ultimately show ?case by (simp add: converse_rtranclp_into_rtranclp)
qed

lemma routine_steps:
  "(peer_routine X)\<^sup>*\<^sup>* p q \<Longrightarrow> ep_peer e = p \<Longrightarrow> clones_agree e \<Longrightarrow>
     endpoint_steps X ser des wire e (called q [] [] e)"
proof (induction rule: rtranclp_induct)
  case base
  then show ?case by (auto simp: called_same)
next
  case (step p' q)
  have "endpoint_step X ser des wire (called p' [] [] e) (called q [] [] (called p' [] [] e))"
    unfolding called_moved[symmetric] by (rule endpoint_step.routine) (use step.hyps(2) in \<open>simp add: session_moved_def\<close>)
  then show ?case using step by (simp add: rtranclp.rtrancl_into_rtrancl)
qed

lemma polled_steps:
  assumes "polled X W r (ep_peer e) s q s'" and "clones_agree e"
  shows "endpoint_steps X ser des wire e (called q (vw_events W (pe_events (ep_peer e))) [] e)"
proof -
  let ?es = "vw_events W (pe_events (ep_peer e))"
  obtain c where c: "drains X (pe_events (ep_peer e)) ?es c" "(peer_routine X)\<^sup>*\<^sup>* ((ep_peer e)\<lparr>pe_events := c\<rparr>) q"
    using assms(1) by (auto simp: polled_def)
  let ?e = "called ((ep_peer e)\<lparr>pe_events := c\<rparr>) ?es [] e"
  have "endpoint_steps X ser des wire e ?e" by (rule drained_steps[OF c(1) refl assms(2)])
  moreover have "endpoint_steps X ser des wire ?e (called q [] [] ?e)" by (rule routine_steps[OF c(2)]) simp_all
  ultimately show ?thesis by simp
qed

text \<open>A running peer stays running until it disconnects: the handshake is not repeated.\<close>

definition shakes :: "('i, 'e, 'o, 'm) views \<Rightarrow> ('i, 'e, 'o, 'm) endpoint \<Rightarrow> nat" where
  "shakes W e = length (filter is_handshake_event (event_log W (ep_conn e)))"

lemma port_steps_shakes: "port_steps pack unpack N K A a a' \<Longrightarrow> po_shakes a \<le> po_shakes a'"
  by (induction rule: rtranclp_induct) (auto elim: port_step.cases)

lemma shakes_mono:
  assumes "channels_ok X W" and "\<And>m bytes. ser m = Inr bytes \<Longrightarrow> des bytes = Inr m"
    and "clones_agree e" and "endpoint_step X ser des wire e e'"
  shows "shakes W e \<le> shakes W e'"
  using port_steps_shakes[OF endpoint_step_run[OF assms]]
  by (simp add: port_def peer_port_def shakes_def event_log_def)

lemma endpoint_steps_keep:
  assumes "channels_ok X W" and "\<And>m bytes. ser m = Inr bytes \<Longrightarrow> des bytes = Inr m"
    and "clones_agree e" and "endpoint_steps X ser des wire e e'"
  shows "shakes W e \<le> shakes W e' \<and> clones_agree e'"
  using assms(4)
proof (induction rule: rtranclp_induct)
  case (step e1 e2)
  then show ?case using shakes_mono[OF assms(1,2) _ step.hyps(2)] clones_agree_step[OF step.hyps(2)] by fastforce
qed (simp add: assms(3))

lemma endpoint_conn_step:
  assumes "endpoint_step X ser des wire e e'"
  shows "conn_step X (ep_conn e) (ep_conn e')"
  using assms
proof cases
  case (input i statuses r p)
  then show ?thesis using conn_step.action[OF peer_action.input[OF input(5)]] by simp
next
  case (late_input statuses i r p)
  then show ?thesis using conn_step.action[OF peer_action.input[OF late_input(3)]] by simp
next
  case (outgoing data c delivered now magic seq again packet seq' p)
  then show ?thesis using conn_step.action[OF peer_action.outgoing[OF outgoing(2,3)]] by simp
next
  case (incoming bytes seq r p)
  then show ?thesis using conn_step.action[OF peer_action.incoming[OF incoming(3)]] by simp
next
  case (routine p)
  then show ?thesis using conn_step.action[OF peer_action.routine[OF routine(2)]] by simp
next
  case (task c)
  then show ?thesis using conn_step.task by simp
qed

lemma length_full_handshake: "length full_handshake = Suc NUM_SYNC_PACKETS" "length (handshake k) = Suc k"
  by (simp_all add: full_handshake_def handshake_def NUM_SYNC_PACKETS_def)

lemma shakes_running:
  assumes inv: "conn_inv W (cn_received (ep_conn e)) (ep_peer e)"
  shows "peer_is_running (ep_peer e) \<Longrightarrow> shakes W e = Suc NUM_SYNC_PACKETS"
    and "Suc NUM_SYNC_PACKETS \<le> shakes W e \<Longrightarrow> \<not> vw_events_shut W (pe_events (ep_peer e)) \<Longrightarrow> peer_is_running (ep_peer e)"
proof -
  let ?log = "filter is_handshake_event (event_log W (ep_conn e))"
  have p: "progress (pe_state (ep_peer e)) ?log" and shut: "vw_events_shut W (pe_events (ep_peer e)) \<longleftrightarrow> pe_state (ep_peer e) = PeerDisconnected"
    using inv by (simp_all add: conn_inv_def event_log_def)
  show "shakes W e = Suc NUM_SYNC_PACKETS" if "peer_is_running (ep_peer e)"
    using that p by (cases "pe_state (ep_peer e)") (simp_all add: peer_is_running_def shakes_def length_full_handshake)
  show "peer_is_running (ep_peer e)" if "Suc NUM_SYNC_PACKETS \<le> shakes W e" "\<not> vw_events_shut W (pe_events (ep_peer e))"
    using that p shut
    by (cases "pe_state (ep_peer e)") (auto simp: peer_is_running_def shakes_def length_full_handshake)
qed

lemma peers_conn_reachable:
  "peers_reachable X ser des p q a b \<Longrightarrow> conn_reachable X p (ep_conn a) \<and> conn_reachable X q (ep_conn b)"
proof (induction rule: peers_reachable.induct)
  case start
  then show ?case by (simp add: endpoint_new_def conn_reachable.start)
next
  case (first a b a')
  then show ?case using conn_reachable.step[OF _ endpoint_conn_step[OF first.hyps(2)]] by blast
next
  case (second a b b')
  then show ?case using conn_reachable.step[OF _ endpoint_conn_step[OF second.hyps(2)]] by blast
qed

lemma peers_steps_first:
  "endpoint_steps X ser des (ep_wire b) a a' \<Longrightarrow> peers_reachable X ser des p q a b \<Longrightarrow> peers_reachable X ser des p q a' b"
  by (induction rule: rtranclp_induct) (auto intro: peers_reachable.first)

lemma peers_steps_second:
  "endpoint_steps X ser des (ep_wire a) b b' \<Longrightarrow> peers_reachable X ser des p q a b \<Longrightarrow> peers_reachable X ser des p q a b'"
  by (induction rule: rtranclp_induct) (auto intro: peers_reachable.second)

text \<open>A local input goes to the peer with the current frame.\<close>

lemma add_local_input_result:
  assumes res: "add_local_input X l x s = Some (Inr (), s')" and roll: "\<not> sy_rolling_back (se_sync s)"
    and running: "\<not> se_synchronizing s" and f: "0 \<le> sy_frame_count (se_sync s)" and seat: "seated l r p s"
  obtains ret q where "seated l r q s'"
    and "send_input X (se_local_connect_status s') \<lparr>fi_frame = sy_frame_count (se_sync s), fi_input = x\<rparr> p = Some (ret, q)"
    and "se_local_connect_status s' = (se_local_connect_status s)
      [l := (se_local_connect_status s ! l)\<lparr>cs_last_frame := sy_frame_count (se_sync s)\<rparr>]"
    and "delays (se_sync s') = delays (se_sync s)" and "se_synchronizing s' = se_synchronizing s"
proof -
  let ?f = "sy_frame_count (se_sync s)"
  let ?sts = "(se_local_connect_status s)[l := (se_local_connect_status s ! l)\<lparr>cs_last_frame := ?f\<rparr>]"
  define added where "added = sync_add_local_input l x (se_sync s)"
  obtain u sy where added: "added = Some (u, sy)"
    using res roll running
    by (cases added) (auto simp: add_local_input_def player_handle_to_queue_def bind_eq_Some_conv added_def split: if_split_asm)
  have body: "(case u of Inl err \<Rightarrow> Some (Inl err, s\<lparr>se_sync := sy\<rparr>)
     | Inr frame \<Rightarrow> if \<not> is_null frame then
        do { status \<leftarrow> index_at (se_local_connect_status s) l;
             let statuses = (se_local_connect_status s)[l := status\<lparr>cs_last_frame := frame\<rparr>];
             players \<leftarrow> traverse (player_send_input X statuses \<lparr>fi_frame = frame, fi_input = x\<rparr>) (se_players s);
             Some (Inr (), s\<lparr>se_sync := sy, se_local_connect_status := statuses, se_players := players\<rparr>) }
      else Some (Inr (), s\<lparr>se_sync := sy\<rparr>)) = Some (Inr (), s')"
    using res roll running added seatedD[OF seat]
    by (simp add: add_local_input_def player_handle_to_queue_def added_def Let_def split: if_split_asm sum.split_asm)
  then obtain frame where u: "u = Inr frame" by (cases u) simp_all
  note sy = added[unfolded added_def u] and rest = body[unfolded u sum.case]
  have frame: "frame = ?f" using sy by (auto simp: sync_add_local_input_def bind_eq_Some_conv split: if_split_asm)
  then obtain players where ps: "traverse (player_send_input X ?sts \<lparr>fi_frame = ?f, fi_input = x\<rparr>) (se_players s) = Some players"
    "s' = s\<lparr>se_sync := sy, se_local_connect_status := ?sts, se_players := players\<rparr>"
    using rest f by (auto simp: is_null_def bind_eq_Some_conv index_at_def Let_def split: if_split_asm)
  have "length players = 2" "player_send_input X ?sts \<lparr>fi_frame = ?f, fi_input = x\<rparr> Local = Some (players ! l)"
    and r: "player_send_input X ?sts \<lparr>fi_frame = ?f, fi_input = x\<rparr> (Remote p) = Some (players ! r)"
    using ps(1) seatedD[OF seat] by (auto simp: traverse_Some)
  moreover obtain ret q where q: "send_input X ?sts \<lparr>fi_frame = ?f, fi_input = x\<rparr> p = Some (ret, q)" "players ! r = Remote q"
    using r by (auto simp: bind_eq_Some_conv)
  ultimately have "players = (se_players s)[r := Remote q]"
    using seat by (auto simp: seated_def list_eq_iff_nth_eq less_Suc_eq numeral_2_eq_2)
  then have "seated l r q s'" using seated_update[OF seat] ps(2) by simp
  then show ?thesis using q(1) ps(2) sync_add_local_input_delays[OF sy] that by simp
qed

section \<open>Two sessions and the network\<close>

text \<open>
  A side of the match: the client with what it knows of the inputs, its session, and the end of the
  connection. The remote player of the session is the peer of that end.
\<close>

record ('i, 'g, 'e, 'o, 'm) side =
  sd_world :: "('i, 'g) world"
  sd_session :: "('i, 'e, 'o, 'm) session"
  sd_end :: "('i, 'e, 'o, 'm) endpoint"

text \<open>The inputs that wait fit the queue, and no counter overflows in a call at frame \<open>f\<close>.\<close>

definition call_fits ::
    "('i, 'e, 'o, 'm) views \<Rightarrow> nat \<Rightarrow> frame \<Rightarrow> ('i, 'g, 'e, 'o, 'm) side \<Rightarrow> bool" where
  "call_fits W r f sd \<longleftrightarrow> players_calm f (sd_session sd) \<and> f + RECOMMENDATION_INTERVAL < i32_MAX \<and>
     room_for (sy_input_queues (se_sync (sd_session sd)) ! r) (wo_inputs (sd_world sd) r)
       (length (event_inputs (vw_events W (pe_events (ep_peer (sd_end sd))))))"

text \<open>The histories after the inputs that wait were accepted.\<close>

definition arrived ::
    "('i, 'e, 'o, 'm) views \<Rightarrow> ('i, 'g) game \<Rightarrow> nat \<Rightarrow> ('i, 'g, 'e, 'o, 'm) side \<Rightarrow> nat \<Rightarrow> 'i list" where
  "arrived W G r sd = (let q = sy_input_queues (se_sync (sd_session sd)) ! r; h = wo_inputs (sd_world sd) in
     h(r := accept_all (gm_zero G) (iq_frame_delay q) (iq_last_user_added_frame q + 1)
       (map fi_input (event_inputs (vw_events W (pe_events (ep_peer (sd_end sd)))))) (h r)))"

text \<open>
  The steps of a side. A call of the session is one step, with the execution of its commands; all tasks
  of the peer run between the calls. Nobody disconnects. \<open>wire\<close> are the packets that may arrive.
\<close>

inductive side_step ::
    "('i, 'e, 'o, 'm) crates \<Rightarrow> ('i, 'e, 'o, 'm) views \<Rightarrow> ('i, 'g) game \<Rightarrow> (message \<Rightarrow> unit + u8 list) \<Rightarrow>
       (u8 list \<Rightarrow> unit + message) \<Rightarrow> nat \<Rightarrow> nat \<Rightarrow> u8 list set \<Rightarrow>
       ('i, 'g, 'e, 'o, 'm) side \<Rightarrow> ('i, 'g, 'e, 'o, 'm) side \<Rightarrow> bool" for X W G ser des l r wire where
  local_input: "\<not> se_synchronizing (sd_session sd) \<Longrightarrow> \<not> barred (se_sync (sd_session sd)) \<Longrightarrow>
    local_input_due (sd_world sd) l t \<Longrightarrow> add_local_input X l x (sd_session sd) = Some (ret, s') \<Longrightarrow>
    se_players s' ! r = Remote q \<Longrightarrow>
    side_step X W G ser des l r wire sd
      \<lparr>sd_world = (sd_world sd)\<lparr>wo_sync := se_sync s', wo_inputs := accept_input G l t x (wo_inputs (sd_world sd))\<rparr>,
       sd_session = s', sd_end = called q [] [x] (sd_end sd)\<rparr>"
| poll: "call_fits W r (current_frame (sd_session sd)) sd \<Longrightarrow>
    session_poll X (sd_session sd, wo_store (sd_world sd)) = Some (cs, s', store) \<Longrightarrow>
    execute_all (gm_step G) (gm_hash G) cs (wo_state (sd_world sd), store) = Some (g, store') \<Longrightarrow>
    se_players s' ! r = Remote q \<Longrightarrow>
    side_step X W G ser des l r wire sd
      \<lparr>sd_world = after_call (sd_world sd) (arrived W G r sd) g store' s', sd_session = s',
       sd_end = called q (vw_events W (pe_events (ep_peer (sd_end sd)))) [] (sd_end sd)\<rparr>"
| advance: "may_advance (sd_session sd) \<Longrightarrow> call_fits W r (current_frame (sd_session sd) + 1) sd \<Longrightarrow>
    session_advance_frame X (sd_session sd, wo_store (sd_world sd)) = Some (cs, s', store) \<Longrightarrow>
    execute_all (gm_step G) (gm_hash G) cs (wo_state (sd_world sd), store) = Some (g, store') \<Longrightarrow>
    se_players s' ! r = Remote q \<Longrightarrow>
    side_step X W G ser des l r wire sd
      \<lparr>sd_world = after_call (sd_world sd) (arrived W G r sd) g store' s', sd_session = s',
       sd_end = called q (vw_events W (pe_events (ep_peer (sd_end sd)))) [] (sd_end sd)\<rparr>"
| tasks: "endpoint_step X ser des wire (sd_end sd) e \<Longrightarrow> ep_pushed e = ep_pushed (sd_end sd) \<Longrightarrow>
    cn_received (ep_conn e) = cn_received (ep_conn (sd_end sd)) \<Longrightarrow> \<not> vw_events_shut W (pe_events (ep_peer e)) \<Longrightarrow>
    side_step X W G ser des l r wire sd (sd\<lparr>sd_session := (sd_session sd)
      \<lparr>se_players := (se_players (sd_session sd))[r := Remote (ep_peer e)]\<rparr>, sd_end := e\<rparr>)"

definition side_new ::
    "('i, 'g) game \<Rightarrow> session_builder \<Rightarrow> ('i, 'e, 'o, 'm) session \<Rightarrow> ('i, 'e, 'o, 'm) peer \<Rightarrow> ('i, 'g, 'e, 'o, 'm) side" where
  "side_new G b s p = \<lparr>sd_world = world_new G (length (sb_players b)) (sb_frame_delay b), sd_session = s, sd_end = endpoint_new p\<rparr>"

text \<open>New channels; and a builder whose player \<open>l\<close> is local and whose player \<open>r\<close> is remote.\<close>

definition new_ends :: "('i, 'e, 'o, 'm) views \<Rightarrow> (nat \<Rightarrow> 'e \<times> 'o \<times> 'm) \<Rightarrow> bool" where
  "new_ends W ends \<longleftrightarrow> (\<forall>i. vw_events W (fst (ends i)) = [] \<and> \<not> vw_events_shut W (fst (ends i)) \<and>
     vw_out W (fst (snd (ends i))) = [] \<and> \<not> vw_out_shut W (fst (snd (ends i))) \<and> vw_in W (snd (snd (ends i))) = [])"

definition duel :: "nat \<Rightarrow> nat \<Rightarrow> session_builder \<Rightarrow> bool" where
  "duel l r b \<longleftrightarrow> 0 \<le> sb_frame_delay b \<and>
     (l = 0 \<and> r = 1 \<and> sb_players b = [Player_Local, Player_Remote] \<or>
      l = 1 \<and> r = 0 \<and> sb_players b = [Player_Remote, Player_Local])"

inductive match_reachable ::
    "('i, 'e, 'o, 'm) crates \<Rightarrow> ('i, 'e, 'o, 'm) views \<Rightarrow> ('i, 'g) game \<Rightarrow> (message \<Rightarrow> unit + u8 list) \<Rightarrow>
       (u8 list \<Rightarrow> unit + message) \<Rightarrow> nat \<Rightarrow> nat \<Rightarrow> session_builder \<Rightarrow> session_builder \<Rightarrow>
       ('i, 'g, 'e, 'o, 'm) side \<Rightarrow> ('i, 'g, 'e, 'o, 'm) side \<Rightarrow> bool" for X W G ser des l r ba bb where
  start: "builder_start X ba draws ends = Some (Inr sa) \<Longrightarrow> builder_start X bb draws' ends' = Some (Inr sb) \<Longrightarrow>
    new_ends W ends \<Longrightarrow> new_ends W ends' \<Longrightarrow> se_players sa ! r = Remote p \<Longrightarrow> se_players sb ! l = Remote q \<Longrightarrow>
    match_reachable X W G ser des l r ba bb (side_new G ba sa p) (side_new G bb sb q)"
| first: "match_reachable X W G ser des l r ba bb a b \<Longrightarrow> side_step X W G ser des l r (ep_wire (sd_end b)) a a' \<Longrightarrow>
    match_reachable X W G ser des l r ba bb a' b"
| second: "match_reachable X W G ser des l r ba bb a b \<Longrightarrow> side_step X W G ser des r l (ep_wire (sd_end a)) b b' \<Longrightarrow>
    match_reachable X W G ser des l r ba bb a b'"

section \<open>The invariant of a side\<close>

lemma duel_playable: "duel l r b \<Longrightarrow> playable b" "duel l r b \<Longrightarrow> length (sb_players b) = 2"
  by (auto simp: duel_def playable_def MAX_PLAYERS_def)

text \<open>Player \<open>i\<close> gave the inputs \<open>xs\<close>, as far as this side knows.\<close>

definition knows ::
    "('i, 'g) game \<Rightarrow> session_builder \<Rightarrow> nat \<Rightarrow> 'i list \<Rightarrow> ('i, 'g, 'e, 'o, 'm) side \<Rightarrow> bool" where
  "knows G b i xs sd \<longleftrightarrow> cs_last_frame (se_local_connect_status (sd_session sd) ! i) + 1 = int (length xs) \<and>
     wo_inputs (sd_world sd) i = accept_all (gm_zero G) (sb_frame_delay b) 0 xs []"

abbreviation taken_inputs :: "('i, 'e, 'o, 'm) endpoint \<Rightarrow> 'i list" where
  "taken_inputs e \<equiv> map fi_input (event_inputs (cn_received (ep_conn e)))"

abbreviation waiting_inputs :: "('i, 'e, 'o, 'm) views \<Rightarrow> ('i, 'e, 'o, 'm) endpoint \<Rightarrow> 'i list" where
  "waiting_inputs W e \<equiv> map fi_input (event_inputs (vw_events W (pe_events (ep_peer e))))"

definition side_ok ::
    "('i, 'e, 'o, 'm) crates \<Rightarrow> ('i, 'e, 'o, 'm) views \<Rightarrow> ('i, 'g) game \<Rightarrow> session_builder \<Rightarrow> nat \<Rightarrow> nat \<Rightarrow>
       ('i, 'g, 'e, 'o, 'm) side \<Rightarrow> bool" where
  "side_ok X W G b l r sd \<longleftrightarrow>
     session_reachable X W G b (sd_world sd, sd_session sd) \<and> seated l r (ep_peer (sd_end sd)) (sd_session sd) \<and>
     delays (se_sync (sd_session sd)) = [sb_frame_delay b, sb_frame_delay b] \<and>
     knows G b l (ep_pushed (sd_end sd)) sd \<and> knows G b r (taken_inputs (sd_end sd)) sd \<and>
     (se_synchronizing (sd_session sd) \<or> Suc NUM_SYNC_PACKETS \<le> shakes W (sd_end sd))"

text \<open>What the connection guarantees: the inputs of the other side are numbered, and the state machine is sound.\<close>

definition end_ok :: "('i, 'e, 'o, 'm) views \<Rightarrow> ('i, 'e, 'o, 'm) endpoint \<Rightarrow> bool" where
  "end_ok W e \<longleftrightarrow> clones_agree e \<and> conn_inv W (cn_received (ep_conn e)) (ep_peer e) \<and>
     event_inputs (cn_received (ep_conn e)) = numbered 0 (taken_inputs e) \<and>
     event_inputs (vw_events W (pe_events (ep_peer e))) = numbered (int (length (taken_inputs e))) (waiting_inputs W e)"

lemma map_numbered [simp]: "map fi_input (numbered m xs) = xs"
  by (induction m xs rule: numbered.induct) simp_all

lemma newest_numbered: "newest f (numbered (f + 1) xs) = f + int (length xs)"
proof (induction xs rule: rev_induct)
  case (snoc x xs)
  then show ?case by (simp add: numbered_append newest_def)
qed simp

lemma side_session:
  assumes ok: "channels_ok X W" and z: "gm_zero G = pod_zeroed (cr_pod X)" and b: "duel l r b" and inv: "side_ok X W G b l r sd"
  shows "session_rep X W G [] (sd_world sd) (sd_session sd)" and "sy_player_count (se_sync (sd_session sd)) = 2"
    and "length (se_local_connect_status (sd_session sd)) = 2" and "length (sy_input_queues (se_sync (sd_session sd))) = 2"
    and "i < 2 \<Longrightarrow> iq_last_user_added_frame (sy_input_queues (se_sync (sd_session sd)) ! i) =
      cs_last_frame (se_local_connect_status (sd_session sd) ! i)"
    and "i < 2 \<Longrightarrow> iq_frame_delay (sy_input_queues (se_sync (sd_session sd)) ! i) = sb_frame_delay b"
    and "session_ok X W G (sd_world sd, sd_session sd)"
proof -
  let ?s = "sd_session sd"
  have r: "session_reachable X W G b (sd_world sd, ?s)" and d: "delays (se_sync ?s) = [sb_frame_delay b, sb_frame_delay b]"
    using inv by (simp_all add: side_ok_def)
  note f = session_reachable_ok[OF ok z duel_playable(1)[OF b] r]
  show rep: "session_rep X W G [] (sd_world sd) ?s" by (rule f(1))
  show n: "sy_player_count (se_sync ?s) = 2" using f(5) duel_playable(2)[OF b] by simp
  show "length (se_local_connect_status ?s) = 2" using rep n by (simp add: session_rep_def all_connected_def)
  show len: "length (sy_input_queues (se_sync ?s)) = 2" using rep_queues[OF rep] n by simp
  show "iq_last_user_added_frame (sy_input_queues (se_sync ?s) ! i) = cs_last_frame (se_local_connect_status ?s ! i)" if "i < 2"
  proof -
    have "player_rep W (sd_world sd) ?s i" using rep n that by (simp add: session_rep_def)
    then show ?thesis by (simp add: player_rep_def Let_def)
  qed
  show "iq_frame_delay (sy_input_queues (se_sync ?s) ! i) = sb_frame_delay b" if "i < 2"
  proof -
    have "delays (se_sync ?s) ! i = sb_frame_delay b" using d that by (auto simp: less_2_cases_iff)
    then show ?thesis using len that by (simp add: delays_def)
  qed
  show "session_ok X W G (sd_world sd, ?s)" using f by (simp add: session_ok_def)
qed

lemma arrived_inputs:
  assumes ok: "channels_ok X W" and z: "gm_zero G = pod_zeroed (cr_pod X)" and b: "duel l r b" and inv: "side_ok X W G b l r sd"
    and e: "end_ok W (sd_end sd)"
  shows "call_fits W r f sd \<Longrightarrow> may_poll W G f (arrived W G r sd) (sd_world sd, sd_session sd)"
    and "arrived W G r sd l = wo_inputs (sd_world sd) l"
    and "arrived W G r sd r = accept_all (gm_zero G) (sb_frame_delay b) 0 (taken_inputs (sd_end sd) @ waiting_inputs W (sd_end sd)) []"
proof -
  let ?s = "sd_session sd" and ?w = "sd_world sd" and ?p = "ep_peer (sd_end sd)"
  have seat: "seated l r ?p ?s" and kn: "knows G b r (taken_inputs (sd_end sd)) sd"
    using inv by (simp_all add: side_ok_def)
  note seat' = seatedD[OF seat]
  note ss = side_session[OF ok z b inv]
  have sync: "wo_sync ?w = se_sync ?s" using ss(1) by (simp add: session_rep_def)
  have last: "iq_last_user_added_frame (sy_input_queues (se_sync ?s) ! r) + 1 = int (length (taken_inputs (sd_end sd)))"
    using kn ss(5)[OF seat'(3)] by (simp add: knows_def)
  have at: "arrived W G r sd r = accept_all (gm_zero G) (sb_frame_delay b) (int (length (taken_inputs (sd_end sd))))
      (waiting_inputs W (sd_end sd)) (wo_inputs ?w r)"
    using last ss(6)[OF seat'(3)] by (simp add: arrived_def Let_def)
  then show "arrived W G r sd r = accept_all (gm_zero G) (sb_frame_delay b) 0 (taken_inputs (sd_end sd) @ waiting_inputs W (sd_end sd)) []"
    using kn by (simp add: knows_def accept_all_append)
  show l: "arrived W G r sd l = wo_inputs ?w l" using seat'(4) by (simp add: arrived_def Let_def)
  show "may_poll W G f (arrived W G r sd) (?w, ?s)" if fits: "call_fits W r f sd"
  proof -
    have "arriving W G ?w ?s (arrived W G r sd) i" if "i < 2" for i
    proof (cases "i = l")
      case True
      then show ?thesis using seat'(5) l by (simp add: arriving_def)
    next
      case False
      then have "i = r" using that seat by (auto simp: seated_def)
      moreover have "leads_to G r ?w (vw_events W (pe_events ?p)) (arrived W G r sd r)"
        unfolding leads_to_def Let_def sync
      proof (intro exI[of _ "waiting_inputs W (sd_end sd)"] conjI)
        show "event_inputs (vw_events W (pe_events ?p)) =
            numbered (iq_last_user_added_frame (sy_input_queues (se_sync ?s) ! r) + 1) (waiting_inputs W (sd_end sd))"
          using e unfolding end_ok_def last by blast
        show "room_for (sy_input_queues (se_sync ?s) ! r) (wo_inputs ?w r) (length (waiting_inputs W (sd_end sd)))"
          using fits by (simp add: call_fits_def)
        show "arrived W G r sd r = accept_all (gm_zero G) (iq_frame_delay (sy_input_queues (se_sync ?s) ! r))
            (iq_last_user_added_frame (sy_input_queues (se_sync ?s) ! r) + 1) (waiting_inputs W (sd_end sd)) (wo_inputs ?w r)"
          using at last ss(6)[OF seat'(3)] by simp
      qed
      ultimately show ?thesis using seat'(6) by (simp add: arriving_def)
    qed
    then show ?thesis using fits ss(2) by (simp add: may_poll_def call_fits_def)
  qed
qed

section \<open>Every step of a side keeps the invariant\<close>

lemma called_side:
  assumes ok: "channels_ok X W" and law: "\<And>m bytes. ser m = Inr bytes \<Longrightarrow> des bytes = Inr m"
    and z: "gm_zero G = pod_zeroed (cr_pod X)" and b: "duel l r b" and inv: "side_ok X W G b l r sd"
    and e: "end_ok W (sd_end sd)"
    and reach: "session_reachable X W G b (w', s')" and inputs: "wo_inputs w' = arrived W G r sd"
    and s0: "se_local_connect_status s0 = se_local_connect_status (sd_session sd)"
      "se_synchronizing s0 = se_synchronizing (sd_session sd)" "delays (se_sync s0) = delays (se_sync (sd_session sd))"
    and pol: "polled X W r (ep_peer (sd_end sd)) s0 q s'" and seat: "seated l r q s'"
    and e': "e' = called q (vw_events W (pe_events (ep_peer (sd_end sd)))) [] (sd_end sd)"
  shows "side_ok X W G b l r \<lparr>sd_world = w', sd_session = s', sd_end = e'\<rparr>"
    and "endpoint_steps X ser des wire (sd_end sd) e'"
proof -
  let ?s = "sd_session sd" and ?e = "sd_end sd"
  define ws where "ws = waiting_inputs W ?e"
  have agree: "clones_agree ?e" and conn: "conn_inv W (cn_received (ep_conn ?e)) (ep_peer ?e)"
    and new: "event_inputs (vw_events W (pe_events (ep_peer ?e))) = numbered (int (length (taken_inputs ?e))) ws"
    using e unfolding end_ok_def ws_def by blast+
  have steps: "endpoint_steps X ser des wire ?e e'" for wire unfolding e' by (rule polled_steps[OF pol agree])
  then show "endpoint_steps X ser des wire ?e e'" .
  have kl: "knows G b l (ep_pushed ?e) sd" and kr: "knows G b r (taken_inputs ?e) sd" and d: "delays (se_sync ?s) = [sb_frame_delay b, sb_frame_delay b]"
    and sh: "se_synchronizing ?s \<or> Suc NUM_SYNC_PACKETS \<le> shakes W ?e"
    using inv by (simp_all add: side_ok_def)
  note seat' = seatedD[OF seat] and ss = side_session[OF ok z b inv] and ar = arrived_inputs[OF ok z b inv e]
  have sts: "se_local_connect_status s' = heard r (numbered (int (length (taken_inputs ?e))) ws) (se_local_connect_status ?s)"
    using pol s0(1) unfolding polled_def new by simp
  let ?sd = "\<lparr>sd_world = w', sd_session = s', sd_end = e'\<rparr>"
  have "knows G b l (ep_pushed e') ?sd"
    using kl seat'(4) sts inputs ar(2) by (simp add: knows_def e')
  moreover have "cs_last_frame (se_local_connect_status ?s ! r) + 1 = int (length (taken_inputs ?e))"
    using kr by (simp add: knows_def)
  then have "newest (cs_last_frame (se_local_connect_status ?s ! r))
      (numbered (int (length (taken_inputs ?e))) ws) = cs_last_frame (se_local_connect_status ?s ! r) + int (length ws)"
    using newest_numbered by metis
  then have "knows G b r (taken_inputs e') ?sd"
    using kr sts inputs ar(3)[folded ws_def] seat'(3) ss(3) by (simp add: knows_def e' heard_def flip: ws_def)
  moreover have "se_synchronizing s' \<or> Suc NUM_SYNC_PACKETS \<le> shakes W e'"
  proof -
    have "shakes W ?e \<le> shakes W e'" using endpoint_steps_keep[OF ok law agree steps] by blast
    moreover have "se_synchronizing s' \<or> \<not> se_synchronizing ?s \<or> peer_is_running (ep_peer ?e)"
      using pol s0(2) by (simp add: polled_def)
    ultimately show ?thesis using sh shakes_running(1)[OF conn] by linarith
  qed
  moreover have "delays (se_sync s') = [sb_frame_delay b, sb_frame_delay b]" using pol s0(3) d by (simp add: polled_def)
  moreover have "seated l r (ep_peer e') s'" using seat by (simp add: e')
  ultimately show "side_ok X W G b l r ?sd" using reach by (simp add: side_ok_def)
qed

lemma remote_peer_eq: "seated l r p s \<Longrightarrow> se_players s ! r = Remote q \<Longrightarrow> q = p"
  using seatedD(6) by fastforce

lemma poll_side:
  assumes ok: "channels_ok X W" and z: "gm_zero G = pod_zeroed (cr_pod X)" and b: "duel l r b" and inv: "side_ok X W G b l r sd"
    and e: "end_ok W (sd_end sd)" and fits: "call_fits W r (current_frame (sd_session sd)) sd"
    and res: "session_poll X (sd_session sd, wo_store (sd_world sd)) = Some (cs, s', store)"
    and g: "execute_all (gm_step G) (gm_hash G) cs (wo_state (sd_world sd), store) = Some (g, store')"
  shows "\<exists>q. seated l r q s' \<and> polled X W r (ep_peer (sd_end sd)) (sd_session sd) q s'"
    and "session_reachable X W G b (after_call (sd_world sd) (arrived W G r sd) g store' s', s')"
proof -
  note may = arrived_inputs(1)[OF ok z b inv e fits]
  have seat: "seated l r (ep_peer (sd_end sd)) (sd_session sd)" and reach: "session_reachable X W G b (sd_world sd, sd_session sd)"
    using inv by (simp_all add: side_ok_def)
  note ss = side_session[OF ok z b inv]
  have "mixed (sd_session sd)" using ss(7) by (simp add: session_ok_def)
  moreover have "players_calm (sy_frame_count (se_sync (sd_session sd))) (sd_session sd)"
    "\<forall>i < sy_player_count (se_sync (sd_session sd)). arriving W G (sd_world sd) (sd_session sd) (arrived W G r sd) i"
    using may by (simp_all add: may_poll_def current_frame_def)
  ultimately show "\<exists>q. seated l r q s' \<and> polled X W r (ep_peer (sd_end sd)) (sd_session sd) q s'"
    using do_poll_result[OF ok ss(1) loads_simps(1) _ _ _ seat] res by (simp add: session_poll_def)
  show "session_reachable X W G b (after_call (sd_world sd) (arrived W G r sd) g store' s', s')"
    by (rule session_reachable.step[OF reach session_step.poll[OF _ res g]]) (use may in \<open>simp add: current_frame_def\<close>)
qed

lemma advance_result:
  assumes ok: "channels_ok X W" and inv: "session_ok X W G (w, s)" and adv: "may_advance s"
    and may: "may_poll W G (sy_frame_count (se_sync s) + 1) h (w, s)" and seat: "seated l r p s"
    and res: "session_advance_frame X (s, wo_store w) = Some (cs, s', store)"
  shows "\<exists>q sy. seated l r q s' \<and> polled X W r p (s\<lparr>se_sync := sy\<rparr>) q s' \<and> delays sy = delays (se_sync s)"
proof -
  have rep: "session_rep X W G [] w s" and mix: "mixed s" and none: "check_simulation_consistency (se_sync s) = None"
    and sync: "wo_sync w = se_sync s"
    using inv by (simp_all add: session_ok_def session_rep_def)
  have running: "\<not> se_synchronizing s" and bar: "\<not> barred (se_sync s)" using adv by (simp_all add: may_advance_def)
  have calm: "players_calm (sy_frame_count (se_sync s) + 1) s"
    and arr: "\<forall>i < sy_player_count (se_sync s). arriving W G w s h i"
    and f: "sy_frame_count (se_sync s) + 1 < i32_MAX"
    using may by (simp_all add: may_poll_def RECOMMENDATION_INTERVAL_def)
  obtain cs1 sy store1 where made:
    "with_sync (increment_frame (pod_zeroed (cr_pod X)) (se_local_connect_status s)) ([], s, wo_store w)
      = Some (cs1, s\<lparr>se_sync := sy\<rparr>, store1)"
    "session_rep X W G cs1 (w\<lparr>wo_sync := sy, wo_store := store1\<rparr>) (s\<lparr>se_sync := sy\<rparr>)"
    "loads cs1 = {}" "sy_frame_count sy = sy_frame_count (se_sync s) + 1" "sy_player_count sy = sy_player_count (se_sync s)"
    "\<forall>p < sy_player_count (se_sync s). same_inputs (sy_input_queues (se_sync s) ! p) (sy_input_queues sy ! p)"
    by (rule simulate_ok[OF rep none running bar f])
  let ?s1 = "s\<lparr>se_sync := sy\<rparr>" and ?w1 = "w\<lparr>wo_sync := sy, wo_store := store1\<rparr>"
  have "delays sy = delays (se_sync s)"
    using made(5,6) rep_queues[OF made(2)] rep_queues[OF rep] by (intro same_inputs_delays) simp_all
  moreover have "do_poll X (cs1, ?s1, wo_store ?w1) = Some (cs, s', store)"
    using res made(1) running by (simp add: session_advance_frame_def del: with_sync.simps)
  moreover have "mixed ?s1" "players_calm (sy_frame_count (se_sync ?s1)) ?s1" "seated l r p ?s1"
    using mix calm made(4) seat by (simp_all add: mixed_def players_calm_def seated_def)
  moreover have "\<forall>i < sy_player_count (se_sync ?s1). arriving W G ?w1 ?s1 h i"
    using arr made(5,6) arriving_simulated sync by fastforce
  ultimately show ?thesis using do_poll_result[OF ok made(2,3)] by blast
qed

lemma advance_side:
  assumes ok: "channels_ok X W" and z: "gm_zero G = pod_zeroed (cr_pod X)" and b: "duel l r b" and inv: "side_ok X W G b l r sd"
    and e: "end_ok W (sd_end sd)" and adv: "may_advance (sd_session sd)"
    and fits: "call_fits W r (current_frame (sd_session sd) + 1) sd"
    and res: "session_advance_frame X (sd_session sd, wo_store (sd_world sd)) = Some (cs, s', store)"
    and g: "execute_all (gm_step G) (gm_hash G) cs (wo_state (sd_world sd), store) = Some (g, store')"
  shows "\<exists>q sy. seated l r q s' \<and> polled X W r (ep_peer (sd_end sd)) ((sd_session sd)\<lparr>se_sync := sy\<rparr>) q s' \<and>
      delays sy = delays (se_sync (sd_session sd))"
    and "session_reachable X W G b (after_call (sd_world sd) (arrived W G r sd) g store' s', s')"
proof -
  let ?s = "sd_session sd" and ?w = "sd_world sd"
  note may = arrived_inputs(1)[OF ok z b inv e fits]
  have seat: "seated l r (ep_peer (sd_end sd)) ?s" and reach: "session_reachable X W G b (?w, ?s)"
    using inv by (simp_all add: side_ok_def)
  note ss = side_session[OF ok z b inv]
  have "may_poll W G (sy_frame_count (se_sync ?s) + 1) (arrived W G r sd) (?w, ?s)"
    using may by (simp add: current_frame_def)
  from advance_result[OF ok ss(7) adv this seat res]
  show "\<exists>q sy. seated l r q s' \<and> polled X W r (ep_peer (sd_end sd)) (?s\<lparr>se_sync := sy\<rparr>) q s' \<and>
      delays sy = delays (se_sync ?s)" .
  show "session_reachable X W G b (after_call ?w (arrived W G r sd) g store' s', s')"
    by (rule session_reachable.step[OF reach session_step.advance[OF adv _ res g]]) (use may in \<open>simp add: current_frame_def\<close>)
qed

lemma side_running:
  assumes ok: "channels_ok X W" and z: "gm_zero G = pod_zeroed (cr_pod X)" and b: "duel l r b" and inv: "side_ok X W G b l r sd"
    and e: "end_ok W (sd_end sd)" and running: "\<not> se_synchronizing (sd_session sd)"
  shows "peer_is_running (ep_peer (sd_end sd))"
proof -
  have seat: "seated l r (ep_peer (sd_end sd)) (sd_session sd)" and sh: "Suc NUM_SYNC_PACKETS \<le> shakes W (sd_end sd)"
    using inv running by (simp_all add: side_ok_def)
  note ss = side_session[OF ok z b inv]
  have "player_rep W (sd_world sd) (sd_session sd) r" using ss(1,2) seatedD(3)[OF seat] by (simp add: session_rep_def)
  then have "\<not> vw_events_shut W (pe_events (ep_peer (sd_end sd)))"
    using seatedD(6)[OF seat] by (simp add: player_rep_def Let_def)
  then show ?thesis using shakes_running(2)[OF _ sh] e by (simp add: end_ok_def)
qed

lemma local_input_side:
  assumes ok: "channels_ok X W" and law: "\<And>m bytes. ser m = Inr bytes \<Longrightarrow> des bytes = Inr m"
    and z: "gm_zero G = pod_zeroed (cr_pod X)" and b: "duel l r b" and inv: "side_ok X W G b l r sd"
    and e: "end_ok W (sd_end sd)"
    and running: "\<not> se_synchronizing (sd_session sd)" and bar: "\<not> barred (se_sync (sd_session sd))"
    and due: "local_input_due (sd_world sd) l t" and res: "add_local_input X l x (sd_session sd) = Some (ret, s')"
    and q: "se_players s' ! r = Remote q"
    and e': "e' = called q [] [x] (sd_end sd)"
  shows "side_ok X W G b l r \<lparr>sd_world = (sd_world sd)\<lparr>wo_sync := se_sync s', wo_inputs := accept_input G l t x (wo_inputs (sd_world sd))\<rparr>,
      sd_session = s', sd_end = e'\<rparr>"
    and "endpoint_step X ser des wire (sd_end sd) e'"
proof -
  let ?s = "sd_session sd" and ?w = "sd_world sd" and ?e = "sd_end sd"
  let ?f = "sy_frame_count (se_sync ?s)" and ?d = "sb_frame_delay b"
  have seat: "seated l r (ep_peer ?e) ?s" and kl: "knows G b l (ep_pushed ?e) sd" and kr: "knows G b r (taken_inputs ?e) sd"
    and reach: "session_reachable X W G b (?w, ?s)" and d: "delays (se_sync ?s) = [?d, ?d]"
    and sh: "Suc NUM_SYNC_PACKETS \<le> shakes W ?e"
    using inv running by (simp_all add: side_ok_def)
  note seat' = seatedD[OF seat] and ss = side_session[OF ok z b inv]
  have sync: "wo_sync ?w = se_sync ?s" and roll: "\<not> sy_rolling_back (se_sync ?s)"
    and none: "check_simulation_consistency (se_sync ?s) = None"
    using ss(1,7) by (simp_all add: session_rep_def session_ok_def)
  have fits: "0 \<le> ?f" "?f + ?d = int t" "int t + 1 < i32_MAX"
      "is_null (iq_last_user_added_frame (sy_input_queues (se_sync ?s) ! l)) \<or>
        ?f = iq_last_user_added_frame (sy_input_queues (se_sync ?s) ! l) + 1"
      "?f \<le> int (length (wo_inputs ?w l))"
    using due ss(6)[OF seat'(2)] sync by (simp_all add: local_input_due_def input_fits_def Let_def)
  have last: "iq_last_user_added_frame (sy_input_queues (se_sync ?s) ! l) + 1 = int (length (ep_pushed ?e))"
    using kl ss(5)[OF seat'(2)] by (simp add: knows_def)
  have f: "?f = int (length (ep_pushed ?e))"
  proof (cases "ep_pushed ?e = []")
    case True
    then show ?thesis using fits(1,5) kl by (simp add: knows_def)
  next
    case False
    then show ?thesis using fits(4) last by (cases "ep_pushed ?e") (auto simp: is_null_def)
  qed
  have "ret = Inr ()" by (rule add_local_input_ok(1)[OF ok ss(1) none running seat'(5) due bar res])
  then have res': "add_local_input X l x ?s = Some (Inr (), s')" using res by simp
  obtain ret' q' where sent: "seated l r q' s'"
    "send_input X (se_local_connect_status s') \<lparr>fi_frame = ?f, fi_input = x\<rparr> (ep_peer ?e) = Some (ret', q')"
    "se_local_connect_status s' = (se_local_connect_status ?s)[l := (se_local_connect_status ?s ! l)\<lparr>cs_last_frame := ?f\<rparr>]"
    "delays (se_sync s') = delays (se_sync ?s)" "se_synchronizing s' = se_synchronizing ?s"
    by (rule add_local_input_result[OF res' roll running fits(1) seat])
  have q': "q' = q" using remote_peer_eq[OF sent(1) q] by simp
  have "state_is_running (pe_state (ep_peer ?e))"
    using side_running[OF ok z b inv e running] by (simp add: peer_is_running_def)
  moreover have "0 \<le> ?d" using b by (simp add: duel_def)
  then have "in_i32 (?f + 1)" using fits(1-3) by (simp add: in_i32_def i32_MAX_def)
  ultimately have "endpoint_step X ser des wire ?e (?e\<lparr>ep_conn := session_moved q (ep_conn ?e),
      ep_pushed := ep_pushed ?e @ [fi_input \<lparr>fi_frame = ?f, fi_input = x\<rparr>]\<rparr>)" for wire
    using sent(2) f q' by (intro endpoint_step.input) simp_all
  then have step: "endpoint_step X ser des wire ?e e'" for wire by (simp add: e' called_def session_moved_def)
  then show "endpoint_step X ser des wire ?e e'" .
  let ?w' = "?w\<lparr>wo_sync := se_sync s', wo_inputs := accept_input G l t x (wo_inputs ?w)\<rparr>"
  have "session_reachable X W G b (?w', s')"
    by (rule session_reachable.step[OF reach session_step.local_input[OF running bar seat'(5) due res]])
  moreover have "t = nat (int (length (ep_pushed ?e)) + ?d)" using fits(2) f by simp
  then have "knows G b l (ep_pushed e') \<lparr>sd_world = ?w', sd_session = s', sd_end = e'\<rparr>"
    using kl sent(3) f ss(3) seat'(2) by (simp add: knows_def e' accept_input_def accept_all_append)
  moreover have "knows G b r (taken_inputs e') \<lparr>sd_world = ?w', sd_session = s', sd_end = e'\<rparr>"
    using kr sent(3) seat'(4) by (simp add: knows_def e' accept_input_def)
  moreover have "Suc NUM_SYNC_PACKETS \<le> shakes W e'"
    using shakes_mono[OF ok law _ step] sh e by (force simp: end_ok_def)
  moreover have "seated l r (ep_peer e') s'" using sent(1) q' by (simp add: e')
  ultimately show "side_ok X W G b l r \<lparr>sd_world = ?w', sd_session = s', sd_end = e'\<rparr>"
    using sent(4) d by (simp add: side_ok_def)
qed

lemma conn_step_keeps_status:
  assumes "conn_step X c c'"
  shows "pe_peer_connect_status (cn_session c') = pe_peer_connect_status (cn_session c)"
  using assms
proof cases
  case (action p)
  then show ?thesis using peer_action_keeps_status by (simp add: session_moved_def)
next
  case task
  then show ?thesis by cases (simp_all add: task_moved_def session_moved_def)
qed

lemma tasks_side:
  assumes ok: "channels_ok X W" and law: "\<And>m bytes. ser m = Inr bytes \<Longrightarrow> des bytes = Inr m"
    and z: "gm_zero G = pod_zeroed (cr_pod X)" and b: "duel l r b" and inv: "side_ok X W G b l r sd"
    and e: "end_ok W (sd_end sd)" and stp: "endpoint_step X ser des wire (sd_end sd) e'"
    and same: "ep_pushed e' = ep_pushed (sd_end sd)" "cn_received (ep_conn e') = cn_received (ep_conn (sd_end sd))"
      "\<not> vw_events_shut W (pe_events (ep_peer e'))"
  shows "side_ok X W G b l r (sd\<lparr>sd_session := (sd_session sd)
      \<lparr>se_players := (se_players (sd_session sd))[r := Remote (ep_peer e')]\<rparr>, sd_end := e'\<rparr>)"
proof -
  let ?s = "sd_session sd" and ?e = "sd_end sd"
  let ?s' = "?s\<lparr>se_players := (se_players ?s)[r := Remote (ep_peer e')]\<rparr>"
  have seat: "seated l r (ep_peer ?e) ?s" and reach: "session_reachable X W G b (sd_world sd, ?s)"
    using inv by (simp_all add: side_ok_def)
  note seat' = seatedD[OF seat]
  have "task_change W (se_players ?s ! i) (se_players ?s' ! i)" if "i < 2" for i
  proof (cases "i = r")
    case True
    then show ?thesis
      using seat' conn_step_keeps_status[OF endpoint_conn_step[OF stp]] same(3) by (simp add: task_change_def)
  next
    case False
    then have "i = l" using that seat by (auto simp: seated_def)
    then show ?thesis using seat' by (simp add: task_change_def)
  qed
  then have "session_step X W G (sd_world sd, ?s) (sd_world sd, ?s')"
    by (intro session_step.tasks) (use seat'(1) in simp_all)
  then have "session_reachable X W G b (sd_world sd, ?s')" by (rule session_reachable.step[OF reach])
  moreover have "seated l r (ep_peer e') ?s'" by (rule seated_update[OF seat]) simp
  moreover have "shakes W ?e \<le> shakes W e'" using shakes_mono[OF ok law _ stp] e by (simp add: end_ok_def)
  ultimately show ?thesis using inv same(1,2) by (auto simp: side_ok_def knows_def)
qed

lemma side_step_ok:
  assumes ok: "channels_ok X W" and law: "\<And>m bytes. ser m = Inr bytes \<Longrightarrow> des bytes = Inr m"
    and z: "gm_zero G = pod_zeroed (cr_pod X)" and b: "duel l r b" and inv: "side_ok X W G b l r sd"
    and e: "end_ok W (sd_end sd)" and stp: "side_step X W G ser des l r wire sd sd'"
  shows "side_ok X W G b l r sd' \<and> endpoint_steps X ser des wire (sd_end sd) (sd_end sd')"
  using stp
proof cases
  case (local_input t x ret s' q)
  note r = local_input_side[OF ok law z b inv e local_input(2-6) refl]
  show ?thesis using r(1) r(2)[where wire = wire] unfolding local_input(1) by auto
next
  case (poll cs s' store g store' q)
  note p = poll_side[OF ok z b inv e poll(2-4)]
  obtain q' where q': "seated l r q' s'" "polled X W r (ep_peer (sd_end sd)) (sd_session sd) q' s'" using p(1) by blast
  have "q = q'" by (rule remote_peer_eq[OF q'(1) poll(5)])
  then show ?thesis
    using called_side[OF ok law z b inv e p(2) _ refl refl refl q'(2,1) refl] unfolding poll(1) by (simp add: after_call_def)
next
  case (advance cs s' store g store' q)
  note p = advance_side[OF ok z b inv e advance(2-5)]
  obtain q' sy where q': "seated l r q' s'" "polled X W r (ep_peer (sd_end sd)) ((sd_session sd)\<lparr>se_sync := sy\<rparr>) q' s'"
    "delays sy = delays (se_sync (sd_session sd))" using p(1) by blast
  have "q = q'" by (rule remote_peer_eq[OF q'(1) advance(6)])
  then show ?thesis
    using called_side[OF ok law z b inv e p(2) _ _ _ _ q'(2,1) refl] q'(3) unfolding advance(1) by (simp add: after_call_def)
next
  case (tasks e')
  show ?thesis using tasks_side[OF ok law z b inv e tasks(2-5)] tasks(2) unfolding tasks(1) by auto
qed

section \<open>The invariant of the match\<close>

lemma builder_side:
  assumes new: "builder_start X b draws ends = Some (Inr s)" and b: "duel l r b" and ends: "new_ends W ends"
    and p: "se_players s ! r = Remote p"
  shows "side_ok X W G b l r (side_new G b s p)" and "fresh_peer W p" and "unused_peer W p"
proof -
  let ?st = "replicate (length (sb_players b)) connection_status_default"
  have start: "session_new X b draws ends = Some (Inr s)" using new by (simp add: builder_start_def)
  obtain players where pl: "traverse (player_type_new X b ?st draws ends) (enumerate 0 (sb_players b)) = Some players"
    "s = \<lparr>se_sync = sync_new (pod_zeroed (cr_pod X)) (length (sb_players b)) (sb_frame_delay b), se_players = players,
       se_synchronizing = (\<exists>player \<in> set players. \<not> is_local player),
       se_next_recommended_sleep = 0, se_local_connect_status = ?st\<rparr>"
    using start by (auto simp: session_new_def Let_def bind_eq_Some_conv split: if_split_asm)
  have mk: "length players = length (sb_players b)" "\<And>i. i < length (sb_players b) \<Longrightarrow>
      player_type_new X b ?st draws ends (i, sb_players b ! i) = Some (players ! i)"
    using pl(1) by (auto simp: traverse_Some nth_enumerate_eq)
  have sb: "length (sb_players b) = 2" "l < 2" "r < 2" "sb_players b ! l = Player_Local" "sb_players b ! r = Player_Remote"
    using b by (auto simp: duel_def)
  have "players ! l = Local" using mk(2)[of l] sb by (simp add: player_type_new_def)
  then have seat: "seated l r p s"
    using b p mk(1) sb(1) pl(2) by (auto simp: seated_def duel_def list_eq_iff_nth_eq less_Suc_eq numeral_2_eq_2)
  obtain cfg where "peer_new X r cfg ?st (draws r) (fst (ends r)) (fst (snd (ends r))) (snd (snd (ends r))) = Some p"
    using mk(2)[of r] sb p pl(2) by (auto simp: player_type_new_def Let_def bind_eq_Some_conv)
  then show "fresh_peer W p" "unused_peer W p"
    using ends by (auto simp: peer_new_def peer_state_default_def bind_eq_Some_conv fresh_peer_def unused_peer_def new_ends_def)
  have reach: "session_reachable X W G b (world_new G (length (sb_players b)) (sb_frame_delay b), s)"
    by (rule session_reachable.start[OF new]) (use ends in \<open>simp add: new_ends_def\<close>)
  have "Remote p \<in> set players" using p pl(2) sb(1,3) mk(1) nth_mem[of r players] by simp
  then have "se_synchronizing s" using pl(2) by force
  moreover have "delays (se_sync s) = [sb_frame_delay b, sb_frame_delay b]"
    using pl(2) sb(1) by (simp add: delays_def sync_new_def create_queues_def queue_new_def numeral_2_eq_2)
  ultimately show "side_ok X W G b l r (side_new G b s p)"
    using seat reach pl(2) sb
    by (simp add: side_ok_def side_new_def endpoint_new_def conn_new_def knows_def world_new_def
        connection_status_default_def NULL_FRAME_def)
qed

lemma ends_ok:
  assumes codec: "packet_codec (cr_varint X) (cr_pod X)" and ok: "channels_ok X W"
    and law: "\<And>m bytes. ser m = Inr bytes \<Longrightarrow> des bytes = Inr m"
    and new: "fresh_peer W p" "fresh_peer W q" "unused_peer W p" "unused_peer W q"
    and reach: "peers_reachable X ser des p q a b"
  shows "end_ok W a" and "end_ok W b" and "delivers W a b" and "delivers W b a"
proof -
  note conn = peers_conn_reachable[OF reach]
  have "conn_inv W (cn_received (ep_conn a)) (ep_peer a)" "conn_inv W (cn_received (ep_conn b)) (ep_peer b)"
    using conn_reachable_inv[OF ok new(1)] conn_reachable_inv[OF ok new(2)] conn by (simp_all add: clones_inv_def)
  moreover have "clones_agree a" "clones_agree b" using ports_simulated[OF ok law new(3,4) reach] by simp_all
  moreover show del: "delivers W a b" "delivers W b a"
    using peers_agree_on_inputs[OF codec ok law new(3,4) reach] by simp_all
  ultimately show "end_ok W a" "end_ok W b" by (auto simp: end_ok_def delivers_def)
qed

definition match_ok ::
    "('i, 'e, 'o, 'm) crates \<Rightarrow> ('i, 'e, 'o, 'm) views \<Rightarrow> ('i, 'g) game \<Rightarrow> nat \<Rightarrow> nat \<Rightarrow> session_builder \<Rightarrow> session_builder \<Rightarrow>
       ('i, 'g, 'e, 'o, 'm) side \<Rightarrow> ('i, 'g, 'e, 'o, 'm) side \<Rightarrow> bool" where
  "match_ok X W G l r ba bb a b \<longleftrightarrow> side_ok X W G ba l r a \<and> side_ok X W G bb r l b \<and>
     end_ok W (sd_end a) \<and> end_ok W (sd_end b) \<and> delivers W (sd_end a) (sd_end b) \<and> delivers W (sd_end b) (sd_end a)"

lemma match_reachable_ok:
  assumes codec: "packet_codec (cr_varint X) (cr_pod X)" and ok: "channels_ok X W"
    and law: "\<And>m bytes. ser m = Inr bytes \<Longrightarrow> des bytes = Inr m"
    and z: "gm_zero G = pod_zeroed (cr_pod X)" and ba: "duel l r ba" and bb: "duel r l bb"
    and reach: "match_reachable X W G ser des l r ba bb a b"
  shows "match_ok X W G l r ba bb a b"
proof -
  have "side_ok X W G ba l r a \<and> side_ok X W G bb r l b \<and> (\<exists>p q. fresh_peer W p \<and> fresh_peer W q \<and>
      unused_peer W p \<and> unused_peer W q \<and> peers_reachable X ser des p q (sd_end a) (sd_end b))"
    using reach
  proof induction
    case (start draws ends sa draws' ends' sb p q)
    then show ?case
      using builder_side[OF start(1) ba start(3,5)] builder_side[OF start(2) bb start(4,6)] peers_reachable.start
      by (fastforce simp: side_new_def)
  next
    case (first a b a')
    then obtain p q where new: "fresh_peer W p" "fresh_peer W q" "unused_peer W p" "unused_peer W q"
      and pq: "peers_reachable X ser des p q (sd_end a) (sd_end b)" and sides: "side_ok X W G ba l r a" "side_ok X W G bb r l b"
      by blast
    note e = ends_ok[OF codec ok law new pq]
    from side_step_ok[OF ok law z ba sides(1) e(1) first.hyps(2)] show ?case
      using sides(2) new peers_steps_first[OF _ pq] by blast
  next
    case (second a b b')
    then obtain p q where new: "fresh_peer W p" "fresh_peer W q" "unused_peer W p" "unused_peer W q"
      and pq: "peers_reachable X ser des p q (sd_end a) (sd_end b)" and sides: "side_ok X W G ba l r a" "side_ok X W G bb r l b"
      by blast
    note e = ends_ok[OF codec ok law new pq]
    from side_step_ok[OF ok law z bb sides(2) e(2) second.hyps(2)] show ?case
      using sides(1) new peers_steps_second[OF _ pq] by blast
  qed
  then obtain p q where sides: "side_ok X W G ba l r a" "side_ok X W G bb r l b"
    and new: "fresh_peer W p" "fresh_peer W q" "unused_peer W p" "unused_peer W q"
    and pq: "peers_reachable X ser des p q (sd_end a) (sd_end b)"
    by blast
  show ?thesis using sides ends_ok[OF codec ok law new pq] unfolding match_ok_def by blast
qed

section \<open>What the match guarantees\<close>

text \<open>The two sides play the same part.\<close>

lemma match_reachable_sym:
  "match_reachable X W G ser des l r ba bb a b \<Longrightarrow> match_reachable X W G ser des r l bb ba b a"
  by (induction rule: match_reachable.induct) (auto intro: match_reachable.intros)

lemma match_ok_sym: "match_ok X W G l r ba bb a b \<Longrightarrow> match_ok X W G r l bb ba b a"
  by (simp add: match_ok_def)

lemma accept_all_extends: "\<exists>later. accept_all z d m xs h = h @ later"
proof (induction xs arbitrary: m h)
  case (Cons x xs)
  obtain later where "accept_all z d m (x # xs) h = queue_accept z h (nat (m + d)) x @ later"
    using Cons.IH by fastforce
  then show ?case by (simp add: queue_accept_def)
qed simp

text \<open>What a side knows of the other player is what that player gave, up to what is on its way.\<close>

lemma match_inputs:
  assumes inv: "match_ok X W G l r ba bb a b" and d: "sb_frame_delay ba = sb_frame_delay bb"
  shows "\<exists>later. wo_inputs (sd_world a) l = wo_inputs (sd_world b) l @ later"
proof -
  obtain taken rest where "ep_pushed (sd_end a) = taken @ rest"
    "event_inputs (cn_received (ep_conn (sd_end b))) = numbered 0 taken"
    using inv by (auto simp: match_ok_def delivers_def)
  then have "wo_inputs (sd_world a) l = accept_all (gm_zero G) (sb_frame_delay ba) (int (length taken)) rest
      (wo_inputs (sd_world b) l)"
    using inv d by (simp add: match_ok_def side_ok_def knows_def accept_all_append)
  then show ?thesis using accept_all_extends by metis
qed

lemma match_state:
  assumes ok: "channels_ok X W" and z: "gm_zero G = pod_zeroed (cr_pod X)" and ba: "duel l r ba"
    and inv: "match_ok X W G l r ba bb a b"
  shows "wo_state (sd_world a) = replayed G 2 (wo_inputs (sd_world a)) (nat (current_frame (sd_session a)))"
proof -
  have side: "side_ok X W G ba l r a" using inv by (simp add: match_ok_def)
  note ss = side_session[OF ok z ba side]
  have "check_simulation_consistency (se_sync (sd_session a)) = None" using ss(7) by (simp add: session_ok_def)
  from executed_replayed[OF ss(1) this] show ?thesis using ss(2) by (simp add: current_frame_def)
qed

lemma match_agrees:
  assumes ok: "channels_ok X W" and z: "gm_zero G = pod_zeroed (cr_pod X)" and ba: "duel l r ba" and bb: "duel r l bb"
    and d: "sb_frame_delay ba = sb_frame_delay bb" and inv: "match_ok X W G l r ba bb a b"
    and f: "current_frame (sd_session a) = current_frame (sd_session b)"
    and known: "current_frame (sd_session a) \<le> int (length (wo_inputs (sd_world a) r))"
      "current_frame (sd_session a) \<le> int (length (wo_inputs (sd_world b) l))"
  shows "wo_state (sd_world a) = wo_state (sd_world b)"
proof -
  let ?f = "nat (current_frame (sd_session a))" and ?ha = "wo_inputs (sd_world a)" and ?hb = "wo_inputs (sd_world b)"
  obtain xs ys where ext: "?ha l = ?hb l @ xs" "?hb r = ?ha r @ ys"
    using match_inputs[OF inv d] match_inputs[OF match_ok_sym[OF inv] d[symmetric]] by blast
  have seats: "i = l \<or> i = r" if "i < 2" for i
    using that ba by (auto simp: duel_def)
  have "?f \<le> length (?ha i) \<and> ?f \<le> length (?hb i) \<and> take ?f (?ha i) = take ?f (?hb i)" if "i < 2" for i
    using seats[OF that] ext known by auto
  then have "good_sim (gm_zero G) 2 (statuses_of 2) ?ha ?f = good_sim (gm_zero G) 2 (statuses_of 2) ?hb ?f"
    by (intro good_sim_cong)
  then show ?thesis
    using match_state[OF ok z ba inv] match_state[OF ok z bb match_ok_sym[OF inv]] f by (simp add: replayed_def)
qed

text \<open>Polling and advancing never fail, and the match goes on.\<close>

lemma match_poll_returns:
  assumes ok: "channels_ok X W" and z: "gm_zero G = pod_zeroed (cr_pod X)" and ba: "duel l r ba"
    and inv: "match_ok X W G l r ba bb a b" and reach: "match_reachable X W G ser des l r ba bb a b"
    and fits: "call_fits W r (current_frame (sd_session a)) a"
  shows "\<exists>cs s' store g store' e. session_poll X (sd_session a, wo_store (sd_world a)) = Some (cs, s', store) \<and>
    execute_all (gm_step G) (gm_hash G) cs (wo_state (sd_world a), store) = Some (g, store') \<and>
    g = replayed G 2 (arrived W G r a) (nat (current_frame (sd_session a))) \<and>
    match_reachable X W G ser des l r ba bb
      \<lparr>sd_world = after_call (sd_world a) (arrived W G r a) g store' s', sd_session = s', sd_end = e\<rparr> b"
proof -
  have side: "side_ok X W G ba l r a" and e: "end_ok W (sd_end a)" using inv by (simp_all add: match_ok_def)
  note ss = side_session[OF ok z ba side]
  note may = arrived_inputs(1)[OF ok z ba side e fits]
  obtain cs s' store g store' where c: "session_poll X (sd_session a, wo_store (sd_world a)) = Some (cs, s', store)"
    "execute_all (gm_step G) (gm_hash G) cs (wo_state (sd_world a), store) = Some (g, store')"
    "g = replayed G (sy_player_count (se_sync (sd_session a))) (arrived W G r a) (nat (sy_frame_count (se_sync (sd_session a))))"
    by (rule poll_returns[OF ok ss(7) may[unfolded current_frame_def]])
  obtain q where "seated l r q s'" using poll_side(1)[OF ok z ba side e fits c(1,2)] by blast
  from match_reachable.first[OF reach side_step.poll[OF fits c(1,2) seatedD(6)[OF this]]]
  show ?thesis using c ss(2) by (auto simp: current_frame_def)
qed

lemma match_advance_returns:
  assumes ok: "channels_ok X W" and z: "gm_zero G = pod_zeroed (cr_pod X)" and ba: "duel l r ba"
    and inv: "match_ok X W G l r ba bb a b" and reach: "match_reachable X W G ser des l r ba bb a b"
    and adv: "may_advance (sd_session a)" and fits: "call_fits W r (current_frame (sd_session a) + 1) a"
  shows "\<exists>cs s' store g store' e. session_advance_frame X (sd_session a, wo_store (sd_world a)) = Some (cs, s', store) \<and>
    execute_all (gm_step G) (gm_hash G) cs (wo_state (sd_world a), store) = Some (g, store') \<and>
    g = replayed G 2 (arrived W G r a) (nat (current_frame (sd_session a) + 1)) \<and>
    current_frame s' = current_frame (sd_session a) + 1 \<and>
    match_reachable X W G ser des l r ba bb
      \<lparr>sd_world = after_call (sd_world a) (arrived W G r a) g store' s', sd_session = s', sd_end = e\<rparr> b"
proof -
  have side: "side_ok X W G ba l r a" and e: "end_ok W (sd_end a)" using inv by (simp_all add: match_ok_def)
  note ss = side_session[OF ok z ba side]
  note may = arrived_inputs(1)[OF ok z ba side e fits]
  obtain cs s' store g store' where c: "session_advance_frame X (sd_session a, wo_store (sd_world a)) = Some (cs, s', store)"
    "execute_all (gm_step G) (gm_hash G) cs (wo_state (sd_world a), store) = Some (g, store')"
    "g = replayed G (sy_player_count (se_sync (sd_session a))) (arrived W G r a) (nat (sy_frame_count (se_sync (sd_session a)) + 1))"
    "sy_frame_count (se_sync s') = sy_frame_count (se_sync (sd_session a)) + 1"
    by (rule advance_returns[OF ok ss(7) adv may[unfolded current_frame_def]])
  obtain q where "seated l r q s'" using advance_side(1)[OF ok z ba side e adv fits c(1,2)] by blast
  from match_reachable.first[OF reach side_step.advance[OF adv fits c(1,2) seatedD(6)[OF this]]]
  show ?thesis using c ss(2) by (auto simp: current_frame_def)
qed

lemma match_local_input_returns:
  assumes codec: "packet_codec (cr_varint X) (cr_pod X)" and ok: "channels_ok X W"
    and z: "gm_zero G = pod_zeroed (cr_pod X)" and ba: "duel l r ba"
    and inv: "match_ok X W G l r ba bb a b" and reach: "match_reachable X W G ser des l r ba bb a b"
    and adv: "may_advance (sd_session a)" and due: "local_input_due (sd_world a) l t" and fits: "can_send X x (sd_session a)"
  shows "\<exists>s' e. add_local_input X l x (sd_session a) = Some (Inr (), s') \<and>
    match_reachable X W G ser des l r ba bb
      \<lparr>sd_world = (sd_world a)\<lparr>wo_sync := se_sync s', wo_inputs := accept_input G l t x (wo_inputs (sd_world a))\<rparr>,
       sd_session = s', sd_end = e\<rparr> b"
proof -
  have side: "side_ok X W G ba l r a" using inv by (simp add: match_ok_def)
  then have seat: "seated l r (ep_peer (sd_end a)) (sd_session a)" by (simp add: side_ok_def)
  note ss = side_session[OF ok z ba side] and loc = seatedD(5)[OF seat]
  have none: "check_simulation_consistency (se_sync (sd_session a)) = None" using ss(7) by (simp add: session_ok_def)
  have running: "\<not> se_synchronizing (sd_session a)" "\<not> barred (se_sync (sd_session a))"
    using adv by (simp_all add: may_advance_def)
  obtain ret s' where res: "add_local_input X l x (sd_session a) = Some (ret, s')"
    using add_local_input_returns[OF codec ok ss(1) none running(1) loc due running(2) fits] by (metis surj_pair)
  have ret: "ret = Inr ()" by (rule add_local_input_ok(1)[OF ok ss(1) none running(1) loc due running(2) res])
  have "0 \<le> sy_frame_count (se_sync (sd_session a))" "\<not> sy_rolling_back (se_sync (sd_session a))"
    using due ss(1) by (auto simp: local_input_due_def input_fits_def Let_def session_rep_def)
  then obtain q where "seated l r q s'"
    using add_local_input_result[OF res[unfolded ret] _ running(1) _ seat] by metis
  from match_reachable.first[OF reach side_step.local_input[OF running due res seatedD(6)[OF this]]]
  show ?thesis using res ret by blast
qed

end
