(* ===== verification/Session_Faults.thy ===== *)
theory Session_Faults
  imports Session_Run
begin

text \<open>
  Where the session does not do what its documentation promises: what happens after a disconnect, when a
  player disconnects behind a misprediction or before its first input, in a session of more than two
  remote players, with a short notification time, and to forged packets.
\<close>

section \<open>After a disconnect\<close>

lemma check_initial_sync_keeps:
  "check_initial_sync (cs, s, st) = Some (cs', s', st') \<Longrightarrow>
     se_players s' = se_players s \<and> se_local_connect_status s' = se_local_connect_status s \<and> se_sync s' = se_sync s"
  by (auto simp: check_initial_sync.simps bind_eq_Some_conv split: if_split_asm)

lemma increment_frames_count:
  "increment_frames n z sts (cs, sy, st) = Some (cs', sy', st') \<Longrightarrow> sy_player_count sy' = sy_player_count sy"
proof (induction n arbitrary: cs sy st)
  case (Suc n)
  then obtain cs1 sy1 st1 where one: "increment_frame z sts (cs, sy, st) = Some (cs1, sy1, st1)"
    "increment_frames n z sts (cs1, sy1, st1) = Some (cs', sy', st')"
    by (auto simp: bind_eq_Some_conv simp del: increment_frame.simps)
  have "sy_player_count sy1 = sy_player_count sy" by (rule increment_player_count[OF one(1)])
  then show ?case using Suc.IH[OF one(2)] by simp
qed simp

lemma adjust_player_count:
  "adjust_simulation z sts seek (cs, sy, st) = Some (cs', sy', st') \<Longrightarrow> sy_player_count sy' = sy_player_count sy"
  by (auto simp: adjust_simulation.simps bind_eq_Some_conv Let_def
      dest!: increment_frames_count load_player_count reset_player_count)

lemma disconnect_queue_fields:
  assumes "disconnect_player_queue X i f (cs, s, st) = Some (cs', s', st')"
  shows "i < length (se_players s)" and "i < length (se_local_connect_status s)"
    and "se_players s' = (se_players s)[i := player_disconnect X (se_players s ! i)]"
    and "se_local_connect_status s' = (se_local_connect_status s)[i := \<lparr>cs_disconnected = True, cs_last_frame = f\<rparr>]"
    and "sy_player_count (se_sync s') = sy_player_count (se_sync s)"
proof -
  let ?sts = "(se_local_connect_status s)[i := \<lparr>cs_disconnected = True, cs_last_frame = f\<rparr>]"
  let ?s = "s\<lparr>se_players := (se_players s)[i := player_disconnect X (se_players s ! i)], se_local_connect_status := ?sts\<rparr>"
  obtain run where run: "i < length (se_players s)" "i < length (se_local_connect_status s)"
    "(if f < sy_frame_count (se_sync s)
        then with_sync (adjust_simulation (pod_zeroed (cr_pod X)) ?sts f) (cs, ?s, st) else Some (cs, ?s, st)) = Some run"
    "check_initial_sync (push_command (Event (Disconnected i)) run) = Some (cs', s', st')"
    using assms unfolding disconnect_player_queue.simps Let_def bind_eq_Some_conv index_at_def store_at_def
    by (fastforce simp del: with_sync.simps push_command.simps split: if_split_asm)
  have "\<exists>cs1 sy1 st1. run = (cs1, ?s\<lparr>se_sync := sy1\<rparr>, st1) \<and> sy_player_count sy1 = sy_player_count (se_sync s)"
  proof (cases "f < sy_frame_count (se_sync s)")
    case True
    then show ?thesis
      using run(3) by (auto simp: bind_eq_Some_conv dest: adjust_player_count)
  next
    case False
    then show ?thesis
      using run(3) by (intro exI[of _ cs] exI[of _ "se_sync s"] exI[of _ st]) simp
  qed
  then obtain cs1 sy1 st1 where one: "run = (cs1, ?s\<lparr>se_sync := sy1\<rparr>, st1)"
    "sy_player_count sy1 = sy_player_count (se_sync s)" by blast
  show "i < length (se_players s)" "i < length (se_local_connect_status s)" by (rule run)+
  have "check_initial_sync (cs1 @ [Event (Disconnected i)], ?s\<lparr>se_sync := sy1\<rparr>, st1) = Some (cs', s', st')"
    using run(4) one(1) by simp
  from check_initial_sync_keeps[OF this] one(2)
  show "se_players s' = (se_players s)[i := player_disconnect X (se_players s ! i)]"
    and "se_local_connect_status s' = ?sts" and "sy_player_count (se_sync s') = sy_player_count (se_sync s)"
    by simp_all
qed

text \<open>A closed channel of a player who is already disconnected.\<close>

lemma closed_again_panics:
  assumes ok: "channels_ok X W" and i: "i < length (se_players s)" "se_players s ! i = Remote p"
      "i < sy_player_count (se_sync s)"
    and st: "i < length (se_local_connect_status s)" "cs_disconnected (se_local_connect_status s ! i)"
    and ch: "vw_events W (pe_events p) = []" "vw_events_shut W (pe_events p)"
  shows "flush_peer_events X i (cs, s, store) = None"
proof -
  have "unbounded_channel (cr_events X) (vw_events W) (vw_events_shut W)"
    using ok by (simp add: channels_ok_def)
  from unbounded_channel.try_recv_none[OF this ch(1)] ch(2)
  have "chan_try_recv (cr_events X) (pe_events p) = (Inl TryRecvClosed, pe_events p)" by simp
  then show ?thesis
    using i st by (subst flush_peer_events.simps)
      (simp add: receive_event_def disconnect_player.simps player_handle_to_queue_def)
qed

lemma poll_after_disconnect:
  assumes ok: "channels_ok X W" and two: "se_players s = [Local, Remote p]" "sy_player_count (se_sync s) = 2"
    and ch: "vw_events W (pe_events p) = []"
    and dis: "session_disconnect_player X 1 (s, store) = Some (Inr (cs, s', store'))"
    and roll: "\<not> in_rollback s'"
  shows "session_poll X (s', store'') = None"
proof -
  obtain f where d: "disconnect_player_queue X 1 f ([], s, store) = Some (cs, s', store')"
    using dis two by (auto simp: session_disconnect_player_def player_handle_to_queue_def bind_eq_Some_conv
        Let_def split: if_split_asm)
  note f = disconnect_queue_fields[OF d]
  have players: "se_players s' = [Local, Remote (peer_disconnect X p)]"
    using f(3) two by simp
  have "unbounded_channel (cr_events X) (vw_events W) (vw_events_shut W)"
    using ok by (simp add: channels_ok_def)
  then have shut: "vw_events W (pe_events (peer_disconnect X p)) = []" "vw_events_shut W (pe_events (peer_disconnect X p))"
    using unbounded_channel.chan_close[of "cr_events X" "vw_events W" "vw_events_shut W"] ch
    by (simp_all add: peer_disconnect_def)
  have "flush_peer_events X 1 ([], s', store'') = None"
    by (rule closed_again_panics[OF ok]) (use players f shut two in auto)
  then show ?thesis
    using players roll by (simp add: session_poll_def do_poll_def flush_events_def in_rollback_def)
qed

section \<open>A disconnect after a wrong prediction\<close>

lemma accept_one:
  assumes i: "i < length (sy_input_queues sy)" and st: "cs_last_frame status = int n - 1" and n: "int n < i32_MAX"
    and add: "add_input \<lparr>fi_frame = int n, fi_input = x\<rparr> (sy_input_queues sy ! i) = Some (r, q)"
  shows "accept_inputs i (numbered (int n) (x # xs)) status sy =
    accept_inputs i (numbered (int (Suc n)) xs) (status\<lparr>cs_last_frame := int n\<rparr>)
      (sy\<lparr>sy_input_queues := (sy_input_queues sy)[i := q]\<rparr>)"
proof -
  have "lazy_or (is_null (cs_last_frame status)) (do { f \<leftarrow> i32_add (cs_last_frame status) 1; Some (int n = f) }) = Some True"
    using st n by (auto simp: lazy_or_def is_null_def in_i32_def i32_MAX_def)
  moreover have "int (Suc n) = int n + 1" by simp
  ultimately show ?thesis using i add by (simp only: numbered.simps accept_inputs.simps add_remote_input_def) (simp add: Let_def)
qed

text \<open>The inputs of an event when the queue has no delay; a misprediction found stays the first one.\<close>

lemma accept_after_error:
  assumes "i < length (sy_input_queues sy)" and "tracks z h used (sy_input_queues sy ! i)"
    and "iq_frame_delay (sy_input_queues sy ! i) = 0"
    and "iq_last_user_added_frame (sy_input_queues sy ! i) = int (length h) - 1"
    and "cs_last_frame status = int (length h) - 1" and "int (length h + length xs) < i32_MAX"
    and "iq_length (sy_input_queues sy ! i) + length xs \<le> MAX_ROLLBACK_FRAMES"
    and "\<not> is_null (iq_first_incorrect_frame (sy_input_queues sy ! i))"
  shows "\<exists>q'. accept_inputs i (numbered (int (length h)) xs) status sy =
      Some (status\<lparr>cs_last_frame := int (length h + length xs) - 1\<rparr>,
        sy\<lparr>sy_input_queues := (sy_input_queues sy)[i := q']\<rparr>) \<and>
    iq_first_incorrect_frame q' = iq_first_incorrect_frame (sy_input_queues sy ! i)"
  using assms
proof (induction xs arbitrary: sy h status)
  case Nil
  then show ?case by (intro exI[of _ "sy_input_queues sy ! i"]) simp
next
  case (Cons x xs)
  let ?q = "sy_input_queues sy ! i"
  have bounds: "in_i32 (int (length h) + 1)" "in_i32 (int (length h))"
    and next_frame: "is_null (iq_last_user_added_frame ?q) \<or> int (length h) = iq_last_user_added_frame ?q + 1"
    and target: "int (length h) + iq_frame_delay ?q = int (length h)"
    and room: "iq_length ?q + (Suc (length h) - length h) \<le> MAX_ROLLBACK_FRAMES"
    using Cons.prems by (auto simp: in_i32_def i32_MAX_def)
  obtain q1 where q1: "add_input \<lparr>fi_frame = int (length h), fi_input = x\<rparr> ?q = Some (int (length h), q1)"
    "tracks z (h @ [x]) used q1" "iq_length q1 = Suc (iq_length ?q)" "iq_last_user_added_frame q1 = int (length h)"
    "iq_frame_delay q1 = 0" "iq_first_incorrect_frame q1 = iq_first_incorrect_frame ?q"
    by (rule add_input_tracks[OF Cons.prems(2) next_frame target bounds(1,2,2) room, of x])
      (use Cons.prems in \<open>auto simp: queue_accept_def\<close>)
  let ?sy = "sy\<lparr>sy_input_queues := (sy_input_queues sy)[i := q1]\<rparr>" and ?st = "status\<lparr>cs_last_frame := int (length h)\<rparr>"
  have "accept_inputs i (numbered (int (length h)) (x # xs)) status sy =
      accept_inputs i (numbered (int (length (h @ [x]))) xs) ?st ?sy"
    using accept_one[OF Cons.prems(1,5) _ q1(1), of xs] Cons.prems(6) by simp
  moreover have "\<exists>q'. accept_inputs i (numbered (int (length (h @ [x]))) xs) ?st ?sy =
      Some (?st\<lparr>cs_last_frame := int (length (h @ [x]) + length xs) - 1\<rparr>,
        ?sy\<lparr>sy_input_queues := (sy_input_queues ?sy)[i := q']\<rparr>) \<and>
    iq_first_incorrect_frame q' = iq_first_incorrect_frame (sy_input_queues ?sy ! i)"
    by (rule Cons.IH) (use Cons.prems q1 in simp_all)
  ultimately show ?case using Cons.prems(1) q1(6) by (elim exE, rule_tac x = q' in exI) simp
qed

text \<open>Some input before the last differs from the prediction: it is the first misprediction.\<close>

lemma accept_wrong_inputs:
  assumes "i < length (sy_input_queues sy)" and "tracks z h used (sy_input_queues sy ! i)"
    and "iq_frame_delay (sy_input_queues sy ! i) = 0"
    and "iq_last_user_added_frame (sy_input_queues sy ! i) = int (length h) - 1"
    and "cs_last_frame status = int (length h) - 1" and "int (length h + length xs) < i32_MAX"
    and "iq_length (sy_input_queues sy ! i) + length xs \<le> MAX_ROLLBACK_FRAMES"
    and "is_null (iq_first_incorrect_frame (sy_input_queues sy ! i))"
    and "length h + length xs \<le> length used" and "k < length xs" and "xs ! k \<noteq> last_or z h"
  shows "\<exists>q'. accept_inputs i (numbered (int (length h)) xs) status sy =
      Some (status\<lparr>cs_last_frame := int (length h + length xs) - 1\<rparr>,
        sy\<lparr>sy_input_queues := (sy_input_queues sy)[i := q']\<rparr>) \<and>
    \<not> is_null (iq_first_incorrect_frame q') \<and> iq_first_incorrect_frame q' \<le> int (length h + k)"
  using assms
proof (induction xs arbitrary: sy h status k)
  case (Cons x xs)
  let ?q = "sy_input_queues sy ! i"
  have bounds: "in_i32 (int (length h) + 1)" "in_i32 (int (length h))"
    and next_frame: "is_null (iq_last_user_added_frame ?q) \<or> int (length h) = iq_last_user_added_frame ?q + 1"
    and target: "int (length h) + iq_frame_delay ?q = int (length h)"
    and room: "iq_length ?q + (Suc (length h) - length h) \<le> MAX_ROLLBACK_FRAMES"
    using Cons.prems by (auto simp: in_i32_def i32_MAX_def)
  have wrong: "differs z h used \<lparr>fi_frame = int (length h), fi_input = x\<rparr> \<longleftrightarrow> x \<noteq> last_or z h"
    using Cons.prems(9) by (simp add: differs_def)
  obtain q1 where q1: "add_input \<lparr>fi_frame = int (length h), fi_input = x\<rparr> ?q = Some (int (length h), q1)"
    "tracks z (h @ [x]) used q1" "iq_length q1 = Suc (iq_length ?q)" "iq_last_user_added_frame q1 = int (length h)"
    "iq_frame_delay q1 = 0" "iq_first_incorrect_frame q1 = (if x \<noteq> last_or z h then int (length h) else iq_first_incorrect_frame ?q)"
    by (rule add_input_tracks[OF Cons.prems(2) next_frame target bounds(1,2,2) room, of x])
      (use Cons.prems wrong in \<open>auto simp: queue_accept_def\<close>)
  let ?sy = "sy\<lparr>sy_input_queues := (sy_input_queues sy)[i := q1]\<rparr>" and ?st = "status\<lparr>cs_last_frame := int (length h)\<rparr>"
  have step: "accept_inputs i (numbered (int (length h)) (x # xs)) status sy =
      accept_inputs i (numbered (int (length (h @ [x]))) xs) ?st ?sy"
    using accept_one[OF Cons.prems(1,5) _ q1(1), of xs] Cons.prems(6) by simp
  show ?case
  proof (cases "x = last_or z h")
    case False
    have "\<exists>q'. accept_inputs i (numbered (int (length (h @ [x]))) xs) ?st ?sy =
        Some (?st\<lparr>cs_last_frame := int (length (h @ [x]) + length xs) - 1\<rparr>,
          ?sy\<lparr>sy_input_queues := (sy_input_queues ?sy)[i := q']\<rparr>) \<and>
      iq_first_incorrect_frame q' = iq_first_incorrect_frame (sy_input_queues ?sy ! i)"
      by (rule accept_after_error) (use Cons.prems q1 False in \<open>simp_all add: is_null_def\<close>)
    then show ?thesis
      using step Cons.prems(1) q1(6) False by (elim exE, rule_tac x = q' in exI) (simp add: is_null_def)
  next
    case True
    then obtain j where j: "k = Suc j" "j < length xs" "xs ! j \<noteq> last_or z (h @ [x])"
      using Cons.prems(10,11) by (cases k) (auto simp: last_or_def)
    have "\<exists>q'. accept_inputs i (numbered (int (length (h @ [x]))) xs) ?st ?sy =
        Some (?st\<lparr>cs_last_frame := int (length (h @ [x]) + length xs) - 1\<rparr>,
          ?sy\<lparr>sy_input_queues := (sy_input_queues ?sy)[i := q']\<rparr>) \<and>
      \<not> is_null (iq_first_incorrect_frame q') \<and> iq_first_incorrect_frame q' \<le> int (length (h @ [x]) + j)"
      by (rule Cons.IH) (use Cons.prems q1 True j in simp_all)
    then show ?thesis
      using step Cons.prems(1) j(1) by (elim exE, rule_tac x = q' in exI) simp
  qed
qed simp

text \<open>
  The channel is closed behind these inputs: the player is disconnected before the misprediction is
  repaired, and the rollback of the disconnect stops at the later frame.
\<close>

lemma disconnect_past_error:
  assumes ok: "channels_ok X W" and rep: "session_rep X W G [] w s"
    and none: "check_simulation_consistency (se_sync s) = None" and two: "se_players s = [Local, Remote p]"
    and h: "h = wo_inputs w 1" and q: "q = sy_input_queues (se_sync s) ! 1"
    and recent: "iq_frame_delay q = 0" "cs_last_frame (se_local_connect_status s ! 1) + 1 = int (length h)"
    and room: "room_for q h (length xs)"
    and evs: "vw_events W (pe_events p) = [PeerInputs (numbered (int (length h)) xs)]"
    and sim: "int (length h + length xs) \<le> sy_frame_count (se_sync s)"
    and wrong: "k + 1 < length xs" "xs ! k \<noteq> last_or (gm_zero G) h"
  shows "session_poll X (s\<lparr>se_players := [Local, Remote (peer_disconnect X p)]\<rparr>, store) = None"
proof -
  have n: "sy_player_count (se_sync s) = 2" using rep two by (auto simp: session_rep_def)
  then have sync: "wo_sync w = se_sync s" and pend: "pending G [] w"
    and roll: "\<not> sy_rolling_back (se_sync s)" and conn: "all_connected 2 (se_local_connect_status s)"
    and pr: "player_rep W w s 1"
    using rep by (simp_all add: session_rep_def)
  obtain used d fc where wr: "world_rep G used d fc [] w" using pend by (auto simp: pending_def)
  have lenq: "length (sy_input_queues (se_sync s)) = 2" and fc: "sy_frame_count (se_sync s) = int fc"
    and qi: "queue_inv (gm_zero G) (confirmed (se_sync s)) fc h (used 1) q"
    using wr n by (simp_all add: world_rep_def Let_def sync h q)
  have tr: "tracks (gm_zero G) h (used 1) q" "length (used 1) = fc" using qi by (simp_all add: queue_inv_def)
  have here: "sy_input_queues (se_sync s) ! Suc 0 = q" by (simp add: q)
  have last: "iq_last_user_added_frame q = int (length h) - 1"
    using pr recent(2) by (simp add: player_rep_def Let_def q)
  have "nat (int (length h) + int (length xs)) = length h + length xs" by simp
  then have space: "iq_length q + length xs \<le> MAX_ROLLBACK_FRAMES"
    using room by (simp add: room_for_def Let_def recent(1) last)
  have null: "is_null (iq_first_incorrect_frame q)" using none lenq by (simp add: check_simulation_consistency_None q)
  let ?status = "se_local_connect_status s ! 1" and ?L = "int (length h + length xs) - 1"
  have ac: "\<exists>q'. accept_inputs 1 (numbered (int (length h)) xs) ?status (se_sync s) =
      Some (?status\<lparr>cs_last_frame := ?L\<rparr>, (se_sync s)\<lparr>sy_input_queues := (sy_input_queues (se_sync s))[1 := q']\<rparr>) \<and>
    \<not> is_null (iq_first_incorrect_frame q') \<and> iq_first_incorrect_frame q' \<le> int (length h + k)"
    by (rule accept_wrong_inputs[where z = "gm_zero G" and used = "used 1"])
      (use tr last null recent room wrong sim fc lenq here space in \<open>simp_all add: room_for_def Let_def\<close>)
  then obtain q' where q': "accept_inputs 1 (numbered (int (length h)) xs) ?status (se_sync s) =
      Some (?status\<lparr>cs_last_frame := ?L\<rparr>, (se_sync s)\<lparr>sy_input_queues := (sy_input_queues (se_sync s))[1 := q']\<rparr>)"
    "\<not> is_null (iq_first_incorrect_frame q')" "iq_first_incorrect_frame q' < ?L"
    using wrong(1) by fastforce
  have ch: "unbounded_channel (cr_events X) (vw_events W) (vw_events_shut W)"
    using ok by (simp add: channels_ok_def)
  let ?p = "peer_disconnect X p"
  have items: "vw_events W (pe_events ?p) = [PeerInputs (numbered (int (length h)) xs)]" "vw_events_shut W (pe_events ?p)"
    using unbounded_channel.chan_close[OF ch] evs by (simp_all add: peer_disconnect_def)
  obtain c where c: "chan_try_recv (cr_events X) (pe_events ?p) = (Inr (PeerInputs (numbered (int (length h)) xs)), c)"
    "vw_events W c = []" "vw_events_shut W c"
    using unbounded_channel.try_recv_item[OF ch items(1)] items(2) by auto
  have closed: "chan_try_recv (cr_events X) c = (Inl TryRecvClosed, c)"
    using unbounded_channel.try_recv_none[OF ch c(2)] c(3) by simp
  let ?s = "s\<lparr>se_players := [Local, Remote ?p]\<rparr>" and ?q = "?p\<lparr>pe_events := c\<rparr>"
  let ?sy = "(se_sync s)\<lparr>sy_input_queues := (sy_input_queues (se_sync s))[1 := q']\<rparr>"
  let ?sts = "(se_local_connect_status s)[1 := ?status\<lparr>cs_last_frame := ?L\<rparr>]"
  let ?s2 = "s\<lparr>se_players := [Local, Remote ?q], se_sync := ?sy, se_local_connect_status := ?sts\<rparr>"
  have len: "length (se_local_connect_status s) = 2" and up: "\<not> cs_disconnected ?status"
    using conn by (simp_all add: all_connected_def)
  have handled: "handle_event 1 (PeerInputs (numbered (int (length h)) xs)) ([], s\<lparr>se_players := [Local, Remote ?q]\<rparr>, store) =
      Some ([], ?s2, store)"
    using q'(1) len up by simp
  let ?e = "PeerInputs (numbered (int (length h)) xs)"
  have place: "?s\<lparr>se_players := (se_players ?s)[1 := Remote ?q]\<rparr> = s\<lparr>se_players := [Local, Remote ?q]\<rparr>" by simp
  have "flush_peer_events X 1 ([], ?s, store) =
      do { run \<leftarrow> handle_event 1 ?e ([], ?s\<lparr>se_players := (se_players ?s)[1 := Remote ?q]\<rparr>, store); flush_peer_events X 1 run }"
    by (rule flush_peer_step) (simp_all add: c(1))
  also have "\<dots> = flush_peer_events X 1 ([], ?s2, store)" by (simp only: place handled Option.bind.simps)
  also have "\<dots> = None"
  proof -
    have "q' \<in> set (sy_input_queues ?sy)" using lenq by (auto simp: set_update_memI)
    then have late: "adjust_simulation z sts ?L ([], ?sy, store) = None" for z sts
      using q'(2,3) by (rule adjust_past_error)
    have "?L < sy_frame_count (se_sync s)" using sim by simp
    then have "disconnect_player_queue X 1 ?L ([], ?s2, store) = None"
      using len late by (simp add: disconnect_player_queue.simps Let_def)
    then have "disconnect_player X 1 ([], ?s2, store) = None"
      using n len up by (simp add: disconnect_player.simps player_handle_to_queue_def)
    moreover have "receive_event X 1 ?s2 = Some (Inl TryRecvClosed, ?s2)"
      using closed by (simp add: receive_event_def)
    ultimately show ?thesis by (subst flush_peer_events.simps) simp
  qed
  finally have "flush_events X ([], ?s, store) = None" by (simp add: flush_events_def)
  then show ?thesis using roll by (simp add: session_poll_def do_poll_def)
qed

section \<open>A disconnect before the first input\<close>

text \<open>
  Nobody gives an input for \<open>NULL_FRAME\<close>: a queue that holds the input of frame 0 cannot be asked for
  it. This is the frame a player is said to have reached before its first input arrives.
\<close>

definition holds_first :: "'i input_queue \<Rightarrow> bool" where
  "holds_first q \<longleftrightarrow> (\<exists>t. index_at (iq_inputs q) (iq_tail q) = Some t \<and> 0 \<le> fi_frame t)"

lemma get_input_null: "holds_first q \<Longrightarrow> get_input z NULL_FRAME q = None"
  by (auto simp: holds_first_def get_input_def NULL_FRAME_def bind_eq_None_conv)

lemma holds_first_reset: "queue_reset_prediction f q = Some q' \<Longrightarrow> holds_first q' = holds_first q"
  by (auto simp: queue_reset_prediction_def holds_first_def bind_eq_Some_conv)

lemma synchronize_loop_null:
  assumes "l \<in> set idxs" and "l < length queues" and "holds_first (queues ! l)"
    and "is_disconnected sts NULL_FRAME l = Some False" and "distinct idxs"
  shows "synchronize_loop z sts NULL_FRAME idxs out queues = None"
  using assms
proof (induction idxs arbitrary: out queues)
  case (Cons i idxs)
  show ?case
  proof (cases "i = l")
    case True
    then show ?thesis using Cons.prems get_input_null[of "queues ! l" z] by simp
  next
    case False
    have rest: "synchronize_loop z sts NULL_FRAME idxs out' (queues[i := q]) = None"
      "synchronize_loop z sts NULL_FRAME idxs out' queues = None" for out' q
      by (rule Cons.IH; use Cons.prems False in simp)+
    show ?thesis by (simp add: rest bind_eq_None_conv split: option.split)
  qed
qed simp

lemma adjust_to_null:
  assumes l: "l < sy_player_count sy" "l < length (sy_input_queues sy)" "holds_first (sy_input_queues sy ! l)"
    and on: "is_disconnected sts NULL_FRAME l = Some False" and f: "0 < sy_frame_count sy"
  shows "adjust_simulation z sts NULL_FRAME (cs, sy, store) = None"
proof (rule ccontr)
  assume "adjust_simulation z sts NULL_FRAME (cs, sy, store) \<noteq> None"
  then obtain y cs1 sy1 store1 sy2 t where run: "load_frame NULL_FRAME (cs, sy\<lparr>sy_rolling_back := True\<rparr>, store) = Some (cs1, sy1, store1)"
    "sy_frame_count sy1 = NULL_FRAME" "reset_prediction NULL_FRAME sy1 = Some sy2"
    "i32_sub (sy_frame_count sy) NULL_FRAME = Some y" "increment_frames (nat y) z sts (cs1, sy2, store1) = Some t"
    unfolding adjust_simulation.simps Let_def by (auto simp: bind_eq_Some_conv)
  have "sy_input_queues sy1 = sy_input_queues sy" "sy_player_count sy1 = sy_player_count sy"
    using load_frame_queues[OF run(1)] load_player_count[OF run(1)] by simp_all
  moreover obtain qs where qs: "traverse (queue_reset_prediction NULL_FRAME) (sy_input_queues sy1) = Some qs"
    "sy2 = sy1\<lparr>sy_input_queues := qs\<rparr>"
    using run(3) by (auto simp: reset_prediction_def bind_eq_Some_conv)
  ultimately have sy2: "sy_frame_count sy2 = NULL_FRAME" "l < length (sy_input_queues sy2)"
    "holds_first (sy_input_queues sy2 ! l)" "l < sy_player_count sy2"
    using l run(2) holds_first_reset[of NULL_FRAME "sy_input_queues sy ! l"] by (auto simp: traverse_Some)
  have "synchronize_inputs z sts sy2 = None"
    unfolding synchronize_inputs_def sy2(1)
    by (subst synchronize_loop_null[OF _ sy2(2,3) on]) (use sy2(4) in simp_all)
  then have "increment_frame z sts (cs1, sy2, store1) = None" using sy2(1) by (simp add: NULL_FRAME_def)
  moreover have "nat y = Suc (nat (sy_frame_count sy))"
    using run(4) f by (auto simp: NULL_FRAME_def i32_sub_def split: if_split_asm)
  ultimately show False using run(5) by simp
qed

lemma oldest_held:
  assumes ok: "queue_ok z h q" and h: "h \<noteq> []" "oldest h q = 0"
  shows "holds_first q"
proof -
  have "iq_length q = length h" "iq_length q \<le> MAX_ROLLBACK_FRAMES" "length (iq_inputs q) = MAX_ROLLBACK_FRAMES"
    "iq_tail q = 0"
    using ok h(2) by (auto simp: queue_ok_def indices_ok_def ring_ok_def oldest_def)
  moreover from this have "iq_inputs q ! (0 mod MAX_ROLLBACK_FRAMES) = \<lparr>fi_frame = int 0, fi_input = h ! 0\<rparr>"
    using ok h(1) unfolding queue_ok_def ring_ok_def by (metis add_0 length_greater_0_conv)
  ultimately show ?thesis by (auto simp: holds_first_def index_at_def)
qed

lemma disconnect_before_input:
  assumes ok: "channels_ok X W" and rep: "session_rep X W G [] w s"
    and r: "r < sy_player_count (se_sync s)" "cs_last_frame (se_local_connect_status s ! r) = NULL_FRAME"
    and l: "l < sy_player_count (se_sync s)" "wo_inputs w l \<noteq> []" and f: "0 < sy_frame_count (se_sync s)"
  shows "disconnect_player_queue X r NULL_FRAME (cs, s\<lparr>se_players := players\<rparr>, store) = None"
proof -
  let ?n = "sy_player_count (se_sync s)"
  have sync: "wo_sync w = se_sync s" and pend: "pending G [] w" and conn: "all_connected ?n (se_local_connect_status s)"
    and pr: "player_rep W w s r"
    using rep r(1) by (simp_all add: session_rep_def)
  obtain used d fc where wr: "world_rep G used d fc [] w" using pend by (auto simp: pending_def)
  have "sy_last_confirmed_frame (se_sync s) \<le> NULL_FRAME" using pr r(2) by (simp add: player_rep_def Let_def)
  then have "confirmed (se_sync s) = 0" by (simp add: confirmed_def NULL_FRAME_def)
  then have "queue_inv (gm_zero G) 0 fc (wo_inputs w l) (used l) (sy_input_queues (se_sync s) ! l)"
    and lenq: "length (sy_input_queues (se_sync s)) = ?n"
    using wr l(1) by (simp_all add: world_rep_def Let_def sync)
  then have "holds_first (sy_input_queues (se_sync s) ! l)"
    by (intro oldest_held[OF _ l(2), of "gm_zero G"]) (simp_all add: queue_inv_def tracks_def)
  moreover have "is_disconnected ((se_local_connect_status s)[r := \<lparr>cs_disconnected = True, cs_last_frame = NULL_FRAME\<rparr>])
      NULL_FRAME l = Some False"
    using conn l(1) r(1) by (cases "l = r") (simp_all add: is_disconnected_def all_connected_def)
  ultimately have "adjust_simulation (pod_zeroed (cr_pod X))
      ((se_local_connect_status s)[r := \<lparr>cs_disconnected = True, cs_last_frame = NULL_FRAME\<rparr>]) NULL_FRAME (cs, se_sync s, store) = None"
    using l(1) lenq f by (intro adjust_to_null) simp_all
  moreover have "NULL_FRAME < sy_frame_count (se_sync s)" using f by (simp add: NULL_FRAME_def)
  ultimately show ?thesis
    using conn r(1) by (simp add: disconnect_player_queue.simps all_connected_def Let_def index_at_def bind_eq_None_conv)
qed

text \<open>Both ways to disconnect a player: the call of the client, and the closed channel that a poll finds.\<close>

lemma early_disconnect_panics:
  assumes ok: "channels_ok X W" and rep: "session_rep X W G [] w s"
    and r: "r < sy_player_count (se_sync s)" "se_players s ! r = Remote p" "cs_last_frame (se_local_connect_status s ! r) = NULL_FRAME"
    and l: "l < sy_player_count (se_sync s)" "wo_inputs w l \<noteq> []" and f: "0 < sy_frame_count (se_sync s)"
  shows "session_disconnect_player X r (s, store) = None"
    and "vw_events W (pe_events p) = [] \<Longrightarrow>
      flush_peer_events X r (cs, s\<lparr>se_players := (se_players s)[r := Remote (peer_disconnect X p)]\<rparr>, store) = None"
proof -
  have n: "length (se_players s) = sy_player_count (se_sync s)" and conn: "all_connected (sy_player_count (se_sync s)) (se_local_connect_status s)"
    using rep by (simp_all add: session_rep_def)
  note panic = disconnect_before_input[OF ok rep r(1,3) l f]
  show "session_disconnect_player X r (s, store) = None"
    using panic[of "[]" "se_players s" store] n conn r
    by (simp add: session_disconnect_player_def player_handle_to_queue_def all_connected_def Let_def)
  let ?c = "pe_events (peer_disconnect X p)" and ?players = "(se_players s)[r := Remote (peer_disconnect X p)]"
  assume none: "vw_events W (pe_events p) = []"
  have ch: "unbounded_channel (cr_events X) (vw_events W) (vw_events_shut W)"
    using ok by (simp add: channels_ok_def)
  have "vw_events W ?c = []" "vw_events_shut W ?c"
    using unbounded_channel.chan_close[OF ch] none by (simp_all add: peer_disconnect_def)
  then have closed: "chan_try_recv (cr_events X) ?c = (Inl TryRecvClosed, ?c)"
    using unbounded_channel.try_recv_none[OF ch, of ?c] by simp
  have "receive_event X r (s\<lparr>se_players := ?players\<rparr>) = Some (Inl TryRecvClosed, s\<lparr>se_players := ?players\<rparr>)"
    using closed r(1) n by (simp add: receive_event_def)
  moreover have "disconnect_player X r (cs, s\<lparr>se_players := ?players\<rparr>, store) = None"
    using panic[of cs ?players store] n conn r
    by (simp add: disconnect_player.simps player_handle_to_queue_def all_connected_def)
  ultimately show "flush_peer_events X r (cs, s\<lparr>se_players := ?players\<rparr>, store) = None"
    by (subst flush_peer_events.simps) simp
qed

section \<open>More than two remote players\<close>

text \<open>The session's copies of the peers never learn what the others received, so nothing is confirmed.\<close>

lemma many_players_confirm_nothing:
  assumes rep: "session_rep X W G made w s" and many: "2 < length (remote_peers s)"
    and run: "Remote p \<in> set (se_players s)" "peer_is_running p"
  obtains c where "confirmed_frame X f (cs, s, st) = Some (c, (cs, s, st))" and "c < 0"
proof -
  let ?n = "sy_player_count (se_sync s)"
  have n: "length (se_players s) = ?n" using rep by (simp add: session_rep_def)
  have "0 < length (se_players s)" using run(1) by (rule length_pos_if_in_set)
  then have idx: "\<forall>i \<in> set [0 ..< ?n]. i < ?n" and ne: "[0 ..< ?n] \<noteq> []"
    using n by auto
  have "\<exists>p. Remote p \<in> set (se_players s) \<and> peer_is_running p" using run by blast
  then obtain c where c: "poll_n_players X (cs, s, st) = Some (c, (cs, s, st))" "c < 0"
    unfolding poll_n_players_def fst_conv snd_conv n using poll_n_loop_rep[OF rep idx] ne by blast
  have "filter (\<lambda>player. \<not> is_local player) (se_players s) \<noteq> []"
    using run(1) by (auto simp: filter_empty_conv intro!: bexI[of _ "Remote p"])
  then show ?thesis using c many by (intro that[of c]) (simp_all add: confirmed_frame_def)
qed

text \<open>Nothing else confirms a frame.\<close>

lemma increment_frames_confirmed:
  "increment_frames n z sts (cs, sy, st) = Some (cs', sy', st') \<Longrightarrow>
     sy_last_confirmed_frame sy' = sy_last_confirmed_frame sy"
proof (induction n arbitrary: cs sy st)
  case (Suc n)
  then obtain cs1 sy1 st1 where one: "increment_frame z sts (cs, sy, st) = Some (cs1, sy1, st1)"
    "increment_frames n z sts (cs1, sy1, st1) = Some (cs', sy', st')"
    by (auto simp: bind_eq_Some_conv simp del: increment_frame.simps)
  have "sy_last_confirmed_frame sy1 = sy_last_confirmed_frame sy"
    using one(1) by (auto simp: synchronize_inputs_def bind_eq_Some_conv split: if_split_asm)
  then show ?case using Suc.IH[OF one(2)] by simp
qed simp

lemma check_confirmed:
  assumes "check_simulation z sts (cs, sy, st) = Some (cs', sy', st')"
  shows "sy_last_confirmed_frame sy' = sy_last_confirmed_frame sy"
  using assms
  by (auto simp: check_simulation.simps adjust_simulation.simps load_frame.simps reset_prediction_def bind_eq_Some_conv Let_def
      split: option.split_asm if_split_asm dest!: increment_frames_confirmed)

lemma notify_keeps_sync: "notify_time_sync f (cs, s, st) = Some (cs', s', st') \<Longrightarrow> se_sync s' = se_sync s"
  by (auto simp: notify_time_sync.simps bind_eq_Some_conv Let_def neq_Nil_conv split: if_split_asm list.split_asm)

lemma with_sync_result: "with_sync f (cs, s, st) = Some (cs', s', st') \<Longrightarrow> f (cs, se_sync s, st) = Some (cs', se_sync s', st')"
  by (auto simp: bind_eq_Some_conv)

lemma increment_confirmed:
  "increment_frame z sts (cs, sy, st) = Some (cs', sy', st') \<Longrightarrow> sy_last_confirmed_frame sy' = sy_last_confirmed_frame sy"
  by (auto simp: synchronize_inputs_def bind_eq_Some_conv split: if_split_asm)

lemma remote_peers_roles: "length (remote_peers s) = length (filter Not (roles s))"
proof -
  have "length (List.map_filter player_peer (filter is_remote_player ps)) = length (filter Not (map is_local ps))"
    for ps :: "('a, 'b, 'c, 'd) peer player_type list"
  proof (induction ps)
    case (Cons a ps)
    then show ?case by (cases a) (simp_all add: map_filter_def)
  qed (simp add: map_filter_def)
  then show ?thesis by (simp add: remote_peers_def roles_def)
qed

lemma poll_running_confirms_nothing:
  assumes rep: "session_rep X W G cs w s" and ld: "loads cs = {}"
    and calm: "players_calm (sy_frame_count (se_sync s)) s" and many: "2 < length (remote_peers s)"
    and run: "Remote p \<in> set (se_players s)" "peer_is_running p"
    and res: "poll_running X (cs, s, wo_store w) = Some (cs', s', st')"
  shows "sy_last_confirmed_frame (se_sync s') = sy_last_confirmed_frame (se_sync s)"
proof -
  let ?f = "sy_frame_count (se_sync s)"
  obtain cs1 sy1 store where c1:
    "with_sync (check_simulation (pod_zeroed (cr_pod X)) (se_local_connect_status s)) (cs, s, wo_store w)
      = Some (cs @ cs1, s\<lparr>se_sync := sy1\<rparr>, store)"
    "session_rep X W G (cs @ cs1) (w\<lparr>wo_sync := sy1, wo_store := store\<rparr>) (s\<lparr>se_sync := sy1\<rparr>)"
    "sy_frame_count sy1 = ?f"
    by (rule check_session_ok[OF rep ld])
  let ?s1 = "s\<lparr>se_sync := sy1\<rparr>"
  have same: "sy_last_confirmed_frame sy1 = sy_last_confirmed_frame (se_sync s)"
    using check_confirmed[OF with_sync_result[OF c1(1)]] by simp
  have "players_calm ?f ?s1" using calm by (simp add: players_calm_def)
  then obtain players where p: "traverse (player_set_local_frame_number ?f) (se_players ?s1) = Some players"
    "length players = length (se_players ?s1)"
    "\<And>i. i < length (se_players ?s1) \<Longrightarrow> same_role (se_players ?s1 ! i) (players ! i)"
    by (rule set_frame_numbers) blast
  let ?s2 = "?s1\<lparr>se_players := players\<rparr>"
  note rep2 = same_role_rep[OF c1(2) p(2,3)]
  have "roles ?s2 = roles s" by (rule same_roles) (use p(2,3) same_role_local in auto)
  then have many2: "2 < length (remote_peers ?s2)" using many by (simp add: remote_peers_roles)
  obtain i where i: "i < length (se_players s)" "se_players s ! i = Remote p" using run(1) by (auto simp: in_set_conv_nth)
  then obtain q where q: "set_local_frame_number ?f p = Some q" "players ! i = Remote q"
    using p(1) by (fastforce simp: traverse_Some bind_eq_Some_conv)
  have "Remote q \<in> set (se_players ?s2)" using nth_mem[of i players] q(2) i(1) p(2) by simp
  moreover have "peer_is_running q"
    using q(1) run(2) by (auto simp: set_local_frame_number_def peer_is_running_def Let_def bind_eq_Some_conv)
  ultimately obtain c where c: "confirmed_frame X ?f (cs @ cs1, ?s2, store) = Some (c, (cs @ cs1, ?s2, store))" "c < 0"
    using many_players_confirm_nothing[OF rep2 many2] by blast
  have "poll_running X (cs, s, wo_store w) = notify_time_sync ?f (cs @ cs1, ?s2, store)"
    unfolding poll_running_def using c1(1,3) p(1) c by (simp del: with_sync.simps)
  then have "notify_time_sync ?f (cs @ cs1, ?s2, store) = Some (cs', s', st')" by (simp only: res)
  from notify_keeps_sync[OF this] same show ?thesis by simp
qed

lemma do_poll_confirms_nothing:
  assumes ok: "channels_ok X W" and rep: "session_rep X W G cs w s" and ld: "loads cs = {}"
    and calm: "players_calm (sy_frame_count (se_sync s)) s"
    and arr: "\<forall>i < sy_player_count (se_sync s). arriving W G w s h i"
    and many: "2 < length (remote_peers s)" and run: "Remote p \<in> set (se_players s)" "peer_is_running p"
    and res: "do_poll X (cs, s, wo_store w) = Some (cs', s', st')"
  shows "sy_last_confirmed_frame (se_sync s') = sy_last_confirmed_frame (se_sync s)"
proof -
  have roll: "\<not> sy_rolling_back (se_sync s)" and n: "length (se_players s) = sy_player_count (se_sync s)"
    using rep by (simp_all add: session_rep_def)
  have "\<exists>ces s' w'. flush_from X 0 (se_players s) (cs, s, wo_store w) = Some (cs @ ces, s', wo_store w) \<and> only_events ces \<and>
      session_rep X W G (cs @ ces) w' s' \<and>
      wo_store w' = wo_store w \<and> wo_state w' = wo_state w \<and>
      (\<forall>j < sy_player_count (se_sync s). wo_inputs w' j = h j \<and> same_player (se_players s ! j) (se_players s' ! j)) \<and>
      (\<exists>qs. se_sync s' = (se_sync s)\<lparr>sy_input_queues := qs\<rparr>) \<and>
      (se_synchronizing s' \<longrightarrow> se_synchronizing s) \<and>
      se_next_recommended_sleep s' = se_next_recommended_sleep s"
    by (rule flush_from_ok[OF ok rep]) (use n arr in auto)
  then obtain ces s1 w1 where fl: "flush_from X 0 (se_players s) (cs, s, wo_store w) = Some (cs @ ces, s1, wo_store w)"
      "only_events ces" "session_rep X W G (cs @ ces) w1 s1" "wo_store w1 = wo_store w"
      "\<forall>j < sy_player_count (se_sync s). same_player (se_players s ! j) (se_players s1 ! j)"
      "\<exists>qs. se_sync s1 = (se_sync s)\<lparr>sy_input_queues := qs\<rparr>"
    by blast
  have keep: "sy_last_confirmed_frame (se_sync s1) = sy_last_confirmed_frame (se_sync s)"
    "sy_frame_count (se_sync s1) = sy_frame_count (se_sync s)" "sy_player_count (se_sync s1) = sy_player_count (se_sync s)"
    using fl(6) by auto
  have after: "do_poll X (cs, s, wo_store w) =
      (if se_synchronizing s1 then Some (cs @ ces, s1, wo_store w1) else poll_running X (cs @ ces, s1, wo_store w1))"
    using roll fl(1,4) by (simp add: do_poll_def flush_events_def)
  show ?thesis
  proof (cases "se_synchronizing s1")
    case True
    then show ?thesis using after res keep by simp
  next
    case False
    have n1: "length (se_players s1) = length (se_players s)"
      using fl(3) keep n by (simp add: session_rep_def)
    have sp: "same_player (se_players s ! i) (se_players s1 ! i)" if "i < length (se_players s)" for i
      using fl(5) that n by simp
    have "roles s1 = roles s" by (rule same_roles[OF n1]) (use sp same_player_local in blast)
    then have many1: "2 < length (remote_peers s1)" using many by (simp add: remote_peers_roles)
    have calm1: "players_calm (sy_frame_count (se_sync s1)) s1"
      unfolding keep by (rule players_calm_same[OF calm n1 sp])
    obtain i where i: "i < length (se_players s)" "se_players s ! i = Remote p" using run(1) by (auto simp: in_set_conv_nth)
    obtain q where q: "se_players s1 ! i = Remote q" "q = p\<lparr>pe_events := pe_events q\<rparr>"
      using sp[OF i(1)] i(2) by (cases "se_players s1 ! i") (simp_all add: same_player.simps(2))
    have "Remote q \<in> set (se_players s1)" using nth_mem[of i "se_players s1"] q(1) i(1) n1 by simp
    moreover have "pe_state q = pe_state p" by (subst q(2)) simp
    then have "peer_is_running q" using run(2) by (simp add: peer_is_running_def)
    moreover have "loads (cs @ ces) = {}" using ld only_events_loads[OF fl(2)] by (simp add: loads_def)
    moreover have "poll_running X (cs @ ces, s1, wo_store w1) = Some (cs', s', st')" using after res False by simp
    ultimately have "sy_last_confirmed_frame (se_sync s') = sy_last_confirmed_frame (se_sync s1)"
      by (intro poll_running_confirms_nothing[OF fl(3) _ calm1 many1])
    then show ?thesis using keep(1) by simp
  qed
qed

lemma poll_confirms_nothing:
  assumes ok: "channels_ok X W" and inv: "session_ok X W G (w, s)"
    and may: "may_poll W G (sy_frame_count (se_sync s)) h (w, s)"
    and many: "2 < length (remote_peers s)" and run: "Remote p \<in> set (se_players s)" "peer_is_running p"
    and res: "session_poll X (s, wo_store w) = Some (cs', s', st')"
  shows "sy_last_confirmed_frame (se_sync s') = sy_last_confirmed_frame (se_sync s)"
  by (rule do_poll_confirms_nothing[OF ok, of G "[]" w s h p cs' s' st'])
    (use inv may many run res in \<open>simp_all add: session_ok_def may_poll_def session_poll_def\<close>)

lemma advance_confirms_nothing:
  assumes ok: "channels_ok X W" and inv: "session_ok X W G (w, s)" and adv: "may_advance s"
    and may: "may_poll W G (sy_frame_count (se_sync s) + 1) h (w, s)"
    and many: "2 < length (remote_peers s)" and run: "Remote p \<in> set (se_players s)" "peer_is_running p"
    and res: "session_advance_frame X (s, wo_store w) = Some (cs', s', st')"
  shows "sy_last_confirmed_frame (se_sync s') = sy_last_confirmed_frame (se_sync s)"
proof -
  have rep: "session_rep X W G [] w s" and none: "check_simulation_consistency (se_sync s) = None"
    and running: "\<not> se_synchronizing s" and bar: "\<not> barred (se_sync s)"
    and calm: "players_calm (sy_frame_count (se_sync s) + 1) s"
    and f: "sy_frame_count (se_sync s) + 1 < i32_MAX"
    and arr: "\<forall>i < sy_player_count (se_sync s). arriving W G w s h i" and sync: "wo_sync w = se_sync s"
    using inv adv may by (simp_all add: session_ok_def may_poll_def may_advance_def RECOMMENDATION_INTERVAL_def session_rep_def)
  obtain cs sy store where made:
    "with_sync (increment_frame (pod_zeroed (cr_pod X)) (se_local_connect_status s)) ([], s, wo_store w)
      = Some (cs, s\<lparr>se_sync := sy\<rparr>, store)"
    "session_rep X W G cs (w\<lparr>wo_sync := sy, wo_store := store\<rparr>) (s\<lparr>se_sync := sy\<rparr>)"
    "loads cs = {}" "sy_frame_count sy = sy_frame_count (se_sync s) + 1"
    "sy_player_count sy = sy_player_count (se_sync s)"
    "\<forall>p < sy_player_count (se_sync s). same_inputs (sy_input_queues (se_sync s) ! p) (sy_input_queues sy ! p)"
    by (rule simulate_ok[OF rep none running bar f])
  let ?s = "s\<lparr>se_sync := sy\<rparr>" and ?w = "w\<lparr>wo_sync := sy, wo_store := store\<rparr>"
  have "sy_last_confirmed_frame sy = sy_last_confirmed_frame (se_sync s)"
    using increment_confirmed[OF with_sync_result[OF made(1)]] by simp
  moreover have "session_advance_frame X (s, wo_store w) = do_poll X (cs, ?s, wo_store ?w)"
    using made(1) running by (simp add: session_advance_frame_def del: with_sync.simps)
  moreover have "\<forall>i < sy_player_count (se_sync ?s). arriving W G ?w ?s h i"
    using arr made(5,6) arriving_simulated sync by fastforce
  moreover have "players_calm (sy_frame_count (se_sync ?s)) ?s" "2 < length (remote_peers ?s)"
    using calm made(4) many by (simp_all add: players_calm_def remote_peers_roles)
  ultimately show ?thesis
    using do_poll_confirms_nothing[OF ok made(2,3), of h p cs' s' st'] run res by simp
qed

section \<open>A short notification time\<close>

lemma new_peer_config:
  assumes new: "session_new X b draws ends = Some (Inr s)" and p: "Remote p \<in> set (se_players s)"
  shows "pe_config p = \<lparr>pc_disconnect_timeout = sb_disconnect_timeout b,
    pc_disconnect_notify_start = sb_disconnect_notify_start b\<rparr>"
proof -
  let ?st = "replicate (length (sb_players b)) connection_status_default"
  have t: "traverse (player_type_new X b ?st draws ends) (enumerate 0 (sb_players b)) = Some (se_players s)"
    using new by (auto simp: session_new_def Let_def bind_eq_Some_conv split: if_split_asm)
  obtain i where i: "i < length (sb_players b)" "se_players s ! i = Remote p"
    using p t by (auto simp: in_set_conv_nth traverse_Some)
  then have "player_type_new X b ?st draws ends (i, sb_players b ! i) = Some (Remote p)"
    using t by (simp add: traverse_Some nth_enumerate_eq)
  then show ?thesis
    by (cases "sb_players b ! i") (auto simp: player_type_new_def peer_new_def Let_def bind_eq_Some_conv)
qed

lemma short_notify_start:
  assumes new: "builder_start X (with_disconnect_notify_start t b) draws ends = Some (Inr s)"
    and t: "t < sb_disconnect_notify_start b" and p: "Remote p \<in> set (se_players s)"
    and quiet: "recv + sb_disconnect_notify_start b < now" "now < 2 ^ 64"
    and q: "pe_config q = pe_config p" "\<not> is_interrupted (pe_state q)"
  shows "run_timer X now polled_at recv q = None"
proof -
  have "pe_config q = \<lparr>pc_disconnect_timeout = t, pc_disconnect_notify_start = sb_disconnect_notify_start b\<rparr>"
    using new_peer_config[OF _ p] new q(1) by (simp add: builder_start_def with_disconnect_notify_start_def)
  then have "notify_interrupted X now recv q = None"
    using t quiet q(2) by (simp add: notify_interrupted_def millis_add_def millis_sub_def usize_add_def usize_sub_def)
  then show ?thesis by (simp add: run_timer_def)
qed

section \<open>Forged packets\<close>

text \<open>Any packet but a sync message reaches the handlers, whatever its magic and sequence number are.\<close>

lemma forged_packet_delivered:
  assumes ok: "channels_ok X W" and m: "deserialize bytes = Inr m" "\<not> is_sync_message (msg_data m)"
    and opn: "\<not> vw_in_shut W (pe_message_in p)"
  obtains c where "deserialize_incoming_step X deserialize bytes next_recv_seq p =
      Some (Inr (msg_sequence_number m), p\<lparr>pe_message_in := c\<rparr>)"
    and "vw_in W c = vw_in W (pe_message_in p) @ [m]"
proof -
  have "unbounded_channel (cr_in X) (vw_in W) (vw_in_shut W)" using ok by (simp add: channels_ok_def)
  then obtain c where "chan_try_send (cr_in X) m (pe_message_in p) = (Inr (), c)" "vw_in W c = vw_in W (pe_message_in p) @ [m]"
    using opn by (rule unbounded_channel.try_send_open)
  then show ?thesis
    using m by (intro that[of c]) (simp_all add: deserialize_incoming_step_def passes_filter_def Let_def)
qed

end
