(* ===== verification/Session_Demo.thy ===== *)
theory Session_Demo
  imports Session_Run Session_Faults
begin

text \<open>
  A concrete session on which the theorems about sessions and peers are tried: the input type of the
  repository's own tests, list channels, one local and one remote player. The remote player finished
  its handshake and its input of frame 0 has arrived.
\<close>

section \<open>The crates, the game and the session\<close>

definition demo_crates ::
    "(test_input, test_input peer_event list_channel, message_data list_channel, message list_channel) crates" where
  "demo_crates = \<lparr>cr_varint = leb128, cr_pod = test_pod, cr_events = list_channels, cr_out = list_channels,
     cr_in = list_channels\<rparr>"

definition demo_views ::
    "(test_input, test_input peer_event list_channel, message_data list_channel, message list_channel) views" where
  "demo_views = \<lparr>vw_events = lc_items, vw_events_shut = lc_closed, vw_out = lc_items, vw_out_shut = lc_closed,
     vw_in = lc_items, vw_in_shut = lc_closed\<rparr>"

lemma demo_channels_ok: "channels_ok demo_crates demo_views"
  by (simp add: channels_ok_def demo_crates_def demo_views_def)

text \<open>A game whose state lists the inputs of the two players for every frame.\<close>

definition demo_game :: "(test_input, test_input list list) game" where
  "demo_game = \<lparr>gm_zero = pod_zeroed test_pod, gm_step = (\<lambda>g inp. g @ [take 2 (gi_inputs inp)]),
     gm_hash = (\<lambda>_. None), gm_start = []\<rparr>"

lemma demo_game_zero: "gm_zero demo_game = pod_zeroed (cr_pod demo_crates)"
  by (simp add: demo_game_def demo_crates_def)

definition demo_builder :: session_builder where
  "demo_builder = with_frame_delay 0 (snd (add_player Player_Remote (snd (add_player Player_Local builder_new))))"

lemma demo_builder_players: "sb_players demo_builder = [Player_Local, Player_Remote]"
  and demo_builder_delay: "sb_frame_delay demo_builder = 0"
  by (simp_all add: demo_builder_def with_frame_delay_def add_player_def builder_new_def)

lemma demo_playable: "playable demo_builder"
  by (simp add: playable_def demo_builder_players demo_builder_delay MAX_PLAYERS_def)

definition demo_peer ::
    "peer_state \<Rightarrow> test_input peer_event list \<Rightarrow>
       (test_input, test_input peer_event list_channel, message_data list_channel, message list_channel) peer" where
  "demo_peer state events =
     \<lparr>pe_queue = 1, pe_config = \<lparr>pc_disconnect_timeout = 5000, pc_disconnect_notify_start = 750\<rparr>,
      pe_timesync = time_sync_default (pod_zeroed test_pod), pe_state = state, pe_stats = peer_stats_default,
      pe_peer_connect_status = statuses_of 2, pe_input_encoder = encoder_default,
      pe_input_decoder = decoder_default, pe_message_in = list_channel_new, pe_message_out = list_channel_new,
      pe_events = \<lparr>lc_items = events, lc_closed = False\<rparr>\<rparr>"

definition demo_session ::
    "test_input sync \<Rightarrow> bool \<Rightarrow> peer_state \<Rightarrow> test_input peer_event list \<Rightarrow> connection_status list \<Rightarrow>
       (test_input, test_input peer_event list_channel, message_data list_channel, message list_channel) session" where
  "demo_session sync synchronizing state events statuses =
     \<lparr>se_sync = sync, se_players = [Local, Remote (demo_peer state events)], se_synchronizing = synchronizing,
      se_next_recommended_sleep = 0, se_local_connect_status = statuses\<rparr>"

abbreviation demo_sync :: "test_input sync" where
  "demo_sync \<equiv> sync_new (pod_zeroed test_pod) 2 0"

abbreviation demo_input :: test_input where
  "demo_input \<equiv> \<lparr>ti_x = 420, ti_y = 1337\<rparr>"

abbreviation demo_world :: "(test_input, test_input list list) world" where
  "demo_world \<equiv> world_new demo_game 2 0"

lemma demo_start:
  "builder_start demo_crates demo_builder (\<lambda>_. [1]) (\<lambda>_. (list_channel_new, list_channel_new, list_channel_new)) =
     Some (Inr (demo_session demo_sync True (PeerConnecting 1) [] (statuses_of 2)))"
  by (simp add: builder_start_def session_new_def demo_builder_def with_frame_delay_def add_player_def builder_new_def
      player_type_new_def peer_new_def peer_state_default_def random_from_def demo_session_def demo_peer_def
      demo_crates_def statuses_of_def list_channel_new_def numeral_2_eq_2 DEFAULT_DISCONNECT_TIMEOUT_def
      DEFAULT_DISCONNECT_NOTIFY_START_def Let_def)

lemma demo_new_reachable:
  "session_reachable demo_crates demo_views demo_game demo_builder
     (demo_world, demo_session demo_sync True (PeerConnecting 1) [] (statuses_of 2))"
  using session_reachable.start[OF demo_start, where W = demo_views and G = demo_game]
  by (simp add: demo_builder_players demo_builder_delay demo_views_def list_channel_new_def numeral_2_eq_2)

text \<open>The background tasks finished the handshake and reported the input of frame 0.\<close>

definition demo_events :: "test_input peer_event list" where
  "demo_events = [PeerConnected, PeerSynchronized, PeerInputs [\<lparr>fi_frame = 0, fi_input = demo_input\<rparr>]]"

lemma demo_waiting_reachable:
  "session_reachable demo_crates demo_views demo_game demo_builder
     (demo_world, demo_session demo_sync True (PeerRunning 7) demo_events (statuses_of 2))"
proof -
  have "session_step demo_crates demo_views demo_game
      (demo_world, demo_session demo_sync True (PeerConnecting 1) [] (statuses_of 2))
      (demo_world, (demo_session demo_sync True (PeerConnecting 1) [] (statuses_of 2))
        \<lparr>se_players := [Local, Remote (demo_peer (PeerRunning 7) demo_events)]\<rparr>)"
    by (rule session_step.tasks)
      (auto simp: demo_session_def task_change_def demo_peer_def demo_views_def less_Suc_eq nth_Cons')
  then show ?thesis
    using session_reachable.step[OF demo_new_reachable] by (simp add: demo_session_def)
qed

lemma demo_players_calm:
  assumes "\<bar>f\<bar> \<le> 1000"
  shows "players_calm f (demo_session sync synchronizing state events statuses)"
proof -
  have "peer_calm f (demo_peer state events)"
    by (rule peer_calm_bounded)
      (use assms in \<open>auto simp: demo_peer_def peer_stats_default_def decoder_default_def
        last_decoded_frame_def NULL_FRAME_def\<close>, auto simp: time_sync_default_def)
  then show ?thesis by (auto simp: players_calm_def demo_session_def less_Suc_eq nth_Cons')
qed

section \<open>The first poll\<close>

definition demo_inputs :: "nat \<Rightarrow> test_input list" where
  "demo_inputs = (\<lambda>_. [])(1 := [demo_input])"

text \<open>The polls only depend on the game through its zero input.\<close>

lemma demo_may_poll_any:
  assumes G: "gm_zero G = pod_zeroed test_pod" and w: "wo_sync w = demo_sync" "wo_inputs w = (\<lambda>_. [])"
  shows "may_poll demo_views G 0 demo_inputs
    (w, demo_session demo_sync True (PeerRunning 7) demo_events (statuses_of 2))"
proof -
  let ?s = "demo_session demo_sync True (PeerRunning 7) demo_events (statuses_of 2)"
  have q: "sy_input_queues demo_sync ! 1 = queue_new (pod_zeroed test_pod) 0"
    "sy_input_queues (wo_sync w) ! 1 = queue_new (pod_zeroed test_pod) 0"
    by (simp_all add: sync_new_def create_queues_def w)
  have "arriving demo_views G w ?s demo_inputs 0"
    by (simp add: arriving_def demo_session_def demo_inputs_def w)
  moreover have "leads_to G 1 w demo_events [demo_input]"
    using q by (auto simp: leads_to_def Let_def demo_events_def queue_new_def NULL_FRAME_def room_for_def i32_MAX_def
        MAX_ROLLBACK_FRAMES_def w G queue_accept_def last_or_def intro!: exI[of _ "[demo_input]"])
  then have "arriving demo_views G w ?s demo_inputs 1"
    by (simp add: arriving_def demo_session_def demo_inputs_def demo_peer_def demo_views_def)
  moreover have "sy_player_count (se_sync ?s) = 2" by (simp add: demo_session_def sync_new_def)
  ultimately show ?thesis
    using demo_players_calm[of 0]
    by (auto simp: may_poll_def less_2_cases_iff RECOMMENDATION_INTERVAL_def i32_MAX_def)
qed

lemma demo_may_poll:
  "may_poll demo_views demo_game 0 demo_inputs
     (demo_world, demo_session demo_sync True (PeerRunning 7) demo_events (statuses_of 2))"
  by (rule demo_may_poll_any) (simp_all add: demo_game_def world_new_def)

lemma demo_first_input:
  obtains q where "add_input \<lparr>fi_frame = 0, fi_input = demo_input\<rparr> (queue_new (pod_zeroed test_pod) 0) = Some (0, q)"
    and "iq_last_user_added_frame q = 0" and "is_null (iq_first_incorrect_frame q)"
    and "iq_frame_delay q = 0" and "iq_length q = 1"
proof (rule add_input_tracks[OF tracks_new[of "pod_zeroed test_pod" 0], where m = 0 and t = 0 and x = demo_input],
    goal_cases)
  case (7 q)
  have "is_null (iq_first_incorrect_frame q)"
    using 7(8) by (simp add: queue_new_def differs_def)
  then show ?case using 7(2,4,5,6) by (intro that[of q]) (simp_all add: queue_new_def)
qed (simp_all add: queue_new_def in_i32_def MAX_ROLLBACK_FRAMES_def)

lemma demo_flushed:
  obtains q where "flush_events demo_crates ([], demo_session demo_sync True (PeerRunning 7) demo_events (statuses_of 2), st) =
      Some ([Event (Connected 1), Event (Synchronized 1), Event Running],
        demo_session (demo_sync\<lparr>sy_input_queues := [queue_new (pod_zeroed test_pod) 0, q]\<rparr>) False (PeerRunning 7) []
          [connection_status_default, connection_status_default\<lparr>cs_last_frame := 0\<rparr>], st)"
    and "iq_last_user_added_frame q = 0" and "is_null (iq_first_incorrect_frame q)"
    and "iq_frame_delay q = 0" and "iq_length q = 1"
proof -
  obtain q where q: "add_input \<lparr>fi_frame = 0, fi_input = demo_input\<rparr> (queue_new (pod_zeroed test_pod) 0) = Some (0, q)"
    "iq_last_user_added_frame q = 0" "is_null (iq_first_incorrect_frame q)" "iq_frame_delay q = 0" "iq_length q = 1"
    by (rule demo_first_input)
  have recv: "chan_try_recv (cr_events demo_crates) \<lparr>lc_items = e # es, lc_closed = False\<rparr> =
      (Inr e, \<lparr>lc_items = es, lc_closed = False\<rparr>)"
    "chan_try_recv (cr_events demo_crates) \<lparr>lc_items = [], lc_closed = False\<rparr> =
      (Inl TryRecvEmpty, \<lparr>lc_items = [], lc_closed = False\<rparr>)" for e es
    by (simp_all add: demo_crates_def list_channels_def)
  have peer: "(demo_peer state es)\<lparr>pe_events := \<lparr>lc_items = es', lc_closed = False\<rparr>\<rparr> = demo_peer state es'"
    "pe_events (demo_peer state es) = \<lparr>lc_items = es, lc_closed = False\<rparr>" for state es es'
    by (simp_all add: demo_peer_def)
  have next_event: "flush_peer_events demo_crates (Suc 0) (cs, demo_session sync b state (e # es) sts, st) =
      do { run \<leftarrow> handle_event (Suc 0) e (cs, demo_session sync b state es sts, st); flush_peer_events demo_crates (Suc 0) run }"
    for cs sync b state e es sts
    using flush_peer_step[of "Suc 0" "demo_session sync b state (e # es) sts" "demo_peer state (e # es)" demo_crates e
        "\<lparr>lc_items = es, lc_closed = False\<rparr>" cs st]
    by (simp add: demo_session_def recv peer)
  have no_event: "flush_peer_events demo_crates (Suc 0) (cs, demo_session sync b state [] sts, st) =
      Some (cs, demo_session sync b state [] sts, st)" for cs sync b state sts
    using flush_peer_done[of "Suc 0" "demo_session sync b state [] sts" "demo_peer state []" demo_crates
        "\<lparr>lc_items = [], lc_closed = False\<rparr>" cs st]
    by (simp add: demo_session_def recv peer)
  have sts: "statuses_of 2 = [connection_status_default, connection_status_default]"
    by (simp add: statuses_of_def numeral_2_eq_2)
  have qs: "sy_input_queues demo_sync = [queue_new (pod_zeroed test_pod) 0, queue_new (pod_zeroed test_pod) 0]"
    by (simp add: sync_new_def create_queues_def numeral_2_eq_2)
  have accept: "accept_inputs (Suc 0) [\<lparr>fi_frame = 0, fi_input = demo_input\<rparr>] connection_status_default demo_sync =
      Some (connection_status_default\<lparr>cs_last_frame := 0\<rparr>,
        demo_sync\<lparr>sy_input_queues := [queue_new (pod_zeroed test_pod) 0, q]\<rparr>)"
    using q(1) by (simp add: add_remote_input_def qs lazy_or_def connection_status_default_def)
  have synced: "check_initial_sync (cs, demo_session sync True (PeerRunning 7) es (statuses_of 2), st) =
      Some (cs @ [Event Running], demo_session sync False (PeerRunning 7) es (statuses_of 2), st)"
    for cs sync es
    by (simp add: check_initial_sync.simps session_is_synchronized_def demo_session_def demo_peer_def
        player_is_synchronized_def peer_is_running_def)
  have inputs: "handle_event (Suc 0) (PeerInputs [\<lparr>fi_frame = 0, fi_input = demo_input\<rparr>])
      (cs, demo_session demo_sync b state es (statuses_of 2), st) =
      Some (cs, demo_session (demo_sync\<lparr>sy_input_queues := [queue_new (pod_zeroed test_pod) 0, q]\<rparr>) b state es
        [connection_status_default, connection_status_default\<lparr>cs_last_frame := 0\<rparr>], st)" for cs b state es
    using accept by (simp add: demo_session_def sts connection_status_default_def)
  have "flush_peer_events demo_crates 1 ([], demo_session demo_sync True (PeerRunning 7) demo_events (statuses_of 2), st) =
      Some ([Event (Connected 1), Event (Synchronized 1), Event Running],
        demo_session (demo_sync\<lparr>sy_input_queues := [queue_new (pod_zeroed test_pod) 0, q]\<rparr>) False (PeerRunning 7) []
          [connection_status_default, connection_status_default\<lparr>cs_last_frame := 0\<rparr>], st)"
    unfolding demo_events_def One_nat_def next_event by (simp add: next_event no_event synced inputs del: handle_event.simps(3))
  then show ?thesis using q by (intro that[of q]) (simp_all add: flush_events_def demo_session_def)
qed

definition demo_polled_peer ::
    "(test_input, test_input peer_event list_channel, message_data list_channel, message list_channel) peer" where
  "demo_polled_peer = (demo_peer (PeerRunning 7) [])\<lparr>pe_stats := peer_stats_default\<lparr>st_local_frame_advantage := - 1\<rparr>\<rparr>"

text \<open>The session after the first poll; \<open>q\<close> is the queue of the remote player.\<close>

definition demo_running ::
    "test_input input_queue \<Rightarrow>
       (test_input, test_input peer_event list_channel, message_data list_channel, message list_channel) session" where
  "demo_running q = (demo_session (demo_sync\<lparr>sy_input_queues := [queue_new (pod_zeroed test_pod) 0, q]\<rparr>) False
     (PeerRunning 7) [] [connection_status_default, connection_status_default\<lparr>cs_last_frame := 0\<rparr>])
       \<lparr>se_players := [Local, Remote demo_polled_peer]\<rparr>"

lemma demo_polled:
  obtains q where "session_poll demo_crates (demo_session demo_sync True (PeerRunning 7) demo_events (statuses_of 2), st) =
      Some ([Event (Connected 1), Event (Synchronized 1), Event Running], demo_running q, st)"
    and "iq_last_user_added_frame q = 0" and "is_null (iq_first_incorrect_frame q)"
    and "iq_frame_delay q = 0" and "iq_length q = 1"
proof -
  let ?cs = "[Event (Connected 1), Event (Synchronized 1), Event Running]"
  let ?sts = "[connection_status_default, connection_status_default\<lparr>cs_last_frame := 0\<rparr>]"
  obtain q where f: "flush_events demo_crates ([], demo_session demo_sync True (PeerRunning 7) demo_events (statuses_of 2), st) =
      Some (?cs, demo_session (demo_sync\<lparr>sy_input_queues := [queue_new (pod_zeroed test_pod) 0, q]\<rparr>) False
        (PeerRunning 7) [] ?sts, st)"
    "iq_last_user_added_frame q = 0" "is_null (iq_first_incorrect_frame q)" "iq_frame_delay q = 0" "iq_length q = 1"
    by (rule demo_flushed)
  let ?sync = "demo_sync\<lparr>sy_input_queues := [queue_new (pod_zeroed test_pod) 0, q]\<rparr>"
  let ?s = "demo_session ?sync False (PeerRunning 7) [] ?sts"
  have check: "with_sync (check_simulation z sts) (cs, ?s, st) = Some (cs, ?s, st)" for z sts cs
    using f(3) by (simp add: demo_session_def check_simulation.simps check_simulation_consistency_def queue_new_def)
  have number: "set_local_frame_number 0 (demo_peer (PeerRunning 7) []) = Some demo_polled_peer"
    by (simp add: set_local_frame_number_def demo_peer_def demo_polled_peer_def decoder_default_def
        last_decoded_frame_def peer_stats_default_def NULL_FRAME_def in_i32_def Let_def)
  have conf: "confirmed_frame demo_crates 0 (cs, demo_running q, st) = Some (- 1, (cs, demo_running q, st))" for cs
    by (simp add: confirmed_frame_def demo_running_def demo_session_def remote_peers_def map_filter_def Let_def poll_2_players_def
        upt_rec queue_connected_def demo_polled_peer_def demo_peer_def peer_is_running_def get_peer_connect_status_def
        statuses_of_def connection_status_default_def NULL_FRAME_def i32_MAX_def numeral_2_eq_2)
  have fields: "sy_frame_count (se_sync ?s) = 0" "?s\<lparr>se_players := [Local, Remote demo_polled_peer]\<rparr> = demo_running q"
    "traverse (player_set_local_frame_number 0) (se_players ?s) = Some [Local, Remote demo_polled_peer]"
    "\<And>cs. notify_time_sync 0 (cs, demo_running q, st) = Some (cs, demo_running q, st)"
    using number by (simp_all add: demo_session_def demo_running_def sync_new_def notify_time_sync.simps)
  have run: "poll_running demo_crates (?cs, ?s, st) = Some (?cs, demo_running q, st)"
    unfolding poll_running_def by (simp add: check fields conf del: with_sync.simps)
  have "session_poll demo_crates (demo_session demo_sync True (PeerRunning 7) demo_events (statuses_of 2), st) =
      Some (?cs, demo_running q, st)"
    using f(1) run by (simp add: session_poll_def do_poll_def demo_session_def sync_new_def)
  then show ?thesis using f by (intro that[of q])
qed

section \<open>The session while it runs\<close>

lemma demo_polled_calm: "\<bar>f\<bar> \<le> 1000 \<Longrightarrow> players_calm f (demo_running q)"
proof -
  assume f: "\<bar>f\<bar> \<le> 1000"
  have "peer_calm f demo_polled_peer"
    by (rule peer_calm_bounded)
      (use f in \<open>auto simp: demo_polled_peer_def demo_peer_def peer_stats_default_def decoder_default_def
        last_decoded_frame_def NULL_FRAME_def\<close>, auto simp: time_sync_default_def)
  then show ?thesis by (auto simp: players_calm_def demo_running_def less_Suc_eq nth_Cons')
qed

lemma demo_running_fields:
  "sy_frame_count (se_sync (demo_running q)) = 0" "sy_player_count (se_sync (demo_running q)) = 2"
  "se_players (demo_running q) = [Local, Remote demo_polled_peer]" "\<not> in_rollback (demo_running q)"
  "sy_input_queues (se_sync (demo_running q)) = [queue_new (pod_zeroed test_pod) 0, q]"
  "sy_last_confirmed_frame (se_sync (demo_running q)) = NULL_FRAME" "\<not> se_synchronizing (demo_running q)"
  "se_local_connect_status (demo_running q) = [connection_status_default, connection_status_default\<lparr>cs_last_frame := 0\<rparr>]"
  by (simp_all add: demo_running_def demo_session_def sync_new_def in_rollback_def)

lemma demo_may_advance: "may_advance (demo_running q)"
  by (simp add: may_advance_def barred_def MAX_PREDICTION_FRAMES_def demo_running_fields)

lemma demo_running_ready:
  assumes q: "iq_last_user_added_frame q = 0" "iq_frame_delay q = 0" "iq_length q = 1"
    and w: "wo_sync w = se_sync (demo_running q)" "wo_inputs w = demo_inputs" and f: "f = 0 \<or> f = 1"
  shows "may_poll demo_views G f demo_inputs (w, demo_running q)"
proof -
  note fields = demo_running_fields
  have "leads_to G 1 w [] [demo_input]"
    using q fields w by (auto simp: leads_to_def Let_def demo_inputs_def room_for_def i32_MAX_def
        MAX_ROLLBACK_FRAMES_def intro!: exI[of _ "[]"])
  then have "arriving demo_views G w (demo_running q) demo_inputs 1"
    using fields by (simp add: arriving_def demo_inputs_def demo_polled_peer_def demo_peer_def demo_views_def)
  moreover have "arriving demo_views G w (demo_running q) demo_inputs 0"
    using fields w by (simp add: arriving_def)
  ultimately show ?thesis
    using demo_polled_calm[of f q] f fields
    by (auto simp: may_poll_def less_2_cases_iff RECOMMENDATION_INTERVAL_def i32_MAX_def)
qed

text \<open>What the client has after the first poll, and what it may call next.\<close>

lemma demo_running_reachable:
  obtains w s where "session_reachable demo_crates demo_views demo_game demo_builder (w, s)"
    and "may_advance s" and "may_poll demo_views demo_game 1 demo_inputs (w, s)" and "sy_frame_count (se_sync s) = 0"
    and "local_input_due w 0 0" and "se_players s = [Local, Remote demo_polled_peer]"
    and "wo_inputs w = demo_inputs" and "sy_player_count (se_sync s) = 2" and "\<not> in_rollback s"
    and "se_local_connect_status s = [connection_status_default, connection_status_default\<lparr>cs_last_frame := 0\<rparr>]"
    and "map iq_frame_delay (sy_input_queues (se_sync s)) = [0, 0]"
proof -
  let ?s0 = "demo_session demo_sync True (PeerRunning 7) demo_events (statuses_of 2)"
  let ?cs = "[Event (Connected 1), Event (Synchronized 1), Event Running]"
  obtain q where q: "session_poll demo_crates (?s0, wo_store demo_world) = Some (?cs, demo_running q, wo_store demo_world)"
    "iq_last_user_added_frame q = 0" "is_null (iq_first_incorrect_frame q)" "iq_frame_delay q = 0" "iq_length q = 1"
    by (rule demo_polled)
  let ?w = "after_call demo_world demo_inputs (wo_state demo_world) (wo_store demo_world) (demo_running q)"
  have exec: "execute_all (gm_step demo_game) (gm_hash demo_game) ?cs (wo_state demo_world, wo_store demo_world) =
      Some (wo_state demo_world, wo_store demo_world)"
    by (rule execute_events) simp
  have "sy_frame_count (se_sync ?s0) = 0" by (simp add: demo_session_def sync_new_def)
  then have "session_step demo_crates demo_views demo_game (demo_world, ?s0) (?w, demo_running q)"
    using demo_may_poll by (intro session_step.poll[OF _ q(1) exec]) simp
  then have "session_reachable demo_crates demo_views demo_game demo_builder (?w, demo_running q)"
    using session_reachable.step[OF demo_waiting_reachable] by blast
  moreover have "wo_sync ?w = se_sync (demo_running q)" "wo_inputs ?w = demo_inputs" by (simp_all add: after_call_def)
  ultimately show ?thesis
    using demo_running_fields[of q] demo_may_advance[of q] demo_running_ready[OF q(2,4,5), of ?w 1 demo_game] q(4)
    by (intro that[of ?w "demo_running q"])
      (auto simp: local_input_due_def input_fits_def queue_new_def demo_inputs_def in_i32_def MAX_ROLLBACK_FRAMES_def
        i32_MAX_def)
qed

section \<open>The background tasks\<close>

lemma demo_peer_fresh: "fresh_peer demo_views (demo_peer (PeerConnecting r) [])"
  by (simp add: fresh_peer_def demo_peer_def demo_views_def list_channel_new_def)

text \<open>A running peer whose main task is about to learn which frames of player 0 the other side has.\<close>

definition demo_report :: message where
  "demo_report = \<lparr>msg_magic = 7, msg_sequence_number = 0, msg_data = InputMsg
     \<lparr>in_peer_connect_status = [\<lparr>cs_disconnected = False, cs_last_frame = 12\<rparr>],
      in_start_frame = 0, in_ack_frame = NULL_FRAME, in_bits = []\<rparr>\<rparr>"

definition demo_informed ::
    "message list \<Rightarrow> (test_input, test_input peer_event list_channel, message_data list_channel, message list_channel) peer" where
  "demo_informed ms = (demo_peer (PeerRunning 7) [])\<lparr>pe_message_in := \<lparr>lc_items = ms, lc_closed = False\<rparr>\<rparr>"

lemma demo_empty_packet: "decoder_decode leb128 test_pod 0 [] decoder_default = Some (Inr [], decoder_default)"
  by (simp add: rle_eval decoder_decode_def decode_frames_def decompress_def test_pod_def u32_bytes_def
      decoder_default_def NULL_FRAME_def in_i32_def)

lemma demo_informed_task:
  obtains c where "conn_reachable demo_crates (demo_informed [demo_report]) c"
    and "pe_peer_connect_status (cn_task c) = [\<lparr>cs_disconnected = False, cs_last_frame = 12\<rparr>, connection_status_default]"
proof -
  let ?q = "(demo_informed [])\<lparr>pe_peer_connect_status := [\<lparr>cs_disconnected = False, cs_last_frame = 12\<rparr>, connection_status_default]\<rparr>"
  have recv: "chan_try_recv (cr_in demo_crates) (pe_message_in (cn_task (conn_new (demo_informed [demo_report])))) =
      (Inr demo_report, \<lparr>lc_items = [], lc_closed = False\<rparr>)"
    by (simp add: demo_crates_def list_channels_def conn_new_def demo_informed_def)
  have "run_message demo_crates 1 1 (Some demo_report) 0 (demo_informed []) = Some (Inr 1, ?q)"
    by (simp add: run_message_def demo_report_def on_input_def demo_informed_def demo_peer_def statuses_of_def
        numeral_2_eq_2 connection_status_default_def NULL_FRAME_def demo_crates_def demo_empty_packet report_inputs_def
        acknowledge_frame_def encoder_default_def)
  then have "conn_step demo_crates (conn_new (demo_informed [demo_report])) (task_moved ?q (conn_new (demo_informed [demo_report])))"
    by (intro conn_step.task conn_task.message[OF recv]) (simp add: conn_new_def demo_informed_def)
  from conn_reachable.step[OF conn_reachable.start this]
  show ?thesis by (rule that) (simp add: task_moved_def)
qed

section \<open>A session of four players\<close>

definition many_builder :: session_builder where
  "many_builder = builder_new\<lparr>sb_players := [Player_Local, Player_Remote, Player_Remote, Player_Remote], sb_frame_delay := 0\<rparr>"

lemma many_playable: "playable many_builder"
  by (simp add: playable_def many_builder_def builder_new_def MAX_PLAYERS_def)

definition many_peer ::
    "nat \<Rightarrow> peer_state \<Rightarrow>
       (test_input, test_input peer_event list_channel, message_data list_channel, message list_channel) peer" where
  "many_peer i state = (demo_peer state [])\<lparr>pe_queue := i, pe_peer_connect_status := statuses_of 4\<rparr>"

definition many_session ::
    "peer_state \<Rightarrow>
       (test_input, test_input peer_event list_channel, message_data list_channel, message list_channel) session" where
  "many_session state = \<lparr>se_sync = sync_new (pod_zeroed test_pod) 4 0,
     se_players = Local # map (\<lambda>i. Remote (many_peer i state)) [1, 2, 3],
     se_synchronizing = True, se_next_recommended_sleep = 0, se_local_connect_status = statuses_of 4\<rparr>"

lemma many_peer_new:
  "peer_new demo_crates i \<lparr>pc_disconnect_timeout = DEFAULT_DISCONNECT_TIMEOUT,
       pc_disconnect_notify_start = DEFAULT_DISCONNECT_NOTIFY_START\<rparr> (statuses_of 4) [1]
     list_channel_new list_channel_new list_channel_new = Some (many_peer i (PeerConnecting 1))"
  by (simp add: peer_new_def peer_state_default_def random_from_def many_peer_def demo_peer_def demo_crates_def
      list_channel_new_def DEFAULT_DISCONNECT_TIMEOUT_def DEFAULT_DISCONNECT_NOTIFY_START_def)

lemma many_start:
  "builder_start demo_crates many_builder (\<lambda>_. [1]) (\<lambda>_. (list_channel_new, list_channel_new, list_channel_new)) =
     Some (Inr (many_session (PeerConnecting 1)))"
proof -
  have four: "replicate (Suc (Suc (Suc (Suc 0)))) connection_status_default = statuses_of 4"
    "sync_new (cr_pod_zero) (Suc (Suc (Suc (Suc 0)))) = sync_new cr_pod_zero 4" for cr_pod_zero :: test_input
    by (simp_all add: statuses_of_def eval_nat_numeral)
  have index: "many_peer (Suc (Suc 0)) = many_peer 2" "many_peer (Suc (Suc (Suc 0))) = many_peer 3"
    by (simp_all add: numeral_eq_Suc)
  have pod: "pod_zeroed (cr_pod demo_crates) = pod_zeroed test_pod" by (simp add: demo_crates_def)
  show ?thesis
    by (simp add: builder_start_def session_new_def many_builder_def builder_new_def player_type_new_def many_peer_new
        many_session_def four index pod del: replicate.simps)
qed

lemma many_reachable:
  "session_reachable demo_crates demo_views demo_game many_builder (world_new demo_game 4 0, many_session (PeerRunning 7))"
proof -
  have "session_reachable demo_crates demo_views demo_game many_builder (world_new demo_game 4 0, many_session (PeerConnecting 1))"
    using session_reachable.start[OF many_start, where W = demo_views and G = demo_game]
    by (simp add: many_builder_def builder_new_def demo_views_def list_channel_new_def eval_nat_numeral)
  moreover have "task_change demo_views (Remote (many_peer i a)) (Remote (many_peer i b))" for i a b
    by (simp add: task_change_def many_peer_def demo_peer_def demo_views_def)
  then have "session_step demo_crates demo_views demo_game (world_new demo_game 4 0, many_session (PeerConnecting 1))
      (world_new demo_game 4 0, (many_session (PeerConnecting 1))\<lparr>se_players := se_players (many_session (PeerRunning 7))\<rparr>)"
    by (intro session_step.tasks) (auto simp: many_session_def task_change_def[of _ Local] less_Suc_eq nth_Cons')
  ultimately show ?thesis
    using session_reachable.step by (fastforce simp: many_session_def)
qed

end
