(* ===== verification/Delivery_Demo.thy ===== *)
theory Delivery_Demo
  imports Peer_Delivery Session_Demo "HOL-Library.Code_Target_Nat"
begin

text \<open>
  Two peers of the concrete session exchange one input: the first sends it, its task hands the packet to
  the transport, the packet arrives, the main task of the second one decodes it, and the session there takes
  the event.
\<close>

definition demo_bits :: "u8 list" where
  "demo_bits = [4, 164, 1, 9, 4, 57, 5, 9]"

lemma demo_pack: "compress leb128 test_pod (pod_zeroed test_pod) [demo_input] = Some (Inr demo_bits)"
  unfolding demo_bits_def by code_simp

lemma demo_unpack: "decompress leb128 test_pod (pod_zeroed test_pod) demo_bits = Some (Inr [demo_input])"
proof (rule test_codec.decompress_compress)
  show "packet_fits test_pod [demo_input]" by (simp add: packet_fits_def test_pod_def MAX_BUFFER_SIZE_def)
qed (simp add: demo_pack)

definition demo_input_msg :: input_msg where
  "demo_input_msg = \<lparr>in_peer_connect_status = statuses_of 2, in_start_frame = 0, in_ack_frame = - 1, in_bits = demo_bits\<rparr>"

definition demo_message :: message where
  "demo_message = \<lparr>msg_magic = 7, msg_sequence_number = 0, msg_data = InputMsg demo_input_msg\<rparr>"

text \<open>The bytes of a message are a parameter; these functions know those of one message.\<close>

definition demo_serialize :: "message \<Rightarrow> unit + u8 list" where
  "demo_serialize m = (if m = demo_message then Inr [1] else Inl ())"

definition demo_deserialize :: "u8 list \<Rightarrow> unit + message" where
  "demo_deserialize bytes = (if bytes = [1] then Inr demo_message else Inl ())"

lemma demo_serialize_law: "demo_serialize m = Inr bytes \<Longrightarrow> demo_deserialize bytes = Inr m"
  by (simp add: demo_serialize_def demo_deserialize_def split: if_split_asm)

abbreviation demo_running_peer ::
    "(test_input, test_input peer_event list_channel, message_data list_channel, message list_channel) peer" where
  "demo_running_peer \<equiv> demo_peer (PeerRunning 7) []"

lemma demo_peer_unused: "unused_peer demo_views demo_running_peer"
  by (simp add: unused_peer_def demo_peer_def demo_views_def list_channel_new_def)

text \<open>The first peer after it was given its input, and the second one after the message.\<close>

lemma demo_sends:
  obtains ts where "send_input demo_crates (statuses_of 2) \<lparr>fi_frame = 0, fi_input = demo_input\<rparr> demo_running_peer =
    Some (Inr (), demo_running_peer\<lparr>pe_timesync := ts,
      pe_input_encoder := \<lparr>ie_pending = [\<lparr>fi_frame = 0, fi_input = demo_input\<rparr>], ie_last_acked = - 1, ie_last_encoded = 0\<rparr>,
      pe_message_out := \<lparr>lc_items = [InputMsg demo_input_msg], lc_closed = False\<rparr>\<rparr>)"
proof -
  obtain ts where ts: "time_sync_advance_frame \<lparr>fi_frame = 0, fi_input = demo_input\<rparr> 0 0
      (time_sync_default (pod_zeroed test_pod)) = Some ts"
    by (auto simp: time_sync_advance_frame_def time_sync_default_def usize_try_from_def store_at_def
        MIN_UNIQUE_FRAMES_def FRAME_WINDOW_SIZE_def)
  show ?thesis
    by (rule that[of ts]) (simp add: send_input_def send_pending_output_def encoder_encode_def encode_pending_def
        encoder_push_def encoder_default_def send_def demo_peer_def demo_crates_def list_channels_def list_channel_new_def
        peer_stats_default_def ts demo_pack NULL_FRAME_def last_decoded_frame_def decoder_default_def demo_input_msg_def Let_def)
qed

lemma demo_decodes:
  "decode_frames (decompress leb128 test_pod (pod_zeroed test_pod)) 0 demo_bits decoder_default =
     Some (Inr [\<lparr>fi_frame = 0, fi_input = demo_input\<rparr>], \<lparr>id_last_decoded = 0\<rparr>)"
  by (simp add: decode_frames_def demo_unpack decoder_default_def NULL_FRAME_def is_null_def i32_sub_def in_i32_def
      i32_add_def)

lemma demo_handles:
  "run_message demo_crates 0 0 (Some demo_message) 0 demo_running_peer = Some (Inr 0, demo_running_peer
     \<lparr>pe_input_decoder := \<lparr>id_last_decoded = 0\<rparr>,
      pe_events := \<lparr>lc_items = [PeerInputs [\<lparr>fi_frame = 0, fi_input = demo_input\<rparr>]], lc_closed = False\<rparr>,
      pe_message_out := \<lparr>lc_items = [InputAck 0], lc_closed = False\<rparr>\<rparr>)"
  by (simp add: run_message_def demo_message_def demo_input_msg_def on_input_def decoder_decode_def demo_decodes
      report_inputs_def push_event_def send_def demo_peer_def demo_crates_def list_channels_def list_channel_new_def
      peer_stats_default_def statuses_of_def numeral_2_eq_2 last_decoded_frame_def acknowledge_frame_def encoder_default_def Let_def)

text \<open>The run, step by step.\<close>

lemma demo_delivery:
  obtains a b where "peers_reachable demo_crates demo_serialize demo_deserialize demo_running_peer demo_running_peer a b"
    and "ep_pushed a = [demo_input]" and "cn_received (ep_conn b) = [PeerInputs [\<lparr>fi_frame = 0, fi_input = demo_input\<rparr>]]"
proof -
  let ?step = "endpoint_step demo_crates demo_serialize demo_deserialize"
  let ?i = "\<lparr>fi_frame = 0, fi_input = demo_input\<rparr>"
  obtain p where sent: "send_input demo_crates (statuses_of 2) ?i demo_running_peer = Some (Inr (), p)"
    "pe_message_out p = \<lparr>lc_items = [InputMsg demo_input_msg], lc_closed = False\<rparr>"
    by (rule demo_sends) simp
  let ?new = "endpoint_new demo_running_peer"
  let ?a1 = "?new\<lparr>ep_conn := session_moved p (ep_conn ?new), ep_pushed := ep_pushed ?new @ [fi_input ?i]\<rparr>"
  have a1: "?step wire ?new ?a1" for wire
    by (rule endpoint_step.input) (use sent in \<open>simp_all add: endpoint_new_def conn_new_def demo_peer_def in_i32_def\<close>)
  let ?p = "p\<lparr>pe_message_out := list_channel_new\<rparr>"
  let ?a2 = "?a1\<lparr>ep_conn := session_moved ?p (ep_conn ?a1), ep_wire := set_option (Some [1]) \<union> ep_wire ?a1\<rparr>"
  have a2: "?step wire ?a1 ?a2" for wire
  proof (rule endpoint_step.outgoing)
    show "chan_try_recv (cr_out demo_crates) (pe_message_out (ep_peer ?a1)) = (Inr (InputMsg demo_input_msg), list_channel_new)"
      by (simp add: session_moved_def sent(2) demo_crates_def list_channels_def list_channel_new_def)
    show "serialize_outgoing_step demo_serialize False 0 7 (InputMsg demo_input_msg) 0
        ((ep_peer ?a1)\<lparr>pe_message_out := list_channel_new\<rparr>) = Some ((False, Some [1], 1), ?p)"
      by (simp add: serialize_outgoing_step_def session_moved_def demo_serialize_def demo_message_def)
  qed
  let ?q = "demo_running_peer\<lparr>pe_message_in := \<lparr>lc_items = [demo_message], lc_closed = False\<rparr>\<rparr>"
  let ?b1 = "?new\<lparr>ep_conn := session_moved ?q (ep_conn ?new)\<rparr>"
  have b1: "?step (ep_wire ?a2) ?new ?b1"
  proof (rule endpoint_step.incoming)
    show "[1] \<in> ep_wire ?a2" by simp
    show "deserialize_incoming_step demo_crates demo_deserialize [1] 0 (ep_peer ?new) = Some (Inr 0, ?q)"
      by (simp add: deserialize_incoming_step_def demo_deserialize_def passes_filter_def demo_message_def endpoint_new_def
          conn_new_def demo_peer_def demo_crates_def list_channels_def list_channel_new_def)
  qed
  obtain r where r: "run_message demo_crates 0 0 (Some demo_message) 0 demo_running_peer = Some (Inr 0, r)"
    "pe_events r = \<lparr>lc_items = [PeerInputs [?i]], lc_closed = False\<rparr>" using demo_handles by simp
  let ?b2 = "?b1\<lparr>ep_conn := task_moved r (ep_conn ?b1)\<rparr>"
  have b2: "?step (ep_wire ?a2) ?b1 ?b2"
  proof (rule endpoint_step.task, rule conn_task.message)
    show "chan_try_recv (cr_in demo_crates) (pe_message_in (cn_task (ep_conn ?b1))) = (Inr demo_message, list_channel_new)"
      by (simp add: session_moved_def shared_with_def demo_crates_def list_channels_def list_channel_new_def)
    have "(cn_task (ep_conn ?b1))\<lparr>pe_message_in := list_channel_new\<rparr> = demo_running_peer"
      by (simp add: session_moved_def shared_with_def endpoint_new_def conn_new_def demo_peer_def list_channel_new_def)
    then show "run_message demo_crates 0 0 (Some demo_message) 0
        ((cn_task (ep_conn ?b1))\<lparr>pe_message_in := list_channel_new\<rparr>) = Some (Inr 0, r)"
      using r(1) by simp
  qed
  let ?c = "ep_conn ?b2"
  let ?b3 = "?b2\<lparr>ep_conn := (session_moved ((cn_session ?c)\<lparr>pe_events := list_channel_new\<rparr>) ?c)
    \<lparr>cn_received := cn_received ?c @ [PeerInputs [?i]]\<rparr>\<rparr>"
  have b3: "?step (ep_wire ?a2) ?b2 ?b3"
    by (rule endpoint_step.task, rule conn_task.receive)
      (simp add: task_moved_def shared_with_def r(2) demo_crates_def list_channels_def list_channel_new_def)
  have "peers_reachable demo_crates demo_serialize demo_deserialize demo_running_peer demo_running_peer ?a2 ?b3"
    by (rule peers_reachable.second[OF peers_reachable.second[OF peers_reachable.second[OF
      peers_reachable.first[OF peers_reachable.first[OF peers_reachable.start a1] a2] b1] b2] b3])
  then show ?thesis by (rule that) (simp_all add: endpoint_new_def conn_new_def session_moved_def task_moved_def)
qed

end
