(* ===== verification/Match_Demo.thy ===== *)
theory Match_Demo
  imports Two_Sessions Delivery_Demo
begin

text \<open>
  A concrete match: two sessions of the demo game over an unreliable network, from their start.
\<close>

section \<open>The start\<close>

definition demo_opponent :: session_builder where
  "demo_opponent = with_frame_delay 0 (snd (add_player Player_Local (snd (add_player Player_Remote builder_new))))"

lemma demo_duel: "duel 0 1 demo_builder" "duel 1 0 demo_opponent" "sb_frame_delay demo_builder = sb_frame_delay demo_opponent"
  by (simp_all add: duel_def demo_opponent_def demo_builder_def with_frame_delay_def add_player_def builder_new_def)

abbreviation demo_ends :: "nat \<Rightarrow> test_input peer_event list_channel \<times> message_data list_channel \<times> message list_channel" where
  "demo_ends \<equiv> \<lambda>_. (list_channel_new, list_channel_new, list_channel_new)"

lemma demo_ends_new: "new_ends demo_views demo_ends"
  by (simp add: new_ends_def demo_views_def list_channel_new_def)

text \<open>A peer for the player \<open>i\<close>.\<close>

definition match_peer ::
    "nat \<Rightarrow> peer_state \<Rightarrow> message_data list \<Rightarrow> test_input peer_event list \<Rightarrow>
       (test_input, test_input peer_event list_channel, message_data list_channel, message list_channel) peer" where
  "match_peer i state out events = (demo_peer state events)
     \<lparr>pe_queue := i, pe_message_out := \<lparr>lc_items = out, lc_closed = False\<rparr>\<rparr>"

definition opponent_session ::
    "(test_input, test_input peer_event list_channel, message_data list_channel, message list_channel) session" where
  "opponent_session = \<lparr>se_sync = demo_sync, se_players = [Remote (match_peer 0 (PeerConnecting 1) [] []), Local],
     se_synchronizing = True, se_next_recommended_sleep = 0, se_local_connect_status = statuses_of 2\<rparr>"

lemma opponent_start: "builder_start demo_crates demo_opponent (\<lambda>_. [1]) demo_ends = Some (Inr opponent_session)"
  by (simp add: builder_start_def session_new_def demo_opponent_def with_frame_delay_def add_player_def builder_new_def
      player_type_new_def peer_new_def peer_state_default_def random_from_def opponent_session_def match_peer_def demo_peer_def
      demo_crates_def statuses_of_def list_channel_new_def numeral_2_eq_2 DEFAULT_DISCONNECT_TIMEOUT_def
      DEFAULT_DISCONNECT_NOTIFY_START_def Let_def)

lemma demo_session_match: "se_players (demo_session sync b state events sts) = [Local, Remote (match_peer 1 state [] events)]"
  by (simp add: demo_session_def match_peer_def demo_peer_def list_channel_new_def)

abbreviation match_start where
  "match_start \<equiv> side_new demo_game demo_builder (demo_session demo_sync True (PeerConnecting 1) [] (statuses_of 2))
     (match_peer 1 (PeerConnecting 1) [] [])"

abbreviation opponent_start_side where
  "opponent_start_side \<equiv> side_new demo_game demo_opponent opponent_session (match_peer 0 (PeerConnecting 1) [] [])"

lemma match_started:
  "match_reachable demo_crates demo_views demo_game ser des 0 1 demo_builder demo_opponent match_start opponent_start_side"
  by (rule match_reachable.start[OF demo_start opponent_start demo_ends_new demo_ends_new])
    (simp_all add: demo_session_match opponent_session_def)

section \<open>The packets of the match\<close>

text \<open>Each player gives one input; \<open>match_msg l\<close> tells the other side that of player \<open>l\<close>.\<close>

definition match_input :: "nat \<Rightarrow> test_input" where
  "match_input l = (if l = 0 then demo_input else \<lparr>ti_x = 7, ti_y = 9\<rparr>)"

definition match_bits :: "nat \<Rightarrow> u8 list" where
  "match_bits l = (if l = 0 then demo_bits else [2, 7, 13, 2, 9, 13])"

definition match_msg :: "nat \<Rightarrow> input_msg" where
  "match_msg l = \<lparr>in_peer_connect_status = (statuses_of 2)[l := connection_status_default\<lparr>cs_last_frame := 0\<rparr>],
     in_start_frame = 0, in_ack_frame = - 1, in_bits = match_bits l\<rparr>"

definition match_message :: "message_data \<Rightarrow> message" where
  "match_message d = \<lparr>msg_magic = 7, msg_sequence_number = 0, msg_data = d\<rparr>"

definition match_serialize :: "message \<Rightarrow> unit + u8 list" where
  "match_serialize m =
     (if m = match_message (SyncRequest 1) then Inr [1] else if m = match_message (SyncReply 1) then Inr [2]
      else if m = match_message (InputMsg (match_msg 0)) then Inr [3]
      else if m = match_message (InputMsg (match_msg 1)) then Inr [4] else Inl ())"

definition match_deserialize :: "u8 list \<Rightarrow> unit + message" where
  "match_deserialize bytes =
     (if bytes = [1] then Inr (match_message (SyncRequest 1)) else if bytes = [2] then Inr (match_message (SyncReply 1))
      else if bytes = [3] then Inr (match_message (InputMsg (match_msg 0)))
      else if bytes = [4] then Inr (match_message (InputMsg (match_msg 1))) else Inl ())"

lemma match_serialize_law: "match_serialize m = Inr bytes \<Longrightarrow> match_deserialize bytes = Inr m"
  by (auto simp: match_serialize_def match_deserialize_def split: if_split_asm)

lemma match_packets:
  "match_serialize (match_message (SyncRequest 1)) = Inr [1]" "match_serialize (match_message (SyncReply 1)) = Inr [2]"
  "match_serialize (match_message (InputMsg (match_msg 0))) = Inr [3]"
  "match_serialize (match_message (InputMsg (match_msg 1))) = Inr [4]"
  "match_deserialize [1] = Inr (match_message (SyncRequest 1))" "match_deserialize [2] = Inr (match_message (SyncReply 1))"
  "match_deserialize [3] = Inr (match_message (InputMsg (match_msg 0)))"
  "match_deserialize [4] = Inr (match_message (InputMsg (match_msg 1)))"
proof -
  have "length (in_bits (match_msg 0)) \<noteq> length (in_bits (match_msg 1))"
    by (simp add: match_msg_def match_bits_def demo_bits_def)
  then have "match_msg 0 \<noteq> match_msg 1" by metis
  then show "match_serialize (match_message (SyncRequest 1)) = Inr [1]" "match_serialize (match_message (SyncReply 1)) = Inr [2]"
    "match_serialize (match_message (InputMsg (match_msg 0))) = Inr [3]"
    "match_serialize (match_message (InputMsg (match_msg 1))) = Inr [4]"
    "match_deserialize [1] = Inr (match_message (SyncRequest 1))" "match_deserialize [2] = Inr (match_message (SyncReply 1))"
    "match_deserialize [3] = Inr (match_message (InputMsg (match_msg 0)))"
    "match_deserialize [4] = Inr (match_message (InputMsg (match_msg 1)))"
    by (simp_all add: match_serialize_def match_deserialize_def match_message_def)
qed

section \<open>The tasks\<close>

definition seats :: "nat \<Rightarrow> 'p \<Rightarrow> 'p player_type list" where
  "seats l p = (if l = 0 then [Local, Remote p] else [Remote p, Local])"

lemma seats_simps:
  "l \<le> Suc 0 \<Longrightarrow> (seats l p)[Suc 0 - l := Remote q] = seats l q" "l \<le> Suc 0 \<Longrightarrow> seats l p ! (Suc 0 - l) = Remote p"
  by (auto simp: seats_def le_Suc_eq)

text \<open>A side of the match: \<open>p\<close> is the peer, \<open>own\<close> what the clone of its task knows of the players.\<close>

type_synonym demo_peer = "(test_input, test_input peer_event list_channel, message_data list_channel, message list_channel) peer"

type_synonym demo_side = "(test_input, test_input list list, test_input peer_event list_channel, message_data list_channel,
  message list_channel) side"

definition side_at ::
    "nat \<Rightarrow> (test_input, test_input list list) world \<Rightarrow>
       (test_input, test_input peer_event list_channel, message_data list_channel, message list_channel) session \<Rightarrow>
       u8 list set \<Rightarrow> test_input list \<Rightarrow> test_input peer_event list \<Rightarrow> demo_peer \<Rightarrow> connection_status list \<Rightarrow> demo_side" where
  "side_at l w s sent pushed received p own = \<lparr>sd_world = w, sd_session = s\<lparr>se_players := seats l p\<rparr>,
     sd_end = \<lparr>ep_conn = \<lparr>cn_session = p, cn_task = p\<lparr>pe_peer_connect_status := own\<rparr>, cn_received = received\<rparr>,
       ep_wire = sent, ep_pushed = pushed\<rparr>\<rparr>"

abbreviation "match_steps \<equiv> \<lambda>l wire.
  (side_step demo_crates demo_views demo_game match_serialize match_deserialize l (1 - l) wire)\<^sup>*\<^sup>*"

lemma at_tasks:
  assumes l: "l \<le> 1" and step: "endpoint_step demo_crates match_serialize match_deserialize wire
      (sd_end (side_at l w s sent pushed received p own)) (sd_end (side_at l w s sent' pushed received p' own'))"
    and open_events: "\<not> lc_closed (pe_events p')"
  shows "match_steps l wire (side_at l w s sent pushed received p own) (side_at l w s sent' pushed received p' own')"
proof -
  have "side_step demo_crates demo_views demo_game match_serialize match_deserialize l (1 - l) wire
      (side_at l w s sent pushed received p own) ((side_at l w s sent pushed received p own)
        \<lparr>sd_session := (sd_session (side_at l w s sent pushed received p own))
           \<lparr>se_players := (se_players (sd_session (side_at l w s sent pushed received p own)))
              [1 - l := Remote (ep_peer (sd_end (side_at l w s sent' pushed received p' own')))]\<rparr>,
         sd_end := sd_end (side_at l w s sent' pushed received p' own')\<rparr>)"
    by (rule side_step.tasks[OF step]) (use open_events in \<open>simp_all add: side_at_def demo_views_def\<close>)
  then show ?thesis by (intro r_into_rtranclp) (use l in \<open>simp add: side_at_def seats_simps\<close>)
qed

text \<open>A message that the main task handles, the timer, and what the sending task sends.\<close>

lemma at_message:
  assumes l: "l \<le> 1" and wire: "bytes \<in> wire" "match_deserialize bytes = Inr (match_message d)"
    and filter: "passes_filter (pe_state p) 0 (match_message d)"
    and handled: "run_message demo_crates 0 0 (Some (match_message d)) 0 (p\<lparr>pe_peer_connect_status := own\<rparr>) = Some (ret, q)"
    and ends: "pe_message_in p = list_channel_new" "\<not> lc_closed (pe_events p)" "\<not> lc_closed (pe_events q)"
    and p': "p' = q\<lparr>pe_peer_connect_status := pe_peer_connect_status p\<rparr>" and own': "own' = pe_peer_connect_status q"
  shows "match_steps l wire (side_at l w s sent pushed received p own) (side_at l w s sent pushed received p' own')"
proof -
  let ?p = "p\<lparr>pe_message_in := \<lparr>lc_items = [match_message d], lc_closed = False\<rparr>\<rparr>"
  let ?at = "side_at l w s sent pushed received"
  have in1: "endpoint_step demo_crates match_serialize match_deserialize wire (sd_end (?at p own))
      ((sd_end (?at p own))\<lparr>ep_conn := session_moved ?p (ep_conn (sd_end (?at p own)))\<rparr>)"
    by (rule endpoint_step.incoming[OF wire(1), of demo_crates match_deserialize 0])
      (use wire(2) filter ends(1) in \<open>simp add: deserialize_incoming_step_def side_at_def demo_crates_def list_channels_def
        list_channel_new_def\<close>)
  have "match_steps l wire (?at p own) (?at ?p own)"
    by (rule at_tasks[OF l]) (use in1 ends(2) in \<open>simp_all add: side_at_def session_moved_def shared_with_def\<close>)
  moreover have "p\<lparr>pe_peer_connect_status := own\<rparr> = (cn_task (ep_conn (sd_end (?at ?p own))))\<lparr>pe_message_in := list_channel_new\<rparr>"
    using ends(1) by (cases p) (simp add: side_at_def)
  then have "conn_task demo_crates (ep_conn (sd_end (?at ?p own))) (task_moved q (ep_conn (sd_end (?at ?p own))))"
    using handled by (intro conn_task.message[of demo_crates _ "match_message d" list_channel_new 0 0 0 ret])
      (simp_all add: side_at_def demo_crates_def list_channels_def list_channel_new_def)
  then have "match_steps l wire (?at ?p own) (?at p' own')"
    using endpoint_step.task[of demo_crates "sd_end (?at ?p own)"]
    by (intro at_tasks[OF l]) (use ends(3) in \<open>simp_all add: side_at_def task_moved_def shared_with_def p' own'\<close>)
  ultimately show ?thesis by simp
qed

lemma at_timer:
  assumes l: "l \<le> 1" and run: "run_timer demo_crates 0 0 0 (p\<lparr>pe_peer_connect_status := own\<rparr>) = Some (ret, q)"
    and ends: "\<not> lc_closed (pe_events q)" and p': "p' = q\<lparr>pe_peer_connect_status := pe_peer_connect_status p\<rparr>"
    and own': "own' = pe_peer_connect_status q"
  shows "match_steps l wire (side_at l w s sent pushed received p own) (side_at l w s sent pushed received p' own')"
proof -
  let ?at = "side_at l w s sent pushed received"
  have "conn_task demo_crates (ep_conn (sd_end (?at p own))) (task_moved q (ep_conn (sd_end (?at p own))))"
    using run by (intro conn_task.timer) (simp add: side_at_def)
  then show ?thesis
    using endpoint_step.task[of demo_crates "sd_end (?at p own)"]
    by (intro at_tasks[OF l]) (use ends in \<open>simp_all add: side_at_def task_moved_def shared_with_def p' own'\<close>)
qed

lemma at_outgoing:
  assumes l: "l \<le> 1" and out: "pe_message_out p = \<lparr>lc_items = d # ds, lc_closed = False\<rparr>"
    and packet: "match_serialize (match_message d) = Inr bytes" and ends: "\<not> lc_closed (pe_events p)"
  shows "match_steps l wire (side_at l w s sent pushed received p own)
    (side_at l w s ({bytes} \<union> sent) pushed received (p\<lparr>pe_message_out := \<lparr>lc_items = ds, lc_closed = False\<rparr>\<rparr>) own)"
proof -
  let ?e = "sd_end (side_at l w s sent pushed received p own)"
  let ?p = "p\<lparr>pe_message_out := \<lparr>lc_items = ds, lc_closed = False\<rparr>\<rparr>"
  have "endpoint_step demo_crates match_serialize match_deserialize wire ?e
      (?e\<lparr>ep_conn := session_moved ?p (ep_conn ?e), ep_wire := set_option (Some bytes) \<union> ep_wire ?e\<rparr>)"
  proof (rule endpoint_step.outgoing)
    show "chan_try_recv (cr_out demo_crates) (pe_message_out (ep_peer ?e)) = (Inr d, \<lparr>lc_items = ds, lc_closed = False\<rparr>)"
      by (simp add: side_at_def out demo_crates_def list_channels_def)
    show "serialize_outgoing_step match_serialize False 0 7 d 0
        ((ep_peer ?e)\<lparr>pe_message_out := \<lparr>lc_items = ds, lc_closed = False\<rparr>\<rparr>) = Some ((False, Some bytes, 1), ?p)"
      using packet by (simp add: serialize_outgoing_step_def side_at_def match_message_def)
  qed
  then show ?thesis by (intro at_tasks[OF l]) (use ends in \<open>simp_all add: side_at_def session_moved_def shared_with_def\<close>)
qed

lemma at_requests:
  assumes "l \<le> 1" and "\<not> lc_closed (pe_events p)" and "pe_message_out p = \<lparr>lc_items = replicate n (SyncRequest 1) @ ds, lc_closed = False\<rparr>"
    and "[1] \<in> sent"
  shows "match_steps l wire (side_at l w s sent pushed received p own)
    (side_at l w s sent pushed received (p\<lparr>pe_message_out := \<lparr>lc_items = ds, lc_closed = False\<rparr>\<rparr>) own)"
  using assms
proof (induction n arbitrary: p)
  case 0
  then show ?case by (cases p) simp
next
  case (Suc n)
  let ?p = "p\<lparr>pe_message_out := \<lparr>lc_items = replicate n (SyncRequest 1) @ ds, lc_closed = False\<rparr>\<rparr>"
  have "match_steps l wire (side_at l w s sent pushed received p own) (side_at l w s ({[1]} \<union> sent) pushed received ?p own)"
    by (rule at_outgoing) (use Suc.prems match_packets(1) in simp_all)
  moreover have "{[1]} \<union> sent = sent" using Suc.prems(4) by blast
  moreover have "match_steps l wire (side_at l w s sent pushed received ?p own)
      (side_at l w s sent pushed received (?p\<lparr>pe_message_out := \<lparr>lc_items = ds, lc_closed = False\<rparr>\<rparr>) own)"
    by (rule Suc.IH) (use Suc.prems in simp_all)
  ultimately show ?case by simp
qed

section \<open>The handshake\<close>

definition shake_events :: "test_input peer_event list" where
  "shake_events = [PeerConnected, PeerSynchronizing 5 1, PeerSynchronizing 5 2, PeerSynchronizing 5 3,
     PeerSynchronizing 5 4, PeerSynchronized]"

abbreviation "request \<equiv> match_message (SyncRequest 1)"
abbreviation "reply \<equiv> match_message (SyncReply 1)"

lemmas shake_simps = match_peer_def demo_peer_def demo_crates_def list_channels_def list_channel_new_def send_def push_event_def

lemma shake_timer: "run_timer demo_crates 0 0 0 (match_peer i (PeerConnecting 1) [] []) =
    Some (Inr 0, match_peer i (PeerConnecting 1) [SyncRequest 1] [])"
  by (simp add: run_timer_def notify_interrupted_def peer_poll_def sync_retry_def send_sync_request_def
      shake_simps peer_stats_default_def millis_add_def)

lemma shake_request: "run_message demo_crates 0 0 (Some request) 0 (match_peer i (PeerConnecting 1) [] []) =
    Some (Inr 0, match_peer i (PeerConnecting 1) [SyncReply 1] [])"
  by (simp add: run_message_def match_message_def on_sync_request_def shake_simps)

lemma shake_replies:
  "run_message demo_crates 0 0 (Some reply) 0 (match_peer i (PeerConnecting 1) out events) =
    Some (Inr 0, match_peer i (PeerSyncing 1 NUM_SYNC_PACKETS) (out @ [SyncRequest 1]) (events @ [PeerConnected]))"
  "1 < n \<Longrightarrow> n \<le> NUM_SYNC_PACKETS \<Longrightarrow> run_message demo_crates 0 0 (Some reply) 0 (match_peer i (PeerSyncing 1 n) out events) =
    Some (Inr 0, match_peer i (PeerSyncing 1 (n - 1)) (out @ [SyncRequest 1])
      (events @ [PeerSynchronizing NUM_SYNC_PACKETS (NUM_SYNC_PACKETS - (n - 1))]))"
  "run_message demo_crates 0 0 (Some reply) 0 (match_peer i (PeerSyncing 1 1) out events) =
    Some (Inr 0, match_peer i (PeerRunning 7) out (events @ [PeerSynchronized]))"
  by (simp_all add: run_message_def match_message_def on_sync_reply_def accept_sync_reply_def send_sync_request_def
      shake_simps peer_stats_default_def NUM_SYNC_PACKETS_def)

lemma match_peer_simps [simp]:
  "pe_state (match_peer i state out events) = state" "pe_message_in (match_peer i state out events) = list_channel_new"
  "pe_message_out (match_peer i state out events) = \<lparr>lc_items = out, lc_closed = False\<rparr>"
  "pe_events (match_peer i state out events) = \<lparr>lc_items = events, lc_closed = False\<rparr>"
  "pe_peer_connect_status (match_peer i state out events) = statuses_of 2"
  "(match_peer i state out events)\<lparr>pe_peer_connect_status := statuses_of 2\<rparr> = match_peer i state out events"
  "(match_peer i state out events)\<lparr>pe_message_out := \<lparr>lc_items = out', lc_closed = False\<rparr>\<rparr> = match_peer i state out' events"
  by (simp_all add: match_peer_def demo_peer_def)

text \<open>A new session of either player, and the side it belongs to.\<close>

definition new_session ::
    "bool \<Rightarrow> (test_input, test_input peer_event list_channel, message_data list_channel, message list_channel) session" where
  "new_session b = \<lparr>se_sync = demo_sync, se_players = [], se_synchronizing = b, se_next_recommended_sleep = 0,
     se_local_connect_status = statuses_of 2\<rparr>"

definition shaking :: "nat \<Rightarrow> u8 list set \<Rightarrow> peer_state \<Rightarrow> message_data list \<Rightarrow> test_input peer_event list \<Rightarrow> demo_side" where
  "shaking l sent state out events =
     side_at l demo_world (new_session True) sent [] [] (match_peer (1 - l) state out events) (statuses_of 2)"

lemma match_starts:
  "match_start = shaking 0 {} (PeerConnecting 1) [] []" "opponent_start_side = shaking 1 {} (PeerConnecting 1) [] []"
  by (simp_all add: shaking_def side_at_def new_session_def side_new_def endpoint_new_def conn_new_def demo_session_def
      opponent_session_def seats_def demo_builder_players demo_builder_delay demo_opponent_def with_frame_delay_def
      add_player_def builder_new_def match_peer_def demo_peer_def list_channel_new_def numeral_2_eq_2)

lemma shaking_message:
  assumes "l \<le> 1" and "bytes \<in> wire" and "match_deserialize bytes = Inr (match_message d)" and "passes_filter state 0 (match_message d)"
    and "run_message demo_crates 0 0 (Some (match_message d)) 0 (match_peer (1 - l) state out events) =
      Some (Inr 0, match_peer (1 - l) state' out' events')"
  shows "match_steps l wire (shaking l sent state out events) (shaking l sent state' out' events')"
  unfolding shaking_def
  by (rule at_message[OF assms(1-3), where ret = "Inr 0" and q = "match_peer (1 - l) state' out' events'"]) (use assms(4,5) in simp_all)

lemma shaking_sends:
  assumes "l \<le> 1" and "match_serialize (match_message d) = Inr bytes"
  shows "match_steps l wire (shaking l sent state (d # out) events) (shaking l ({bytes} \<union> sent) state out events)"
proof -
  have "match_steps l wire (shaking l sent state (d # out) events) (side_at l demo_world (new_session True) ({bytes} \<union> sent) [] []
      ((match_peer (1 - l) state (d # out) events)\<lparr>pe_message_out := \<lparr>lc_items = out, lc_closed = False\<rparr>\<rparr>) (statuses_of 2))"
    unfolding shaking_def by (rule at_outgoing[OF assms(1) _ assms(2)]) simp_all
  then show ?thesis by (simp add: shaking_def)
qed

lemma shaking_requests:
  assumes l: "l \<le> 1"
  shows "match_steps l wire (shaking l {} (PeerConnecting 1) [] []) (shaking l {[1]} (PeerConnecting 1) [] [])"
proof -
  have "match_steps l wire (shaking l {} (PeerConnecting 1) [] []) (shaking l {} (PeerConnecting 1) [SyncRequest 1] [])"
    unfolding shaking_def
    by (rule at_timer[OF l, where ret = "Inr 0" and q = "match_peer (1 - l) (PeerConnecting 1) [SyncRequest 1] []"]) (use shake_timer[of "1 - l"] in simp_all)
  also have "match_steps l wire \<dots> (shaking l ({[1]} \<union> {}) (PeerConnecting 1) [] [])"
    by (rule shaking_sends[OF l match_packets(1)])
  finally show ?thesis by simp
qed

lemma shaking_answers:
  assumes l: "l \<le> 1" and wire: "[1] \<in> wire"
  shows "match_steps l wire (shaking l {[1]} (PeerConnecting 1) [] []) (shaking l {[2], [1]} (PeerConnecting 1) [] [])"
proof -
  have "match_steps l wire (shaking l {[1]} (PeerConnecting 1) [] []) (shaking l {[1]} (PeerConnecting 1) [SyncReply 1] [])"
    by (rule shaking_message[OF l wire match_packets(5) _ shake_request]) (simp add: passes_filter_def match_message_def)
  also have "match_steps l wire \<dots> (shaking l ({[2]} \<union> {[1]}) (PeerConnecting 1) [] [])"
    by (rule shaking_sends[OF l match_packets(2)])
  finally show ?thesis by (simp add: insert_commute)
qed

lemma shaking_completes:
  assumes l: "l \<le> 1" and wire: "[2] \<in> wire"
  shows "match_steps l wire (shaking l {[2], [1]} (PeerConnecting 1) [] []) (shaking l {[2], [1]} (PeerRunning 7) [] shake_events)"
proof -
  let ?sent = "{[2], [1]}"
  note filter = passes_filter_def match_message_def
  let ?outs = "\<lambda>n. replicate n (SyncRequest 1)"
  let ?at = "\<lambda>n. shaking l ?sent (PeerSyncing 1 (5 - n)) (?outs (Suc n)) (take (Suc n) shake_events)"
  have reply: "match_steps l wire (shaking l ?sent state out events) (shaking l ?sent state' out' events')"
    if "run_message demo_crates 0 0 (Some reply) 0 (match_peer (1 - l) state out events) =
      Some (Inr 0, match_peer (1 - l) state' out' events')" "\<And>m. state \<noteq> PeerRunning m" for state out events state' out' events'
    by (rule shaking_message[OF l wire match_packets(6) _ that(1)])
      (use that(2) in \<open>cases state; simp add: filter\<close>)
  have zero: "match_steps l wire (shaking l ?sent (PeerConnecting 1) [] []) (?at 0)"
    by (rule reply) (simp_all add: shake_replies(1) NUM_SYNC_PACKETS_def shake_events_def)
  have next_round: "match_steps l wire (?at n) (?at (Suc n))" if "n < 4" for n
  proof (rule reply)
    have "take (Suc (Suc n)) shake_events = take (Suc n) shake_events @ [PeerSynchronizing 5 (Suc n)]"
      using that by (auto simp: shake_events_def less_Suc_eq numeral_eq_Suc)
    then show "run_message demo_crates 0 0 (Some reply) 0 (match_peer (1 - l) (PeerSyncing 1 (5 - n)) (?outs (Suc n)) (take (Suc n) shake_events)) =
      Some (Inr 0, match_peer (1 - l) (PeerSyncing 1 (5 - Suc n)) (?outs (Suc (Suc n))) (take (Suc (Suc n)) shake_events))"
      using shake_replies(2)[of "5 - n" "1 - l" "?outs (Suc n)" "take (Suc n) shake_events"] that
      by (simp add: NUM_SYNC_PACKETS_def replicate_append_same)
  qed simp
  have "match_steps l wire (shaking l ?sent (PeerConnecting 1) [] []) (?at n)" if "n \<le> 4" for n
    using that
  proof (induction n)
    case 0
    show ?case by (rule zero)
  next
    case (Suc n)
    show ?case by (rule rtranclp_trans[OF Suc.IH next_round]) (use Suc.prems in simp_all)
  qed
  from this[of 4] have "match_steps l wire (shaking l ?sent (PeerConnecting 1) [] []) (?at 4)" by simp
  also have "match_steps l wire (?at 4) (shaking l ?sent (PeerRunning 7) (?outs 5) shake_events)"
    by (rule reply) (use shake_replies(3)[of "1 - l" "?outs 5" "take 5 shake_events"] in \<open>simp_all add: shake_events_def\<close>)
  also have "match_steps l wire \<dots> (shaking l ?sent (PeerRunning 7) [] shake_events)"
    using at_requests[OF l, of "match_peer (1 - l) (PeerRunning 7) (?outs 5) shake_events" 5 "[]" ?sent wire]
    unfolding shaking_def by simp
  finally show ?thesis .
qed

abbreviation "match_runs \<equiv> match_reachable demo_crates demo_views demo_game match_serialize match_deserialize 0 1 demo_builder demo_opponent"

lemma match_moves:
  assumes "match_runs a b"
  shows "match_steps 0 (ep_wire (sd_end b)) a a' \<Longrightarrow> match_runs a' b" and "match_steps 1 (ep_wire (sd_end a)) b b' \<Longrightarrow> match_runs a b'"
proof -
  show "match_runs a' b" if "match_steps 0 (ep_wire (sd_end b)) a a'"
    using that assms by (induction rule: rtranclp_induct) (auto intro: match_reachable.first)
  show "match_runs a b'" if "match_steps 1 (ep_wire (sd_end a)) b b'"
    using that assms by (induction rule: rtranclp_induct) (auto intro: match_reachable.second)
qed

lemma side_at_wire [simp]: "ep_wire (sd_end (side_at l w s sent pushed received p own)) = sent"
  by (simp add: side_at_def)

lemma shaking_wire [simp]: "ep_wire (sd_end (shaking l sent state out events)) = sent"
  by (simp add: shaking_def)

lemma match_shaken:
  "match_runs (shaking 0 {[2], [1]} (PeerRunning 7) [] shake_events) (shaking 1 {[2], [1]} (PeerRunning 7) [] shake_events)"
proof -
  let ?new = "\<lambda>l sent. shaking l sent (PeerConnecting 1) [] []" and ?done = "\<lambda>l. shaking l {[2], [1]} (PeerRunning 7) [] shake_events"
  have one: "0 \<le> (1::nat)" "1 \<le> (1::nat)" by simp_all
  have "match_runs (?new 0 {}) (?new 1 {})" unfolding match_starts[symmetric] by (rule match_started)
  from match_moves(2)[OF match_moves(1)[OF this shaking_requests[OF one(1)]] shaking_requests[OF one(2)]]
  have "match_runs (?new 0 {[1]}) (?new 1 {[1]})" .
  from match_moves(1)[OF this shaking_answers[OF one(1)]] have "match_runs (?new 0 {[2], [1]}) (?new 1 {[1]})" by simp
  from match_moves(2)[OF this shaking_answers[OF one(2)]] have "match_runs (?new 0 {[2], [1]}) (?new 1 {[2], [1]})" by simp
  from match_moves(1)[OF this shaking_completes[OF one(1)]] have "match_runs (?done 0) (?new 1 {[2], [1]})" by simp
  from match_moves(2)[OF this shaking_completes[OF one(2)]] show ?thesis by simp
qed

section \<open>The first poll\<close>

lemma match_calm:
  assumes "time_sync_ok (pe_timesync p)" and "ts_iteration (pe_timesync p) < 1000"
    and "\<forall>x \<in> set (ts_local (pe_timesync p)) \<union> set (ts_remote (pe_timesync p)). \<bar>x\<bar> \<le> 1000"
    and "st_round_trip_time (pe_stats p) = 0" and "\<bar>id_last_decoded (pe_input_decoder p)\<bar> \<le> 1000" and "\<bar>f\<bar> \<le> 1000"
  shows "players_calm f (s\<lparr>se_players := seats l p\<rparr>)"
proof -
  have "peer_calm f p" by (rule peer_calm_bounded) (use assms in \<open>force simp: last_decoded_frame_def\<close>)+
  then show ?thesis by (auto simp: players_calm_def seats_def less_Suc_eq nth_Cons')
qed

definition polled_peer :: "nat \<Rightarrow> demo_peer" where
  "polled_peer i = (match_peer i (PeerRunning 7) [] [])\<lparr>pe_stats := peer_stats_default\<lparr>st_local_frame_advantage := - 1\<rparr>\<rparr>"

lemma shaken_flush:
  assumes l: "l \<le> 1" and r: "r = 1 - l"
  shows "\<exists>cs. only_events cs \<and> flush_peer_events demo_crates r
      ([], (new_session True)\<lparr>se_players := seats l (match_peer r (PeerRunning 7) [] shake_events)\<rparr>, st) =
    Some (cs, (new_session False)\<lparr>se_players := seats l (match_peer r (PeerRunning 7) [] [])\<rparr>, st)"
proof -
  have at: "r < length (seats l p)" "seats l p ! r = Remote p" "(seats l p)[r := Remote q] = seats l q" for p q :: demo_peer
    using l r by (auto simp: seats_def le_Suc_eq)
  let ?s = "\<lambda>b events. (new_session b)\<lparr>se_players := seats l (match_peer r (PeerRunning 7) [] events)\<rparr>"
  have recv: "chan_try_recv (cr_events demo_crates) \<lparr>lc_items = e # es, lc_closed = False\<rparr> =
      (Inr e, \<lparr>lc_items = es, lc_closed = False\<rparr>)"
    "chan_try_recv (cr_events demo_crates) \<lparr>lc_items = [], lc_closed = False\<rparr> =
      (Inl TryRecvEmpty, \<lparr>lc_items = [], lc_closed = False\<rparr>)" for e es
    by (simp_all add: demo_crates_def list_channels_def)
  have peer: "(match_peer i state out es)\<lparr>pe_events := \<lparr>lc_items = es', lc_closed = False\<rparr>\<rparr> = match_peer i state out es'"
    for i state out es es' by (simp add: match_peer_def demo_peer_def)
  have next_event: "flush_peer_events demo_crates r (cs, ?s b (e # es), st) =
      do { run \<leftarrow> handle_event r e (cs, ?s b es, st); flush_peer_events demo_crates r run }" for cs b e es
    using flush_peer_step[of r "?s b (e # es)" "match_peer r (PeerRunning 7) [] (e # es)" demo_crates e
        "\<lparr>lc_items = es, lc_closed = False\<rparr>" cs st]
    by (simp add: recv peer at)
  have no_event: "flush_peer_events demo_crates r (cs, ?s b [], st) = Some (cs, ?s b [], st)" for cs b
    using flush_peer_done[of r "?s b []" "match_peer r (PeerRunning 7) [] []" demo_crates
        "\<lparr>lc_items = [], lc_closed = False\<rparr>" cs st]
    by (simp add: recv peer at)
  have synced: "check_initial_sync (cs, ?s True es, st) = Some (cs @ [Event Running], ?s False es, st)" for cs es
    by (auto simp: check_initial_sync.simps session_is_synchronized_def new_session_def match_peer_def demo_peer_def
        player_is_synchronized_def peer_is_running_def seats_def)
  show ?thesis
    unfolding shake_events_def next_event
    by (simp add: next_event no_event synced only_events_def)
qed

lemma shaken_poll:
  assumes l: "l \<le> 1" and r: "r = 1 - l"
  shows "\<exists>cs. only_events cs \<and> session_poll demo_crates
      ((new_session True)\<lparr>se_players := seats l (match_peer r (PeerRunning 7) [] shake_events)\<rparr>, st) =
    Some (cs, (new_session False)\<lparr>se_players := seats l (polled_peer r)\<rparr>, st)"
proof -
  let ?s = "(new_session True)\<lparr>se_players := seats l (match_peer r (PeerRunning 7) [] shake_events)\<rparr>"
  let ?t = "(new_session False)\<lparr>se_players := seats l (match_peer r (PeerRunning 7) [] [])\<rparr>"
  let ?u = "(new_session False)\<lparr>se_players := seats l (polled_peer r)\<rparr>"
  obtain cs where cs: "only_events cs" "flush_peer_events demo_crates r ([], ?s, st) = Some (cs, ?t, st)"
    using shaken_flush[OF l r] by blast
  have seat: "seated l r (match_peer r (PeerRunning 7) [] shake_events) ?s"
    using l r by (auto simp: seated_def seats_def le_Suc_eq)
  have flush: "flush_events demo_crates ([], ?s, st) = Some (cs, ?t, st)"
    using cs(2) by (simp add: flush_events_def seated_flush[OF seat, simplified])
  have check: "with_sync (check_simulation z sts) (cs, ?t, st) = Some (cs, ?t, st)" for z sts
    by (simp add: new_session_def check_simulation.simps check_simulation_consistency_def sync_new_def create_queues_def
        queue_new_def numeral_2_eq_2 is_null_def NULL_FRAME_def)
  have number: "set_local_frame_number 0 (match_peer r (PeerRunning 7) [] []) = Some (polled_peer r)"
    by (simp add: set_local_frame_number_def match_peer_def demo_peer_def polled_peer_def decoder_default_def
        last_decoded_frame_def peer_stats_default_def NULL_FRAME_def in_i32_def Let_def)
  have conf: "confirmed_frame demo_crates 0 (cs, ?u, st) = Some (- 1, (cs, ?u, st))"
    using l r by (auto simp: confirmed_frame_def new_session_def seats_def remote_peers_def map_filter_def Let_def poll_2_players_def
        upt_rec queue_connected_def polled_peer_def match_peer_def demo_peer_def peer_is_running_def get_peer_connect_status_def
        statuses_of_def connection_status_default_def NULL_FRAME_def i32_MAX_def numeral_2_eq_2 le_Suc_eq)
  have fields: "sy_frame_count (se_sync (new_session False)) = 0"
    "traverse (player_set_local_frame_number 0) (seats l (match_peer r (PeerRunning 7) [] [])) = Some (seats l (polled_peer r))"
    "notify_time_sync 0 (cs, ?u, st) = Some (cs, ?u, st)"
    using number by (simp_all add: new_session_def sync_new_def notify_time_sync.simps seats_def)
  have "poll_running demo_crates (cs, ?t, st) = Some (cs, ?u, st)"
    unfolding poll_running_def by (simp add: check fields conf Let_def del: with_sync.simps)
  then have "session_poll demo_crates (?s, st) = Some (cs, ?u, st)"
    using flush by (simp add: session_poll_def do_poll_def new_session_def sync_new_def)
  then show ?thesis using cs(1) by blast
qed

text \<open>A side that runs: the world and the session of frame 0 before any input.\<close>

definition polling :: "nat \<Rightarrow> u8 list set \<Rightarrow> demo_side" where
  "polling l sent = side_at l demo_world (new_session False) sent [] shake_events (polled_peer (1 - l)) (statuses_of 2)"

lemma shaken_polls:
  assumes l: "l \<le> 1"
  shows "match_steps l wire (shaking l sent (PeerRunning 7) [] shake_events) (polling l sent)"
proof -
  let ?p = "match_peer (1 - l) (PeerRunning 7) [] shake_events"
  let ?a = "shaking l sent (PeerRunning 7) [] shake_events"
  obtain cs where cs: "only_events cs" "session_poll demo_crates (sd_session ?a, wo_store (sd_world ?a)) =
      Some (cs, (new_session False)\<lparr>se_players := seats l (polled_peer (1 - l))\<rparr>, wo_store (sd_world ?a))"
    using shaken_poll[OF l refl] by (auto simp: shaking_def side_at_def)
  have exec: "execute_all (gm_step demo_game) (gm_hash demo_game) cs (wo_state (sd_world ?a), wo_store (sd_world ?a)) =
      Some (wo_state (sd_world ?a), wo_store (sd_world ?a))"
    by (rule execute_events[OF cs(1)])
  have sync: "length (sy_input_queues demo_sync) = 2" "sy_input_queues demo_sync ! 0 = queue_new (pod_zeroed test_pod) 0"
    "sy_input_queues demo_sync ! Suc 0 = queue_new (pod_zeroed test_pod) 0" "sy_frame_count demo_sync = 0"
    by (simp_all add: sync_new_def create_queues_def numeral_2_eq_2)
  have events: "event_inputs shake_events = []" by (simp add: shake_events_def)
  have "players_calm 0 (sd_session ?a)"
    unfolding shaking_def side_at_def
    by simp (rule match_calm; simp add: match_peer_def demo_peer_def peer_stats_default_def decoder_default_def NULL_FRAME_def;
        simp add: time_sync_default_def)
  then have fits: "call_fits demo_views (1 - l) (current_frame (sd_session ?a)) ?a"
    using l sync events
    by (auto simp: call_fits_def current_frame_def shaking_def side_at_def new_session_def room_for_def demo_views_def
        RECOMMENDATION_INTERVAL_def i32_MAX_def queue_new_def NULL_FRAME_def world_new_def MAX_ROLLBACK_FRAMES_def le_Suc_eq)
  have arr: "arrived demo_views demo_game (1 - l) ?a = wo_inputs demo_world"
    using events by (simp add: arrived_def shaking_def side_at_def demo_views_def Let_def)
  have "\<lparr>sd_world = after_call (sd_world ?a) (arrived demo_views demo_game (1 - l) ?a) (wo_state (sd_world ?a)) (wo_store (sd_world ?a))
        ((new_session False)\<lparr>se_players := seats l (polled_peer (1 - l))\<rparr>),
      sd_session = (new_session False)\<lparr>se_players := seats l (polled_peer (1 - l))\<rparr>,
      sd_end = called (polled_peer (1 - l)) (vw_events demo_views (pe_events (ep_peer (sd_end ?a)))) [] (sd_end ?a)\<rparr> = polling l sent"
    unfolding arr by (simp add: polling_def side_at_def shaking_def called_def after_call_def shared_with_def demo_views_def
        new_session_def world_new_def demo_game_def)
  then have "side_step demo_crates demo_views demo_game match_serialize match_deserialize l (1 - l) wire ?a (polling l sent)"
    using side_step.poll[OF fits cs(2) exec, of "polled_peer (1 - l)" match_serialize match_deserialize l wire] l
    by (simp add: seats_simps)
  then show ?thesis by blast
qed

lemma match_polled: "match_runs (polling 0 {[2], [1]}) (polling 1 {[2], [1]})"
  using match_moves(2)[OF match_moves(1)[OF match_shaken shaken_polls] shaken_polls] by simp

section \<open>The inputs of frame 0\<close>

abbreviation "first_input l \<equiv> \<lparr>fi_frame = 0, fi_input = match_input l\<rparr>"

definition first_queue :: "nat \<Rightarrow> test_input input_queue" where
  "first_queue l = snd (the (add_input (first_input l) (queue_new (pod_zeroed test_pod) 0)))"

lemma first_queue:
  "add_input (first_input l) (queue_new (pod_zeroed test_pod) 0) = Some (0, first_queue l)"
proof -
  have "\<exists>q. add_input (first_input l) (queue_new (pod_zeroed test_pod) 0) = Some (0, q)"
    by (rule add_input_tracks[OF tracks_new[of "pod_zeroed test_pod" 0], where m = 0 and t = 0 and x = "match_input l"])
      (auto simp: queue_new_def in_i32_def MAX_ROLLBACK_FRAMES_def)
  then show ?thesis by (auto simp: first_queue_def)
qed

definition first_timesync :: "nat \<Rightarrow> test_input time_sync" where
  "first_timesync l = the (time_sync_advance_frame (first_input l) (- 1) 0 (time_sync_default (pod_zeroed test_pod)))"

lemma first_timesync:
  "time_sync_advance_frame (first_input l) (- 1) 0 (time_sync_default (pod_zeroed test_pod)) = Some (first_timesync l)"
  "time_sync_ok (first_timesync l)" "ts_iteration (first_timesync l) = 0"
  "set (ts_local (first_timesync l)) \<subseteq> {- 1, 0}" "set (ts_remote (first_timesync l)) \<subseteq> {0}"
proof -
  obtain ts where ts: "time_sync_advance_frame (first_input l) (- 1) 0 (time_sync_default (pod_zeroed test_pod)) = Some ts"
      "time_sync_ok ts" "set (ts_local ts) \<subseteq> insert (- 1) (set (ts_local (time_sync_default (pod_zeroed test_pod))))"
      "set (ts_remote ts) \<subseteq> insert 0 (set (ts_remote (time_sync_default (pod_zeroed test_pod))))"
    by (rule time_sync_advance_ok[of "time_sync_default (pod_zeroed test_pod)" "first_input l" "- 1" 0]) simp_all
  then have "first_timesync l = ts" by (simp add: first_timesync_def)
  moreover have "ts_iteration ts = 0" using ts(1)
    by (auto simp: time_sync_advance_frame_def time_sync_default_def bind_eq_Some_conv)
  ultimately show "time_sync_advance_frame (first_input l) (- 1) 0 (time_sync_default (pod_zeroed test_pod)) = Some (first_timesync l)"
    "time_sync_ok (first_timesync l)" "ts_iteration (first_timesync l) = 0"
    "set (ts_local (first_timesync l)) \<subseteq> {- 1, 0}" "set (ts_remote (first_timesync l)) \<subseteq> {0}"
    using ts by (auto simp: time_sync_default_def)
qed

lemma match_pack: "l \<le> 1 \<Longrightarrow> compress leb128 test_pod (pod_zeroed test_pod) [match_input l] = Some (Inr (match_bits l))"
proof -
  have "compress leb128 test_pod (pod_zeroed test_pod) [\<lparr>ti_x = 7, ti_y = 9\<rparr>] = Some (Inr [2, 7, 13, 2, 9, 13])"
    by code_simp
  then show "l \<le> 1 \<Longrightarrow> ?thesis" using demo_pack by (auto simp: match_input_def match_bits_def le_Suc_eq)
qed

lemma match_unpack:
  assumes "l \<le> 1"
  shows "decompress leb128 test_pod (pod_zeroed test_pod) (match_bits l) = Some (Inr [match_input l])"
proof (rule test_codec.decompress_compress)
  show "packet_fits test_pod [match_input l]" by (simp add: packet_fits_def test_pod_def MAX_BUFFER_SIZE_def)
qed (use match_pack[OF assms] in simp)

definition first_sync :: "nat \<Rightarrow> test_input sync" where
  "first_sync l = demo_sync\<lparr>sy_input_queues := (sy_input_queues demo_sync)[l := first_queue l]\<rparr>"

definition first_session ::
    "nat \<Rightarrow> (test_input, test_input peer_event list_channel, message_data list_channel, message list_channel) session" where
  "first_session l = (new_session False)\<lparr>se_sync := first_sync l,
     se_local_connect_status := (statuses_of 2)[l := connection_status_default\<lparr>cs_last_frame := 0\<rparr>]\<rparr>"

definition first_world :: "nat \<Rightarrow> (test_input, test_input list list) world" where
  "first_world l = demo_world\<lparr>wo_sync := first_sync l, wo_inputs := (\<lambda>_. [])(l := [match_input l])\<rparr>"

definition first_peer :: "nat \<Rightarrow> demo_peer" where
  "first_peer l = (polled_peer (1 - l))\<lparr>pe_timesync := first_timesync l,
     pe_input_encoder := \<lparr>ie_pending = [first_input l], ie_last_acked = - 1, ie_last_encoded = 0\<rparr>,
     pe_message_out := \<lparr>lc_items = [InputMsg (match_msg l)], lc_closed = False\<rparr>\<rparr>"

lemma first_send:
  assumes "l \<le> 1" and "sts = (statuses_of 2)[l := connection_status_default\<lparr>cs_last_frame := 0\<rparr>]"
  shows "send_input demo_crates sts (first_input l) (polled_peer (1 - l)) = Some (Inr (), first_peer l)"
  using match_pack[OF assms(1)] first_timesync(1)[of l]
  by (simp add: send_input_def send_pending_output_def encoder_encode_def encode_pending_def encoder_push_def encoder_default_def
      send_def polled_peer_def match_peer_def demo_peer_def demo_crates_def list_channels_def list_channel_new_def
      peer_stats_default_def NULL_FRAME_def last_decoded_frame_def decoder_default_def match_msg_def first_peer_def Let_def assms(2))

lemma first_add:
  assumes "l \<le> 1"
  shows "add_local_input demo_crates l (match_input l) ((new_session False)\<lparr>se_players := seats l (polled_peer (1 - l))\<rparr>) =
    Some (Inr (), (first_session l)\<lparr>se_players := seats l (first_peer l)\<rparr>)"
proof -
  have sync: "sync_add_local_input l (match_input l) demo_sync = Some (Inr 0, first_sync l)"
    using first_queue[of l] assms
    by (auto simp: sync_add_local_input_def first_sync_def sync_new_def create_queues_def numeral_2_eq_2 le_Suc_eq
        i32_sub_def in_i32_def NULL_FRAME_def MAX_PREDICTION_FRAMES_def)
  have sts: "l < length (statuses_of 2)" "statuses_of 2 ! l = connection_status_default"
    using assms by (simp_all add: statuses_of_def)
  show ?thesis
    using sync first_send[OF assms refl] assms sts
    by (auto simp: add_local_input_def new_session_def player_handle_to_queue_def first_session_def seats_def
        is_null_def NULL_FRAME_def Let_def le_Suc_eq sync_new_def)
qed

definition waiting :: "nat \<Rightarrow> u8 list set \<Rightarrow> demo_peer \<Rightarrow> connection_status list \<Rightarrow> demo_side" where
  "waiting l sent p own = side_at l (first_world l) (first_session l) sent [match_input l] shake_events p own"

lemma polling_adds:
  assumes l: "l \<le> 1"
  shows "match_steps l wire (polling l sent) (waiting l sent (first_peer l) (statuses_of 2))"
proof -
  let ?a = "polling l sent"
  have res: "add_local_input demo_crates l (match_input l) (sd_session ?a) =
      Some (Inr (), (first_session l)\<lparr>se_players := seats l (first_peer l)\<rparr>)"
    using first_add[OF l] by (simp add: polling_def side_at_def)
  have due: "local_input_due (sd_world ?a) l 0"
    using l by (auto simp: local_input_due_def input_fits_def polling_def side_at_def world_new_def sync_new_def create_queues_def
        queue_new_def numeral_2_eq_2 le_Suc_eq in_i32_def i32_MAX_def MAX_ROLLBACK_FRAMES_def)
  have running: "\<not> se_synchronizing (sd_session ?a)" "\<not> barred (se_sync (sd_session ?a))"
    by (simp_all add: polling_def side_at_def new_session_def barred_def sync_new_def MAX_PREDICTION_FRAMES_def)
  have acc: "accept_input demo_game l 0 (match_input l) (\<lambda>_. []) = (\<lambda>_. [])(l := [match_input l])"
    by (simp add: accept_input_def queue_accept_def last_or_def)
  have "\<lparr>sd_world = (sd_world ?a)\<lparr>wo_sync := first_sync l, wo_inputs := accept_input demo_game l 0 (match_input l) (wo_inputs (sd_world ?a))\<rparr>,
      sd_session = (first_session l)\<lparr>se_players := seats l (first_peer l)\<rparr>,
      sd_end = called (first_peer l) [] [match_input l] (sd_end ?a)\<rparr> = waiting l sent (first_peer l) (statuses_of 2)"
    by (simp add: polling_def side_at_def waiting_def called_def shared_with_def first_world_def world_new_def acc)
  then have "side_step demo_crates demo_views demo_game match_serialize match_deserialize l (1 - l) wire ?a
      (waiting l sent (first_peer l) (statuses_of 2))"
    using side_step.local_input[OF running due res, of "1 - l" "first_peer l" demo_views demo_game match_serialize match_deserialize wire] l
    by (simp add: seats_simps) (simp add: first_session_def)
  then show ?thesis by blast
qed

definition match_packet :: "nat \<Rightarrow> u8 list" where
  "match_packet l = (if l = 0 then [3] else [4])"

lemma match_packet:
  "l \<le> 1 \<Longrightarrow> match_serialize (match_message (InputMsg (match_msg l))) = Inr (match_packet l)"
  "l \<le> 1 \<Longrightarrow> match_deserialize (match_packet l) = Inr (match_message (InputMsg (match_msg l)))"
  using match_packets by (auto simp: match_packet_def le_Suc_eq)

abbreviation "sent_peer l \<equiv> (first_peer l)\<lparr>pe_message_out := list_channel_new\<rparr>"

lemma waiting_sends:
  assumes l: "l \<le> 1"
  shows "match_steps l wire (waiting l sent (first_peer l) own) (waiting l (insert (match_packet l) sent) (sent_peer l) own)"
proof -
  have "match_steps l wire (waiting l sent (first_peer l) own) (side_at l (first_world l) (first_session l) ({match_packet l} \<union> sent)
      [match_input l] shake_events ((first_peer l)\<lparr>pe_message_out := \<lparr>lc_items = [], lc_closed = False\<rparr>\<rparr>) own)"
    unfolding waiting_def by (rule at_outgoing[OF l _ match_packet(1)[OF l]])
      (simp_all add: first_peer_def polled_peer_def match_peer_def demo_peer_def)
  then show ?thesis by (simp add: waiting_def list_channel_new_def)
qed

definition heard_peer :: "nat \<Rightarrow> demo_peer" where
  "heard_peer l = (sent_peer l)\<lparr>pe_input_decoder := \<lparr>id_last_decoded = 0\<rparr>,
     pe_events := \<lparr>lc_items = [PeerInputs [first_input (1 - l)]], lc_closed = False\<rparr>,
     pe_message_out := \<lparr>lc_items = [InputAck 0], lc_closed = False\<rparr>\<rparr>"

abbreviation "heard_statuses l \<equiv> in_peer_connect_status (match_msg (1 - l))"

lemma match_decodes:
  "l \<le> 1 \<Longrightarrow> decode_frames (decompress leb128 test_pod (pod_zeroed test_pod)) 0 (match_bits l) decoder_default =
     Some (Inr [first_input l], \<lparr>id_last_decoded = 0\<rparr>)"
  by (simp add: decode_frames_def match_unpack decoder_default_def NULL_FRAME_def is_null_def i32_sub_def in_i32_def
      i32_add_def)

lemma waiting_handles:
  assumes l: "l \<le> 1"
  shows "run_message demo_crates 0 0 (Some (match_message (InputMsg (match_msg (1 - l))))) 0 (sent_peer l) =
    Some (Inr 0, (heard_peer l)\<lparr>pe_peer_connect_status := heard_statuses l\<rparr>)"
proof -
  have merge: "merge_statuses 0 (heard_statuses l) (statuses_of 2) = Some (heard_statuses l)"
    using l by (auto simp: match_msg_def statuses_of_def numeral_2_eq_2 le_Suc_eq connection_status_default_def NULL_FRAME_def)
  have msg: "in_start_frame (match_msg i) = 0" "in_ack_frame (match_msg i) = - 1" "in_bits (match_msg i) = match_bits i" for i
    by (simp_all add: match_msg_def)
  have fields: "pe_peer_connect_status (sent_peer l) = statuses_of 2" "pe_input_decoder (sent_peer l) = decoder_default"
    "pe_state (sent_peer l) = PeerRunning 7" "pe_events (sent_peer l) = list_channel_new"
    "pe_stats (sent_peer l) = peer_stats_default\<lparr>st_local_frame_advantage := - 1\<rparr>"
    "pe_input_encoder (sent_peer l) = \<lparr>ie_pending = [first_input l], ie_last_acked = - 1, ie_last_encoded = 0\<rparr>"
    by (simp_all add: first_peer_def polled_peer_def match_peer_def demo_peer_def list_channel_new_def)
  show ?thesis
    using merge fields match_decodes[of "1 - l"]
    by (simp add: run_message_def match_message_def on_input_def decoder_decode_def report_inputs_def push_event_def send_def
        demo_crates_def list_channels_def list_channel_new_def msg acknowledge_frame_def Let_def last_decoded_frame_def heard_peer_def)
      (simp add: first_peer_def polled_peer_def match_peer_def demo_peer_def peer_stats_default_def)
qed

lemma first_peer_fields:
  "pe_state (first_peer l) = PeerRunning 7" "pe_message_in (first_peer l) = list_channel_new"
  "pe_events (first_peer l) = list_channel_new" "pe_peer_connect_status (first_peer l) = statuses_of 2"
  "(sent_peer l)\<lparr>pe_peer_connect_status := statuses_of 2\<rparr> = sent_peer l"
  by (simp_all add: first_peer_def polled_peer_def match_peer_def demo_peer_def list_channel_new_def)

lemma waiting_hears:
  assumes l: "l \<le> 1" and wire: "match_packet (1 - l) \<in> wire"
  shows "match_steps l wire (waiting l sent (sent_peer l) (statuses_of 2)) (waiting l sent (heard_peer l) (heard_statuses l))"
  unfolding waiting_def
proof (rule at_message[OF l wire match_packet(2)])
  show "run_message demo_crates 0 0 (Some (match_message (InputMsg (match_msg (1 - l))))) 0
      ((sent_peer l)\<lparr>pe_peer_connect_status := statuses_of 2\<rparr>) = Some (Inr 0, (heard_peer l)\<lparr>pe_peer_connect_status := heard_statuses l\<rparr>)"
    using waiting_handles[OF l] by (simp only: first_peer_fields(5))
qed (use l first_peer_fields[of l] in \<open>simp_all add: passes_filter_def match_message_def heard_peer_def list_channel_new_def\<close>)

lemma waiting_wire [simp]: "ep_wire (sd_end (waiting l sent p own)) = sent"
  by (simp add: waiting_def)

lemma polling_wire [simp]: "ep_wire (sd_end (polling l sent)) = sent"
  by (simp add: polling_def)

text \<open>Both sides have finished the handshake, given an input and received the other one; nobody has advanced yet.\<close>

abbreviation "match_side l \<equiv> waiting l {match_packet l, [2], [1]} (heard_peer l) (heard_statuses l)"

lemma match_exchanged: "match_runs (match_side 0) (match_side 1)"
proof -
  let ?s = "{[2], [1]}" and ?w = "\<lambda>l. {match_packet l, [2], [1]}"
  have one: "0 \<le> (1::nat)" "1 \<le> (1::nat)" by simp_all
  have "match_runs (waiting 0 ?s (first_peer 0) (statuses_of 2)) (waiting 1 ?s (first_peer 1) (statuses_of 2))"
    by (rule match_moves(2)[OF match_moves(1)[OF match_polled polling_adds[OF one(1)]] polling_adds[OF one(2)]])
  from match_moves(1)[OF this waiting_sends[OF one(1)]]
  have "match_runs (waiting 0 (?w 0) (sent_peer 0) (statuses_of 2)) (waiting 1 ?s (first_peer 1) (statuses_of 2))" .
  from match_moves(2)[OF this waiting_sends[OF one(2)]]
  have "match_runs (waiting 0 (?w 0) (sent_peer 0) (statuses_of 2)) (waiting 1 (?w 1) (sent_peer 1) (statuses_of 2))" .
  from match_moves(1)[OF this waiting_hears[OF one(1)]]
  have "match_runs (match_side 0) (waiting 1 (?w 1) (sent_peer 1) (statuses_of 2))" by simp
  from match_moves(2)[OF this waiting_hears[OF one(2)]] show ?thesis by simp
qed

section \<open>Both sides advance\<close>

lemma match_side_ready:
  assumes l: "l \<le> 1" and r: "r = 1 - l"
  shows "may_advance (sd_session (match_side l))" and "current_frame (sd_session (match_side l)) = 0"
    and "call_fits demo_views r (current_frame (sd_session (match_side l)) + 1) (match_side l)"
    and "arrived demo_views demo_game r (match_side l) = (\<lambda>_. [])(0 := [match_input 0], 1 := [match_input 1])"
proof -
  have sync: "sy_input_queues (first_sync l) ! r = queue_new (pod_zeroed test_pod) 0" "sy_frame_count (first_sync l) = 0"
    using l r by (auto simp: first_sync_def sync_new_def create_queues_def numeral_2_eq_2 le_Suc_eq)
  note side = waiting_def side_at_def
  show f: "current_frame (sd_session (match_side l)) = 0"
    by (simp add: side current_frame_def first_session_def sync)
  show "may_advance (sd_session (match_side l))"
    by (simp add: may_advance_def barred_def side first_session_def new_session_def sync MAX_PREDICTION_FRAMES_def)
  have peer: "pe_timesync (heard_peer l) = first_timesync l" "st_round_trip_time (pe_stats (heard_peer l)) = 0"
    "pe_input_decoder (heard_peer l) = \<lparr>id_last_decoded = 0\<rparr>"
    "lc_items (pe_events (heard_peer l)) = [PeerInputs [first_input r]]"
    by (simp_all add: heard_peer_def first_peer_def polled_peer_def peer_stats_default_def r)
  have "players_calm 1 ((first_session l)\<lparr>se_players := seats l (heard_peer l)\<rparr>)"
    by (rule match_calm) (use first_timesync[of l] peer in \<open>auto\<close>)
  then show "call_fits demo_views r (current_frame (sd_session (match_side l)) + 1) (match_side l)"
    using sync peer f l r
    by (auto simp: call_fits_def side room_for_def first_session_def demo_views_def
        RECOMMENDATION_INTERVAL_def i32_MAX_def queue_new_def NULL_FRAME_def first_world_def world_new_def MAX_ROLLBACK_FRAMES_def)
  have "arrived demo_views demo_game r (match_side l) = (wo_inputs (first_world l))(r := [match_input r])"
    using sync peer by (simp add: arrived_def side first_session_def demo_views_def first_world_def Let_def queue_new_def
        NULL_FRAME_def accept_input_def queue_accept_def last_or_def)
  then show "arrived demo_views demo_game r (match_side l) = (\<lambda>_. [])(0 := [match_input 0], 1 := [match_input 1])"
    using l r by (auto simp: first_world_def le_Suc_eq fun_eq_iff)
qed

lemma demo_channels_codec: "packet_codec (cr_varint demo_crates) (cr_pod demo_crates)"
  using test_codec.packet_codec_axioms by (simp add: demo_crates_def)

text \<open>Both sides at frame 1, after everything arrived.\<close>

lemma match_runs_ok: "match_runs a b \<Longrightarrow> match_ok demo_crates demo_views demo_game 0 1 demo_builder demo_opponent a b"
  by (rule match_reachable_ok[OF demo_channels_codec demo_channels_ok _ demo_game_zero demo_duel(1,2)])
    (rule match_serialize_law)

lemma match_played:
  obtains a b where "match_runs a b" and "current_frame (sd_session a) = 1" and "current_frame (sd_session b) = 1"
    and "wo_inputs (sd_world a) = (\<lambda>_. [])(0 := [match_input 0], 1 := [match_input 1])"
    and "wo_inputs (sd_world b) = (\<lambda>_. [])(0 := [match_input 0], 1 := [match_input 1])"
    and "wo_state (sd_world a) = [[match_input 0, match_input 1]]"
proof -
  note ready = match_side_ready[OF _ refl]
  note advances = match_advance_returns[OF demo_channels_ok demo_game_zero]
  obtain a where a: "match_runs a (match_side 1)" "current_frame (sd_session a) = 1"
      "wo_inputs (sd_world a) = arrived demo_views demo_game 1 (match_side 0)"
      "wo_state (sd_world a) = replayed demo_game 2 (arrived demo_views demo_game 1 (match_side 0)) 1"
    using advances[OF demo_duel(1) match_runs_ok[OF match_exchanged] match_exchanged, OF ready(1)] ready(2,3)[of 0]
    by (fastforce simp: after_call_def)
  obtain b where b: "match_runs a b" "current_frame (sd_session b) = 1"
      "wo_inputs (sd_world b) = arrived demo_views demo_game 0 (match_side 1)"
    using advances[OF demo_duel(2) match_ok_sym[OF match_runs_ok[OF a(1)]] match_reachable_sym[OF a(1)], OF ready(1)]
      ready(2,3)[of 1] match_reachable_sym[of demo_crates demo_views demo_game match_serialize match_deserialize 1 0]
    by (fastforce simp: after_call_def)
  have "replayed demo_game 2 ((\<lambda>_. [])(0 := [match_input 0], 1 := [match_input 1])) 1 = [[match_input 0, match_input 1]]"
    by (simp add: replayed_def good_sim_def demo_game_def frame_inputs_def input_for_def statuses_of_def MAX_PLAYERS_def
        numeral_eq_Suc upt_rec off_def connection_status_default_def)
  then show ?thesis using a b ready(4)[of 0] ready(4)[of 1] that by simp
qed

end
