(* ===== verification/Fault_Demo.thy ===== *)
theory Fault_Demo
  imports Two_Sessions Session_Demo
begin

text \<open>
  Reachable states of the concrete sessions in which the session does not do what its documentation
  promises: the two players of \<open>demo_builder\<close> some frames ahead of the inputs of the remote one, and
  the four players of \<open>many_builder\<close> when the inputs of all of them have arrived.
\<close>

section \<open>Two players, frames ahead\<close>

text \<open>Between two calls the tasks leave the remote peer as they like.\<close>

lemma demo_tasks:
  assumes r: "session_reachable demo_crates demo_views demo_game demo_builder (w, s)" and two: "seated 0 1 p s"
  shows "session_reachable demo_crates demo_views demo_game demo_builder
    (w, s\<lparr>se_players := [Local, Remote (demo_peer (PeerRunning 7) es)]\<rparr>)"
proof (rule session_reachable.step[OF r session_step.tasks])
  note two' = seatedD[OF two]
  show "length [Local, Remote (demo_peer (PeerRunning 7) es)] = length (se_players s)" using two'(1) by simp
  have rep: "session_rep demo_crates demo_views demo_game [] w s"
    by (rule session_reachable_ok(1)[OF demo_channels_ok demo_game_zero demo_playable r])
  then have "sy_player_count (se_sync s) = 2" using two'(1) by (simp add: session_rep_def)
  then have "player_rep demo_views w s 1" "sy_player_count (se_sync s) = 2" using rep by (simp_all add: session_rep_def)
  then have "pe_peer_connect_status p = statuses_of 2" using two'(6) by (simp add: player_rep_def Let_def)
  then have "task_change demo_views (Remote p) (Remote (demo_peer (PeerRunning 7) es))"
    by (simp add: task_change_def demo_peer_def demo_views_def)
  then show "\<forall>i < length [Local, Remote (demo_peer (PeerRunning 7) es)].
      task_change demo_views (se_players s ! i) ([Local, Remote (demo_peer (PeerRunning 7) es)] ! i)"
    using two'(5,6) by (simp add: less_Suc_eq task_change_def[of _ Local])
qed

definition demo_at :: "nat \<Rightarrow> (test_input, test_input list list) world \<Rightarrow>
    (test_input, test_input peer_event list_channel, message_data list_channel, message list_channel) session \<Rightarrow> bool" where
  "demo_at n w s \<longleftrightarrow> session_reachable demo_crates demo_views demo_game demo_builder (w, s) \<and>
     (\<exists>p. seated 0 1 p s) \<and> \<not> se_synchronizing s \<and> sy_frame_count (se_sync s) = int n \<and> wo_inputs w = demo_inputs \<and>
     delays (se_sync s) = [0, 0] \<and>
     se_local_connect_status s = [connection_status_default, connection_status_default\<lparr>cs_last_frame := 0\<rparr>]"

lemma demo_at_0: "\<exists>w s. demo_at 0 w s"
proof -
  obtain w s where d: "session_reachable demo_crates demo_views demo_game demo_builder (w, s)"
    "may_advance s" "se_players s = [Local, Remote demo_polled_peer]" "sy_frame_count (se_sync s) = 0"
    "wo_inputs w = demo_inputs" "map iq_frame_delay (sy_input_queues (se_sync s)) = [0, 0]"
    "se_local_connect_status s = [connection_status_default, connection_status_default\<lparr>cs_last_frame := 0\<rparr>]"
    by (rule demo_running_reachable)
  then have "demo_at 0 w s" by (auto simp: demo_at_def seated_def may_advance_def delays_def)
  then show ?thesis by blast
qed

lemma demo_at_queue:
  assumes "demo_at n w s" and q: "q = sy_input_queues (se_sync s) ! 1"
  shows "iq_frame_delay q = 0" and "iq_last_user_added_frame q = 0" and "iq_length q \<le> 1"
    and "sy_player_count (se_sync s) = 2" and "wo_sync w = se_sync s"
proof -
  obtain p where two: "seated 0 1 p s" and r: "session_reachable demo_crates demo_views demo_game demo_builder (w, s)"
    using assms(1) by (auto simp: demo_at_def)
  have rep: "session_rep demo_crates demo_views demo_game [] w s"
    by (rule session_reachable_ok(1)[OF demo_channels_ok demo_game_zero demo_playable r])
  then show n: "sy_player_count (se_sync s) = 2" "wo_sync w = se_sync s" using seatedD(1)[OF two] by (simp_all add: session_rep_def)
  then have "player_rep demo_views w s 1" using rep by (simp add: session_rep_def)
  then show "iq_last_user_added_frame q = 0" using assms by (simp add: player_rep_def Let_def demo_at_def)
  have len: "length (sy_input_queues (se_sync s)) = 2" using rep_queues[OF rep] n by simp
  then show "iq_frame_delay q = 0" using assms nth_map[of 1 "sy_input_queues (se_sync s)" iq_frame_delay]
    by (simp add: demo_at_def delays_def)
  have "queue_ok (gm_zero demo_game) (wo_inputs w 1) q"
    using rep n q by (auto simp: session_rep_def pending_def world_rep_def Let_def queue_inv_def tracks_def)
  then show "iq_length q \<le> 1"
    using assms(1) by (simp add: queue_ok_def indices_ok_def demo_at_def demo_inputs_def)
qed

lemma demo_at_Suc:
  assumes d: "demo_at n w s" and n: "n < 8"
  shows "\<exists>w s. demo_at (Suc n) w s"
proof -
  obtain p where two: "seated 0 1 p s" and r: "session_reachable demo_crates demo_views demo_game demo_builder (w, s)"
    using d by (auto simp: demo_at_def)
  let ?p = "demo_peer (PeerRunning 7) []"
  let ?s = "s\<lparr>se_players := [Local, Remote ?p]\<rparr>"
  have r1: "session_reachable demo_crates demo_views demo_game demo_builder (w, ?s)" by (rule demo_tasks[OF r two])
  have inv: "session_ok demo_crates demo_views demo_game (w, ?s)"
    using session_reachable_inv[OF demo_channels_ok demo_game_zero demo_playable r1] by simp
  note q = demo_at_queue[OF d refl]
  have adv: "may_advance ?s" using d n by (simp add: may_advance_def barred_def demo_at_def MAX_PREDICTION_FRAMES_def)
  have "peer_calm (int n + 1) ?p"
    by (rule peer_calm_bounded)
      (use n in \<open>auto simp: demo_peer_def peer_stats_default_def decoder_default_def last_decoded_frame_def
        NULL_FRAME_def\<close>, auto simp: time_sync_default_def)
  then have "players_calm (int n + 1) ?s" by (auto simp: players_calm_def less_Suc_eq nth_Cons')
  moreover have "leads_to demo_game 1 w [] [demo_input]"
    using q d by (auto simp: leads_to_def Let_def room_for_def demo_at_def demo_inputs_def i32_MAX_def MAX_ROLLBACK_FRAMES_def
        intro!: exI[of _ "[]"])
  then have "arriving demo_views demo_game w ?s demo_inputs 1" "arriving demo_views demo_game w ?s demo_inputs 0"
    using d by (simp_all add: arriving_def demo_inputs_def demo_peer_def demo_views_def demo_at_def)
  moreover have f: "sy_frame_count (se_sync ?s) = int n" using d by (simp add: demo_at_def)
  ultimately have may: "may_poll demo_views demo_game (sy_frame_count (se_sync ?s) + 1) demo_inputs (w, ?s)"
    using q(4) n by (auto simp: may_poll_def less_2_cases_iff RECOMMENDATION_INTERVAL_def i32_MAX_def)
  obtain cs s' store g store' where c: "session_advance_frame demo_crates (?s, wo_store w) = Some (cs, s', store)"
    "execute_all (gm_step demo_game) (gm_hash demo_game) cs (wo_state w, store) = Some (g, store')"
    "sy_frame_count (se_sync s') = sy_frame_count (se_sync ?s) + 1"
    by (rule advance_returns[OF demo_channels_ok inv adv may])
  let ?w = "after_call w demo_inputs g store' s'"
  have r2: "session_reachable demo_crates demo_views demo_game demo_builder (?w, s')"
    by (rule session_reachable.step[OF r1 session_step.advance[OF adv may c(1,2)]])
  have rep: "session_rep demo_crates demo_views demo_game [] ?w s'"
    by (rule session_reachable_ok(1)[OF demo_channels_ok demo_game_zero demo_playable r2])
  have "seated 0 1 ?p ?s" by (simp add: seated_def)
  from advance_result[OF demo_channels_ok inv adv may this c(1)] obtain p' sy where
    "seated 0 1 p' s'" "polled demo_crates demo_views 1 ?p (?s\<lparr>se_sync := sy\<rparr>) p' s'" "delays sy = delays (se_sync ?s)"
    by blast
  then have "demo_at (Suc n) ?w s'"
    using rep r2 c(3) d by (auto simp: demo_at_def session_rep_def polled_def after_call_def demo_peer_def demo_views_def)
  then show ?thesis by blast
qed

lemma demo_at_exists: "n \<le> 8 \<Longrightarrow> \<exists>w s. demo_at n w s"
  by (induction n) (use demo_at_0 demo_at_Suc in \<open>auto simp: Suc_le_eq\<close>)

text \<open>Three frames ahead, when two inputs arrive that were not predicted and the peer disconnects.\<close>

abbreviation demo_other :: test_input where
  "demo_other \<equiv> \<lparr>ti_x = 0, ti_y = 0\<rparr>"

definition demo_late :: "test_input peer_event list" where
  "demo_late = [PeerInputs [\<lparr>fi_frame = 1, fi_input = demo_other\<rparr>, \<lparr>fi_frame = 2, fi_input = demo_other\<rparr>]]"

lemma demo_late_reachable:
  obtains w s where "session_reachable demo_crates demo_views demo_game demo_builder (w, s)"
    and "se_players s = [Local, Remote (demo_peer (PeerRunning 7) demo_late)]" and "sy_frame_count (se_sync s) = 3"
    and "wo_inputs w 1 = [demo_input]" and "iq_frame_delay (sy_input_queues (se_sync s) ! 1) = 0"
    and "cs_last_frame (se_local_connect_status s ! 1) = 0"
    and "room_for (sy_input_queues (se_sync s) ! 1) [demo_input] 2"
proof -
  obtain w s where d: "demo_at 3 w s" using demo_at_exists[of 3] by auto
  then obtain p where two: "seated 0 1 p s" and r: "session_reachable demo_crates demo_views demo_game demo_builder (w, s)"
    by (auto simp: demo_at_def)
  note q = demo_at_queue[OF d refl]
  show ?thesis
    by (rule that[OF demo_tasks[OF r two, of demo_late]])
      (use d q in \<open>simp_all add: demo_at_def demo_inputs_def room_for_def Let_def i32_MAX_def MAX_ROLLBACK_FRAMES_def\<close>)
qed

section \<open>Four players\<close>

definition many_with ::
    "nat \<Rightarrow> test_input peer_event list \<Rightarrow>
       (test_input, test_input peer_event list_channel, message_data list_channel, message list_channel) peer" where
  "many_with i es = (many_peer i (PeerRunning 7))\<lparr>pe_events := \<lparr>lc_items = es, lc_closed = False\<rparr>\<rparr>"

definition many_players ::
    "(nat \<Rightarrow> test_input peer_event list) \<Rightarrow>
       (test_input, test_input peer_event list_channel, message_data list_channel, message list_channel) peer player_type list" where
  "many_players es = [Local, Remote (many_with 1 (es 1)), Remote (many_with 2 (es 2)), Remote (many_with 3 (es 3))]"

lemma many_players_at:
  "length (many_players es) = 4" "many_players es ! 0 = Local"
  "0 < i \<Longrightarrow> i < 4 \<Longrightarrow> many_players es ! i = Remote (many_with i (es i))"
  "0 < i \<Longrightarrow> i < 4 \<Longrightarrow> (many_players es)[i := Remote (many_with i evs)] = many_players (es(i := evs))"
  by (simp_all add: many_players_def, (auto simp: less_Suc_eq eval_nat_numeral)+)

text \<open>Between two calls the tasks leave the remote peers as they like.\<close>

lemma many_tasks:
  assumes r: "session_reachable demo_crates demo_views demo_game many_builder (w, s)"
  shows "session_reachable demo_crates demo_views demo_game many_builder (w, s\<lparr>se_players := many_players es\<rparr>)"
proof (rule session_reachable.step[OF r session_step.tasks])
  note ok = session_reachable_ok[OF demo_channels_ok demo_game_zero many_playable r]
  have n: "sy_player_count (se_sync s) = 4" using ok(5) by (simp add: many_builder_def)
  then have len: "length (se_players s) = 4" using ok(1) by (simp add: session_rep_def)
  then show "length (many_players es) = length (se_players s)" by (simp add: many_players_at)
  have roles: "map is_local (se_players s) = [True, False, False, False]"
    using ok(4) by (simp add: roles_def many_builder_def)
  show "\<forall>i < length (many_players es). task_change demo_views (se_players s ! i) (many_players es ! i)"
  proof (intro allI impI)
    fix i assume "i < length (many_players es)"
    then have i: "i < 4" by (simp add: many_players_at)
    have l: "is_local (se_players s ! i) = (i = 0)"
      using arg_cong[OF roles, of "\<lambda>l. l ! i"] i len by (auto simp: less_Suc_eq eval_nat_numeral)
    show "task_change demo_views (se_players s ! i) (many_players es ! i)"
    proof (cases "se_players s ! i")
      case Local
      then show ?thesis using l many_players_at(2)[of es] by (simp add: task_change_def)
    next
      case (Remote p)
      have "player_rep demo_views w s i" using ok(1) n i by (simp add: session_rep_def)
      then have "pe_peer_connect_status p = statuses_of 4" using Remote n by (simp add: player_rep_def Let_def)
      then show ?thesis
        using Remote l i by (simp add: many_players_at task_change_def many_with_def many_peer_def demo_peer_def demo_views_def)
    qed
  qed
qed

lemma many_calm: "\<bar>f\<bar> \<le> 1000 \<Longrightarrow> players_calm f (s\<lparr>se_players := many_players es\<rparr>)"
proof -
  assume f: "\<bar>f\<bar> \<le> 1000"
  have "peer_calm f (many_with i evs)" for i evs
    by (rule peer_calm_bounded)
      (use f in \<open>auto simp: many_with_def many_peer_def demo_peer_def peer_stats_default_def decoder_default_def
        last_decoded_frame_def NULL_FRAME_def\<close>, auto simp: time_sync_default_def)
  then show ?thesis by (auto simp: players_calm_def many_players_def less_Suc_eq nth_Cons')
qed

text \<open>What arrives at a session whose remote players have given no input so far.\<close>

definition untouched :: "'i input_queue \<Rightarrow> bool" where
  "untouched q \<longleftrightarrow> iq_frame_delay q = 0 \<and> iq_last_user_added_frame q = NULL_FRAME \<and> iq_length q = 0"

lemma many_may_poll:
  assumes w: "wo_sync w = se_sync s" "wo_inputs w = (\<lambda>_. [])(0 := h)" and n: "sy_player_count (se_sync s) = 4"
    and q: "\<And>i. 0 < i \<Longrightarrow> i < 4 \<Longrightarrow> untouched (sy_input_queues (se_sync s) ! i)"
    and es: "\<And>i. 0 < i \<Longrightarrow> i < 4 \<Longrightarrow> event_inputs (es i) = numbered 0 xs" and xs: "length xs \<le> 1" and f: "0 \<le> f" "f \<le> 1"
  shows "may_poll demo_views demo_game f ((\<lambda>_. xs)(0 := h)) (w, s\<lparr>se_players := many_players es\<rparr>)"
proof -
  have "arriving demo_views demo_game w (s\<lparr>se_players := many_players es\<rparr>) ((\<lambda>_. xs)(0 := h)) i" if "i < 4" for i
  proof (cases "i = 0")
    case True
    then show ?thesis using w by (simp add: arriving_def many_players_at)
  next
    case False
    have "accept_all (gm_zero demo_game) 0 0 xs [] = xs"
      using xs by (cases xs) (simp_all add: queue_accept_def)
    then have "leads_to demo_game i w (es i) xs"
      unfolding leads_to_def Let_def using False that q[of i] w es[of i] xs
      by (intro exI[of _ xs]) (simp add: untouched_def room_for_def NULL_FRAME_def i32_MAX_def MAX_ROLLBACK_FRAMES_def)
    then show ?thesis
      using False that by (simp add: arriving_def many_players_at many_with_def demo_views_def)
  qed
  then show ?thesis
    using n f many_calm[of f] by (simp add: may_poll_def RECOMMENDATION_INTERVAL_def i32_MAX_def)
qed

text \<open>The first poll, when the handshakes are over.\<close>

definition many_waiting ::
    "(test_input, test_input peer_event list_channel, message_data list_channel, message list_channel) session" where
  "many_waiting = (many_session (PeerRunning 7))\<lparr>se_players := many_players ((\<lambda>_. [])(1 := [PeerSynchronized]))\<rparr>"

lemma many_flushed:
  "flush_events demo_crates ([], many_waiting, st) = Some ([Event (Synchronized 1), Event Running],
     many_waiting\<lparr>se_players := many_players (\<lambda>_. []), se_synchronizing := False\<rparr>, st)"
proof -
  let ?s = "many_waiting\<lparr>se_players := many_players (\<lambda>_. [])\<rparr>"
  let ?cs = "[Event (Synchronized 1), Event Running]"
  have recv: "chan_try_recv (cr_events demo_crates) \<lparr>lc_items = e # es, lc_closed = False\<rparr> =
      (Inr e, \<lparr>lc_items = es, lc_closed = False\<rparr>)"
    "chan_try_recv (cr_events demo_crates) \<lparr>lc_items = [], lc_closed = False\<rparr> =
      (Inl TryRecvEmpty, \<lparr>lc_items = [], lc_closed = False\<rparr>)" for e es
    by (simp_all add: demo_crates_def list_channels_def)
  have peer: "(many_with i es)\<lparr>pe_events := \<lparr>lc_items = es', lc_closed = False\<rparr>\<rparr> = many_with i es'"
    "pe_events (many_with i es) = \<lparr>lc_items = es, lc_closed = False\<rparr>" for i es es'
    by (simp_all add: many_with_def)
  have quiet: "flush_peer_events demo_crates i (cs, s, st) = Some (cs, s, st)"
    if "se_players s = many_players (\<lambda>_. [])" "0 < i" "i < 4" for i cs s
  proof -
    have "s\<lparr>se_players := (many_players (\<lambda>_. []))[i := Remote (many_with i [])]\<rparr> = s"
      using that by (simp add: many_players_at fun_upd_idem)
    then show ?thesis
      using flush_peer_done[of i s "many_with i []" demo_crates "\<lparr>lc_items = [], lc_closed = False\<rparr>" cs st] that
      by (simp add: recv peer many_players_at)
  qed
  have synced: "check_initial_sync ([Event (Synchronized 1)], ?s, st) = Some (?cs, ?s\<lparr>se_synchronizing := False\<rparr>, st)"
    by (simp add: check_initial_sync.simps session_is_synchronized_def many_waiting_def many_session_def many_players_def
        many_with_def many_peer_def demo_peer_def player_is_synchronized_def peer_is_running_def)
  have moved: "(many_players ((\<lambda>_. [])(1 := [PeerSynchronized])))[1 := Remote (many_with 1 [])] = many_players (\<lambda>_. [])"
    using many_players_at(4)[of 1 "(\<lambda>_. [])(1 := [PeerSynchronized])" "[]"] by (simp add: fun_upd_idem)
  have "flush_peer_events demo_crates 1 ([], many_waiting, st) =
      do { run \<leftarrow> handle_event 1 PeerSynchronized ([], ?s, st); flush_peer_events demo_crates 1 run }"
    using flush_peer_step[of 1 many_waiting "many_with 1 [PeerSynchronized]" demo_crates PeerSynchronized
        "\<lparr>lc_items = [], lc_closed = False\<rparr>" "[]" st] moved
    by (simp add: recv peer many_waiting_def many_players_at del: handle_event.simps One_nat_def)
  also have "\<dots> = Some (?cs, ?s\<lparr>se_synchronizing := False\<rparr>, st)"
    using synced quiet[of "?s\<lparr>se_synchronizing := False\<rparr>" 1 ?cs] by simp
  finally have one: "flush_peer_events demo_crates 1 ([], many_waiting, st) = Some (?cs, ?s\<lparr>se_synchronizing := False\<rparr>, st)" .
  have players: "se_players many_waiting = many_players ((\<lambda>_. [])(1 := [PeerSynchronized]))" by (simp add: many_waiting_def)
  show ?thesis
    using one quiet[of "?s\<lparr>se_synchronizing := False\<rparr>" 2 ?cs] quiet[of "?s\<lparr>se_synchronizing := False\<rparr>" 3 ?cs]
    by (simp add: flush_events_def players many_players_def numeral_2_eq_2 numeral_3_eq_3)
qed

definition many_ready :: "test_input list \<Rightarrow> (test_input, test_input list list) world \<Rightarrow>
    (test_input, test_input peer_event list_channel, message_data list_channel, message list_channel) session \<Rightarrow> bool" where
  "many_ready h w s \<longleftrightarrow> session_reachable demo_crates demo_views demo_game many_builder (w, s) \<and>
     \<not> se_synchronizing s \<and> sy_frame_count (se_sync s) = 0 \<and> sy_last_confirmed_frame (se_sync s) = NULL_FRAME \<and>
     wo_inputs w = (\<lambda>_. [])(0 := h) \<and> (\<forall>i < 4. i = 0 \<and> h \<noteq> [] \<or> untouched (sy_input_queues (se_sync s) ! i))"

lemma many_polled: "\<exists>w s. many_ready [] w s"
proof -
  let ?w = "world_new demo_game 4 0"
  have r: "session_reachable demo_crates demo_views demo_game many_builder (?w, many_waiting)"
    unfolding many_waiting_def by (rule many_tasks[OF many_reachable])
  have inv: "session_ok demo_crates demo_views demo_game (?w, many_waiting)"
    using session_reachable_inv[OF demo_channels_ok demo_game_zero many_playable r] by blast
  have sync: "se_sync many_waiting = sync_new (pod_zeroed test_pod) 4 0" "sy_frame_count (se_sync many_waiting) = 0"
    "sy_player_count (se_sync many_waiting) = 4" "sy_last_confirmed_frame (se_sync many_waiting) = NULL_FRAME"
    "se_local_connect_status many_waiting = statuses_of 4" "delays (se_sync many_waiting) = [0, 0, 0, 0]"
    by (simp_all add: many_waiting_def many_session_def sync_new_def delays_def create_queues_def eval_nat_numeral)
  have idem: "(\<lambda>_. [])(0 := []) = (\<lambda>_ :: nat. [] :: test_input list)" by (rule fun_upd_idem) simp
  have "may_poll demo_views demo_game 0 ((\<lambda>_. [])(0 := [])) (?w, (many_session (PeerRunning 7))\<lparr>se_players :=
      many_players ((\<lambda>_. [])(1 := [PeerSynchronized]))\<rparr>)"
    by (rule many_may_poll)
      (auto simp: many_session_def world_new_def sync_new_def create_queues_def untouched_def queue_new_def demo_game_def)
  then have may: "may_poll demo_views demo_game (sy_frame_count (se_sync many_waiting)) (\<lambda>_. []) (?w, many_waiting)"
    unfolding many_waiting_def[symmetric] idem sync(2) .
  obtain cs s' store g store' where c: "session_poll demo_crates (many_waiting, wo_store ?w) = Some (cs, s', store)"
    "execute_all (gm_step demo_game) (gm_hash demo_game) cs (wo_state ?w, store) = Some (g, store')"
    "session_ok demo_crates demo_views demo_game (after_call ?w (\<lambda>_. []) g store' s', s')"
    "sy_frame_count (se_sync s') = sy_frame_count (se_sync many_waiting)"
    by (rule poll_returns[OF demo_channels_ok inv may])
  let ?w' = "after_call ?w (\<lambda>_. []) g store' s'"
  have r': "session_reachable demo_crates demo_views demo_game many_builder (?w', s')"
    by (rule session_reachable.step[OF r session_step.poll[OF may c(1,2)]])
  note ok = session_reachable_ok[OF demo_channels_ok demo_game_zero many_playable r']
  have n: "sy_player_count (se_sync s') = 4" using ok(5) by (simp add: many_builder_def)
  have "routine_call demo_crates (many_waiting\<lparr>se_players := many_players (\<lambda>_. []), se_synchronizing := False\<rparr>) s'"
    by (rule do_poll_routine[OF demo_channels_ok, of demo_game "[]" ?w many_waiting "\<lambda>_. []"])
      (use inv may c(1) many_flushed in \<open>simp_all add: session_ok_def may_poll_def session_poll_def loads_def\<close>)
  then have same: "\<not> se_synchronizing s'" "se_local_connect_status s' = statuses_of 4" "delays (se_sync s') = [0, 0, 0, 0]"
    using sync by (simp_all add: routine_call_def)
  have rem: "2 < length (remote_peers many_waiting)"
    "Remote (many_with 2 []) \<in> set (se_players many_waiting)" "peer_is_running (many_with 2 [])"
    by (simp_all add: many_waiting_def many_players_def remote_peers_def map_filter_def peer_is_running_def many_with_def
        many_peer_def demo_peer_def)
  have conf: "sy_last_confirmed_frame (se_sync s') = NULL_FRAME"
    using poll_confirms_nothing[OF demo_channels_ok inv may rem c(1)] sync by simp
  have "untouched (sy_input_queues (se_sync s') ! i)" if i: "i < 4" for i
  proof -
    have len: "length (sy_input_queues (se_sync s')) = 4" using rep_queues[OF ok(1)] n by simp
    have "player_rep demo_views ?w' s' i" using ok(1) n i by (simp add: session_rep_def)
    then have "iq_last_user_added_frame (sy_input_queues (se_sync s') ! i) = NULL_FRAME"
      using same(2) i by (simp add: player_rep_def Let_def connection_status_default_def)
    moreover have "queue_ok (gm_zero demo_game) (wo_inputs ?w' i) (sy_input_queues (se_sync s') ! i)"
      using ok(1) n i by (auto simp: session_rep_def pending_def world_rep_def Let_def queue_inv_def tracks_def)
    then have "iq_length (sy_input_queues (se_sync s') ! i) = 0"
      by (simp add: queue_ok_def indices_ok_def after_call_def)
    moreover have "delays (se_sync s') ! i = 0" using same(3) i by (auto simp: less_Suc_eq eval_nat_numeral)
    then have "iq_frame_delay (sy_input_queues (se_sync s') ! i) = 0" using len i by (simp add: delays_def)
    ultimately show ?thesis by (simp add: untouched_def)
  qed
  then have "many_ready [] ?w' s'"
    using r' same(1) c(4) sync(2) conf by (auto simp: many_ready_def after_call_def)
  then show ?thesis by blast
qed

lemma add_local_input_sync:
  assumes "add_local_input X i x s = Some (r, s')"
  obtains q where "se_sync s' = (se_sync s)\<lparr>sy_input_queues := (sy_input_queues (se_sync s))[i := q]\<rparr>"
    and "se_synchronizing s' = se_synchronizing s"
proof -
  have "(\<exists>q. se_sync s' = (se_sync s)\<lparr>sy_input_queues := (sy_input_queues (se_sync s))[i := q]\<rparr>) \<and>
      se_synchronizing s' = se_synchronizing s"
  proof (cases "s' = s")
    case True
    then show ?thesis by (intro conjI exI[of _ "sy_input_queues (se_sync s) ! i"]) simp_all
  next
    case False
    then show ?thesis
      using assms
      by (auto simp: add_local_input_def sync_add_local_input_def player_handle_to_queue_def bind_eq_Some_conv Let_def
          split: if_split_asm sum.split_asm intro: exI[of _ "sy_input_queues (se_sync s) ! i"])
  qed
  then show ?thesis using that by blast
qed

text \<open>The local player gives its input of frame 0.\<close>

lemma many_given: "\<exists>w s. many_ready [demo_input] w s \<and> cs_last_frame (se_local_connect_status s ! 0) = 0"
proof -
  obtain w s0 where d: "many_ready [] w s0" using many_polled by blast
  let ?s = "s0\<lparr>se_players := many_players (\<lambda>_. [])\<rparr>"
  have r: "session_reachable demo_crates demo_views demo_game many_builder (w, ?s)"
    using d by (intro many_tasks) (simp add: many_ready_def)
  note ok = session_reachable_ok[OF demo_channels_ok demo_game_zero many_playable r]
  have n: "sy_player_count (se_sync ?s) = 4" using ok(5) by (simp add: many_builder_def)
  have sync: "wo_sync w = se_sync ?s" using ok(1) by (simp add: session_rep_def)
  have f: "sy_frame_count (se_sync ?s) = 0" and run: "\<not> se_synchronizing ?s" and h: "wo_inputs w = (\<lambda>_. [])"
    and q: "\<And>i. i < 4 \<Longrightarrow> untouched (sy_input_queues (se_sync ?s) ! i)"
    using d by (auto simp: many_ready_def)
  have bar: "\<not> barred (se_sync ?s)" using f by (simp add: barred_def MAX_PREDICTION_FRAMES_def)
  have due: "local_input_due w 0 0"
    using q[of 0] f n sync h
    by (simp add: local_input_due_def input_fits_def untouched_def in_i32_def MAX_ROLLBACK_FRAMES_def i32_MAX_def Let_def)
  have fits: "can_send demo_crates demo_input ?s"
    by (auto simp: can_send_def many_players_def many_with_def many_peer_def demo_peer_def packet_fits_def encoder_default_def
        demo_crates_def test_pod_def MAX_BUFFER_SIZE_def)
  have codec: "packet_codec (cr_varint demo_crates) (cr_pod demo_crates)"
    using test_codec.packet_codec_axioms by (simp add: demo_crates_def)
  have loc: "se_players ?s ! 0 = Local" by (simp add: many_players_at)
  obtain ret s' where res: "add_local_input demo_crates 0 demo_input ?s = Some (ret, s')"
    using add_local_input_returns[OF codec demo_channels_ok ok(1,2) run loc due bar fits] by (metis surj_pair)
  obtain q0 where q0: "se_sync s' = (se_sync ?s)\<lparr>sy_input_queues := (sy_input_queues (se_sync ?s))[0 := q0]\<rparr>"
    "se_synchronizing s' = se_synchronizing ?s"
    by (rule add_local_input_sync[OF res])
  let ?w = "w\<lparr>wo_sync := se_sync s', wo_inputs := accept_input demo_game 0 0 demo_input (wo_inputs w)\<rparr>"
  have r': "session_reachable demo_crates demo_views demo_game many_builder (?w, s')"
    by (rule session_reachable.step[OF r session_step.local_input[OF run bar loc due res]])
  have inputs: "wo_inputs ?w = (\<lambda>_. [])(0 := [demo_input])"
    by (simp add: h accept_input_def queue_accept_def)
  have "i = 0 \<or> untouched (sy_input_queues (se_sync s') ! i)" if "i < 4" for i
    using q[OF that] q0(1) by (cases "i = 0") simp_all
  then have "many_ready [demo_input] ?w s'"
    using r' run q0 f d inputs unfolding many_ready_def by simp
  moreover have "cs_last_frame (se_local_connect_status s' ! 0) = 0"
    using add_local_input_ok(5)[OF demo_channels_ok ok(1,2) run loc due bar res] f by simp
  ultimately show ?thesis by blast
qed

lemma many_given_rep:
  assumes "many_ready h w s"
  shows "session_rep demo_crates demo_views demo_game [] w s" and "sy_player_count (se_sync s) = 4" and "wo_sync w = se_sync s"
proof -
  have r: "session_reachable demo_crates demo_views demo_game many_builder (w, s)"
    using assms by (simp add: many_ready_def)
  note ok = session_reachable_ok[OF demo_channels_ok demo_game_zero many_playable r]
  show "session_rep demo_crates demo_views demo_game [] w s" by (rule ok(1))
  then show "sy_player_count (se_sync s) = 4" "wo_sync w = se_sync s"
    using ok(5) by (simp_all add: many_builder_def session_rep_def)
qed

text \<open>Those of all others are waiting.\<close>

definition many_arrived :: "nat \<Rightarrow> test_input peer_event list" where
  "many_arrived = (\<lambda>_. [PeerInputs [\<lparr>fi_frame = 0, fi_input = demo_input\<rparr>]])"

lemma many_arrived_reachable:
  obtains w s where "session_reachable demo_crates demo_views demo_game many_builder (w, s)"
    and "\<not> se_synchronizing s" and "se_players s = many_players many_arrived"
    and "cs_last_frame (se_local_connect_status s ! 0) = 0" and "current_frame s = 0"
    and "sy_last_confirmed_frame (se_sync s) = NULL_FRAME"
    and "may_poll demo_views demo_game 0 (\<lambda>_. [demo_input]) (w, s)"
proof -
  obtain w s where d: "many_ready [demo_input] w s" "cs_last_frame (se_local_connect_status s ! 0) = 0"
    using many_given by blast
  let ?t = "s\<lparr>se_players := many_players many_arrived\<rparr>"
  have r: "session_reachable demo_crates demo_views demo_game many_builder (w, ?t)"
    using d(1) by (intro many_tasks) (simp add: many_ready_def)
  have "may_poll demo_views demo_game 0 ((\<lambda>_. [demo_input])(0 := [demo_input])) (w, ?t)"
    by (rule many_may_poll) (use d(1) many_given_rep[OF d(1)] in \<open>auto simp: many_ready_def many_arrived_def\<close>)
  then have "may_poll demo_views demo_game 0 (\<lambda>_. [demo_input]) (w, ?t)" by (simp add: fun_upd_idem)
  then show ?thesis
    using r d by (intro that[of w ?t]) (simp_all add: many_ready_def current_frame_def)
qed

text \<open>Nothing has arrived, and the session is one frame ahead.\<close>

lemma many_ahead_reachable:
  obtains w s where "session_reachable demo_crates demo_views demo_game many_builder (w, s)"
    and "se_players s = many_players (\<lambda>_. [])" and "current_frame s = 1" and "wo_inputs w 0 = [demo_input]"
    and "cs_last_frame (se_local_connect_status s ! 1) = NULL_FRAME" and "session_player_count s = 4"
proof -
  obtain w s where d: "many_ready [demo_input] w s" using many_given by blast
  note rep = many_given_rep[OF d]
  let ?t = "s\<lparr>se_players := many_players (\<lambda>_. [])\<rparr>" and ?h = "(\<lambda>_. [])(0 := [demo_input])"
  have r: "session_reachable demo_crates demo_views demo_game many_builder (w, ?t)"
    using d by (intro many_tasks) (simp add: many_ready_def)
  have inv: "session_ok demo_crates demo_views demo_game (w, ?t)"
    using session_reachable_inv[OF demo_channels_ok demo_game_zero many_playable r] by blast
  have f: "sy_frame_count (se_sync ?t) = 0" using d by (simp add: many_ready_def)
  then have adv: "may_advance ?t"
    using d by (simp add: may_advance_def many_ready_def barred_def MAX_PREDICTION_FRAMES_def)
  have "may_poll demo_views demo_game 1 ?h (w, ?t)"
    by (rule many_may_poll) (use d rep in \<open>auto simp: many_ready_def\<close>)
  then have may: "may_poll demo_views demo_game (sy_frame_count (se_sync ?t) + 1) ?h (w, ?t)" using f by simp
  obtain cs s' store g store' where c: "session_advance_frame demo_crates (?t, wo_store w) = Some (cs, s', store)"
    "execute_all (gm_step demo_game) (gm_hash demo_game) cs (wo_state w, store) = Some (g, store')"
    "sy_frame_count (se_sync s') = sy_frame_count (se_sync ?t) + 1"
    by (rule advance_returns[OF demo_channels_ok inv adv may])
  let ?w = "after_call w ?h g store' s'" and ?s = "s'\<lparr>se_players := many_players (\<lambda>_. [])\<rparr>"
  have r': "session_reachable demo_crates demo_views demo_game many_builder (?w, ?s)"
    by (rule many_tasks[OF session_reachable.step[OF r session_step.advance[OF adv may c(1,2)]]])
  note ok = session_reachable_ok[OF demo_channels_ok demo_game_zero many_playable r']
  have n: "sy_player_count (se_sync ?s) = 4" using ok(5) by (simp add: many_builder_def)
  then have "player_rep demo_views ?w ?s 1" using ok(1) by (simp add: session_rep_def)
  then have "cs_last_frame (se_local_connect_status ?s ! 1) = NULL_FRAME"
    by (auto simp: player_rep_def Let_def after_call_def NULL_FRAME_def)
  then show ?thesis
    using r' n c(3) f
    by (intro that[of ?w ?s]) (simp_all add: current_frame_def session_player_count_def after_call_def)
qed

end
