(* ===== verification/Transport.thy ===== *)
theory Transport
  imports Peer_State "HOL-Library.Sublist"
begin

text \<open>
  \<^verbatim>\<open>src/backroll_transport/src/channel.rs\<close>: the two-way channel that connects a session with a transport
  (\<^verbatim>\<open>peer.rs\<close> wraps it for packets). Both ends and all their clones share the queues, so the queues live
  in a heap and a handle is an address. The queues themselves (\<^verbatim>\<open>async_channel\<close>) are code outside the
  repository: their operations are parameters, and their documented behaviour is stated by a locale.
\<close>

section \<open>Queues\<close>

text \<open>What the documentation of \<^verbatim>\<open>async_channel\<close> speaks of: a queue, its capacity, whether it is closed,
  and how many handles of each kind there are; the last handle of a kind closes the queue when it is dropped.\<close>

record 'm chan_view =
  cv_items :: "'m list"
  cv_cap :: "nat option"
  cv_closed :: bool
  cv_senders :: nat
  cv_receivers :: nat

definition fresh_view :: "nat option \<Rightarrow> 'm chan_view" where
  "fresh_view limit = \<lparr>cv_items = [], cv_cap = limit, cv_closed = False, cv_senders = 1, cv_receivers = 1\<rparr>"

definition full_view :: "'m chan_view \<Rightarrow> bool" where
  "full_view v \<longleftrightarrow> (case cv_cap v of None \<Rightarrow> False | Some n \<Rightarrow> n \<le> length (cv_items v))"

lemma full_view_senders [simp]: "full_view (v\<lparr>cv_senders := n\<rparr>) = full_view v"
  by (simp add: full_view_def split: option.split)

definition view_send :: "'m \<Rightarrow> 'm chan_view \<Rightarrow> (try_send_error + unit) \<times> 'm chan_view" where
  "view_send x v =
     (if cv_closed v then (Inl TrySendClosed, v) else if full_view v then (Inl TrySendFull, v)
      else (Inr (), v\<lparr>cv_items := cv_items v @ [x]\<rparr>))"

definition view_recv :: "'m chan_view \<Rightarrow> (try_recv_error + 'm) \<times> 'm chan_view" where
  "view_recv v =
     (case cv_items v of
        [] \<Rightarrow> (Inl (if cv_closed v then TryRecvClosed else TryRecvEmpty), v)
      | x # xs \<Rightarrow> (Inr x, v\<lparr>cv_items := xs\<rparr>))"

definition view_close :: "'m chan_view \<Rightarrow> 'm chan_view" where
  "view_close v = v\<lparr>cv_closed := True\<rparr>"

definition view_drop_sender :: "'m chan_view \<Rightarrow> 'm chan_view" where
  "view_drop_sender v = v\<lparr>cv_senders := cv_senders v - 1, cv_closed := cv_closed v \<or> cv_senders v \<le> 1\<rparr>"

definition view_drop_receiver :: "'m chan_view \<Rightarrow> 'm chan_view" where
  "view_drop_receiver v = v\<lparr>cv_receivers := cv_receivers v - 1, cv_closed := cv_closed v \<or> cv_receivers v \<le> 1\<rparr>"

record ('m, 'c) async_crate = "('m, 'c) channel_crate" +
  ac_unbounded :: 'c
  ac_bounded :: "nat \<Rightarrow> 'c option"
  ac_is_closed :: "'c \<Rightarrow> bool"
  ac_clone_sender :: "'c \<Rightarrow> 'c"
  ac_clone_receiver :: "'c \<Rightarrow> 'c"
  ac_drop_sender :: "'c \<Rightarrow> 'c"
  ac_drop_receiver :: "'c \<Rightarrow> 'c"

section \<open>\<open>BidirectionalAsyncChannel\<close>\<close>

type_synonym addr = nat

record tpeer =
  tp_incoming :: addr
  tp_outgoing :: addr

text \<open>A pair of handles is the sender and the receiver of one queue.\<close>

definition create_pair :: "addr \<times> addr \<Rightarrow> addr \<times> addr \<Rightarrow> tpeer \<times> tpeer" where
  "create_pair a b =
     (\<lparr>tp_incoming = snd a, tp_outgoing = fst b\<rparr>, \<lparr>tp_incoming = snd b, tp_outgoing = fst a\<rparr>)"

definition create_unbounded_pair :: "('m, 'c) async_crate \<Rightarrow> 'c list \<Rightarrow> (tpeer \<times> tpeer) \<times> 'c list" where
  "create_unbounded_pair A hp =
     (let n = length hp in (create_pair (n, n) (n + 1, n + 1), hp @ [ac_unbounded A, ac_unbounded A]))"

definition create_bounded_pair ::
    "('m, 'c) async_crate \<Rightarrow> nat \<Rightarrow> 'c list \<Rightarrow> ((tpeer \<times> tpeer) \<times> 'c list) option" where
  "create_bounded_pair A capacity hp =
     do { let n = length hp;
          a \<leftarrow> ac_bounded A capacity;
          b \<leftarrow> ac_bounded A capacity;
          Some (create_pair (n, n) (n + 1, n + 1), hp @ [a, b]) }"

definition on_queue :: "('c \<Rightarrow> 'r \<times> 'c) \<Rightarrow> addr \<Rightarrow> 'c list \<Rightarrow> 'r \<times> 'c list" where
  "on_queue f i hp = (let r = f (hp ! i) in (fst r, hp[i := snd r]))"

definition change_queue :: "('c \<Rightarrow> 'c) \<Rightarrow> addr \<Rightarrow> 'c list \<Rightarrow> 'c list" where
  "change_queue f i hp = hp[i := f (hp ! i)]"

definition tp_try_send ::
    "('m, 'c) async_crate \<Rightarrow> tpeer \<Rightarrow> 'm \<Rightarrow> 'c list \<Rightarrow> (try_send_error + unit) \<times> 'c list" where
  "tp_try_send A p message = on_queue (chan_try_send A message) (tp_outgoing p)"

definition tp_try_recv ::
    "('m, 'c) async_crate \<Rightarrow> tpeer \<Rightarrow> 'c list \<Rightarrow> (try_recv_error + 'm) \<times> 'c list" where
  "tp_try_recv A p = on_queue (chan_try_recv A) (tp_incoming p)"

definition tp_is_connected :: "('m, 'c) async_crate \<Rightarrow> tpeer \<Rightarrow> 'c list \<Rightarrow> bool" where
  "tp_is_connected A p hp \<longleftrightarrow> \<not> ac_is_closed A (hp ! tp_incoming p) \<and> \<not> ac_is_closed A (hp ! tp_outgoing p)"

definition tp_disconnect :: "('m, 'c) async_crate \<Rightarrow> tpeer \<Rightarrow> 'c list \<Rightarrow> 'c list" where
  "tp_disconnect A p hp =
     change_queue (chan_close A) (tp_incoming p) (change_queue (chan_close A) (tp_outgoing p) hp)"

definition tp_sender :: "('m, 'c) async_crate \<Rightarrow> tpeer \<Rightarrow> 'c list \<Rightarrow> addr \<times> 'c list" where
  "tp_sender A p hp = (tp_outgoing p, change_queue (ac_clone_sender A) (tp_outgoing p) hp)"

definition tp_reciever :: "('m, 'c) async_crate \<Rightarrow> tpeer \<Rightarrow> 'c list \<Rightarrow> addr \<times> 'c list" where
  "tp_reciever A p hp = (tp_incoming p, change_queue (ac_clone_receiver A) (tp_incoming p) hp)"

definition tp_pending_send_count :: "('m, 'c) async_crate \<Rightarrow> tpeer \<Rightarrow> 'c list \<Rightarrow> nat" where
  "tp_pending_send_count A p hp = chan_len A (hp ! tp_outgoing p)"

definition tp_pending_recv_count :: "('m, 'c) async_crate \<Rightarrow> tpeer \<Rightarrow> 'c list \<Rightarrow> nat" where
  "tp_pending_recv_count A p hp = chan_len A (hp ! tp_incoming p)"

text \<open>The derived \<open>Clone\<close>, and what happens when a channel goes out of scope.\<close>

definition tp_clone :: "('m, 'c) async_crate \<Rightarrow> tpeer \<Rightarrow> 'c list \<Rightarrow> 'c list" where
  "tp_clone A p hp = snd (tp_sender A p (snd (tp_reciever A p hp)))"

definition tp_drop :: "('m, 'c) async_crate \<Rightarrow> tpeer \<Rightarrow> 'c list \<Rightarrow> 'c list" where
  "tp_drop A p hp =
     change_queue (ac_drop_sender A) (tp_outgoing p) (change_queue (ac_drop_receiver A) (tp_incoming p) hp)"

section \<open>The contract of the queues\<close>

text \<open>Every operation of the queue does to what it holds what the documentation says.\<close>

locale async_queue =
  fixes A :: "('m, 'c) async_crate" and look :: "'c \<Rightarrow> 'm chan_view"
  assumes try_send: "map_prod id look (chan_try_send A x c) = view_send x (look c)"
    and try_recv: "map_prod id look (chan_try_recv A c) = view_recv (look c)"
    and close: "look (chan_close A c) = view_close (look c)"
    and len: "chan_len A c = length (cv_items (look c))"
    and unbounded: "look (ac_unbounded A) = fresh_view None"
    and bounded_zero: "ac_bounded A 0 = None"
    and bounded_room: "0 < n \<Longrightarrow> \<exists>c. ac_bounded A n = Some c \<and> look c = fresh_view (Some n)"
    and closed: "ac_is_closed A c = cv_closed (look c)"
    and clone_sender: "look (ac_clone_sender A c) = (look c)\<lparr>cv_senders := cv_senders (look c) + 1\<rparr>"
    and clone_receiver: "look (ac_clone_receiver A c) = (look c)\<lparr>cv_receivers := cv_receivers (look c) + 1\<rparr>"
    and drop_sender: "look (ac_drop_sender A c) = view_drop_sender (look c)"
    and drop_receiver: "look (ac_drop_receiver A c) = view_drop_receiver (look c)"
begin

lemma look_try_send: "fst (chan_try_send A x c) = fst (view_send x (look c))"
  "look (snd (chan_try_send A x c)) = snd (view_send x (look c))"
  by (simp_all flip: try_send)

lemma look_try_recv: "fst (chan_try_recv A c) = fst (view_recv (look c))"
  "look (snd (chan_try_recv A c)) = snd (view_recv (look c))"
  by (simp_all flip: try_recv)

lemmas look_simps = look_try_send look_try_recv close len unbounded closed clone_sender clone_receiver
  drop_sender drop_receiver

end

text \<open>The queues that are their own description keep the contract.\<close>

definition view_queues :: "('m, 'm chan_view) async_crate" where
  "view_queues =
     \<lparr>chan_try_send = view_send, chan_try_recv = view_recv, chan_close = view_close, chan_len = (\<lambda>v. length (cv_items v)),
      ac_unbounded = fresh_view None, ac_bounded = (\<lambda>n. if n = 0 then None else Some (fresh_view (Some n))),
      ac_is_closed = cv_closed, ac_clone_sender = (\<lambda>v. v\<lparr>cv_senders := cv_senders v + 1\<rparr>),
      ac_clone_receiver = (\<lambda>v. v\<lparr>cv_receivers := cv_receivers v + 1\<rparr>),
      ac_drop_sender = view_drop_sender, ac_drop_receiver = view_drop_receiver\<rparr>"

interpretation view_queue: async_queue view_queues id
  by unfold_locales (simp_all add: view_queues_def prod.map_id)

section \<open>The two ends of a channel\<close>

definition handles :: "tpeer \<Rightarrow> addr set" where
  "handles p = {tp_incoming p, tp_outgoing p}"

text \<open>\<open>b\<close> is the other end of \<open>a\<close>.\<close>

definition linked :: "tpeer \<Rightarrow> tpeer \<Rightarrow> 'c list \<Rightarrow> bool" where
  "linked a b hp \<longleftrightarrow> tp_outgoing a = tp_incoming b \<and> tp_incoming a = tp_outgoing b \<and>
     tp_incoming a \<noteq> tp_outgoing a \<and> (\<forall>i \<in> handles a. i < length hp)"

lemma linked_handles: "linked a b hp \<Longrightarrow> handles b = handles a"
  by (auto simp: linked_def handles_def)

lemma linked_sym: "linked a b hp \<Longrightarrow> linked b a hp"
  by (auto simp: linked_def handles_def)

lemma change_queue_simps [simp]:
  "length (change_queue f i hp) = length hp"
  "j \<noteq> i \<Longrightarrow> change_queue f i hp ! j = hp ! j"
  "i < length hp \<Longrightarrow> change_queue f i hp ! i = f (hp ! i)"
  by (simp_all add: change_queue_def)

lemma change_queue_nth: "change_queue f j hp ! i = (if i = j \<and> j < length hp then f (hp ! i) else hp ! i)"
  by (cases "j < length hp") (simp_all add: change_queue_def nth_list_update list_update_beyond)

lemma on_queue_simps [simp]:
  "fst (on_queue f i hp) = fst (f (hp ! i))" "length (snd (on_queue f i hp)) = length hp"
  "j \<noteq> i \<Longrightarrow> snd (on_queue f i hp) ! j = hp ! j"
  "i < length hp \<Longrightarrow> snd (on_queue f i hp) ! i = snd (f (hp ! i))"
  by (simp_all add: on_queue_def Let_def)

lemma snd_on_queue: "snd (on_queue f i hp) = change_queue (\<lambda>c. snd (f c)) i hp"
  by (simp add: on_queue_def change_queue_def Let_def)

lemma linked_length: "length hp' = length hp \<Longrightarrow> linked a b hp' = linked a b hp"
  by (simp add: linked_def)

lemma linked_update [simp]:
  "linked a b (hp[i := c]) = linked a b hp" "linked a b (change_queue f i hp) = linked a b hp"
  by (simp_all add: linked_def)

text \<open>Operations on \<open>p\<close> only change its two queues.\<close>

definition touches :: "tpeer \<Rightarrow> 'c list \<Rightarrow> 'c list \<Rightarrow> bool" where
  "touches p hp hp' \<longleftrightarrow> length hp' = length hp \<and> (\<forall>i. i \<notin> handles p \<longrightarrow> hp' ! i = hp ! i)"

lemma touches_queue_ops [simp]:
  "touches p hp (snd (tp_try_send A p m hp))" "touches p hp (snd (tp_try_recv A p hp))"
  by (simp_all add: touches_def handles_def tp_try_send_def tp_try_recv_def)

lemma touches_ops [simp]:
  "touches p hp (tp_clone A p hp)" "touches p hp (tp_drop A p hp)" "touches p hp (tp_disconnect A p hp)"
  by (simp_all add: touches_def handles_def tp_clone_def tp_sender_def tp_reciever_def tp_drop_def tp_disconnect_def)

lemma touches_trans: "touches p hp hp' \<Longrightarrow> touches p hp' hp'' \<Longrightarrow> touches p hp hp''"
  by (simp add: touches_def)

lemma touches_length: "touches p hp hp' \<Longrightarrow> length hp' = length hp"
  by (simp add: touches_def)

lemma connected_frame:
  "touches q hp hp' \<Longrightarrow> handles p \<inter> handles q = {} \<Longrightarrow> tp_is_connected A p hp' = tp_is_connected A p hp"
  by (simp add: touches_def handles_def tp_is_connected_def)

text \<open>
  What happens to a pair: either end (\<open>True\<close> is the first) sends, receives or disconnects. The log
  holds the messages that were accepted from each end and those it got.
\<close>

datatype 'm traffic = Sends bool 'm | Receives bool | Closes bool

record ('m, 'c) traffic_log =
  tl_heap :: "'c list"
  tl_sent :: "bool \<Rightarrow> 'm list"
  tl_got :: "bool \<Rightarrow> 'm list"

fun traffic_step ::
    "('m, 'c) async_crate \<Rightarrow> tpeer \<times> tpeer \<Rightarrow> 'm traffic \<Rightarrow> ('m, 'c) traffic_log \<Rightarrow> ('m, 'c) traffic_log" where
  "traffic_step A ab (Sends e m) l =
     (case tp_try_send A (if e then fst ab else snd ab) m (tl_heap l) of
        (Inr _, hp) \<Rightarrow> l\<lparr>tl_heap := hp, tl_sent := (tl_sent l)(e := tl_sent l e @ [m])\<rparr>
      | (Inl _, hp) \<Rightarrow> l\<lparr>tl_heap := hp\<rparr>)"
| "traffic_step A ab (Receives e) l =
     (case tp_try_recv A (if e then fst ab else snd ab) (tl_heap l) of
        (Inr m, hp) \<Rightarrow> l\<lparr>tl_heap := hp, tl_got := (tl_got l)(e := tl_got l e @ [m])\<rparr>
      | (Inl _, hp) \<Rightarrow> l\<lparr>tl_heap := hp\<rparr>)"
| "traffic_step A ab (Closes e) l =
     l\<lparr>tl_heap := tp_disconnect A (if e then fst ab else snd ab) (tl_heap l)\<rparr>"

definition traffic_start :: "'c list \<Rightarrow> ('m, 'c) traffic_log" where
  "traffic_start hp = \<lparr>tl_heap = hp, tl_sent = (\<lambda>_. []), tl_got = (\<lambda>_. [])\<rparr>"

text \<open>What is in a queue was sent by one end and not yet got by the other.\<close>

definition queue_logged :: "('c \<Rightarrow> 'm chan_view) \<Rightarrow> nat option \<Rightarrow> 'c \<Rightarrow> 'm list \<Rightarrow> 'm list \<Rightarrow> bool" where
  "queue_logged look limit c sent got \<longleftrightarrow> sent = got @ cv_items (look c) \<and> cv_cap (look c) = limit \<and>
     (\<forall>n. limit = Some n \<longrightarrow> length (cv_items (look c)) \<le> n)"

definition traffic_inv ::
    "('c \<Rightarrow> 'm chan_view) \<Rightarrow> nat option \<Rightarrow> tpeer \<times> tpeer \<Rightarrow> ('m, 'c) traffic_log \<Rightarrow> bool" where
  "traffic_inv look limit ab l \<longleftrightarrow> linked (fst ab) (snd ab) (tl_heap l) \<and>
     queue_logged look limit (tl_heap l ! tp_outgoing (fst ab)) (tl_sent l True) (tl_got l False) \<and>
     queue_logged look limit (tl_heap l ! tp_outgoing (snd ab)) (tl_sent l False) (tl_got l True)"

context async_queue
begin

lemma logged_send:
  assumes "queue_logged look limit c sent got"
  shows "case chan_try_send A m c of (Inr _, c') \<Rightarrow> queue_logged look limit c' (sent @ [m]) got
    | (Inl _, c') \<Rightarrow> queue_logged look limit c' sent got"
proof -
  obtain r c' where r: "chan_try_send A m c = (r, c')" by force
  then have "r = fst (view_send m (look c))" "look c' = snd (view_send m (look c))"
    using look_try_send[of m c] by simp_all
  then show ?thesis
    using assms r by (auto simp: view_send_def full_view_def queue_logged_def split: if_split option.split_asm)
qed

lemma logged_recv:
  assumes "queue_logged look limit c sent got"
  shows "case chan_try_recv A c of (Inr m, c') \<Rightarrow> queue_logged look limit c' sent (got @ [m])
    | (Inl _, c') \<Rightarrow> queue_logged look limit c' sent got"
proof -
  obtain r c' where r: "chan_try_recv A c = (r, c')" by force
  then have "r = fst (view_recv (look c))" "look c' = snd (view_recv (look c))"
    using look_try_recv[of c] by simp_all
  then show ?thesis
    using assms r by (cases "cv_items (look c)") (auto simp: view_recv_def queue_logged_def)
qed

lemma logged_close: "queue_logged look limit c sent got \<Longrightarrow> queue_logged look limit (chan_close A c) sent got"
  by (simp add: queue_logged_def close view_close_def)

lemma traffic_step_inv:
  assumes inv: "traffic_inv look limit ab l"
  shows "traffic_inv look limit ab (traffic_step A ab op l)"
proof -
  obtain a b where ab: "ab = (a, b)" by force
  have lnk: "linked a b (tl_heap l)"
    and qs: "queue_logged look limit (tl_heap l ! tp_outgoing a) (tl_sent l True) (tl_got l False)"
      "queue_logged look limit (tl_heap l ! tp_outgoing b) (tl_sent l False) (tl_got l True)"
    using inv by (simp_all add: traffic_inv_def ab)
  have addr: "tp_incoming a = tp_outgoing b" "tp_incoming b = tp_outgoing a" "tp_outgoing a \<noteq> tp_outgoing b"
    "tp_outgoing a < length (tl_heap l)" "tp_outgoing b < length (tl_heap l)"
    using lnk by (auto simp: linked_def handles_def)
  show ?thesis
  proof (cases op)
    case (Sends e m)
    let ?c = "tl_heap l ! tp_outgoing (if e then a else b)"
    obtain r c' where r: "chan_try_send A m ?c = (r, c')" by force
    show ?thesis
      using logged_send[of limit ?c _ _ m, unfolded r prod.case] qs addr lnk r Sends
      by (cases e; cases r) (auto simp: ab traffic_inv_def tp_try_send_def on_queue_def Let_def)
  next
    case (Receives e)
    let ?c = "tl_heap l ! tp_incoming (if e then a else b)"
    obtain r c' where r: "chan_try_recv A ?c = (r, c')" by force
    show ?thesis
      using logged_recv[of limit ?c, unfolded r prod.case] qs addr lnk r Receives
      by (cases e; cases r) (auto simp: ab traffic_inv_def tp_try_recv_def on_queue_def Let_def)
  next
    case (Closes e)
    then show ?thesis
      using qs addr lnk by (cases e) (simp_all add: ab traffic_inv_def tp_disconnect_def logged_close)
  qed
qed

lemma traffic_inv_run: "traffic_inv look limit ab l \<Longrightarrow> traffic_inv look limit ab (fold (traffic_step A ab) ops l)"
  by (induction ops arbitrary: l) (simp_all add: traffic_step_inv)

lemma bounded_Some:
  assumes "ac_bounded A n = Some c"
  shows "0 < n" and "look c = fresh_view (Some n)"
proof -
  show "0 < n" using assms bounded_zero by (cases n) simp_all
  then show "look c = fresh_view (Some n)" using bounded_room[of n] assms by auto
qed

text \<open>Both ways to make a pair.\<close>

lemma unbounded_pair_new:
  assumes "create_unbounded_pair A hp = ((a, b), hp')"
  shows "\<exists>c d. hp' = hp @ [c, d] \<and> look c = fresh_view None \<and> look d = fresh_view None"
    and "linked a b hp'" and "handles a = {length hp, length hp + 1}"
  using assms
  by (auto simp: create_unbounded_pair_def create_pair_def linked_def handles_def unbounded Let_def)

lemma bounded_pair_new:
  assumes "create_bounded_pair A n hp = Some ((a, b), hp')"
  shows "\<exists>c d. hp' = hp @ [c, d] \<and> look c = fresh_view (Some n) \<and> look d = fresh_view (Some n)"
    and "linked a b hp'" and "handles a = {length hp, length hp + 1}" and "0 < n"
  using assms
  by (auto simp: create_bounded_pair_def create_pair_def linked_def handles_def bind_eq_Some_conv Let_def
      dest: bounded_Some)

lemma bounded_pair_returns: "create_bounded_pair A n hp \<noteq> None \<longleftrightarrow> 0 < n"
  using bounded_room[of n] by (cases n) (auto simp: create_bounded_pair_def bounded_zero Let_def)

lemma traffic_start_inv:
  assumes "hp' = hp @ [c, d]" and "look c = fresh_view limit" and "look d = fresh_view limit"
    and "linked a b hp'" and "handles a = {length hp, length hp + 1}"
  shows "traffic_inv look limit (a, b) (traffic_start hp')"
proof -
  have "{tp_outgoing a, tp_outgoing b} = {length hp, length hp + 1}"
    using assms(4,5) by (auto simp: linked_def handles_def)
  then have "look (hp' ! tp_outgoing a) = fresh_view limit" "look (hp' ! tp_outgoing b) = fresh_view limit"
    using assms(1-3) by (auto simp: nth_append doubleton_eq_iff)
  then show ?thesis
    using assms(4) by (simp add: traffic_inv_def traffic_start_def queue_logged_def fresh_view_def)
qed

text \<open>Disconnecting either end.\<close>

lemma look_disconnect:
  assumes "i \<in> handles p" and "i < length hp"
  shows "look (tp_disconnect A p hp ! i) = view_close (look (hp ! i))"
  using assms by (cases "tp_incoming p = tp_outgoing p")
    (auto simp: handles_def tp_disconnect_def close view_close_def change_queue_def nth_list_update)

lemma disconnected:
  assumes "\<forall>i \<in> handles p. i < length hp" and "handles q \<inter> handles p \<noteq> {}"
  shows "\<not> tp_is_connected A q (tp_disconnect A p hp)"
  using assms look_disconnect[of _ p hp]
  by (fastforce simp: tp_is_connected_def closed handles_def view_close_def)

lemma send_closed:
  "cv_closed (look (hp ! tp_outgoing p)) \<Longrightarrow> fst (tp_try_send A p m hp) = Inl TrySendClosed"
  by (simp add: tp_try_send_def look_try_send view_send_def)

text \<open>Nothing opens a closed queue, and cloning a handle closes none.\<close>

lemma closed_drop: "cv_closed (look (hp ! i)) \<Longrightarrow> cv_closed (look (tp_drop A p hp ! i))"
  by (auto simp: tp_drop_def change_queue_nth drop_sender drop_receiver view_drop_sender_def
      view_drop_receiver_def)

lemma closed_disconnect: "cv_closed (look (hp ! i)) \<Longrightarrow> cv_closed (look (tp_disconnect A p hp ! i))"
  by (simp add: tp_disconnect_def change_queue_nth close view_close_def)

lemma connected_clone [simp]: "tp_is_connected A q (tp_clone A p hp) = tp_is_connected A q hp"
  by (simp add: tp_is_connected_def closed tp_clone_def tp_sender_def tp_reciever_def change_queue_nth
      clone_sender clone_receiver)

lemma connected_iff: "tp_is_connected A p hp \<longleftrightarrow> (\<forall>i \<in> handles p. \<not> cv_closed (look (hp ! i)))"
  by (auto simp: tp_is_connected_def closed handles_def)

lemma connected_drop: "tp_is_connected A q (tp_drop A p hp) \<Longrightarrow> tp_is_connected A q hp"
  using closed_drop by (auto simp: connected_iff)

text \<open>The last handles of one end that are dropped disconnect the other end.\<close>

lemma last_drop:
  assumes "\<forall>i \<in> handles p. i < length hp" and "tp_incoming p \<noteq> tp_outgoing p"
    and "cv_senders (look (hp ! tp_outgoing p)) \<le> 1 \<or> cv_receivers (look (hp ! tp_incoming p)) \<le> 1"
    and "handles q = handles p"
  shows "\<not> tp_is_connected A q (tp_drop A p hp)"
proof -
  have "tp_drop A p hp ! tp_outgoing p = ac_drop_sender A (hp ! tp_outgoing p)"
    "tp_drop A p hp ! tp_incoming p = ac_drop_receiver A (hp ! tp_incoming p)"
    using assms(1,2) by (auto simp: tp_drop_def handles_def)
  then show ?thesis
    unfolding connected_iff assms(4) using assms(3)
    by (auto simp: handles_def drop_sender drop_receiver view_drop_sender_def view_drop_receiver_def)
qed

end

end
