(* ===== verification/Transport_Peers.thy ===== *)
theory Transport_Peers
  imports Transport "HOL-Library.DAList"
begin

text \<open>
  \<^verbatim>\<open>src/backroll_transport/src/peers.rs\<close>: the table that keeps one end of a channel per remote address. The
  concurrent map (\<^verbatim>\<open>DashMap\<close>) is code outside the repository: its operations are parameters with the laws
  of a locale. \<open>table_ok\<close> is the invariant that no two entries share a queue; with it every operation
  on one address leaves the channels of the others alone.
\<close>

section \<open>\<open>Peers\<close>\<close>

text \<open>The operations of \<^verbatim>\<open>DashMap\<close> the table uses, with its entries in some order.\<close>

record ('k, 'v, 'd) table_crate =
  tb_empty :: 'd
  tb_get :: "'k \<Rightarrow> 'd \<Rightarrow> 'v option"
  tb_insert :: "'k \<Rightarrow> 'v \<Rightarrow> 'd \<Rightarrow> 'v option \<times> 'd"
  tb_remove :: "'k \<Rightarrow> 'd \<Rightarrow> 'v option \<times> 'd"
  tb_retain :: "('v \<Rightarrow> bool) \<Rightarrow> 'd \<Rightarrow> 'd"
  tb_values :: "'d \<Rightarrow> 'v list"

type_synonym ('c, 'd) peers = "'d \<times> 'c list"

definition peers_default :: "('k, tpeer, 'd) table_crate \<Rightarrow> 'c list \<Rightarrow> ('c, 'd) peers" where
  "peers_default M hp = (tb_empty M, hp)"

definition peers_get ::
    "('k, tpeer, 'd) table_crate \<Rightarrow> ('m, 'c) async_crate \<Rightarrow> 'k \<Rightarrow> ('c, 'd) peers \<Rightarrow>
       tpeer option \<times> ('c, 'd) peers" where
  "peers_get M A k ps =
     (case tb_get M k (fst ps) of
        None \<Rightarrow> (None, ps)
      | Some peer \<Rightarrow>
          let hp = tp_clone A peer (snd ps) in
          if tp_is_connected A peer hp then (Some peer, (fst ps, hp))
          else (None, (fst ps, tp_drop A peer hp)))"

definition peers_len :: "('k, tpeer, 'd) table_crate \<Rightarrow> ('m, 'c) async_crate \<Rightarrow> ('c, 'd) peers \<Rightarrow> nat" where
  "peers_len M A ps = length (filter (\<lambda>peer. tp_is_connected A peer (snd ps)) (tb_values M (fst ps)))"

definition peers_contains ::
    "('k, tpeer, 'd) table_crate \<Rightarrow> ('m, 'c) async_crate \<Rightarrow> 'k \<Rightarrow> ('c, 'd) peers \<Rightarrow> bool" where
  "peers_contains M A k ps =
     (case tb_get M k (fst ps) of None \<Rightarrow> False | Some peer \<Rightarrow> tp_is_connected A peer (snd ps))"

definition peers_create_unbounded ::
    "('k, tpeer, 'd) table_crate \<Rightarrow> ('m, 'c) async_crate \<Rightarrow> 'k \<Rightarrow> ('c, 'd) peers \<Rightarrow> tpeer \<times> ('c, 'd) peers" where
  "peers_create_unbounded M A k ps =
     (let ((a, b), hp) = create_unbounded_pair A (snd ps);
          (replaced, d) = tb_insert M k a (fst ps) in
      (b, (d, case replaced of None \<Rightarrow> hp | Some prior \<Rightarrow> tp_drop A prior (tp_disconnect A prior hp))))"

definition peers_create_bounded ::
    "('k, tpeer, 'd) table_crate \<Rightarrow> ('m, 'c) async_crate \<Rightarrow> 'k \<Rightarrow> nat \<Rightarrow> ('c, 'd) peers \<Rightarrow>
       (tpeer \<times> ('c, 'd) peers) option" where
  "peers_create_bounded M A k capacity ps =
     do { ((a, b), hp) \<leftarrow> create_bounded_pair A capacity (snd ps);
          let (replaced, d) = tb_insert M k a (fst ps);
          Some (b, (d, case replaced of None \<Rightarrow> hp | Some prior \<Rightarrow> tp_drop A prior hp)) }"

definition peers_disconnect ::
    "('k, tpeer, 'd) table_crate \<Rightarrow> ('m, 'c) async_crate \<Rightarrow> 'k \<Rightarrow> ('c, 'd) peers \<Rightarrow> ('c, 'd) peers" where
  "peers_disconnect M A k ps =
     (let (removed, d) = tb_remove M k (fst ps) in
      (d, case removed of None \<Rightarrow> snd ps | Some peer \<Rightarrow> tp_drop A peer (tp_disconnect A peer (snd ps))))"

definition flush_disconnected ::
    "('k, tpeer, 'd) table_crate \<Rightarrow> ('m, 'c) async_crate \<Rightarrow> ('c, 'd) peers \<Rightarrow> ('c, 'd) peers" where
  "flush_disconnected M A ps =
     (tb_retain M (\<lambda>peer. tp_is_connected A peer (snd ps)) (fst ps),
      fold (tp_drop A) (filter (\<lambda>peer. \<not> tp_is_connected A peer (snd ps)) (tb_values M (fst ps))) (snd ps))"

definition peers_drop ::
    "('k, tpeer, 'd) table_crate \<Rightarrow> ('m, 'c) async_crate \<Rightarrow> ('c, 'd) peers \<Rightarrow> 'c list" where
  "peers_drop M A ps =
     fold (tp_drop A) (tb_values M (fst ps)) (fold (tp_disconnect A) (tb_values M (fst ps)) (snd ps))"

section \<open>The contract of the table\<close>

locale keyed_table =
  fixes M :: "('k, 'v, 'd) table_crate"
  assumes get_empty: "tb_get M k (tb_empty M) = None"
    and insert: "fst (tb_insert M k v d) = tb_get M k d \<and>
      (\<forall>j. tb_get M j (snd (tb_insert M k v d)) = (if j = k then Some v else tb_get M j d))"
    and remove: "fst (tb_remove M k d) = tb_get M k d \<and>
      (\<forall>j. tb_get M j (snd (tb_remove M k d)) = (if j = k then None else tb_get M j d))"
    and retain: "tb_get M k (tb_retain M P d) =
      (case tb_get M k d of None \<Rightarrow> None | Some v \<Rightarrow> if P v then Some v else None)"
    and entries: "\<exists>ks. distinct ks \<and> set ks = {k. tb_get M k d \<noteq> None} \<and>
      tb_values M d = map (\<lambda>k. the (tb_get M k d)) ks"
begin

lemma values_set: "v \<in> set (tb_values M d) \<longleftrightarrow> (\<exists>k. tb_get M k d = Some v)"
  using entries[of d] by force

lemma values_filter: "length (filter P (tb_values M d)) = card {k. \<exists>v. tb_get M k d = Some v \<and> P v}"
proof -
  obtain ks where ks: "distinct ks" "set ks = {k. tb_get M k d \<noteq> None}" "tb_values M d = map (\<lambda>k. the (tb_get M k d)) ks"
    using entries[of d] by blast
  have "length (filter P (tb_values M d)) = card (set (filter (\<lambda>k. P (the (tb_get M k d))) ks))"
    unfolding ks(3) using distinct_card[OF distinct_filter[OF ks(1)]] by (simp add: filter_map comp_def)
  also have "set (filter (\<lambda>k. P (the (tb_get M k d))) ks) = {k. \<exists>v. tb_get M k d = Some v \<and> P v}"
    using ks(2) by auto
  finally show ?thesis .
qed

end

text \<open>Association lists with distinct keys keep it.\<close>

definition alist_table :: "('k, 'v, ('k, 'v) alist) table_crate" where
  "alist_table =
     \<lparr>tb_empty = DAList.empty, tb_get = (\<lambda>k d. DAList.lookup d k),
      tb_insert = (\<lambda>k v d. (DAList.lookup d k, DAList.update k v d)),
      tb_remove = (\<lambda>k d. (DAList.lookup d k, DAList.delete k d)),
      tb_retain = (\<lambda>P d. DAList.filter (\<lambda>e. P (snd e)) d),
      tb_values = (\<lambda>d. map snd (DAList.impl_of d))\<rparr>"

lemma lookup_filter:
  "DAList.lookup (DAList.filter (\<lambda>e. P (snd e)) d) k =
     (case DAList.lookup d k of None \<Rightarrow> None | Some v \<Rightarrow> if P v then Some v else None)"
proof -
  have "map_of (filter (\<lambda>e. P (snd e)) xs) k = (case map_of xs k of None \<Rightarrow> None | Some v \<Rightarrow> if P v then Some v else None)"
    if "distinct (map fst xs)" for xs
    using that by (induction xs) (auto split: option.split simp: map_of_eq_None_iff)
  then show ?thesis by (simp add: DAList.lookup.rep_eq DAList.filter.rep_eq)
qed

interpretation alist_table: keyed_table alist_table
proof (unfold_locales, goal_cases)
  case (5 d)
  let ?xs = "DAList.impl_of d"
  have "map snd ?xs = map (\<lambda>k. the (map_of ?xs k)) (map fst ?xs)"
    by (auto simp: comp_def intro!: map_cong)
  moreover have "set (map fst ?xs) = {k. map_of ?xs k \<noteq> None}" by (auto simp: map_of_eq_None_iff)
  ultimately show ?case
    by (intro exI[of _ "map fst ?xs"]) (simp add: alist_table_def DAList.lookup.rep_eq)
qed (simp_all add: alist_table_def lookup_filter DAList.lookup_update)

section \<open>Every entry owns its queues\<close>

definition table_ok :: "('k, tpeer, 'd) table_crate \<Rightarrow> ('c, 'd) peers \<Rightarrow> bool" where
  "table_ok M ps \<longleftrightarrow>
     (\<forall>k p. tb_get M k (fst ps) = Some p \<longrightarrow> tp_incoming p \<noteq> tp_outgoing p \<and> (\<forall>i \<in> handles p. i < length (snd ps))) \<and>
     (\<forall>j k p q. j \<noteq> k \<longrightarrow> tb_get M j (fst ps) = Some p \<longrightarrow> tb_get M k (fst ps) = Some q \<longrightarrow> handles p \<inter> handles q = {})"

lemma table_okD:
  assumes "table_ok M (d, hp)" and "tb_get M k d = Some p"
  shows "tp_incoming p \<noteq> tp_outgoing p" and "\<forall>i \<in> handles p. i < length hp"
    and "j \<noteq> k \<Longrightarrow> tb_get M j d = Some q \<Longrightarrow> handles q \<inter> handles p = {}"
  using assms by (auto simp: table_ok_def)

lemma table_ok_length: "table_ok M (d, hp) \<Longrightarrow> length hp' = length hp \<Longrightarrow> table_ok M (d, hp')"
  by (simp add: table_ok_def)

text \<open>A table that keeps some of the entries.\<close>

lemma table_ok_sub:
  assumes "table_ok M (d, hp)" and "length hp' = length hp"
    and "\<And>k p. tb_get M k d' = Some p \<Longrightarrow> tb_get M k d = Some p"
  shows "table_ok M (d', hp')"
  unfolding table_ok_def fst_conv snd_conv
proof (intro conjI allI impI, goal_cases)
  case (1 k p)
  then show ?case using table_okD(1)[OF assms(1) assms(3)] by blast
next
  case (2 k p)
  then show ?case using table_okD(2)[OF assms(1) assms(3)] assms(2) by simp
next
  case (3 j k p q)
  then show ?case using table_okD(3)[OF assms(1) assms(3) _ assms(3)] by blast
qed

text \<open>A table with a new entry, whose queues were allocated at the end of the heap.\<close>

lemma table_ok_insert:
  assumes ok: "table_ok M (d, hp)" and len: "length hp' = length hp + 2"
    and a: "handles a = {length hp, length hp + 1}" "tp_incoming a \<noteq> tp_outgoing a"
    and get: "\<And>j. tb_get M j d' = (if j = k then Some a else tb_get M j d)"
  shows "table_ok M (d', hp')"
proof -
  have old: "\<forall>i \<in> handles p. i < length hp" if "tb_get M j d = Some p" for j p
    by (rule table_okD(2)[OF ok that])
  then have "handles p \<inter> handles a = {}" if "tb_get M j d = Some p" for j p
    using that a(1) by fastforce
  moreover have "\<forall>i \<in> handles p. i < length hp + 2" if "tb_get M j d = Some p" for j p
    using old[OF that] by fastforce
  ultimately show ?thesis
    using ok a len by (auto simp: table_ok_def get split: if_split_asm)
qed

section \<open>The operations\<close>

definition live :: "('k, tpeer, 'd) table_crate \<Rightarrow> ('m, 'c) async_crate \<Rightarrow> ('c, 'd) peers \<Rightarrow> 'k set" where
  "live M A ps = {k. peers_contains M A k ps}"

locale peer_table = async_queue A look + keyed_table M
  for A :: "('m, 'c) async_crate" and look :: "'c \<Rightarrow> 'm chan_view" and M :: "('k, tpeer, 'd) table_crate"
begin

lemma in_live: "k \<in> live M A (d, hp) \<longleftrightarrow> (\<exists>p. tb_get M k d = Some p \<and> tp_is_connected A p hp)"
  by (simp add: live_def peers_contains_def split: option.split)

lemma len_live: "peers_len M A (d, hp) = card (live M A (d, hp))"
  unfolding peers_len_def by (simp add: values_filter live_def peers_contains_def split: option.split)
    (rule arg_cong[of _ _ card], auto split: option.split_asm)

text \<open>Operations on the queues of one entry do not matter to the others.\<close>

lemma live_touched:
  assumes ok: "table_ok M (d, hp)" and p: "tb_get M k d = Some p" and hp': "touches p hp hp'"
  shows "live M A (d, hp') = (if tp_is_connected A p hp' then insert k else (\<lambda>s. s - {k})) (live M A (d, hp))"
proof -
  let ?s = "live M A (d, hp)"
  have other: "tp_is_connected A q hp' = tp_is_connected A q hp" if "tb_get M j d = Some q" "j \<noteq> k" for j q
    using connected_frame[OF hp'] table_okD(3)[OF ok p that(2,1)] by blast
  have "j \<in> live M A (d, hp') \<longleftrightarrow> j \<in> (if tp_is_connected A p hp' then insert k else (\<lambda>s. s - {k})) ?s" for j
  proof (cases "j = k")
    case True
    then show ?thesis using p by (simp add: in_live)
  next
    case False
    then show ?thesis using other[of j] by (auto simp: in_live)
  qed
  then show ?thesis by blast
qed

lemma get_ok:
  assumes ok: "table_ok M (d, hp)"
  obtains hp' where "peers_get M A k (d, hp) = (if k \<in> live M A (d, hp) then tb_get M k d else None, (d, hp'))"
    and "table_ok M (d, hp')" and "live M A (d, hp') = live M A (d, hp)"
proof (cases "tb_get M k d")
  case None
  then show ?thesis using ok that[of hp] by (simp add: peers_get_def in_live)
next
  case (Some p)
  let ?hp = "if tp_is_connected A p hp then tp_clone A p hp else tp_drop A p (tp_clone A p hp)"
  have "touches p hp ?hp" using touches_trans[OF touches_ops(1) touches_ops(2), of p hp A A] by simp
  moreover have "tp_is_connected A p ?hp = tp_is_connected A p hp"
    using connected_drop[of p p "tp_clone A p hp"] by auto
  moreover have "k \<in> live M A (d, hp) \<longleftrightarrow> tp_is_connected A p hp" using Some by (simp add: in_live)
  ultimately have "live M A (d, ?hp) = live M A (d, hp)" using live_touched[OF ok Some] by auto
  moreover have "table_ok M (d, ?hp)" using touches_length[OF \<open>touches p hp ?hp\<close>] table_ok_length[OF ok] by blast
  ultimately show ?thesis
    using Some by (intro that[of ?hp]) (auto simp: peers_get_def in_live Let_def)
qed

text \<open>A new pair; \<open>hp'\<close> is the heap after the replaced entry was given up.\<close>

lemma created:
  assumes ok: "table_ok M (d, hp)" and pair: "\<exists>x y. hp1 = hp @ [x, y] \<and> look x = fresh_view limit \<and> look y = fresh_view limit"
      "linked a b hp1" "handles a = {length hp, length hp + 1}"
    and d': "\<And>j. tb_get M j d' = (if j = k then Some a else tb_get M j d)"
    and gone: "case tb_get M k d of None \<Rightarrow> hp' = hp1 | Some p \<Rightarrow> touches p hp1 hp'"
  shows "table_ok M (d', hp')" and "live M A (d', hp') = insert k (live M A (d, hp))"
    and "linked a b hp'" and "tp_is_connected A b hp'"
proof -
  obtain x y where xy: "hp1 = hp @ [x, y]" "look x = fresh_view limit" "look y = fresh_view limit" using pair(1) by blast
  have len: "length hp' = length hp + 2" using gone xy(1) by (auto simp: touches_def split: option.split_asm)
  have neq: "tp_incoming a \<noteq> tp_outgoing a" using pair(2) by (simp add: linked_def)
  show "table_ok M (d', hp')" by (rule table_ok_insert[OF ok len pair(3) neq d'])
  show lnk: "linked a b hp'" using pair(2) len xy(1) by (simp add: linked_def)
  have kept: "hp' ! i = hp1 ! i" if "\<And>p. tb_get M k d = Some p \<Longrightarrow> i \<notin> handles p" for i
    using gone that by (auto simp: touches_def split: option.split_asm)
  have conn: "tp_is_connected A q hp' = tp_is_connected A q hp1" if "\<And>p. tb_get M k d = Some p \<Longrightarrow> handles p \<inter> handles q = {}" for q
    using kept[of "tp_incoming q"] kept[of "tp_outgoing q"] that
    by (auto simp: tp_is_connected_def handles_def)
  have "handles p \<inter> handles a = {}" if "tb_get M k d = Some p" for p
    using table_okD(2)[OF ok that] pair(3) by fastforce
  then have "tp_is_connected A a hp' = tp_is_connected A a hp1" by (rule conn)
  moreover have new: "tp_is_connected A a hp1"
    using pair(3) xy by (auto simp: connected_iff nth_append fresh_view_def)
  ultimately have a: "tp_is_connected A a hp'" by simp
  then show "tp_is_connected A b hp'" using linked_handles[OF lnk] by (simp add: connected_iff)
  have "tp_is_connected A q hp' = tp_is_connected A q hp" if "tb_get M j d = Some q" "j \<noteq> k" for j q
  proof -
    have "tp_is_connected A q hp' = tp_is_connected A q hp1"
      using table_okD(3)[OF ok that(1)] that(2) by (intro conn) metis
    moreover have "hp1 ! i = hp ! i" if "i \<in> handles q" for i
      using table_okD(2)[OF ok \<open>tb_get M j d = Some q\<close>] that xy(1) by (simp add: nth_append)
    ultimately show ?thesis by (simp add: connected_iff)
  qed
  then show "live M A (d', hp') = insert k (live M A (d, hp))"
    using a by (auto simp: in_live d' split: if_split_asm)
qed

lemma touches_give_up:
  "touches p hp (tp_drop A p (tp_disconnect A p hp))"
  by (rule touches_trans[OF touches_ops(3) touches_ops(2)])

text \<open>A channel that was disconnected and dropped is gone for everyone who has the other end.\<close>

lemma gave_up:
  assumes "\<forall>i \<in> handles p. i < length hp" and "handles q = handles p"
  shows "\<not> tp_is_connected A q (tp_drop A p (tp_disconnect A p hp))"
  using connected_drop[of q p "tp_disconnect A p hp"] disconnected[of p hp q] assms by (auto simp: handles_def)

lemma create_unbounded_ok:
  assumes ok: "table_ok M (d, hp)" and res: "peers_create_unbounded M A k (d, hp) = (b, (d', hp'))"
  shows "table_ok M (d', hp')" and "live M A (d', hp') = insert k (live M A (d, hp))"
    and "\<exists>a. tb_get M k d' = Some a \<and> linked a b hp'" and "tp_is_connected A b hp'"
    and "tb_get M k d = Some p \<Longrightarrow> linked p q hp \<Longrightarrow> \<not> tp_is_connected A q hp'"
proof -
  obtain a b' hp1 where new: "create_unbounded_pair A hp = ((a, b'), hp1)" by (metis surj_pair)
  note pair = unbounded_pair_new[OF new]
  have r: "b = b'" "d' = snd (tb_insert M k a d)"
    "hp' = (case tb_get M k d of None \<Rightarrow> hp1 | Some p \<Rightarrow> tp_drop A p (tp_disconnect A p hp1))"
    using res insert[of k a d] by (auto simp: peers_create_unbounded_def new split: prod.splits)
  have d': "tb_get M j d' = (if j = k then Some a else tb_get M j d)" for j
    using insert[of k a d] r(2) by simp
  have gone: "case tb_get M k d of None \<Rightarrow> hp' = hp1 | Some p \<Rightarrow> touches p hp1 hp'"
    using r(3) touches_give_up by (auto split: option.split)
  note made = created[OF ok pair d' gone]
  show "table_ok M (d', hp')" "live M A (d', hp') = insert k (live M A (d, hp))" by (rule made)+
  show "\<exists>a. tb_get M k d' = Some a \<and> linked a b hp'" "tp_is_connected A b hp'" using made d' r(1) by simp_all
  assume p: "tb_get M k d = Some p" and q: "linked p q hp"
  have "\<forall>i \<in> handles p. i < length hp1" using table_okD(2)[OF ok p] pair(1) by fastforce
  then show "\<not> tp_is_connected A q hp'" using gave_up[of p hp1 q] linked_handles[OF q] r(3) p by simp
qed

lemma create_bounded_eq:
  "peers_create_bounded M A k n (d, hp) = map_option (\<lambda>((a, b), hp1). (b, (snd (tb_insert M k a d),
     case tb_get M k d of None \<Rightarrow> hp1 | Some p \<Rightarrow> tp_drop A p hp1))) (create_bounded_pair A n hp)"
proof -
  have "fst (tb_insert M k v d) = tb_get M k d" for v using insert by blast
  then show ?thesis
    by (cases "create_bounded_pair A n hp") (auto simp: peers_create_bounded_def case_prod_beta)
qed

lemma create_bounded_ok:
  assumes ok: "table_ok M (d, hp)" and res: "peers_create_bounded M A k n (d, hp) = Some (b, (d', hp'))"
  shows "table_ok M (d', hp')" and "live M A (d', hp') = insert k (live M A (d, hp))"
    and "\<exists>a. tb_get M k d' = Some a \<and> linked a b hp'" and "tp_is_connected A b hp'"
proof -
  obtain a b' hp1 where new: "create_bounded_pair A n hp = Some ((a, b'), hp1)"
    and r: "b = b'" "d' = snd (tb_insert M k a d)"
      "hp' = (case tb_get M k d of None \<Rightarrow> hp1 | Some p \<Rightarrow> tp_drop A p hp1)"
    using res by (auto simp: create_bounded_eq)
  note pair = bounded_pair_new[OF new]
  have d': "tb_get M j d' = (if j = k then Some a else tb_get M j d)" for j
    using insert[of k a d] r(2) by simp
  have gone: "case tb_get M k d of None \<Rightarrow> hp' = hp1 | Some p \<Rightarrow> touches p hp1 hp'"
    using r(3) by (auto split: option.split)
  note made = created[OF ok pair(1-3) d' gone]
  show "table_ok M (d', hp')" "live M A (d', hp') = insert k (live M A (d, hp))" by (rule made)+
  show "\<exists>a. tb_get M k d' = Some a \<and> linked a b hp'" "tp_is_connected A b hp'" using made d' r(1) by simp_all
qed

lemma create_bounded_returns: "peers_create_bounded M A k n (d, hp) \<noteq> None \<longleftrightarrow> 0 < n"
  using bounded_pair_returns[of n hp] by (simp add: create_bounded_eq)

lemma peers_disconnect_ok:
  assumes ok: "table_ok M (d, hp)" and res: "peers_disconnect M A k (d, hp) = (d', hp')"
  shows "table_ok M (d', hp')" and "live M A (d', hp') = live M A (d, hp) - {k}"
    and "tb_get M k d = Some p \<Longrightarrow> linked p q hp \<Longrightarrow> \<not> tp_is_connected A q hp'"
proof -
  have r: "d' = snd (tb_remove M k d)"
    "hp' = (case tb_get M k d of None \<Rightarrow> hp | Some p \<Rightarrow> tp_drop A p (tp_disconnect A p hp))"
    using res remove[of k d] by (cases "tb_get M k d"; auto simp: peers_disconnect_def split: prod.splits)+
  have d': "tb_get M j d' = (if j = k then None else tb_get M j d)" for j
    using remove[of k d] r(1) by simp
  have len: "length hp' = length hp"
    using r(2) touches_length[OF touches_give_up] by (simp split: option.split)
  show "table_ok M (d', hp')" by (rule table_ok_sub[OF ok len]) (simp add: d' split: if_split_asm)
  show "live M A (d', hp') = live M A (d, hp) - {k}"
  proof (cases "tb_get M k d")
    case None
    then show ?thesis using r(2) by (auto simp: in_live d' split: if_split_asm)
  next
    case (Some p)
    have "tp_is_connected A q hp' = tp_is_connected A q hp" if "tb_get M j d = Some q" "j \<noteq> k" for j q
      using connected_frame[OF touches_give_up] table_okD(3)[OF ok Some that(2,1)] r(2) Some by auto
    then show ?thesis by (auto simp: in_live d' split: if_split_asm)
  qed
  assume p: "tb_get M k d = Some p" and q: "linked p q hp"
  then show "\<not> tp_is_connected A q hp'"
    using gave_up[OF table_okD(2)[OF ok p] linked_handles[OF q]] r(2) by simp
qed

lemma fold_drop_frame:
  assumes "\<forall>q \<in> set xs. handles p \<inter> handles q = {}"
  shows "tp_is_connected A p (fold (tp_drop A) xs hp) = tp_is_connected A p hp"
  using assms by (induction xs arbitrary: hp) (simp_all add: connected_frame[OF touches_ops(2)])

lemma fold_drop_nth: "\<forall>q \<in> set xs. i \<notin> handles q \<Longrightarrow> fold (tp_drop A) xs hp ! i = hp ! i"
proof (induction xs arbitrary: hp)
  case (Cons x xs)
  then show ?case using touches_ops(2)[of x hp A] by (simp add: touches_def)
qed simp

lemma length_fold_drop: "length (fold (tp_drop A) xs hp) = length hp"
  by (induction xs arbitrary: hp) (simp_all add: touches_length[OF touches_ops(2)])

lemma gone_disjoint:
  assumes ok: "table_ok M (d, hp)" and p: "tb_get M j d = Some p" "tp_is_connected A p hp"
  shows "\<forall>q \<in> set (filter (\<lambda>peer. \<not> tp_is_connected A peer hp) (tb_values M d)). handles p \<inter> handles q = {}"
proof
  fix q assume "q \<in> set (filter (\<lambda>peer. \<not> tp_is_connected A peer hp) (tb_values M d))"
  then obtain i where "tb_get M i d = Some q" "\<not> tp_is_connected A q hp" by (auto simp: values_set)
  moreover from this have "j \<noteq> i" using p by auto
  ultimately show "handles p \<inter> handles q = {}" using table_okD(3)[OF ok _ _ p(1)] by blast
qed

lemma flush_frame:
  assumes ok: "table_ok M (d, hp)" and p: "tb_get M j d = Some p" "tp_is_connected A p hp" and i: "i \<in> handles p"
  shows "snd (flush_disconnected M A (d, hp)) ! i = hp ! i"
  using gone_disjoint[OF ok p] i unfolding flush_disconnected_def snd_conv fst_conv by (intro fold_drop_nth) blast

lemma flush_ok:
  assumes ok: "table_ok M (d, hp)" and res: "flush_disconnected M A (d, hp) = (d', hp')"
  shows "table_ok M (d', hp')" and "live M A (d', hp') = live M A (d, hp)"
    and "tb_get M k d' \<noteq> None \<longleftrightarrow> k \<in> live M A (d, hp)"
proof -
  let ?gone = "filter (\<lambda>peer. \<not> tp_is_connected A peer hp) (tb_values M d)"
  have r: "d' = tb_retain M (\<lambda>peer. tp_is_connected A peer hp) d" "hp' = fold (tp_drop A) ?gone hp"
    using res by (simp_all add: flush_disconnected_def)
  have d': "tb_get M j d' = Some p \<longleftrightarrow> tb_get M j d = Some p \<and> tp_is_connected A p hp" for j p
    using retain[of j "\<lambda>peer. tp_is_connected A peer hp" d] r(1) by (auto split: option.split_asm)
  show "table_ok M (d', hp')" by (rule table_ok_sub[OF ok]) (simp_all add: r(2) length_fold_drop d')
  have "tp_is_connected A p hp'" if "tb_get M j d = Some p" "tp_is_connected A p hp" for j p
    using fold_drop_frame[OF gone_disjoint[OF ok that]] that(2) r(2) by simp
  then show "live M A (d', hp') = live M A (d, hp)" by (auto simp: in_live d')
  show "tb_get M k d' \<noteq> None \<longleftrightarrow> k \<in> live M A (d, hp)" using d' by (auto simp: in_live)
qed

text \<open>Dropping the table disconnects every other end.\<close>

lemma drop_ok:
  assumes ok: "table_ok M (d, hp)" and p: "tb_get M k d = Some p" "linked p q hp"
  shows "\<not> tp_is_connected A q (peers_drop M A (d, hp))"
proof -
  have "p \<in> set (tb_values M d)" using p(1) values_set by blast
  have dropped: "\<not> tp_is_connected A q (fold (tp_drop A) xs hp1)" if "\<not> tp_is_connected A q hp1" for xs hp1
    using that by (induction xs arbitrary: hp1) (auto dest: connected_drop)
  have still: "\<not> tp_is_connected A q (fold (tp_disconnect A) xs hp1)" if "\<not> tp_is_connected A q hp1" for xs hp1
    using that by (induction xs arbitrary: hp1) (auto simp: connected_iff dest: closed_disconnect)
  have "\<not> tp_is_connected A q (fold (tp_disconnect A) xs hp1)"
    if "p \<in> set xs" "\<forall>i \<in> handles p. i < length hp1" for xs hp1
    using that
  proof (induction xs arbitrary: hp1)
    case (Cons x xs)
    show ?case
    proof (cases "x = p")
      case True
      then have "\<not> tp_is_connected A q (tp_disconnect A x hp1)"
        using disconnected[of p hp1 q] Cons.prems(2) linked_handles[OF p(2)] by (auto simp: handles_def)
      then show ?thesis using still by simp
    next
      case False
      then show ?thesis using Cons by (simp add: touches_length[OF touches_ops(3)])
    qed
  qed simp
  then show ?thesis
    using \<open>p \<in> set (tb_values M d)\<close> table_okD(2)[OF ok p(1)] dropped by (simp add: peers_drop_def)
qed

end

section \<open>The table as a set of live addresses\<close>

text \<open>\<open>Far_Disconnect k\<close> is a disconnect by whoever has the other end of the channel of \<open>k\<close>.\<close>

datatype 'k table_op = Get 'k | Create_Unbounded 'k | Create_Bounded 'k nat | Disconnect 'k | Flush | Far_Disconnect 'k

definition other_end :: "tpeer \<Rightarrow> tpeer" where
  "other_end p = \<lparr>tp_incoming = tp_outgoing p, tp_outgoing = tp_incoming p\<rparr>"

fun table_run ::
    "('k, tpeer, 'd) table_crate \<Rightarrow> ('m, 'c) async_crate \<Rightarrow> 'k table_op \<Rightarrow> ('c, 'd) peers \<Rightarrow> ('c, 'd) peers option" where
  "table_run M A (Get k) ps = Some (snd (peers_get M A k ps))"
| "table_run M A (Create_Unbounded k) ps = Some (snd (peers_create_unbounded M A k ps))"
| "table_run M A (Create_Bounded k n) ps = map_option snd (peers_create_bounded M A k n ps)"
| "table_run M A (Disconnect k) ps = Some (peers_disconnect M A k ps)"
| "table_run M A Flush ps = Some (flush_disconnected M A ps)"
| "table_run M A (Far_Disconnect k) ps =
     Some (fst ps, case tb_get M k (fst ps) of None \<Rightarrow> snd ps | Some p \<Rightarrow> tp_disconnect A (other_end p) (snd ps))"

text \<open>The specification.\<close>

fun live_run :: "'k table_op \<Rightarrow> 'k set \<Rightarrow> 'k set option" where
  "live_run (Get k) ks = Some ks"
| "live_run (Create_Unbounded k) ks = Some (insert k ks)"
| "live_run (Create_Bounded k n) ks = (if n = 0 then None else Some (insert k ks))"
| "live_run (Disconnect k) ks = Some (ks - {k})"
| "live_run Flush ks = Some ks"
| "live_run (Far_Disconnect k) ks = Some (ks - {k})"

primrec table_runs ::
    "('k, tpeer, 'd) table_crate \<Rightarrow> ('m, 'c) async_crate \<Rightarrow> 'k table_op list \<Rightarrow> ('c, 'd) peers \<Rightarrow> ('c, 'd) peers option" where
  "table_runs M A [] ps = Some ps"
| "table_runs M A (op # ops) ps = do { ps \<leftarrow> table_run M A op ps; table_runs M A ops ps }"

primrec live_runs :: "'k table_op list \<Rightarrow> 'k set \<Rightarrow> 'k set option" where
  "live_runs [] ks = Some ks"
| "live_runs (op # ops) ks = do { ks \<leftarrow> live_run op ks; live_runs ops ks }"

context peer_table
begin

lemma table_run_ok:
  assumes ok: "table_ok M ps"
  shows "map_option (live M A) (table_run M A op ps) = live_run op (live M A ps) \<and>
    (\<forall>ps'. table_run M A op ps = Some ps' \<longrightarrow> table_ok M ps')"
proof -
  obtain d hp where ps: "ps = (d, hp)" by force
  show ?thesis
  proof (cases op)
    case (Get k)
    then show ?thesis using get_ok[of d hp k] ok ps by (metis live_run.simps(1) option.simps(9) option.inject snd_conv table_run.simps(1))
  next
    case (Create_Unbounded k)
    obtain b d' hp' where r: "peers_create_unbounded M A k (d, hp) = (b, (d', hp'))" by (metis surj_pair)
    show ?thesis using create_unbounded_ok(1,2)[OF ok[unfolded ps] r] r ps Create_Unbounded by simp
  next
    case (Create_Bounded k n)
    show ?thesis
    proof (cases "peers_create_bounded M A k n (d, hp)")
      case None
      then show ?thesis using create_bounded_returns[of k n d hp] ps Create_Bounded by simp
    next
      case (Some r)
      obtain b d' hp' where r: "peers_create_bounded M A k n (d, hp) = Some (b, (d', hp'))" using Some by (metis surj_pair)
      then show ?thesis
        using create_bounded_ok(1,2)[OF ok[unfolded ps] r] create_bounded_returns[of k n d hp] ps Create_Bounded by simp
    qed
  next
    case (Disconnect k)
    obtain d' hp' where r: "peers_disconnect M A k (d, hp) = (d', hp')" by force
    show ?thesis using peers_disconnect_ok(1,2)[OF ok[unfolded ps] r] r ps Disconnect by simp
  next
    case Flush
    obtain d' hp' where r: "flush_disconnected M A (d, hp) = (d', hp')" by force
    show ?thesis using flush_ok(1,2)[OF ok[unfolded ps] r] r ps Flush by simp
  next
    case (Far_Disconnect k)
    show ?thesis
    proof (cases "tb_get M k d")
      case None
      then show ?thesis using ok ps Far_Disconnect by (auto simp: in_live)
    next
      case (Some p)
      have h: "handles (other_end p) = handles p" by (auto simp: handles_def other_end_def)
      have t: "touches p hp (tp_disconnect A (other_end p) hp)"
        using touches_ops(3)[of "other_end p" hp A] by (simp add: touches_def h)
      have "\<not> tp_is_connected A p (tp_disconnect A (other_end p) hp)"
        by (rule disconnected) (use table_okD(2)[OF ok[unfolded ps] Some] h in \<open>auto simp: handles_def\<close>)
      then show ?thesis
        using live_touched[OF ok[unfolded ps] Some t] table_ok_length[OF ok[unfolded ps] touches_length[OF t]]
          Some ps Far_Disconnect by simp
    qed
  qed
qed

lemma table_runs_ok:
  "table_ok M ps \<Longrightarrow> map_option (live M A) (table_runs M A ops ps) = live_runs ops (live M A ps) \<and>
    (\<forall>ps'. table_runs M A ops ps = Some ps' \<longrightarrow> table_ok M ps')"
proof (induction ops arbitrary: ps)
  case (Cons op ops)
  show ?case
  proof (cases "table_run M A op ps")
    case None
    then show ?thesis using table_run_ok[OF Cons.prems, of op] by simp
  next
    case (Some ps1)
    have "table_ok M ps1" "live_run op (live M A ps) = Some (live M A ps1)"
      using table_run_ok[OF Cons.prems, of op] Some by simp_all
    then show ?thesis using Cons.IH Some by simp
  qed
qed simp

lemma default_ok: "table_ok M (peers_default M hp)" "live M A (peers_default M hp) = {}"
  by (auto simp: peers_default_def table_ok_def get_empty in_live)

end

section \<open>Handles that are counted\<close>

text \<open>The table's own handles keep the queues of every entry open until somebody disconnects.\<close>

definition owned :: "('c \<Rightarrow> 'm chan_view) \<Rightarrow> tpeer \<Rightarrow> 'c list \<Rightarrow> bool" where
  "owned look p hp \<longleftrightarrow> 1 \<le> cv_senders (look (hp ! tp_outgoing p)) \<and> 1 \<le> cv_receivers (look (hp ! tp_incoming p))"

definition counted :: "('c \<Rightarrow> 'm chan_view) \<Rightarrow> ('k, tpeer, 'd) table_crate \<Rightarrow> ('c, 'd) peers \<Rightarrow> bool" where
  "counted look M ps \<longleftrightarrow> (\<forall>k p. tb_get M k (fst ps) = Some p \<longrightarrow> owned look p (snd ps))"

lemma owned_frame: "touches q hp hp' \<Longrightarrow> handles p \<inter> handles q = {} \<Longrightarrow> owned look p hp' = owned look p hp"
  by (simp add: owned_def touches_def handles_def)

lemma counted_touched:
  assumes ok: "table_ok M (d, hp)" and c: "counted look M (d, hp)" and p: "tb_get M k d = Some p"
    and hp': "touches p hp hp'" "owned look p hp'"
  shows "counted look M (d, hp')"
  unfolding counted_def fst_conv snd_conv
proof (intro allI impI)
  fix j q assume q: "tb_get M j d = Some q"
  show "owned look q hp'"
  proof (cases "j = k")
    case True
    then show ?thesis using p q hp'(2) by simp
  next
    case False
    then have "owned look q hp' = owned look q hp"
      using owned_frame[OF hp'(1)] table_okD(3)[OF ok p False q] by blast
    then show ?thesis using c q by (simp add: counted_def)
  qed
qed

context peer_table
begin

lemma owned_clone: "owned look p hp \<Longrightarrow> owned look p (tp_clone A q hp)"
  by (auto simp: owned_def tp_clone_def tp_sender_def tp_reciever_def change_queue_nth clone_sender clone_receiver)

lemma owned_clone_drop: "owned look p hp \<Longrightarrow> owned look p (tp_drop A q (tp_clone A q hp))"
  by (auto simp: owned_def tp_clone_def tp_drop_def tp_sender_def tp_reciever_def change_queue_nth clone_sender
      clone_receiver drop_sender drop_receiver view_drop_sender_def view_drop_receiver_def)

lemma owned_disconnect: "owned look p hp \<Longrightarrow> owned look p (tp_disconnect A q hp)"
  by (auto simp: owned_def tp_disconnect_def change_queue_nth close view_close_def)

lemma owned_fold_drop:
  "\<forall>q \<in> set xs. handles p \<inter> handles q = {} \<Longrightarrow> owned look p (fold (tp_drop A) xs hp) = owned look p hp"
  by (induction xs arbitrary: hp) (simp_all add: owned_frame[OF touches_ops(2)])

text \<open>A handle that is cloned and dropped again changes nothing that could be seen.\<close>

lemma closed_clone_drop:
  assumes "owned look p hp" and "tp_incoming p \<noteq> tp_outgoing p"
  shows "cv_closed (look (tp_drop A p (tp_clone A p hp) ! i)) = cv_closed (look (hp ! i))"
  using assms
  by (auto simp: owned_def tp_clone_def tp_drop_def tp_sender_def tp_reciever_def change_queue_nth clone_sender
      clone_receiver drop_sender drop_receiver view_drop_sender_def view_drop_receiver_def)

lemma counted_new:
  assumes ok: "table_ok M (d, hp)" and c: "counted look M (d, hp)"
    and pair: "\<exists>x y. hp1 = hp @ [x, y] \<and> look x = fresh_view limit \<and> look y = fresh_view limit"
      "handles a = {length hp, length hp + 1}"
    and d': "\<And>j. tb_get M j d' = (if j = k then Some a else tb_get M j d)"
    and gone: "case tb_get M k d of None \<Rightarrow> hp' = hp1 | Some p \<Rightarrow> touches p hp1 hp'"
  shows "counted look M (d', hp')"
  unfolding counted_def fst_conv snd_conv
proof (intro allI impI)
  fix j q assume q: "tb_get M j d' = Some q"
  obtain x y where xy: "hp1 = hp @ [x, y]" "look x = fresh_view limit" "look y = fresh_view limit" using pair(1) by blast
  have disj: "handles q \<inter> handles p = {}" if p: "tb_get M k d = Some p" for p
  proof (cases "j = k")
    case True
    then show ?thesis using q d' table_okD(2)[OF ok p] pair(2) by fastforce
  next
    case False
    then show ?thesis using table_okD(3)[OF ok p False] q d' by simp
  qed
  have "owned look q hp' = owned look q hp1"
    using gone owned_frame[OF _ disj] by (auto split: option.split_asm)
  moreover have "owned look q hp1"
  proof (cases "j = k")
    case True
    then have "tp_outgoing q \<in> {length hp, length hp + 1}" "tp_incoming q \<in> {length hp, length hp + 1}"
      using q d' pair(2) by (auto simp: handles_def)
    then show ?thesis using xy by (auto simp: owned_def nth_append fresh_view_def)
  next
    case False
    then have "tb_get M j d = Some q" using q d' by simp
    then have "owned look q hp" "\<forall>i \<in> handles q. i < length hp" using c table_okD(2)[OF ok] by (auto simp: counted_def)
    then show ?thesis using xy(1) by (simp add: owned_def handles_def nth_append)
  qed
  ultimately show "owned look q hp'" by simp
qed

lemma get_counted:
  assumes ok: "table_ok M (d, hp)" and c: "counted look M (d, hp)" and res: "peers_get M A k (d, hp) = (r, (d', hp'))"
  shows "counted look M (d', hp')"
proof (cases "tb_get M k d")
  case None
  then show ?thesis using res c by (simp add: peers_get_def)
next
  case (Some p)
  have own: "owned look p hp" using c Some by (simp add: counted_def)
  have "counted look M (d, tp_clone A p hp)" "counted look M (d, tp_drop A p (tp_clone A p hp))"
    by (rule counted_touched[OF ok c Some touches_ops(1) owned_clone[OF own]],
        rule counted_touched[OF ok c Some touches_trans[OF touches_ops(1,2)] owned_clone_drop[OF own]])
  then show ?thesis using res Some by (auto simp: peers_get_def Let_def split: if_split_asm)
qed

lemma table_run_counted:
  assumes ok: "table_ok M ps" and c: "counted look M ps" and res: "table_run M A op ps = Some ps'"
  shows "counted look M ps'"
proof -
  obtain d hp d' hp' where ps: "ps = (d, hp)" "ps' = (d', hp')" by (metis surj_pair)
  note ok = ok[unfolded ps] and c = c[unfolded ps]
  have new: "tb_get M j (snd (tb_insert M k a d)) = (if j = k then Some a else tb_get M j d)" for j k a
    using insert[of k a d] by simp
  have ins: "fst (tb_insert M k a d) = tb_get M k d" for k a using insert[of k a d] by simp
  show ?thesis
  proof (cases op)
    case (Get k)
    then show ?thesis using res get_counted[OF ok c, of k] ps by (cases "peers_get M A k (d, hp)") auto
  next
    case (Create_Unbounded k)
    obtain a b hp1 where pair: "create_unbounded_pair A hp = ((a, b), hp1)" by (metis surj_pair)
    have r: "d' = snd (tb_insert M k a d)"
      "hp' = (case tb_get M k d of None \<Rightarrow> hp1 | Some p \<Rightarrow> tp_drop A p (tp_disconnect A p hp1))"
      using res ins[of k a] Create_Unbounded ps by (auto simp: peers_create_unbounded_def pair case_prod_beta)
    show ?thesis
      unfolding ps r(1)
      by (rule counted_new[OF ok c unbounded_pair_new(1,3)[OF pair] new])
        (use r(2) touches_give_up in \<open>auto split: option.split\<close>)
  next
    case (Create_Bounded k n)
    then obtain a b hp1 where pair: "create_bounded_pair A n hp = Some ((a, b), hp1)"
      and r: "d' = snd (tb_insert M k a d)" "hp' = (case tb_get M k d of None \<Rightarrow> hp1 | Some p \<Rightarrow> tp_drop A p hp1)"
      using res ps by (auto simp: create_bounded_eq)
    show ?thesis
      unfolding ps r(1)
      by (rule counted_new[OF ok c bounded_pair_new(1,3)[OF pair] new])
        (use r(2) in \<open>auto split: option.split\<close>)
  next
    case (Disconnect k)
    have r: "d' = snd (tb_remove M k d)"
      "hp' = (case tb_get M k d of None \<Rightarrow> hp | Some p \<Rightarrow> tp_drop A p (tp_disconnect A p hp))"
      using res remove[of k d] Disconnect ps
      by (cases "tb_get M k d"; auto simp: peers_disconnect_def split: prod.splits)+
    have "owned look q hp'" if q: "tb_get M j d = Some q" "j \<noteq> k" for j q
    proof -
      have "owned look q hp" using c q by (simp add: counted_def)
      then show ?thesis
        using r(2) table_okD(3)[OF ok _ q(2,1)] by (auto simp: owned_frame[OF touches_give_up] split: option.split)
    qed
    then show ?thesis using remove[of k d] ps r(1) by (auto simp: counted_def split: if_split_asm)
  next
    case Flush
    let ?gone = "filter (\<lambda>peer. \<not> tp_is_connected A peer hp) (tb_values M d)"
    have r: "d' = tb_retain M (\<lambda>peer. tp_is_connected A peer hp) d" "hp' = fold (tp_drop A) ?gone hp"
      using res Flush ps by (simp_all add: flush_disconnected_def)
    have "owned look p hp'" if "tb_get M k d' = Some p" for k p
    proof -
      have p: "tb_get M k d = Some p" "tp_is_connected A p hp"
        using that retain[of k "\<lambda>peer. tp_is_connected A peer hp" d] r(1)
        by (auto split: option.split_asm if_split_asm)
      then show ?thesis
        using r(2) owned_fold_drop[OF gone_disjoint[OF ok p]] c by (simp add: counted_def)
    qed
    then show ?thesis using ps by (simp add: counted_def)
  next
    case (Far_Disconnect k)
    show ?thesis
      using res c Far_Disconnect ps owned_disconnect by (auto simp: counted_def split: option.split_asm)
  qed
qed

lemma table_runs_counted:
  "table_ok M ps \<Longrightarrow> counted look M ps \<Longrightarrow> table_runs M A ops ps = Some ps' \<Longrightarrow> table_ok M ps' \<and> counted look M ps'"
proof (induction ops arbitrary: ps)
  case (Cons op ops)
  then obtain ps1 where one: "table_run M A op ps = Some ps1" "table_runs M A ops ps1 = Some ps'"
    by (auto simp: bind_eq_Some_conv)
  have "table_ok M ps1" "counted look M ps1"
    using table_run_ok[OF Cons.prems(1)] table_run_counted[OF Cons.prems(1,2)] one(1) by blast+
  then show ?case using Cons.IH one(2) by blast
qed simp

lemma default_counted: "counted look M (peers_default M hp)"
  by (simp add: peers_default_def counted_def get_empty)

end

interpretation peer_tables: peer_table view_queues id alist_table
  by unfold_locales

end
