(* ===== verification/Udp_Transport.thy ===== *)
theory Udp_Transport
  imports Transport_Peers
begin

text \<open>
  \<^verbatim>\<open>src/backroll_transport_udp/src/lib.rs\<close>: the manager that moves packets between one UDP socket and the
  channels of its table. The socket is an argument: what was received is given to a step, what is to be
  sent is its result. One iteration of the receiving task is \<open>udp_recv_step\<close> and one of a sending task
  \<open>udp_send_step\<close>; \<open>udp_reachable\<close> lets them, the calls of the manager and what the sessions do with
  their ends of the channels happen in any order.
\<close>

section \<open>\<open>UdpManager\<close>\<close>

type_synonym packet = "u8 list"

definition MAX_TRANSMISSION_UNIT :: nat where
  "MAX_TRANSMISSION_UNIT = 1452"

definition CLEANUP_INTERVAL :: millis where
  "CLEANUP_INTERVAL = 1000"

record 'k udp_config =
  uc_addr :: 'k
  uc_max_queue_size :: "nat option"

definition udp_unbounded :: "'k \<Rightarrow> 'k udp_config" where
  "udp_unbounded addr = \<lparr>uc_addr = addr, uc_max_queue_size = None\<rparr>"

definition udp_bounded :: "'k \<Rightarrow> nat \<Rightarrow> 'k udp_config" where
  "udp_bounded addr limit = \<lparr>uc_addr = addr, uc_max_queue_size = Some limit\<rparr>"

text \<open>The table of a manager that was just bound.\<close>

definition udp_bind :: "('k, tpeer, 'd) table_crate \<Rightarrow> 'c list \<Rightarrow> ('c, 'd) peers" where
  "udp_bind M hp = peers_default M hp"

text \<open>\<open>connect\<close> returns the session's end of the channel; the other one goes to the new sending task.\<close>

definition udp_connect ::
    "('k, tpeer, 'd) table_crate \<Rightarrow> (packet, 'c) async_crate \<Rightarrow> 'k udp_config \<Rightarrow> ('c, 'd) peers \<Rightarrow>
       ((tpeer \<times> tpeer) \<times> ('c, 'd) peers) option" where
  "udp_connect M A config ps =
     do { (peer, ps) \<leftarrow> (case uc_max_queue_size config of
            Some limit \<Rightarrow> peers_create_bounded M A (uc_addr config) limit ps
          | None \<Rightarrow> Some (peers_create_unbounded M A (uc_addr config) ps));
          let (other, ps) = peers_get M A (uc_addr config) ps;
          other \<leftarrow> other;
          Some ((peer, other), ps) }"

definition udp_disconnect ::
    "('k, tpeer, 'd) table_crate \<Rightarrow> (packet, 'c) async_crate \<Rightarrow> 'k \<Rightarrow> ('c, 'd) peers \<Rightarrow> ('c, 'd) peers" where
  "udp_disconnect M A addr ps = peers_disconnect M A addr ps"

datatype 'k send_outcome = Send_To packet 'k | Send_Waits | Send_Ends

text \<open>One iteration of \<open>send\<close>: \<open>peer.recv()\<close> gives a message, is not ready yet, or ends the task.\<close>

definition udp_send_step ::
    "(packet, 'c) async_crate \<Rightarrow> tpeer \<Rightarrow> 'k \<Rightarrow> 'c list \<Rightarrow> 'k send_outcome \<times> 'c list" where
  "udp_send_step A peer target_addr hp =
     (case tp_try_recv A peer hp of
        (Inr message, hp) \<Rightarrow> (Send_To message target_addr, hp)
      | (Inl TryRecvEmpty, hp) \<Rightarrow> (Send_Waits, hp)
      | (Inl TryRecvClosed, hp) \<Rightarrow> (Send_Ends, tp_drop A peer hp))"

text \<open>\<open>forward_packet\<close> owns its handle and ignores the errors.\<close>

definition forward_packet :: "(packet, 'c) async_crate \<Rightarrow> tpeer \<Rightarrow> packet \<Rightarrow> 'c list \<Rightarrow> 'c list" where
  "forward_packet A peer data hp = tp_drop A peer (snd (tp_try_send A peer data hp))"

text \<open>One iteration of \<open>recv\<close>; \<open>received\<close> is the part of the datagram that fits the buffer and its sender.\<close>

definition udp_recv_step ::
    "('k, tpeer, 'd) table_crate \<Rightarrow> (packet, 'c) async_crate \<Rightarrow> millis \<Rightarrow> millis \<Rightarrow> (packet \<times> 'k) option \<Rightarrow>
       ('c, 'd) peers \<Rightarrow> ('c, 'd) peers option" where
  "udp_recv_step M A now last_flush received ps =
     do { ps \<leftarrow> (case received of
            Some (data, addr) \<Rightarrow>
              do { debug_assert (length data < MAX_TRANSMISSION_UNIT);
                   let (peer, ps) = peers_get M A addr ps;
                   Some (case peer of
                       Some peer \<Rightarrow> (fst ps, forward_packet A peer data (snd ps))
                     | None \<Rightarrow> ps) }
          | None \<Rightarrow> Some ps);
          Some (if now - last_flush > CLEANUP_INTERVAL then flush_disconnected M A ps else ps) }"

section \<open>Runs of a manager\<close>

inductive udp_reachable :: "('k, tpeer, 'd) table_crate \<Rightarrow> (packet, 'c) async_crate \<Rightarrow> ('c, 'd) peers \<Rightarrow> bool" for M A where
  bind: "udp_reachable M A (udp_bind M hp)"
| connect: "udp_reachable M A ps \<Longrightarrow> udp_connect M A config ps = Some (r, ps') \<Longrightarrow> udp_reachable M A ps'"
| disconnect: "udp_reachable M A ps \<Longrightarrow> udp_reachable M A (udp_disconnect M A addr ps)"
| receive: "udp_reachable M A ps \<Longrightarrow> udp_recv_step M A now last_flush received ps = Some ps' \<Longrightarrow> udp_reachable M A ps'"
| session_sends: "udp_reachable M A (d, hp) \<Longrightarrow> tb_get M k d = Some p \<Longrightarrow>
    udp_reachable M A (d, snd (tp_try_send A (other_end p) m hp))"
| session_receives: "udp_reachable M A (d, hp) \<Longrightarrow> tb_get M k d = Some p \<Longrightarrow>
    udp_reachable M A (d, snd (tp_try_recv A (other_end p) hp))"
| session_disconnects: "udp_reachable M A (d, hp) \<Longrightarrow> tb_get M k d = Some p \<Longrightarrow>
    udp_reachable M A (d, tp_disconnect A (other_end p) hp)"
| task_sends: "udp_reachable M A (d, hp) \<Longrightarrow> tb_get M k d = Some p \<Longrightarrow>
    udp_send_step A p k hp = (Send_To m k, hp') \<Longrightarrow> udp_reachable M A (d, hp')"

lemma handles_other_end [simp]: "handles (other_end p) = handles p"
  by (auto simp: handles_def other_end_def)

lemma touches_other_end [simp]: "touches (other_end p) hp hp' = touches p hp hp'"
  by (simp add: touches_def)

definition manager_ok :: "('c \<Rightarrow> packet chan_view) \<Rightarrow> ('k, tpeer, 'd) table_crate \<Rightarrow> ('c, 'd) peers \<Rightarrow> bool" where
  "manager_ok look M ps \<longleftrightarrow> table_ok M ps \<and> counted look M ps"

text \<open>What happens to a received packet before the clean-up; the Steam transport has the same code.\<close>

definition deliver ::
    "('k, tpeer, 'd) table_crate \<Rightarrow> (packet, 'c) async_crate \<Rightarrow> 'k \<Rightarrow> packet \<Rightarrow> ('c, 'd) peers \<Rightarrow> ('c, 'd) peers" where
  "deliver M A k data ps =
     (let (peer, ps) = peers_get M A k ps in
      case peer of Some peer \<Rightarrow> (fst ps, forward_packet A peer data (snd ps)) | None \<Rightarrow> ps)"

abbreviation cleaned ::
    "('k, tpeer, 'd) table_crate \<Rightarrow> (packet, 'c) async_crate \<Rightarrow> bool \<Rightarrow> ('c, 'd) peers \<Rightarrow> ('c, 'd) peers" where
  "cleaned M A due ps \<equiv> (if due then flush_disconnected M A ps else ps)"

lemma udp_recv_step_eq:
  "udp_recv_step M A now last_flush received ps =
     map_option (cleaned M A (now - last_flush > CLEANUP_INTERVAL)) (case received of
       Some (data, addr) \<Rightarrow> if length data < MAX_TRANSMISSION_UNIT then Some (deliver M A addr data ps) else None
     | None \<Rightarrow> Some ps)"
  by (auto simp: udp_recv_step_def deliver_def Let_def split: option.split prod.split)

locale udp_manager = peer_table A look M
  for A :: "(packet, 'c) async_crate" and look :: "'c \<Rightarrow> packet chan_view" and M :: "('k, tpeer, 'd) table_crate"
begin

lemma owned_send: "owned look p hp \<Longrightarrow> owned look p (snd (tp_try_send A q m hp))"
  by (auto simp: owned_def tp_try_send_def snd_on_queue change_queue_nth look_try_send view_send_def)

lemma owned_recv: "owned look p hp \<Longrightarrow> owned look p (snd (tp_try_recv A q hp))"
  by (auto simp: owned_def tp_try_recv_def snd_on_queue change_queue_nth look_try_recv view_recv_def split: list.split)

lemma connected_send [simp]: "tp_is_connected A p (snd (tp_try_send A q m hp)) = tp_is_connected A p hp"
  by (auto simp: connected_iff tp_try_send_def snd_on_queue change_queue_nth look_try_send view_send_def)

lemma connected_recv [simp]: "tp_is_connected A p (snd (tp_try_recv A q hp)) = tp_is_connected A p hp"
  by (auto simp: connected_iff tp_try_recv_def snd_on_queue change_queue_nth look_try_recv view_recv_def split: list.split)

text \<open>Forwarding to a clone of an entry does to its queues what sending does.\<close>

lemma look_forward:
  assumes own: "owned look p hp" and neq: "tp_incoming p \<noteq> tp_outgoing p" and addr: "\<forall>i \<in> handles p. i < length hp"
  shows "look (forward_packet A p data (tp_clone A p hp) ! i) =
    (if i = tp_outgoing p then snd (view_send data (look (hp ! i))) else look (hp ! i))"
  using assms
  by (auto simp: owned_def handles_def forward_packet_def tp_clone_def tp_drop_def tp_sender_def tp_reciever_def
      tp_try_send_def snd_on_queue change_queue_nth clone_sender clone_receiver drop_sender drop_receiver
      view_drop_sender_def view_drop_receiver_def look_try_send view_send_def)

lemma touches_forward: "touches p hp (forward_packet A p data (tp_clone A p hp))"
  unfolding forward_packet_def by (rule touches_trans[OF touches_ops(1) touches_trans[OF touches_queue_ops(1) touches_ops(2)]])

lemma manager_touched:
  assumes ok: "manager_ok look M (d, hp)" and p: "tb_get M k d = Some p" and hp': "touches p hp hp'" "owned look p hp'"
  shows "manager_ok look M (d, hp')"
  using assms table_ok_length[OF _ touches_length[OF hp'(1)]] counted_touched[OF _ _ p hp'] by (auto simp: manager_ok_def)

text \<open>What the receiving task does with one packet before it cleans up.\<close>

lemma forward_ok:
  assumes ok: "manager_ok look M (d, hp)" and p: "tb_get M k d = Some p"
  shows "manager_ok look M (d, forward_packet A p data (tp_clone A p hp))"
    and "live M A (d, forward_packet A p data (tp_clone A p hp)) = live M A (d, hp)"
proof -
  let ?hp = "forward_packet A p data (tp_clone A p hp)"
  have inv: "owned look p hp" "tp_incoming p \<noteq> tp_outgoing p" "\<forall>i \<in> handles p. i < length hp" "table_ok M (d, hp)"
    using ok p table_okD[of M d hp k p] by (auto simp: manager_ok_def counted_def)
  note look = look_forward[OF inv(1-3), of data]
  have own: "owned look p ?hp" and conn: "tp_is_connected A p ?hp = tp_is_connected A p hp"
    using inv(1) look by (auto simp: owned_def connected_iff view_send_def)
  show "manager_ok look M (d, ?hp)" by (rule manager_touched[OF ok p touches_forward own])
  show "live M A (d, ?hp) = live M A (d, hp)"
    using live_touched[OF inv(4) p touches_forward] conn p by (auto simp: in_live)
qed

lemma flush_manager_ok:
  assumes "manager_ok look M ps"
  shows "manager_ok look M (flush_disconnected M A ps)" and "live M A (flush_disconnected M A ps) = live M A ps"
proof -
  show "manager_ok look M (flush_disconnected M A ps)"
    using assms table_run_ok[of ps Flush] table_run_counted[of ps Flush] by (simp add: manager_ok_def)
  show "live M A (flush_disconnected M A ps) = live M A ps"
    using assms table_run_ok[of ps Flush] by (simp add: manager_ok_def)
qed

lemma cleaned_ok:
  assumes "manager_ok look M ps"
  shows "manager_ok look M (cleaned M A due ps)" and "live M A (cleaned M A due ps) = live M A ps"
  using flush_manager_ok[OF assms] assms by auto

lemma deliver_ok:
  assumes ok: "manager_ok look M ps"
  shows "manager_ok look M (deliver M A k data ps)" and "live M A (deliver M A k data ps) = live M A ps"
proof -
  obtain d hp where ps: "ps = (d, hp)" by force
  have "manager_ok look M (deliver M A k data ps) \<and> live M A (deliver M A k data ps) = live M A ps"
  proof (cases "k \<in> live M A (d, hp)")
    case True
    then obtain p where p: "tb_get M k d = Some p" "tp_is_connected A p hp" by (auto simp: in_live)
    then have "peers_get M A k ps = (Some p, (d, tp_clone A p hp))" by (simp add: peers_get_def ps)
    then show ?thesis using forward_ok[OF ok[unfolded ps] p(1), of data] ps by (simp add: deliver_def)
  next
    case False
    obtain hp' where g: "peers_get M A k (d, hp) = (None, (d, hp'))" "table_ok M (d, hp')" "live M A (d, hp') = live M A (d, hp)"
      using get_ok[of d hp k] ok False ps by (auto simp: manager_ok_def)
    moreover have "counted look M (d, hp')" using get_counted[OF _ _ g(1)] ok ps by (simp add: manager_ok_def)
    ultimately show ?thesis using ps by (simp add: manager_ok_def deliver_def)
  qed
  then show "manager_ok look M (deliver M A k data ps)" "live M A (deliver M A k data ps) = live M A ps" by blast+
qed

lemma udp_recv_ok:
  assumes ok: "manager_ok look M ps" and len: "\<And>data addr. received = Some (data, addr) \<Longrightarrow> length data < MAX_TRANSMISSION_UNIT"
  obtains ps' where "udp_recv_step M A now last_flush received ps = Some ps'" and "manager_ok look M ps'"
    and "live M A ps' = live M A ps"
proof (cases received)
  case None
  then show ?thesis
    using cleaned_ok[OF ok] by (intro that[of "cleaned M A (now - last_flush > CLEANUP_INTERVAL) ps"])
      (simp_all only: udp_recv_step_eq option.case option.map)
next
  case (Some packet)
  obtain data k where packet: "packet = (data, k)" by force
  then have "length data < MAX_TRANSMISSION_UNIT" using len Some by simp
  then show ?thesis
    using cleaned_ok[OF deliver_ok(1)[OF ok]] deliver_ok(2)[OF ok]
    by (intro that[of "cleaned M A (now - last_flush > CLEANUP_INTERVAL) (deliver M A k data ps)"])
      (simp_all only: udp_recv_step_eq Some packet option.case option.map prod.case if_True)
qed

lemma udp_connect_ok:
  assumes ok: "manager_ok look M ps" and limit: "uc_max_queue_size config \<noteq> Some 0"
  obtains peer other ps' where "udp_connect M A config ps = Some ((peer, other), ps')" and "manager_ok look M ps'"
    and "live M A ps' = insert (uc_addr config) (live M A ps)" and "linked other peer (snd ps')"
    and "tb_get M (uc_addr config) (fst ps') = Some other" and "tp_is_connected A peer (snd ps')"
proof -
  obtain d hp where ps: "ps = (d, hp)" by force
  let ?k = "uc_addr config"
  let ?new = "case uc_max_queue_size config of Some limit \<Rightarrow> peers_create_bounded M A ?k limit ps
    | None \<Rightarrow> Some (peers_create_unbounded M A ?k ps)"
  have "\<exists>peer d1 hp1 other. ?new = Some (peer, (d1, hp1)) \<and> manager_ok look M (d1, hp1) \<and>
    live M A (d1, hp1) = insert ?k (live M A ps) \<and> tb_get M ?k d1 = Some other \<and> linked other peer hp1 \<and>
    tp_is_connected A peer hp1"
  proof (cases "uc_max_queue_size config")
    case None
    obtain peer d1 hp1 where r: "peers_create_unbounded M A ?k (d, hp) = (peer, (d1, hp1))" by (metis surj_pair)
    have "table_ok M (d, hp)" using ok ps by (simp add: manager_ok_def)
    note new = create_unbounded_ok[OF this r]
    have "counted look M (d1, hp1)"
      using table_run_counted[of ps "Create_Unbounded ?k"] ok r ps by (simp add: manager_ok_def)
    then show ?thesis using None new(1-4) r ps by (auto simp: manager_ok_def)
  next
    case (Some n)
    then have "0 < n" using limit by simp
    then obtain peer d1 hp1 where r: "peers_create_bounded M A ?k n (d, hp) = Some (peer, (d1, hp1))"
      using create_bounded_returns[of ?k n d hp] by (metis not_Some_eq surj_pair)
    have "table_ok M (d, hp)" using ok ps by (simp add: manager_ok_def)
    note new = create_bounded_ok[OF this r]
    have "counted look M (d1, hp1)"
      using table_run_counted[of ps "Create_Bounded ?k n"] ok r ps by (simp add: manager_ok_def)
    then show ?thesis using Some new r ps by (auto simp: manager_ok_def)
  qed
  then obtain peer d1 hp1 other where one: "?new = Some (peer, (d1, hp1))" "manager_ok look M (d1, hp1)"
    "live M A (d1, hp1) = insert ?k (live M A ps)" "tb_get M ?k d1 = Some other" "linked other peer hp1"
    "tp_is_connected A peer hp1" by blast
  have t: "table_ok M (d1, hp1)" "counted look M (d1, hp1)" using one(2) by (simp_all add: manager_ok_def)
  have conn: "tp_is_connected A other hp1" using one(6) linked_handles[OF one(5)] by (simp add: connected_iff)
  then have g: "peers_get M A ?k (d1, hp1) = (Some other, (d1, tp_clone A other hp1))"
    using one(4) by (simp add: peers_get_def)
  obtain hp2 where "peers_get M A ?k (d1, hp1) = (if ?k \<in> live M A (d1, hp1) then tb_get M ?k d1 else None, (d1, hp2))"
    "table_ok M (d1, hp2)" "live M A (d1, hp2) = live M A (d1, hp1)" by (rule get_ok[OF t(1)])
  then have "table_ok M (d1, tp_clone A other hp1)" "live M A (d1, tp_clone A other hp1) = live M A (d1, hp1)"
    using g by simp_all
  moreover have "counted look M (d1, tp_clone A other hp1)" by (rule get_counted[OF t g])
  moreover have "linked other peer (tp_clone A other hp1)"
    using one(5) touches_length[OF touches_ops(1)] linked_length by blast
  moreover have "udp_connect M A config ps = Some ((peer, other), (d1, tp_clone A other hp1))"
    unfolding udp_connect_def by (subst one(1)) (simp add: g)
  ultimately show ?thesis using one(3,4,6)
    by (intro that[of peer other "(d1, tp_clone A other hp1)"]) (simp_all add: manager_ok_def connected_clone)
qed

lemma udp_connect_zero: "uc_max_queue_size config = Some 0 \<Longrightarrow> udp_connect M A config ps = None"
  using create_bounded_returns[of "uc_addr config" 0 "fst ps" "snd ps"] unfolding not_not prod.collapse
  by (cases "peers_create_bounded M A (uc_addr config) 0 ps") (simp_all add: udp_connect_def)

lemma udp_disconnect_manager_ok:
  assumes "manager_ok look M ps"
  shows "manager_ok look M (udp_disconnect M A addr ps)"
    and "live M A (udp_disconnect M A addr ps) = live M A ps - {addr}"
proof -
  show "manager_ok look M (udp_disconnect M A addr ps)"
    using assms table_run_ok[of ps "Disconnect addr"] table_run_counted[of ps "Disconnect addr"]
    by (simp add: manager_ok_def udp_disconnect_def)
  show "live M A (udp_disconnect M A addr ps) = live M A ps - {addr}"
    using assms table_run_ok[of ps "Disconnect addr"] by (simp add: manager_ok_def udp_disconnect_def)
qed

text \<open>What a session does with its end of a channel, and a sending task with the other one.\<close>

lemma channel_steps_ok:
  assumes ok: "manager_ok look M (d, hp)" and p: "tb_get M k d = Some p"
  shows "manager_ok look M (d, snd (tp_try_send A (other_end p) m hp))"
    and "manager_ok look M (d, snd (tp_try_recv A (other_end p) hp))"
    and "manager_ok look M (d, tp_disconnect A (other_end p) hp)"
    and "manager_ok look M (d, snd (tp_try_recv A p hp))"
proof -
  have own: "owned look p hp" using ok p by (simp add: manager_ok_def counted_def)
  show "manager_ok look M (d, snd (tp_try_send A (other_end p) m hp))"
    by (rule manager_touched[OF ok p touches_queue_ops(1)[of "other_end p" hp A m, unfolded touches_other_end] owned_send[OF own]])
  show "manager_ok look M (d, snd (tp_try_recv A (other_end p) hp))"
    by (rule manager_touched[OF ok p touches_queue_ops(2)[of "other_end p" hp A, unfolded touches_other_end] owned_recv[OF own]])
  show "manager_ok look M (d, tp_disconnect A (other_end p) hp)"
    by (rule manager_touched[OF ok p touches_ops(3)[of "other_end p" hp A, unfolded touches_other_end] owned_disconnect[OF own]])
  show "manager_ok look M (d, snd (tp_try_recv A p hp))"
    by (rule manager_touched[OF ok p touches_queue_ops(2) owned_recv[OF own]])
qed

lemma udp_reachable_ok: "udp_reachable M A ps \<Longrightarrow> manager_ok look M ps"
proof (induction rule: udp_reachable.induct)
  case (bind hp)
  then show ?case by (simp add: manager_ok_def udp_bind_def default_ok default_counted)
next
  case (connect ps config r ps')
  then have "uc_max_queue_size config \<noteq> Some 0" using udp_connect_zero[of config ps] by auto
  then show ?case using udp_connect_ok[OF connect.IH] connect.hyps(2) by (metis option.inject prod.inject)
next
  case (disconnect ps addr)
  then show ?case using udp_disconnect_manager_ok by blast
next
  case (receive ps now last_flush received ps')
  then have "length data < MAX_TRANSMISSION_UNIT" if "received = Some (data, addr)" for data addr
    using that by (auto simp: udp_recv_step_def bind_eq_Some_conv)
  then show ?case using udp_recv_ok[OF receive.IH] receive.hyps(2) by (metis option.inject)
next
  case (task_sends d hp k p m hp')
  then have "hp' = snd (tp_try_recv A p hp)"
    by (auto simp: udp_send_step_def split: prod.splits sum.splits try_recv_error.splits)
  then show ?case using channel_steps_ok(4)[OF task_sends.IH task_sends.hyps(2)] by simp
qed (rule channel_steps_ok; assumption)+

text \<open>Where a received packet goes.\<close>

lemma deliver_reaches:
  assumes ok: "manager_ok look M (d, hp)" and p: "tb_get M k d = Some p" "k \<in> live M A (d, hp)"
  shows "look (snd (cleaned M A due (deliver M A k data (d, hp))) ! tp_outgoing p) =
      snd (view_send data (look (hp ! tp_outgoing p)))" (is ?reached)
    and "j \<noteq> k \<Longrightarrow> tb_get M j d = Some q \<Longrightarrow> j \<in> live M A (d, hp) \<Longrightarrow> i \<in> handles q \<Longrightarrow>
      snd (cleaned M A due (deliver M A k data (d, hp))) ! i = hp ! i" (is "_ \<Longrightarrow> _ \<Longrightarrow> _ \<Longrightarrow> _ \<Longrightarrow> ?kept")
proof -
  let ?hp = "forward_packet A p data (tp_clone A p hp)"
  have inv: "owned look p hp" "tp_incoming p \<noteq> tp_outgoing p" "\<forall>i \<in> handles p. i < length hp" "table_ok M (d, hp)"
    using ok p(1) table_okD[of M d hp k p] by (auto simp: manager_ok_def counted_def)
  have fwd: "manager_ok look M (d, ?hp)" "live M A (d, ?hp) = live M A (d, hp)" by (rule forward_ok[OF ok p(1)])+
  have kept: "snd (cleaned M A due (d, ?hp)) ! i = ?hp ! i"
    if "tb_get M j d = Some q" "j \<in> live M A (d, hp)" "i \<in> handles q" for j q i
  proof -
    have "j \<in> live M A (d, ?hp)" using that(2) fwd(2) by simp
    then have "tp_is_connected A q ?hp" using that(1) by (simp add: in_live)
    then show ?thesis using flush_frame[OF _ that(1) _ that(3)] fwd(1) by (simp add: manager_ok_def)
  qed
  have "tp_is_connected A p hp" using p by (simp add: in_live)
  then have del: "deliver M A k data (d, hp) = (d, ?hp)" using p(1) by (simp add: deliver_def peers_get_def)
  show ?reached unfolding del
    using kept[OF p, of "tp_outgoing p"] look_forward[OF inv(1-3), of data "tp_outgoing p"] by (simp add: handles_def)
  show ?kept if "j \<noteq> k" "tb_get M j d = Some q" "j \<in> live M A (d, hp)" "i \<in> handles q"
  proof -
    have "i \<notin> handles p" using table_okD(3)[OF inv(4) p(1) that(1,2)] that(4) by blast
    then show ?thesis unfolding del using kept[OF that(2-4)] touches_forward[of p hp data] by (simp add: touches_def)
  qed
qed

text \<open>A message on an empty, open channel is what the sending task gets; a delivered packet is what the session gets.\<close>

lemma message_leaves:
  assumes "linked p q hp" and "tp_is_connected A q hp" and "tp_pending_send_count A q hp = 0"
    and "\<not> full_view (look (hp ! tp_outgoing q))"
  shows "fst (tp_try_send A q m hp) = Inr ()" and "fst (tp_try_recv A p (snd (tp_try_send A q m hp))) = Inr m"
proof -
  have addr: "tp_incoming p = tp_outgoing q" "tp_outgoing q < length hp"
    using assms(1) by (auto simp: linked_def handles_def)
  have empty: "cv_items (look (hp ! tp_outgoing q)) = []"
    using assms(3) by (simp add: tp_pending_send_count_def len)
  have opn: "\<not> cv_closed (look (hp ! tp_outgoing q))" using assms(2) by (simp add: connected_iff handles_def)
  show "fst (tp_try_send A q m hp) = Inr ()"
    using opn assms(4) by (simp add: tp_try_send_def look_try_send view_send_def)
  have "look (snd (tp_try_send A q m hp) ! tp_incoming p) = snd (view_send m (look (hp ! tp_outgoing q)))"
    using addr by (simp add: tp_try_send_def look_try_send)
  then show "fst (tp_try_recv A p (snd (tp_try_send A q m hp))) = Inr m"
    using empty opn assms(4) by (simp add: tp_try_recv_def look_try_recv view_recv_def view_send_def)
qed

lemma linked_live:
  "tb_get M k e = Some p \<Longrightarrow> linked p q hq \<Longrightarrow> tp_is_connected A q hq \<Longrightarrow> k \<in> live M A (e, hq)"
  by (auto simp: in_live connected_iff dest!: linked_handles)

lemma message_arrives:
  assumes "manager_ok look M (e, hq)" and "tb_get M k e = Some p" and "linked p q hq" and "tp_is_connected A q hq"
    and "tp_pending_recv_count A q hq = 0" and "\<not> full_view (look (hq ! tp_incoming q))"
  shows "fst (tp_try_recv A q (snd (cleaned M A due (deliver M A k m (e, hq))))) = Inr m"
proof -
  have addr: "tp_outgoing p = tp_incoming q" using assms(3) by (auto simp: linked_def handles_def)
  have empty: "cv_items (look (hq ! tp_incoming q)) = []" using assms(5) by (simp add: tp_pending_recv_count_def len)
  have opn: "\<not> cv_closed (look (hq ! tp_incoming q))" using assms(4) by (simp add: connected_iff handles_def)
  have "k \<in> live M A (e, hq)" by (rule linked_live[OF assms(2-4)])
  then have "look (snd (cleaned M A due (deliver M A k m (e, hq))) ! tp_outgoing p) =
      snd (view_send m (look (hq ! tp_outgoing p)))"
    by (rule deliver_reaches(1)[OF assms(1,2)])
  then show ?thesis
    using empty opn assms(6) addr by (simp add: tp_try_recv_def look_try_recv view_recv_def view_send_def)
qed

lemma packet_crosses:
  assumes a: "udp_reachable M A (d, hp)" "tb_get M kb d = Some pa" "linked pa qa hp" "tp_is_connected A qa hp"
      "tp_pending_send_count A qa hp = 0" "\<not> full_view (look (hp ! tp_outgoing qa))"
    and b: "udp_reachable M A (e, hq)" "tb_get M ka e = Some pb" "linked pb qb hq" "tp_is_connected A qb hq"
      "tp_pending_recv_count A qb hq = 0" "\<not> full_view (look (hq ! tp_incoming qb))"
    and short: "length m < MAX_TRANSMISSION_UNIT"
  shows "fst (tp_try_send A qa m hp) = Inr () \<and>
    fst (udp_send_step A pa kb (snd (tp_try_send A qa m hp))) = Send_To m kb \<and>
    (\<exists>ps'. udp_recv_step M A now last_flush (Some (m, ka)) (e, hq) = Some ps' \<and> fst (tp_try_recv A qb (snd ps')) = Inr m)"
proof -
  note out = message_leaves[OF a(3-6), of m]
  have "fst (udp_send_step A pa kb (snd (tp_try_send A qa m hp))) = Send_To m kb"
    using out(2) by (cases "tp_try_recv A pa (snd (tp_try_send A qa m hp))") (simp add: udp_send_step_def)
  moreover have "udp_recv_step M A now last_flush (Some (m, ka)) (e, hq) =
      Some (cleaned M A (now - last_flush > CLEANUP_INTERVAL) (deliver M A ka m (e, hq)))"
    using short by (simp only: udp_recv_step_eq option.case option.map prod.case if_True)
  moreover note message_arrives[OF udp_reachable_ok[OF b(1)] b(2-6)]
  ultimately show ?thesis using out(1) by blast
qed

end

interpretation udp_managers: udp_manager view_queues id alist_table
  by unfold_locales

section \<open>Concrete channels and managers\<close>

definition demo_traffic :: "nat traffic list" where
  "demo_traffic = [Sends True 1, Sends False 4, Sends True 2, Receives False, Sends True 3, Closes True, Sends True 9, Receives False]"

text \<open>The two ends of the first connection of a new manager, its table and its queues.\<close>

definition demo_far :: tpeer where
  "demo_far = \<lparr>tp_incoming = 0, tp_outgoing = 1\<rparr>"

definition demo_near :: tpeer where
  "demo_near = \<lparr>tp_incoming = 1, tp_outgoing = 0\<rparr>"

definition demo_table :: "(nat, tpeer) alist" where
  "demo_table = DAList.update 1 demo_far DAList.empty"

definition demo_queues :: "packet chan_view list" where
  "demo_queues = [(fresh_view None)\<lparr>cv_senders := 1, cv_receivers := 2\<rparr>,
     (fresh_view None)\<lparr>cv_senders := 2, cv_receivers := 1\<rparr>]"

lemma demo_udp_connect:
  "udp_connect alist_table view_queues (udp_unbounded 1) (udp_bind alist_table []) =
     Some ((demo_near, demo_far), (demo_table, demo_queues))"
  by (simp add: udp_connect_def udp_unbounded_def udp_bind_def peers_default_def peers_create_unbounded_def
      create_unbounded_pair_def create_pair_def peers_get_def alist_table_def view_queues_def tp_is_connected_def
      tp_clone_def tp_sender_def tp_reciever_def change_queue_def fresh_view_def demo_near_def demo_far_def
      demo_table_def demo_queues_def)

lemma demo_connection:
  "tb_get alist_table (1::nat) demo_table = Some demo_far" "linked demo_far demo_near demo_queues"
  "tp_is_connected view_queues demo_near demo_queues" "tp_pending_send_count view_queues demo_near demo_queues = 0"
  "tp_pending_recv_count view_queues demo_near demo_queues = 0"
  "\<not> full_view (demo_queues ! tp_outgoing demo_near)" "\<not> full_view (demo_queues ! tp_incoming demo_near)"
  by (simp_all add: alist_table_def linked_def handles_def tp_is_connected_def view_queues_def fresh_view_def
      tp_pending_send_count_def tp_pending_recv_count_def full_view_def demo_near_def demo_far_def demo_table_def demo_queues_def)

lemma demo_udp_connected:
  obtains peer other d and hp :: "packet chan_view list" where "udp_reachable alist_table view_queues (d, hp)"
    and "tb_get alist_table (1::nat) d = Some other" and "linked other peer hp" and "tp_is_connected view_queues peer hp"
    and "tp_pending_send_count view_queues peer hp = 0" and "tp_pending_recv_count view_queues peer hp = 0"
    and "\<not> full_view (hp ! tp_outgoing peer)" and "\<not> full_view (hp ! tp_incoming peer)"
  by (rule that[OF udp_reachable.connect[OF udp_reachable.bind demo_udp_connect] demo_connection])

end
