(* ===== verification/Steam_Transport.thy ===== *)
theory Steam_Transport
  imports Udp_Transport
begin

text \<open>
  \<^verbatim>\<open>src/backroll_transport_steam/src/lib.rs\<close>: the manager that moves packets between Steam's networking
  and the channels of its table. Steam is code outside the repository: a step is given the size of the
  packet that is available and what reading it into a buffer of some size yields, and what is asked of
  Steam is the result of a step.
\<close>

section \<open>\<open>SteamP2PManager\<close>\<close>

definition UNRELIABLE_MTU :: nat where
  "UNRELIABLE_MTU = 1200"

definition STEAM_CLEANUP_INTERVAL :: millis where
  "STEAM_CLEANUP_INTERVAL = 20000"

record 'k steam_config =
  sc_remote :: 'k
  sc_max_queue_size :: "nat option"

definition steam_unbounded :: "'k \<Rightarrow> 'k steam_config" where
  "steam_unbounded remote = \<lparr>sc_remote = remote, sc_max_queue_size = None\<rparr>"

definition steam_bounded :: "'k \<Rightarrow> nat \<Rightarrow> 'k steam_config" where
  "steam_bounded remote limit = \<lparr>sc_remote = remote, sc_max_queue_size = Some limit\<rparr>"

text \<open>The manager between two steps: the length of the buffer of its receiving thread, and its table.\<close>

type_synonym ('c, 'd) steam = "nat \<times> ('c, 'd) peers"

definition steam_bind :: "('k, tpeer, 'd) table_crate \<Rightarrow> 'c list \<Rightarrow> ('c, 'd) steam" where
  "steam_bind M hp = (UNRELIABLE_MTU, peers_default M hp)"

text \<open>The callback for a request of a new session; with no manager left it does nothing.\<close>

datatype request_answer = Accept_Session | Close_Session

definition session_request ::
    "('k, tpeer, 'd) table_crate \<Rightarrow> (packet, 'c) async_crate \<Rightarrow> 'k \<Rightarrow> ('c, 'd) steam option \<Rightarrow> request_answer option" where
  "session_request M A remote manager =
     (case manager of
        Some (_, peers) \<Rightarrow> Some (if peers_contains M A remote peers then Accept_Session else Close_Session)
      | None \<Rightarrow> None)"

definition steam_connect ::
    "('k, tpeer, 'd) table_crate \<Rightarrow> (packet, 'c) async_crate \<Rightarrow> 'k steam_config \<Rightarrow> ('c, 'd) steam \<Rightarrow>
       ((tpeer \<times> tpeer) \<times> ('c, 'd) steam) option" where
  "steam_connect M A config manager =
     do { (peer, ps) \<leftarrow> (case sc_max_queue_size config of
            Some limit \<Rightarrow> peers_create_bounded M A (sc_remote config) limit (snd manager)
          | None \<Rightarrow> Some (peers_create_unbounded M A (sc_remote config) (snd manager)));
          let (other, ps) = peers_get M A (sc_remote config) ps;
          other \<leftarrow> other;
          Some ((peer, other), (fst manager, ps)) }"

definition steam_disconnect ::
    "('k, tpeer, 'd) table_crate \<Rightarrow> (packet, 'c) async_crate \<Rightarrow> 'k \<Rightarrow> ('c, 'd) steam \<Rightarrow> ('c, 'd) steam" where
  "steam_disconnect M A remote manager = (fst manager, peers_disconnect M A remote (snd manager))"

text \<open>One iteration of \<open>send\<close>. A message that is too big is only logged; the end of the task closes the session.\<close>

datatype 'k steam_outcome = Send_P2P packet 'k | Too_Big packet | Steam_Waits | Close_P2P 'k

definition steam_send_step ::
    "(packet, 'c) async_crate \<Rightarrow> tpeer \<Rightarrow> 'k \<Rightarrow> 'c list \<Rightarrow> 'k steam_outcome \<times> 'c list" where
  "steam_send_step A peer remote hp =
     (case tp_try_recv A peer hp of
        (Inr message, hp) \<Rightarrow> (if length message > UNRELIABLE_MTU then Too_Big message else Send_P2P message remote, hp)
      | (Inl TryRecvEmpty, hp) \<Rightarrow> (Steam_Waits, hp)
      | (Inl TryRecvClosed, hp) \<Rightarrow> (Close_P2P remote, tp_drop A peer hp))"

definition steam_forward_packet :: "(packet, 'c) async_crate \<Rightarrow> tpeer \<Rightarrow> packet \<Rightarrow> 'c list \<Rightarrow> 'c list" where
  "steam_forward_packet A peer data hp = tp_drop A peer (snd (tp_try_send A peer data hp))"

text \<open>
  One iteration of \<open>recv\<close>. \<open>available\<close> is the size of the next packet and \<open>read n\<close> is what reading it into
  a buffer of \<open>n\<close> bytes gives: its sender and the bytes written; \<open>unwrap\<close> panics on \<open>None\<close>.
\<close>

definition steam_recv_step ::
    "('k, tpeer, 'd) table_crate \<Rightarrow> (packet, 'c) async_crate \<Rightarrow> millis \<Rightarrow> millis \<Rightarrow> nat option \<Rightarrow>
       (nat \<Rightarrow> ('k \<times> packet) option) \<Rightarrow> ('c, 'd) steam \<Rightarrow> ('c, 'd) steam option" where
  "steam_recv_step M A now last_flush available read manager =
     do { (buf, ps) \<leftarrow> (case available of
            Some n \<Rightarrow>
              do { let buf = (if n \<ge> fst manager then n else fst manager);
                   (remote, data) \<leftarrow> read buf;
                   debug_assert (length data \<le> buf);
                   let (peer, ps) = peers_get M A remote (snd manager);
                   Some (buf, case peer of
                       Some peer \<Rightarrow> (fst ps, steam_forward_packet A peer data (snd ps))
                     | None \<Rightarrow> ps) }
          | None \<Rightarrow> Some manager);
          Some (buf, if now - last_flush > STEAM_CLEANUP_INTERVAL then flush_disconnected M A ps else ps) }"

text \<open>What Steam's documentation says of reading: a packet that is available fits a buffer of its size.\<close>

definition reads_packet :: "nat \<Rightarrow> 'k \<Rightarrow> packet \<Rightarrow> (nat \<Rightarrow> ('k \<times> packet) option) \<Rightarrow> bool" where
  "reads_packet n remote data read \<longleftrightarrow> length data = n \<and> (\<forall>buf. n \<le> buf \<longrightarrow> read buf = Some (remote, data))"

section \<open>Runs of a manager\<close>

inductive steam_reachable :: "('k, tpeer, 'd) table_crate \<Rightarrow> (packet, 'c) async_crate \<Rightarrow> ('c, 'd) steam \<Rightarrow> bool" for M A where
  bind: "steam_reachable M A (steam_bind M hp)"
| connect: "steam_reachable M A sm \<Longrightarrow> steam_connect M A config sm = Some (r, sm') \<Longrightarrow> steam_reachable M A sm'"
| disconnect: "steam_reachable M A sm \<Longrightarrow> steam_reachable M A (steam_disconnect M A remote sm)"
| receive: "steam_reachable M A sm \<Longrightarrow> steam_recv_step M A now last_flush available read sm = Some sm' \<Longrightarrow>
    steam_reachable M A sm'"
| session_sends: "steam_reachable M A (n, d, hp) \<Longrightarrow> tb_get M k d = Some p \<Longrightarrow>
    steam_reachable M A (n, d, snd (tp_try_send A (other_end p) m hp))"
| session_receives: "steam_reachable M A (n, d, hp) \<Longrightarrow> tb_get M k d = Some p \<Longrightarrow>
    steam_reachable M A (n, d, snd (tp_try_recv A (other_end p) hp))"
| session_disconnects: "steam_reachable M A (n, d, hp) \<Longrightarrow> tb_get M k d = Some p \<Longrightarrow>
    steam_reachable M A (n, d, tp_disconnect A (other_end p) hp)"
| task_takes: "steam_reachable M A (n, d, hp) \<Longrightarrow> tb_get M k d = Some p \<Longrightarrow>
    steam_send_step A p k hp = (Send_P2P m k, hp') \<or> steam_send_step A p k hp = (Too_Big m, hp') \<Longrightarrow>
    steam_reachable M A (n, d, hp')"

text \<open>The table is used as the UDP manager uses it.\<close>

lemma steam_forward_packet_eq: "steam_forward_packet = forward_packet"
  by (simp add: fun_eq_iff steam_forward_packet_def forward_packet_def)

lemma steam_connect_eq:
  "steam_connect M A config manager =
     map_option (\<lambda>(r, ps). (r, (fst manager, ps)))
       (udp_connect M A \<lparr>uc_addr = sc_remote config, uc_max_queue_size = sc_max_queue_size config\<rparr> (snd manager))"
  by (auto simp: steam_connect_def udp_connect_def Let_def bind_eq_Some_conv map_option_case
      split: option.splits prod.splits bind_split)

lemma steam_recv_step_eq:
  "steam_recv_step M A now last_flush available read (buf, ps) =
     (case available of
        Some n \<Rightarrow> (case read (max n buf) of
            Some (remote, data) \<Rightarrow> if length data \<le> max n buf
              then Some (max n buf, cleaned M A (now - last_flush > STEAM_CLEANUP_INTERVAL) (deliver M A remote data ps))
              else None
          | None \<Rightarrow> None)
      | None \<Rightarrow> Some (buf, cleaned M A (now - last_flush > STEAM_CLEANUP_INTERVAL) ps))"
  by (auto simp: steam_recv_step_def deliver_def steam_forward_packet_eq Let_def max_def split: option.split prod.split)

context udp_manager
begin

definition steam_ok :: "('c, 'd) steam \<Rightarrow> bool" where
  "steam_ok sm \<longleftrightarrow> manager_ok look M (snd sm) \<and> UNRELIABLE_MTU \<le> fst sm"

lemma steam_recv_ok:
  assumes ok: "steam_ok sm" and r: "steam_recv_step M A now last_flush available read sm = Some sm'"
  shows "steam_ok sm'" and "live M A (snd sm') = live M A (snd sm)"
proof -
  obtain buf ps where sm: "sm = (buf, ps)" by (cases sm) (rule that)
  let ?due = "now - last_flush > STEAM_CLEANUP_INTERVAL"
  obtain buf' ps1 where sm': "sm' = (buf', cleaned M A ?due ps1)" "buf \<le> buf'"
    and ps1: "ps1 = ps \<or> (\<exists>k data. ps1 = deliver M A k data ps)"
  proof (cases available)
    case None
    then show ?thesis using r sm that[of buf ps] by (simp add: steam_recv_step_eq)
  next
    case (Some n)
    then obtain k data where "sm' = (max n buf, cleaned M A ?due (deliver M A k data ps))"
      using r unfolding sm steam_recv_step_eq by (auto simp del: if_split split: option.splits if_split_asm)
    then show ?thesis using that[of "max n buf" "deliver M A k data ps"] by auto
  qed
  have ps: "manager_ok look M ps" "UNRELIABLE_MTU \<le> buf" using ok sm by (simp_all add: steam_ok_def)
  have one: "manager_ok look M ps1" "live M A ps1 = live M A ps" using ps1 deliver_ok[OF ps(1)] ps(1) by auto
  show "steam_ok sm'" "live M A (snd sm') = live M A (snd sm)"
    using cleaned_ok[OF one(1), of ?due] one(2) sm sm' ps(2) by (simp_all only: steam_ok_def fst_conv snd_conv) auto
qed

lemma steam_reachable_ok: "steam_reachable M A sm \<Longrightarrow> steam_ok sm"
proof (induction rule: steam_reachable.induct)
  case (bind hp)
  then show ?case by (simp add: steam_ok_def manager_ok_def steam_bind_def default_ok default_counted)
next
  case (connect sm config r sm')
  let ?c = "\<lparr>uc_addr = sc_remote config, uc_max_queue_size = sc_max_queue_size config\<rparr>"
  obtain ps' where u: "udp_connect M A ?c (snd sm) = Some (r, ps')" "sm' = (fst sm, ps')"
    using connect.hyps(2) by (auto simp: steam_connect_eq)
  then have "uc_max_queue_size ?c \<noteq> Some 0" using udp_connect_zero[of ?c "snd sm"] by auto
  then have "manager_ok look M ps'"
    using udp_connect_ok[of "snd sm" ?c] connect.IH u(1) unfolding steam_ok_def by (metis option.inject prod.inject)
  then show ?case using connect.IH u(2) by (simp add: steam_ok_def)
next
  case (disconnect sm remote)
  then show ?case
    using udp_disconnect_manager_ok(1)[of "snd sm" remote] by (simp add: steam_ok_def steam_disconnect_def udp_disconnect_def)
next
  case (receive sm now last_flush available read sm')
  then show ?case using steam_recv_ok by blast
next
  case (task_takes n d hp k p m hp')
  then have "hp' = snd (tp_try_recv A p hp)"
    by (auto simp: steam_send_step_def split: prod.splits sum.splits try_recv_error.splits)
  then show ?case using channel_steps_ok(4)[of d hp k p] task_takes by (simp add: steam_ok_def)
qed (use channel_steps_ok in \<open>auto simp: steam_ok_def\<close>)

lemma steam_crosses:
  assumes a: "steam_reachable M A (n, d, hp)" "tb_get M kb d = Some pa" "linked pa qa hp" "tp_is_connected A qa hp"
      "tp_pending_send_count A qa hp = 0" "\<not> full_view (look (hp ! tp_outgoing qa))"
    and b: "steam_reachable M A (l, e, hq)" "tb_get M ka e = Some pb" "linked pb qb hq" "tp_is_connected A qb hq"
      "tp_pending_recv_count A qb hq = 0" "\<not> full_view (look (hq ! tp_incoming qb))"
    and read: "reads_packet (length m) ka m read"
  shows "fst (tp_try_send A qa m hp) = Inr () \<and>
    fst (steam_send_step A pa kb (snd (tp_try_send A qa m hp))) =
      (if length m \<le> UNRELIABLE_MTU then Send_P2P m kb else Too_Big m) \<and>
    (\<exists>sm'. steam_recv_step M A now last_flush (Some (length m)) read (l, e, hq) = Some sm' \<and>
      fst (tp_try_recv A qb (snd (snd sm'))) = Inr m)"
proof -
  note out = message_leaves[OF a(3-6), of m]
  have "fst (steam_send_step A pa kb (snd (tp_try_send A qa m hp))) =
      (if length m \<le> UNRELIABLE_MTU then Send_P2P m kb else Too_Big m)"
    using out(2) by (cases "tp_try_recv A pa (snd (tp_try_send A qa m hp))") (simp add: steam_send_step_def not_less)
  moreover have "manager_ok look M (e, hq)" using steam_reachable_ok[OF b(1)] by (simp add: steam_ok_def)
  note message_arrives[OF this b(2-6)]
  moreover have "steam_recv_step M A now last_flush (Some (length m)) read (l, e, hq) =
      Some (max (length m) l, cleaned M A (now - last_flush > STEAM_CLEANUP_INTERVAL) (deliver M A ka m (e, hq)))"
    using read by (simp add: steam_recv_step_eq reads_packet_def)
  ultimately show ?thesis using out(1) by auto
qed

end

text \<open>A session request of a remote is accepted exactly when there is a connection to it.\<close>

lemma session_request_live:
  "session_request M A remote (Some (n, ps)) = Some (if remote \<in> live M A ps then Accept_Session else Close_Session)"
  by (simp add: session_request_def live_def)

text \<open>Two managers with one connection each.\<close>

lemma demo_steam_connected:
  obtains peer other d and hp :: "packet chan_view list"
  where "steam_reachable alist_table view_queues (UNRELIABLE_MTU, d, hp)"
    and "tb_get alist_table (1::nat) d = Some other" and "linked other peer hp" and "tp_is_connected view_queues peer hp"
    and "tp_pending_send_count view_queues peer hp = 0" and "tp_pending_recv_count view_queues peer hp = 0"
    and "\<not> full_view (hp ! tp_outgoing peer)" and "\<not> full_view (hp ! tp_incoming peer)"
proof -
  have "steam_connect alist_table view_queues (steam_unbounded 1) (steam_bind alist_table []) =
      Some ((demo_near, demo_far), (UNRELIABLE_MTU, demo_table, demo_queues))"
    using demo_udp_connect by (simp add: steam_connect_eq steam_unbounded_def steam_bind_def udp_unbounded_def udp_bind_def)
  then have "steam_reachable alist_table view_queues (UNRELIABLE_MTU, demo_table, demo_queues)"
    by (rule steam_reachable.connect[OF steam_reachable.bind])
  then show ?thesis by (rule that[OF _ demo_connection])
qed

end
