(* ===== verification/Bevy_State.thy ===== *)
theory Bevy_State
  imports Prelude "HOL-Library.DAList"
begin

text \<open>
  \<^verbatim>\<open>src/bevy_backroll/src/id.rs\<close> and \<^verbatim>\<open>save_state.rs\<close>: how the Bevy plugin makes a save state of a world and
  loads it again. The entity component system of Bevy is code outside the repository: its queries and
  its commands are parameters with the laws of a locale. A system of the plugin is a function of what it
  queries; the changes it defers are a list of commands that is applied at the end of the stage.
\<close>

section \<open>Network identities\<close>

type_synonym network_id = u32

definition provider_new :: u32 where
  "provider_new = 0"

text \<open>\<open>u32::checked_add\<close>; the \<open>expect\<close> panics on an overflow.\<close>

definition u32_checked_add :: "u32 \<Rightarrow> u32 \<Rightarrow> u32 option" where
  "u32_checked_add a b = (if unat a + unat b < 2 ^ 32 then Some (a + b) else None)"

definition new_id :: "u32 \<Rightarrow> (network_id \<times> u32) option" where
  "new_id provider = do { next \<leftarrow> u32_checked_add provider 1; Some (provider, next) }"

primrec new_ids :: "nat \<Rightarrow> u32 \<Rightarrow> (network_id list \<times> u32) option" where
  "new_ids 0 p = Some ([], p)"
| "new_ids (Suc n) p = do { (i, p) \<leftarrow> new_id p; (is, p) \<leftarrow> new_ids n p; Some (i # is, p) }"

lemma new_ids_eq:
  "new_ids n p = (if unat p + n < 2 ^ 32 then Some (map word_of_nat [unat p ..< unat p + n], p + word_of_nat n)
    else None)"
proof (induction n arbitrary: p)
  case (Suc n)
  show ?case
  proof (cases "unat p + 1 < 2 ^ 32")
    case True
    then have "unat (p + 1) = unat p + 1" by (simp add: unat_word_ariths)
    then show ?thesis
      using True Suc.IH[of "p + 1"]
      by (auto simp: new_id_def u32_checked_add_def upt_conv_Cons add.assoc Suc_le_eq)
  next
    case False
    then show ?thesis by (simp add: new_id_def u32_checked_add_def)
  qed
next
  case 0
  have "unat p < 2 ^ LENGTH(32)" by (rule unsigned_less)
  then show ?case by simp
qed

lemma new_ids_distinct:
  assumes "new_ids n p = Some (is, p')"
  shows "distinct is" and "length is = n"
proof -
  have "is = map word_of_nat [unat p ..< unat p + n]" and fits: "unat p + n < 2 ^ 32"
    using assms by (auto simp: new_ids_eq split: if_splits)
  then show "length is = n" by simp
  have "inj_on (word_of_nat :: nat \<Rightarrow> u32) {unat p ..< unat p + n}"
  proof (rule inj_onI)
    fix i j assume ij: "i \<in> {unat p ..< unat p + n}" "j \<in> {unat p ..< unat p + n}"
      and eq: "(word_of_nat i :: u32) = word_of_nat j"
    have "i < 2 ^ 32" "j < 2 ^ 32" using ij fits by simp_all
    then have "unat (word_of_nat i :: u32) = i" "unat (word_of_nat j :: u32) = j"
      by (simp_all add: unat_of_nat take_bit_eq_mod)
    then show "i = j" using eq by metis
  qed
  then show "distinct is" using \<open>is = _\<close> by (simp add: distinct_map)
qed

section \<open>The world and its commands\<close>

text \<open>
  What the systems use of a world \<open>'w\<close>: the entities \<open>'e\<close> with a network identity in the order of a query,
  their components and the resources, by the type \<open>'k\<close> of the value.
\<close>

record ('k, 'v, 'e, 'w) ecs =
  ec_entities :: "'w \<Rightarrow> ('e \<times> network_id) list"
  ec_component :: "'k \<Rightarrow> 'e \<Rightarrow> 'w \<Rightarrow> 'v option"
  ec_insert :: "'e \<Rightarrow> 'k \<Rightarrow> 'v \<Rightarrow> 'w \<Rightarrow> 'w"
  ec_remove :: "'e \<Rightarrow> 'k \<Rightarrow> 'w \<Rightarrow> 'w"
  ec_spawn :: "network_id \<Rightarrow> 'w \<Rightarrow> 'w"
  ec_despawn :: "'e \<Rightarrow> 'w \<Rightarrow> 'w"
  ec_resource :: "'k \<Rightarrow> 'w \<Rightarrow> 'v option"
  ec_insert_resource :: "'k \<Rightarrow> 'v \<Rightarrow> 'w \<Rightarrow> 'w"
  ec_remove_resource :: "'k \<Rightarrow> 'w \<Rightarrow> 'w"

datatype ('k, 'v, 'e) ecs_command =
    Despawn 'e
  | Spawn network_id
  | Insert 'e 'k 'v
  | Remove 'e 'k
  | Insert_Resource 'k 'v
  | Remove_Resource 'k

fun apply_command :: "('k, 'v, 'e, 'w) ecs \<Rightarrow> ('k, 'v, 'e) ecs_command \<Rightarrow> 'w \<Rightarrow> 'w" where
  "apply_command E (Despawn e) w = ec_despawn E e w"
| "apply_command E (Spawn i) w = ec_spawn E i w"
| "apply_command E (Insert e t v) w = ec_insert E e t v w"
| "apply_command E (Remove e t) w = ec_remove E e t w"
| "apply_command E (Insert_Resource t v) w = ec_insert_resource E t v w"
| "apply_command E (Remove_Resource t) w = ec_remove_resource E t w"

section \<open>\<open>SaveStateBuilder\<close> and \<open>SaveState\<close>\<close>

text \<open>
  The keys of the saved values: the type of a resource, or of \<open>SavedComponents<T>\<close>. A boxed \<open>Any\<close> knows the
  type it was made of, and \<open>downcast_ref\<close> with \<open>unwrap\<close> panics for another one.
\<close>

datatype 'k type_id = Resource_Id 'k | Components_Id 'k

datatype ('k, 'v) boxed = Boxed_Resource 'k 'v | Boxed_Components 'k "network_id \<rightharpoonup> 'v"

definition downcast_resource :: "'k \<Rightarrow> ('k, 'v) boxed \<Rightarrow> 'v option" where
  "downcast_resource t b = (case b of Boxed_Resource t' v \<Rightarrow> if t' = t then Some v else None | _ \<Rightarrow> None)"

definition downcast_components :: "'k \<Rightarrow> ('k, 'v) boxed \<Rightarrow> (network_id \<rightharpoonup> 'v) option" where
  "downcast_components t b = (case b of Boxed_Components t' m \<Rightarrow> if t' = t then Some m else None | _ \<Rightarrow> None)"

record ('k, 'v) save_builder =
  sb_ids :: "network_id set"
  sb_state :: "'k type_id \<rightharpoonup> ('k, 'v) boxed"

record ('k, 'v) bevy_save_state =
  sn_ids :: "network_id set"
  sn_state :: "'k type_id \<rightharpoonup> ('k, 'v) boxed"

definition save_builder_new :: "('k, 'v) save_builder" where
  "save_builder_new = \<lparr>sb_ids = {}, sb_state = (\<lambda>_. None)\<rparr>"

definition save_builder_build :: "('k, 'v) save_builder \<Rightarrow> ('k, 'v) bevy_save_state" where
  "save_builder_build b = \<lparr>sn_ids = sb_ids b, sn_state = sb_state b\<rparr>"

section \<open>The systems that save\<close>

definition save_resource :: "('k, 'v, 'e, 'w) ecs \<Rightarrow> 'k \<Rightarrow> 'w \<Rightarrow> ('k, 'v) save_builder \<Rightarrow> ('k, 'v) save_builder" where
  "save_resource E t w b =
     (case ec_resource E t w of
        Some resource \<Rightarrow> b\<lparr>sb_state := (sb_state b)(Resource_Id t \<mapsto> Boxed_Resource t resource)\<rparr>
      | None \<Rightarrow> b)"

definition save_network_ids :: "('k, 'v, 'e, 'w) ecs \<Rightarrow> 'w \<Rightarrow> ('k, 'v) save_builder \<Rightarrow> ('k, 'v) save_builder" where
  "save_network_ids E w b = b\<lparr>sb_ids := set (map snd (ec_entities E w))\<rparr>"

text \<open>The result of \<open>Query<(&NetworkId, &T)>\<close>; of two entities with one identity the later one wins.\<close>

definition query_components :: "('k, 'v, 'e, 'w) ecs \<Rightarrow> 'k \<Rightarrow> 'w \<Rightarrow> (network_id \<times> 'v) list" where
  "query_components E t w =
     List.map_filter (\<lambda>(e, i). map_option (\<lambda>v. (i, v)) (ec_component E t e w)) (ec_entities E w)"

definition collect_components :: "('k, 'v, 'e, 'w) ecs \<Rightarrow> 'k \<Rightarrow> 'w \<Rightarrow> network_id \<rightharpoonup> 'v" where
  "collect_components E t w = map_of (rev (query_components E t w))"

definition save_components :: "('k, 'v, 'e, 'w) ecs \<Rightarrow> 'k \<Rightarrow> 'w \<Rightarrow> ('k, 'v) save_builder \<Rightarrow> ('k, 'v) save_builder" where
  "save_components E t w b =
     (if query_components E t w \<noteq> []
      then b\<lparr>sb_state := (sb_state b)(Components_Id t \<mapsto> Boxed_Components t (collect_components E t w))\<rparr>
      else b)"

datatype 'k save_system = Save_Network_Ids | Save_Components 'k | Save_Resource 'k

fun run_save_system :: "('k, 'v, 'e, 'w) ecs \<Rightarrow> 'w \<Rightarrow> 'k save_system \<Rightarrow> ('k, 'v) save_builder \<Rightarrow> ('k, 'v) save_builder" where
  "run_save_system E w Save_Network_Ids b = save_network_ids E w b"
| "run_save_system E w (Save_Components t) b = save_components E t w b"
| "run_save_system E w (Save_Resource t) b = save_resource E t w b"

text \<open>The stage \<open>save\<close> between the insertion of the builder and \<open>build\<close>.\<close>

definition snapshot :: "('k, 'v, 'e, 'w) ecs \<Rightarrow> 'k save_system list \<Rightarrow> 'w \<Rightarrow> ('k, 'v) bevy_save_state" where
  "snapshot E systems w = save_builder_build (fold (run_save_system E w) systems save_builder_new)"

section \<open>The systems that load\<close>

text \<open>A system that loads changes values in place and returns its deferred commands.\<close>

definition load_resource ::
    "('k, 'v, 'e, 'w) ecs \<Rightarrow> 'k \<Rightarrow> ('k, 'v) bevy_save_state \<Rightarrow> 'w \<Rightarrow> ('w \<times> ('k, 'v, 'e) ecs_command list) option" where
  "load_resource E t sn w =
     (case (sn_state sn (Resource_Id t), ec_resource E t w) of
        (Some saved, Some _) \<Rightarrow> do { v \<leftarrow> downcast_resource t saved; Some (ec_insert_resource E t v w, []) }
      | (Some saved, None) \<Rightarrow> do { v \<leftarrow> downcast_resource t saved; Some (w, [Insert_Resource t v]) }
      | (None, Some _) \<Rightarrow> Some (w, [Remove_Resource t])
      | (None, None) \<Rightarrow> Some (w, []))"

text \<open>The loop of \<open>sync_network_ids\<close>: the entities to despawn and the identities that remain.\<close>

fun sync_loop :: "('e \<times> network_id) list \<Rightarrow> network_id set \<Rightarrow> 'e list \<times> network_id set" where
  "sync_loop [] ids = ([], ids)"
| "sync_loop ((entity, i) # query) ids =
     (if i \<in> ids then sync_loop query (ids - {i})
      else let (gone, ids) = sync_loop query ids in (entity # gone, ids))"

definition sync_network_ids ::
    "('k, 'v, 'e, 'w) ecs \<Rightarrow> ('k, 'v) bevy_save_state \<Rightarrow> 'w \<Rightarrow> ('w \<times> ('k, 'v, 'e) ecs_command list) option" where
  "sync_network_ids E sn w =
     (let (gone, ids) = sync_loop (ec_entities E w) (sn_ids sn) in
      Some (w, map Despawn gone @ map Spawn (sorted_list_of_set ids)))"

definition load_component ::
    "('k, 'v, 'e, 'w) ecs \<Rightarrow> 'k \<Rightarrow> (network_id \<rightharpoonup> 'v) \<Rightarrow> 'e \<times> network_id \<Rightarrow>
       'w \<times> ('k, 'v, 'e) ecs_command list \<Rightarrow> 'w \<times> ('k, 'v, 'e) ecs_command list" where
  "load_component E t slab = (\<lambda>(entity, i) (w, cs).
     case (slab i, ec_component E t entity w) of
       (Some saved, Some _) \<Rightarrow> (ec_insert E entity t saved w, cs)
     | (Some saved, None) \<Rightarrow> (w, cs @ [Insert entity t saved])
     | (None, Some _) \<Rightarrow> (w, cs @ [Remove entity t])
     | (None, None) \<Rightarrow> (w, cs))"

definition load_components ::
    "('k, 'v, 'e, 'w) ecs \<Rightarrow> 'k \<Rightarrow> ('k, 'v) bevy_save_state \<Rightarrow> 'w \<Rightarrow> ('w \<times> ('k, 'v, 'e) ecs_command list) option" where
  "load_components E t sn w =
     (case sn_state sn (Components_Id t) of
        Some saved \<Rightarrow>
          do { slab \<leftarrow> downcast_components t saved;
               Some (fold (load_component E t slab) (ec_entities E w) (w, [])) }
      | None \<Rightarrow>
          Some (w, map (\<lambda>entity. Remove entity t)
            (filter (\<lambda>entity. ec_component E t entity w \<noteq> None) (map fst (ec_entities E w)))))"

datatype 'k load_system = Sync_Network_Ids | Load_Components 'k | Load_Resource 'k

fun run_load_system ::
    "('k, 'v, 'e, 'w) ecs \<Rightarrow> ('k, 'v) bevy_save_state \<Rightarrow> 'k load_system \<Rightarrow> 'w \<Rightarrow> ('w \<times> ('k, 'v, 'e) ecs_command list) option" where
  "run_load_system E sn Sync_Network_Ids w = sync_network_ids E sn w"
| "run_load_system E sn (Load_Components t) w = load_components E t sn w"
| "run_load_system E sn (Load_Resource t) w = load_resource E t sn w"

primrec load_systems ::
    "('k, 'v, 'e, 'w) ecs \<Rightarrow> ('k, 'v) bevy_save_state \<Rightarrow> 'k load_system list \<Rightarrow>
       'w \<times> ('k, 'v, 'e) ecs_command list \<Rightarrow> ('w \<times> ('k, 'v, 'e) ecs_command list) option" where
  "load_systems E sn [] st = Some st"
| "load_systems E sn (s # ss) st =
     do { (w, cs) \<leftarrow> run_load_system E sn s (fst st); load_systems E sn ss (w, snd st @ cs) }"

text \<open>A stage of systems that load: the deferred commands are applied at its end.\<close>

definition run_load_stage ::
    "('k, 'v, 'e, 'w) ecs \<Rightarrow> ('k, 'v) bevy_save_state \<Rightarrow> 'k load_system list \<Rightarrow> 'w \<Rightarrow> 'w option" where
  "run_load_stage E sn systems w =
     do { (w, cs) \<leftarrow> load_systems E sn systems (w, []); Some (fold (apply_command E) cs w) }"

text \<open>The stages \<open>before_load\<close> and \<open>load\<close> of a \<open>Command::Load\<close>.\<close>

definition restore ::
    "('k, 'v, 'e, 'w) ecs \<Rightarrow> 'k load_system list \<Rightarrow> 'k load_system list \<Rightarrow> ('k, 'v) bevy_save_state \<Rightarrow> 'w \<Rightarrow> 'w option" where
  "restore E before_load load sn w =
     do { w \<leftarrow> run_load_stage E sn before_load w; run_load_stage E sn load w }"

text \<open>Loading only uses the commands, so it keeps what they all keep.\<close>

lemma apply_commands_keep:
  assumes "\<And>c w. P w \<Longrightarrow> P (apply_command E c w)"
  shows "P w \<Longrightarrow> P (fold (apply_command E) cs w)"
  using assms by (induction cs arbitrary: w) auto

lemma load_loop_keeps:
  assumes keep: "\<And>c w. P w \<Longrightarrow> P (apply_command E c w)"
  shows "P (fst st) \<Longrightarrow> P (fst (fold (load_component E t slab) q st))"
proof (induction q arbitrary: st)
  case (Cons x q)
  have "P (fst (load_component E t slab x st))"
    using keep[of "fst st" "Insert (fst x) t v" for v] Cons.prems
    by (auto simp: load_component_def split: prod.split option.split)
  then show ?case using Cons.IH by simp
qed simp

lemma load_system_keeps:
  assumes keep: "\<And>c w. P w \<Longrightarrow> P (apply_command E c w)" and P: "P w"
  shows "run_load_system E sn s w = Some (w', cs) \<Longrightarrow> P w'"
proof (cases s)
  case (Load_Components t)
  assume r: "run_load_system E sn s w = Some (w', cs)"
  have "P (fst (fold (load_component E t slab) (ec_entities E w) (w, [])))" for slab
    using load_loop_keeps[of P, OF keep, of "(w, [])"] P by simp
  then show ?thesis
    using r P Load_Components
    by (auto simp: load_components_def bind_eq_Some_conv split: option.splits) (metis fst_conv)
next
  case (Load_Resource t)
  assume "run_load_system E sn s w = Some (w', cs)"
  then show ?thesis
    using P Load_Resource keep[of w "Insert_Resource t v" for v]
    by (auto simp: load_resource_def bind_eq_Some_conv split: option.splits)
qed (use P in \<open>auto simp: sync_network_ids_def split: prod.splits\<close>)

lemma load_systems_keep:
  assumes keep: "\<And>c w. P w \<Longrightarrow> P (apply_command E c w)"
  shows "load_systems E sn ss st = Some st' \<Longrightarrow> P (fst st) \<Longrightarrow> P (fst st')"
proof (induction ss arbitrary: st)
  case (Cons s ss)
  then obtain w cs where one: "run_load_system E sn s (fst st) = Some (w, cs)"
    and rest: "load_systems E sn ss (w, snd st @ cs) = Some st'"
    by (auto simp: bind_eq_Some_conv)
  have "P w" by (rule load_system_keeps[OF keep Cons.prems(2) one])
  then show ?case using Cons.IH[OF rest] by simp
qed simp

lemma load_stage_keeps:
  assumes keep: "\<And>c w. P w \<Longrightarrow> P (apply_command E c w)" and P: "P w"
    and r: "run_load_stage E sn ss w = Some w'"
  shows "P w'"
proof -
  obtain st where st: "load_systems E sn ss (w, []) = Some st" "w' = fold (apply_command E) (snd st) (fst st)"
    using r by (auto simp: run_load_stage_def bind_eq_Some_conv)
  have "P (fst st)" using load_systems_keep[of P, OF keep st(1)] P by simp
  with keep show ?thesis unfolding st(2) by (rule apply_commands_keep[of P])
qed

lemma restore_keeps:
  assumes keep: "\<And>c w. P w \<Longrightarrow> P (apply_command E c w)" and P: "P w"
    and r: "restore E before_load load sn w = Some w'"
  shows "P w'"
proof -
  obtain v where v: "run_load_stage E sn before_load w = Some v" "run_load_stage E sn load v = Some w'"
    using r by (auto simp: restore_def bind_eq_Some_conv)
  from keep P v(1) have "P v" by (rule load_stage_keeps[of P])
  from keep this v(2) show ?thesis by (rule load_stage_keeps[of P])
qed

section \<open>What a save state holds\<close>

definition saved_resource :: "('k, 'v) bevy_save_state \<Rightarrow> 'k \<Rightarrow> 'v option" where
  "saved_resource sn t = (case sn_state sn (Resource_Id t) of Some (Boxed_Resource _ v) \<Rightarrow> Some v | _ \<Rightarrow> None)"

definition saved_component :: "('k, 'v) bevy_save_state \<Rightarrow> 'k \<Rightarrow> network_id \<Rightarrow> 'v option" where
  "saved_component sn t i = (case sn_state sn (Components_Id t) of Some (Boxed_Components _ m) \<Rightarrow> m i | _ \<Rightarrow> None)"

text \<open>Every value is filed under its own type, so no downcast panics.\<close>

definition well_filed :: "('k, 'v) bevy_save_state \<Rightarrow> bool" where
  "well_filed sn \<longleftrightarrow>
     (\<forall>t b. sn_state sn (Resource_Id t) = Some b \<longrightarrow> (\<exists>v. b = Boxed_Resource t v)) \<and>
     (\<forall>t b. sn_state sn (Components_Id t) = Some b \<longrightarrow> (\<exists>m. b = Boxed_Components t m))"

text \<open>The saving systems write different keys: their order does not matter.\<close>

lemma saved_ids: "sb_ids (fold (run_save_system E w) systems b) =
    (if Save_Network_Ids \<in> set systems then set (map snd (ec_entities E w)) else sb_ids b)"
proof (induction systems arbitrary: b)
  case (Cons s systems)
  show ?case unfolding fold_Cons comp_def Cons.IH
    by (cases s) (auto simp: save_network_ids_def save_components_def save_resource_def split: option.split)
qed simp

lemma saved_resources: "sb_state (fold (run_save_system E w) systems b) (Resource_Id t) =
    (if Save_Resource t \<in> set systems \<and> ec_resource E t w \<noteq> None
     then map_option (Boxed_Resource t) (ec_resource E t w) else sb_state b (Resource_Id t))"
proof (induction systems arbitrary: b)
  case (Cons s systems)
  show ?case unfolding fold_Cons comp_def Cons.IH
    by (cases s) (auto simp: save_network_ids_def save_components_def save_resource_def split: option.split)
qed simp

lemma saved_componentss: "sb_state (fold (run_save_system E w) systems b) (Components_Id t) =
    (if Save_Components t \<in> set systems \<and> query_components E t w \<noteq> []
     then Some (Boxed_Components t (collect_components E t w)) else sb_state b (Components_Id t))"
proof (induction systems arbitrary: b)
  case (Cons s systems)
  show ?case unfolding fold_Cons comp_def Cons.IH
    by (cases s) (auto simp: save_network_ids_def save_components_def save_resource_def split: option.split)
qed simp

lemma map_of_rev_none: "map_of (rev xs) = (\<lambda>_. None) \<longleftrightarrow> xs = []"
  by (cases xs rule: rev_cases) (auto simp: fun_eq_iff split: if_splits)

lemma no_components: "query_components E t w = [] \<longleftrightarrow> collect_components E t w = (\<lambda>_. None)"
  by (simp add: collect_components_def map_of_rev_none)

lemma snapshot_fields:
  "sn_ids (snapshot E systems w) = (if Save_Network_Ids \<in> set systems then set (map snd (ec_entities E w)) else {})"
  "sn_state (snapshot E systems w) (Resource_Id t) =
     (if Save_Resource t \<in> set systems then map_option (Boxed_Resource t) (ec_resource E t w) else None)"
  "sn_state (snapshot E systems w) (Components_Id t) =
     (if Save_Components t \<in> set systems \<and> collect_components E t w \<noteq> (\<lambda>_. None)
      then Some (Boxed_Components t (collect_components E t w)) else None)"
  by (simp_all add: snapshot_def save_builder_build_def saved_ids saved_resources saved_componentss
      save_builder_new_def no_components)

lemma well_filed_snapshot [simp]: "well_filed (snapshot E systems w)"
  by (auto simp: well_filed_def snapshot_fields)

lemma saved_resource_snapshot [simp]:
  "saved_resource (snapshot E systems w) t = (if Save_Resource t \<in> set systems then ec_resource E t w else None)"
  by (auto simp: saved_resource_def snapshot_fields split: option.split)

lemma saved_component_snapshot [simp]:
  "saved_component (snapshot E systems w) t i =
     (if Save_Components t \<in> set systems then collect_components E t w i else None)"
  by (auto simp: saved_component_def snapshot_fields)

lemma finite_ids_snapshot [simp]: "finite (sn_ids (snapshot E systems w))"
  by (simp add: snapshot_fields)

lemma distinct_map_filter:
  "distinct (map snd xs) \<Longrightarrow> distinct (map fst (List.map_filter (\<lambda>(e, i). map_option (\<lambda>v. (i, v)) (f e)) xs))"
  by (induction xs) (auto simp: map_filter_simps map_filter_def intro: rev_image_eqI split: option.split)

lemma collect_Some:
  assumes "distinct (map snd (ec_entities E w))"
  shows "collect_components E t w i = Some v \<longleftrightarrow>
    (\<exists>e. (e, i) \<in> set (ec_entities E w) \<and> ec_component E t e w = Some v)"
proof -
  have q: "set (query_components E t w) =
      {(i, v). \<exists>e. (e, i) \<in> set (ec_entities E w) \<and> ec_component E t e w = Some v}"
    by (force simp: query_components_def List.map_filter_def)
  have "distinct (map fst (rev (query_components E t w)))"
    using distinct_map_filter[OF assms, of "\<lambda>e. ec_component E t e w"]
    by (simp add: query_components_def rev_map[symmetric])
  then show ?thesis unfolding collect_components_def using q by (simp add: map_of_eq_Some_iff)
qed

text \<open>Two worlds with the same saved values have the same save state.\<close>

lemma snapshot_eqI:
  assumes "Save_Network_Ids \<in> set systems \<Longrightarrow> snd ` set (ec_entities E w) = snd ` set (ec_entities E w')"
    and "\<And>t. Save_Resource t \<in> set systems \<Longrightarrow> ec_resource E t w = ec_resource E t w'"
    and "\<And>t. Save_Components t \<in> set systems \<Longrightarrow> collect_components E t w = collect_components E t w'"
  shows "snapshot E systems w = snapshot E systems w'"
proof -
  have "sn_state (snapshot E systems w) k = sn_state (snapshot E systems w') k" for k
  proof (cases k)
    case (Resource_Id t)
    then show ?thesis using assms(2)[of t] by (simp add: snapshot_fields)
  next
    case (Components_Id t)
    then show ?thesis
      using assms(3)[of t] by (cases "Save_Components t \<in> set systems") (simp_all add: snapshot_fields)
  qed
  then have "sn_state (snapshot E systems w) = sn_state (snapshot E systems w')" by blast
  moreover have "sn_ids (snapshot E systems w) = sn_ids (snapshot E systems w')"
    using assms(1) by (simp add: snapshot_fields)
  ultimately show ?thesis by simp
qed

text \<open>Conversely, equal save states have the same identities and resources.\<close>

lemma saved_same_ids:
  "snapshot E save w = snapshot E save v \<Longrightarrow> Save_Network_Ids \<in> set save \<Longrightarrow>
    snd ` set (ec_entities E w) = snd ` set (ec_entities E v)"
  by (drule arg_cong[of _ _ sn_ids]) (simp add: snapshot_fields)

lemma saved_same_resource:
  "snapshot E save w = snapshot E save v \<Longrightarrow> Save_Resource t \<in> set save \<Longrightarrow> ec_resource E t w = ec_resource E t v"
  by (drule arg_cong[of _ _ "\<lambda>sn. saved_resource sn t"]) simp

section \<open>The laws of the world\<close>

text \<open>
  \<open>same_values\<close>: two worlds differ at most in the set of entities. The laws say what each command changes;
  commands on an entity that does not exist are not used.
\<close>

definition same_values :: "('k, 'v, 'e, 'w) ecs \<Rightarrow> 'w \<Rightarrow> 'w \<Rightarrow> bool" where
  "same_values E w w' \<longleftrightarrow>
     (\<forall>t e. ec_component E t e w' = ec_component E t e w) \<and> (\<forall>t. ec_resource E t w' = ec_resource E t w)"

definition entities :: "('k, 'v, 'e, 'w) ecs \<Rightarrow> 'w \<Rightarrow> ('e \<times> network_id) set" where
  "entities E w = set (ec_entities E w)"

locale ecs_world =
  fixes E :: "('k, 'v, 'e, 'w) ecs"
  assumes distinct_entities: "distinct (map fst (ec_entities E w))"
    and insert: "e \<in> fst ` entities E w \<Longrightarrow> entities E (ec_insert E e t v w) = entities E w \<and>
      (\<forall>t' e'. ec_component E t' e' (ec_insert E e t v w) =
        (if t' = t \<and> e' = e then Some v else ec_component E t' e' w)) \<and>
      (\<forall>t'. ec_resource E t' (ec_insert E e t v w) = ec_resource E t' w)"
    and remove: "e \<in> fst ` entities E w \<Longrightarrow> entities E (ec_remove E e t w) = entities E w \<and>
      (\<forall>t' e'. ec_component E t' e' (ec_remove E e t w) =
        (if t' = t \<and> e' = e then None else ec_component E t' e' w)) \<and>
      (\<forall>t'. ec_resource E t' (ec_remove E e t w) = ec_resource E t' w)"
    and spawn: "\<exists>e. e \<notin> fst ` entities E w \<and> entities E (ec_spawn E i w) = insert (e, i) (entities E w) \<and>
      (\<forall>t e'. e' \<noteq> e \<longrightarrow> ec_component E t e' (ec_spawn E i w) = ec_component E t e' w) \<and>
      (\<forall>t. ec_resource E t (ec_spawn E i w) = ec_resource E t w)"
    and despawn: "e \<in> fst ` entities E w \<Longrightarrow> entities E (ec_despawn E e w) = {x \<in> entities E w. fst x \<noteq> e} \<and>
      (\<forall>t e'. e' \<noteq> e \<longrightarrow> ec_component E t e' (ec_despawn E e w) = ec_component E t e' w) \<and>
      (\<forall>t. ec_resource E t (ec_despawn E e w) = ec_resource E t w)"
    and insert_resource: "entities E (ec_insert_resource E t v w) = entities E w \<and>
      (\<forall>t' e. ec_component E t' e (ec_insert_resource E t v w) = ec_component E t' e w) \<and>
      (\<forall>t'. ec_resource E t' (ec_insert_resource E t v w) = (if t' = t then Some v else ec_resource E t' w))"
    and remove_resource: "entities E (ec_remove_resource E t w) = entities E w \<and>
      (\<forall>t' e. ec_component E t' e (ec_remove_resource E t w) = ec_component E t' e w) \<and>
      (\<forall>t'. ec_resource E t' (ec_remove_resource E t w) = (if t' = t then None else ec_resource E t' w))"
begin

lemma one_identity: "(e, i) \<in> entities E w \<Longrightarrow> (e, j) \<in> entities E w \<Longrightarrow> i = j"
  using eq_key_imp_eq_value[OF distinct_entities[of w]] by (simp add: entities_def)

text \<open>Despawning a list of distinct entities, and spawning a list of identities.\<close>

lemma despawn_all:
  assumes "distinct es" and "set es \<subseteq> fst ` entities E w"
  shows "entities E (fold (apply_command E) (map Despawn es) w) = {x \<in> entities E w. fst x \<notin> set es}"
    and "ec_resource E t (fold (apply_command E) (map Despawn es) w) = ec_resource E t w"
    and "e' \<notin> set es \<Longrightarrow> ec_component E t e' (fold (apply_command E) (map Despawn es) w) = ec_component E t e' w"
proof -
  have "entities E (fold (apply_command E) (map Despawn es) w) = {x \<in> entities E w. fst x \<notin> set es} \<and>
      (\<forall>t. ec_resource E t (fold (apply_command E) (map Despawn es) w) = ec_resource E t w) \<and>
      (\<forall>t e'. e' \<notin> set es \<longrightarrow> ec_component E t e' (fold (apply_command E) (map Despawn es) w) = ec_component E t e' w)"
    using assms
  proof (induction es arbitrary: w)
    case (Cons e es)
    have e: "e \<in> fst ` entities E w" using Cons.prems by simp
    have "set es \<subseteq> fst ` entities E (ec_despawn E e w)"
      using Cons.prems despawn[OF e] by fastforce
    with Cons.IH[of "ec_despawn E e w"] Cons.prems(1) despawn[OF e] show ?case by auto
  qed simp
  then show "entities E (fold (apply_command E) (map Despawn es) w) = {x \<in> entities E w. fst x \<notin> set es}"
    "ec_resource E t (fold (apply_command E) (map Despawn es) w) = ec_resource E t w"
    "e' \<notin> set es \<Longrightarrow> ec_component E t e' (fold (apply_command E) (map Despawn es) w) = ec_component E t e' w"
    by blast+
qed

lemma spawn_all:
  assumes "distinct is" and "inj_on snd (entities E w)" and "set is \<inter> snd ` entities E w = {}"
  shows "inj_on snd (entities E (fold (apply_command E) (map Spawn is) w)) \<and>
    snd ` entities E (fold (apply_command E) (map Spawn is) w) = snd ` entities E w \<union> set is \<and>
    entities E w \<subseteq> entities E (fold (apply_command E) (map Spawn is) w) \<and>
    (\<forall>t. ec_resource E t (fold (apply_command E) (map Spawn is) w) = ec_resource E t w) \<and>
    (\<forall>t e. e \<in> fst ` entities E w \<longrightarrow>
       ec_component E t e (fold (apply_command E) (map Spawn is) w) = ec_component E t e w)"
  using assms
proof (induction "is" arbitrary: w)
  case (Cons i "is")
  obtain e where e: "e \<notin> fst ` entities E w" "entities E (ec_spawn E i w) = insert (e, i) (entities E w)"
    "\<And>t e'. e' \<noteq> e \<Longrightarrow> ec_component E t e' (ec_spawn E i w) = ec_component E t e' w"
    "\<And>t. ec_resource E t (ec_spawn E i w) = ec_resource E t w"
    using spawn by blast
  have "i \<notin> snd ` entities E w" using Cons.prems(3) by auto
  then have inj: "inj_on snd (entities E (ec_spawn E i w))"
    using Cons.prems(2) e(2) by (auto simp: inj_on_def image_iff)
  have "set is \<inter> snd ` entities E (ec_spawn E i w) = {}"
    using Cons.prems e(2) by auto
  note ih = Cons.IH[OF _ inj this]
  have "e' \<noteq> e" if "e' \<in> fst ` entities E w" for e' using that e(1) by blast
  then show ?case using ih Cons.prems(1) e(2-4) by auto
qed simp

text \<open>What the loop over the entities keeps.\<close>

lemma sync_loop_ok:
  assumes "sync_loop q ids = (gone, rest)" and "distinct (map fst q)"
  obtains keep where "keep \<subseteq> set q" and "inj_on snd keep" and "snd ` keep = ids \<inter> snd ` set q"
    and "rest = ids - snd ` set q" and "set gone = fst ` (set q - keep)" and "distinct gone"
proof -
  have "\<exists>keep. keep \<subseteq> set q \<and> inj_on snd keep \<and> snd ` keep = ids \<inter> snd ` set q \<and>
      rest = ids - snd ` set q \<and> set gone = fst ` (set q - keep) \<and> distinct gone"
    using assms
  proof (induction q ids arbitrary: gone rest rule: sync_loop.induct)
    case (2 e i q ids)
    show ?case
    proof (cases "i \<in> ids")
      case True
      then obtain keep where k: "keep \<subseteq> set q" "inj_on snd keep" "snd ` keep = (ids - {i}) \<inter> snd ` set q"
        "rest = ids - {i} - snd ` set q" "set gone = fst ` (set q - keep)" "distinct gone"
        using 2 by auto
      have "(e, i) \<notin> set q" using 2(4) by (auto simp: image_iff)
      then have "set ((e, i) # q) - insert (e, i) keep = set q - keep" by auto
      moreover have "i \<notin> snd ` keep" using k(3) by blast
      then have "inj_on snd (insert (e, i) keep)" using k(2) by (auto simp: inj_on_def image_iff)
      ultimately show ?thesis
        using k True by (intro exI[of _ "insert (e, i) keep"]) auto
    next
      case False
      obtain gone1 where g: "sync_loop q ids = (gone1, rest)" "gone = e # gone1"
        using 2(3) False by (auto split: prod.splits)
      then obtain keep where k: "keep \<subseteq> set q" "inj_on snd keep" "snd ` keep = ids \<inter> snd ` set q"
        "rest = ids - snd ` set q" "set gone1 = fst ` (set q - keep)" "distinct gone1"
        using 2 False by auto
      have ei: "(e, i) \<notin> set q" "e \<notin> fst ` set q" using 2(4) by (auto simp: image_iff)
      then have "set ((e, i) # q) - keep = insert (e, i) (set q - keep)" using k(1) by auto
      moreover have "e \<notin> set gone1" using k(5) ei(2) by auto
      ultimately show ?thesis
        using k False g(2) by (intro exI[of _ keep]) auto
    qed
  qed auto
  then show ?thesis using that by blast
qed

text \<open>
  After the stage \<open>before_load\<close> there is exactly one entity per saved identity; entities that were there
  before keep their components, and the resources are untouched.
\<close>

lemma sync_stage_ok:
  assumes fin: "finite (sn_ids sn)"
  obtains w' where "run_load_stage E sn [Sync_Network_Ids] w = Some w'" and "inj_on snd (entities E w')"
    and "snd ` entities E w' = sn_ids sn" and "\<And>t. ec_resource E t w' = ec_resource E t w"
    and "\<And>t e. e \<in> fst ` (entities E w \<inter> entities E w') \<Longrightarrow> ec_component E t e w' = ec_component E t e w"
proof -
  obtain gone rest where l: "sync_loop (ec_entities E w) (sn_ids sn) = (gone, rest)" by fastforce
  obtain keep where k: "keep \<subseteq> entities E w" "inj_on snd keep" "snd ` keep = sn_ids sn \<inter> snd ` entities E w"
    "rest = sn_ids sn - snd ` entities E w" "set gone = fst ` (entities E w - keep)" "distinct gone"
    using sync_loop_ok[OF l distinct_entities] unfolding entities_def by blast
  let ?is = "sorted_list_of_set rest"
  define w1 where "w1 = fold (apply_command E) (map Despawn gone) w"
  define w2 where "w2 = fold (apply_command E) (map Spawn ?is) w1"
  have rest: "finite rest" using fin k(4) by simp
  have "set gone \<subseteq> fst ` entities E w" using k(5) by blast
  note d = despawn_all[OF k(6) this, folded w1_def]
  have kept: "(e, i) \<in> entities E w \<Longrightarrow> e \<in> fst ` keep \<Longrightarrow> (e, i) \<in> keep" for e i
  proof -
    assume e: "(e, i) \<in> entities E w" "e \<in> fst ` keep"
    then obtain j where j: "(e, j) \<in> keep" by auto
    then have "(e, j) \<in> entities E w" using k(1) by blast
    then show "(e, i) \<in> keep" using one_identity[OF e(1)] j by simp
  qed
  have "{x \<in> entities E w. fst x \<notin> set gone} = keep"
  proof (intro equalityI subsetI)
    fix x assume x: "x \<in> keep"
    have "fst x \<notin> set gone"
    proof
      assume "fst x \<in> set gone"
      then obtain e i where y: "(e, i) \<in> entities E w" "(e, i) \<notin> keep" "e = fst x" using k(5) by force
      then show False using kept[OF y(1)] imageI[OF x, of fst] by simp
    qed
    then show "x \<in> {x \<in> entities E w. fst x \<notin> set gone}" using x k(1) by blast
  qed (use k(5) in blast)
  then have e1: "entities E w1 = keep" using d(1) by simp
  have "set ?is \<inter> snd ` entities E w1 = {}" using k(3,4) rest e1 by auto
  note sp = spawn_all[OF distinct_sorted_list_of_set k(2)[folded e1] this, folded w2_def]
  have run: "run_load_stage E sn [Sync_Network_Ids] w = Some w2"
    by (simp add: run_load_stage_def sync_network_ids_def l w1_def w2_def)
  have ids: "snd ` entities E w2 = sn_ids sn" using sp e1 k(3,4) rest by auto
  have comp: "ec_component E t e w2 = ec_component E t e w" if e: "e \<in> fst ` (entities E w \<inter> entities E w2)" for t e
  proof -
    obtain i where i: "(e, i) \<in> entities E w" "(e, i) \<in> entities E w2" using e by force
    have "e \<in> fst ` keep"
    proof (rule ccontr)
      assume no: "e \<notin> fst ` keep"
      have "i \<in> snd ` keep" using ids imageI[OF i(2), of snd] imageI[OF i(1), of snd] k(3) by simp
      then obtain e' where e': "(e', i) \<in> keep" by auto
      then have "(e', i) \<in> entities E w2" using sp e1 by blast
      then have "e' = e" using inj_onD[OF conjunct1[OF sp], of "(e', i)" "(e, i)"] i(2) by simp
      then show False using no e' by force
    qed
    moreover from this have "e \<notin> set gone" using k(5) kept by fastforce
    ultimately show ?thesis using sp d(3)[of e t] e1 by simp
  qed
  show ?thesis by (rule that[OF run]) (use sp ids d(2) comp in auto)
qed

text \<open>
  Loading: \<open>right_command\<close> sets a value to what the save state says, and so does every change in place
  (\<open>right_changes\<close>). A value is settled when it is right already or a deferred command will set it.
\<close>

fun right_command :: "('e \<times> network_id) set \<Rightarrow> ('k, 'v) bevy_save_state \<Rightarrow> ('k, 'v, 'e) ecs_command \<Rightarrow> bool" where
  "right_command N sn (Insert e t v) = (\<exists>i. (e, i) \<in> N \<and> saved_component sn t i = Some v)"
| "right_command N sn (Remove e t) = (\<exists>i. (e, i) \<in> N \<and> saved_component sn t i = None)"
| "right_command N sn (Insert_Resource t v) = (saved_resource sn t = Some v)"
| "right_command N sn (Remove_Resource t) = (saved_resource sn t = None)"
| "right_command N sn _ = False"

fun on_component :: "'k \<Rightarrow> 'e \<Rightarrow> ('k, 'v, 'e) ecs_command \<Rightarrow> bool" where
  "on_component t e (Insert e' t' _) = (t' = t \<and> e' = e)"
| "on_component t e (Remove e' t') = (t' = t \<and> e' = e)"
| "on_component t e _ = False"

fun on_resource :: "'k \<Rightarrow> ('k, 'v, 'e) ecs_command \<Rightarrow> bool" where
  "on_resource t (Insert_Resource t' _) = (t' = t)"
| "on_resource t (Remove_Resource t') = (t' = t)"
| "on_resource t _ = False"

lemma apply_right:
  assumes "\<forall>c \<in> set cs. right_command (entities E w) sn c"
  shows "entities E (fold (apply_command E) cs w) = entities E w \<and>
    (\<forall>t e i. (e, i) \<in> entities E w \<longrightarrow> ec_component E t e (fold (apply_command E) cs w) =
       (if \<exists>c \<in> set cs. on_component t e c then saved_component sn t i else ec_component E t e w)) \<and>
    (\<forall>t. ec_resource E t (fold (apply_command E) cs w) =
       (if \<exists>c \<in> set cs. on_resource t c then saved_resource sn t else ec_resource E t w))"
  using assms
proof (induction cs arbitrary: w)
  case (Cons c cs)
  have right: "right_command (entities E w) sn c" using Cons.prems by simp
  have one: "entities E (apply_command E c w) = entities E w \<and>
      (\<forall>t e i. (e, i) \<in> entities E w \<longrightarrow> ec_component E t e (apply_command E c w) =
         (if on_component t e c then saved_component sn t i else ec_component E t e w)) \<and>
      (\<forall>t. ec_resource E t (apply_command E c w) = (if on_resource t c then saved_resource sn t else ec_resource E t w))"
  proof (cases c)
    case (Insert e t v)
    then obtain i where i: "(e, i) \<in> entities E w" "saved_component sn t i = Some v" using right by auto
    have same: "saved_component sn t j = Some v" if "(e, j) \<in> entities E w" for j
      using one_identity[OF i(1) that] i(2) by simp
    have "e \<in> fst ` entities E w" using i(1) by force
    from insert[OF this, of t] same Insert show ?thesis by auto
  next
    case (Remove e t)
    then obtain i where i: "(e, i) \<in> entities E w" "saved_component sn t i = None" using right by auto
    have same: "saved_component sn t j = None" if "(e, j) \<in> entities E w" for j
      using one_identity[OF i(1) that] i(2) by simp
    have "e \<in> fst ` entities E w" using i(1) by force
    from remove[OF this, of t] same Remove show ?thesis by auto
  next
    case (Insert_Resource t v)
    then show ?thesis using insert_resource[of t v w] right by auto
  next
    case (Remove_Resource t)
    then show ?thesis using remove_resource[of t w] right by auto
  qed (use right in auto)
  have "\<forall>d \<in> set cs. right_command (entities E (apply_command E c w)) sn d"
    using Cons.prems one by auto
  from Cons.IH[OF this] one show ?case by auto
qed simp

definition right_changes :: "('k, 'v) bevy_save_state \<Rightarrow> 'w \<Rightarrow> 'w \<Rightarrow> bool" where
  "right_changes sn w w' \<longleftrightarrow> entities E w' = entities E w \<and>
     (\<forall>t e i. (e, i) \<in> entities E w \<longrightarrow>
        ec_component E t e w' = ec_component E t e w \<or> ec_component E t e w' = saved_component sn t i) \<and>
     (\<forall>t. ec_resource E t w' = ec_resource E t w \<or> ec_resource E t w' = saved_resource sn t)"

definition settled_entity :: "('k, 'v) bevy_save_state \<Rightarrow> 'k \<Rightarrow> 'e \<times> network_id \<Rightarrow> 'w \<times> ('k, 'v, 'e) ecs_command list \<Rightarrow> bool" where
  "settled_entity sn t x st \<longleftrightarrow> ec_component E t (fst x) (fst st) = saved_component sn t (snd x) \<or>
     (\<exists>c \<in> set (snd st). on_component t (fst x) c)"

definition settled_resource :: "('k, 'v) bevy_save_state \<Rightarrow> 'k \<Rightarrow> 'w \<times> ('k, 'v, 'e) ecs_command list \<Rightarrow> bool" where
  "settled_resource sn t st \<longleftrightarrow> ec_resource E t (fst st) = saved_resource sn t \<or> (\<exists>c \<in> set (snd st). on_resource t c)"

text \<open>\<open>loads_to\<close>: the changes and commands from one state of a stage to a later one are right.\<close>

definition loads_to ::
    "('k, 'v) bevy_save_state \<Rightarrow> 'w \<times> ('k, 'v, 'e) ecs_command list \<Rightarrow> 'w \<times> ('k, 'v, 'e) ecs_command list \<Rightarrow> bool" where
  "loads_to sn st st' \<longleftrightarrow> right_changes sn (fst st) (fst st') \<and> set (snd st) \<subseteq> set (snd st') \<and>
     (\<forall>c \<in> set (snd st') - set (snd st). right_command (entities E (fst st)) sn c)"

lemma loads_to_refl [simp]: "loads_to sn st st"
  by (simp add: loads_to_def right_changes_def)

lemma loads_to_trans: "loads_to sn a b \<Longrightarrow> loads_to sn b c \<Longrightarrow> loads_to sn a c"
  unfolding loads_to_def right_changes_def by (auto; metis)

lemma settled_later:
  assumes "loads_to sn st st'"
  shows "x \<in> entities E (fst st) \<Longrightarrow> settled_entity sn t x st \<Longrightarrow> settled_entity sn t x st'"
    and "settled_resource sn t st \<Longrightarrow> settled_resource sn t st'"
  using assms unfolding loads_to_def right_changes_def settled_entity_def settled_resource_def
  by (cases x; auto; metis)+

lemma load_component_ok:
  assumes x: "x \<in> entities E (fst st)" and slab: "\<And>i. slab i = saved_component sn t i"
  shows "loads_to sn st (load_component E t slab x st)" and "settled_entity sn t x (load_component E t slab x st)"
proof -
  obtain e i w cs where st: "x = (e, i)" "st = (w, cs)" by force
  have ei: "(e, i) \<in> entities E w" "e \<in> fst ` entities E w" using x st by force+
  define c where "c = slab i"
  have same: "saved_component sn t j = c" if "(e, j) \<in> entities E w" for j
    using one_identity[OF ei(1) that] by (simp add: c_def slab)
  show "loads_to sn st (load_component E t slab x st)"
    using insert[OF ei(2), of t] ei(1) same unfolding st load_component_def loads_to_def right_changes_def
    by (auto simp: c_def[symmetric] intro!: exI[of _ i] split: option.split)
  show "settled_entity sn t x (load_component E t slab x st)"
    using insert[OF ei(2), of t] same[OF ei(1)] unfolding st load_component_def settled_entity_def
    by (auto simp: c_def[symmetric] split: option.split)
qed

lemma load_loop_ok:
  assumes "set q \<subseteq> entities E (fst st)" and slab: "\<And>i. slab i = saved_component sn t i"
  shows "loads_to sn st (fold (load_component E t slab) q st) \<and>
    (\<forall>x \<in> set q. settled_entity sn t x (fold (load_component E t slab) q st))"
  using assms(1)
proof (induction q arbitrary: st)
  case (Cons x q)
  let ?st = "load_component E t slab x st"
  have x: "x \<in> entities E (fst st)" using Cons.prems by simp
  note one = load_component_ok[of x st slab sn t, OF x slab]
  then have ents: "entities E (fst ?st) = entities E (fst st)" by (simp add: loads_to_def right_changes_def)
  then have "set q \<subseteq> entities E (fst ?st)" using Cons.prems by simp
  note ih = Cons.IH[OF this]
  have "settled_entity sn t x (fold (load_component E t slab) q ?st)"
    using settled_later(1)[OF conjunct1[OF ih] _ one(2)] x ents by simp
  then show ?case using ih loads_to_trans[OF one(1)] by simp
qed simp

definition settled_system :: "('k, 'v) bevy_save_state \<Rightarrow> 'k load_system \<Rightarrow> 'w \<times> ('k, 'v, 'e) ecs_command list \<Rightarrow> bool" where
  "settled_system sn s st \<longleftrightarrow>
     (\<forall>t. s = Load_Components t \<longrightarrow> (\<forall>x \<in> entities E (fst st). settled_entity sn t x st)) \<and>
     (\<forall>t. s = Load_Resource t \<longrightarrow> settled_resource sn t st)"

lemma settled_system_later:
  assumes "loads_to sn st st'" and "settled_system sn s st"
  shows "settled_system sn s st'"
proof -
  have "entities E (fst st') = entities E (fst st)" using assms(1) by (simp add: loads_to_def right_changes_def)
  then show ?thesis using assms(2) settled_later[OF assms(1)] by (simp add: settled_system_def)
qed

lemma load_system_ok:
  assumes filed: "well_filed sn" and s: "s \<noteq> Sync_Network_Ids"
  obtains st where "run_load_system E sn s w = Some st" and "loads_to sn (w, []) st" and "settled_system sn s st"
proof (cases s)
  case (Load_Components t)
  show ?thesis
  proof (cases "sn_state sn (Components_Id t)")
    case None
    then have none: "saved_component sn t i = None" for i by (simp add: saved_component_def)
    let ?cs = "map (\<lambda>e. Remove e t) (filter (\<lambda>e. ec_component E t e w \<noteq> None) (map fst (ec_entities E w))) :: ('k, 'v, 'e) ecs_command list"
    have "run_load_system E sn s w = Some (w, ?cs)" using Load_Components None by (simp add: load_components_def)
    moreover have "loads_to sn (w, []) (w, ?cs)"
      using none by (auto simp: loads_to_def right_changes_def entities_def)
    moreover have "settled_system sn s (w, ?cs)"
      using none Load_Components by (force simp: settled_system_def settled_entity_def entities_def)
    ultimately show ?thesis by (rule that)
  next
    case (Some b)
    then obtain m where m: "b = Boxed_Components t m" using filed unfolding well_filed_def by blast
    let ?st = "fold (load_component E t m) (ec_entities E w) (w, [])"
    have slab: "m i = saved_component sn t i" for i using Some m by (simp add: saved_component_def)
    have "set (ec_entities E w) \<subseteq> entities E (fst (w, []::('k, 'v, 'e) ecs_command list))" by (simp add: entities_def)
    note r = load_loop_ok[OF this, of m sn t, OF slab]
    have "run_load_system E sn s w = Some ?st"
      using Load_Components Some m by (simp add: load_components_def downcast_components_def)
    moreover have "entities E (fst ?st) = entities E w" using r by (simp add: loads_to_def right_changes_def)
    then have "settled_system sn s ?st" using r Load_Components by (simp add: settled_system_def entities_def)
    ultimately show ?thesis using r that by blast
  qed
next
  case (Load_Resource t)
  have "\<exists>st. load_resource E t sn w = Some st \<and> loads_to sn (w, []) st \<and> settled_resource sn t st"
  proof (cases "sn_state sn (Resource_Id t)")
    case None
    then show ?thesis
      by (auto simp: load_resource_def loads_to_def right_changes_def settled_resource_def saved_resource_def split: option.split)
  next
    case (Some b)
    then obtain v where "b = Boxed_Resource t v" using filed unfolding well_filed_def by blast
    then show ?thesis
      using Some insert_resource[of t v w]
      by (auto simp: load_resource_def downcast_resource_def loads_to_def right_changes_def settled_resource_def
          saved_resource_def split: option.split)
  qed
  then show ?thesis using Load_Resource that by (auto simp: settled_system_def)
qed (use s in simp)

lemma load_systems_ok:
  assumes filed: "well_filed sn" and ss: "Sync_Network_Ids \<notin> set ss"
  shows "\<exists>st'. load_systems E sn ss st = Some st' \<and> loads_to sn st st' \<and> (\<forall>s \<in> set ss. settled_system sn s st')"
  using ss
proof (induction ss arbitrary: st)
  case (Cons s ss)
  obtain w cs where st: "st = (w, cs)" by force
  have "s \<noteq> Sync_Network_Ids" using Cons.prems by auto
  then obtain w1 ds where one: "run_load_system E sn s w = Some (w1, ds)" "loads_to sn (w, []) (w1, ds)"
    "settled_system sn s (w1, ds)"
    using load_system_ok[OF filed] by (metis surj_pair)
  have later: "loads_to sn st (w1, cs @ ds)" using one(2) st by (auto simp: loads_to_def)
  have settled: "settled_system sn s (w1, cs @ ds)"
    using one(3) unfolding settled_system_def settled_entity_def settled_resource_def fst_conv snd_conv set_append by blast
  obtain st' where r: "load_systems E sn ss (w1, cs @ ds) = Some st'" "loads_to sn (w1, cs @ ds) st'"
    "\<forall>s \<in> set ss. settled_system sn s st'"
    using Cons.IH Cons.prems by (metis list.set_intros(2))
  have "load_systems E sn (s # ss) st = Some st'" using one(1) r(1) st by simp
  then show ?case
    using r(3) loads_to_trans[OF later r(2)] settled_system_later[OF r(2) settled] by auto
qed simp

lemma load_stage_ok:
  assumes "well_filed sn" and "Sync_Network_Ids \<notin> set ss"
  obtains w' where "run_load_stage E sn ss w = Some w'" and "entities E w' = entities E w"
    and "\<And>t e i. Load_Components t \<in> set ss \<Longrightarrow> (e, i) \<in> entities E w \<Longrightarrow> ec_component E t e w' = saved_component sn t i"
    and "\<And>t. Load_Resource t \<in> set ss \<Longrightarrow> ec_resource E t w' = saved_resource sn t"
proof -
  obtain w1 cs where r: "load_systems E sn ss (w, []) = Some (w1, cs)" "loads_to sn (w, []) (w1, cs)"
    "\<And>s. s \<in> set ss \<Longrightarrow> settled_system sn s (w1, cs)"
    using load_systems_ok[OF assms, of "(w, [])"] by auto
  have ents: "entities E w1 = entities E w" "\<forall>c \<in> set cs. right_command (entities E w1) sn c"
    using r(2) by (auto simp: loads_to_def right_changes_def)
  note a = apply_right[OF ents(2)]
  have "run_load_stage E sn ss w = Some (fold (apply_command E) cs w1)" using r(1) by (simp add: run_load_stage_def)
  moreover have "ec_component E t e (fold (apply_command E) cs w1) = saved_component sn t i"
    if "Load_Components t \<in> set ss" "(e, i) \<in> entities E w" for t e i
  proof -
    have "settled_entity sn t (e, i) (w1, cs)" using r(3)[OF that(1)] that(2) ents(1) by (simp add: settled_system_def)
    then show ?thesis using a that(2) ents(1) by (auto simp: settled_entity_def)
  qed
  moreover have "ec_resource E t (fold (apply_command E) cs w1) = saved_resource sn t"
    if "Load_Resource t \<in> set ss" for t
    using r(3)[OF that] a by (auto simp: settled_system_def settled_resource_def)
  ultimately show ?thesis using a ents(1) by (intro that[of "fold (apply_command E) cs w1"]) simp_all
qed

text \<open>Loading a save state makes the registered part of the world the saved one, whatever it was before.\<close>

lemma restore_ok:
  assumes filed: "well_filed sn" and fin: "finite (sn_ids sn)" and ss: "Sync_Network_Ids \<notin> set ss"
  obtains w' where "restore E [Sync_Network_Ids] ss sn w = Some w'" and "inj_on snd (entities E w')"
    and "snd ` entities E w' = sn_ids sn"
    and "\<And>t e i. Load_Components t \<in> set ss \<Longrightarrow> (e, i) \<in> entities E w' \<Longrightarrow> ec_component E t e w' = saved_component sn t i"
    and "\<And>t. Load_Resource t \<in> set ss \<Longrightarrow> ec_resource E t w' = saved_resource sn t"
proof -
  obtain w1 where one: "run_load_stage E sn [Sync_Network_Ids] w = Some w1" "inj_on snd (entities E w1)"
    "snd ` entities E w1 = sn_ids sn"
    by (rule sync_stage_ok[OF fin, of w]) blast
  obtain w' where two: "run_load_stage E sn ss w1 = Some w'" "entities E w' = entities E w1"
    "\<And>t e i. Load_Components t \<in> set ss \<Longrightarrow> (e, i) \<in> entities E w1 \<Longrightarrow> ec_component E t e w' = saved_component sn t i"
    "\<And>t. Load_Resource t \<in> set ss \<Longrightarrow> ec_resource E t w' = saved_resource sn t"
    by (rule load_stage_ok[OF filed ss, of w1]) blast
  show ?thesis by (rule that[of w']) (use one two in \<open>simp_all add: restore_def\<close>)
qed

end

text \<open>The saving and loading systems of the same types.\<close>

definition stages_match :: "'k save_system list \<Rightarrow> 'k load_system list \<Rightarrow> bool" where
  "stages_match save load \<longleftrightarrow> Save_Network_Ids \<in> set save \<and> Sync_Network_Ids \<notin> set load \<and>
     (\<forall>t. Save_Components t \<in> set save \<longleftrightarrow> Load_Components t \<in> set load) \<and>
     (\<forall>t. Save_Resource t \<in> set save \<longleftrightarrow> Load_Resource t \<in> set load)"

context ecs_world
begin

lemma distinct_identities: "inj_on snd (entities E w) \<Longrightarrow> distinct (map snd (ec_entities E w))"
  using distinct_entities[of w] by (simp add: entities_def distinct_map)

lemma snapshot_restore:
  assumes match: "stages_match save load"
  obtains w' where "restore E [Sync_Network_Ids] load (snapshot E save w) v = Some w'"
    and "snapshot E save w' = snapshot E save w" and "inj_on snd (entities E w')"
proof -
  let ?sn = "snapshot E save w"
  have ids: "sn_ids ?sn = snd ` entities E w" using match by (simp add: snapshot_fields stages_match_def entities_def)
  obtain w' where r: "restore E [Sync_Network_Ids] load ?sn v = Some w'" "inj_on snd (entities E w')"
    "snd ` entities E w' = snd ` entities E w"
    "\<And>t e i. Load_Components t \<in> set load \<Longrightarrow> (e, i) \<in> entities E w' \<Longrightarrow> ec_component E t e w' = saved_component ?sn t i"
    "\<And>t. Load_Resource t \<in> set load \<Longrightarrow> ec_resource E t w' = saved_resource ?sn t"
    by (rule restore_ok[of ?sn load v]) (use match ids in \<open>auto simp: stages_match_def\<close>)
  have "collect_components E t w' i = collect_components E t w i" if t: "Save_Components t \<in> set save" for t i
  proof -
    have known: "\<exists>e. (e, i) \<in> entities E w" if "collect_components E t w i = Some x" for x
    proof -
      have "(i, x) \<in> set (query_components E t w)"
        using map_of_SomeD[OF that[unfolded collect_components_def]] by simp
      then show ?thesis by (auto simp: query_components_def List.map_filter_def entities_def split: option.splits)
    qed
    have at: "ec_component E t e w' = collect_components E t w i" if "(e, i) \<in> entities E w'" for e
      using r(4)[of t e i] that t match by (simp add: stages_match_def)
    have "collect_components E t w' i = Some x \<longleftrightarrow> collect_components E t w i = Some x" for x
      using collect_Some[OF distinct_identities[OF r(2)], of t i x] at known[of x] r(3)
      unfolding entities_def[symmetric] by (metis imageE image_eqI prod.collapse snd_conv)
    then show ?thesis by (metis option.exhaust)
  qed
  then have "snapshot E save w' = snapshot E save w"
    using r(3,5) match by (intro snapshot_eqI) (auto simp: entities_def stages_match_def)
  then show ?thesis using that r(1,2) by blast
qed

text \<open>Entity by entity: with distinct identities, the entity of each identity has its saved components back.\<close>

lemma restore_components:
  assumes match: "stages_match save load" and inj: "inj_on snd (entities E w)"
    and r: "restore E [Sync_Network_Ids] load (snapshot E save w) v = Some w'"
    and t: "Save_Components t \<in> set save" and e: "(e, i) \<in> entities E w" and e': "(e', i) \<in> entities E w'"
  shows "ec_component E t e' w' = ec_component E t e w"
proof -
  obtain u where u: "restore E [Sync_Network_Ids] load (snapshot E save w) v = Some u"
    "\<And>t e i. Load_Components t \<in> set load \<Longrightarrow> (e, i) \<in> entities E u \<Longrightarrow>
       ec_component E t e u = saved_component (snapshot E save w) t i"
    by (rule restore_ok[of "snapshot E save w" load v]) (use match in \<open>auto simp: stages_match_def\<close>)
  have "w' = u" using u(1) r by simp
  then have at: "ec_component E t e' w' = collect_components E t w i"
    using u(2)[of t e' i] e' t match by (simp add: stages_match_def)
  have "collect_components E t w i = Some x \<longleftrightarrow> ec_component E t e w = Some x" for x
    using collect_Some[OF distinct_identities[OF inj], of t i x] e inj_onD[OF inj, of _ "(e, i)"]
    unfolding entities_def[symmetric] by (metis prod.inject snd_conv)
  then show ?thesis using at by (metis option.exhaust)
qed

end

section \<open>A world of tables\<close>

text \<open>
  Entities are numbers; the table of their identities, the table of components and the resources keep the
  laws. A new entity gets a number above those in use.
\<close>

record ('k, 'v) flat_world =
  fw_entities :: "(nat, network_id) alist"
  fw_components :: "nat \<times> 'k \<rightharpoonup> 'v"
  fw_resources :: "'k \<rightharpoonup> 'v"

definition fresh_entity :: "(nat, network_id) alist \<Rightarrow> nat" where
  "fresh_entity d = Suc (sum_list (map fst (DAList.impl_of d)))"

definition flat_ecs :: "('k, 'v, nat, ('k, 'v, 'x) flat_world_scheme) ecs" where
  "flat_ecs =
     \<lparr>ec_entities = (\<lambda>w. DAList.impl_of (fw_entities w)),
      ec_component = (\<lambda>t e w. fw_components w (e, t)),
      ec_insert = (\<lambda>e t v w. w\<lparr>fw_components := (fw_components w)((e, t) \<mapsto> v)\<rparr>),
      ec_remove = (\<lambda>e t w. w\<lparr>fw_components := (fw_components w)((e, t) := None)\<rparr>),
      ec_spawn = (\<lambda>i w. w\<lparr>fw_entities := DAList.update (fresh_entity (fw_entities w)) i (fw_entities w)\<rparr>),
      ec_despawn = (\<lambda>e w. w\<lparr>fw_entities := DAList.delete e (fw_entities w)\<rparr>),
      ec_resource = (\<lambda>t w. fw_resources w t),
      ec_insert_resource = (\<lambda>t v w. w\<lparr>fw_resources := (fw_resources w)(t \<mapsto> v)\<rparr>),
      ec_remove_resource = (\<lambda>t w. w\<lparr>fw_resources := (fw_resources w)(t := None)\<rparr>)\<rparr>"

lemma update_new: "k \<notin> fst ` set xs \<Longrightarrow> AList.update k v xs = xs @ [(k, v)]"
  by (induction xs) auto

lemma fresh_entity_new: "fresh_entity d \<notin> fst ` set (DAList.impl_of d)"
proof
  assume "fresh_entity d \<in> fst ` set (DAList.impl_of d)"
  then have "fresh_entity d \<le> sum_list (map fst (DAList.impl_of d))"
    by (intro member_le_sum_list) auto
  then show False by (simp add: fresh_entity_def)
qed

interpretation flat_ecs: ecs_world flat_ecs
proof (unfold_locales, goal_cases)
  case (4 w i)
  let ?e = "fresh_entity (fw_entities w)"
  have new: "?e \<notin> fst ` set (DAList.impl_of (fw_entities w))" by (rule fresh_entity_new)
  then have "set (DAList.impl_of (DAList.update ?e i (fw_entities w))) = insert (?e, i) (set (DAList.impl_of (fw_entities w)))"
    by (simp add: DAList.update.rep_eq update_new)
  then show ?case using new by (intro exI[of _ ?e]) (simp add: flat_ecs_def entities_def)
next
  case (5 e w)
  then show ?case by (auto simp: flat_ecs_def entities_def DAList.delete.rep_eq AList.delete_eq)
qed (auto simp: flat_ecs_def entities_def)

text \<open>
  A saved world and a later one: one entity was despawned, one was added, a component was removed and
  another one changed.
\<close>

definition flat_demo :: "(string, nat) flat_world" where
  "flat_demo = \<lparr>fw_entities = DAList.update 1 7 (DAList.update 2 8 DAList.empty),
     fw_components = [(1, ''health'') \<mapsto> 10, (2, ''health'') \<mapsto> 20, (2, ''position'') \<mapsto> 5],
     fw_resources = [''score'' \<mapsto> 3]\<rparr>"

definition flat_later :: "(string, nat) flat_world" where
  "flat_later = \<lparr>fw_entities = DAList.update 2 8 (DAList.update 5 9 DAList.empty),
     fw_components = [(2, ''health'') \<mapsto> 15, (5, ''position'') \<mapsto> 1], fw_resources = Map.empty\<rparr>"

definition flat_save :: "string save_system list" where
  "flat_save = [Save_Network_Ids, Save_Resource ''score'', Save_Components ''health'', Save_Components ''position'']"

definition flat_load :: "string load_system list" where
  "flat_load = [Load_Resource ''score'', Load_Components ''health'', Load_Components ''position'']"

lemma flat_stages_match: "stages_match flat_save flat_load"
  by (auto simp: stages_match_def flat_save_def flat_load_def)

end
