(* ===== verification/Session_Store.thy ===== *)
theory Session_Store
  imports P2P_Session
begin

text \<open>
  The session never makes a state of the game: whatever a method does, the states in the shared cells
  were there before or were put there by the client. This is what lets a client with a richer state, such
  as the Bevy plugin, know that every state it is told to load is one it has saved.
\<close>

definition stored :: "'g store \<Rightarrow> 'g set" where
  "stored store = {g. \<exists>f \<in> set store. sf_data f = Some g}"

lemma stored_update: "stored (store[c := f]) \<subseteq> insert g (stored store)" if "\<forall>x. sf_data f = Some x \<longrightarrow> x = g"
  using that set_update_subset_insert[of store c f] unfolding stored_def by fastforce

lemma stored_clear: "sf_data f = None \<Longrightarrow> stored (store[c := f]) \<subseteq> stored store"
  using set_update_subset_insert[of store c f] unfolding stored_def by fastforce

lemma stored_default [simp]: "stored store_default = {}"
  by (simp add: stored_def store_default_def saved_frame_default_def)

lemma stored_load: "cell_load cell store = Some g \<Longrightarrow> g \<in> stored store"
  by (auto simp: cell_load_def stored_def bind_eq_Some_conv checked_simps)

lemma stored_save: "save_state cell frame g k store = Some store' \<Longrightarrow> stored store' \<subseteq> insert g (stored store)"
  using stored_update[of "(store ! cell)\<lparr>sf_data := Some g, sf_checksum := k\<rparr>" g store cell]
  by (simp add: save_state_Some)

section \<open>\<open>Sync\<close>\<close>

lemma push_keeps: "saved_state_push f ss store = Some (c, ss', store') \<Longrightarrow> stored store' \<subseteq> stored store"
  using stored_clear[of "saved_frame_default\<lparr>sf_frame := f\<rparr>" store]
  by (auto simp: saved_state_push_def bind_eq_Some_conv cell_reset_def checked_simps saved_frame_default_def Let_def)

lemma save_current_keeps: "save_current_frame (cs, sy, store) = Some (a, b, st) \<Longrightarrow> stored st \<subseteq> stored store"
  by (auto simp: bind_eq_Some_conv dest: push_keeps[THEN subsetD])

lemma increment_frame_keeps: "increment_frame z sts (cs, sy, store) = Some (a, b, st) \<Longrightarrow> stored st \<subseteq> stored store"
  by (auto simp: bind_eq_Some_conv Let_def split: if_splits
      dest: save_current_keeps[THEN subsetD] simp del: save_current_frame.simps)

lemma increment_frames_keeps: "increment_frames n z sts (cs, sy, store) = Some (a, b, st) \<Longrightarrow> stored st \<subseteq> stored store"
  by (induction n arbitrary: cs sy store)
    (fastforce simp: bind_eq_Some_conv dest: increment_frame_keeps[THEN subsetD] simp del: increment_frame.simps)+

lemma load_frame_keeps: "load_frame f (cs, sy, store) = Some (a, b, st) \<Longrightarrow> st = store"
  by (auto simp: load_frame.simps bind_eq_Some_conv Let_def split: if_splits)

lemma adjust_simulation_keeps: "adjust_simulation z sts f (cs, sy, store) = Some (a, b, st) \<Longrightarrow> stored st \<subseteq> stored store"
  by (auto simp: adjust_simulation.simps bind_eq_Some_conv Let_def
      dest!: load_frame_keeps dest: increment_frames_keeps[THEN subsetD])

lemma check_simulation_keeps: "check_simulation z sts (cs, sy, store) = Some (a, b, st) \<Longrightarrow> stored st \<subseteq> stored store"
  by (auto simp: check_simulation.simps dest: adjust_simulation_keeps[THEN subsetD] split: option.splits)

section \<open>The session\<close>

lemma initial_sync_keeps: "check_initial_sync (cs, s, store) = Some (a, b, st) \<Longrightarrow> st = store"
  by (auto simp: check_initial_sync.simps bind_eq_Some_conv split: if_splits)

lemma disconnect_queue_keeps: "disconnect_player_queue X i f (cs, s, store) = Some (a, b, st) \<Longrightarrow> stored st \<subseteq> stored store"
  by (auto simp: disconnect_player_queue.simps bind_eq_Some_conv Let_def split: if_splits
      dest!: initial_sync_keeps dest: adjust_simulation_keeps[THEN subsetD])

lemma disconnect_remotes_keeps: "disconnect_remotes X f is (cs, s, store) = Some (a, b, st) \<Longrightarrow> stored st \<subseteq> stored store"
proof (induction "is" arbitrary: cs s store)
  case (Cons i "is")
  then show ?case
    by (fastforce simp: bind_eq_Some_conv split: if_splits dest: disconnect_queue_keeps[THEN subsetD])
qed simp

lemma disconnect_player_keeps: "disconnect_player X h (cs, s, store) = Some (r, a, b, st) \<Longrightarrow> stored st \<subseteq> stored store"
  by (auto simp: disconnect_player.simps bind_eq_Some_conv split: if_splits sum.splits
      dest: disconnect_queue_keeps[THEN subsetD] disconnect_remotes_keeps[THEN subsetD])

lemma handle_event_keeps: "handle_event i evt (cs, s, store) = Some (a, b, st) \<Longrightarrow> st = store"
  by (cases evt)
    (auto simp: handle_event.simps bind_eq_Some_conv split: if_splits dest!: initial_sync_keeps)

lemma flush_peer_keeps:
  fixes run run' :: "('i, 'g, 'e, 'o, 'm) session_run"
  shows "flush_peer_events X i run = Some run' \<Longrightarrow> stored (snd (snd run')) \<subseteq> stored (snd (snd run))"
proof (rule flush_peer_events.raw_induct[where P = "\<lambda>X i run run'. stored (snd (snd run')) \<subseteq> stored (snd (snd run))"])
  fix f X i and run run' :: "('i, 'g, 'e, 'o, 'm) session_run"
  assume ih: "\<And>X i run run'. f X i run = Some run' \<Longrightarrow> stored (snd (snd run')) \<subseteq> stored (snd (snd run))"
    and body: "do { r \<leftarrow> receive_event X i (fst (snd run));
          let run = (fst run, snd r, snd (snd run));
          case fst r of
            Inr evt \<Rightarrow> do { run \<leftarrow> handle_event i evt run; f X i run }
          | Inl TryRecvEmpty \<Rightarrow> Some run
          | Inl TryRecvClosed \<Rightarrow>
              do { d \<leftarrow> disconnect_player X i run;
                   case fst d of Inl _ \<Rightarrow> None | Inr _ \<Rightarrow> Some (snd d) } } = Some run'"
  then obtain r where r: "receive_event X i (fst (snd run)) = Some r" by (cases "receive_event X i (fst (snd run))") auto
  show "stored (snd (snd run')) \<subseteq> stored (snd (snd run))"
  proof (cases "fst r")
    case (Inr evt)
    then obtain run1 where "handle_event i evt (fst run, snd r, snd (snd run)) = Some run1" "f X i run1 = Some run'"
      using body r by (auto simp: bind_eq_Some_conv Let_def)
    moreover obtain cs1 s1 st1 where "run1 = (cs1, s1, st1)" by (metis prod_cases3)
    ultimately show ?thesis using handle_event_keeps[of i evt "fst run" "snd r" "snd (snd run)"] ih[of X i run1 run'] by simp
  next
    case (Inl e)
    show ?thesis
    proof (cases e)
      case TryRecvEmpty
      then show ?thesis using Inl body r by (auto simp: Let_def)
    next
      case TryRecvClosed
      then obtain d where d: "disconnect_player X i (fst run, snd r, snd (snd run)) = Some d"
        "(case fst d of Inl _ \<Rightarrow> None | Inr _ \<Rightarrow> Some (snd d)) = Some run'"
        using Inl body r by (cases "disconnect_player X i (fst run, snd r, snd (snd run))") (simp_all add: Let_def)
      then have "run' = snd d" by (cases "fst d") simp_all
      then have "disconnect_player X i (fst run, snd r, snd (snd run)) = Some (fst d, run')" using d(1) by simp
      moreover obtain cs1 s1 st1 where "run' = (cs1, s1, st1)" by (metis prod_cases3)
      ultimately show ?thesis using disconnect_player_keeps[of X i "fst run" "snd r" "snd (snd run)" "fst d"] by simp
    qed
  qed
qed (assumption)

lemma flush_from_keeps: "flush_from X i players run = Some run' \<Longrightarrow> stored (snd (snd run')) \<subseteq> stored (snd (snd run))"
proof (induction players arbitrary: i run)
  case (Cons player players)
  show ?case
  proof (cases "is_remote_player player")
    case True
    then obtain run1 where "flush_peer_events X i run = Some run1" "flush_from X (i + 1) players run1 = Some run'"
      using Cons.prems by (auto simp: bind_eq_Some_conv)
    then show ?thesis using Cons.IH flush_peer_keeps by blast
  qed (use Cons in auto)
qed simp

lemma poll_2_keeps: "poll_2_loop X is f (cs, s, store) = Some (c, a, b, st) \<Longrightarrow> stored st \<subseteq> stored store"
proof (induction "is" arbitrary: f cs s store)
  case (Cons i "is")
  then show ?case
    by (fastforce simp: poll_2_loop.simps bind_eq_Some_conv Let_def split: if_splits
        dest: disconnect_queue_keeps[THEN subsetD])
qed (simp add: poll_2_loop.simps)

lemma poll_n_keeps: "poll_n_loop X is f (cs, s, store) = Some (c, a, b, st) \<Longrightarrow> stored st \<subseteq> stored store"
proof (induction "is" arbitrary: f cs s store)
  case (Cons i "is")
  then show ?case
    by (fastforce simp: poll_n_loop.simps bind_eq_Some_conv Let_def split: if_splits
        dest: disconnect_queue_keeps[THEN subsetD])
qed (simp add: poll_n_loop.simps)

lemma confirmed_frame_keeps: "confirmed_frame X f (cs, s, store) = Some (c, a, b, st) \<Longrightarrow> stored st \<subseteq> stored store"
  by (auto simp: confirmed_frame_def poll_2_players_def poll_n_players_def Let_def split: if_splits
      dest: poll_2_keeps[THEN subsetD] poll_n_keeps[THEN subsetD])

lemma confirm_run_keeps: "confirm_run c (cs, s, store) = Some (a, b, st) \<Longrightarrow> st = store"
  by (auto simp: confirm_run.simps bind_eq_Some_conv split: if_splits)

lemma notify_keeps: "notify_time_sync f (cs, s, store) = Some (a, b, st) \<Longrightarrow> st = store"
  by (cases "recommend_all (se_players s)"; cases "fst (the (recommend_all (se_players s)))")
    (auto simp: notify_time_sync.simps bind_eq_Some_conv Let_def split: if_splits)

lemma poll_running_keeps: "poll_running X (cs, s, store) = Some (a, b, st) \<Longrightarrow> stored st \<subseteq> stored store"
  by (auto simp: poll_running_def bind_eq_Some_conv Let_def
      dest!: notify_keeps confirm_run_keeps dest: confirmed_frame_keeps[THEN subsetD] check_simulation_keeps[THEN subsetD]
      simp del: confirm_run.simps notify_time_sync.simps)

lemma do_poll_keeps: "do_poll X (cs, s, store) = Some (a, b, st) \<Longrightarrow> stored st \<subseteq> stored store"
  by (fastforce simp: do_poll_def bind_eq_Some_conv flush_events_def split: if_splits
      dest: flush_from_keeps poll_running_keeps[THEN subsetD])

lemma session_poll_keeps: "session_poll X (s, store) = Some (cs, s', store') \<Longrightarrow> stored store' \<subseteq> stored store"
  using do_poll_keeps by (simp add: session_poll_def)

lemma session_advance_keeps: "session_advance_frame X (s, store) = Some (cs, s', store') \<Longrightarrow> stored store' \<subseteq> stored store"
  by (auto simp: session_advance_frame_def bind_eq_Some_conv Let_def split: if_splits
      dest: do_poll_keeps[THEN subsetD] increment_frame_keeps[THEN subsetD] simp del: increment_frame.simps)

end
