(* ===== verification/Bevy_Stage.thy ===== *)
theory Bevy_Stage
  imports Bevy_State Session_Run Session_Store
begin

text \<open>
  \<^verbatim>\<open>src/bevy_backroll/src/lib.rs\<close>: the plugin as a client of a session. \<open>FrameStaller\<close> spreads the frames
  to wait over the next ones, \<open>run_commands\<close> executes the commands of a session on a world, \<open>run\<close> is the
  loop of the stage. What the plugin needs of a world beyond \<open>Bevy_State\<close> are parameters: the resource
  with the inputs of the frame, the event queue, whether a session is a resource, the systems of the game.
\<close>

section \<open>\<open>FrameStaller\<close>\<close>

record frame_staller =
  fs_frames_ahead :: u8
  fs_frames_until_stall :: u8

definition staller_new :: frame_staller where
  "staller_new = \<lparr>fs_frames_ahead = 0, fs_frames_until_stall = 0\<rparr>"

definition u8_sub :: "u8 \<Rightarrow> u8 \<Rightarrow> u8 option" where
  "u8_sub a b = (if b \<le> a then Some (a - b) else None)"

definition stall_cadence :: "frame_staller \<Rightarrow> u8 option" where
  "stall_cadence st = (if fs_frames_ahead st > 9 then Some 1 else u8_sub 11 (fs_frames_ahead st))"

definition staller_reset :: "u8 \<Rightarrow> frame_staller \<Rightarrow> frame_staller option" where
  "staller_reset ahead st =
     do { let st = st\<lparr>fs_frames_ahead := ahead\<rparr>;
          cadence \<leftarrow> stall_cadence st;
          Some (st\<lparr>fs_frames_until_stall := cadence\<rparr>) }"

definition should_stall :: "frame_staller \<Rightarrow> (bool \<times> frame_staller) option" where
  "should_stall st =
     (if fs_frames_ahead st = 0 then Some (False, st)
      else if fs_frames_until_stall st = 0 then
        do { ahead \<leftarrow> u8_sub (fs_frames_ahead st) 1;
             let st = st\<lparr>fs_frames_ahead := ahead\<rparr>;
             cadence \<leftarrow> stall_cadence st;
             Some (True, st\<lparr>fs_frames_until_stall := cadence\<rparr>) }
      else
        do { n \<leftarrow> u8_sub (fs_frames_until_stall st) 1;
             Some (False, st\<lparr>fs_frames_until_stall := n\<rparr>) })"

text \<open>The answers of the next \<open>n\<close> calls.\<close>

primrec stall_calls :: "nat \<Rightarrow> frame_staller \<Rightarrow> bool list option" where
  "stall_calls 0 st = Some []"
| "stall_calls (Suc n) st = do { (b, st) \<leftarrow> should_stall st; bs \<leftarrow> stall_calls n st; Some (b # bs) }"

text \<open>What the answers should be: one stall for every frame ahead, fewer frames apart the further ahead.\<close>

definition cadence_of :: "nat \<Rightarrow> nat" where
  "cadence_of ahead = (if ahead > 9 then 1 else 11 - ahead)"

primrec stall_plan :: "nat \<Rightarrow> bool list" where
  "stall_plan 0 = []"
| "stall_plan (Suc ahead) = replicate (cadence_of (Suc ahead)) False @ True # stall_plan ahead"

lemma u8_sub_nat: "u8_sub a b = (if unat b \<le> unat a then Some (a - b) else None)"
  by (simp add: u8_sub_def word_le_nat_alt)

lemma unat_sub: "unat b \<le> unat a \<Longrightarrow> unat (a - b) = unat a - unat b" for a b :: u8
  by (simp add: unat_sub word_le_nat_alt)

lemma stall_cadence_Some:
  obtains c where "stall_cadence st = Some c" and "unat c = cadence_of (unat (fs_frames_ahead st))" and "c \<noteq> 0"
proof -
  let ?a = "fs_frames_ahead st"
  have gt: "?a > 9 \<longleftrightarrow> unat ?a > 9" by (simp add: word_less_nat_alt)
  show ?thesis
  proof (cases "unat ?a > 9")
    case True
    then show ?thesis using gt by (intro that[of 1]) (simp_all add: stall_cadence_def cadence_of_def)
  next
    case False
    then have c: "unat (11 - ?a) = 11 - unat ?a" by (subst unat_sub) simp_all
    then have "unat (11 - ?a) \<noteq> 0" using False by simp
    then have "11 - ?a \<noteq> 0" by (rule contrapos_nn) (simp only: unat_0)
    then show ?thesis using False gt c
      by (intro that[of "11 - ?a"]) (simp_all add: stall_cadence_def cadence_of_def u8_sub_nat)
  qed
qed

lemma take_padding: "k \<le> n \<Longrightarrow> take k (xs @ x # replicate n x) = take k (xs @ replicate n x)"
  by (simp flip: replicate_append_same)

lemma stall_calls_plan:
  "stall_calls n st = Some (take n ((if fs_frames_ahead st = 0 then []
     else replicate (unat (fs_frames_until_stall st)) False @ True # stall_plan (unat (fs_frames_ahead st) - 1))
       @ replicate n False))"
proof (induction n arbitrary: st)
  case (Suc n)
  let ?a = "fs_frames_ahead st" and ?u = "fs_frames_until_stall st"
  consider "?a = 0" | "?a \<noteq> 0" "?u = 0" | "?a \<noteq> 0" "?u \<noteq> 0" by blast
  then show ?case
  proof cases
    case 1
    then show ?thesis using Suc[of st] by (simp add: should_stall_def)
  next
    case 2
    let ?st = "st\<lparr>fs_frames_ahead := ?a - 1\<rparr>"
    have one: "1 \<le> unat ?a" using 2(1) by (simp add: Suc_le_eq unat_gt_0)
    then have a: "unat (?a - 1) = unat ?a - 1" by (subst unat_sub) simp_all
    obtain c where c: "stall_cadence ?st = Some c" "unat c = cadence_of (unat (?a - 1))"
      using stall_cadence_Some[of ?st] by auto
    have "should_stall st = Some (True, ?st\<lparr>fs_frames_until_stall := c\<rparr>)"
      using 2 one c(1) by (simp add: should_stall_def u8_sub_nat)
    moreover have "stall_calls n (?st\<lparr>fs_frames_until_stall := c\<rparr>) = Some (take n (stall_plan (unat ?a - 1) @ replicate n False))"
    proof (cases "?a - 1 = 0")
      case True
      then have "unat ?a - 1 = 0" using a by simp
      then show ?thesis using True Suc[of "?st\<lparr>fs_frames_until_stall := c\<rparr>"] by simp
    next
      case False
      then obtain k where "unat ?a - 1 = Suc k" using a by (metis not0_implies_Suc unat_eq_zero)
      then show ?thesis using False c(2) a Suc[of "?st\<lparr>fs_frames_until_stall := c\<rparr>"] by simp
    qed
    ultimately show ?thesis using 2 by (simp add: replicate_append_same[symmetric] del: replicate_Suc)
  next
    case 3
    let ?st = "st\<lparr>fs_frames_until_stall := ?u - 1\<rparr>"
    have one: "1 \<le> unat ?u" using 3(2) by (simp add: Suc_le_eq unat_gt_0)
    then have u: "unat ?u = Suc (unat (?u - 1))" by (subst unat_sub) simp_all
    have "should_stall st = Some (False, ?st)" using 3 one by (simp add: should_stall_def u8_sub_nat)
    then show ?thesis
      using 3 Suc[of ?st] u take_padding[of "n - unat (?u - 1)" n "True # stall_plan (unat ?a - Suc 0)" False] by simp
  qed
qed simp

lemma stalls_planned: "length (filter id (stall_plan ahead)) = ahead"
  by (induction ahead) simp_all

section \<open>The commands of a session\<close>

datatype should_run = Run_Yes | Run_No | Run_YesAndCheckAgain | Run_NoAndCheckAgain

text \<open>What else the plugin needs of a world; \<open>None\<close> of the first two is a missing resource.\<close>

record ('i, 'k, 'v, 'e, 'w) bevy =
  bv_ecs :: "('k, 'v, 'e, 'w) ecs"
  bv_set_input :: "'i game_input \<Rightarrow> 'w \<Rightarrow> 'w option"
  bv_send_event :: "event \<Rightarrow> 'w \<Rightarrow> 'w option"
  bv_has_session :: "'w \<Rightarrow> bool"
  bv_put_session :: "bool \<Rightarrow> 'w \<Rightarrow> 'w"
  bv_add_events :: "'w \<Rightarrow> 'w"
  bv_add_input :: "'w \<Rightarrow> 'w"
  bv_provider :: 'k
  bv_provider_value :: "u32 \<Rightarrow> 'v"

record ('k, 'w) backroll_stages =
  bs_save :: "'k save_system list"
  bs_simulate :: "('w \<Rightarrow> 'w) list"
  bs_before_load :: "'k load_system list"
  bs_load :: "'k load_system list"
  bs_run_criteria :: "('w \<Rightarrow> should_run \<times> 'w) option"

abbreviation world_snapshot :: "('i, 'k, 'v, 'e, 'w) bevy \<Rightarrow> ('k, 'w) backroll_stages \<Rightarrow> 'w \<Rightarrow> ('k, 'v) bevy_save_state" where
  "world_snapshot B stages w \<equiv> snapshot (bv_ecs B) (bs_save stages) w"

definition run_simulate :: "('k, 'w) backroll_stages \<Rightarrow> 'w \<Rightarrow> 'w" where
  "run_simulate stages w = fold (\<lambda>system w. system w) (bs_simulate stages) w"

text \<open>One command: the staller, the world and the shared cells of the session.\<close>

fun run_command ::
    "('i, 'k, 'v, 'e, 'w) bevy \<Rightarrow> ('k, 'w) backroll_stages \<Rightarrow> 'i command \<Rightarrow>
       frame_staller \<times> 'w \<times> ('k, 'v) bevy_save_state store \<Rightarrow> (frame_staller \<times> 'w \<times> ('k, 'v) bevy_save_state store) option" where
  "run_command B stages (Save cell frame) (st, w, store) =
     do { store \<leftarrow> save_without_hash cell frame (world_snapshot B stages w) store; Some (st, w, store) }"
| "run_command B stages (Load cell) (st, w, store) =
     do { sn \<leftarrow> cell_load cell store;
          w \<leftarrow> restore (bv_ecs B) (bs_before_load stages) (bs_load stages) sn w;
          Some (st, w, store) }"
| "run_command B stages (AdvanceFrame inputs) (st, w, store) =
     do { w \<leftarrow> bv_set_input B inputs w; Some (st, run_simulate stages w, store) }"
| "run_command B stages (Event evt) (st, w, store) =
     do { st \<leftarrow> (case evt of TimeSync ahead \<Rightarrow> staller_reset ahead st | _ \<Rightarrow> Some st);
          w \<leftarrow> bv_send_event B evt w;
          Some (st, w, store) }"

primrec run_commands ::
    "('i, 'k, 'v, 'e, 'w) bevy \<Rightarrow> ('k, 'w) backroll_stages \<Rightarrow> 'i command list \<Rightarrow>
       frame_staller \<times> 'w \<times> ('k, 'v) bevy_save_state store \<Rightarrow> (frame_staller \<times> 'w \<times> ('k, 'v) bevy_save_state store) option" where
  "run_commands B stages [] run = Some run"
| "run_commands B stages (c # cs) run = do { run \<leftarrow> run_command B stages c run; run_commands B stages cs run }"

section \<open>The loop of the stage\<close>

text \<open>The staller, the world, the session and its cells.\<close>

type_synonym ('i, 'e, 'o, 'm, 'k, 'v, 'w) stage_state =
  "frame_staller \<times> 'w \<times> ('i, 'e, 'o, 'm) session \<times> ('k, 'v) bevy_save_state store"

definition stage_criteria :: "('k, 'w) backroll_stages \<Rightarrow> 'w \<Rightarrow> should_run \<times> 'w" where
  "stage_criteria stages w = (case bs_run_criteria stages of Some run_criteria \<Rightarrow> run_criteria w | None \<Rightarrow> (Run_Yes, w))"

fun stage_poll ::
    "('i, 'k, 'v, 'n, 'w) bevy \<Rightarrow> ('i, 'e, 'o, 'm) crates \<Rightarrow> ('k, 'w) backroll_stages \<Rightarrow>
       ('i, 'e, 'o, 'm, 'k, 'v, 'w) stage_state \<Rightarrow> ('i, 'e, 'o, 'm, 'k, 'v, 'w) stage_state option" where
  "stage_poll B X stages (st, w, s, store) =
     do { (commands, s, store) \<leftarrow> session_poll X (s, store);
          (st, w, store) \<leftarrow> run_commands B stages commands (st, w, store);
          Some (st, w, s, store) }"

fun stage_advance ::
    "('i, 'k, 'v, 'n, 'w) bevy \<Rightarrow> ('i, 'e, 'o, 'm) crates \<Rightarrow> ('k, 'w) backroll_stages \<Rightarrow>
       ('i, 'e, 'o, 'm, 'k, 'v, 'w) stage_state \<Rightarrow> ('i, 'e, 'o, 'm, 'k, 'v, 'w) stage_state option" where
  "stage_advance B X stages (st, w, s, store) =
     do { (commands, s, store) \<leftarrow> session_advance_frame X (s, store);
          (st, w, store) \<leftarrow> run_commands B stages commands (st, w, store);
          Some (st, w, s, store) }"

text \<open>The loop over the local players; an error ends it and the stage.\<close>

fun sample_inputs ::
    "('i, 'e, 'o, 'm) crates \<Rightarrow> (player_handle \<Rightarrow> 'w \<Rightarrow> 'i \<times> 'w) \<Rightarrow> player_handle list \<Rightarrow>
       'w \<times> ('i, 'e, 'o, 'm) session \<Rightarrow> ((backroll_error + unit) \<times> 'w \<times> ('i, 'e, 'o, 'm) session) option" where
  "sample_inputs X sample [] (w, s) = Some (Inr (), w, s)"
| "sample_inputs X sample (player # players) (w, s) =
     do { let (input, w) = sample player w;
          (r, s) \<leftarrow> add_local_input X player input s;
          case r of Inl err \<Rightarrow> Some (Inl err, w, s) | Inr _ \<Rightarrow> sample_inputs X sample players (w, s) }"

text \<open>The end of an iteration that does not stall: the inputs and, without an error, the next frame.\<close>

fun stage_frame ::
    "('i, 'k, 'v, 'n, 'w) bevy \<Rightarrow> ('i, 'e, 'o, 'm) crates \<Rightarrow> ('k, 'w) backroll_stages \<Rightarrow> (player_handle \<Rightarrow> 'w \<Rightarrow> 'i \<times> 'w) \<Rightarrow>
       ('i, 'e, 'o, 'm, 'k, 'v, 'w) stage_state \<Rightarrow>
       ((backroll_error + unit) \<times> ('i, 'e, 'o, 'm, 'k, 'v, 'w) stage_state) option" where
  "stage_frame B X stages sample (st, w, s, store) =
     do { (r, w, s) \<leftarrow> sample_inputs X sample (local_players s) (w, s);
          (case r of
             Inl err \<Rightarrow> Some (Inl err, st, w, s, store)
           | Inr _ \<Rightarrow> do { state \<leftarrow> stage_advance B X stages (st, w, s, store); Some (Inr (), state) }) }"

text \<open>\<open>BackrollStage::run\<close>; the system that samples the inputs is \<open>sample\<close>.\<close>

partial_function (option) stage_run ::
    "('i, 'k, 'v, 'n, 'w) bevy \<Rightarrow> ('i, 'e, 'o, 'm) crates \<Rightarrow> ('k, 'w) backroll_stages \<Rightarrow> (player_handle \<Rightarrow> 'w \<Rightarrow> 'i \<times> 'w) \<Rightarrow>
       ('i, 'e, 'o, 'm, 'k, 'v, 'w) stage_state \<Rightarrow> ('i, 'e, 'o, 'm, 'k, 'v, 'w) stage_state option" where
  "stage_run B X stages sample state =
     (let (should_run, w) = stage_criteria stages (fst (snd state));
          state = (fst state, w, snd (snd state)) in
      if should_run = Run_No \<or> \<not> bv_has_session B w then Some state
      else
        do { state \<leftarrow> stage_poll B X stages state;
             stall \<leftarrow> should_stall (fst state);
             let state = (snd stall, snd state);
             (if fst stall then stage_run B X stages sample state
              else
                do { r \<leftarrow> stage_frame B X stages sample state;
                     (case fst r of
                        Inl err \<Rightarrow> Some (snd r)
                      | Inr _ \<Rightarrow> if should_run = Run_Yes then Some (snd r)
                          else stage_run B X stages sample (snd r)) }) })"

section \<open>Building the plugin\<close>

text \<open>The application: its world, the resource \<open>BackrollStages\<close> and the stage with the input sampler.\<close>

record ('i, 'k, 'w) app =
  ap_world :: 'w
  ap_stages :: "('k, 'w) backroll_stages option"
  ap_stage :: "(frame_staller \<times> (player_handle \<Rightarrow> 'w \<Rightarrow> 'i \<times> 'w)) list"

definition register_rollback_component :: "'k \<Rightarrow> ('i, 'k, 'w) app \<Rightarrow> ('i, 'k, 'w) app option" where
  "register_rollback_component t app =
     do { stages \<leftarrow> ap_stages app;
          Some (app\<lparr>ap_stages := Some (stages
            \<lparr>bs_load := bs_load stages @ [Load_Components t], bs_save := bs_save stages @ [Save_Components t]\<rparr>)\<rparr>) }"

definition register_rollback_resource :: "'k \<Rightarrow> ('i, 'k, 'w) app \<Rightarrow> ('i, 'k, 'w) app option" where
  "register_rollback_resource t app =
     do { stages \<leftarrow> ap_stages app;
          Some (app\<lparr>ap_stages := Some (stages
            \<lparr>bs_load := bs_load stages @ [Load_Resource t], bs_save := bs_save stages @ [Save_Resource t]\<rparr>)\<rparr>) }"

definition register_rollback_input ::
    "('i, 'k, 'v, 'e, 'w) bevy \<Rightarrow> (player_handle \<Rightarrow> 'w \<Rightarrow> 'i \<times> 'w) \<Rightarrow> ('i, 'k, 'w) app \<Rightarrow> ('i, 'k, 'w) app" where
  "register_rollback_input B system app =
     app\<lparr>ap_world := bv_add_input B (ap_world app), ap_stage := ap_stage app @ [(staller_new, system)]\<rparr>"

definition with_rollback_run_criteria :: "('w \<Rightarrow> should_run \<times> 'w) \<Rightarrow> ('i, 'k, 'w) app \<Rightarrow> ('i, 'k, 'w) app option" where
  "with_rollback_run_criteria run_criteria app =
     do { stages \<leftarrow> ap_stages app; Some (app\<lparr>ap_stages := Some (stages\<lparr>bs_run_criteria := Some run_criteria\<rparr>)\<rparr>) }"

definition add_rollback_system :: "('w \<Rightarrow> 'w) \<Rightarrow> ('i, 'k, 'w) app \<Rightarrow> ('i, 'k, 'w) app option" where
  "add_rollback_system system app =
     do { stages \<leftarrow> ap_stages app; Some (app\<lparr>ap_stages := Some (stages\<lparr>bs_simulate := bs_simulate stages @ [system]\<rparr>)\<rparr>) }"

definition add_rollback_system_set :: "('w \<Rightarrow> 'w) list \<Rightarrow> ('i, 'k, 'w) app \<Rightarrow> ('i, 'k, 'w) app option" where
  "add_rollback_system_set systems app =
     do { stages \<leftarrow> ap_stages app; Some (app\<lparr>ap_stages := Some (stages\<lparr>bs_simulate := bs_simulate stages @ systems\<rparr>)\<rparr>) }"

definition plugin_build :: "('i, 'k, 'v, 'e, 'w) bevy \<Rightarrow> ('i, 'k, 'w) app \<Rightarrow> ('i, 'k, 'w) app option" where
  "plugin_build B app =
     register_rollback_resource (bv_provider B) (app
       \<lparr>ap_world := ec_insert_resource (bv_ecs B) (bv_provider B) (bv_provider_value B provider_new)
          (bv_add_events B (ap_world app)),
        ap_stages := Some \<lparr>bs_save = [Save_Network_Ids], bs_simulate = [], bs_before_load = [Sync_Network_Ids],
          bs_load = [], bs_run_criteria = None\<rparr>\<rparr>)"

definition start_backroll_session :: "('i, 'k, 'v, 'e, 'w) bevy \<Rightarrow> 'w \<Rightarrow> 'w" where
  "start_backroll_session B w =
     bv_put_session B True (ec_insert_resource (bv_ecs B) (bv_provider B) (bv_provider_value B provider_new) w)"

definition end_backroll_session :: "('i, 'k, 'v, 'e, 'w) bevy \<Rightarrow> 'w \<Rightarrow> 'w" where
  "end_backroll_session B w = bv_put_session B False w"

text \<open>However it is configured, the plugin saves and loads the same types.\<close>

inductive app_built :: "('i, 'k, 'v, 'e, 'w) bevy \<Rightarrow> ('i, 'k, 'w) app \<Rightarrow> bool" for B where
  plugin: "plugin_build B app = Some app' \<Longrightarrow> app_built B app'"
| "component": "app_built B app \<Longrightarrow> register_rollback_component t app = Some app' \<Longrightarrow> app_built B app'"
| resource: "app_built B app \<Longrightarrow> register_rollback_resource t app = Some app' \<Longrightarrow> app_built B app'"
| input: "app_built B app \<Longrightarrow> app_built B (register_rollback_input B system app)"
| criteria: "app_built B app \<Longrightarrow> with_rollback_run_criteria run_criteria app = Some app' \<Longrightarrow> app_built B app'"
| system: "app_built B app \<Longrightarrow> add_rollback_system simulate app = Some app' \<Longrightarrow> app_built B app'"
| systems: "app_built B app \<Longrightarrow> add_rollback_system_set simulates app = Some app' \<Longrightarrow> app_built B app'"

definition stages_ok :: "('k, 'w) backroll_stages \<Rightarrow> bool" where
  "stages_ok stages \<longleftrightarrow> bs_before_load stages = [Sync_Network_Ids] \<and> stages_match (bs_save stages) (bs_load stages)"

lemma app_built_ok: "app_built B app \<Longrightarrow> \<exists>stages. ap_stages app = Some stages \<and> stages_ok stages"
  by (induction rule: app_built.induct)
    (auto simp: plugin_build_def register_rollback_resource_def register_rollback_component_def
      register_rollback_input_def with_rollback_run_criteria_def add_rollback_system_def add_rollback_system_set_def
      stages_ok_def stages_match_def)

section \<open>Stalls without a run criteria\<close>

text \<open>After a stall or a reset the next call does not stall.\<close>

definition no_stall_due :: "frame_staller \<Rightarrow> bool" where
  "no_stall_due st \<longleftrightarrow> fs_frames_ahead st = 0 \<or> fs_frames_until_stall st \<noteq> 0"

lemma staller_reset_Some:
  obtains st' where "staller_reset ahead st = Some st'" and "no_stall_due st'" and "fs_frames_ahead st' = ahead"
    and "unat (fs_frames_until_stall st') = cadence_of (unat ahead)"
proof -
  let ?st = "st\<lparr>fs_frames_ahead := ahead\<rparr>"
  obtain c where c: "stall_cadence ?st = Some c" "unat c = cadence_of (unat (fs_frames_ahead ?st))" "c \<noteq> 0"
    by (rule stall_cadence_Some)
  then show ?thesis
    by (intro that[of "?st\<lparr>fs_frames_until_stall := c\<rparr>"]) (simp_all add: staller_reset_def no_stall_due_def)
qed

lemma should_stall_Some:
  obtains b st' where "should_stall st = Some (b, st')" and "no_stall_due st \<longrightarrow> \<not> b" and "b \<longrightarrow> no_stall_due st'"
proof -
  let ?a = "fs_frames_ahead st" and ?u = "fs_frames_until_stall st"
  consider "?a = 0" | "?a \<noteq> 0" "?u = 0" | "?a \<noteq> 0" "?u \<noteq> 0" by blast
  then show ?thesis
  proof cases
    case 1
    then show ?thesis by (intro that[of False st]) (simp_all add: should_stall_def)
  next
    case 2
    obtain c where c: "stall_cadence (st\<lparr>fs_frames_ahead := ?a - 1\<rparr>) = Some c" "c \<noteq> 0"
      using stall_cadence_Some[of "st\<lparr>fs_frames_ahead := ?a - 1\<rparr>"] by blast
    have "1 \<le> unat ?a" using 2(1) by (simp add: Suc_le_eq unat_gt_0)
    then show ?thesis
      using 2 c by (intro that[of True "st\<lparr>fs_frames_ahead := ?a - 1, fs_frames_until_stall := c\<rparr>"])
        (simp_all add: should_stall_def u8_sub_nat no_stall_due_def)
  next
    case 3
    have "1 \<le> unat ?u" using 3(2) by (simp add: Suc_le_eq unat_gt_0)
    then show ?thesis
      using 3 by (intro that[of False "st\<lparr>fs_frames_until_stall := ?u - 1\<rparr>"]) (simp_all add: should_stall_def u8_sub_nat)
  qed
qed

lemma run_command_no_stall:
  "run_command B stages c (st, w, store) = Some (st', w', store') \<Longrightarrow> no_stall_due st \<Longrightarrow> no_stall_due st'"
proof (cases c)
  case (Event evt)
  assume r: "run_command B stages c (st, w, store) = Some (st', w', store')" and due: "no_stall_due st"
  show ?thesis
  proof (cases evt)
    case (TimeSync ahead)
    obtain st1 where "staller_reset ahead st = Some st1" "no_stall_due st1" by (rule staller_reset_Some)
    then show ?thesis using r Event TimeSync by (auto simp: bind_eq_Some_conv)
  qed (use r due Event in \<open>auto simp: bind_eq_Some_conv\<close>)
qed (auto simp: bind_eq_Some_conv)

lemma run_commands_no_stall:
  "run_commands B stages cs (st, w, store) = Some (st', w', store') \<Longrightarrow> no_stall_due st \<Longrightarrow> no_stall_due st'"
proof (induction cs arbitrary: st w store)
  case (Cons c cs)
  then obtain st1 w1 store1 where "run_command B stages c (st, w, store) = Some (st1, w1, store1)"
    "run_commands B stages cs (st1, w1, store1) = Some (st', w', store')"
    by (auto simp: bind_eq_Some_conv simp del: run_command.simps)
  then show ?case using Cons.IH Cons.prems(2) run_command_no_stall by metis
qed simp

definition poll_and_stall ::
    "('i, 'k, 'v, 'n, 'w) bevy \<Rightarrow> ('i, 'e, 'o, 'm) crates \<Rightarrow> ('k, 'w) backroll_stages \<Rightarrow>
       ('i, 'e, 'o, 'm, 'k, 'v, 'w) stage_state \<Rightarrow> (bool \<times> ('i, 'e, 'o, 'm, 'k, 'v, 'w) stage_state) option" where
  "poll_and_stall B X stages state =
     do { state \<leftarrow> stage_poll B X stages state;
          stall \<leftarrow> should_stall (fst state);
          Some (fst stall, snd stall, snd state) }"

lemma poll_and_stall_due:
  assumes "poll_and_stall B X stages state = Some (b, state')"
  shows "no_stall_due (fst state) \<Longrightarrow> \<not> b" and "b \<Longrightarrow> no_stall_due (fst state')"
proof -
  obtain st w s store where state: "state = (st, w, s, store)" by (metis prod_cases4)
  obtain cs s1 store1 st1 w1 store2 stall where r: "run_commands B stages cs (st, w, store1) = Some (st1, w1, store2)"
    "should_stall st1 = Some stall" "(b, state') = (fst stall, snd stall, w1, s1, store2)"
    using assms unfolding state poll_and_stall_def by (auto simp: bind_eq_Some_conv)
  obtain c st' where c: "should_stall st1 = Some (c, st')" "no_stall_due st1 \<longrightarrow> \<not> c" "c \<longrightarrow> no_stall_due st'"
    by (rule should_stall_Some[of st1])
  show "no_stall_due (fst state) \<Longrightarrow> \<not> b" "b \<Longrightarrow> no_stall_due (fst state')"
    using r c run_commands_no_stall[OF r(1)] state by auto
qed

text \<open>
  With no run criteria every run of the stage ends: it polls, polls once more when a stall is due, and
  then simulates a frame all the same, unless the session is gone or an input is refused.
\<close>

lemma stage_run_no_criteria:
  assumes none: "bs_run_criteria stages = None"
  shows "stage_run B X stages sample state =
    (if \<not> bv_has_session B (fst (snd state)) then Some state
     else do { (stall, state) \<leftarrow> poll_and_stall B X stages state;
               if \<not> stall then map_option snd (stage_frame B X stages sample state)
               else if \<not> bv_has_session B (fst (snd state)) then Some state
               else do { (stall, state) \<leftarrow> poll_and_stall B X stages state;
                         map_option snd (stage_frame B X stages sample state) } })"
proof -
  have finish: "f \<bind> (\<lambda>r. case fst r of Inl err \<Rightarrow> Some (snd r)
      | Inr x \<Rightarrow> if Run_Yes = Run_Yes then Some (snd r) else Q r) = map_option snd f"
    for f :: "(('x + unit) \<times> 'y) option" and Q
  proof (cases f)
    case (Some r)
    then show ?thesis by (cases "fst r") simp_all
  qed simp
  have step: "stage_run B X stages sample state =
      (if \<not> bv_has_session B (fst (snd state)) then Some state
       else do { (stall, state) \<leftarrow> poll_and_stall B X stages state;
                 if stall then stage_run B X stages sample state
                 else map_option snd (stage_frame B X stages sample state) })" for state
    by (subst stage_run.simps)
      (simp add: stage_criteria_def none finish poll_and_stall_def Let_def bind_assoc
        cong: if_cong)
  have again: "stage_run B X stages sample state =
      (if \<not> bv_has_session B (fst (snd state)) then Some state
       else do { (stall, state) \<leftarrow> poll_and_stall B X stages state;
                 map_option snd (stage_frame B X stages sample state) })"
    if "no_stall_due (fst state)" for state
    using poll_and_stall_due(1)[of B X stages state] that
    by (subst step) (cases "poll_and_stall B X stages state"; auto)
  show ?thesis
  proof (cases "poll_and_stall B X stages state")
    case None
    then show ?thesis by (subst step) simp
  next
    case (Some r)
    then obtain b state' where r: "poll_and_stall B X stages state = Some (b, state')" by (cases r) auto
    then show ?thesis using again[of state'] poll_and_stall_due(2)[OF r] by (subst step) simp
  qed
qed

section \<open>The plugin as a client\<close>

text \<open>
  What the documentation asks of an application: its systems simulate the registered part of the world
  deterministically (\<open>step\<close>), and nothing else changes that part. \<open>ready\<close> are the worlds with the resources
  the plugin needs.
\<close>

locale bevy_client = ecs_world "bv_ecs B" for B :: "('i, 'k, 'v, 'n, 'w) bevy" +
  fixes stages :: "('k, 'w) backroll_stages"
    and step :: "('k, 'v) bevy_save_state \<Rightarrow> 'i game_input \<Rightarrow> ('k, 'v) bevy_save_state"
    and ready :: "'w \<Rightarrow> bool"
  assumes stages: "stages_ok stages"
    and simulate: "ready w \<Longrightarrow> \<exists>w'. bv_set_input B inputs w = Some w' \<and> ready (run_simulate stages w') \<and>
      world_snapshot B stages (run_simulate stages w') = step (world_snapshot B stages w) inputs"
    and event: "ready w \<Longrightarrow> \<exists>w'. bv_send_event B evt w = Some w' \<and> ready w' \<and>
      world_snapshot B stages w' = world_snapshot B stages w"
    and load: "ready w \<Longrightarrow> ready v \<Longrightarrow>
      restore (bv_ecs B) (bs_before_load stages) (bs_load stages) (world_snapshot B stages v) w = Some w' \<Longrightarrow> ready w'"
begin

text \<open>Every saved state is one of a world the application was in.\<close>

definition sound_store :: "('k, 'v) bevy_save_state store \<Rightarrow> bool" where
  "sound_store store \<longleftrightarrow> (\<forall>g \<in> stored store. \<exists>v. ready v \<and> g = world_snapshot B stages v)"

lemma sound_store_mono: "stored store' \<subseteq> stored store \<Longrightarrow> sound_store store \<Longrightarrow> sound_store store'"
  by (auto simp: sound_store_def)

lemma restored:
  assumes "ready w" and "ready v"
  obtains w' where "restore (bv_ecs B) (bs_before_load stages) (bs_load stages) (world_snapshot B stages v) w = Some w'"
    and "ready w'" and "world_snapshot B stages w' = world_snapshot B stages v"
proof -
  have before: "bs_before_load stages = [Sync_Network_Ids]" and match: "stages_match (bs_save stages) (bs_load stages)"
    using stages by (simp_all add: stages_ok_def)
  obtain w' where "restore (bv_ecs B) [Sync_Network_Ids] (bs_load stages) (world_snapshot B stages v) w = Some w'"
    "world_snapshot B stages w' = world_snapshot B stages v"
    by (rule snapshot_restore[OF match, of v w]) blast
  then show ?thesis using load[OF assms] before that by simp
qed

text \<open>Executing a command on the world does to its save state what the client of a session does to its state.\<close>

lemma run_command_executes:
  assumes w: "ready w" and store: "sound_store store"
    and x: "execute step (\<lambda>_. None) c (world_snapshot B stages w, store) = Some (g, store')"
  obtains st' w' where "run_command B stages c (st, w, store) = Some (st', w', store')"
    and "world_snapshot B stages w' = g" and "ready w'" and "sound_store store'"
proof (cases c)
  case (Save cell frame)
  then have r: "save_without_hash cell frame (world_snapshot B stages w) store = Some store'" "g = world_snapshot B stages w"
    using x by (auto simp: bind_eq_Some_conv)
  then have "stored store' \<subseteq> insert (world_snapshot B stages w) (stored store)"
    by (simp add: save_without_hash_def stored_save)
  then have "sound_store store'" using store w unfolding sound_store_def by blast
  then show ?thesis using r w Save by (intro that[of st w]) simp_all
next
  case (Load cell)
  then have r: "cell_load cell store = Some g" "store' = store" using x by (auto simp: bind_eq_Some_conv)
  then obtain v where v: "ready v" "g = world_snapshot B stages v"
    using stored_load[OF r(1)] store by (auto simp: sound_store_def)
  obtain w' where "restore (bv_ecs B) (bs_before_load stages) (bs_load stages) (world_snapshot B stages v) w = Some w'"
    "ready w'" "world_snapshot B stages w' = world_snapshot B stages v"
    by (rule restored[OF w v(1)])
  then show ?thesis using r v store Load by (intro that[of st w']) simp_all
next
  case (AdvanceFrame inputs)
  obtain w' where "bv_set_input B inputs w = Some w'" "ready (run_simulate stages w')"
    "world_snapshot B stages (run_simulate stages w') = step (world_snapshot B stages w) inputs"
    using simulate[OF w, of inputs] by blast
  then show ?thesis using x store AdvanceFrame by (intro that[of st "run_simulate stages w'"]) simp_all
next
  case (Event evt)
  obtain w' where w': "bv_send_event B evt w = Some w'" "ready w'" "world_snapshot B stages w' = world_snapshot B stages w"
    using event[OF w, of evt] by blast
  have "\<exists>st'. (case evt of TimeSync ahead \<Rightarrow> staller_reset ahead st | _ \<Rightarrow> Some st) = Some st'"
    by (cases evt) (auto intro: staller_reset_Some)
  then show ?thesis using x w' store Event that by fastforce
qed

lemma run_commands_execute:
  assumes "ready w" and "sound_store store"
    and "execute_all step (\<lambda>_. None) cs (world_snapshot B stages w, store) = Some (g, store')"
  shows "\<exists>st' w'. run_commands B stages cs (st, w, store) = Some (st', w', store') \<and>
    world_snapshot B stages w' = g \<and> ready w' \<and> sound_store store'"
  using assms
proof (induction cs arbitrary: st w store)
  case (Cons c cs)
  then obtain g1 store1 where x: "execute step (\<lambda>_. None) c (world_snapshot B stages w, store) = Some (g1, store1)"
    "execute_all step (\<lambda>_. None) cs (g1, store1) = Some (g, store')"
    by (auto simp: bind_eq_Some_conv simp del: execute.simps)
  obtain st1 w1 where r: "run_command B stages c (st, w, store) = Some (st1, w1, store1)"
    "world_snapshot B stages w1 = g1" "ready w1" "sound_store store1"
    by (rule run_command_executes[OF Cons.prems(1,2) x(1)])
  then show ?case using Cons.IH[OF r(3,4), of st1] x(2) by (simp del: run_command.simps)
qed simp

end

section \<open>Sessions of the plugin\<close>

definition plugin_world ::
    "('i, 'k, 'v, 'n, 'w) bevy \<Rightarrow> ('k, 'w) backroll_stages \<Rightarrow> ('i, 'e, 'o, 'm, 'k, 'v, 'w) stage_state \<Rightarrow>
       (nat \<Rightarrow> 'i list) \<Rightarrow> ('i, ('k, 'v) bevy_save_state) world" where
  "plugin_world B stages state h = (let (st, w, s, store) = state in
     \<lparr>wo_sync = se_sync s, wo_store = store, wo_state = world_snapshot B stages w, wo_inputs = h\<rparr>)"

text \<open>
  The parts of an iteration in any order, with the background tasks of the session and the other systems
  of the application in between; these and the sampling of inputs leave the registered part alone.
\<close>

inductive plugin_reachable ::
    "('i, 'k, 'v, 'n, 'w) bevy \<Rightarrow> ('i, 'e, 'o, 'm) crates \<Rightarrow> ('i, 'e, 'o, 'm) views \<Rightarrow> ('i, ('k, 'v) bevy_save_state) game \<Rightarrow>
       ('k, 'w) backroll_stages \<Rightarrow> ('w \<Rightarrow> bool) \<Rightarrow> session_builder \<Rightarrow>
       ('i, 'e, 'o, 'm, 'k, 'v, 'w) stage_state \<times> (nat \<Rightarrow> 'i list) \<Rightarrow> bool" for B X W G stages ready b where
  start: "builder_start X b draws ends = Some (Inr s) \<Longrightarrow> \<forall>i. \<not> vw_events_shut W (fst (ends i)) \<Longrightarrow> ready w \<Longrightarrow>
    world_snapshot B stages w = gm_start G \<Longrightarrow>
    plugin_reachable B X W G stages ready b ((st, w, s, store_default), \<lambda>_. [])"
| tasks: "plugin_reachable B X W G stages ready b ((st, w, s, store), h) \<Longrightarrow> length players = length (se_players s) \<Longrightarrow>
    \<forall>i < length players. task_change W (se_players s ! i) (players ! i) \<Longrightarrow>
    plugin_reachable B X W G stages ready b ((st, w, s\<lparr>se_players := players\<rparr>, store), h)"
| systems: "plugin_reachable B X W G stages ready b ((st, w, s, store), h) \<Longrightarrow> ready w' \<Longrightarrow>
    world_snapshot B stages w' = world_snapshot B stages w \<Longrightarrow>
    plugin_reachable B X W G stages ready b ((st', w', s, store), h)"
| local_input: "plugin_reachable B X W G stages ready b ((st, w, s, store), h) \<Longrightarrow> \<not> se_synchronizing s \<Longrightarrow>
    \<not> barred (se_sync s) \<Longrightarrow> se_players s ! i = Local \<Longrightarrow>
    local_input_due (plugin_world B stages (st, w, s, store) h) i t \<Longrightarrow> add_local_input X i x s = Some (r, s') \<Longrightarrow>
    plugin_reachable B X W G stages ready b ((st, w, s', store), accept_input G i t x h)"
| poll: "plugin_reachable B X W G stages ready b ((st, w, s, store), h) \<Longrightarrow>
    may_poll W G (sy_frame_count (se_sync s)) h' (plugin_world B stages (st, w, s, store) h, s) \<Longrightarrow>
    stage_poll B X stages (st, w, s, store) = Some state' \<Longrightarrow>
    plugin_reachable B X W G stages ready b (state', h')"
| advance: "plugin_reachable B X W G stages ready b ((st, w, s, store), h) \<Longrightarrow> may_advance s \<Longrightarrow>
    may_poll W G (sy_frame_count (se_sync s) + 1) h' (plugin_world B stages (st, w, s, store) h, s) \<Longrightarrow>
    stage_advance B X stages (st, w, s, store) = Some state' \<Longrightarrow>
    plugin_reachable B X W G stages ready b (state', h')"

lemma plugin_world_fields [simp]:
  "wo_sync (plugin_world B stages (st, w, s, store) h) = se_sync s"
  "wo_store (plugin_world B stages (st, w, s, store) h) = store"
  "wo_state (plugin_world B stages (st, w, s, store) h) = world_snapshot B stages w"
  "wo_inputs (plugin_world B stages (st, w, s, store) h) = h"
  by (simp_all add: plugin_world_def)

lemma after_call_plugin:
  "after_call (plugin_world B stages (st, w, s, store) h) h' (world_snapshot B stages w') store' s' =
     plugin_world B stages (st', w', s', store') h'"
  by (simp add: after_call_def plugin_world_def)

context bevy_client
begin

text \<open>A poll and an advance of the plugin, when the session's commands can be executed.\<close>

lemma stage_poll_executes:
  assumes "ready w" and "sound_store store" and poll: "session_poll X (s, store) = Some (cs, s', store1)"
    and "execute_all step (\<lambda>_. None) cs (world_snapshot B stages w, store1) = Some (g, store2)"
  obtains st' w' where "stage_poll B X stages (st, w, s, store) = Some (st', w', s', store2)"
    and "world_snapshot B stages w' = g" and "ready w'" and "sound_store store2"
proof -
  have "sound_store store1" by (rule sound_store_mono[OF session_poll_keeps[OF poll] assms(2)])
  from run_commands_execute[OF assms(1) this assms(4), of st] poll that show ?thesis by auto
qed

lemma stage_advance_executes:
  assumes "ready w" and "sound_store store" and adv: "session_advance_frame X (s, store) = Some (cs, s', store1)"
    and "execute_all step (\<lambda>_. None) cs (world_snapshot B stages w, store1) = Some (g, store2)"
  obtains st' w' where "stage_advance B X stages (st, w, s, store) = Some (st', w', s', store2)"
    and "world_snapshot B stages w' = g" and "ready w'" and "sound_store store2"
proof -
  have "sound_store store1" by (rule sound_store_mono[OF session_advance_keeps[OF adv] assms(2)])
  from run_commands_execute[OF assms(1) this assms(4), of st] adv that show ?thesis by auto
qed

lemma plugin_polls:
  assumes ok: "channels_ok X W" and G: "gm_step G = step" "gm_hash G = (\<lambda>_. None)"
    and inv: "session_ok X W G (plugin_world B stages (st, w, s, store) h, s)" and w: "ready w" "sound_store store"
    and may: "may_poll W G (sy_frame_count (se_sync s)) h' (plugin_world B stages (st, w, s, store) h, s)"
  obtains st' w' s' store' where "stage_poll B X stages (st, w, s, store) = Some (st', w', s', store')"
    and "session_step X W G (plugin_world B stages (st, w, s, store) h, s) (plugin_world B stages (st', w', s', store') h', s')"
    and "world_snapshot B stages w' = replayed G (sy_player_count (se_sync s)) h' (nat (sy_frame_count (se_sync s)))"
    and "ready w'" and "sound_store store'" and "sy_frame_count (se_sync s') = sy_frame_count (se_sync s)"
proof -
  let ?w = "plugin_world B stages (st, w, s, store) h"
  obtain cs s' store1 g store2 where p: "session_poll X (s, wo_store ?w) = Some (cs, s', store1)"
    "execute_all (gm_step G) (gm_hash G) cs (wo_state ?w, store1) = Some (g, store2)"
    "g = replayed G (sy_player_count (se_sync s)) h' (nat (sy_frame_count (se_sync s)))"
    "sy_frame_count (se_sync s') = sy_frame_count (se_sync s)"
    by (rule poll_returns[OF ok inv may])
  have x: "session_poll X (s, store) = Some (cs, s', store1)"
    "execute_all step (\<lambda>_. None) cs (world_snapshot B stages w, store1) = Some (g, store2)"
    using p(1,2) G by simp_all
  obtain st' w' where r: "stage_poll B X stages (st, w, s, store) = Some (st', w', s', store2)"
    "world_snapshot B stages w' = g" "ready w'" "sound_store store2"
    by (rule stage_poll_executes[OF w x])
  have "session_step X W G (?w, s) (after_call ?w h' g store2 s', s')" by (rule session_step.poll[OF may p(1,2)])
  then show ?thesis
    using r p(3,4) after_call_plugin[of B stages st w s store h h' w' store2 s' st']
    by (intro that[of st' w' s' store2]) simp_all
qed

lemma plugin_advances:
  assumes ok: "channels_ok X W" and G: "gm_step G = step" "gm_hash G = (\<lambda>_. None)"
    and inv: "session_ok X W G (plugin_world B stages (st, w, s, store) h, s)" and w: "ready w" "sound_store store"
    and adv: "may_advance s"
    and may: "may_poll W G (sy_frame_count (se_sync s) + 1) h' (plugin_world B stages (st, w, s, store) h, s)"
  obtains st' w' s' store' where "stage_advance B X stages (st, w, s, store) = Some (st', w', s', store')"
    and "session_step X W G (plugin_world B stages (st, w, s, store) h, s) (plugin_world B stages (st', w', s', store') h', s')"
    and "world_snapshot B stages w' = replayed G (sy_player_count (se_sync s)) h' (nat (sy_frame_count (se_sync s) + 1))"
    and "ready w'" and "sound_store store'" and "sy_frame_count (se_sync s') = sy_frame_count (se_sync s) + 1"
proof -
  let ?w = "plugin_world B stages (st, w, s, store) h"
  obtain cs s' store1 g store2 where p: "session_advance_frame X (s, wo_store ?w) = Some (cs, s', store1)"
    "execute_all (gm_step G) (gm_hash G) cs (wo_state ?w, store1) = Some (g, store2)"
    "g = replayed G (sy_player_count (se_sync s)) h' (nat (sy_frame_count (se_sync s) + 1))"
    "sy_frame_count (se_sync s') = sy_frame_count (se_sync s) + 1"
    by (rule advance_returns[OF ok inv adv may])
  have x: "session_advance_frame X (s, store) = Some (cs, s', store1)"
    "execute_all step (\<lambda>_. None) cs (world_snapshot B stages w, store1) = Some (g, store2)"
    using p(1,2) G by simp_all
  obtain st' w' where r: "stage_advance B X stages (st, w, s, store) = Some (st', w', s', store2)"
    "world_snapshot B stages w' = g" "ready w'" "sound_store store2"
    by (rule stage_advance_executes[OF w x])
  have "session_step X W G (?w, s) (after_call ?w h' g store2 s', s')" by (rule session_step.advance[OF adv may p(1,2)])
  then show ?thesis
    using r p(3,4) after_call_plugin[of B stages st w s store h h' w' store2 s' st']
    by (intro that[of st' w' s' store2]) simp_all
qed

text \<open>The invariant: seen through its save state, the plugin is a client of the session.\<close>

definition plugin_ok ::
    "('i, 'e, 'o, 'm) crates \<Rightarrow> ('i, 'e, 'o, 'm) views \<Rightarrow> ('i, ('k, 'v) bevy_save_state) game \<Rightarrow> session_builder \<Rightarrow>
       ('i, 'e, 'o, 'm, 'k, 'v, 'w) stage_state \<times> (nat \<Rightarrow> 'i list) \<Rightarrow> bool" where
  "plugin_ok X W G b sh \<longleftrightarrow> (case sh of ((st, w, s, store), h) \<Rightarrow>
     session_reachable X W G b (plugin_world B stages (st, w, s, store) h, s) \<and> ready w \<and> sound_store store)"

lemma plugin_reachable_ok:
  assumes ok: "channels_ok X W" and z: "gm_zero G = pod_zeroed (cr_pod X)" and b: "playable b"
    and G: "gm_step G = step" "gm_hash G = (\<lambda>_. None)"
  shows "plugin_reachable B X W G stages ready b sh \<Longrightarrow> plugin_ok X W G b sh"
proof (induction rule: plugin_reachable.induct)
  case (start draws ends s w st)
  have new: "session_new X b draws ends = Some (Inr s)" using start(1) by (simp add: builder_start_def)
  have "se_sync s = sync_new (gm_zero G) (length (sb_players b)) (sb_frame_delay b)"
    using new z by (auto simp: session_new_def Let_def bind_eq_Some_conv split: if_split_asm)
  then have "plugin_world B stages (st, w, s, store_default) (\<lambda>_. []) =
      world_new G (length (sb_players b)) (sb_frame_delay b)"
    using start(4) by (simp add: plugin_world_def world_new_def)
  then show ?case
    using session_reachable.start[OF start(1,2), of G] start(3) by (simp add: plugin_ok_def sound_store_def)
next
  case (tasks st w s store h players)
  have r: "session_reachable X W G b (plugin_world B stages (st, w, s, store) h, s)" "ready w" "sound_store store"
    using tasks.IH by (simp_all add: plugin_ok_def)
  have eq: "plugin_world B stages (st, w, s\<lparr>se_players := players\<rparr>, store) h = plugin_world B stages (st, w, s, store) h"
    by (simp add: plugin_world_def)
  show ?case unfolding plugin_ok_def prod.case eq
    using session_reachable.step[OF r(1) session_step.tasks[OF tasks.hyps(2,3)]] r(2,3) by simp
next
  case (systems st w s store h w' st')
  have eq: "plugin_world B stages (st', w', s, store) h = plugin_world B stages (st, w, s, store) h"
    using systems.hyps(3) by (simp add: plugin_world_def)
  show ?case unfolding plugin_ok_def prod.case eq using systems.IH systems.hyps(2) by (simp add: plugin_ok_def)
next
  case (local_input st w s store h i t x r s')
  let ?w = "plugin_world B stages (st, w, s, store) h"
  have r: "session_reachable X W G b (?w, s)" "ready w" "sound_store store"
    using local_input.IH by (simp_all add: plugin_ok_def)
  have eq: "plugin_world B stages (st, w, s', store) (accept_input G i t x h) =
      ?w\<lparr>wo_sync := se_sync s', wo_inputs := accept_input G i t x (wo_inputs ?w)\<rparr>"
    by (simp add: plugin_world_def)
  show ?case unfolding plugin_ok_def prod.case eq
    using session_reachable.step[OF r(1) session_step.local_input[OF local_input.hyps(2-6)]] r(2,3) by simp
next
  case (poll st w s store h h' state')
  have r: "session_reachable X W G b (plugin_world B stages (st, w, s, store) h, s)" "ready w" "sound_store store"
    using poll.IH by (simp_all add: plugin_ok_def)
  have "session_ok X W G (plugin_world B stages (st, w, s, store) h, s)" using session_reachable_inv[OF ok z b r(1)] by simp
  then obtain st' w' s' store' where p: "stage_poll B X stages (st, w, s, store) = Some (st', w', s', store')"
    "session_step X W G (plugin_world B stages (st, w, s, store) h, s) (plugin_world B stages (st', w', s', store') h', s')"
    "ready w'" "sound_store store'"
    by (rule plugin_polls[OF ok G _ r(2,3) poll.hyps(2)])
  have "state' = (st', w', s', store')" using poll.hyps(3) p(1) by (simp del: stage_poll.simps)
  then show ?case unfolding plugin_ok_def using session_reachable.step[OF r(1) p(2)] p(3,4) by (simp only: prod.case)
next
  case (advance st w s store h h' state')
  have r: "session_reachable X W G b (plugin_world B stages (st, w, s, store) h, s)" "ready w" "sound_store store"
    using advance.IH by (simp_all add: plugin_ok_def)
  have "session_ok X W G (plugin_world B stages (st, w, s, store) h, s)" using session_reachable_inv[OF ok z b r(1)] by simp
  then obtain st' w' s' store' where p: "stage_advance B X stages (st, w, s, store) = Some (st', w', s', store')"
    "session_step X W G (plugin_world B stages (st, w, s, store) h, s) (plugin_world B stages (st', w', s', store') h', s')"
    "ready w'" "sound_store store'"
    by (rule plugin_advances[OF ok G _ r(2,3) advance.hyps(2,3)])
  have "state' = (st', w', s', store')" using advance.hyps(4) p(1) by (simp del: stage_advance.simps)
  then show ?case unfolding plugin_ok_def using session_reachable.step[OF r(1) p(2)] p(3,4) by (simp only: prod.case)
qed

end

end
