(* ===== verification/Bevy_Demo.thy ===== *)
theory Bevy_Demo
  imports Bevy_Stage Session_Demo
begin

text \<open>
  A concrete application of the Bevy plugin: a world of tables with a score and entities that have health,
  two systems that simulate a frame, and the two-player session of the other examples. It shows that the
  laws of a client of the plugin can be met, and the theorems about the plugin are tried on it.
\<close>

section \<open>The application\<close>

record ('k, 'v) game_world = "('k, 'v) flat_world" +
  gw_input :: "test_input game_input option"
  gw_events :: "event list option"
  gw_session :: bool

type_synonym demo_bevy_world = "(string, nat) game_world"

definition demo_bevy :: "(test_input, string, nat, nat, demo_bevy_world) bevy" where
  "demo_bevy =
     \<lparr>bv_ecs = flat_ecs,
      bv_set_input = (\<lambda>inputs w. map_option (\<lambda>_. w\<lparr>gw_input := Some inputs\<rparr>) (gw_input w)),
      bv_send_event = (\<lambda>evt w. map_option (\<lambda>events. w\<lparr>gw_events := Some (events @ [evt])\<rparr>) (gw_events w)),
      bv_has_session = gw_session,
      bv_put_session = (\<lambda>b w. w\<lparr>gw_session := b\<rparr>),
      bv_add_events = (\<lambda>w. w\<lparr>gw_events := Some []\<rparr>),
      bv_add_input = (\<lambda>w. w\<lparr>gw_input := Some (game_input_default (pod_zeroed test_pod))\<rparr>),
      bv_provider = ''provider'',
      bv_provider_value = unat\<rparr>"

text \<open>The input of player 0 adds to the score, and everything with health gains some in each frame.\<close>

definition frame_score :: "test_input game_input \<Rightarrow> nat" where
  "frame_score inputs = unat (ti_x (hd (gi_inputs inputs)))"

definition score_system :: "demo_bevy_world \<Rightarrow> demo_bevy_world" where
  "score_system w =
     (case (gw_input w, fw_resources w ''score'') of
        (Some inputs, Some v) \<Rightarrow> w\<lparr>fw_resources := (fw_resources w)(''score'' \<mapsto> v + frame_score inputs)\<rparr>
      | _ \<Rightarrow> w)"

definition growth_system :: "demo_bevy_world \<Rightarrow> demo_bevy_world" where
  "growth_system w = w\<lparr>fw_components := (\<lambda>(e, t).
     if t = ''health'' then map_option Suc (fw_components w (e, t)) else fw_components w (e, t))\<rparr>"

text \<open>What a player presses in every frame.\<close>

definition demo_sample :: "player_handle \<Rightarrow> demo_bevy_world \<Rightarrow> test_input \<times> demo_bevy_world" where
  "demo_sample player w = (demo_input, w)"

definition demo_bevy_start :: demo_bevy_world where
  "demo_bevy_start = \<lparr>fw_entities = DAList.update 1 0 (DAList.update 2 1 DAList.empty),
     fw_components = [(1, ''health'') \<mapsto> 10, (2, ''health'') \<mapsto> 20], fw_resources = [''score'' \<mapsto> 0],
     gw_input = None, gw_events = None, gw_session = False\<rparr>"

definition demo_app :: "(test_input, string, demo_bevy_world) app option" where
  "demo_app =
     do { app \<leftarrow> plugin_build demo_bevy \<lparr>ap_world = demo_bevy_start, ap_stages = None, ap_stage = []\<rparr>;
          app \<leftarrow> register_rollback_resource ''score'' app;
          app \<leftarrow> register_rollback_component ''health'' app;
          app \<leftarrow> add_rollback_system_set [score_system, growth_system] app;
          Some (register_rollback_input demo_bevy demo_sample app) }"

definition demo_stages :: "(string, demo_bevy_world) backroll_stages" where
  "demo_stages =
     \<lparr>bs_save = [Save_Network_Ids, Save_Resource ''provider'', Save_Resource ''score'', Save_Components ''health''],
      bs_simulate = [score_system, growth_system],
      bs_before_load = [Sync_Network_Ids],
      bs_load = [Load_Resource ''provider'', Load_Resource ''score'', Load_Components ''health''],
      bs_run_criteria = None\<rparr>"

lemma demo_app_built:
  obtains app where "demo_app = Some app" and "ap_stages app = Some demo_stages"
    and "ap_stage app = [(staller_new, demo_sample)]"
    and "gw_input (ap_world app) \<noteq> None" and "gw_events (ap_world app) = Some []"
  by (rule that[of "the demo_app"])
    (simp_all add: demo_app_def plugin_build_def register_rollback_resource_def register_rollback_component_def
      register_rollback_input_def add_rollback_system_set_def demo_stages_def demo_bevy_def flat_ecs_def)

lemma demo_app_is_built: "demo_app = Some app \<Longrightarrow> app_built demo_bevy app"
proof -
  assume "demo_app = Some app"
  then obtain a1 a2 a3 a4 where a: "plugin_build demo_bevy \<lparr>ap_world = demo_bevy_start, ap_stages = None, ap_stage = []\<rparr> = Some a1"
    "register_rollback_resource ''score'' a1 = Some a2" "register_rollback_component ''health'' a2 = Some a3"
    "add_rollback_system_set [score_system, growth_system] a3 = Some a4"
    "app = register_rollback_input demo_bevy demo_sample a4"
    by (auto simp: demo_app_def bind_eq_Some_conv)
  note app_built.systems[OF app_built.component[OF app_built.resource[OF app_built.plugin[OF a(1)] a(2)] a(3)] a(4)]
  then show ?thesis unfolding a(5) by (rule app_built.input)
qed

section \<open>The application is a client of the plugin\<close>

definition demo_bevy_ready :: "demo_bevy_world \<Rightarrow> bool" where
  "demo_bevy_ready w \<longleftrightarrow> gw_input w \<noteq> None \<and> gw_events w \<noteq> None"

text \<open>What the systems do, seen through the save state.\<close>

definition demo_bevy_step :: "(string, nat) bevy_save_state \<Rightarrow> test_input game_input \<Rightarrow> (string, nat) bevy_save_state" where
  "demo_bevy_step sn inputs = sn\<lparr>sn_state := (\<lambda>k. case k of
     Resource_Id t \<Rightarrow> if t = ''score'' then
         map_option (\<lambda>v. Boxed_Resource t (v + frame_score inputs)) (saved_resource sn t) else sn_state sn k
   | Components_Id t \<Rightarrow> if t = ''health'' then
         map_option (\<lambda>_. Boxed_Components t (\<lambda>i. map_option Suc (saved_component sn t i))) (sn_state sn k)
       else sn_state sn k)\<rparr>"

lemma collect_growth:
  "collect_components flat_ecs t (growth_system w) =
     (\<lambda>i. if t = ''health'' then map_option Suc (collect_components flat_ecs t w i)
          else collect_components flat_ecs t w i)"
proof (cases "t = ''health''")
  case True
  have "query_components flat_ecs t (growth_system w) = map (\<lambda>(i, v). (i, Suc v)) (query_components flat_ecs t w)"
    using True
    by (auto simp: query_components_def flat_ecs_def growth_system_def List.map_filter_def split_def comp_def
        intro!: map_cong filter_cong)
  then show ?thesis
    using True by (simp add: collect_components_def rev_map map_of_map comp_def)
next
  case False
  then have "query_components flat_ecs t (growth_system w) = query_components flat_ecs t w"
    by (simp add: query_components_def flat_ecs_def growth_system_def)
  then show ?thesis using False by (simp add: collect_components_def)
qed

lemma score_fields:
  "ec_entities flat_ecs (score_system w) = ec_entities flat_ecs w"
  "query_components flat_ecs t (score_system w) = query_components flat_ecs t w"
  "gw_events (score_system w) = gw_events w" "gw_input (score_system w) = gw_input w"
  "gw_input w = Some inputs \<Longrightarrow> ec_resource flat_ecs t (score_system w) =
     (if t = ''score'' then map_option (\<lambda>v. v + frame_score inputs) (ec_resource flat_ecs t w) else ec_resource flat_ecs t w)"
  by (auto simp: score_system_def flat_ecs_def query_components_def split: option.split)

lemma growth_fields:
  "ec_entities flat_ecs (growth_system w) = ec_entities flat_ecs w"
  "ec_resource flat_ecs t (growth_system w) = ec_resource flat_ecs t w"
  "gw_events (growth_system w) = gw_events w" "gw_input (growth_system w) = gw_input w"
  by (simp_all add: growth_system_def flat_ecs_def)

lemma demo_stages_set: "set (bs_save demo_stages) =
    {Save_Network_Ids, Save_Resource ''provider'', Save_Resource ''score'', Save_Components ''health''}"
  by (simp add: demo_stages_def)

lemma outside_fields:
  "world_snapshot demo_bevy demo_stages (w\<lparr>gw_input := x\<rparr>) = world_snapshot demo_bevy demo_stages w"
  "world_snapshot demo_bevy demo_stages (w\<lparr>gw_events := y\<rparr>) = world_snapshot demo_bevy demo_stages w"
  by (rule snapshot_eqI; simp add: demo_bevy_def flat_ecs_def collect_components_def query_components_def)+

lemma collect_score: "collect_components flat_ecs t (score_system w) = collect_components flat_ecs t w"
  by (simp add: collect_components_def score_fields)

lemma demo_simulate:
  assumes "gw_input w = Some inputs"
  shows "world_snapshot demo_bevy demo_stages (run_simulate demo_stages w) =
    demo_bevy_step (world_snapshot demo_bevy demo_stages w) inputs"
proof -
  let ?w = "growth_system (score_system w)"
  have run: "run_simulate demo_stages w = ?w" by (simp add: run_simulate_def demo_stages_def)
  have ecs: "bv_ecs demo_bevy = flat_ecs" by (simp add: demo_bevy_def)
  have "sn_state (snapshot flat_ecs (bs_save demo_stages) ?w) k =
      sn_state (demo_bevy_step (snapshot flat_ecs (bs_save demo_stages) w) inputs) k" for k
  proof (cases k)
    case (Resource_Id t)
    then show ?thesis
      using assms
      by (simp add: demo_bevy_step_def snapshot_fields demo_stages_set growth_fields score_fields option.map_comp comp_def)
  next
    case (Components_Id t)
    then show ?thesis
      by (simp add: demo_bevy_step_def snapshot_fields demo_stages_set collect_growth collect_score fun_eq_iff)
  qed
  moreover have "sn_ids (snapshot flat_ecs (bs_save demo_stages) ?w) =
      sn_ids (demo_bevy_step (snapshot flat_ecs (bs_save demo_stages) w) inputs)"
    by (simp add: demo_bevy_step_def snapshot_fields growth_fields score_fields)
  ultimately show ?thesis unfolding run ecs by (simp add: fun_eq_iff)
qed

lemma demo_bevy_ready_kept: "demo_bevy_ready w \<Longrightarrow> demo_bevy_ready (apply_command (bv_ecs demo_bevy) c w)"
  by (cases c) (simp_all add: demo_bevy_ready_def demo_bevy_def flat_ecs_def)

interpretation demo_client: bevy_client demo_bevy demo_stages demo_bevy_step demo_bevy_ready
proof (intro bevy_client.intro bevy_client_axioms.intro, goal_cases)
  case 1
  have "ecs_world (flat_ecs :: (string, nat, nat, demo_bevy_world) ecs)" by (rule flat_ecs.ecs_world_axioms)
  then show ?case by (simp add: demo_bevy_def)
next
  case 2
  show ?case by (simp add: stages_ok_def stages_match_def demo_stages_def)
next
  case (3 w inputs)
  let ?w = "w\<lparr>gw_input := Some inputs\<rparr>"
  have "bv_set_input demo_bevy inputs w = Some ?w" using 3 by (auto simp: demo_bevy_def demo_bevy_ready_def)
  moreover have "demo_bevy_ready (run_simulate demo_stages ?w)"
    using 3 by (simp add: demo_bevy_ready_def run_simulate_def demo_stages_def growth_fields score_fields)
  ultimately show ?case using demo_simulate[of ?w inputs] outside_fields(1) by simp
next
  case (4 w evt)
  then show ?case
    using outside_fields(2) by (auto simp: demo_bevy_ready_def demo_bevy_def)
next
  case (5 w v w')
  then show ?case using restore_keeps[of demo_bevy_ready, OF demo_bevy_ready_kept] by blast
qed

section \<open>Its session\<close>

definition demo_bevy_world_ready :: demo_bevy_world where
  "demo_bevy_world_ready = demo_bevy_start
     \<lparr>gw_input := Some (game_input_default (pod_zeroed test_pod)), gw_events := Some [], gw_session := True\<rparr>"

definition demo_bevy_game :: "(test_input, (string, nat) bevy_save_state) game" where
  "demo_bevy_game = \<lparr>gm_zero = pod_zeroed test_pod, gm_step = demo_bevy_step, gm_hash = (\<lambda>_. None),
     gm_start = world_snapshot demo_bevy demo_stages demo_bevy_world_ready\<rparr>"

lemma demo_bevy_game_fields:
  "gm_zero demo_bevy_game = pod_zeroed (cr_pod demo_crates)" "gm_step demo_bevy_game = demo_bevy_step"
  "gm_hash demo_bevy_game = (\<lambda>_. None)"
  by (simp_all add: demo_bevy_game_def demo_crates_def)

text \<open>A later world: an entity is gone, another one is new, a component changed and the score is missing.\<close>

definition demo_bevy_later :: demo_bevy_world where
  "demo_bevy_later = demo_bevy_world_ready
     \<lparr>fw_entities := DAList.update 2 1 (DAList.update 5 9 DAList.empty),
      fw_components := [(2, ''health'') \<mapsto> 15, (5, ''health'') \<mapsto> 1], fw_resources := Map.empty\<rparr>"

abbreviation demo_plugin_reachable where
  "demo_plugin_reachable \<equiv>
     plugin_reachable demo_bevy demo_crates demo_views demo_bevy_game demo_stages demo_bevy_ready demo_builder"

lemma demo_plugin_waiting:
  "demo_plugin_reachable ((staller_new, demo_bevy_world_ready,
     demo_session demo_sync True (PeerRunning 7) demo_events (statuses_of 2), store_default), \<lambda>_. [])"
proof -
  let ?s = "demo_session demo_sync True (PeerConnecting 1) [] (statuses_of 2)"
  have new: "demo_plugin_reachable ((staller_new, demo_bevy_world_ready, ?s, store_default), \<lambda>_. [])"
    by (rule plugin_reachable.start[OF demo_start])
      (simp_all add: demo_views_def list_channel_new_def demo_bevy_ready_def demo_bevy_world_ready_def demo_bevy_game_def)
  have "demo_plugin_reachable ((staller_new, demo_bevy_world_ready,
      ?s\<lparr>se_players := [Local, Remote (demo_peer (PeerRunning 7) demo_events)]\<rparr>, store_default), \<lambda>_. [])"
    by (rule plugin_reachable.tasks[OF new])
      (auto simp: demo_session_def task_change_def demo_peer_def demo_views_def less_Suc_eq nth_Cons')
  then show ?thesis by (simp add: demo_session_def)
qed

text \<open>The first poll of the stage: the session starts to run.\<close>

lemma demo_stage_polled:
  obtains w q where "stage_poll demo_bevy demo_crates demo_stages (st, demo_bevy_world_ready,
      demo_session demo_sync True (PeerRunning 7) demo_events (statuses_of 2), store_default) =
      Some (st, w, demo_running q, store_default)"
    and "iq_last_user_added_frame q = 0" and "iq_frame_delay q = 0" and "iq_length q = 1"
proof -
  let ?s0 = "demo_session demo_sync True (PeerRunning 7) demo_events (statuses_of 2)"
  let ?cs = "[Event (Connected 1), Event (Synchronized 1), Event Running]"
  let ?w = "demo_bevy_world_ready\<lparr>gw_events := Some [Connected 1, Synchronized 1, Running]\<rparr>"
  obtain q where q: "session_poll demo_crates (?s0, store_default :: (string, nat) bevy_save_state store) =
      Some (?cs, demo_running q, store_default)"
    "iq_last_user_added_frame q = 0" "is_null (iq_first_incorrect_frame q)" "iq_frame_delay q = 0" "iq_length q = 1"
    by (rule demo_polled)
  have "stage_poll demo_bevy demo_crates demo_stages (st, demo_bevy_world_ready, ?s0, store_default) =
      Some (st, ?w, demo_running q, store_default)"
    by (simp add: q(1) demo_bevy_def demo_bevy_world_ready_def)
  then show ?thesis using q by (intro that)
qed

lemma demo_plugin_running:
  obtains st w q where "demo_plugin_reachable ((st, w, demo_running q, store_default), demo_inputs)"
    and "may_advance (demo_running q)"
    and "f = 0 \<or> f = 1 \<Longrightarrow> may_poll demo_views demo_bevy_game f demo_inputs
      (plugin_world demo_bevy demo_stages (st, w, demo_running q, store_default) demo_inputs, demo_running q)"
proof -
  let ?s0 = "demo_session demo_sync True (PeerRunning 7) demo_events (statuses_of 2)"
  let ?st = "(staller_new, demo_bevy_world_ready, ?s0, store_default)"
  obtain w q where poll: "stage_poll demo_bevy demo_crates demo_stages ?st = Some (staller_new, w, demo_running q, store_default)"
    and q: "iq_last_user_added_frame q = 0" "iq_frame_delay q = 0" "iq_length q = 1"
    by (rule demo_stage_polled)
  let ?w0 = "plugin_world demo_bevy demo_stages ?st (\<lambda>_. [])"
  have "may_poll demo_views demo_bevy_game 0 demo_inputs (?w0, ?s0)"
    by (rule demo_may_poll_any) (simp_all add: demo_bevy_game_def demo_session_def)
  then have "may_poll demo_views demo_bevy_game (sy_frame_count (se_sync ?s0)) demo_inputs (?w0, ?s0)"
    by (simp add: demo_session_def sync_new_def)
  then have "demo_plugin_reachable ((staller_new, w, demo_running q, store_default), demo_inputs)"
    by (rule plugin_reachable.poll[OF demo_plugin_waiting _ poll])
  then show ?thesis
    by (rule that[OF _ demo_may_advance]) (rule demo_running_ready[OF q], simp_all)
qed

end
