(* ===== verification/Spec2Isabelle.thy ===== *)
theory Spec2Isabelle
  imports Match_Demo Fault_Demo Steam_Transport Bevy_Demo "HOL-Library.Code_Target_Nat"
begin

text \<open>
  Verification of Backroll (\<^verbatim>\<open>src/backroll\<close>), a library for peer-to-peer games with rollback. A client
  calls a session; the session predicts the inputs of the other players, lets the client simulate,
  and makes it load an earlier state and simulate again when a prediction turns out wrong. The
  client executes the commands that every call returns.

  \<^bold>\<open>Parts and how they interact.\<close> \<^verbatim>\<open>P2PSession\<close> owns a \<^verbatim>\<open>Sync\<close> and one \<^verbatim>\<open>Peer\<close> per remote player. \<^verbatim>\<open>Sync\<close>
  owns an \<^verbatim>\<open>InputQueue\<close> per player and the ring of saved states, whose cells the client shares. The
  background tasks of a \<^verbatim>\<open>Peer\<close> run the connection: they exchange messages, compress inputs and report
  events through a channel that the session empties in every poll.

  \<^bold>\<open>Theories and code\<close>, in the order of their imports; files are those of \<^verbatim>\<open>src/backroll/src\<close>:
  \<^item> \<open>Prelude\<close>: panics (\<open>None\<close> of \<open>option\<close>), checked arithmetic, traversals, ring positions.
  \<^item> \<open>Frames\<close> (\<^verbatim>\<open>lib.rs\<close>, containers of \<^verbatim>\<open>input.rs\<close>): frames with their null value, inputs of one frame.
  \<^item> \<open>Input_Queue\<close> (\<^verbatim>\<open>InputQueue\<close> of \<^verbatim>\<open>input.rs\<close>): the ring of 120 inputs, delay, prediction, confirmation.
    \<open>tracks\<close> relates it to the list of accepted inputs and the list of those the simulation has used;
    the locale \<open>input_source\<close> states what \<^verbatim>\<open>Sync\<close> relies on.
  \<^item> \<open>Saved_State\<close>, \<open>Sync\<close> (\<^verbatim>\<open>sync.rs\<close>, \<^verbatim>\<open>command.rs\<close>): cells in an explicit store, commands and their execution,
    advancing, checking, rolling back.
  \<^item> \<open>Rollback\<close>: sessions of \<^verbatim>\<open>Sync\<close> with a client as a transition system; its invariant \<open>pending\<close> and the
    refinement of the plain simulation \<open>good_sim\<close>, which runs the game on the known inputs.
  \<^item> \<open>Varint\<close>, \<open>Bitfield\<close>, \<open>Compression\<close>, \<open>Input_Buffer\<close> (\<^verbatim>\<open>protocol/bitfield.rs\<close>, \<^verbatim>\<open>compression.rs\<close>,
    \<^verbatim>\<open>input_buffer.rs\<close>): the bytes of an input packet. \<open>Input_Delivery\<close>: encoder and decoder over a
    network that loses, repeats and reorders packets.
  \<^item> \<open>Messages\<close>, \<open>Time_Sync\<close>, \<open>Peer_State\<close>, \<open>Protocol\<close> (\<^verbatim>\<open>protocol/message.rs\<close>, \<^verbatim>\<open>event.rs\<close>, \<^verbatim>\<open>mod.rs\<close>,
    \<^verbatim>\<open>time_sync.rs\<close>): one connection; every handler and one iteration of every background task.
    \<open>Handshake\<close>: the interleaving of the clones of a peer (\<open>conn_step\<close>), and what it preserves.
  \<^item> \<open>P2P_Session\<close> (\<^verbatim>\<open>backend/p2p.rs\<close>): builder and session, all methods.
  \<^item> \<open>Session_Safety\<close>, \<open>Session_Run\<close>: session, peers, \<^verbatim>\<open>Sync\<close> and client together. \<open>session_rep\<close> is the
    invariant, \<open>session_step\<close> the calls and what tasks do between them, \<open>replayed\<close> the specification.
  \<^item> \<open>Peer_Delivery\<close>: two complete peers and the network between them (\<open>peers_reachable\<close>). A \<open>port\<close> keeps the
    encoder, the decoder and the messages of one end; the ports simulate the streams of \<open>Input_Delivery\<close>,
    one in each direction. \<open>Delivery_Demo\<close>: a concrete exchange.
  \<^item> \<open>Two_Sessions\<close>: two complete sessions of a game for two players, with clients, peers and the network
    (\<open>match_reachable\<close>). A call of a session is, for its peer, a sequence of steps of \<open>Peer_Delivery\<close>, so
    \<open>match_ok\<close> joins the invariant of a session with what its connection guarantees. \<open>Match_Demo\<close>: a match from
    its start to frame 1 on both sides.
  \<^item> \<open>Session_Faults\<close>: where the code does not keep its promises, as polls and disconnects of reachable sessions.
    \<open>Session_Demo\<close>, \<open>Fault_Demo\<close>: concrete sessions.
  \<^item> \<open>Transport\<close>, \<open>Transport_Peers\<close> (\<^verbatim>\<open>src/backroll_transport\<close>): the pairs of channels between a session and a
    transport, and the table of them. \<open>Udp_Transport\<close>, \<open>Steam_Transport\<close> (\<^verbatim>\<open>src/backroll_transport_udp\<close>,
    \<^verbatim>\<open>src/backroll_transport_steam\<close>): their managers, with one iteration of each task.
  \<^item> \<open>Bevy_State\<close>, \<open>Bevy_Stage\<close> (\<^verbatim>\<open>src/bevy_backroll\<close>): save states of a world of Bevy, and the stage that polls a
    session, samples the inputs and executes the commands. \<open>Session_Store\<close>: a session never writes a
    cell itself. \<open>plugin_reachable\<close> are the runs of the stage; \<open>Bevy_Demo\<close> is a concrete application.

  \<^bold>\<open>Conventions.\<close> A method of Rust is a function from the state to an optional result with the new state;
  \<open>None\<close> is a panic, as is an overflow, a failed assertion (also a debug assertion) or an index out of
  range; an \<open>Err\<close> is \<open>Inl\<close>. \<open>frame\<close> is \<open>int\<close> with the bounds of \<^verbatim>\<open>i32\<close> checked; \<^verbatim>\<open>u8\<close>, \<^verbatim>\<open>u16\<close>, \<^verbatim>\<open>u32\<close> of the
  wire are words. \<^verbatim>\<open>f32\<close> is its rounding (\<open>f32_round\<close>) on the rationals. A clone that shares is modelled
  by \<open>shared_with\<close>, the shared cells by a store.

  \<^bold>\<open>What the theorems show.\<close> C1 and C2 are the promise of the library, without assumptions on what arrives: two
  connected sessions keep running, and their clients have the same game state at the same frame once the
  inputs have crossed the network. C3 to C7: one session, for any number of players: however it is
  run while nobody disconnects, polls, advances and local inputs do not panic, its client is always in
  the state that the known inputs yield, two peers with the same inputs agree, and a local input leaves in
  the next packet to every running peer (\<open>input_sent\<close>). Their hypotheses
  \<open>may_advance\<close> (synchronized and below the prediction barrier) and \<open>may_poll\<close> speak of what waits and of
  numbers, not of the calls: the inputs waiting in a channel are numbered from the next frame of the player on
  without a gap (\<open>arriving\<close>, \<open>leads_to\<close>) and fit its ring (\<open>room_for\<close>), the frame count stays below the
  largest \<^verbatim>\<open>i32\<close>, and for every peer (\<open>peer_calm\<close>) the sums of its frame advantages, its iteration count and
  the estimate of the remote frame from the round-trip time fit their 32 bits. In C2 the order of the inputs is
  proved; \<open>call_fits\<close> keeps the ring and the numbers. C8 to C10 say the same of \<^verbatim>\<open>Sync\<close> alone, for all operations in any order. C11
  and C12 carry it to the Bevy plugin: seen through its save states, a world is the client of a session.
  C13 to C17: the handshake (messages travel from the outgoing queue of one peer to the handlers of the
  other), the loop over events, the confirmed frame. C18 to C25: delivery of inputs from one session to
  the other, input queue, packets, bounds. C26 to C30: transports and the staller of the plugin. C31 on:
  defects, each as a theorem about the code as it is; the last section has more.

  \<^bold>\<open>Bounds and fuel.\<close> No definition uses fuel: loops over lists and counters are structural, the loops that
  may not end (\<open>decode_loop\<close>, \<open>decode_len_loop\<close>, \<open>flush_peer_events\<close>) are \<open>partial_function (option)\<close>, and
  that they return is proved where it is claimed. Players are at most \<open>MAX_PLAYERS\<close> (8), predictions at
  most \<open>MAX_PREDICTION_FRAMES\<close> (8), queues hold \<open>MAX_ROLLBACK_FRAMES\<close> (120) inputs.

  \<^bold>\<open>Parameters.\<close> Code outside the repository is an argument: the crates \<^verbatim>\<open>varinteger\<close> (\<open>varint\<close>), \<^verbatim>\<open>bytemuck\<close>
  (\<open>pod\<close>), \<^verbatim>\<open>async_channel\<close> (\<open>unbounded_channel\<close> for one queue, \<open>async_queue\<close> for shared ones), \<^verbatim>\<open>dashmap\<close>
  (\<open>keyed_table\<close>), Bevy's entities and resources (\<open>ecs_world\<close>) and the systems of a game (\<open>bevy_client\<close>), the
  random numbers, the clock, sockets and Steam, \<^verbatim>\<open>serde\<close> and \<^verbatim>\<open>bincode\<close>; their laws are the locales named
  here, each interpreted on executable instances.

  \<^bold>\<open>Not modelled.\<close> Spawning tasks and the delays between their iterations (any interleaving is allowed
  instead), logging, hashing of states with \<^verbatim>\<open>DefaultHasher\<close> (a parameter), \<^verbatim>\<open>Drop\<close> warnings, and
  \<^verbatim>\<open>src/bevy_backroll/src/steam.rs\<close>, which only hands the Steam manager to Bevy.
\<close>

section \<open>Concrete sessions\<close>

text \<open>
  Two peers of one game: on the first, player 0 is local and the inputs of player 1 arrive late;
  on the second it is the other way round. \<open>late_script\<close> stops before the check that rolls back.
\<close>

definition script_a :: "int op list" where
  "script_a = [Local_Input 0 0 7, Advance, Local_Input 0 1 8, Advance, Remote_Input 1 0 0 5, Check,
     Remote_Input 1 1 1 6, Check]"

definition script_b :: "int op list" where
  "script_b = [Local_Input 1 0 5, Advance, Remote_Input 0 0 0 7, Check, Confirm 1, Local_Input 1 1 6,
     Remote_Input 0 1 1 8, Advance]"

definition late_script :: "int op list" where
  "late_script = [Local_Input 0 0 7, Advance, Local_Input 0 1 8, Advance, Remote_Input 1 0 0 5]"

definition summary :: "(int, int list list) world \<Rightarrow> frame option \<times> frame \<times> int list \<times> int list \<times> int list list" where
  "summary w = (check_simulation_consistency (wo_sync w), sy_frame_count (wo_sync w),
     wo_inputs w 0, wo_inputs w 1, wo_state w)"

lemma script_a_facts:
  "\<exists>w. run_log script_a = Some w \<and> check_simulation_consistency (wo_sync w) = None \<and>
    sy_frame_count (wo_sync w) = 2 \<and> wo_inputs w 0 = [7, 8] \<and> wo_inputs w 1 = [5, 6] \<and>
    wo_state w = [[7, 5], [8, 6]]"
proof -
  have "map_option summary (run_log script_a) = Some (None, 2, [7, 8], [5, 6], [[7, 5], [8, 6]])"
    by code_simp
  then show ?thesis by (auto simp: summary_def)
qed

lemma script_b_facts:
  "\<exists>w. run_log script_b = Some w \<and> check_simulation_consistency (wo_sync w) = None \<and>
    sy_frame_count (wo_sync w) = 2 \<and> wo_inputs w 0 = [7, 8] \<and> wo_inputs w 1 = [5, 6] \<and>
    wo_state w = [[7, 5], [8, 6]]"
proof -
  have "map_option summary (run_log script_b) = Some (None, 2, [7, 8], [5, 6], [[7, 5], [8, 6]])"
    by code_simp
  then show ?thesis by (auto simp: summary_def)
qed

lemma late_script_facts:
  "\<exists>w. run_log late_script = Some w \<and> check_simulation_consistency (wo_sync w) = Some 0 \<and>
    sy_frame_count (wo_sync w) = 2 \<and> wo_inputs w 0 = [7, 8] \<and> wo_inputs w 1 = [5] \<and>
    wo_state w = [[7, 0], [8, 0]]"
proof -
  have "map_option summary (run_log late_script) = Some (Some 0, 2, [7, 8], [5], [[7, 0], [8, 0]])"
    by code_simp
  then show ?thesis by (auto simp: summary_def)
qed

text \<open>A queue that was asked for frame 0 before any input arrived.\<close>

lemma fresh_queue_example:
  "\<exists>r q. get_input (0::int) 0 (queue_new 0 0) = Some (r, q) \<and> tracks 0 [] [0] q \<and> iq_length q = 0 \<and>
    iq_first_incorrect_frame q = NULL_FRAME \<and> iq_frame_delay q = 0 \<and>
    iq_last_user_added_frame q = NULL_FRAME"
  by (rule get_input_tracks[OF tracks_askable[OF tracks_new[of "0::int" 0]]])
    (auto simp: oldest_def in_i32_def input_for_def last_or_def)

text \<open>A queue with frame delay 3 that has accepted one input and was asked for five frames.\<close>

definition delayed_queue :: "int input_queue option" where
  "delayed_queue =
     do { r \<leftarrow> add_input \<lparr>fi_frame = 0, fi_input = 0\<rparr> (queue_new 0 3);
          r \<leftarrow> refetch (get_input 0) 5 0 (snd r);
          Some (snd r) }"

lemma delayed_queue_example:
  "\<exists>q. delayed_queue = Some q \<and> tracks 0 [0, 0, 0, 0] [0, 0, 0, 0, 0] q \<and> iq_frame_delay q = 3 \<and>
    iq_last_user_added_frame q = 0 \<and> iq_length q = 4 \<and> iq_first_incorrect_frame q = NULL_FRAME \<and>
    iq_last_frame_requested q = 4"
proof -
  obtain q1 where q1: "add_input \<lparr>fi_frame = 0, fi_input = 0\<rparr> (queue_new (0::int) 3) = Some (3, q1)"
    "tracks 0 (queue_accept 0 [] 3 0) [] q1" "iq_length q1 = 4"
    using add_input_tracks[OF tracks_new[of "0::int" 3], of 0 3 0]
    by (auto simp: in_i32_def MAX_ROLLBACK_FRAMES_def)
  have h: "queue_accept (0::int) [] 3 0 = [0, 0, 0, 0]"
    by (simp add: queue_accept_def last_or_def numeral_eq_Suc)
  have five: "map (input_for (0::int) [0, 0, 0, 0]) [0 ..< 5] = [0, 0, 0, 0, 0]"
    by (simp add: input_for_def last_or_def upt_rec)
  have "map_option (\<lambda>q. (iq_first_incorrect_frame q, iq_frame_delay q, iq_last_user_added_frame q,
      iq_length q, iq_last_frame_requested q)) delayed_queue = Some (-1, 3, 0, 4, 4)"
    "map_option (\<lambda>r. iq_first_incorrect_frame (snd r))
      (add_input \<lparr>fi_frame = 0, fi_input = 0\<rparr> (queue_new (0::int) 3)) = Some (-1)"
    by code_simp+
  then obtain q where q: "delayed_queue = Some q" "iq_first_incorrect_frame q = - 1"
    "iq_frame_delay q = 3" "iq_last_user_added_frame q = 0" "iq_length q = 4" "iq_last_frame_requested q = 4"
    and null: "iq_first_incorrect_frame q1 = - 1"
    using q1(1) by auto
  have ready: "askable 0 [0, 0, 0, 0] [] q1"
    using tracks_askable[OF q1(2)] null by (simp add: h is_null_def)
  have "oldest [0, 0, 0, 0::int] q1 \<le> length []" "int (length [0, 0, 0, 0::int]) < i32_MAX"
    "int (length ([]::int list) + 5) \<le> i32_MAX"
    using q1(3) by (simp_all add: oldest_def i32_MAX_def)
  from iq.refetch_ready[OF ready this]
  have "\<exists>q'. refetch (get_input 0) 5 0 q1 = Some ([0, 0, 0, 0, 0], q') \<and>
      tracks 0 [0, 0, 0, 0] [0, 0, 0, 0, 0] q'"
    by (auto simp: five)
  then have "tracks 0 [0, 0, 0, 0] [0, 0, 0, 0, 0] q"
    using q(1) q1(1) by (auto simp: delayed_queue_def)
  then show ?thesis using q by (intro exI[of _ q]) (simp add: NULL_FRAME_def)
qed

text \<open>The same queue after two frames were confirmed and its prediction was reset.\<close>

lemma reset_queue_example:
  "\<exists>q. queue_ok (0::int) [0, 0, 0, 0] q \<and> iq_length q = 2 \<and> iq_last_frame_requested q = NULL_FRAME"
proof -
  obtain q where q: "tracks (0::int) [0, 0, 0, 0] [0, 0, 0, 0, 0] q" "iq_length q = 4"
    "iq_last_frame_requested q = 4" "iq_first_incorrect_frame q = NULL_FRAME"
    using delayed_queue_example by blast
  have "0 \<le> (1::frame)" "in_i32 (1::int)" "in_i32 (int (length [0, 0, 0, 0::int]))"
    "\<not> is_null (iq_last_frame_requested q)" "int (oldest [0, 0, 0, 0::int] q) \<le> 1 + 1"
    using q by (simp_all add: in_i32_def is_null_def oldest_def)
  from discard_tracks[OF q(1) this] obtain q1 where q1: "tracks (0::int) [0, 0, 0, 0] [0, 0, 0, 0, 0] q1"
    "oldest [0, 0, 0, 0::int] q1 = 2"
    using q(2) by (auto simp: oldest_def)
  define q2 where "q2 = q1\<lparr>iq_last_frame_requested := NULL_FRAME\<rparr>"
  have "queue_ok 0 [0, 0, 0, 0] q2"
    using tracks_queue_ok[OF q1(1)] unfolding q2_def queue_ok_defs by simp
  moreover have "iq_length q2 = 2"
    using q1(2) tracks_queue_ok[OF q1(1)] by (simp add: q2_def oldest_def queue_ok_defs)
  ultimately show ?thesis by (auto simp: q2_def)
qed

section \<open>Properties\<close>

text \<open>C1. Two connected sessions agree: however the calls of two complete sessions of a two-player game with equal frame delays, the tasks of their peers, and a network that loses, repeats, delays and reorders packets are interleaved, both clients have the same game state whenever they are at the same frame and the inputs up to it have arrived on both sides. Nothing is assumed about the inputs that arrive: they are those the other client gave.\<close>

theorem connected_sessions_agree:
  assumes "packet_codec (cr_varint X) (cr_pod X)" and "channels_ok X W"
    and "\<And>m bytes. serialize m = Inr bytes \<Longrightarrow> deserialize bytes = Inr m"
    and "gm_zero G = pod_zeroed (cr_pod X)" and "duel l r ba" and "duel r l bb" and "sb_frame_delay ba = sb_frame_delay bb"
    and "match_reachable X W G serialize deserialize l r ba bb a b"
    and "current_frame (sd_session a) = current_frame (sd_session b)"
    and "current_frame (sd_session a) \<le> int (length (wo_inputs (sd_world a) r))"
    and "current_frame (sd_session b) \<le> int (length (wo_inputs (sd_world b) l))"
  shows "wo_state (sd_world a) = wo_state (sd_world b)"
  using match_agrees[OF assms(2,4-7) match_reachable_ok[OF assms(1-6,8)] assms(9,10)] assms(9,11) by simp

theorem connected_sessions_agree_witness:
  "\<exists>a b. match_reachable demo_crates demo_views demo_game match_serialize match_deserialize 0 1 demo_builder demo_opponent a b \<and>
    current_frame (sd_session a) = 1 \<and> wo_state (sd_world a) = [[match_input 0, match_input 1]] \<and>
    wo_state (sd_world b) = [[match_input 0, match_input 1]]"
proof -
  obtain a b where m: "match_reachable demo_crates demo_views demo_game match_serialize match_deserialize 0 1 demo_builder demo_opponent a b"
    "current_frame (sd_session a) = 1" "current_frame (sd_session b) = 1"
    "wo_inputs (sd_world a) = (\<lambda>_. [])(0 := [match_input 0], 1 := [match_input 1])"
    "wo_inputs (sd_world b) = (\<lambda>_. [])(0 := [match_input 0], 1 := [match_input 1])"
    "wo_state (sd_world a) = [[match_input 0, match_input 1]]"
    by (rule match_played)
  have "wo_state (sd_world a) = wo_state (sd_world b)"
    by (rule connected_sessions_agree[OF demo_channels_codec demo_channels_ok match_serialize_law demo_game_zero demo_duel m(1)])
      (simp_all add: m(2-5))
  then show ?thesis using m by metis
qed

text \<open>C2. Connected sessions keep running: in every state two connected sessions of a two-player game can reach over an unreliable network, polling returns, and advancing does when the session is synchronized and below the prediction barrier (\<open>may_advance\<close>). The only condition is \<open>call_fits\<close>, a bound on numbers: the inputs that wait fit the ring of the remote player, and the frame count, the sums of the frame advantages and the round-trip estimate fit 32 bits. The client can execute the commands, its game state is then the one all arrived inputs yield, and the result is again a state of the match; that the inputs arrive in order is not assumed.\<close>

theorem connected_sessions_run:
  assumes "packet_codec (cr_varint X) (cr_pod X)" and "channels_ok X W"
    and "\<And>m bytes. serialize m = Inr bytes \<Longrightarrow> deserialize bytes = Inr m"
    and "gm_zero G = pod_zeroed (cr_pod X)" and "duel l r ba" and "duel r l bb"
    and "match_reachable X W G serialize deserialize l r ba bb a b"
    and "advancing \<longrightarrow> may_advance (sd_session a)"
    and "call_fits W r (current_frame (sd_session a) + of_bool advancing) a"
  shows "\<exists>cs s' store g store' e.
    (if advancing then session_advance_frame else session_poll) X (sd_session a, wo_store (sd_world a)) = Some (cs, s', store) \<and>
    execute_all (gm_step G) (gm_hash G) cs (wo_state (sd_world a), store) = Some (g, store') \<and>
    g = replayed G 2 (arrived W G r a) (nat (current_frame (sd_session a) + of_bool advancing)) \<and>
    match_reachable X W G serialize deserialize l r ba bb
      \<lparr>sd_world = after_call (sd_world a) (arrived W G r a) g store' s', sd_session = s', sd_end = e\<rparr> b"
proof (cases advancing)
  case True
  then have "call_fits W r (current_frame (sd_session a) + 1) a" "may_advance (sd_session a)" using assms(8,9) by simp_all
  from match_advance_returns[OF assms(2,4,5) match_reachable_ok[OF assms(1-7)] assms(7) this(2,1)] show ?thesis
    using True by (simp only: if_True of_bool_eq) blast
next
  case False
  then have "call_fits W r (current_frame (sd_session a)) a" using assms(9) by simp
  from match_poll_returns[OF assms(2,4,5) match_reachable_ok[OF assms(1-7)] assms(7) this] show ?thesis
    using False by (simp only: if_False of_bool_eq add_0_right)
qed

theorem connected_sessions_run_witness:
  "\<exists>cs s' store g store'. session_advance_frame demo_crates (sd_session (match_side 0), wo_store (sd_world (match_side 0))) =
      Some (cs, s', store) \<and>
    execute_all (gm_step demo_game) (gm_hash demo_game) cs (wo_state (sd_world (match_side 0)), store) = Some (g, store')"
proof -
  have ready: "True \<longrightarrow> may_advance (sd_session (match_side 0))"
    "call_fits demo_views 1 (current_frame (sd_session (match_side 0)) + of_bool True) (match_side 0)"
    using match_side_ready(1,3)[of 0 1] by simp_all
  show ?thesis
    using connected_sessions_run[OF demo_channels_codec demo_channels_ok match_serialize_law demo_game_zero demo_duel(1,2)
      match_exchanged ready] by (simp only: if_True) blast
qed

text \<open>C3. Polling implements the rollback specification: in every session reached by building it, by its background tasks, local inputs, polls and advances, \<open>poll\<close> returns when \<open>may_poll\<close> holds, which is about what waits and about numbers: the inputs waiting in each channel are numbered from the next frame of their player on without a gap and fit its queue (\<open>arriving\<close>), and the frame count, the sums of the frame advantages and the round-trip estimate fit 32 bits. Then the client can execute all its commands, and the game state they leave is the replay of the whole history \<open>h\<close>, which includes the inputs that had just arrived.\<close>

theorem session_poll_replays:
  assumes "channels_ok X W" and "gm_zero G = pod_zeroed (cr_pod X)" and "playable b"
    and "session_reachable X W G b (w, s)" and "may_poll W G (current_frame s) h (w, s)"
  shows "\<exists>commands s' store g store'. session_poll X (s, wo_store w) = Some (commands, s', store) \<and>
    execute_all (gm_step G) (gm_hash G) commands (wo_state w, store) = Some (g, store') \<and>
    g = replayed G (session_player_count s) h (nat (current_frame s)) \<and> current_frame s' = current_frame s \<and>
    session_reachable X W G b (after_call w h g store' s', s')"
proof -
  have inv: "session_ok X W G (w, s)" using session_reachable_inv[OF assms(1-4)] by simp
  obtain cs s' store g store' where r: "session_poll X (s, wo_store w) = Some (cs, s', store)"
    "execute_all (gm_step G) (gm_hash G) cs (wo_state w, store) = Some (g, store')"
    "g = replayed G (sy_player_count (se_sync s)) h (nat (sy_frame_count (se_sync s)))"
    "sy_frame_count (se_sync s') = sy_frame_count (se_sync s)"
    by (rule poll_returns[OF assms(1) inv assms(5)[unfolded current_frame_def]])
  have "session_reachable X W G b (after_call w h g store' s', s')"
    using session_reachable.step[OF assms(4) session_step.poll[OF _ r(1,2)]] assms(5) by (simp add: current_frame_def)
  then show ?thesis
    using r by (intro exI[of _ cs] exI[of _ s'] exI[of _ store] exI[of _ g] exI[of _ store'])
      (simp add: session_player_count_def current_frame_def)
qed

theorem session_poll_replays_witness:
  "\<exists>w s commands s' store g store'. session_poll demo_crates (s, wo_store w) = Some (commands, s', store) \<and>
    execute_all (gm_step demo_game) (gm_hash demo_game) commands (wo_state w, store) = Some (g, store') \<and>
    session_reachable demo_crates demo_views demo_game demo_builder (after_call w demo_inputs g store' s', s')"
  using session_poll_replays[OF demo_channels_ok demo_game_zero demo_playable demo_waiting_reachable, of demo_inputs]
    demo_may_poll by (fastforce simp: current_frame_def demo_session_def sync_new_def)

text \<open>C4. Advancing implements the rollback specification: in every reachable, synchronized session below the prediction barrier (\<open>may_advance\<close>), when the waiting inputs are numbered from the next frame of their player on without a gap and fit its queue, and the frame count, the sums of the frame advantages and the round-trip estimate fit 32 bits (\<open>may_poll\<close>), \<open>advance_frame\<close> makes one more frame, polls, returns commands the client can execute, and leaves the replay of the known inputs of all frames up to the new one.\<close>

theorem session_advance_replays:
  assumes "channels_ok X W" and "gm_zero G = pod_zeroed (cr_pod X)" and "playable b"
    and "session_reachable X W G b (w, s)" and "may_advance s"
    and "may_poll W G (current_frame s + 1) h (w, s)"
  shows "\<exists>commands s' store g store'. session_advance_frame X (s, wo_store w) = Some (commands, s', store) \<and>
    execute_all (gm_step G) (gm_hash G) commands (wo_state w, store) = Some (g, store') \<and>
    g = replayed G (session_player_count s) h (nat (current_frame s + 1)) \<and>
    current_frame s' = current_frame s + 1 \<and>
    session_reachable X W G b (after_call w h g store' s', s')"
proof -
  have inv: "session_ok X W G (w, s)" using session_reachable_inv[OF assms(1-4)] by simp
  obtain cs s' store g store' where r: "session_advance_frame X (s, wo_store w) = Some (cs, s', store)"
    "execute_all (gm_step G) (gm_hash G) cs (wo_state w, store) = Some (g, store')"
    "g = replayed G (sy_player_count (se_sync s)) h (nat (sy_frame_count (se_sync s) + 1))"
    "sy_frame_count (se_sync s') = sy_frame_count (se_sync s) + 1"
    by (rule advance_returns[OF assms(1) inv assms(5,6)[unfolded current_frame_def]])
  have "session_reachable X W G b (after_call w h g store' s', s')"
    using session_reachable.step[OF assms(4) session_step.advance[OF assms(5) _ r(1,2)]] assms(6)
    by (simp add: current_frame_def)
  then show ?thesis
    using r by (intro exI[of _ cs] exI[of _ s'] exI[of _ store] exI[of _ g] exI[of _ store'])
      (simp add: session_player_count_def current_frame_def)
qed

theorem session_advance_replays_witness:
  "\<exists>w s commands s' store g store'. session_reachable demo_crates demo_views demo_game demo_builder (w, s) \<and>
    session_advance_frame demo_crates (s, wo_store w) = Some (commands, s', store) \<and>
    execute_all (gm_step demo_game) (gm_hash demo_game) commands (wo_state w, store) = Some (g, store') \<and>
    g = replayed demo_game 2 demo_inputs 1 \<and> current_frame s' = 1"
proof -
  obtain w s where d: "session_reachable demo_crates demo_views demo_game demo_builder (w, s)" "may_advance s"
    "may_poll demo_views demo_game 1 demo_inputs (w, s)" "sy_frame_count (se_sync s) = 0" "sy_player_count (se_sync s) = 2"
    by (rule demo_running_reachable)
  have counts: "current_frame s = 0" "session_player_count s = 2"
    using d(4,5) by (simp_all add: current_frame_def session_player_count_def)
  have "may_poll demo_views demo_game (current_frame s + 1) demo_inputs (w, s)" using d(3) counts by simp
  then obtain cs s' store g store' where "session_advance_frame demo_crates (s, wo_store w) = Some (cs, s', store)"
    "execute_all (gm_step demo_game) (gm_hash demo_game) cs (wo_state w, store) = Some (g, store')"
    "g = replayed demo_game 2 demo_inputs 1" "current_frame s' = 1"
    using session_advance_replays[OF demo_channels_ok demo_game_zero demo_playable d(1,2), of demo_inputs] counts
    by fastforce
  then show ?thesis using d(1) by blast
qed

text \<open>C5. Convergence of whole sessions: two sessions of one game, each built and run on its own with its own players, frame delays, channels, arrival order and rollbacks, have the same game state whenever they are at the same frame and know the same inputs of the frames before it.\<close>

theorem sessions_converge:
  assumes "channels_ok X W" and "channels_ok X' W'" and "gm_zero G = pod_zeroed (cr_pod X)"
    and "gm_zero G = pod_zeroed (cr_pod X')" and "playable b" and "playable b'"
    and "session_reachable X W G b (w, s)" and "session_reachable X' W' G b' (w', s')"
    and "length (sb_players b) = length (sb_players b')" and "current_frame s = current_frame s'"
    and "\<And>i. i < length (sb_players b) \<Longrightarrow> current_frame s \<le> int (length (wo_inputs w i)) \<and>
      current_frame s \<le> int (length (wo_inputs w' i)) \<and>
      take (nat (current_frame s)) (wo_inputs w i) = take (nat (current_frame s)) (wo_inputs w' i)"
  shows "wo_state w = wo_state w'"
proof -
  let ?n = "length (sb_players b)" and ?f = "nat (current_frame s)"
  note r = session_reachable_ok[OF assms(1,3,5,7)] session_reachable_ok[OF assms(2,4,6,8)]
  have "wo_state w = replayed G ?n (wo_inputs w) ?f" "wo_state w' = replayed G ?n (wo_inputs w') ?f"
    using executed_replayed[OF r(1,2)] executed_replayed[OF r(6,7)] r(5,10) assms(9,10)
    by (simp_all add: current_frame_def)
  moreover have "?f \<le> length (wo_inputs w i) \<and> ?f \<le> length (wo_inputs w' i) \<and>
      take ?f (wo_inputs w i) = take ?f (wo_inputs w' i)" if "i < ?n" for i
    using assms(11)[OF that] by linarith
  then have "good_sim (gm_zero G) ?n (statuses_of ?n) (wo_inputs w) ?f =
      good_sim (gm_zero G) ?n (statuses_of ?n) (wo_inputs w') ?f"
    by (intro good_sim_cong)
  ultimately show ?thesis by (simp add: replayed_def)
qed

theorem sessions_converge_witness:
  "\<exists>w s w' s'. session_reachable demo_crates demo_views demo_game demo_builder (w, s) \<and>
    session_reachable demo_crates demo_views demo_game demo_opponent (w', s') \<and>
    current_frame s = 1 \<and> current_frame s' = 1 \<and> wo_state w = [[match_input 0, match_input 1]] \<and> wo_state w' = wo_state w"
proof -
  obtain a b where m: "match_runs a b" "current_frame (sd_session a) = 1" "current_frame (sd_session b) = 1"
    "wo_inputs (sd_world a) = (\<lambda>_. [])(0 := [match_input 0], 1 := [match_input 1])"
    "wo_inputs (sd_world b) = (\<lambda>_. [])(0 := [match_input 0], 1 := [match_input 1])"
    "wo_state (sd_world a) = [[match_input 0, match_input 1]]"
    by (rule match_played)
  have r: "session_reachable demo_crates demo_views demo_game demo_builder (sd_world a, sd_session a)"
    "session_reachable demo_crates demo_views demo_game demo_opponent (sd_world b, sd_session b)"
    using match_runs_ok[OF m(1)] by (simp_all add: match_ok_def side_ok_def)
  have "wo_state (sd_world a) = wo_state (sd_world b)"
    by (rule sessions_converge[OF demo_channels_ok demo_channels_ok demo_game_zero demo_game_zero demo_playable
        duel_playable(1)[OF demo_duel(2)] r])
      (use m(2-5) duel_playable(2)[OF demo_duel(1)] duel_playable(2)[OF demo_duel(2)] in \<open>auto simp: less_2_cases_iff\<close>)
  then show ?thesis using r m(2,3,6)
    by (intro exI[of _ "sd_world a"] exI[of _ "sd_session a"] exI[of _ "sd_world b"] exI[of _ "sd_session b"]) simp
qed

text \<open>C6. Local inputs: in every reachable session \<open>add_local_input\<close> of a local player reports \<open>NotSynchronized\<close> while the session synchronizes and \<open>ReachedPredictionBarrier\<close> at the barrier, changing nothing. Otherwise it returns without a panic and records the current frame as the newest of this player; every running peer keeps the input until it is acknowledged, and if its outgoing channel is open, the next message there holds the statuses of the session and bits that decompress to exactly the unacknowledged inputs; the session stays reachable with the input added to the history. The input of the current frame has to be due and to fit the queue (\<open>local_input_due\<close>), and the unacknowledged inputs with it have to fit a packet (\<open>can_send\<close>).\<close>

theorem session_local_input:
  assumes "channels_ok X W" and "gm_zero G = pod_zeroed (cr_pod X)" and "playable b"
    and "session_reachable X W G b (w, s)" and "packet_codec (cr_varint X) (cr_pod X)"
    and "se_players s ! i = Local" and "local_input_due w i t" and "can_send X x s"
  shows "if se_synchronizing s then add_local_input X i x s = Some (Inl NotSynchronized, s)
    else if barred (se_sync s) then add_local_input X i x s = Some (Inl ReachedPredictionBarrier, s)
    else \<exists>s'. add_local_input X i x s = Some (Inr (), s') \<and> cs_last_frame (se_local_connect_status s' ! i) = current_frame s \<and>
      (\<forall>j p. j < length (se_players s) \<longrightarrow> se_players s ! j = Remote p \<longrightarrow> peer_is_running p \<longrightarrow>
        (\<exists>q. se_players s' ! j = Remote q \<and>
          input_sent X W (se_local_connect_status s') \<lparr>fi_frame = current_frame s, fi_input = x\<rparr> p q)) \<and>
      session_reachable X W G b (w\<lparr>wo_sync := se_sync s', wo_inputs := accept_input G i t x (wo_inputs w)\<rparr>, s')"
proof -
  note r = session_reachable_ok[OF assms(1-4)]
  have s: "wo_sync w = se_sync s" "\<not> sy_rolling_back (se_sync s)" "length (se_players s) = sy_player_count (se_sync s)"
    "all_connected (sy_player_count (se_sync s)) (se_local_connect_status s)"
    using r(1) by (simp_all add: session_rep_def)
  have i: "i < sy_player_count (se_sync s)" using assms(7) s(1) by (simp add: local_input_due_def input_fits_def)
  consider "se_synchronizing s" | "\<not> se_synchronizing s" "barred (se_sync s)"
    | "\<not> se_synchronizing s" "\<not> barred (se_sync s)" by blast
  then show ?thesis
  proof cases
    case 1
    then show ?thesis using s(2) by (simp add: add_local_input_def)
  next
    case 2
    have "pending G [] w" using r(1) by (simp add: session_rep_def)
    from local_input_barred[OF this] 2 s(1) show ?thesis
      using s i assms(6) by (simp add: add_local_input_def player_handle_to_queue_def)
  next
    case 3
    obtain res s' where res: "add_local_input X i x s = Some (res, s')"
      using add_local_input_returns[OF assms(5,1) r(1,2) 3(1) assms(6,7) 3(2) assms(8)] by (metis surj_pair)
    have "res = Inr ()" by (rule add_local_input_ok(1)[OF assms(1) r(1,2) 3(1) assms(6,7) 3(2) res])
    moreover have "session_reachable X W G b (w\<lparr>wo_sync := se_sync s', wo_inputs := accept_input G i t x (wo_inputs w)\<rparr>, s')"
      by (rule session_reachable.step[OF assms(4) session_step.local_input[OF 3 assms(6,7) res]])
    moreover have "cs_last_frame (se_local_connect_status s' ! i) = current_frame s"
      using add_local_input_ok(5)[OF assms(1) r(1,2) 3(1) assms(6,7) 3(2) res] by (simp add: current_frame_def)
    moreover have "\<exists>q. se_players s' ! j = Remote q \<and>
        input_sent X W (se_local_connect_status s') \<lparr>fi_frame = current_frame s, fi_input = x\<rparr> p q"
      if "j < length (se_players s)" "se_players s ! j = Remote p" "peer_is_running p" for j p
      by (rule add_local_input_sent[OF assms(5,1) r(1,2) 3(1) assms(6,7) 3(2) assms(8) res that])
        (auto simp: current_frame_def)
    ultimately show ?thesis using 3 res by simp
  qed
qed

theorem session_local_input_witness:
  "\<exists>w s s' q. session_reachable demo_crates demo_views demo_game demo_builder (w, s) \<and>
    add_local_input demo_crates 0 demo_input s = Some (Inr (), s') \<and> cs_last_frame (se_local_connect_status s' ! 0) = 0 \<and>
    se_players s = [Local, Remote demo_polled_peer] \<and> se_players s' ! 1 = Remote q \<and>
    ie_pending (pe_input_encoder q) = [\<lparr>fi_frame = 0, fi_input = demo_input\<rparr>] \<and>
    (\<exists>bits. vw_out demo_views (pe_message_out q) =
       [InputMsg \<lparr>in_peer_connect_status = se_local_connect_status s', in_start_frame = 0, in_ack_frame = NULL_FRAME, in_bits = bits\<rparr>] \<and>
       decompress leb128 test_pod (pod_zeroed test_pod) bits = Some (Inr [demo_input]))"
proof -
  obtain w s where d: "session_reachable demo_crates demo_views demo_game demo_builder (w, s)" "may_advance s"
    "local_input_due w 0 0" "se_players s = [Local, Remote demo_polled_peer]" "sy_frame_count (se_sync s) = 0"
    by (rule demo_running_reachable)
  have fits: "can_send demo_crates demo_input s"
    using d(4) by (simp add: can_send_def demo_polled_peer_def demo_peer_def packet_fits_def encoder_default_def
        demo_crates_def test_pod_def MAX_BUFFER_SIZE_def)
  have codec: "packet_codec (cr_varint demo_crates) (cr_pod demo_crates)"
    using test_codec.packet_codec_axioms by (simp add: demo_crates_def)
  have local: "se_players s ! 0 = Local" and remote: "1 < length (se_players s)" "se_players s ! 1 = Remote demo_polled_peer"
    using d(4) by simp_all
  have peer: "peer_is_running demo_polled_peer" "ie_pending (pe_input_encoder demo_polled_peer) = []"
    "\<not> vw_out_shut demo_views (pe_message_out demo_polled_peer)" "vw_out demo_views (pe_message_out demo_polled_peer) = []"
    "last_decoded_frame (pe_input_decoder demo_polled_peer) = NULL_FRAME"
    by (simp_all add: peer_is_running_def demo_polled_peer_def demo_peer_def encoder_default_def decoder_default_def
        demo_views_def list_channel_new_def last_decoded_frame_def)
  from session_local_input[OF demo_channels_ok demo_game_zero demo_playable d(1) codec local d(3) fits]
  obtain s' where s': "add_local_input demo_crates 0 demo_input s = Some (Inr (), s')"
    "cs_last_frame (se_local_connect_status s' ! 0) = 0"
    "\<forall>j p. j < length (se_players s) \<longrightarrow> se_players s ! j = Remote p \<longrightarrow> peer_is_running p \<longrightarrow>
      (\<exists>q. se_players s' ! j = Remote q \<and>
        input_sent demo_crates demo_views (se_local_connect_status s') \<lparr>fi_frame = 0, fi_input = demo_input\<rparr> p q)"
    using d(2,5) by (auto simp: may_advance_def current_frame_def)
  obtain q where q: "se_players s' ! 1 = Remote q"
    "input_sent demo_crates demo_views (se_local_connect_status s') \<lparr>fi_frame = 0, fi_input = demo_input\<rparr> demo_polled_peer q"
    using s'(3) remote peer(1) by blast
  have "cr_varint demo_crates = leb128" "cr_pod demo_crates = test_pod" by (simp_all add: demo_crates_def)
  with q(2) peer show ?thesis
    using d(1,4) s'(1,2) q(1) unfolding input_sent_def by (fastforce simp: Let_def)
qed

text \<open>C7. Invariant of the session: the last confirmed frame is at most the newest frame received from every player, for every recorded frame the input is known, no player counts as disconnected, and the simulation is at most \<open>MAX_PREDICTION_FRAMES\<close> ahead of the confirmed frame.\<close>

theorem confirmed_frames_received:
  assumes "channels_ok X W" and "gm_zero G = pod_zeroed (cr_pod X)" and "playable b"
    and "session_reachable X W G b (w, s)" and "i < session_player_count s"
  shows "sy_last_confirmed_frame (se_sync s) \<le> cs_last_frame (se_local_connect_status s ! i) \<and>
    cs_last_frame (se_local_connect_status s ! i) < int (length (wo_inputs w i)) \<and>
    \<not> cs_disconnected (se_local_connect_status s ! i) \<and>
    current_frame s \<le> max 0 (sy_last_confirmed_frame (se_sync s)) + int MAX_PREDICTION_FRAMES"
proof -
  have rep: "session_rep X W G [] w s" by (rule session_reachable_ok(1)[OF assms(1-4)])
  have "player_rep W w s i" using rep assms(5) by (simp add: session_rep_def session_player_count_def)
  then have "sy_last_confirmed_frame (se_sync s) \<le> cs_last_frame (se_local_connect_status s ! i)"
    "cs_last_frame (se_local_connect_status s ! i) < int (length (wo_inputs w i))"
    by (simp_all add: player_rep_def Let_def)
  moreover have "\<not> cs_disconnected (se_local_connect_status s ! i)"
    using rep assms(5) by (simp add: session_rep_def session_player_count_def all_connected_def)
  moreover have "current_frame s \<le> max 0 (sy_last_confirmed_frame (se_sync s)) + int MAX_PREDICTION_FRAMES"
    using rep by (auto simp: session_rep_def pending_def world_rep_def Let_def confirmed_def current_frame_def
        MAX_PREDICTION_FRAMES_def)
  ultimately show ?thesis by simp
qed

theorem confirmed_frames_received_witness:
  "\<exists>w s. session_reachable demo_crates demo_views demo_game demo_builder (w, s) \<and>
    sy_last_confirmed_frame (se_sync s) \<le> cs_last_frame (se_local_connect_status s ! 1)"
proof -
  obtain w s where d: "session_reachable demo_crates demo_views demo_game demo_builder (w, s)"
    "sy_player_count (se_sync s) = 2"
    by (rule demo_running_reachable)
  show ?thesis
    using confirmed_frames_received[OF demo_channels_ok demo_game_zero demo_playable d(1), of 1] d
    by (auto simp: session_player_count_def)
qed

text \<open>C8. Refinement of the abstract specification: in every reachable session whose last check is up to date, the state of the client is the one obtained by running the game from the start with, for every frame, the known input of each player or the newest known one.\<close>

theorem session_state:
  assumes "world_reachable G n delay w" and "n \<le> MAX_PLAYERS" and "0 \<le> delay"
    and "check_simulation_consistency (wo_sync w) = None"
  shows "wo_state w = foldl (gm_step G) (gm_start G)
    (good_sim (gm_zero G) n (statuses_of n) (wo_inputs w) (nat (sy_frame_count (wo_sync w))))"
  using checked_state[OF _ assms(4), of G] reachable_inv[OF assms(1-3)] by simp

theorem session_state_witness:
  "\<exists>w. run_log script_a = Some w \<and> wo_state w = foldl (gm_step log_game) (gm_start log_game)
    (good_sim 0 2 (statuses_of 2) (wo_inputs w) 2)"
proof -
  obtain w where w: "run_log script_a = Some w" using script_a_facts by auto
  have r: "world_reachable log_game 2 0 w"
    using w run_ops_reachable unfolding run_log_def by blast
  show ?thesis
    using session_state[OF r] script_a_facts w by (auto simp: MAX_PLAYERS_def log_game_def)
qed

text \<open>C9. A rollback replays: when nothing was given wrongly to the game before frame \<open>seek\<close>, \<open>adjust_simulation\<close> to that frame returns, its commands can be executed, and afterwards the game state and all saved states are the ones computed with the inputs known now. Players may be disconnected. The bound of 9 frames (8 for frame 0, which is saved twice) is the size of the ring.\<close>

theorem rollback_replays:
  assumes "rewindable z sts h used seek sy" and "gm_zero G = z"
    and "run_ok G g d (fc + d - 9) (Suc (fc + d)) (Suc (fc + d)) sim [] (sy_saved_state sy) store"
    and "sy_frame_count sy = int fc" and "int fc < i32_MAX"
    and "seek < fc" and "fc \<le> seek + 9" and "seek = 0 \<Longrightarrow> fc \<le> 8"
    and "take seek sim = good_sim z (sy_player_count sy) sts h seek"
  shows "\<exists>commands sy' store' store'' d'.
    adjust_simulation z sts (int seek) ([], sy, store) = Some (commands, sy', store') \<and>
    execute_all (gm_step G) (gm_hash G) commands (g, store') =
      Some (foldl (gm_step G) (gm_start G) (good_sim z (sy_player_count sy) sts h fc), store'') \<and>
    states_at d' (fc + d' - 9) (Suc (fc + d'))
      (\<lambda>n. foldl (gm_step G) (gm_start G) (good_sim z (sy_player_count sy) sts h n)) store'' \<and>
    sy_frame_count sy' = int fc \<and> \<not> sy_rolling_back sy'"
  using adjust_replays[OF assms] .

theorem rollback_replays_witness:
  "\<exists>w commands sy store store'. run_log late_script = Some w \<and>
    adjust_simulation 0 (statuses_of 2) (int 0) ([], wo_sync w, wo_store w) = Some (commands, sy, store) \<and>
    execute_all (gm_step log_game) (gm_hash log_game) commands (wo_state w, store) =
      Some (foldl (gm_step log_game) (gm_start log_game) (good_sim 0 2 (statuses_of 2) (wo_inputs w) 2), store')"
proof -
  obtain w where w: "run_log late_script = Some w" "check_simulation_consistency (wo_sync w) = Some 0"
    "sy_frame_count (wo_sync w) = 2"
    using late_script_facts by auto
  have r: "world_reachable log_game 2 0 w"
    using w run_ops_reachable unfolding run_log_def by blast
  have inv: "world_inv log_game w" "sy_player_count (wo_sync w) = 2"
    using reachable_inv[OF r] by (auto simp: MAX_PLAYERS_def)
  then obtain used d fc where rep: "world_rep log_game used d fc [] w" by (auto simp: pending_def)
  have fc: "fc = 2" using rep w(3) by (simp add: world_rep_def Let_def)
  have z: "gm_zero log_game = 0" by (simp add: log_game_def)
  have run: "run_ok log_game (wo_state w) d (2 + d - 9) (Suc (2 + d)) (Suc (2 + d))
      (map (frame_used 0 2 used) [0 ..< 2]) [] (sy_saved_state (wo_sync w)) (wo_store w)"
    using rep fc inv(2) z by (simp add: world_rep_def Let_def saved_ok_def)
  have rw: "rewindable 0 (statuses_of 2) (wo_inputs w) used 0 (wo_sync w)"
    using incorrect_in_window[OF rep w(2)] inv(2) z by auto
  show ?thesis
    using rollback_replays[OF rw z run] w inv(2) by (auto simp: i32_MAX_def)
qed

text \<open>C10. Checking the simulation never panics: in every reachable session it returns commands that the client can execute in order (every state it loads has been saved), and afterwards no queue reports a wrong prediction.\<close>

theorem check_never_panics:
  assumes "world_reachable G n delay w" and "n \<le> MAX_PLAYERS" and "0 \<le> delay"
  shows "\<exists>commands sy store g store'.
    check_simulation (gm_zero G) (statuses_of n) ([], wo_sync w, wo_store w) = Some (commands, sy, store) \<and>
    execute_all (gm_step G) (gm_hash G) commands (wo_state w, store) = Some (g, store') \<and>
    check_simulation_consistency sy = None \<and> sy_frame_count sy = sy_frame_count (wo_sync w)"
proof -
  have inv: "world_inv G w" "sy_player_count (wo_sync w) = n" using reachable_inv[OF assms] by auto
  show ?thesis by (rule check_ok[OF inv(1)]) (use inv(2) in auto)
qed

theorem check_never_panics_witness:
  "\<exists>w commands sy store g store'. run_log late_script = Some w \<and>
    check_simulation_consistency (wo_sync w) = Some 0 \<and>
    check_simulation 0 (statuses_of 2) ([], wo_sync w, wo_store w) = Some (commands, sy, store) \<and>
    execute_all (gm_step log_game) (gm_hash log_game) commands (wo_state w, store) = Some (g, store') \<and>
    check_simulation_consistency sy = None"
proof -
  obtain w where w: "run_log late_script = Some w" "check_simulation_consistency (wo_sync w) = Some 0"
    using late_script_facts by auto
  have r: "world_reachable log_game 2 0 w"
    using w run_ops_reachable unfolding run_log_def by blast
  show ?thesis
    using check_never_panics[OF r] w by (auto simp: MAX_PLAYERS_def log_game_def)
qed

text \<open>C11. The Bevy plugin refines the replay of inputs: in every state its stage can reach, in any order of polls, advances, inputs, background tasks and other systems, polling the session returns with every command executed on the world when the waiting inputs continue the known ones and fit the queues and the frame arithmetic fits 32 bits (\<open>may_poll\<close>); advancing does when the session is also synchronized and below the prediction barrier (\<open>may_advance\<close>). The save state of the world is then the one computed from the start with all inputs known so far, of the current frame after a poll and of the next one after an advance.\<close>

theorem bevy_plugin_replays:
  assumes "bevy_client B stages step ready" and "channels_ok X W" and "playable b"
    and "gm_zero G = pod_zeroed (cr_pod X)" and "gm_step G = step" and "gm_hash G = (\<lambda>_. None)"
    and "plugin_reachable B X W G stages ready b ((st, w, s, store), h)"
  shows "(may_poll W G (current_frame s) h' (plugin_world B stages (st, w, s, store) h, s) \<longrightarrow>
      (\<exists>st' w' s' store'. stage_poll B X stages (st, w, s, store) = Some (st', w', s', store') \<and>
        plugin_reachable B X W G stages ready b ((st', w', s', store'), h') \<and> current_frame s' = current_frame s \<and>
        world_snapshot B stages w' = replayed G (session_player_count s) h' (nat (current_frame s)))) \<and>
    (may_advance s \<and> may_poll W G (current_frame s + 1) h' (plugin_world B stages (st, w, s, store) h, s) \<longrightarrow>
      (\<exists>st' w' s' store'. stage_advance B X stages (st, w, s, store) = Some (st', w', s', store') \<and>
        plugin_reachable B X W G stages ready b ((st', w', s', store'), h') \<and> current_frame s' = current_frame s + 1 \<and>
        world_snapshot B stages w' = replayed G (session_player_count s) h' (nat (current_frame s + 1))))"
proof -
  note ok = bevy_client.plugin_reachable_ok[OF assms(1-2,4,3,5,6,7)]
  then have r: "ready w" "bevy_client.sound_store B stages ready store"
    and inv: "session_ok X W G (plugin_world B stages (st, w, s, store) h, s)"
    using session_reachable_inv[OF assms(2,4,3)] by (auto simp: bevy_client.plugin_ok_def[OF assms(1)])
  note polls = bevy_client.plugin_polls[OF assms(1,2,5,6) inv r]
  note advances = bevy_client.plugin_advances[OF assms(1,2,5,6) inv r]
  show ?thesis
  proof (intro conjI impI, goal_cases)
    case 1
    then have may: "may_poll W G (sy_frame_count (se_sync s)) h' (plugin_world B stages (st, w, s, store) h, s)"
      by (simp add: current_frame_def)
    show ?case
      by (rule polls[OF may])
        (use plugin_reachable.poll[OF assms(7) may] in \<open>auto simp: current_frame_def session_player_count_def\<close>)
  next
    case 2
    then have adv: "may_advance s"
      and may: "may_poll W G (sy_frame_count (se_sync s) + 1) h' (plugin_world B stages (st, w, s, store) h, s)"
      by (simp_all add: current_frame_def)
    show ?case
      by (rule advances[OF adv may])
        (use plugin_reachable.advance[OF assms(7) adv may] in \<open>auto simp: current_frame_def session_player_count_def\<close>)
  qed
qed

theorem bevy_plugin_replays_witness:
  "\<exists>st w q st' w' s' store'. stage_advance demo_bevy demo_crates demo_stages (st, w, demo_running q, store_default) =
      Some (st', w', s', store') \<and> current_frame s' = 1 \<and>
    world_snapshot demo_bevy demo_stages w' = replayed demo_bevy_game 2 demo_inputs 1"
proof -
  obtain st w q where d: "demo_plugin_reachable ((st, w, demo_running q, store_default), demo_inputs)"
    "may_advance (demo_running q)"
    "may_poll demo_views demo_bevy_game 1 demo_inputs
      (plugin_world demo_bevy demo_stages (st, w, demo_running q, store_default) demo_inputs, demo_running q)"
    by (rule demo_plugin_running[of 1]) simp
  have counts: "current_frame (demo_running q) = 0" "session_player_count (demo_running q) = 2"
    by (simp_all add: current_frame_def session_player_count_def demo_running_fields)
  note all = bevy_plugin_replays[OF demo_client.bevy_client_axioms demo_channels_ok demo_playable
      demo_bevy_game_fields d(1), of demo_inputs]
  from all[THEN conjunct2] obtain st' w' s' store'
    where "stage_advance demo_bevy demo_crates demo_stages (st, w, demo_running q, store_default) = Some (st', w', s', store')"
      "current_frame s' = 1" "world_snapshot demo_bevy demo_stages w' = replayed demo_bevy_game 2 demo_inputs 1"
    using d(2,3) counts by (auto simp del: stage_advance.simps)
  then show ?thesis by blast
qed

text \<open>C12. A save state survives the world: however the plugin is configured, loading the save state of one world in any other one succeeds and gives a world with the same save state, whose entities have distinct identities, the saved ones, and which has the registered resources of the saved world; when the identities were distinct, the entity of each identity has its registered components back.\<close>

theorem bevy_state_round_trip:
  assumes "ecs_world (bv_ecs B)" and "app_built B app" and "ap_stages app = Some stages"
  shows "\<exists>w'. restore (bv_ecs B) (bs_before_load stages) (bs_load stages) (world_snapshot B stages w) v = Some w' \<and>
    world_snapshot B stages w' = world_snapshot B stages w \<and>
    inj_on snd (entities (bv_ecs B) w') \<and> snd ` entities (bv_ecs B) w' = snd ` entities (bv_ecs B) w \<and>
    (\<forall>t. Save_Resource t \<in> set (bs_save stages) \<longrightarrow> ec_resource (bv_ecs B) t w' = ec_resource (bv_ecs B) t w) \<and>
    (inj_on snd (entities (bv_ecs B) w) \<longrightarrow>
      (\<forall>t e e' i. Save_Components t \<in> set (bs_save stages) \<and> (e, i) \<in> entities (bv_ecs B) w \<and>
         (e', i) \<in> entities (bv_ecs B) w' \<longrightarrow>
         ec_component (bv_ecs B) t e' w' = ec_component (bv_ecs B) t e w))"
proof -
  have ok: "bs_before_load stages = [Sync_Network_Ids]" "stages_match (bs_save stages) (bs_load stages)"
    using app_built_ok[OF assms(2)] assms(3) by (auto simp: stages_ok_def)
  obtain w' where r: "restore (bv_ecs B) [Sync_Network_Ids] (bs_load stages) (world_snapshot B stages w) v = Some w'"
    "world_snapshot B stages w' = world_snapshot B stages w" "inj_on snd (entities (bv_ecs B) w')"
    by (rule ecs_world.snapshot_restore[OF assms(1) ok(2), of w v]) blast
  have save: "Save_Network_Ids \<in> set (bs_save stages)" using ok(2) by (simp add: stages_match_def)
  have components: "\<forall>t e e' i. Save_Components t \<in> set (bs_save stages) \<and> (e, i) \<in> entities (bv_ecs B) w \<and>
         (e', i) \<in> entities (bv_ecs B) w' \<longrightarrow> ec_component (bv_ecs B) t e' w' = ec_component (bv_ecs B) t e w"
    if "inj_on snd (entities (bv_ecs B) w)"
    using ecs_world.restore_components[OF assms(1) ok(2) that r(1)] by blast
  show ?thesis
  proof (intro exI conjI)
    show "restore (bv_ecs B) (bs_before_load stages) (bs_load stages) (world_snapshot B stages w) v = Some w'"
      unfolding ok(1) by (rule r(1))
    show "snd ` entities (bv_ecs B) w' = snd ` entities (bv_ecs B) w"
      unfolding entities_def by (rule saved_same_ids[OF r(2) save])
  qed (rule r(2), rule r(3), intro allI impI, erule saved_same_resource[OF r(2)], rule impI, erule components)
qed

theorem bevy_state_round_trip_witness:
  "\<exists>stages w'. restore (bv_ecs demo_bevy) (bs_before_load stages) (bs_load stages)
      (world_snapshot demo_bevy stages demo_bevy_world_ready) demo_bevy_later = Some w' \<and>
    fw_resources w' ''score'' = Some 0"
proof -
  obtain app where app: "demo_app = Some app" "ap_stages app = Some demo_stages" by (rule demo_app_built)
  have "ecs_world (bv_ecs demo_bevy)" by (rule demo_client.ecs_world_axioms)
  note bevy_state_round_trip[OF this demo_app_is_built[OF app(1)] app(2), of demo_bevy_world_ready demo_bevy_later]
  then obtain w' where r: "restore (bv_ecs demo_bevy) (bs_before_load demo_stages) (bs_load demo_stages)
      (world_snapshot demo_bevy demo_stages demo_bevy_world_ready) demo_bevy_later = Some w'"
    "\<forall>t. Save_Resource t \<in> set (bs_save demo_stages) \<longrightarrow>
      ec_resource (bv_ecs demo_bevy) t w' = ec_resource (bv_ecs demo_bevy) t demo_bevy_world_ready"
    by blast
  have "ec_resource (bv_ecs demo_bevy) ''score'' w' = ec_resource (bv_ecs demo_bevy) ''score'' demo_bevy_world_ready"
    using r(2) demo_stages_set by simp
  then have "fw_resources w' ''score'' = Some 0"
    by (simp add: demo_bevy_def flat_ecs_def demo_bevy_world_ready_def demo_bevy_start_def)
  then show ?thesis using r(1) by blast
qed

text \<open>C13. The state machine of a connection and its events agree: after any sequence of messages, timer ticks, task iterations and calls of the session, the handshake events reported so far are a prefix of \<open>Connected\<close>, four \<open>Synchronizing\<close> with counts 1 to 4, \<open>Synchronized\<close>, each once and in this order, and a connection that runs has reported all of them.\<close>

theorem handshake_events_in_order:
  assumes "channels_ok X W" and "fresh_peer W p" and "conn_reachable X p c"
  shows "(\<exists>later. filter is_handshake_event (event_log W c) @ later = full_handshake) \<and>
    (state_is_running (pe_state (cn_session c)) \<longrightarrow> filter is_handshake_event (event_log W c) = full_handshake)"
  using conn_progress[OF assms] progress_prefix[OF conn_progress[OF assms]]
  by (cases "pe_state (cn_session c)") simp_all

theorem handshake_events_in_order_witness:
  "\<exists>later. filter is_handshake_event (event_log demo_views (conn_new (demo_peer (PeerConnecting 1) []))) @ later = full_handshake"
  using handshake_events_in_order[OF demo_channels_ok demo_peer_fresh conn_reachable.start] by blast

text \<open>C14. The handshake completes: a fresh peer whose sync requests reach a peer that has not disconnected, in whatever state of its own handshake that one is, is running after \<open>NUM_SYNC_PACKETS\<close> + 1 round trips, has stored the other side's magic number and has reported all handshake events.\<close>

theorem handshake_completes:
  assumes "channels_ok X W" and "fresh_peer W a" and "fresh_peer W b" and "conn_reachable X b c"
    and "answers W magic_a (cn_session c)"
  shows "\<exists>asked a' b'. send_sync_request X a = Some (Inr (), asked) \<and>
    round_trips X now magic_a magic_b (Suc NUM_SYNC_PACKETS) (asked, cn_session c) = Some (a', b') \<and>
    pe_state a' = PeerRunning magic_b \<and> filter is_handshake_event (vw_events W (pe_events a')) = full_handshake"
proof -
  obtain r where r: "pe_state a = PeerConnecting r" "vw_out W (pe_message_out a) = []"
    using assms(2) by (auto simp: fresh_peer_def)
  have "conn_inv W (cn_received c) (cn_session c)"
    using conn_reachable_inv[OF assms(1,3,4)] by (simp add: clones_inv_def)
  from handshake_completes_lemma[OF assms(1) fresh_peer_inv[OF assms(2)] r this assms(5)]
  show ?thesis by (fastforce simp: conn_inv_def)
qed

theorem handshake_completes_witness:
  "\<exists>asked a' b'. send_sync_request demo_crates (demo_peer (PeerConnecting 1) []) = Some (Inr (), asked) \<and>
    round_trips demo_crates 0 3 4 (Suc NUM_SYNC_PACKETS) (asked, demo_peer (PeerConnecting 2) []) = Some (a', b') \<and>
    pe_state a' = PeerRunning 4"
  using handshake_completes[OF demo_channels_ok demo_peer_fresh demo_peer_fresh conn_reachable.start, where magic_a = 3]
  by (fastforce simp: conn_new_def answers_def demo_peer_def demo_views_def list_channel_new_def)

text \<open>C15. The event loop terminates: in every reachable session, when the inputs among the waiting events are numbered from the next frame of the player on without a gap and fit its queue (\<open>leads_to\<close>), the loop that takes the events of a peer from its channel ends with the channel empty; it changes nothing but this player, makes no commands but event notifications, and adds exactly the inputs that were waiting to the player's history.\<close>

theorem event_loop_ends:
  assumes "channels_ok X W" and "gm_zero G = pod_zeroed (cr_pod X)" and "playable b"
    and "session_reachable X W G b (w, s)" and "i < session_player_count s" and "se_players s ! i = Remote p"
    and "leads_to G i w (vw_events W (pe_events p)) h"
  shows "\<exists>events s' w' p'. flush_peer_events X i ([], s, store) = Some (events, s', store) \<and>
    only_events events \<and> se_players s' ! i = Remote p' \<and> vw_events W (pe_events p') = [] \<and>
    session_rep X W G events w' s' \<and> wo_inputs w' i = h \<and> only_player i (w, s) (w', s')"
proof -
  have "i < sy_player_count (se_sync s)" using assms(5) by (simp add: session_player_count_def)
  from flush_peer_ok[OF assms(1) session_reachable_ok(1)[OF assms(1-4)] this assms(6,7), of store]
  show ?thesis by simp blast
qed

theorem event_loop_ends_witness:
  "\<exists>events s'. flush_peer_events demo_crates 1 ([], demo_session demo_sync True (PeerRunning 7) demo_events (statuses_of 2), wo_store demo_world) =
    Some (events, s', wo_store demo_world)"
proof -
  have "arriving demo_views demo_game demo_world (demo_session demo_sync True (PeerRunning 7) demo_events (statuses_of 2)) demo_inputs 1"
    using demo_may_poll by (simp add: may_poll_def demo_session_def sync_new_def)
  then have "leads_to demo_game 1 demo_world (vw_events demo_views (pe_events (demo_peer (PeerRunning 7) demo_events))) (demo_inputs 1)"
    by (simp add: arriving_def demo_session_def)
  from event_loop_ends[OF demo_channels_ok demo_game_zero demo_playable demo_waiting_reachable _ _ this]
  show ?thesis by (fastforce simp: session_player_count_def demo_session_def sync_new_def)
qed



text \<open>C17. Well-formedness: however a session is used, its lists of players, connection statuses and input queues keep the length of the builder's list of players, and \<open>local_players\<close> and \<open>remote_players\<close> return the handles the builder gave out for them.\<close>

theorem session_shape:
  assumes "channels_ok X W" and "gm_zero G = pod_zeroed (cr_pod X)" and "playable b"
    and "session_reachable X W G b (w, s)"
  shows "session_player_count s = length (sb_players b) \<and> length (se_players s) = length (sb_players b) \<and>
    length (se_local_connect_status s) = length (sb_players b) \<and>
    length (sy_input_queues (se_sync s)) = length (sb_players b) \<and>
    local_players s = filter (\<lambda>i. sb_players b ! i = Player_Local) [0 ..< length (sb_players b)] \<and>
    remote_players s = filter (\<lambda>i. sb_players b ! i = Player_Remote) [0 ..< length (sb_players b)]"
proof -
  note r = session_reachable_ok[OF assms]
  have len: "length (se_players s) = length (sb_players b)" "length (se_local_connect_status s) = length (sb_players b)"
    "length (sy_input_queues (se_sync s)) = length (sb_players b)"
    using r(1,5) by (auto simp: session_rep_def all_connected_def pending_def world_rep_def Let_def)
  have role: "is_local (se_players s ! i) = (sb_players b ! i = Player_Local)"
    "is_remote_player (se_players s ! i) = (sb_players b ! i = Player_Remote)" if "i < length (sb_players b)" for i
  proof -
    have "is_local (se_players s ! i) = player_is_local (sb_players b ! i)"
      using r(4) len(1) that by (simp add: roles_def list_eq_iff_nth_eq)
    then show "is_local (se_players s ! i) = (sb_players b ! i = Player_Local)"
      "is_remote_player (se_players s ! i) = (sb_players b ! i = Player_Remote)"
      by (cases "sb_players b ! i"; cases "se_players s ! i"; simp)+
  qed
  have pos: "map fst (filter (\<lambda>(i, x). Q x) (enumerate 0 xs)) = filter (\<lambda>i. Q (xs ! i)) [0 ..< length xs]" for Q and xs :: "'z list"
    by (induction xs rule: rev_induct) (auto simp: enumerate_append_eq nth_append intro!: filter_cong)
  show ?thesis
    using r(5) len role
    by (auto simp: session_player_count_def local_players_def remote_players_def pos intro!: filter_cong)
qed

theorem session_shape_witness:
  "\<exists>w s. session_reachable demo_crates demo_views demo_game demo_builder (w, s) \<and> session_player_count s = 2 \<and>
    local_players s = [0] \<and> remote_players s = [1]"
proof -
  obtain w s where d: "session_reachable demo_crates demo_views demo_game demo_builder (w, s)"
    by (rule demo_running_reachable)
  show ?thesis
    using session_shape[OF demo_channels_ok demo_game_zero demo_playable d] d by (auto simp: demo_builder_players upt_rec numeral_2_eq_2)
qed

text \<open>C18. End-to-end delivery between two complete peers: from any two unused peers, whatever their handlers, timers, background tasks and sessions do and however the network loses, repeats, delays and reorders their packets, the inputs a session has taken from its peer are those the other session sent, from frame 0 on and without a gap, those that wait for it continue them, and every input message that waits can be decoded; in both directions at once.\<close>

theorem peers_deliver_inputs:
  assumes "packet_codec (cr_varint X) (cr_pod X)" and "channels_ok X W"
    and "\<And>m bytes. serialize m = Inr bytes \<Longrightarrow> deserialize bytes = Inr m"
    and "unused_peer W p" and "unused_peer W q" and "peers_reachable X serialize deserialize p q a b"
  shows "delivers W a b \<and> understands X W b \<and> delivers W b a \<and> understands X W a"
  by (rule peers_agree_on_inputs[OF assms])

theorem peers_deliver_inputs_witness:
  "\<exists>a b. peers_reachable demo_crates demo_serialize demo_deserialize demo_running_peer demo_running_peer a b \<and>
    event_inputs (cn_received (ep_conn b)) = [\<lparr>fi_frame = 0, fi_input = demo_input\<rparr>] \<and> ep_pushed a = [demo_input] \<and>
    delivers demo_views a b \<and> understands demo_crates demo_views a"
proof -
  obtain a b where run: "peers_reachable demo_crates demo_serialize demo_deserialize demo_running_peer demo_running_peer a b"
    "ep_pushed a = [demo_input]" "cn_received (ep_conn b) = [PeerInputs [\<lparr>fi_frame = 0, fi_input = demo_input\<rparr>]]"
    by (rule demo_delivery)
  have codec: "packet_codec (cr_varint demo_crates) (cr_pod demo_crates)"
    using test_codec.packet_codec_axioms by (simp add: demo_crates_def)
  note * = peers_deliver_inputs[OF codec demo_channels_ok demo_serialize_law demo_peer_unused demo_peer_unused run(1)]
  show ?thesis using run * by (intro exI[of _ a] exI[of _ b]) simp
qed

text \<open>C19. Decoding inverts encoding: under the documented laws of \<^verbatim>\<open>varinteger\<close> and \<^verbatim>\<open>bytemuck\<close>, compressing a sequence of inputs of less than 65535 bytes succeeds and decompressing the packet against the same base gives the sequence back; a longer sequence is refused with \<open>EncodeTooBig\<close>.\<close>

theorem compression_round_trip:
  assumes "packet_codec V P"
  shows "if packet_fits P xs
    then \<exists>bits. compress V P b xs = Some (Inr bits) \<and> decompress V P b bits = Some (Inr xs) \<and>
      length bits \<le> 11 * (length xs * pod_size P) + 10
    else \<exists>n. compress V P b xs = Some (Inl (EncodeTooBig n))"
proof (cases "packet_fits P xs")
  case True
  show ?thesis by (rule packet_codec.decompress_compress[OF assms True]) (use True in auto)
next
  case False
  then show ?thesis using packet_codec.compress_too_big[OF assms False] by simp
qed

theorem compression_round_trip_witness:
  "\<exists>bits. compress leb128 test_pod \<lparr>ti_x = 0, ti_y = 0\<rparr> [\<lparr>ti_x = 420, ti_y = 1337\<rparr>] = Some (Inr bits) \<and>
    decompress leb128 test_pod \<lparr>ti_x = 0, ti_y = 0\<rparr> bits = Some (Inr [\<lparr>ti_x = 420, ti_y = 1337\<rparr>])"
  using compression_round_trip[OF test_codec.packet_codec_axioms,
      of "[\<lparr>ti_x = 420, ti_y = 1337\<rparr>]" "\<lparr>ti_x = 0, ti_y = 0\<rparr>"]
  by (auto simp: packet_fits_def test_pod_def MAX_BUFFER_SIZE_def)

text \<open>C20. \<open>add_input\<close> refines its counterpart on the list of accepted inputs: with frame delay \<open>d\<close> the input of frame \<open>m\<close> is put at frame \<open>t = m + d\<close>, the gap is padded with the newest input, a frame already taken is dropped with \<open>NULL_FRAME\<close>, and the queue keeps tracking what the simulation has used.\<close>

theorem add_input_appends:
  assumes "tracks z h used q"
    and "is_null (iq_last_user_added_frame q) \<or> m = iq_last_user_added_frame q + 1"
    and "m + iq_frame_delay q = int t" and "in_i32 (int t + 1)" and "in_i32 m"
    and "in_i32 (int (length h))"
    and "iq_length q + (Suc t - length h) \<le> MAX_ROLLBACK_FRAMES"
  shows "\<exists>q'. add_input \<lparr>fi_frame = m, fi_input = x\<rparr> q =
      Some (if t < length h then NULL_FRAME else int t, q') \<and>
    tracks z (queue_accept z h t x) used q' \<and>
    iq_length q' = iq_length q + (Suc t - length h) \<and> iq_last_user_added_frame q' = m"
  by (rule add_input_tracks[OF assms]) auto

theorem add_input_appends_witness:
  "\<exists>q'. add_input \<lparr>fi_frame = 0, fi_input = 7\<rparr> (queue_new (0::int) 3) = Some (3, q') \<and>
    tracks 0 [0, 0, 0, 7] [] q'"
  using add_input_appends[OF tracks_new[of "0::int" 3], of 0 3 7]
  by (auto simp: in_i32_def MAX_ROLLBACK_FRAMES_def queue_accept_def last_or_def eval_nat_numeral)

text \<open>C21. \<open>get_input\<close> for the next frame: the accepted input of that frame, as \<open>Normal\<close>, when there is one, and otherwise the newest accepted input (the zeroed one when there is none), as \<open>Prediction\<close>; it never panics inside the window.\<close>

theorem get_input_answers:
  assumes "askable z h used q" and "oldest h q \<le> length used"
    and "in_i32 (int (length h))" and "in_i32 (int (length used) + 1)"
  shows "\<exists>r q'. get_input z (int (length used)) q = Some (r, q') \<and>
    fetched_unwrap r = \<lparr>fi_frame = int (length used), fi_input = input_for z h (length used)\<rparr> \<and>
    ((\<exists>x. r = Normal x) \<longleftrightarrow> length used < length h) \<and>
    tracks z h (used @ [input_for z h (length used)]) q'"
  by (rule get_input_tracks[OF assms]) blast

theorem get_input_answers_witness:
  "\<exists>r q'. get_input (9::int) 0 (queue_new 9 3) = Some (r, q') \<and>
    fetched_unwrap r = \<lparr>fi_frame = 0, fi_input = 9\<rparr> \<and> \<not> (\<exists>x. r = Normal x)"
  using get_input_answers[OF tracks_askable[OF tracks_new[of 9 3]]]
  by (auto simp: oldest_def in_i32_def input_for_def last_or_def)

text \<open>C22. A queue's side of a rollback: after \<open>reset_prediction\<close> to a frame no later than the first wrong one, requesting the frames from there again answers every frame with its accepted input or the newest one, so all frames the simulation has used are right.\<close>

theorem queue_rollback:
  assumes "tracks z h used q" and "k < length used" and "oldest h q \<le> k"
    and "is_null (iq_first_incorrect_frame q) \<or> int k \<le> iq_first_incorrect_frame q"
    and "int (length h) < i32_MAX" and "int (length used) \<le> i32_MAX"
  shows "\<exists>q1 q2. queue_reset_prediction (int k) q = Some q1 \<and>
    refetch (get_input z) (length used - k) (int k) q1 = Some (map (input_for z h) [k ..< length used], q2) \<and>
    take k used @ map (input_for z h) [k ..< length used] = map (input_for z h) [0 ..< length used] \<and>
    tracks z h (map (input_for z h) [0 ..< length used]) q2 \<and> is_null (iq_first_incorrect_frame q2)"
  by (rule iq.rollback_corrects[OF assms])

theorem queue_rollback_witness:
  "\<exists>q q1 q2. tracks (0::int) [] [0] q \<and> queue_reset_prediction 0 q = Some q1 \<and>
    refetch (get_input 0) 1 0 q1 = Some ([0], q2)"
proof -
  obtain r q where "get_input (0::int) 0 (queue_new 0 0) = Some (r, q)" "tracks 0 [] [0] q"
    "iq_length q = 0" "iq_first_incorrect_frame q = NULL_FRAME"
    using fresh_queue_example by blast
  then show ?thesis
    using queue_rollback[of 0 "[]" "[0]" q 0]
    by (fastforce simp: oldest_def i32_MAX_def input_for_def last_or_def)
qed

text \<open>C23. Progress over a lossy network: in every reachable state, encoding the pending inputs succeeds when they fit a packet, and if that one packet arrives the remote session has received every input.\<close>

theorem one_packet_catches_up:
  assumes "lossless pack unpack fits" and "link_reachable pack unpack s"
    and "fits (map fi_input (ie_pending (lk_encoder s)))"
  shows "\<exists>packet e d inputs. encode_pending pack (lk_encoder s) = Some (Inr packet, e) \<and>
    decode_frames unpack (fst packet) (snd packet) (lk_decoder s) = Some (Inr inputs, d) \<and>
    lk_delivered s @ inputs = numbered 0 (lk_history s)"
  by (rule lossless.one_packet_suffices[OF assms]) blast

theorem one_packet_catches_up_witness:
  "\<exists>s :: test_input link. lk_history s = [\<lparr>ti_x = 1, ti_y = 2\<rparr>] \<and>
    (\<exists>packet e d inputs.
      encode_pending (compress leb128 test_pod (pod_zeroed test_pod)) (lk_encoder s) = Some (Inr packet, e) \<and>
      decode_frames (decompress leb128 test_pod (pod_zeroed test_pod)) (fst packet) (snd packet) (lk_decoder s)
        = Some (Inr inputs, d) \<and>
      lk_delivered s @ inputs = numbered 0 (lk_history s))"
proof -
  let ?pack = "compress leb128 test_pod (pod_zeroed test_pod)"
  let ?unpack = "decompress leb128 test_pod (pod_zeroed test_pod)"
  let ?x = "\<lparr>ti_x = 1, ti_y = 2\<rparr>"
  let ?s = "(link_init :: test_input link)\<lparr>lk_history := lk_history (link_init :: test_input link) @ [?x],
    lk_encoder := encoder_push \<lparr>fi_frame = int (length (lk_history (link_init :: test_input link))),
      fi_input = ?x\<rparr> (lk_encoder (link_init :: test_input link))\<rparr>"
  have "link_step ?pack ?unpack link_init ?s"
    by (rule link_step.push) (simp add: link_init_def in_i32_def)
  then have r: "link_reachable ?pack ?unpack ?s"
    using link_reachable.init link_reachable.step by blast
  have "packet_fits test_pod (map fi_input (ie_pending (lk_encoder ?s)))"
    by (simp add: link_init_def encoder_push_def encoder_default_def packet_fits_def test_pod_def
        MAX_BUFFER_SIZE_def)
  then show ?thesis
    using one_packet_catches_up[OF test_codec.lossless_axioms r]
    by (intro exI[of _ ?s]) (simp add: link_init_def)
qed

text \<open>C24. The run-length code is lossless: decoding the encoding of any byte string gives the string back, \<open>decode_len\<close> announces its length, and \<open>encode_len_with_offset\<close> at offset 0 is the exact length of the encoding.\<close>

theorem bitfield_round_trip:
  assumes "varint_groups V" and "length xs < 2 ^ 59"
  shows "\<exists>enc. encode V xs = Some enc \<and> decode V enc = Some (Inr xs) \<and>
    decode_len V enc = Some (Inr (length xs)) \<and> encode_len_with_offset V xs 0 = Some (length enc) \<and>
    length enc \<le> 11 * length xs + 10"
proof -
  have v: "varint V" using assms(1) by (simp add: varint_groups_def)
  obtain enc where "encode V xs = Some enc" "decode V enc = Some (Inr xs)"
    "decode_len V enc = Some (Inr (length xs))" "length enc \<le> 11 * length xs + 10"
    by (rule varint.encode_decode[OF v assms(2)])
  then show ?thesis using varint_groups.encode_len_exact[OF assms] by simp
qed

theorem bitfield_round_trip_witness:
  "\<exists>enc. encode leb128 [255, 255, 85, 84, 0, 0, 0, 183] = Some enc \<and>
    decode leb128 enc = Some (Inr [255, 255, 85, 84, 0, 0, 0, 183])"
  using bitfield_round_trip[OF leb.varint_groups_axioms, of "[255, 255, 85, 84, 0, 0, 0, 183]"] by auto

text \<open>C25. The recommended wait is bounded: \<open>recommend_frame_wait_duration\<close> returns 0 or between \<open>MIN_FRAME_ADVANTAGE\<close> and \<open>MAX_FRAME_ADVANTAGE\<close> frames, it recommends to wait only when the sum of the local advantages is really below the sum of the remote ones, in spite of the rounding of single precision, and the window keeps its 40 places.\<close>

theorem wait_recommendation_bounded:
  assumes "recommend_frame_wait_duration idle ts = Some (frames, ts')" and "time_sync_ok ts"
  shows "(frames = 0 \<or> MIN_FRAME_ADVANTAGE \<le> frames \<and> frames \<le> MAX_FRAME_ADVANTAGE \<and>
      sum_list (ts_local ts) < sum_list (ts_remote ts)) \<and> time_sync_ok ts'"
proof -
  obtain a r where r: "frames = wait_frames idle (ts_last_inputs ts) a r" "ts' = ts\<lparr>ts_iteration := ts_iteration ts + 1\<rparr>"
    using assms(1) unfolding recommend_Some by blast
  have "length (ts_local ts) = length (ts_remote ts)" using assms(2) by (simp add: time_sync_ok_def)
  from recommend_behind[OF assms(1) _ this] show ?thesis
    using wait_frames_range[of idle "ts_last_inputs ts" a r] r assms(2) by (auto simp: time_sync_ok_def)
qed

theorem wait_recommendation_bounded_witness:
  "\<exists>ts ts' :: int time_sync. recommend_frame_wait_duration False ts = Some (4, ts') \<and> time_sync_ok ts \<and>
    sum_list (ts_local ts) < sum_list (ts_remote ts) \<and> time_sync_ok ts'"
proof -
  let ?ts = "(time_sync_default (0 :: int))\<lparr>ts_remote := replicate FRAME_WINDOW_SIZE 8\<rparr>"
  have ok: "time_sync_ok ?ts" using time_sync_ok_default[of "0 :: int"] by (simp add: time_sync_ok_def)
  from wait_recommendation_bounded[OF recommend_eight[of "0 :: int"] ok] ok recommend_eight[of "0 :: int"]
  show ?thesis by (intro exI[of _ ?ts] exI[of _ "?ts\<lparr>ts_iteration := 1\<rparr>"]) simp
qed

text \<open>C26. The channels of a transport are reliable: for every sequence of sends, receives and disconnects of the two ends of a new pair, what one end sent successfully is what the other end received followed by what is still pending there, in both directions, and a bounded pair never holds more than its capacity; messages sent before a disconnect can still be received.\<close>

theorem transport_fifo:
  assumes "async_queue A look"
    and "create_unbounded_pair A hp = ((a, b), hp') \<and> limit = None \<or>
      (\<exists>n. create_bounded_pair A n hp = Some ((a, b), hp') \<and> limit = Some n)"
    and "l = fold (traffic_step A (a, b)) ops (traffic_start hp')"
  shows "\<exists>q r. tl_sent l True = tl_got l False @ q \<and> tp_pending_recv_count A b (tl_heap l) = length q \<and>
    tl_sent l False = tl_got l True @ r \<and> tp_pending_recv_count A a (tl_heap l) = length r \<and>
    (\<forall>n. limit = Some n \<longrightarrow> length q \<le> n \<and> length r \<le> n)"
proof -
  have "traffic_inv look limit (a, b) (traffic_start hp')"
    using assms(2)
  proof (elim disjE exE conjE)
    assume new: "create_unbounded_pair A hp = ((a, b), hp')" and lim: "limit = None"
    note pair = async_queue.unbounded_pair_new[OF assms(1) new]
    then obtain c d where "hp' = hp @ [c, d]" "look c = fresh_view limit" "look d = fresh_view limit" using lim by blast
    then show ?thesis by (rule async_queue.traffic_start_inv[OF assms(1) _ _ _ pair(2,3)])
  next
    fix n assume new: "create_bounded_pair A n hp = Some ((a, b), hp')" and lim: "limit = Some n"
    note pair = async_queue.bounded_pair_new[OF assms(1) new]
    then obtain c d where "hp' = hp @ [c, d]" "look c = fresh_view limit" "look d = fresh_view limit" using lim by blast
    then show ?thesis by (rule async_queue.traffic_start_inv[OF assms(1) _ _ _ pair(2,3)])
  qed
  then have inv: "traffic_inv look limit (a, b) l"
    using async_queue.traffic_inv_run[OF assms(1)] assms(3) by blast
  then have "tp_incoming b = tp_outgoing a" "tp_incoming a = tp_outgoing b" by (simp_all add: traffic_inv_def linked_def)
  then show ?thesis
    using inv async_queue.len[OF assms(1)]
    by (intro exI[of _ "cv_items (look (tl_heap l ! tp_outgoing a))"] exI[of _ "cv_items (look (tl_heap l ! tp_outgoing b))"])
      (auto simp: traffic_inv_def queue_logged_def tp_pending_recv_count_def)
qed

theorem transport_fifo_witness:
  "\<exists>a b hp' l q. create_bounded_pair view_queues 2 [] = Some ((a, b), hp') \<and>
    l = fold (traffic_step view_queues (a, b)) demo_traffic (traffic_start hp') \<and>
    tl_sent l True = tl_got l False @ q \<and> length q = 1 \<and> tl_got l False = [1, 2]"
proof -
  let ?a = "\<lparr>tp_incoming = 0, tp_outgoing = 1\<rparr>" and ?b = "\<lparr>tp_incoming = 1, tp_outgoing = 0\<rparr>"
  let ?hp = "[fresh_view (Some 2), fresh_view (Some 2)] :: nat chan_view list"
  let ?l = "fold (traffic_step view_queues (?a, ?b)) demo_traffic (traffic_start ?hp)"
  have new: "create_bounded_pair view_queues 2 [] = Some ((?a, ?b), ?hp)"
    by (simp add: create_bounded_pair_def view_queues_def create_pair_def)
  have "(tl_got ?l False, tp_pending_recv_count view_queues ?b (tl_heap ?l)) = ([1, 2], 1)" by code_simp
  then have r: "tl_got ?l False = [1, 2]" "tp_pending_recv_count view_queues ?b (tl_heap ?l) = 1" by blast+
  have "create_unbounded_pair view_queues [] = ((?a, ?b), ?hp) \<and> Some 2 = None \<or>
      (\<exists>n. create_bounded_pair view_queues n [] = Some ((?a, ?b), ?hp) \<and> Some 2 = Some n)"
    using new by blast
  from transport_fifo[OF view_queue.async_queue_axioms this refl, of demo_traffic]
  obtain q where "tl_sent ?l True = tl_got ?l False @ q" "tp_pending_recv_count view_queues ?b (tl_heap ?l) = length q"
    by blast
  then show ?thesis
    using new r by (intro exI[of _ ?a] exI[of _ ?b] exI[of _ ?hp] exI[of _ ?l] exI[of _ q]) (simp only: simp_thms)
qed

text \<open>C27. The table of connections refines a set of keys: under every sequence of its operations, and of disconnects by the other ends of its channels, the keys with a connected peer are those the set operations yield, the table panics exactly when a bounded pair of capacity 0 is asked for, and \<open>len\<close> is the number of these keys.\<close>

theorem peers_table_refines:
  assumes "peer_table A look M"
  shows "map_option (live M A) (table_runs M A ops (peers_default M hp)) = live_runs ops {} \<and>
    (\<forall>ps. table_runs M A ops (peers_default M hp) = Some ps \<longrightarrow> peers_len M A ps = card (live M A ps))"
proof -
  note ok = peer_table.table_runs_ok[OF assms peer_table.default_ok(1)[OF assms], of ops hp]
  have "peers_len M A ps = card (live M A ps)" for ps using peer_table.len_live[OF assms, of "fst ps" "snd ps"] by simp
  then show ?thesis using ok peer_table.default_ok(2)[OF assms] by simp
qed

theorem peers_table_refines_witness:
  "map_option (live alist_table view_queues)
      (table_runs alist_table view_queues [Create_Unbounded (1::nat), Create_Bounded 2 5, Far_Disconnect 1, Flush, Get 2]
        (peers_default alist_table [])) = Some {2}"
proof -
  have "live_runs [Create_Unbounded (1::nat), Create_Bounded 2 5, Far_Disconnect 1, Flush, Get 2] {} = Some {2}" by auto
  then show ?thesis
    by (rule trans[OF conjunct1[OF peers_table_refines[OF peer_tables.peer_table_axioms]]])
qed

text \<open>C28. A packet crosses two UDP managers: in all reachable states, a message shorter than the buffer that a session sends over its empty, open channel is handed to the socket for the address of the peer, and when that datagram arrives at the manager of the other side, whose channel is open and empty, the session there receives exactly this message.\<close>

theorem udp_packet_crosses:
  assumes "udp_manager A look M"
    and "udp_reachable M A (d, hp)" and "tb_get M kb d = Some pa" and "linked pa qa hp" and "tp_is_connected A qa hp"
    and "tp_pending_send_count A qa hp = 0" and "\<not> full_view (look (hp ! tp_outgoing qa))"
    and "udp_reachable M A (e, hq)" and "tb_get M ka e = Some pb" and "linked pb qb hq" and "tp_is_connected A qb hq"
    and "tp_pending_recv_count A qb hq = 0" and "\<not> full_view (look (hq ! tp_incoming qb))"
    and "length m < MAX_TRANSMISSION_UNIT"
  shows "fst (tp_try_send A qa m hp) = Inr () \<and>
    fst (udp_send_step A pa kb (snd (tp_try_send A qa m hp))) = Send_To m kb \<and>
    (\<exists>ps'. udp_recv_step M A now last_flush (Some (m, ka)) (e, hq) = Some ps' \<and> fst (tp_try_recv A qb (snd ps')) = Inr m)"
  by (rule udp_manager.packet_crosses[OF assms])

theorem udp_packet_crosses_witness:
  "\<exists>d hp pa qa e hq qb ps'. tb_get alist_table (1::nat) d = Some pa \<and> tb_get alist_table (1::nat) e \<noteq> None \<and>
    fst (udp_send_step view_queues pa (1::nat) (snd (tp_try_send view_queues qa [1, 2, 3] hp))) = Send_To [1, 2, 3] 1 \<and>
    udp_recv_step alist_table view_queues 0 0 (Some ([1, 2, 3], 1)) (e, hq) = Some ps' \<and>
    fst (tp_try_recv view_queues qb (snd ps')) = Inr [1, 2, 3]"
proof -
  obtain qa pa d and hp :: "packet chan_view list" where a: "udp_reachable alist_table view_queues (d, hp)"
    "tb_get alist_table (1::nat) d = Some pa" "linked pa qa hp" "tp_is_connected view_queues qa hp"
    "tp_pending_send_count view_queues qa hp = 0" "tp_pending_recv_count view_queues qa hp = 0"
    "\<not> full_view (hp ! tp_outgoing qa)" "\<not> full_view (hp ! tp_incoming qa)"
    by (rule demo_udp_connected)
  have room: "\<not> full_view (id (hp ! tp_outgoing qa))" "\<not> full_view (id (hp ! tp_incoming qa))" using a(7,8) by simp_all
  have short: "length [1, 2, 3 :: u8] < MAX_TRANSMISSION_UNIT" by (simp add: MAX_TRANSMISSION_UNIT_def)
  have known: "tb_get alist_table (1::nat) d \<noteq> None" using a(2) by simp
  obtain ps' where r: "fst (udp_send_step view_queues pa (1::nat) (snd (tp_try_send view_queues qa [1, 2, 3] hp))) = Send_To [1, 2, 3] 1"
    "udp_recv_step alist_table view_queues 0 0 (Some ([1, 2, 3], 1)) (d, hp) = Some ps'"
    "fst (tp_try_recv view_queues qa (snd ps')) = Inr [1, 2, 3]"
    using udp_packet_crosses[OF udp_managers.udp_manager_axioms a(1-5) room(1) a(1-4,6) room(2) short, of 0 0] by blast
  show ?thesis
    by (rule exI[of _ d], rule exI[of _ hp], rule exI[of _ pa], rule exI[of _ qa], rule exI[of _ d], rule exI[of _ hp],
        rule exI[of _ qa], rule exI[of _ ps'], intro conjI a(2) known r)
qed

text \<open>C29. A packet crosses two Steam managers: in all reachable states, a message that a session sends over its empty, open channel is handed to Steam for the remote of the peer if it has at most \<open>UNRELIABLE_MTU\<close> bytes, and dropped otherwise; a manager with a connection to the sender accepts its session request, and when a packet of any size arrives there, with an open and empty channel, the session receives exactly this packet.\<close>

theorem steam_packet_crosses:
  assumes "udp_manager A look M"
    and "steam_reachable M A (n, d, hp)" and "tb_get M kb d = Some pa" and "linked pa qa hp" and "tp_is_connected A qa hp"
    and "tp_pending_send_count A qa hp = 0" and "\<not> full_view (look (hp ! tp_outgoing qa))"
    and "steam_reachable M A (l, e, hq)" and "tb_get M ka e = Some pb" and "linked pb qb hq" and "tp_is_connected A qb hq"
    and "tp_pending_recv_count A qb hq = 0" and "\<not> full_view (look (hq ! tp_incoming qb))"
    and "reads_packet (length m) ka m read"
  shows "session_request M A ka (Some (l, e, hq)) = Some Accept_Session \<and>
    fst (tp_try_send A qa m hp) = Inr () \<and>
    fst (steam_send_step A pa kb (snd (tp_try_send A qa m hp))) =
      (if length m \<le> UNRELIABLE_MTU then Send_P2P m kb else Too_Big m) \<and>
    (\<exists>sm'. steam_recv_step M A now last_flush (Some (length m)) read (l, e, hq) = Some sm' \<and>
      fst (tp_try_recv A qb (snd (snd sm'))) = Inr m)"
  using udp_manager.steam_crosses[OF assms] udp_manager.linked_live[OF assms(1,9,10,11)]
  by (simp add: session_request_live)

theorem steam_packet_crosses_witness:
  "\<exists>d hp pa qa sm'. steam_reachable alist_table view_queues (UNRELIABLE_MTU, d, hp) \<and>
    fst (steam_send_step view_queues pa (1::nat) (snd (tp_try_send view_queues qa [1, 2, 3] hp))) = Send_P2P [1, 2, 3] 1 \<and>
    steam_recv_step alist_table view_queues 0 0 (Some 3) (\<lambda>n. if 3 \<le> n then Some (1::nat, [1, 2, 3]) else None)
      (UNRELIABLE_MTU, d, hp) = Some sm' \<and>
    fst (tp_try_recv view_queues qa (snd (snd sm'))) = Inr [1, 2, 3]"
proof -
  obtain qa pa d and hp :: "packet chan_view list" where a: "steam_reachable alist_table view_queues (UNRELIABLE_MTU, d, hp)"
    "tb_get alist_table (1::nat) d = Some pa" "linked pa qa hp" "tp_is_connected view_queues qa hp"
    "tp_pending_send_count view_queues qa hp = 0" "tp_pending_recv_count view_queues qa hp = 0"
    "\<not> full_view (hp ! tp_outgoing qa)" "\<not> full_view (hp ! tp_incoming qa)"
    by (rule demo_steam_connected)
  let ?read = "\<lambda>n::nat. if 3 \<le> n then Some (1::nat, [1, 2, 3 :: u8]) else None"
  have room: "\<not> full_view (id (hp ! tp_outgoing qa))" "\<not> full_view (id (hp ! tp_incoming qa))" using a(7,8) by simp_all
  have read: "reads_packet (length [1, 2, 3 :: u8]) 1 [1, 2, 3] ?read" by (simp add: reads_packet_def)
  have short: "length [1, 2, 3 :: u8] \<le> UNRELIABLE_MTU" "length [1, 2, 3 :: u8] = 3" by (simp_all add: UNRELIABLE_MTU_def)
  note r = steam_packet_crosses[OF udp_managers.udp_manager_axioms a(1-5) room(1) a(1-4,6) room(2) read, of 0 0]
  obtain sm' where "steam_recv_step alist_table view_queues 0 0 (Some 3) ?read (UNRELIABLE_MTU, d, hp) = Some sm'"
    "fst (tp_try_recv view_queues qa (snd (snd sm'))) = Inr [1, 2, 3]"
    using r unfolding short(2) by blast
  moreover have "fst (steam_send_step view_queues pa (1::nat) (snd (tp_try_send view_queues qa [1, 2, 3] hp))) = Send_P2P [1, 2, 3] 1"
    using r short by simp
  ultimately show ?thesis using a(1) by blast
qed

text \<open>C30. The staller stalls once for every frame ahead: after \<open>reset\<close>, whatever it was doing, the next calls of \<open>should_stall\<close> answer as planned, with one call between stalls while more than 9 frames are left and \<open>11 - n\<close> calls before the stall from \<open>n\<close> frames ahead otherwise, then never again, and no subtraction underflows.\<close>

theorem staller_schedule:
  "\<exists>st'. staller_reset ahead st = Some st' \<and>
    stall_calls n st' = Some (take n (stall_plan (unat ahead) @ replicate n False)) \<and>
    length (filter id (stall_plan (unat ahead))) = unat ahead"
proof -
  obtain st' where st': "staller_reset ahead st = Some st'" "fs_frames_ahead st' = ahead"
    "unat (fs_frames_until_stall st') = cadence_of (unat ahead)"
    by (rule staller_reset_Some)
  have "stall_calls n st' = Some (take n (stall_plan (unat ahead) @ replicate n False))"
  proof (cases "unat ahead")
    case 0
    then have "ahead = 0" by (simp add: unat_eq_zero)
    then show ?thesis using st' 0 by (simp add: stall_calls_plan)
  next
    case (Suc k)
    then have "ahead \<noteq> 0" by auto
    then show ?thesis using st' Suc by (simp add: stall_calls_plan)
  qed
  then show ?thesis using st'(1) stalls_planned by blast
qed

text \<open>C31. Without run criteria every run of the stage ends and a stall costs nothing: the stage polls once, or a second time when a stall was due, and then takes the inputs and simulates the frame all the same, so the stalls that should let the others catch up have no effect.\<close>

theorem stage_stalls_skip_nothing:
  assumes "bs_run_criteria stages = None"
  shows "stage_run B X stages sample state =
    (if \<not> bv_has_session B (fst (snd state)) then Some state
     else do { (stall, state) \<leftarrow> poll_and_stall B X stages state;
               if \<not> stall then map_option snd (stage_frame B X stages sample state)
               else if \<not> bv_has_session B (fst (snd state)) then Some state
               else do { (stall, state) \<leftarrow> poll_and_stall B X stages state;
                         map_option snd (stage_frame B X stages sample state) } })"
  by (rule stage_run_no_criteria[OF assms])

theorem stage_stalls_skip_nothing_witness:
  "\<exists>w q. stage_run demo_bevy demo_crates demo_stages demo_sample (staller_new, demo_bevy_world_ready,
      demo_session demo_sync True (PeerRunning 7) demo_events (statuses_of 2), store_default) =
    map_option snd (stage_frame demo_bevy demo_crates demo_stages demo_sample (staller_new, w, demo_running q, store_default))"
proof -
  let ?st = "(staller_new, demo_bevy_world_ready,
    demo_session demo_sync True (PeerRunning 7) demo_events (statuses_of 2), store_default)"
  have none: "bs_run_criteria demo_stages = None" by (simp add: demo_stages_def)
  obtain w q where poll: "stage_poll demo_bevy demo_crates demo_stages ?st = Some (staller_new, w, demo_running q, store_default)"
    by (rule demo_stage_polled)
  have "poll_and_stall demo_bevy demo_crates demo_stages ?st = Some (False, staller_new, w, demo_running q, store_default)"
    unfolding poll_and_stall_def poll by (simp add: should_stall_def staller_new_def)
  moreover have "bv_has_session demo_bevy (fst (snd ?st))" by (simp add: demo_bevy_def demo_bevy_world_ready_def)
  ultimately show ?thesis
    unfolding stage_stalls_skip_nothing[OF none] by (intro exI[of _ w] exI[of _ q]) (simp del: stage_frame.simps)
qed

text \<open>C32. One datagram stops a UDP manager: in every reachable state the receiving task panics exactly when a datagram fills its buffer of \<open>MAX_TRANSMISSION_UNIT\<close> bytes, which the documentation allows and any sender can cause; on everything else it returns and leaves the set of connected peers as it was.\<close>

theorem udp_receive_panics_on_full_buffer:
  assumes "udp_manager A look M" and "udp_reachable M A ps"
  shows "(udp_recv_step M A now last_flush received ps = None \<longleftrightarrow>
      (\<exists>data addr. received = Some (data, addr) \<and> MAX_TRANSMISSION_UNIT \<le> length data)) \<and>
    (\<forall>ps'. udp_recv_step M A now last_flush received ps = Some ps' \<longrightarrow> live M A ps' = live M A ps)"
proof (cases "\<exists>data addr. received = Some (data, addr) \<and> MAX_TRANSMISSION_UNIT \<le> length data")
  case True
  then have "udp_recv_step M A now last_flush received ps = None"
    by (auto simp: udp_recv_step_def)
  then show ?thesis using True by simp
next
  case False
  then have "length data < MAX_TRANSMISSION_UNIT" if "received = Some (data, addr)" for data addr
    using that by fastforce
  then obtain ps' where "udp_recv_step M A now last_flush received ps = Some ps'" "live M A ps' = live M A ps"
    by (rule udp_manager.udp_recv_ok[OF assms(1) udp_manager.udp_reachable_ok[OF assms]])
  then show ?thesis using False by simp
qed

theorem udp_receive_panics_on_full_buffer_witness:
  "udp_recv_step alist_table view_queues 0 0 (Some (replicate 1452 0, 7::nat)) (udp_bind alist_table []) = None"
  using udp_receive_panics_on_full_buffer[OF udp_managers.udp_manager_axioms udp_reachable.bind[where hp = "[]"],
      of 0 0 "Some (replicate 1452 0, 7)"]
  by (auto simp: MAX_TRANSMISSION_UNIT_def)

text \<open>C33. The session's clone of a peer keeps the connection statuses it was created with: no message, task iteration or call changes them, because \<open>Peer::clone\<close> copies the vector instead of sharing it. The witness is a run in which the message task has learnt a newer status.\<close>

theorem session_status_never_updated:
  assumes "conn_reachable X p c"
  shows "pe_peer_connect_status (cn_session c) = pe_peer_connect_status p"
  using assms
proof induction
  case start
  then show ?case by (simp add: conn_new_def)
next
  case (step c c')
  from step.hyps(2) show ?case
  proof cases
    case (action q)
    then show ?thesis using step.IH peer_action_keeps_status[OF action(2)] by (simp add: session_moved_def)
  next
    case task
    then show ?thesis by cases (simp_all add: step.IH task_moved_def session_moved_def)
  qed
qed

theorem session_status_never_updated_witness:
  "\<exists>c. conn_reachable demo_crates (demo_informed [demo_report]) c \<and>
    pe_peer_connect_status (cn_task c) = [\<lparr>cs_disconnected = False, cs_last_frame = 12\<rparr>, connection_status_default] \<and>
    pe_peer_connect_status (cn_session c) = pe_peer_connect_status (demo_informed [demo_report])"
proof -
  obtain c where c: "conn_reachable demo_crates (demo_informed [demo_report]) c"
    "pe_peer_connect_status (cn_task c) = [\<lparr>cs_disconnected = False, cs_last_frame = 12\<rparr>, connection_status_default]"
    by (rule demo_informed_task)
  then show ?thesis using session_status_never_updated[OF c(1)] by blast
qed

text \<open>C34. With more than two remote players nothing is ever confirmed: since the session never sees what the others report, \<open>poll_n_players\<close> computes a negative frame, and every \<open>poll\<close> and every \<open>advance_frame\<close> of a reachable session with a running remote peer, whatever inputs they find (\<open>may_poll\<close>, \<open>may_advance\<close>), return with the last confirmed frame unchanged, so the session stops at the prediction barrier. In the witness the inputs of frame 0 of all four players have arrived.\<close>

theorem many_players_never_confirm:
  assumes "channels_ok X W" and "gm_zero G = pod_zeroed (cr_pod X)" and "playable b"
    and "session_reachable X W G b (w, s)" and "2 < length (remote_peers s)"
    and "Remote p \<in> set (se_players s)" and "peer_is_running p"
  shows "(may_poll W G (current_frame s) h (w, s) \<longrightarrow>
      (\<exists>commands s' store. session_poll X (s, wo_store w) = Some (commands, s', store) \<and>
        sy_last_confirmed_frame (se_sync s') = sy_last_confirmed_frame (se_sync s))) \<and>
    (may_advance s \<longrightarrow> may_poll W G (current_frame s + 1) h (w, s) \<longrightarrow>
      (\<exists>commands s' store. session_advance_frame X (s, wo_store w) = Some (commands, s', store) \<and>
        sy_last_confirmed_frame (se_sync s') = sy_last_confirmed_frame (se_sync s)))"
proof -
  have inv: "session_ok X W G (w, s)" using session_reachable_inv[OF assms(1-4)] by blast
  show ?thesis
    using poll_returns[OF assms(1) inv, of h] advance_returns[OF assms(1) inv, of h]
      poll_confirms_nothing[OF assms(1) inv _ assms(5-7), of h]
      advance_confirms_nothing[OF assms(1) inv _ _ assms(5-7), of h]
    unfolding current_frame_def by metis
qed

theorem many_players_never_confirm_witness:
  "\<exists>w s commands s' store. session_reachable demo_crates demo_views demo_game many_builder (w, s) \<and>
    \<not> se_synchronizing s \<and> se_players s = many_players many_arrived \<and> cs_last_frame (se_local_connect_status s ! 0) = 0 \<and>
    session_poll demo_crates (s, wo_store w) = Some (commands, s', store) \<and>
    sy_last_confirmed_frame (se_sync s') = NULL_FRAME"
proof -
  obtain w s where d: "session_reachable demo_crates demo_views demo_game many_builder (w, s)"
    "\<not> se_synchronizing s" "se_players s = many_players many_arrived" "cs_last_frame (se_local_connect_status s ! 0) = 0"
    "current_frame s = 0" "sy_last_confirmed_frame (se_sync s) = NULL_FRAME"
    "may_poll demo_views demo_game 0 (\<lambda>_. [demo_input]) (w, s)"
    by (rule many_arrived_reachable)
  have rem: "2 < length (remote_peers s)" "Remote (many_with 1 (many_arrived 1)) \<in> set (se_players s)"
    "peer_is_running (many_with 1 (many_arrived 1))"
    using d(3) by (simp_all add: many_players_def remote_peers_def map_filter_def peer_is_running_def many_with_def
        many_peer_def demo_peer_def)
  from many_players_never_confirm[OF demo_channels_ok demo_game_zero many_playable d(1) rem, of "\<lambda>_. [demo_input]"]
  obtain commands s' store where "session_poll demo_crates (s, wo_store w) = Some (commands, s', store)"
    "sy_last_confirmed_frame (se_sync s') = sy_last_confirmed_frame (se_sync s)"
    using d(5,7) by (metis (no_types, lifting))
  then show ?thesis using d by (intro exI conjI) auto
qed

text \<open>C35. A poll after a disconnect panics: once \<open>disconnect_player\<close> has closed the channel of the remote player of a session of a local and a remote player, in this order, and no event waits there, the next \<open>poll\<close> finds the channel closed, tries to disconnect the player again and fails the \<open>expect\<close> on the error that reports.\<close>

theorem second_poll_panics:
  assumes "channels_ok X W" and "se_players s = [Local, Remote p]" and "session_player_count s = 2"
    and "vw_events W (pe_events p) = []"
    and "session_disconnect_player X 1 (s, store) = Some (Inr (commands, s', store'))" and "\<not> in_rollback s'"
  shows "session_poll X (s', store'') = None"
  by (rule poll_after_disconnect[OF assms(1,2) _ assms(4-6)]) (use assms(3) in \<open>simp add: session_player_count_def\<close>)

theorem second_poll_panics_witness:
  "\<exists>w s commands s' store'. session_reachable demo_crates demo_views demo_game demo_builder (w, s) \<and>
    session_disconnect_player demo_crates 1 (s, wo_store w) = Some (Inr (commands, s', store')) \<and>
    session_poll demo_crates (s', store') = None"
proof -
  obtain w s where d: "session_reachable demo_crates demo_views demo_game demo_builder (w, s)"
    "se_players s = [Local, Remote demo_polled_peer]" "sy_player_count (se_sync s) = 2" "\<not> in_rollback s"
    "se_local_connect_status s = [connection_status_default, connection_status_default\<lparr>cs_last_frame := 0\<rparr>]"
    "sy_frame_count (se_sync s) = 0" "may_advance s"
    by (rule demo_running_reachable)
  let ?s = "s\<lparr>se_players := [Local, Remote (peer_disconnect demo_crates demo_polled_peer)],
    se_local_connect_status := [connection_status_default, \<lparr>cs_disconnected = True, cs_last_frame = 0\<rparr>]\<rparr>"
  have r: "session_disconnect_player demo_crates 1 (s, wo_store w) = Some (Inr ([Event (Disconnected 1)], ?s, wo_store w))"
    using d(2-7) by (simp add: session_disconnect_player_def player_handle_to_queue_def disconnect_player_queue.simps
      connection_status_default_def check_initial_sync.simps may_advance_def Let_def)
  have "session_poll demo_crates (?s, wo_store w) = None"
    by (rule second_poll_panics[OF demo_channels_ok d(2) _ _ r])
      (use d(3,4) in \<open>simp_all add: session_player_count_def in_rollback_def demo_polled_peer_def demo_peer_def demo_views_def\<close>)
  then show ?thesis using d(1) r by blast
qed

text \<open>C36. \<open>with_disconnect_notify_start\<close> sets the timeout: a session built with a notify start smaller than the one it replaces has peers whose main task panics on the first timer tick after the connection has been quiet for the old notify start, since the timeout minus the notify start underflows.\<close>

theorem notify_start_sets_timeout:
  assumes "builder_start X (with_disconnect_notify_start t b) draws ends = Some (Inr s)"
    and "t < sb_disconnect_notify_start b" and "Remote p \<in> set (se_players s)"
    and "pe_config q = pe_config p" and "\<not> is_interrupted (pe_state q)"
    and "recv + sb_disconnect_notify_start b < now" and "now < 2 ^ 64"
  shows "run_timer X now polled_at recv q = None"
  by (rule short_notify_start[OF assms(1-3,6,7,4,5)])

theorem notify_start_sets_timeout_witness:
  "\<exists>s p. builder_start demo_crates (with_disconnect_notify_start 100 demo_builder) (\<lambda>_. [1])
      (\<lambda>_. (list_channel_new, list_channel_new, list_channel_new)) = Some (Inr s) \<and>
    Remote p \<in> set (se_players s) \<and> run_timer demo_crates 1000 1000 0 p = None"
proof -
  let ?p = "(demo_peer (PeerConnecting 1) [])\<lparr>pe_config := \<lparr>pc_disconnect_timeout = 100, pc_disconnect_notify_start = 750\<rparr>\<rparr>"
  let ?s = "(demo_session demo_sync True (PeerConnecting 1) [] (statuses_of 2))\<lparr>se_players := [Local, Remote ?p]\<rparr>"
  have b: "sb_disconnect_notify_start demo_builder = 750"
    by (simp add: demo_builder_def with_frame_delay_def add_player_def builder_new_def DEFAULT_DISCONNECT_NOTIFY_START_def)
  have s: "builder_start demo_crates (with_disconnect_notify_start 100 demo_builder) (\<lambda>_. [1])
      (\<lambda>_. (list_channel_new, list_channel_new, list_channel_new)) = Some (Inr ?s)"
    by (simp add: builder_start_def session_new_def demo_builder_def with_frame_delay_def add_player_def builder_new_def
      player_type_new_def peer_new_def peer_state_default_def random_from_def demo_session_def demo_peer_def
      demo_crates_def statuses_of_def list_channel_new_def numeral_2_eq_2 DEFAULT_DISCONNECT_TIMEOUT_def
      DEFAULT_DISCONNECT_NOTIFY_START_def Let_def with_disconnect_notify_start_def)
  have "run_timer demo_crates 1000 1000 0 ?p = None"
    by (rule notify_start_sets_timeout[OF s, where p = ?p]) (simp_all add: b demo_peer_def)
  then show ?thesis using s by (intro exI[of _ ?s] exI[of _ ?p]) simp
qed

text \<open>C37. The comparison of \<open>add_delayed_input\<close> includes the frame number, and the input still carries its undelayed one: with a frame delay other than 0 every frame that was predicted is reported as incorrect when its input arrives, even when the prediction was right.\<close>

theorem delayed_input_always_mispredicted:
  assumes "tracks z h used q" and "is_null (iq_first_incorrect_frame q)" and "iq_frame_delay q \<noteq> 0"
    and "is_null (iq_last_user_added_frame q) \<or> m = iq_last_user_added_frame q + 1"
    and "m + iq_frame_delay q = int (length h)" and "in_i32 m"
    and "in_i32 (int (length h) + 1)" and "iq_length q < MAX_ROLLBACK_FRAMES"
    and "length h < length used"
  shows "\<exists>q'. add_input \<lparr>fi_frame = m, fi_input = used ! length h\<rparr> q = Some (int (length h), q') \<and>
    iq_first_incorrect_frame q' = int (length h)"
  using delayed_misprediction[OF assms] .

theorem delayed_input_always_mispredicted_witness:
  "\<exists>q q'. tracks (0::int) [0, 0, 0, 0] [0, 0, 0, 0, 0] q \<and>
    add_input \<lparr>fi_frame = 1, fi_input = 0\<rparr> q = Some (4, q') \<and> iq_first_incorrect_frame q' = 4"
proof -
  obtain q where q: "tracks (0::int) [0, 0, 0, 0] [0, 0, 0, 0, 0] q" "iq_frame_delay q = 3"
    "iq_last_user_added_frame q = 0" "iq_length q = 4" "iq_first_incorrect_frame q = NULL_FRAME"
    using delayed_queue_example by blast
  then show ?thesis
    using delayed_input_always_mispredicted[of 0 "[0, 0, 0, 0]" "[0, 0, 0, 0, 0]" q 1]
    by (auto simp: in_i32_def MAX_ROLLBACK_FRAMES_def)
qed

text \<open>C38. The null check of \<open>discard_confirmed_frames\<close> is inverted: on a queue that holds inputs and was not asked for one since its last reset (the queue of a disconnected player after a rollback) it keeps everything when nothing was discarded before, and panics otherwise.\<close>

theorem discard_unrequested_panics:
  assumes "queue_ok z h q" and "0 \<le> frame" and "in_i32 (int (length h))"
    and "iq_last_frame_requested q = NULL_FRAME" and "0 < iq_length q"
  shows "discard_confirmed_frames frame q = (if oldest h q = 0 then Some q else None)"
  by (rule discard_unrequested[OF assms])

theorem discard_unrequested_panics_witness:
  "\<exists>q. queue_ok (0::int) [0, 0, 0, 0] q \<and> oldest [0, 0, 0, 0::int] q = 2 \<and>
    discard_confirmed_frames 2 q = None"
proof -
  obtain q where q: "queue_ok (0::int) [0, 0, 0, 0] q" "iq_length q = 2"
    "iq_last_frame_requested q = NULL_FRAME"
    using reset_queue_example by blast
  then show ?thesis
    using discard_unrequested_panics[OF q(1), of 2] by (auto simp: in_i32_def oldest_def)
qed

text \<open>C39. A disconnect behind a misprediction panics: in a reachable session of a local and a remote player, without frame delay for the remote one, let one event wait with the next inputs of the remote player, for frames that were already simulated, and let one of them, not the last, differ from the prediction. If the peer then disconnects, the next \<open>poll\<close> takes the event, finds the channel closed and disconnects the player before it checks the simulation; the rollback of the disconnect goes to the last of these frames, which is after the first incorrect one, and \<open>reset_prediction\<close> panics.\<close>

theorem rollback_past_error_panics:
  assumes "channels_ok X W" and "gm_zero G = pod_zeroed (cr_pod X)" and "playable b"
    and "session_reachable X W G b (w, s)" and "se_players s = [Local, Remote p]"
    and "h = wo_inputs w 1" and "q = sy_input_queues (se_sync s) ! 1" and "iq_frame_delay q = 0"
    and "cs_last_frame (se_local_connect_status s ! 1) + 1 = int (length h)"
    and "vw_events W (pe_events p) = [PeerInputs (numbered (int (length h)) xs)]" and "room_for q h (length xs)"
    and "int (length h + length xs) \<le> current_frame s"
    and "k + 1 < length xs" and "xs ! k \<noteq> last_or (gm_zero G) h"
  shows "session_poll X (s\<lparr>se_players := [Local, Remote (peer_disconnect X p)]\<rparr>, store) = None"
  by (rule disconnect_past_error[OF assms(1) session_reachable_ok(1,2)[OF assms(1-4)] assms(5-9,11,10)])
    (use assms(12-14) in \<open>simp_all add: current_frame_def\<close>)

theorem rollback_past_error_panics_witness:
  "\<exists>w s. session_reachable demo_crates demo_views demo_game demo_builder (w, s) \<and> current_frame s = 3 \<and>
    se_players s = [Local, Remote (demo_peer (PeerRunning 7) demo_late)] \<and> wo_inputs w 1 = [demo_input] \<and>
    session_poll demo_crates
      (s\<lparr>se_players := [Local, Remote (peer_disconnect demo_crates (demo_peer (PeerRunning 7) demo_late))]\<rparr>, wo_store w) = None"
proof -
  obtain w s where d: "session_reachable demo_crates demo_views demo_game demo_builder (w, s)"
    "se_players s = [Local, Remote (demo_peer (PeerRunning 7) demo_late)]" "sy_frame_count (se_sync s) = 3"
    "wo_inputs w 1 = [demo_input]" "iq_frame_delay (sy_input_queues (se_sync s) ! 1) = 0"
    "cs_last_frame (se_local_connect_status s ! 1) = 0" "room_for (sy_input_queues (se_sync s) ! 1) [demo_input] 2"
    by (rule demo_late_reachable)
  then have room: "room_for (sy_input_queues (se_sync s) ! 1) [demo_input] (Suc (Suc 0))" by (simp add: numeral_2_eq_2)
  have "session_poll demo_crates
      (s\<lparr>se_players := [Local, Remote (peer_disconnect demo_crates (demo_peer (PeerRunning 7) demo_late))]\<rparr>, wo_store w) = None"
    by (rule rollback_past_error_panics[OF demo_channels_ok demo_game_zero demo_playable d(1,2) refl refl d(5),
          where xs = "[demo_other, demo_other]" and k = 0])
      (use d room in \<open>simp_all add: demo_late_def demo_peer_def demo_views_def current_frame_def last_or_def\<close>)
  then show ?thesis using d by (auto simp: current_frame_def)
qed

text \<open>C40. Disconnecting a player before its first input panics: in every reachable session, for any number of players, that has simulated a frame and knows an input of some player, a remote player from whom nothing was received counts as being at \<open>NULL_FRAME\<close>. Both ways to disconnect it, \<open>disconnect_player\<close> and the loop over its events on a closed, empty channel, roll back to this frame, and no queue that holds the input of frame 0 can be asked for it.\<close>

theorem early_disconnect_is_fatal:
  assumes "channels_ok X W" and "gm_zero G = pod_zeroed (cr_pod X)" and "playable b"
    and "session_reachable X W G b (w, s)" and "r < session_player_count s" and "se_players s ! r = Remote p"
    and "cs_last_frame (se_local_connect_status s ! r) = NULL_FRAME"
    and "l < session_player_count s" and "wo_inputs w l \<noteq> []" and "0 < current_frame s"
  shows "session_disconnect_player X r (s, store) = None \<and>
    (vw_events W (pe_events p) = [] \<longrightarrow>
      flush_peer_events X r (commands, s\<lparr>se_players := (se_players s)[r := Remote (peer_disconnect X p)]\<rparr>, store) = None)"
proof (intro conjI impI)
  have c: "r < sy_player_count (se_sync s)" "l < sy_player_count (se_sync s)" "0 < sy_frame_count (se_sync s)"
    using assms(5,8,10) by (simp_all add: session_player_count_def current_frame_def)
  note panics = early_disconnect_panics[OF assms(1) session_reachable_ok(1)[OF assms(1-4)] c(1) assms(6,7) c(2) assms(9) c(3)]
  show "session_disconnect_player X r (s, store) = None" by (rule panics(1))
  show "flush_peer_events X r (commands, s\<lparr>se_players := (se_players s)[r := Remote (peer_disconnect X p)]\<rparr>, store) = None"
    if "vw_events W (pe_events p) = []"
    by (rule panics(2)[OF that])
qed

theorem early_disconnect_is_fatal_witness:
  "\<exists>w s. session_reachable demo_crates demo_views demo_game many_builder (w, s) \<and> current_frame s = 1 \<and>
    se_players s = many_players (\<lambda>_. []) \<and> wo_inputs w 0 = [demo_input] \<and>
    session_disconnect_player demo_crates 1 (s, wo_store w) = None \<and>
    flush_peer_events demo_crates 1
      ([], s\<lparr>se_players := (se_players s)[1 := Remote (peer_disconnect demo_crates (many_with 1 []))]\<rparr>, wo_store w) = None"
proof -
  obtain w s where d: "session_reachable demo_crates demo_views demo_game many_builder (w, s)"
    "se_players s = many_players (\<lambda>_. [])" "current_frame s = 1" "wo_inputs w 0 = [demo_input]"
    "cs_last_frame (se_local_connect_status s ! 1) = NULL_FRAME" "session_player_count s = 4"
    by (rule many_ahead_reachable)
  have p: "se_players s ! 1 = Remote (many_with 1 [])" "vw_events demo_views (pe_events (many_with 1 [])) = []"
    using d(2) by (simp_all add: many_players_at many_with_def demo_views_def)
  have "wo_inputs w 0 \<noteq> []" "1 < session_player_count s" "0 < session_player_count s" "0 < current_frame s"
    using d by simp_all
  from early_disconnect_is_fatal[OF demo_channels_ok demo_game_zero many_playable d(1) this(2) p(1) d(5) this(3,1,4)] p(2)
  show ?thesis using d by blast
qed

section \<open>Further theorems\<close>

text \<open>Convergence: two sessions of the same game that were reached by any sequence of local inputs, remote inputs, advances, checks and confirmations, whose last check is up to date, that are at the same frame and know the same inputs of the frames before it, have the same game state, whatever the arrival order, the frame delays and the rollbacks were.\<close>

theorem peers_converge:
  assumes "world_reachable G n delay w" and "world_reachable G n delay' w'"
    and "n \<le> MAX_PLAYERS" and "0 \<le> delay" and "0 \<le> delay'"
    and "check_simulation_consistency (wo_sync w) = None"
    and "check_simulation_consistency (wo_sync w') = None"
    and "sy_frame_count (wo_sync w) = int f" and "sy_frame_count (wo_sync w') = int f"
    and "\<And>p. p < n \<Longrightarrow> f \<le> length (wo_inputs w p) \<and> f \<le> length (wo_inputs w' p) \<and>
      take f (wo_inputs w p) = take f (wo_inputs w' p)"
  shows "wo_state w = wo_state w'"
  by (rule peers_agree[OF assms])

theorem peers_converge_witness:
  "\<exists>w w'. run_log script_a = Some w \<and> run_log script_b = Some w' \<and> wo_state w = wo_state w'"
proof -
  obtain w w' where w: "run_log script_a = Some w" "run_log script_b = Some w'"
    using script_a_facts script_b_facts by auto
  have r: "world_reachable log_game 2 0 w" "world_reachable log_game 2 0 w'"
    using w run_ops_reachable unfolding run_log_def by blast+
  have known: "2 \<le> length (wo_inputs w p) \<and> 2 \<le> length (wo_inputs w' p) \<and>
      take 2 (wo_inputs w p) = take 2 (wo_inputs w' p)" if "p < 2" for p
  proof -
    have "p = 0 \<or> p = 1" using that by auto
    then show ?thesis using script_a_facts script_b_facts w by auto
  qed
  have "wo_state w = wo_state w'"
    using script_a_facts script_b_facts w
    by (intro peers_converge[OF r _ _ _ _ _ _ _ known]) (auto simp: MAX_PLAYERS_def)
  then show ?thesis using w by blast
qed

text \<open>Advancing never panics: in every reachable session that has been checked and is not at the prediction barrier, making the next frame returns and the client can execute its commands, and the frame number grows by one.\<close>

theorem advance_never_panics:
  assumes "world_reachable G n delay w" and "n \<le> MAX_PLAYERS" and "0 \<le> delay"
    and "\<not> barred (wo_sync w)" and "sy_frame_count (wo_sync w) + 1 < i32_MAX"
    and "check_simulation_consistency (wo_sync w) = None"
  shows "\<exists>commands sy store g store'.
    increment_frame (gm_zero G) (statuses_of n) ([], wo_sync w, wo_store w) = Some (commands, sy, store) \<and>
    execute_all (gm_step G) (gm_hash G) commands (wo_state w, store) = Some (g, store')"
proof -
  have inv: "world_inv G w" "sy_player_count (wo_sync w) = n" using reachable_inv[OF assms(1-3)] by auto
  show ?thesis
    by (rule advance_ok[OF inv(1) assms(4-6)]) (use inv(2) in \<open>auto simp del: increment_frame.simps\<close>)
qed

theorem advance_never_panics_witness:
  "\<exists>commands sy store g store'.
    increment_frame 0 (statuses_of 2) ([], wo_sync (world_new log_game 2 3), wo_store (world_new log_game 2 3))
      = Some (commands, sy, store) \<and>
    execute_all (gm_step log_game) (gm_hash log_game) commands
      (wo_state (world_new log_game 2 3), store) = Some (g, store')"
  using advance_never_panics[OF world_reachable.start[of log_game 2 3]]
  by (simp add: MAX_PLAYERS_def barred_def world_new_def sync_new_def MAX_PREDICTION_FRAMES_def
      i32_MAX_def check_simulation_consistency_None create_queues_def queue_new_def log_game_def
      del: increment_frame.simps)

text \<open>Bounded speculation: in every reachable session the frame number is at most 8 (\<open>MAX_PREDICTION_FRAMES\<close>) beyond the last confirmed frame (frame 0 before the first confirmation), never below it, and a pending misprediction lies between the two, so a rollback always finds its saved state.\<close>

theorem speculation_bounded:
  assumes "world_reachable G n delay w" and "n \<le> MAX_PLAYERS" and "0 \<le> delay"
  shows "sy_frame_count (wo_sync w) \<le> max 0 (sy_last_confirmed_frame (wo_sync w)) + int MAX_PREDICTION_FRAMES
    \<and> sy_last_confirmed_frame (wo_sync w) \<le> sy_frame_count (wo_sync w)
    \<and> (case check_simulation_consistency (wo_sync w) of None \<Rightarrow> True
       | Some k \<Rightarrow> max 0 (sy_last_confirmed_frame (wo_sync w)) \<le> k \<and> k < sy_frame_count (wo_sync w))"
  using reachable_bounds[OF assms] .

theorem speculation_bounded_witness:
  "\<exists>w. run_log late_script = Some w \<and> sy_frame_count (wo_sync w) = 2 \<and>
    sy_frame_count (wo_sync w) \<le> max 0 (sy_last_confirmed_frame (wo_sync w)) + int MAX_PREDICTION_FRAMES"
proof -
  obtain w where w: "run_log late_script = Some w" "sy_frame_count (wo_sync w) = 2"
    using late_script_facts by auto
  have r: "world_reachable log_game 2 0 w"
    using w run_ops_reachable unfolding run_log_def by blast
  show ?thesis using speculation_bounded[OF r] w by (auto simp: MAX_PLAYERS_def)
qed

text \<open>\<open>add_local_input\<close> on every branch: at the prediction barrier it returns \<open>ReachedPredictionBarrier\<close> and changes nothing; below it, an input that fits the queue is accepted for the current frame and the resulting session is again reachable.\<close>

theorem local_input_accepted:
  assumes "world_reachable G n delay w" and "n \<le> MAX_PLAYERS" and "0 \<le> delay"
    and "input_fits w p (sy_frame_count (wo_sync w)) t"
  shows "if barred (wo_sync w)
    then sync_add_local_input p x (wo_sync w) = Some (Inl ReachedPredictionBarrier, wo_sync w)
    else \<exists>sy. sync_add_local_input p x (wo_sync w) = Some (Inr (sy_frame_count (wo_sync w)), sy) \<and>
      world_reachable G n delay (w\<lparr>wo_sync := sy, wo_inputs := accept_input G p t x (wo_inputs w)\<rparr>)"
  using reachable_local_input[OF assms] .

theorem local_input_accepted_witness:
  "\<exists>sy. sync_add_local_input 1 5 (wo_sync (world_new log_game 2 3)) = Some (Inr 0, sy)"
  using local_input_accepted[OF world_reachable.start[of log_game 2 3], of 1 3 5]
  by (auto simp: MAX_PLAYERS_def barred_def world_new_def sync_new_def MAX_PREDICTION_FRAMES_def
      input_fits_def i32_MAX_def in_i32_def create_queues_def queue_new_def MAX_ROLLBACK_FRAMES_def)

text \<open>Without frame delay mispredictions are found exactly: when the input of the next frame arrives and no error is pending, the queue records that frame as incorrect if the simulation has already used another input for it, and records nothing otherwise.\<close>

theorem misprediction_exact:
  assumes "tracks z h used q" and "is_null (iq_first_incorrect_frame q)" and "iq_frame_delay q = 0"
    and "is_null (iq_last_user_added_frame q) \<or> int (length h) = iq_last_user_added_frame q + 1"
    and "in_i32 (int (length h) + 1)" and "iq_length q < MAX_ROLLBACK_FRAMES"
  shows "\<exists>q'. add_input \<lparr>fi_frame = int (length h), fi_input = x\<rparr> q = Some (int (length h), q') \<and>
    (is_null (iq_first_incorrect_frame q') \<longleftrightarrow> \<not> (length h < length used \<and> used ! length h \<noteq> x)) \<and>
    (length h < length used \<and> used ! length h \<noteq> x \<longrightarrow> iq_first_incorrect_frame q' = int (length h))"
  using exact_misprediction[OF assms] .

theorem misprediction_exact_witness:
  "\<exists>q q'. tracks (0::int) [] [0] q \<and> add_input \<lparr>fi_frame = 0, fi_input = 5\<rparr> q = Some (0, q') \<and>
    iq_first_incorrect_frame q' = 0"
proof -
  obtain r q where q: "get_input (0::int) 0 (queue_new 0 0) = Some (r, q)" "tracks 0 [] [0] q"
    "iq_length q = 0" "iq_first_incorrect_frame q = NULL_FRAME" "iq_frame_delay q = 0"
    "iq_last_user_added_frame q = NULL_FRAME"
    using fresh_queue_example by blast
  then show ?thesis
    using misprediction_exact[of 0 "[]" "[0]" q 5]
    by (fastforce simp: in_i32_def MAX_ROLLBACK_FRAMES_def)
qed

text \<open>\<open>discard_confirmed_frames\<close> on a queue that was asked for an input since its last reset: it drops exactly the accepted inputs up to the given frame, never one after it, and does not disturb what the queue tracks.\<close>

theorem discard_keeps_window:
  assumes "tracks z h used q" and "0 \<le> frame" and "in_i32 frame" and "in_i32 (int (length h))"
    and "\<not> is_null (iq_last_frame_requested q)" and "int (oldest h q) \<le> frame + 1"
  shows "\<exists>q'. discard_confirmed_frames frame q = Some q' \<and> tracks z h used q' \<and>
    oldest h q' = max (oldest h q) (min (length h) (nat (frame + 1)))"
  using discard_tracks[OF assms] .

theorem discard_keeps_window_witness:
  "\<exists>q q'. tracks (0::int) [0, 0, 0, 0] [0, 0, 0, 0, 0] q \<and> oldest [0, 0, 0, 0::int] q = 0 \<and>
    discard_confirmed_frames 1 q = Some q' \<and> oldest [0, 0, 0, 0::int] q' = 2"
proof -
  obtain q where q: "tracks (0::int) [0, 0, 0, 0] [0, 0, 0, 0, 0] q" "iq_length q = 4"
    "iq_last_frame_requested q = 4"
    using delayed_queue_example by blast
  then show ?thesis
    using discard_keeps_window[OF q(1), of 1] by (auto simp: in_i32_def oldest_def is_null_def)
qed

text \<open>Decoding a received packet is safe after its length pass, for arbitrary bytes and an arbitrary varint decoder: when \<open>decode_len\<close> announces \<open>n\<close> bytes, \<open>decode\<close> returns and produces exactly \<open>n\<close> bytes (no index out of range); when it reports an error, \<open>decode\<close> reports the same error.\<close>

theorem decoding_follows_length:
  assumes "decode_len V buf = Some r" and "length buf < 2 ^ 64"
    and "\<And>n. r = Inr n \<Longrightarrow> n < 2 ^ 63"
  shows "case r of Inl e \<Rightarrow> decode V buf = Some (Inl e)
    | Inr n \<Rightarrow> \<exists>out. decode V buf = Some (Inr out) \<and> length out = n"
proof (cases r)
  case (Inl e)
  then show ?thesis using decode_length_error[of V buf e] assms(1) by simp
next
  case (Inr n)
  have len: "decode_len V buf = Some (Inr n)" "n < 2 ^ 63" using assms Inr by simp_all
  obtain out where "decode V buf = Some (Inr out)" "length out = n"
    by (rule decode_after_length[OF len assms(2)])
  then show ?thesis using Inr by simp
qed

theorem decoding_follows_length_witness:
  "\<exists>out. decode leb128 [11, 4, 85, 84, 13, 2, 183] = Some (Inr out) \<and> length out = 8"
proof -
  have "decode_len leb128 [11, 4, 85, 84, 13, 2, 183] = Some (Inr 8)"
    by (simp add: rle_eval)
  then show ?thesis using decoding_follows_length[of leb128 _ "Inr 8"] by simp
qed

text \<open>The length pass adds up lengths a remote peer chooses without a check: a packet of five maximal runs overflows \<open>usize\<close> (a panic with overflow checks, a wrapped length and an index out of range without), although each run alone is accepted.\<close>

theorem length_overflow_panics:
  "decode_len leb128 run_packet = Some (Inr (2 ^ 62 - 1))
   \<and> decode_len leb128 (run_packet @ run_packet @ run_packet @ run_packet @ run_packet) = None"
  by (simp add: rle_eval run_packet_def)

text \<open>\<open>encode_with_offset\<close> compares the index inside the slice with the absolute offset: from offset 1 the byte 5 of the string 9, 5, 0 is not in the encoding, which decodes to a single zero byte.\<close>

theorem offset_encoding_loses_bytes:
  "encode_with_offset leb128 [9, 5, 0] 1 = Some ([5], 2) \<and> decode leb128 [5] = Some (Inr [0])"
  by (simp add: rle_eval)

text \<open>In-order, exactly-once delivery: over a network that may lose, duplicate and reorder packets and acknowledgements, the inputs the decoder hands to its session are at every moment a prefix of the inputs pushed into the encoder, each with its frame number.\<close>

theorem inputs_delivered_in_order:
  assumes "lossless pack unpack fits" and "link_reachable pack unpack s"
  shows "\<exists>n. n \<le> length (lk_history s) \<and> lk_delivered s = numbered 0 (take n (lk_history s))"
  using lossless.delivered_prefix[OF assms] by blast

theorem inputs_delivered_in_order_witness:
  "\<exists>n. n \<le> length (lk_history (link_init :: test_input link)) \<and>
    lk_delivered link_init = numbered 0 (take n (lk_history (link_init :: test_input link)))"
  using inputs_delivered_in_order[OF test_codec.lossless_axioms link_reachable.init] .

text \<open>No packet the peer ever sent, however late or repeated, is rejected by the decoder or makes it panic.\<close>

theorem received_packets_decode:
  assumes "lossless pack unpack fits" and "link_reachable pack unpack s" and "p \<in> lk_packets s"
  shows "\<exists>inputs d. decode_frames unpack (fst p) (snd p) (lk_decoder s) = Some (Inr inputs, d)"
  by (rule lossless.receive_enabled[OF assms])

theorem received_packets_decode_witness:
  "\<exists>s :: test_input link. (- 1, []) \<in> lk_packets s \<and>
    (\<exists>inputs d. decode_frames (decompress leb128 test_pod (pod_zeroed test_pod)) (- 1) [] (lk_decoder s)
      = Some (Inr inputs, d))"
proof -
  let ?pack = "compress leb128 test_pod (pod_zeroed test_pod)"
  let ?unpack = "decompress leb128 test_pod (pod_zeroed test_pod)"
  let ?s = "(link_init :: test_input link)\<lparr>lk_encoder := encoder_default,
    lk_packets := insert (- 1, []) (lk_packets (link_init :: test_input link))\<rparr>"
  have "link_step ?pack ?unpack link_init ?s"
    by (rule link_step.transmit) (simp add: link_init_def encode_pending_def encoder_default_def NULL_FRAME_def)
  then have r: "link_reachable ?pack ?unpack ?s"
    using link_reachable.init link_reachable.step by blast
  have "(- 1, []) \<in> lk_packets ?s" by simp
  then show ?thesis
    using received_packets_decode[OF test_codec.lossless_axioms r, of "(- 1, [])"]
    by (intro exI[of _ ?s]) simp
qed

end
